(* ===== verification/Prism_Base.thy ===== *)
theory Prism_Base
  imports
    Main
    "HOL-Library.Word"
    "HOL-Library.Char_ord"
    "HOL-Library.List_Lexorder"
    "HOL-Library.Product_Lexorder"
    "HOL-Library.Multiset"
    "HOL-Library.Code_Target_Numeral"
begin

text \<open>
  The prelude: what the components share of Rust's language and standard library.
  \<^item> \<open>Result\<close> is a sum (\<open>Inl\<close> the error); \<open>rbind\<close> is the \<^verbatim>\<open>?\<close> operator, \<open>rmap\<close> is
    \<^verbatim>\<open>map(..).collect::<Result<Vec<_>, _>>()\<close>, \<open>rfold\<close> is \<^verbatim>\<open>try_fold\<close> and \<open>ok_or\<close> is
    \<^verbatim>\<open>Option::ok_or\<close>.
  \<^item> Unsigned integers are \<open>nat\<close> and signed ones \<open>int\<close>; every operation that can leave
    its width is one of the \<open>checked_\<close>, \<open>saturating_\<close> or \<open>try_from\<close> functions below, whose
    first argument is the width in bits.
  \<^item> A \<^verbatim>\<open>String\<close> is its UTF-8 bytes (\<open>string\<close>), compared byte by byte as Rust compares
    it; a byte is an \<open>8 word\<close>.
  \<^item> A \<^verbatim>\<open>BTreeMap\<close> is its list of entries in key order (\<open>bt_insert\<close>, \<open>bt_lookup\<close>).
\<close>

named_theorems res_simps \<open>when a computation over results succeeds\<close>
named_theorems checked_simps \<open>when a width-checked operation succeeds\<close>

section \<open>Results\<close>

type_synonym byte = "8 word"

fun rbind :: "'e + 'a \<Rightarrow> ('a \<Rightarrow> 'e + 'b) \<Rightarrow> 'e + 'b" where
  "rbind (Inl e) f = Inl e"
| "rbind (Inr a) f = f a"

fun rfold :: "('s \<Rightarrow> 'a \<Rightarrow> 'e + 's) \<Rightarrow> 's \<Rightarrow> 'a list \<Rightarrow> 'e + 's" where
  "rfold f s [] = Inr s"
| "rfold f s (x # xs) = rbind (f s x) (\<lambda>s'. rfold f s' xs)"

fun rmap :: "('a \<Rightarrow> 'e + 'b) \<Rightarrow> 'a list \<Rightarrow> 'e + 'b list" where
  "rmap f [] = Inr []"
| "rmap f (x # xs) = rbind (f x) (\<lambda>y. rbind (rmap f xs) (\<lambda>ys. Inr (y # ys)))"

definition ok_or :: "'a option \<Rightarrow> 'e \<Rightarrow> 'e + 'a" where
  "ok_or v e = (case v of None \<Rightarrow> Inl e | Some a \<Rightarrow> Inr a)"

definition map_err :: "('e \<Rightarrow> 'f) \<Rightarrow> 'e + 'a \<Rightarrow> 'f + 'a" where
  "map_err f r = (case r of Inl e \<Rightarrow> Inl (f e) | Inr a \<Rightarrow> Inr a)"

definition is_ok :: "'e + 'a \<Rightarrow> bool" where
  "is_ok r = (case r of Inl _ \<Rightarrow> False | Inr _ \<Rightarrow> True)"

lemma rbind_Inr [res_simps]: "rbind m f = Inr b \<longleftrightarrow> (\<exists>a. m = Inr a \<and> f a = Inr b)"
  by (cases m) auto

lemma rbind_Inl [res_simps]:
  "rbind m f = Inl e \<longleftrightarrow> m = Inl e \<or> (\<exists>a. m = Inr a \<and> f a = Inl e)"
  by (cases m) auto

lemma rbind_cong [fundef_cong]:
  "m = m' \<Longrightarrow> (\<And>a. m' = Inr a \<Longrightarrow> f a = f' a) \<Longrightarrow> rbind m f = rbind m' f'"
  by (cases m') auto

lemma ok_or_Inr [res_simps]: "ok_or v e = Inr a \<longleftrightarrow> v = Some a"
  by (simp add: ok_or_def split: option.split)

lemma ok_or_Inl [res_simps]: "ok_or v e = Inl e' \<longleftrightarrow> v = None \<and> e' = e"
  by (auto simp: ok_or_def split: option.split)

lemma map_err_Inr [res_simps]: "map_err f r = Inr a \<longleftrightarrow> r = Inr a"
  by (simp add: map_err_def split: sum.split)

lemma map_err_Inl [res_simps]: "map_err f r = Inl e \<longleftrightarrow> (\<exists>e'. r = Inl e' \<and> e = f e')"
  by (auto simp: map_err_def split: sum.split)

lemma if_Inl_Inr [res_simps]: "(if b then Inl e else r) = Inr a \<longleftrightarrow> \<not> b \<and> r = Inr a"
  by simp

lemma if_Inr_Inl [res_simps]: "(if b then r else Inl e) = Inr a \<longleftrightarrow> b \<and> r = Inr a"
  by simp

lemma ok_or_simps [simp]: "ok_or (Some a) e = Inr a" "ok_or None e = Inl e"
  by (simp_all add: ok_or_def)

lemma map_err_simps [simp]: "map_err f (Inl e) = Inl (f e)" "map_err f (Inr a) = Inr a"
  by (simp_all add: map_err_def)

lemma is_ok_iff: "is_ok r \<longleftrightarrow> (\<exists>a. r = Inr a)"
  by (auto simp: is_ok_def split: sum.split)

lemma rmap_Inr [res_simps]: "rmap f xs = Inr ys \<longleftrightarrow> list_all2 (\<lambda>x y. f x = Inr y) xs ys"
proof (induction xs arbitrary: ys)
  case Nil
  then show ?case by auto
next
  case (Cons x xs)
  then show ?case by (cases ys) (auto simp: res_simps)
qed

lemma rmap_all_ok: "(\<And>x. x \<in> set xs \<Longrightarrow> f x = Inr (g x)) \<Longrightarrow> rmap f xs = Inr (map g xs)"
  by (induction xs) auto

lemma rmap_length: "rmap f xs = Inr ys \<Longrightarrow> length ys = length xs"
  by (simp add: res_simps list_all2_lengthD)

lemma rmap_map:
  assumes "rmap f xs = Inr ys" and "\<And>x y. f x = Inr y \<Longrightarrow> g y = h x"
  shows "map g ys = map h xs"
proof -
  have "list_all2 (\<lambda>x y. f x = Inr y) xs ys" using assms(1) by (simp add: rmap_Inr)
  then show ?thesis by (induction rule: list_all2_induct) (simp_all add: assms(2))
qed

lemma rfold_append: "rfold f s (xs @ ys) = rbind (rfold f s xs) (\<lambda>s'. rfold f s' ys)"
proof (induction xs arbitrary: s)
  case (Cons x xs)
  then show ?case by (cases "f s x") auto
qed simp

lemma rfold_invariant:
  assumes "rfold f s xs = Inr t" and "P s"
    and "\<And>s x t. P s \<Longrightarrow> x \<in> set xs \<Longrightarrow> f s x = Inr t \<Longrightarrow> P t"
  shows "P t"
  using assms
proof (induction xs arbitrary: s)
  case Nil
  then show ?case by simp
next
  case (Cons x xs)
  from Cons.prems(1) obtain s' where s': "f s x = Inr s'" "rfold f s' xs = Inr t"
    by (cases "f s x") simp_all
  show ?case
  proof (rule Cons.IH[OF s'(2)])
    show "P s'" by (rule Cons.prems(3)[OF Cons.prems(2) _ s'(1)]) simp
    show "P v" if "P u" "y \<in> set xs" "f u y = Inr v" for u y v
      by (rule Cons.prems(3)[OF that(1) _ that(3)]) (simp add: that(2))
  qed
qed

lemma list_all2_eq_map: "list_all2 (\<lambda>x y. y = f x) xs ys \<longleftrightarrow> ys = map f xs"
  by (auto simp: list_all2_conv_all_nth intro: nth_equalityI)

lemma list_all2_set1: "list_all2 P xs ys \<Longrightarrow> \<forall>x\<in>set xs. \<exists>y\<in>set ys. P x y"
  by (induction rule: list_all2_induct) auto

lemma list_all2_set2: "list_all2 P xs ys \<Longrightarrow> \<forall>y\<in>set ys. \<exists>x\<in>set xs. P x y"
  by (induction rule: list_all2_induct) auto

section \<open>Fixed-width integers\<close>

type_synonym u8 = nat
type_synonym u16 = nat
type_synonym u32 = nat
type_synonym u64 = nat
type_synonym u128 = nat
type_synonym usize = nat
type_synonym i64 = int
type_synonym i128 = int

definition fits :: "nat \<Rightarrow> nat \<Rightarrow> bool" where
  "fits w n \<longleftrightarrow> n < 2 ^ w"

definition fits_signed :: "nat \<Rightarrow> int \<Rightarrow> bool" where
  "fits_signed w i \<longleftrightarrow> - (2 ^ (w - 1)) \<le> i \<and> i < 2 ^ (w - 1)"

definition checked_add :: "nat \<Rightarrow> nat \<Rightarrow> nat \<Rightarrow> nat option" where
  "checked_add w a b = (if a + b < 2 ^ w then Some (a + b) else None)"

definition checked_mul :: "nat \<Rightarrow> nat \<Rightarrow> nat \<Rightarrow> nat option" where
  "checked_mul w a b = (if a * b < 2 ^ w then Some (a * b) else None)"

definition checked_sub :: "nat \<Rightarrow> nat \<Rightarrow> nat option" where
  "checked_sub a b = (if b \<le> a then Some (a - b) else None)"

definition saturating_add :: "nat \<Rightarrow> nat \<Rightarrow> nat \<Rightarrow> nat" where
  "saturating_add w a b = min (a + b) (2 ^ w - 1)"

definition try_from :: "nat \<Rightarrow> nat \<Rightarrow> nat option" where
  "try_from w n = (if n < 2 ^ w then Some n else None)"

definition checked_add_signed :: "nat \<Rightarrow> int \<Rightarrow> int \<Rightarrow> int option" where
  "checked_add_signed w a b = (if fits_signed w (a + b) then Some (a + b) else None)"

definition checked_sub_signed :: "nat \<Rightarrow> int \<Rightarrow> int \<Rightarrow> int option" where
  "checked_sub_signed w a b = (if fits_signed w (a - b) then Some (a - b) else None)"

definition try_from_signed :: "nat \<Rightarrow> int \<Rightarrow> nat option" where
  "try_from_signed w i = (if 0 \<le> i \<and> i < 2 ^ w then Some (nat i) else None)"

lemma checked_add_Some [checked_simps]: "checked_add w a b = Some c \<longleftrightarrow> c = a + b \<and> a + b < 2 ^ w"
  by (auto simp: checked_add_def)

lemma checked_mul_Some [checked_simps]: "checked_mul w a b = Some c \<longleftrightarrow> c = a * b \<and> a * b < 2 ^ w"
  by (auto simp: checked_mul_def)

lemma checked_sub_Some [checked_simps]: "checked_sub a b = Some c \<longleftrightarrow> a = b + c"
  by (auto simp: checked_sub_def)

lemma try_from_Some [checked_simps]: "try_from w n = Some m \<longleftrightarrow> m = n \<and> n < 2 ^ w"
  by (auto simp: try_from_def)

lemma checked_add_signed_Some [checked_simps]:
  "checked_add_signed w a b = Some c \<longleftrightarrow> c = a + b \<and> fits_signed w (a + b)"
  by (auto simp: checked_add_signed_def)

lemma checked_sub_signed_Some [checked_simps]:
  "checked_sub_signed w a b = Some c \<longleftrightarrow> c = a - b \<and> fits_signed w (a - b)"
  by (auto simp: checked_sub_signed_def)

lemma try_from_signed_Some [checked_simps]:
  "try_from_signed w i = Some n \<longleftrightarrow> i = int n \<and> n < 2 ^ w"
  by (auto simp: try_from_signed_def nat_less_iff)

text \<open>The recurring \<^verbatim>\<open>iter().try_fold(0, |sum, x| sum.checked_add(x))\<close>.\<close>

definition try_sum :: "nat \<Rightarrow> 'e \<Rightarrow> nat list \<Rightarrow> 'e + nat" where
  "try_sum w e xs = rfold (\<lambda>sum x. ok_or (checked_add w sum x) e) 0 xs"

lemma rfold_checked_add:
  "rfold (\<lambda>sum x. ok_or (checked_add w sum x) e) s xs = Inr t \<longleftrightarrow>
     t = s + sum_list xs \<and> (xs \<noteq> [] \<longrightarrow> s + sum_list xs < 2 ^ w)"
proof (induction xs arbitrary: s)
  case Nil
  then show ?case by auto
next
  case (Cons x xs)
  show ?case
  proof (cases "s + x < 2 ^ w")
    case True
    then show ?thesis
      using Cons.IH[of "s + x"] by (cases "xs = []") (auto simp: checked_add_def[of w s x] add.assoc)
  next
    case False
    then show ?thesis by (simp add: checked_add_def)
  qed
qed

lemma try_sum_Inr [res_simps]:
  "try_sum w e xs = Inr t \<longleftrightarrow> t = sum_list xs \<and> sum_list xs < 2 ^ w"
  unfolding try_sum_def rfold_checked_add by (cases xs) auto

lemma rfold_checked_add_error:
  "rfold (\<lambda>sum x. ok_or (checked_add w sum x) e) s xs = Inl e' \<Longrightarrow> e' = e"
  by (induction xs arbitrary: s) (auto simp: res_simps)

lemma try_sum_Inl: "try_sum w e xs = Inl e' \<Longrightarrow> e' = e \<and> 2 ^ w \<le> sum_list xs"
  using try_sum_Inr[of w e xs "sum_list xs"] rfold_checked_add_error[of w e 0 xs e']
  by (auto simp: try_sum_def)

section \<open>Strings\<close>

definition lower_char :: "char \<Rightarrow> char" where
  "lower_char c = (let n = of_char c in if 65 \<le> n \<and> n \<le> (90::nat) then char_of (n + 32) else c)"

definition to_ascii_lowercase :: "string \<Rightarrow> string" where
  "to_ascii_lowercase s = map lower_char s"

definition eq_ignore_ascii_case :: "string \<Rightarrow> string \<Rightarrow> bool" where
  "eq_ignore_ascii_case a b \<longleftrightarrow> to_ascii_lowercase a = to_ascii_lowercase b"

definition as_bytes :: "string \<Rightarrow> byte list" where
  "as_bytes s = map of_char s"

fun show_nat :: "nat \<Rightarrow> string" where
  "show_nat n = (if n < 10 then [char_of (48 + n)] else show_nat (n div 10) @ [char_of (48 + n mod 10)])"

declare show_nat.simps [simp del]

definition show_int :: "int \<Rightarrow> string" where
  "show_int i = (if i < 0 then CHR ''-'' # show_nat (nat (- i)) else show_nat (nat i))"

text \<open>\<^verbatim>\<open>{:0w}\<close>: decimal, padded with zeros on the left to at least \<open>w\<close> characters.\<close>

definition show_nat_padded :: "nat \<Rightarrow> nat \<Rightarrow> string" where
  "show_nat_padded w n = (let s = show_nat n in replicate (w - length s) (CHR ''0'') @ s)"

lemma lower_char_idem [simp]: "lower_char (lower_char c) = lower_char c"
  by (auto simp: lower_char_def Let_def)

lemma to_ascii_lowercase_idem [simp]:
  "to_ascii_lowercase (to_ascii_lowercase s) = to_ascii_lowercase s"
  by (simp add: to_ascii_lowercase_def)

lemma to_ascii_lowercase_length [simp]: "length (to_ascii_lowercase s) = length s"
  by (simp add: to_ascii_lowercase_def)

lemma eq_ignore_ascii_case_refl [simp]: "eq_ignore_ascii_case s s"
  by (simp add: eq_ignore_ascii_case_def)

section \<open>Bytes\<close>

fun le_bytes :: "nat \<Rightarrow> nat \<Rightarrow> byte list" where
  "le_bytes 0 n = []"
| "le_bytes (Suc k) n = of_nat (n mod 256) # le_bytes k (n div 256)"

definition be_bytes :: "nat \<Rightarrow> nat \<Rightarrow> byte list" where
  "be_bytes k n = rev (le_bytes k n)"

fun from_le_bytes :: "byte list \<Rightarrow> nat" where
  "from_le_bytes [] = 0"
| "from_le_bytes (b # bs) = unat b + 256 * from_le_bytes bs"

text \<open>Two's complement of a signed value at the width of \<open>k\<close> bytes.\<close>

definition signed_bits :: "nat \<Rightarrow> int \<Rightarrow> nat" where
  "signed_bits k i = nat (i mod 256 ^ k)"

lemma byte_less: "unat (b :: byte) < 256"
  using unsigned_less[of b, where 'a = nat] by simp

lemma length_le_bytes [simp]: "length (le_bytes k n) = k"
  by (induction k arbitrary: n) auto

lemma length_be_bytes [simp]: "length (be_bytes k n) = k"
  by (simp add: be_bytes_def)

lemma from_le_bytes_le_bytes: "from_le_bytes (le_bytes k n) = n mod 256 ^ k"
proof (induction k arbitrary: n)
  case (Suc k)
  have "unat (of_nat (n mod 256) :: byte) = n mod 256" by (simp add: unat_of_nat)
  moreover have "n mod 256 + 256 * (n div 256 mod 256 ^ k) = n mod 256 ^ Suc k"
    by (metis mod_mult2_eq power_Suc add.commute)
  ultimately show ?case by (simp add: Suc)
qed simp

lemma from_le_bytes_inverse [simp]: "n < 256 ^ k \<Longrightarrow> from_le_bytes (le_bytes k n) = n"
  by (simp add: from_le_bytes_le_bytes)

lemma le_bytes_from_le_bytes: "le_bytes (length bs) (from_le_bytes bs) = bs"
proof (induction bs)
  case (Cons b bs)
  from byte_less[of b] have "(unat b + 256 * from_le_bytes bs) mod 256 = unat b"
    "(unat b + 256 * from_le_bytes bs) div 256 = from_le_bytes bs" by simp_all
  with Cons show ?case by simp
qed simp

lemma le_bytes_inj: "m < 256 ^ k \<Longrightarrow> n < 256 ^ k \<Longrightarrow> le_bytes k m = le_bytes k n \<Longrightarrow> m = n"
  by (metis from_le_bytes_inverse)

lemma from_le_bytes_less: "from_le_bytes bs < 256 ^ length bs"
proof (induction bs)
  case (Cons b bs)
  from byte_less[of b] Cons show ?case by simp
qed simp

section \<open>Lists\<close>

text \<open>\<^verbatim>\<open>slice::chunks\<close>; the length of a chunk is positive wherever the code calls it.\<close>

function chunks :: "nat \<Rightarrow> 'a list \<Rightarrow> 'a list list" where
  "chunks n xs = (if n = 0 \<or> xs = [] then [] else take n xs # chunks n (drop n xs))"
  by pat_completeness auto
termination
  by (relation "measure (\<lambda>(n, xs). length xs)") auto

declare chunks.simps [simp del]

lemma chunks_Nil [simp]: "chunks n [] = []"
  by (subst chunks.simps) simp

lemma concat_chunks: "0 < n \<Longrightarrow> concat (chunks n xs) = xs"
proof (induction n xs rule: chunks.induct)
  case (1 n xs)
  then show ?case by (cases "xs = []") (simp_all add: chunks.simps[of n xs])
qed

lemma chunks_bound: "c \<in> set (chunks n xs) \<Longrightarrow> 0 < length c \<and> length c \<le> n"
proof (induction n xs rule: chunks.induct)
  case (1 n xs)
  then show ?case by (cases "n = 0 \<or> xs = []") (auto simp: chunks.simps[of n xs])
qed

lemma length_chunks: "0 < n \<Longrightarrow> length (chunks n xs) = (length xs + (n - 1)) div n"
proof (induction n xs rule: chunks.induct)
  case (1 n xs)
  show ?case
  proof (cases "xs = []")
    case True
    with 1 show ?thesis by simp
  next
    case False
    have "length (chunks n xs) = Suc ((length xs - n + (n - 1)) div n)"
      using 1 False by (simp add: chunks.simps[of n xs])
    also have "\<dots> = (length xs + (n - 1)) div n"
    proof (cases "n \<le> length xs")
      case True
      then have "length xs + (n - 1) = n + (length xs - n + (n - 1))" by simp
      then show ?thesis using \<open>0 < n\<close> by (metis div_add_self1 Suc_eq_plus1 neq0_conv)
    next
      case False
      then obtain r where "length xs = Suc r" "r < n"
        using \<open>xs \<noteq> []\<close> by (cases xs) auto
      then have "(length xs + (n - 1)) div n = (r + n) div n" using \<open>0 < n\<close> by simp
      also have "\<dots> = Suc 0" using \<open>r < n\<close> \<open>0 < n\<close> by (simp add: div_add_self2)
      finally show ?thesis using False \<open>0 < n\<close> by simp
    qed
    finally show ?thesis .
  qed
qed

lemma chunks_eq_Nil [simp]: "0 < n \<Longrightarrow> chunks n xs = [] \<longleftrightarrow> xs = []"
  by (subst chunks.simps) auto

end
