(* ===== verification/Prism_Types.thy ===== *)
theory Prism_Types
  imports Prism_Base
begin

text \<open>
  The data that more than one component uses, and the third-party code the components call.

  \<^item> The record \<open>payee\<close> holds the three strings that name a payee everywhere in the
    repository. The structs that carry them extend it, so that \<open>recipient_id\<close>, \<open>order_key\<close> and
    \<open>p2mr_program_hex\<close> are the same selectors throughout and \<open>payee_order\<close> is the one order
    in which every component sorts.
  \<^item> The record \<open>crypto\<close> is the code of the crates \<^verbatim>\<open>hex\<close>, \<^verbatim>\<open>sha2\<close> and \<^verbatim>\<open>ed25519-dalek\<close>, which is not part
    of the repository: it is an argument of every definition that calls it. The predicates
    \<open>hex_law\<close>, \<open>sha_law\<close> and \<open>ed25519_law\<close> state the documented behaviour that a few
    properties rely on, and \<open>demo_crypto\<close> is a concrete instance of all three.
\<close>

section \<open>Payees\<close>

record payee =
  recipient_id :: string
  order_key :: string
  p2mr_program_hex :: string

record WeightedEntitlement = payee +
  weight :: u128

type_synonym payee_key = "string \<times> string \<times> string"

text \<open>\<^verbatim>\<open>order_key\<close>, then \<^verbatim>\<open>recipient_id\<close>, then \<^verbatim>\<open>p2mr_program_hex\<close>: the canonical order.\<close>

definition payee_order :: "('x) payee_scheme \<Rightarrow> payee_key" where
  "payee_order p = (order_key p, recipient_id p, p2mr_program_hex p)"

lemma payee_order_eq_iff: "payee_order p = payee_order q \<longleftrightarrow>
  order_key p = order_key q \<and> recipient_id p = recipient_id q \<and>
  p2mr_program_hex p = p2mr_program_hex q"
  by (simp add: payee_order_def)

section \<open>Third-party code\<close>

record crypto =
  hex_decode :: "string \<Rightarrow> string + byte list"
  hex_encode :: "byte list \<Rightarrow> string"
  sha256 :: "byte list \<Rightarrow> byte list"
  ed_public_key :: "byte list \<Rightarrow> byte list"
  ed_sign :: "byte list \<Rightarrow> byte list \<Rightarrow> byte list"
  ed_parse_key :: "byte list \<Rightarrow> bool"
  ed_verify :: "byte list \<Rightarrow> byte list \<Rightarrow> byte list \<Rightarrow> bool"

text \<open>
  \<^verbatim>\<open>hex\<close>: decoding reads what encoding wrote, in either case of letters, and encoding writes
  lower-case letters only. An error carries the text of its \<^verbatim>\<open>Display\<close>.
\<close>

definition hex_law :: "crypto \<Rightarrow> bool" where
  "hex_law X \<longleftrightarrow>
     (\<forall>bs. hex_decode X (hex_encode X bs) = Inr bs) \<and>
     (\<forall>s bs. hex_decode X s = Inr bs \<longrightarrow> hex_encode X bs = to_ascii_lowercase s)"

definition sha_law :: "crypto \<Rightarrow> bool" where
  "sha_law X \<longleftrightarrow> (\<forall>bs. length (sha256 X bs) = 32)"

text \<open>
  \<^verbatim>\<open>ed25519-dalek\<close>: the public key of a 32-byte seed is a valid encoding of 32 bytes, a
  signature is 64 bytes long, and a signature made with a seed verifies under its public key.
\<close>

definition ed25519_law :: "crypto \<Rightarrow> bool" where
  "ed25519_law X \<longleftrightarrow>
     (\<forall>seed. length seed = 32 \<longrightarrow>
        length (ed_public_key X seed) = 32 \<and> ed_parse_key X (ed_public_key X seed) \<and>
        (\<forall>m. length (ed_sign X seed m) = 64 \<and>
             ed_verify X (ed_public_key X seed) m (ed_sign X seed m)))"

lemma hex_decode_encode: "hex_law X \<Longrightarrow> hex_decode X (hex_encode X bs) = Inr bs"
  by (simp add: hex_law_def)

lemma hex_encode_decode: "hex_law X \<Longrightarrow> hex_decode X s = Inr bs \<Longrightarrow> hex_encode X bs = to_ascii_lowercase s"
  by (simp add: hex_law_def)

lemma hex_encode_inj: "hex_law X \<Longrightarrow> hex_encode X a = hex_encode X b \<longleftrightarrow> a = b"
  by (metis Inr_inject hex_decode_encode)

lemma sha256_length: "sha_law X \<Longrightarrow> length (sha256 X bs) = 32"
  by (simp add: sha_law_def)

section \<open>A concrete instance\<close>

text \<open>The text \<^verbatim>\<open>{:02x}\<close> of a byte.\<close>

definition hex_digit :: "nat \<Rightarrow> char" where
  "hex_digit n = char_of (if n < 10 then 48 + n else 87 + n)"

definition fmt_02x :: "byte \<Rightarrow> string" where
  "fmt_02x b = [hex_digit (unat b div 16), hex_digit (unat b mod 16)]"

text \<open>\<^verbatim>\<open>hex::encode\<close> writes two lower-case digits per byte.\<close>

definition hex_text_law :: "crypto \<Rightarrow> bool" where
  "hex_text_law X \<longleftrightarrow> (\<forall>bs. hex_encode X bs = concat (map fmt_02x bs))"

lemma decoded_length: "hex_law X \<Longrightarrow> hex_text_law X \<Longrightarrow> hex_decode X s = Inr bs \<Longrightarrow> length s = 2 * length bs"
proof -
  assume "hex_law X" "hex_text_law X" "hex_decode X s = Inr bs"
  then have "length (concat (map fmt_02x bs)) = length s"
    by (metis hex_encode_decode hex_text_law_def to_ascii_lowercase_length)
  moreover have "length (concat (map fmt_02x bs)) = 2 * length bs"
    by (induction bs) (simp_all add: fmt_02x_def)
  ultimately show ?thesis by simp
qed

definition digit_value :: "char \<Rightarrow> nat option" where
  "digit_value c = (let n = of_char c in
     if 48 \<le> n \<and> n \<le> 57 then Some (n - 48)
     else if 97 \<le> n \<and> n \<le> 102 then Some (n - 87)
     else if 65 \<le> n \<and> n \<le> 70 then Some (n - 55)
     else None)"

fun demo_decode :: "string \<Rightarrow> string + byte list" where
  "demo_decode [] = Inr []"
| "demo_decode [c] = Inl ''Odd number of digits''"
| "demo_decode (c # d # cs) = (case (digit_value c, digit_value d) of
     (Some h, Some l) \<Rightarrow> rbind (demo_decode cs) (\<lambda>bs. Inr (of_nat (16 * h + l) # bs))
   | _ \<Rightarrow> Inl ''Invalid character'')"

definition demo_crypto :: crypto where
  "demo_crypto = \<lparr> hex_decode = demo_decode, hex_encode = (\<lambda>bs. concat (map fmt_02x bs)),
     sha256 = (\<lambda>bs. take 32 (rev bs @ replicate 32 7)),
     ed_public_key = (\<lambda>seed. seed), ed_sign = (\<lambda>seed m. take 64 (seed @ m @ replicate 64 0)),
     ed_parse_key = (\<lambda>k. True),
     ed_verify = (\<lambda>k m s. s = take 64 (k @ m @ replicate 64 0)) \<rparr>"

lemma demo_crypto_simps [simp]:
  "hex_decode demo_crypto = demo_decode"
  "hex_encode demo_crypto = (\<lambda>bs. concat (map fmt_02x bs))"
  "sha256 demo_crypto = (\<lambda>bs. take 32 (rev bs @ replicate 32 7))"
  "ed_public_key demo_crypto = (\<lambda>seed. seed)"
  "ed_sign demo_crypto = (\<lambda>seed m. take 64 (seed @ m @ replicate 64 0))"
  "ed_parse_key demo_crypto = (\<lambda>k. True)"
  "ed_verify demo_crypto = (\<lambda>k m s. s = take 64 (k @ m @ replicate 64 0))"
  by (simp_all add: demo_crypto_def)

lemma digit_value_hex_digit: "n < 16 \<Longrightarrow> digit_value (hex_digit n) = Some n"
  by (auto simp: digit_value_def hex_digit_def Let_def)

lemma digit_value_lower: "digit_value c = Some h \<Longrightarrow> h < 16 \<and> hex_digit h = lower_char c"
proof -
  assume h: "digit_value c = Some h"
  define n where "n = (of_char c :: nat)"
  have c: "c = char_of n" by (simp add: n_def)
  show ?thesis using h
    by (auto simp: digit_value_def hex_digit_def lower_char_def Let_def c[symmetric] n_def[symmetric]
        split: if_splits)
qed

lemma demo_decode_encode: "demo_decode (concat (map fmt_02x bs)) = Inr bs"
proof (induction bs)
  case (Cons b bs)
  have "unat b div 16 < 16" using byte_less[of b] by simp
  then show ?case
    using Cons by (simp add: fmt_02x_def digit_value_hex_digit)
qed simp

lemma demo_encode_decode: "demo_decode s = Inr bs \<Longrightarrow> concat (map fmt_02x bs) = to_ascii_lowercase s"
proof (induction s arbitrary: bs rule: demo_decode.induct)
  case (3 c d cs)
  from 3(2) obtain h l bs' where h: "digit_value c = Some h" and l: "digit_value d = Some l"
    and bs': "demo_decode cs = Inr bs'" and bs: "bs = of_nat (16 * h + l) # bs'"
    by (auto simp: res_simps split: option.splits)
  have hl: "h < 16" "l < 16" "hex_digit h = lower_char c" "hex_digit l = lower_char d"
    using digit_value_lower h l by blast+
  then have "16 * h + l < 256" by simp
  then have u: "unat (of_nat (16 * h + l) :: byte) = 16 * h + l"
    by (simp add: unat_of_nat del: of_nat_add of_nat_mult)
  have "concat (map fmt_02x bs') = to_ascii_lowercase cs"
    using 3(1) h l bs' by simp
  then show ?case
    using hl by (simp add: bs fmt_02x_def[of "of_nat (16 * h + l)"] u to_ascii_lowercase_def del: of_nat_add of_nat_mult)
qed (simp_all add: to_ascii_lowercase_def)

lemma demo_crypto_hex: "hex_law demo_crypto"
  by (simp add: hex_law_def demo_decode_encode demo_encode_decode)

lemma demo_crypto_hex_text: "hex_text_law demo_crypto"
  by (simp add: hex_text_law_def)

lemma demo_crypto_sha: "sha_law demo_crypto"
  by (simp add: sha_law_def min_def)

lemma demo_crypto_ed25519: "ed25519_law demo_crypto"
  by (simp add: ed25519_law_def min_def)

lemmas demo_crypto_laws = demo_crypto_hex demo_crypto_sha demo_crypto_ed25519

end
