(* ===== verification/Largest_Remainder.thy ===== *)
theory Largest_Remainder
  imports Prism_Base "HOL-Library.Multiset"
begin

text \<open>
  Splitting an amount in proportion to weights by the largest-remainder method. Three
  routines of the repository do it (\<^verbatim>\<open>allocate_weighted_amounts\<close> of \<^verbatim>\<open>qbit-prism\<close>,
  \<^verbatim>\<open>allocate_outputs\<close> of \<^verbatim>\<open>qbit-pool-builder\<close> and \<^verbatim>\<open>allocate_proportional_fee\<close> of the
  settlement module): each takes the floor of every proportional share and hands the
  units that are left to the shares with the largest remainders. The predicate
  \<open>largest_remainder\<close> says what such a split is, the locale \<open>proportional_allocator\<close> is the
  contract of a routine that computes one, and its lemmas are what the callers rely on:
  the split is exact, no share is off by a whole unit, and nobody gets more than its
  weight when the amount is at most the sum of the weights.
\<close>

section \<open>What a split is\<close>

definition lr_base :: "nat \<Rightarrow> nat \<Rightarrow> nat \<Rightarrow> nat" where
  "lr_base T W w = T * w div W"

definition lr_rem :: "nat \<Rightarrow> nat \<Rightarrow> nat \<Rightarrow> nat" where
  "lr_rem T W w = T * w mod W"

definition lr_left :: "nat \<Rightarrow> nat list \<Rightarrow> nat" where
  "lr_left T ws = T - sum_list (map (lr_base T (sum_list ws)) ws)"

definition largest_remainder :: "nat \<Rightarrow> nat list \<Rightarrow> nat list \<Rightarrow> bool" where
  "largest_remainder T ws as \<longleftrightarrow>
     length as = length ws \<and> 0 < sum_list ws \<and>
     (\<exists>I \<subseteq> {..<length ws}. card I = lr_left T ws \<and>
        (\<forall>i<length ws. as ! i = lr_base T (sum_list ws) (ws ! i) + (if i \<in> I then 1 else 0)) \<and>
        (\<forall>i\<in>I. \<forall>j<length ws. j \<notin> I \<longrightarrow>
           lr_rem T (sum_list ws) (ws ! j) \<le> lr_rem T (sum_list ws) (ws ! i)))"

lemma lr_split: "T * w = lr_base T W w * W + lr_rem T W w"
  by (simp add: lr_base_def lr_rem_def)

lemma lr_rem_less: "0 < W \<Longrightarrow> lr_rem T W w < W"
  by (simp add: lr_rem_def)

lemma lr_sum_split:
  "T * sum_list ws = sum_list (map (lr_base T W) ws) * W + sum_list (map (lr_rem T W) ws)"
proof (induction ws)
  case (Cons w ws)
  then show ?case using lr_split[of T w W] by (simp add: algebra_simps)
qed simp

lemma lr_base_sum_le: "0 < sum_list ws \<Longrightarrow> sum_list (map (lr_base T (sum_list ws)) ws) \<le> T"
  using lr_sum_split[of T ws "sum_list ws"]
  by (metis le_add1 mult_le_cancel2)

lemma lr_left_times: "0 < sum_list ws \<Longrightarrow>
  lr_left T ws * sum_list ws = sum_list (map (lr_rem T (sum_list ws)) ws)"
  using lr_sum_split[of T ws "sum_list ws"] by (simp add: lr_left_def diff_mult_distrib)

text \<open>Fewer units are left than there are shares with a remainder.\<close>

lemma sum_list_le_card:
  fixes xs :: "nat list"
  assumes "\<forall>x\<in>set xs. x < W"
  shows "sum_list xs \<le> card {i. i < length xs \<and> 0 < xs ! i} * W"
proof -
  let ?P = "{i. i < length xs \<and> 0 < xs ! i}"
  have "sum_list xs = (\<Sum>i<length xs. xs ! i)"
    by (simp add: sum_list_sum_nth atLeast0LessThan)
  also have "\<dots> = (\<Sum>i\<in>?P. xs ! i)"
    by (rule sum.mono_neutral_right) auto
  also have "\<dots> \<le> (\<Sum>i\<in>?P. W)"
    using assms by (intro sum_mono) (auto intro: less_imp_le)
  finally show ?thesis by simp
qed

lemma lr_left_le_card:
  assumes "0 < sum_list ws"
  shows "lr_left T ws \<le> card {i. i < length ws \<and> 0 < lr_rem T (sum_list ws) (ws ! i)}"
proof -
  let ?xs = "map (lr_rem T (sum_list ws)) ws"
  have "sum_list ?xs \<le> card {i. i < length ?xs \<and> 0 < ?xs ! i} * sum_list ws"
    by (rule sum_list_le_card) (use assms in \<open>auto simp: lr_rem_less\<close>)
  also have "{i. i < length ?xs \<and> 0 < ?xs ! i} =
      {i. i < length ws \<and> 0 < lr_rem T (sum_list ws) (ws ! i)}" by auto
  finally show ?thesis using lr_left_times[OF assms, of T] assms
    by (metis mult_le_cancel2)
qed

lemma lr_left_le_length: "0 < sum_list ws \<Longrightarrow> lr_left T ws \<le> length ws"
  using lr_left_le_card[of ws T]
    card_mono[of "{..<length ws}" "{i. i < length ws \<and> 0 < lr_rem T (sum_list ws) (ws ! i)}"]
  by fastforce

lemma lr_chosen_rem_pos:
  assumes "0 < sum_list ws" and "I \<subseteq> {..<length ws}" and "card I = lr_left T ws"
    and top: "\<forall>i\<in>I. \<forall>j<length ws. j \<notin> I \<longrightarrow>
       lr_rem T (sum_list ws) (ws ! j) \<le> lr_rem T (sum_list ws) (ws ! i)"
    and "i \<in> I"
  shows "0 < lr_rem T (sum_list ws) (ws ! i)"
proof (rule ccontr)
  assume zero: "\<not> ?thesis"
  let ?P = "{j. j < length ws \<and> 0 < lr_rem T (sum_list ws) (ws ! j)}"
  have "?P \<subseteq> I - {i}"
  proof
    fix j assume j: "j \<in> ?P"
    with zero have "j \<noteq> i" by auto
    moreover have "j \<in> I" using j top \<open>i \<in> I\<close> zero by fastforce
    ultimately show "j \<in> I - {i}" by simp
  qed
  moreover have "finite I" using assms(2) finite_subset by blast
  ultimately have "card ?P \<le> card I - 1"
    using \<open>i \<in> I\<close> by (metis card_Diff_singleton card_mono finite_Diff)
  moreover have "0 < card I" using \<open>finite I\<close> \<open>i \<in> I\<close> by (auto simp: card_gt_0_iff)
  ultimately show False using lr_left_le_card[OF assms(1), of T] assms(3) by simp
qed

section \<open>What a split guarantees\<close>

lemma largest_remainder_sum:
  assumes "largest_remainder T ws as"
  shows "sum_list as = T"
proof -
  let ?n = "length ws"
  obtain I where I: "I \<subseteq> {..<?n}" "card I = lr_left T ws"
    and as: "\<forall>i<?n. as ! i = lr_base T (sum_list ws) (ws ! i) + (if i \<in> I then 1 else 0)"
    and pos: "0 < sum_list ws" and len: "length as = ?n"
    using assms by (auto simp: largest_remainder_def)
  have "sum_list as = (\<Sum>i<?n. as ! i)"
    by (simp add: sum_list_sum_nth atLeast0LessThan len)
  also have "\<dots> = (\<Sum>i<?n. lr_base T (sum_list ws) (ws ! i)) + (\<Sum>i<?n. if i \<in> I then 1 else 0)"
    using as by (simp add: sum.distrib)
  also have "(\<Sum>i<?n. if i \<in> I then 1 else 0) = card I"
    using I(1) by (simp add: sum.If_cases Int_absorb1)
  also have "(\<Sum>i<?n. lr_base T (sum_list ws) (ws ! i)) =
      sum_list (map (lr_base T (sum_list ws)) ws)"
    by (simp add: sum_list_sum_nth atLeast0LessThan)
  finally show ?thesis using I(2) lr_base_sum_le[OF pos, of T] by (simp add: lr_left_def)
qed

lemma largest_remainder_floor:
  "largest_remainder T ws as \<Longrightarrow> i < length ws \<Longrightarrow> T * ws ! i div sum_list ws \<le> as ! i"
  by (auto simp: largest_remainder_def lr_base_def)

lemma largest_remainder_ceiling:
  assumes "largest_remainder T ws as" "i < length ws"
  shows "as ! i * sum_list ws < T * ws ! i + sum_list ws"
proof -
  let ?W = "sum_list ws"
  obtain I where I: "I \<subseteq> {..<length ws}" "card I = lr_left T ws"
    and as: "\<forall>i<length ws. as ! i = lr_base T ?W (ws ! i) + (if i \<in> I then 1 else 0)"
    and top: "\<forall>i\<in>I. \<forall>j<length ws. j \<notin> I \<longrightarrow> lr_rem T ?W (ws ! j) \<le> lr_rem T ?W (ws ! i)"
    and pos: "0 < ?W"
    using assms(1) by (auto simp: largest_remainder_def)
  have sp: "T * ws ! i = lr_base T ?W (ws ! i) * ?W + lr_rem T ?W (ws ! i)" by (rule lr_split)
  show ?thesis
  proof (cases "i \<in> I")
    case True
    have "0 < lr_rem T ?W (ws ! i)" by (rule lr_chosen_rem_pos[OF pos I top True])
    with True as assms(2) sp show ?thesis by simp
  next
    case False
    with as assms(2) sp pos show ?thesis by simp
  qed
qed

lemma largest_remainder_le_weight:
  assumes "largest_remainder T ws as" "i < length ws" "T \<le> sum_list ws"
  shows "as ! i \<le> ws ! i"
proof -
  let ?W = "sum_list ws"
  have "as ! i * ?W < T * ws ! i + ?W" by (rule largest_remainder_ceiling[OF assms(1,2)])
  also have "\<dots> \<le> ?W * ws ! i + ?W" using assms(3) by simp
  also have "\<dots> = Suc (ws ! i) * ?W" by simp
  finally show ?thesis by (metis less_Suc_eq_le mult_less_cancel2)
qed

lemma largest_remainder_zero:
  assumes "largest_remainder T ws as" "i < length ws" "ws ! i = 0"
  shows "as ! i = 0"
  using largest_remainder_ceiling[OF assms(1,2)] assms(3) by simp

section \<open>Handing out the units that are left\<close>

text \<open>
  The loop \<^verbatim>\<open>for index in order.into_iter().take(n) { v[index].amount = v[index].amount
  .checked_add(1)? }\<close>, with the field read by \<open>get\<close> and written by \<open>put\<close>; the indices come
  from \<^verbatim>\<open>0..v.len()\<close>, so indexing never panics.
\<close>

definition bump_at ::
  "'e \<Rightarrow> ('p \<Rightarrow> nat) \<Rightarrow> (nat \<Rightarrow> 'p \<Rightarrow> 'p) \<Rightarrow> nat list \<Rightarrow> 'p list \<Rightarrow> 'e + 'p list" where
  "bump_at e get put is ps =
     rfold (\<lambda>ps i. rbind (ok_or (checked_add 64 (get (ps ! i)) 1) e)
                     (\<lambda>a. Inr (ps[i := put a (ps ! i)]))) ps is"

lemma bump_at_Nil [simp]: "bump_at e get put [] ps = Inr ps"
  by (simp add: bump_at_def)

lemma bump_at_Cons: "bump_at e get put (i # is) ps =
  rbind (ok_or (checked_add 64 (get (ps ! i)) 1) e)
    (\<lambda>a. bump_at e get put is (ps[i := put a (ps ! i)]))"
  by (cases "checked_add 64 (get (ps ! i)) 1") (simp_all add: bump_at_def)

lemma bump_at_ok:
  assumes "distinct is" "\<forall>i\<in>set is. i < length ps \<and> get (ps ! i) + 1 < 2 ^ 64"
  shows "bump_at e get put is ps =
    Inr (map (\<lambda>i. if i \<in> set is then put (get (ps ! i) + 1) (ps ! i) else ps ! i) [0..<length ps])"
  using assms
proof (induction "is" arbitrary: ps)
  case Nil
  then show ?case by (simp add: map_nth)
next
  case (Cons i "is")
  let ?ps = "ps[i := put (get (ps ! i) + 1) (ps ! i)]"
  have "bump_at e get put (i # is) ps = bump_at e get put is ?ps"
    using Cons.prems by (simp add: bump_at_Cons checked_add_def fits_def)
  also have "\<dots> = Inr (map (\<lambda>j. if j \<in> set is then put (get (?ps ! j) + 1) (?ps ! j) else ?ps ! j)
      [0..<length ?ps])"
    using Cons.prems by (intro Cons.IH) (auto simp: nth_list_update)
  also have "\<dots> = Inr (map (\<lambda>j. if j \<in> set (i # is) then put (get (ps ! j) + 1) (ps ! j) else ps ! j)
      [0..<length ps])"
    using Cons.prems by (auto simp: nth_list_update)
  finally show ?case .
qed

lemma sorted_take_drop:
  assumes "sorted (map k xs)" "x \<in> set (take n xs)" "y \<in> set (drop n xs)"
  shows "k x \<le> k y"
proof -
  have "sorted (map k (take n xs) @ map k (drop n xs))"
    using assms(1) by (metis append_take_drop_id map_append)
  with assms(2,3) show ?thesis by (auto simp: sorted_append)
qed

lemma largest_remainder_by_order:
  fixes k :: "nat \<Rightarrow> 'k :: linorder"
  assumes pos: "0 < sum_list ws"
    and len: "length as = length ws"
    and key: "\<And>i j. i < length ws \<Longrightarrow> j < length ws \<Longrightarrow> k i \<le> k j \<Longrightarrow>
       lr_rem T (sum_list ws) (ws ! j) \<le> lr_rem T (sum_list ws) (ws ! i)"
    and as: "\<And>i. i < length ws \<Longrightarrow> as ! i = lr_base T (sum_list ws) (ws ! i) +
       (if i \<in> set (take (lr_left T ws) (sort_key k [0..<length ws])) then 1 else 0)"
  shows "largest_remainder T ws as"
proof -
  let ?ord = "sort_key k [0..<length ws]"
  let ?I = "set (take (lr_left T ws) ?ord)"
  have sub: "?I \<subseteq> {..<length ws}"
    using set_take_subset[of "lr_left T ws" ?ord] by (auto simp: subset_iff)
  have "card ?I = lr_left T ws"
    using lr_left_le_length[OF pos, of T] by (simp add: distinct_card)
  moreover have "lr_rem T (sum_list ws) (ws ! j) \<le> lr_rem T (sum_list ws) (ws ! i)"
    if "i \<in> ?I" "j < length ws" "j \<notin> ?I" for i j
  proof -
    have "j \<in> set ?ord" using that(2) by simp
    then have "j \<in> ?I \<union> set (drop (lr_left T ws) ?ord)"
      by (metis append_take_drop_id set_append)
    then have "k i \<le> k j"
      using that sorted_take_drop[of k ?ord i "lr_left T ws" j] by simp
    then show ?thesis using key that sub by blast
  qed
  ultimately show ?thesis
    unfolding largest_remainder_def using pos len as sub
    by (intro conjI exI[of _ ?I]) auto
qed

lemma lr_left_mset: "mset ws = mset ws' \<Longrightarrow> lr_left T ws = lr_left T ws'"
  unfolding lr_left_def by (metis mset_map sum_mset_sum_list)

lemma largest_remainder_prefix:
  assumes "0 < sum_list ws" "length as = length ws"
    and "\<And>i j. i < lr_left T ws \<Longrightarrow> lr_left T ws \<le> j \<Longrightarrow> j < length ws \<Longrightarrow>
       lr_rem T (sum_list ws) (ws ! j) \<le> lr_rem T (sum_list ws) (ws ! i)"
    and "\<And>i. i < length ws \<Longrightarrow> as ! i = lr_base T (sum_list ws) (ws ! i) + (if i < lr_left T ws then 1 else 0)"
  shows "largest_remainder T ws as"
  unfolding largest_remainder_def
  using assms lr_left_le_length[OF assms(1), of T]
  by (intro conjI exI[of _ "{..<lr_left T ws}"]) auto

lemma lr_base_bump_le:
  assumes "0 < sum_list ws" "0 < lr_left T ws" "i < length ws"
  shows "lr_base T (sum_list ws) (ws ! i) + 1 \<le> T"
proof -
  have "lr_base T (sum_list ws) (ws ! i) \<le> sum_list (map (lr_base T (sum_list ws)) ws)"
    by (rule member_le_sum_list) (use assms(3) in auto)
  with assms(2) show ?thesis by (simp add: lr_left_def)
qed

lemma lr_base_le:
  assumes "0 < sum_list ws" "w \<in> set ws"
  shows "lr_base T (sum_list ws) w \<le> T"
  using member_le_sum_list[of "lr_base T (sum_list ws) w" "map (lr_base T (sum_list ws)) ws"]
    lr_base_sum_le[OF assms(1), of T] assms(2) by simp

text \<open>
  The loop as the routines run it: every share starts at its floor, the indices are ordered
  by a key that puts larger remainders first, and as many of them are taken as units are left.
\<close>

lemma bump_at_largest_remainder:
  fixes k :: "nat \<Rightarrow> 'k :: linorder"
  assumes T: "T < 2 ^ 64" and pos: "0 < sum_list ws" and len: "length ps = length ws"
    and get: "\<And>i. i < length ws \<Longrightarrow> get (ps ! i) = lr_base T (sum_list ws) (ws ! i)"
    and key: "\<And>i j. i < length ws \<Longrightarrow> j < length ws \<Longrightarrow> k i \<le> k j \<Longrightarrow>
       lr_rem T (sum_list ws) (ws ! j) \<le> lr_rem T (sum_list ws) (ws ! i)"
    and put: "\<And>a p. get (put a p) = a"
  shows "sum_list (map get ps) \<le> T \<and> (\<exists>ps'.
     bump_at e get put (take (T - sum_list (map get ps)) (sort_key k [0..<length ps])) ps = Inr ps' \<and>
     list_all2 (\<lambda>p q. \<exists>a. q = put a p \<or> q = p) ps ps' \<and> largest_remainder T ws (map get ps'))"
proof -
  have gets: "map get ps = map (lr_base T (sum_list ws)) ws"
    by (rule nth_equalityI) (simp_all add: len get)
  let ?ord = "sort_key k [0..<length ps]"
  let ?I = "set (take (lr_left T ws) ?ord)"
  let ?f = "\<lambda>i. if i \<in> ?I then put (get (ps ! i) + 1) (ps ! i) else ps ! i"
  have sub: "\<forall>i\<in>?I. i < length ps" using set_take_subset[of _ ?ord] by (auto simp: subset_iff)
  have "bump_at e get put (take (lr_left T ws) ?ord) ps = Inr (map ?f [0..<length ps])"
  proof (rule bump_at_ok)
    show "\<forall>i\<in>?I. i < length ps \<and> get (ps ! i) + 1 < 2 ^ 64"
    proof
      fix i assume i: "i \<in> ?I"
      then have "0 < lr_left T ws" "i < length ws" using sub len by (auto intro: ccontr)
      then have "lr_base T (sum_list ws) (ws ! i) + 1 \<le> T" by (rule lr_base_bump_le[OF pos])
      then show "i < length ps \<and> get (ps ! i) + 1 < 2 ^ 64" using T get \<open>i < length ws\<close> len by simp
    qed
  qed simp
  moreover have "largest_remainder T ws (map get (map ?f [0..<length ps]))"
    by (rule largest_remainder_by_order[OF pos _ key]) (auto simp: len get put)
  moreover have "list_all2 (\<lambda>p q. \<exists>a. q = put a p \<or> q = p) ps (map ?f [0..<length ps])"
    by (auto simp: list_all2_conv_all_nth)
  ultimately show ?thesis
    using lr_base_sum_le[OF pos, of T] unfolding gets lr_left_def by blast
qed

section \<open>The contract of an allocation routine\<close>

locale proportional_allocator =
  fixes alloc :: "nat \<Rightarrow> 'e list \<Rightarrow> 'err + 'a list"
    and key :: "'e \<Rightarrow> 'k"
    and akey :: "'a \<Rightarrow> 'k"
    and wt :: "'k \<Rightarrow> nat"
    and amount :: "'a \<Rightarrow> nat"
  assumes alloc_split: "alloc T es = Inr xs \<Longrightarrow> T < 2 ^ 64 \<Longrightarrow>
      mset (map akey xs) = mset (map key es) \<and>
      largest_remainder T (map (\<lambda>x. wt (akey x)) xs) (map amount xs)"
begin

lemma alloc_keys: "alloc T es = Inr xs \<Longrightarrow> T < 2 ^ 64 \<Longrightarrow> mset (map akey xs) = mset (map key es)"
  using alloc_split by blast

lemma alloc_length: "alloc T es = Inr xs \<Longrightarrow> T < 2 ^ 64 \<Longrightarrow> length xs = length es"
  using alloc_keys by (metis length_map mset_eq_length)

lemma alloc_weights:
  assumes "alloc T es = Inr xs" "T < 2 ^ 64"
  shows "sum_list (map (\<lambda>x. wt (akey x)) xs) = sum_list (map (\<lambda>e. wt (key e)) es)"
proof -
  have "mset (map wt (map akey xs)) = mset (map wt (map key es))"
    using alloc_keys[OF assms] by (metis mset_map)
  then have "sum_mset (mset (map wt (map akey xs))) = sum_mset (mset (map wt (map key es)))"
    by simp
  then show ?thesis by (simp only: sum_mset_sum_list map_map comp_def)
qed

lemma alloc_total: "alloc T es = Inr xs \<Longrightarrow> T < 2 ^ 64 \<Longrightarrow> sum_list (map amount xs) = T"
  using alloc_split largest_remainder_sum by blast

lemma alloc_near:
  assumes "alloc T es = Inr xs" "T < 2 ^ 64" "x \<in> set xs"
  defines "W \<equiv> sum_list (map (\<lambda>e. wt (key e)) es)"
  shows "T * wt (akey x) div W \<le> amount x" "amount x * W < T * wt (akey x) + W"
proof -
  obtain i where i: "i < length xs" "x = xs ! i" using assms(3) by (auto simp: in_set_conv_nth)
  have lr: "largest_remainder T (map (\<lambda>x. wt (akey x)) xs) (map amount xs)"
    using alloc_split assms(1,2) by blast
  show "T * wt (akey x) div W \<le> amount x"
    using largest_remainder_floor[OF lr, of i] i alloc_weights[OF assms(1,2)] by (simp add: W_def)
  show "amount x * W < T * wt (akey x) + W"
    using largest_remainder_ceiling[OF lr, of i] i alloc_weights[OF assms(1,2)] by (simp add: W_def)
qed

lemma alloc_le_weight:
  assumes "alloc T es = Inr xs" "T < 2 ^ 64" "x \<in> set xs" "T \<le> sum_list (map (\<lambda>e. wt (key e)) es)"
  shows "amount x \<le> wt (akey x)"
proof -
  obtain i where i: "i < length xs" "x = xs ! i" using assms(3) by (auto simp: in_set_conv_nth)
  have lr: "largest_remainder T (map (\<lambda>x. wt (akey x)) xs) (map amount xs)"
    using alloc_split assms(1,2) by blast
  show ?thesis
    using largest_remainder_le_weight[OF lr, of i] i alloc_weights[OF assms(1,2)] assms(4) by simp
qed

end

end
