(* ===== verification/Pool_Builder.thy ===== *)
theory Pool_Builder
  imports Prism_Types Largest_Remainder
begin

text \<open>
  The crate \<^verbatim>\<open>qbit-pool-builder\<close> (\<^verbatim>\<open>src/crates/qbit-pool-builder/src/lib.rs\<close>): from a block
  height, a coinbase value and weighted entitlements it allocates one output per
  entitlement, serializes the coinbase transaction with and without its witness, and signs
  the manifest that describes it. The serialized transaction is built with the buffers the
  code appends to; a fixed-size array is a \<open>byte list\<close> whose length the lemmas give. The
  serializer of the manifest (\<^verbatim>\<open>serde_json::to_vec\<close>) is the argument \<open>json\<close> of the definitions
  that sign and verify.
\<close>

section \<open>Data\<close>

definition P2MR_SCRIPT_LEN :: usize where "P2MR_SCRIPT_LEN = 34"
definition P2MR_PROGRAM_LEN :: usize where "P2MR_PROGRAM_LEN = 32"
definition P2MR_WITNESS_VERSION_OPCODE :: byte where "P2MR_WITNESS_VERSION_OPCODE = 0x52"
definition OP_RETURN :: byte where "OP_RETURN = 0x6a"
definition WITNESS_COMMITMENT_HEADER :: "byte list" where
  "WITNESS_COMMITMENT_HEADER = [0xaa, 0x21, 0xa9, 0xed]"
definition WITNESS_COMMITMENT_SCRIPT_PREFIX :: "byte list" where
  "WITNESS_COMMITMENT_SCRIPT_PREFIX = [OP_RETURN, 36]"
definition DEFAULT_WITNESS_NONCE :: "byte list" where "DEFAULT_WITNESS_NONCE = replicate 32 0"
definition MAX_SEQUENCE_NONFINAL :: u32 where "MAX_SEQUENCE_NONFINAL = 0xfffffffe"
definition MAX_COINBASE_SCRIPT_SIG_LEN :: usize where "MAX_COINBASE_SCRIPT_SIG_LEN = 100"
definition MAX_BLOCK_WEIGHT :: usize where "MAX_BLOCK_WEIGHT = 2000000"

datatype BuilderError =
    EmptyCoinbaseValue
  | EmptyEntitlements
  | ZeroWeight string
  | WeightOverflow
  | AllocationOverflow
  | AllocationTotalMismatch u64 u64
  | InvalidP2mrProgram string string
  | PinnedFirstOutputMissing string
  | PinnedFirstOutputAmbiguous string
  | HeightOverflow
  | CoinbaseScriptSigTooLong usize
  | CoinbaseWeightTooHigh usize usize
  | Hex string
  | Json string
  | InvalidSigningSeedLength usize
  | InvalidPublicKeyLength usize
  | InvalidSignatureLength usize
  | SignatureVerificationFailed

type_synonym PinnedFirstOutput = payee

record CoinbaseBuildRequest =
  block_height :: u64
  coinbase_value_sats :: u64
  entitlements :: "WeightedEntitlement list"
  witness_nonce_hex :: "string option"
  witness_merkle_leaves_hex :: "string list"
  coinbase_script_sig_suffix_hex :: "string option"
  pinned_first_output :: "PinnedFirstOutput option"

record AllocatedOutput =
  ao_recipient_id :: string
  ao_order_key :: string
  p2mr_program :: "byte list"
  script_pubkey :: "byte list"
  ao_weight :: u128
  amount_sats :: u64

record BuiltCoinbase =
  tx_with_witness :: "byte list"
  tx_without_witness :: "byte list"
  bc_txid :: "byte list"
  bc_wtxid :: "byte list"
  bc_witness_commitment_script :: "byte list"
  bc_outputs :: "AllocatedOutput list"
  bc_total_weight :: u128
  bc_coinbase_weight_bytes :: usize

record PayoutOutput = WeightedEntitlement +
  vout :: usize
  script_pubkey_hex :: string
  po_amount_sats :: u64

record PayoutManifest =
  pm_schema :: string
  pm_block_height :: u64
  pm_coinbase_value_sats :: u64
  pm_total_weight :: u128
  pm_coinbase_weight_bytes :: usize
  pm_payout_count :: usize
  coinbase_tx_hex :: string
  coinbase_txid :: string
  coinbase_wtxid :: string
  coinbase_script_sig_hex :: string
  pm_coinbase_script_sig_suffix_hex :: string
  pm_witness_nonce_hex :: string
  witness_commitment_script_hex :: string
  pm_outputs :: "PayoutOutput list"

record ManifestSignature =
  algorithm :: string
  public_key_hex :: string
  signature_hex :: string

record SignedPayoutManifest =
  sm_manifest :: PayoutManifest
  sm_signature :: ManifestSignature

section \<open>Encodings\<close>

unbundle bit_operations_syntax

definition p2mr_script_pubkey :: "byte list \<Rightarrow> byte list" where
  "p2mr_script_pubkey program =
     P2MR_WITNESS_VERSION_OPCODE # of_nat P2MR_PROGRAM_LEN # program"

definition is_p2mr_script_pubkey :: "byte list \<Rightarrow> bool" where
  "is_p2mr_script_pubkey script \<longleftrightarrow>
     length script = P2MR_SCRIPT_LEN \<and> script ! 0 = P2MR_WITNESS_VERSION_OPCODE \<and>
     script ! 1 = of_nat P2MR_PROGRAM_LEN"

definition hash256 :: "crypto \<Rightarrow> byte list \<Rightarrow> byte list" where
  "hash256 X data = sha256 X (sha256 X data)"

definition hash256_pair :: "crypto \<Rightarrow> byte list \<Rightarrow> byte list \<Rightarrow> byte list" where
  "hash256_pair X left right = hash256 X (left @ right)"

definition display_hash_hex :: "byte list \<Rightarrow> string" where
  "display_hash_hex h = concat (map fmt_02x (rev h))"

definition compact_size :: "u64 \<Rightarrow> byte list" where
  "compact_size value =
     (if value < 253 then [of_nat value]
      else if value \<le> 0xffff then 253 # le_bytes 2 value
      else if value \<le> 0xffffffff then 254 # le_bytes 4 value
      else 255 # le_bytes 8 value)"

text \<open>The loop of \<^verbatim>\<open>minimal_script_num\<close>: the low byte is pushed until nothing is left.\<close>

fun script_num_bytes :: "nat \<Rightarrow> byte list" where
  "script_num_bytes n = (if n = 0 then [] else of_nat (n mod 256) # script_num_bytes (n div 256))"

declare script_num_bytes.simps [simp del]

definition minimal_script_num :: "i64 \<Rightarrow> byte list" where
  "minimal_script_num value =
     (if value = 0 then []
      else let negative = value < 0; result = script_num_bytes (nat \<bar>value\<bar>) in
        if last result AND 0x80 \<noteq> 0
        then result @ [if negative then 0x80 else 0x00]
        else if negative then butlast result @ [last result OR 0x80]
        else result)"

definition compact_push :: "usize \<Rightarrow> byte list" where
  "compact_push len =
     (if len \<le> 75 then [of_nat len]
      else if len \<le> 0xff then [76, of_nat len]
      else if len \<le> 0xffff then 77 # le_bytes 2 len
      else 78 # le_bytes 4 len)"

definition coinbase_height_script :: "u64 \<Rightarrow> BuilderError + byte list" where
  "coinbase_height_script height =
     (if height > 0xffffffff then Inl HeightOverflow
      else if height \<le> 16 then Inr [0x50 + of_nat height, 0x00]
      else let encoded = minimal_script_num (int height) in
        Inr (compact_push (length encoded) @ encoded))"

definition coinbase_lock_time :: "u64 \<Rightarrow> BuilderError + u32" where
  "coinbase_lock_time height =
     (if height = 0 \<or> height > 0xffffffff then Inl HeightOverflow else Inr (height - 1))"

section \<open>Witness commitment\<close>

definition witness_nonce :: "crypto \<Rightarrow> CoinbaseBuildRequest \<Rightarrow> BuilderError + byte list" where
  "witness_nonce X request =
     (case witness_nonce_hex request of
        Some raw \<Rightarrow> rbind (map_err Hex (hex_decode X raw)) (\<lambda>decoded.
          if length decoded \<noteq> 32
          then Inl (InvalidP2mrProgram ''witness_nonce''
                 (''expected 32 bytes, got '' @ show_nat (length decoded)))
          else Inr decoded)
      | None \<Rightarrow> Inr DEFAULT_WITNESS_NONCE)"

definition witness_leaves :: "crypto \<Rightarrow> CoinbaseBuildRequest \<Rightarrow> BuilderError + byte list list" where
  "witness_leaves X request =
     rmap (\<lambda>(index, raw). rbind (map_err Hex (hex_decode X raw)) (\<lambda>decoded.
        if length decoded \<noteq> 32
        then Inl (InvalidP2mrProgram (''witness_merkle_leaf['' @ show_nat index @ '']'')
               (''expected 32 bytes, got '' @ show_nat (length decoded)))
        else Inr decoded))
      (enumerate 0 (witness_merkle_leaves_hex request))"

definition merkle_level :: "crypto \<Rightarrow> byte list list \<Rightarrow> byte list list" where
  "merkle_level X hashes =
     map (\<lambda>pair. hash256_pair X (pair ! 0) (if length pair = 2 then pair ! 1 else pair ! 0))
       (chunks 2 hashes)"

lemma length_merkle_level: "length (merkle_level X hashes) = (length hashes + 1) div 2"
  by (simp add: merkle_level_def length_chunks)

function merkle_root :: "crypto \<Rightarrow> byte list list \<Rightarrow> byte list" where
  "merkle_root X hashes =
     (if length hashes > 1 then merkle_root X (merkle_level X hashes) else hashes ! 0)"
  by pat_completeness auto
termination
  by (relation "measure (\<lambda>(X, hashes). length hashes)") (auto simp: length_merkle_level)

declare merkle_root.simps [simp del]

definition witness_merkle_root :: "crypto \<Rightarrow> byte list list \<Rightarrow> byte list" where
  "witness_merkle_root X extra_witness_leaves = merkle_root X (replicate 32 0 # extra_witness_leaves)"

definition witness_commitment_script :: "crypto \<Rightarrow> byte list list \<Rightarrow> byte list \<Rightarrow> byte list" where
  "witness_commitment_script X extra_witness_leaves nonce =
     WITNESS_COMMITMENT_SCRIPT_PREFIX @ WITNESS_COMMITMENT_HEADER @
     hash256_pair X (witness_merkle_root X extra_witness_leaves) nonce"

section \<open>Script signature and serialization\<close>

definition coinbase_script_sig_suffix ::
  "crypto \<Rightarrow> CoinbaseBuildRequest \<Rightarrow> BuilderError + byte list" where
  "coinbase_script_sig_suffix X request =
     (case coinbase_script_sig_suffix_hex request of
        Some raw \<Rightarrow> map_err Hex (hex_decode X raw)
      | None \<Rightarrow> Inr [])"

definition coinbase_script_sig :: "crypto \<Rightarrow> CoinbaseBuildRequest \<Rightarrow> BuilderError + byte list" where
  "coinbase_script_sig X request =
     rbind (coinbase_height_script (block_height request)) (\<lambda>height_script.
     rbind (coinbase_script_sig_suffix X request) (\<lambda>suffix.
       let script = height_script @ suffix in
       if length script > MAX_COINBASE_SCRIPT_SIG_LEN
       then Inl (CoinbaseScriptSigTooLong (length script))
       else Inr script))"

definition serialize_coinbase_input ::
  "crypto \<Rightarrow> byte list \<Rightarrow> CoinbaseBuildRequest \<Rightarrow> BuilderError + byte list" where
  "serialize_coinbase_input X out request =
     rbind (coinbase_script_sig X request) (\<lambda>script_sig.
       Inr (out @ compact_size 1 @ replicate 32 0 @ le_bytes 4 0xffffffff @
            compact_size (length script_sig) @ script_sig @ le_bytes 4 MAX_SEQUENCE_NONFINAL))"

definition serialize_coinbase_prefix ::
  "crypto \<Rightarrow> byte list \<Rightarrow> CoinbaseBuildRequest \<Rightarrow> BuilderError + byte list" where
  "serialize_coinbase_prefix X out request = serialize_coinbase_input X (out @ le_bytes 4 2) request"

text \<open>\<^verbatim>\<open>amount as i64\<close> keeps the 64 bits, so its little-endian bytes are those of the amount.\<close>

definition serialize_outputs :: "byte list \<Rightarrow> AllocatedOutput list \<Rightarrow> byte list \<Rightarrow> byte list" where
  "serialize_outputs out outputs commitment_script =
     out @ compact_size (length outputs + 1) @
     concat (map (\<lambda>output. le_bytes 8 (amount_sats output) @
        compact_size (length (script_pubkey output)) @ script_pubkey output) outputs) @
     le_bytes 8 0 @ compact_size (length commitment_script) @ commitment_script"

definition serialize_witness :: "byte list \<Rightarrow> byte list \<Rightarrow> byte list" where
  "serialize_witness out nonce = out @ compact_size 1 @ compact_size (length nonce) @ nonce"

section \<open>Allocation\<close>

definition parse_p2mr_program :: "crypto \<Rightarrow> WeightedEntitlement \<Rightarrow> BuilderError + byte list" where
  "parse_p2mr_program X entitlement =
     rbind (map_err (InvalidP2mrProgram (recipient_id entitlement))
              (hex_decode X (p2mr_program_hex entitlement))) (\<lambda>program.
       if length program \<noteq> P2MR_PROGRAM_LEN
       then Inl (InvalidP2mrProgram (recipient_id entitlement)
              (''expected 32 bytes, got '' @ show_nat (length program)))
       else Inr program)"

text \<open>\<^verbatim>\<open>compare_entitlements\<close> compares the keys \<open>payee_order\<close>; \<^verbatim>\<open>sort_by\<close> is stable.\<close>

definition sort_entitlements :: "WeightedEntitlement list \<Rightarrow> WeightedEntitlement list" where
  "sort_entitlements = sort_key payee_order"

definition pinned_match :: "PinnedFirstOutput \<Rightarrow> WeightedEntitlement \<Rightarrow> bool" where
  "pinned_match pinned e \<longleftrightarrow>
     recipient_id e = recipient_id pinned \<and> order_key e = order_key pinned \<and>
     eq_ignore_ascii_case (p2mr_program_hex e) (p2mr_program_hex pinned)"

definition pinned_entitlement_index ::
  "WeightedEntitlement list \<Rightarrow> PinnedFirstOutput \<Rightarrow> BuilderError + usize" where
  "pinned_entitlement_index es pinned =
     (case filter (\<lambda>i. pinned_match pinned (es ! i)) [0..<length es] of
        [] \<Rightarrow> Inl (PinnedFirstOutputMissing (recipient_id pinned))
      | [i] \<Rightarrow> Inr i
      | _ \<Rightarrow> Inl (PinnedFirstOutputAmbiguous (recipient_id pinned)))"

text \<open>\<^verbatim>\<open>v[..=i].rotate_right(1)\<close>.\<close>

definition rotate_to_front :: "nat \<Rightarrow> 'a list \<Rightarrow> 'a list" where
  "rotate_to_front i xs = xs ! i # take i xs @ drop (Suc i) xs"

definition order_entitlements ::
  "CoinbaseBuildRequest \<Rightarrow> BuilderError + WeightedEntitlement list" where
  "order_entitlements request =
     (let es = sort_entitlements (entitlements request) in
      case pinned_first_output request of
        None \<Rightarrow> Inr es
      | Some pinned \<Rightarrow> rbind (pinned_entitlement_index es pinned) (\<lambda>i. Inr (rotate_to_front i es)))"

definition total_entitlement_weight :: "WeightedEntitlement list \<Rightarrow> BuilderError + u128" where
  "total_entitlement_weight es =
     rfold (\<lambda>sum e. if weight e = 0 then Inl (ZeroWeight (recipient_id e))
                    else ok_or (checked_add 128 sum (weight e)) WeightOverflow) 0 es"

definition provisional_output ::
  "crypto \<Rightarrow> u64 \<Rightarrow> u128 \<Rightarrow> WeightedEntitlement \<Rightarrow> BuilderError + AllocatedOutput \<times> u128" where
  "provisional_output X coinbase_value total_weight e =
     rbind (parse_p2mr_program X e) (\<lambda>program.
     rbind (ok_or (checked_mul 128 coinbase_value (weight e)) AllocationOverflow) (\<lambda>product.
     rbind (ok_or (try_from 64 (product div total_weight)) AllocationOverflow) (\<lambda>amount.
       Inr (\<lparr> ao_recipient_id = recipient_id e, ao_order_key = order_key e,
              p2mr_program = program, script_pubkey = p2mr_script_pubkey program,
              ao_weight = weight e, amount_sats = amount \<rparr>, product mod total_weight))))"

definition remainder_key :: "AllocatedOutput \<times> u128 \<Rightarrow> int \<times> string \<times> string \<times> byte list" where
  "remainder_key p = (- int (snd p), ao_order_key (fst p), ao_recipient_id (fst p), p2mr_program (fst p))"

definition allocate_outputs :: "crypto \<Rightarrow> CoinbaseBuildRequest \<Rightarrow> BuilderError + AllocatedOutput list" where
  "allocate_outputs X request =
     (if coinbase_value_sats request = 0 then Inl EmptyCoinbaseValue
      else if entitlements request = [] then Inl EmptyEntitlements
      else
        rbind (order_entitlements request) (\<lambda>es.
        rbind (total_entitlement_weight es) (\<lambda>total_weight.
        rbind (rmap (provisional_output X (coinbase_value_sats request) total_weight) es) (\<lambda>provisional.
        rbind (try_sum 64 AllocationOverflow (map (\<lambda>p. amount_sats (fst p)) provisional)) (\<lambda>allocated.
        rbind (ok_or (checked_sub (coinbase_value_sats request) allocated) AllocationOverflow) (\<lambda>remainder_sats.
        rbind (bump_at AllocationOverflow (\<lambda>p. amount_sats (fst p))
                 (\<lambda>a p. (fst p \<lparr> amount_sats := a \<rparr>, snd p))
                 (take remainder_sats
                   (sort_key (\<lambda>i. remainder_key (provisional ! i)) [0..<length provisional]))
                 provisional) (\<lambda>bumped.
        let outputs = map fst bumped in
        rbind (try_sum 64 AllocationOverflow (map amount_sats outputs)) (\<lambda>final_total.
          if final_total \<noteq> coinbase_value_sats request
          then Inl (AllocationTotalMismatch final_total (coinbase_value_sats request))
          else Inr outputs))))))))"

section \<open>The coinbase and its manifest\<close>

definition build_coinbase :: "crypto \<Rightarrow> CoinbaseBuildRequest \<Rightarrow> BuilderError + BuiltCoinbase" where
  "build_coinbase X request =
     rbind (allocate_outputs X request) (\<lambda>outputs.
     rbind (witness_nonce X request) (\<lambda>nonce.
     rbind (witness_leaves X request) (\<lambda>leaves.
     let commitment_script = witness_commitment_script X leaves nonce in
     rbind (serialize_coinbase_prefix X [] request) (\<lambda>prefix.
     rbind (coinbase_lock_time (block_height request)) (\<lambda>lock_time.
     let without_witness = serialize_outputs prefix outputs commitment_script @ le_bytes 4 lock_time in
     rbind (serialize_coinbase_input X (le_bytes 4 2 @ [0] @ [1]) request) (\<lambda>input.
     let with_witness = serialize_witness (serialize_outputs input outputs commitment_script) nonce
           @ le_bytes 4 lock_time;
         weight_bytes = length with_witness in
     if weight_bytes > MAX_BLOCK_WEIGHT then Inl (CoinbaseWeightTooHigh weight_bytes MAX_BLOCK_WEIGHT)
     else
       rbind (try_sum 64 AllocationOverflow (map amount_sats outputs)) (\<lambda>allocated.
       if allocated \<noteq> coinbase_value_sats request
       then Inl (AllocationTotalMismatch allocated (coinbase_value_sats request))
       else
         rbind (try_sum 128 WeightOverflow (map ao_weight outputs)) (\<lambda>total_weight.
         Inr \<lparr> tx_with_witness = with_witness, tx_without_witness = without_witness,
               bc_txid = hash256 X without_witness, bc_wtxid = hash256 X with_witness,
               bc_witness_commitment_script = commitment_script, bc_outputs = outputs,
               bc_total_weight = total_weight, bc_coinbase_weight_bytes = weight_bytes \<rparr>))))))))"

definition payout_output :: "crypto \<Rightarrow> usize \<times> AllocatedOutput \<Rightarrow> PayoutOutput" where
  "payout_output X = (\<lambda>(index, output).
     \<lparr> recipient_id = ao_recipient_id output, order_key = ao_order_key output,
       p2mr_program_hex = hex_encode X (p2mr_program output), weight = ao_weight output,
       vout = index, script_pubkey_hex = hex_encode X (script_pubkey output),
       po_amount_sats = amount_sats output \<rparr>)"

definition build_manifest :: "crypto \<Rightarrow> CoinbaseBuildRequest \<Rightarrow> BuilderError + PayoutManifest" where
  "build_manifest X request =
     rbind (build_coinbase X request) (\<lambda>built.
     rbind (coinbase_script_sig X request) (\<lambda>script_sig.
     rbind (coinbase_script_sig_suffix X request) (\<lambda>suffix.
     let outputs = map (payout_output X) (enumerate 0 (bc_outputs built)) in
     rbind (witness_nonce X request) (\<lambda>nonce.
     Inr \<lparr> pm_schema = ''qbit.prism.coinbase-manifest.v1'',
           pm_block_height = block_height request,
           pm_coinbase_value_sats = coinbase_value_sats request,
           pm_total_weight = bc_total_weight built,
           pm_coinbase_weight_bytes = bc_coinbase_weight_bytes built,
           pm_payout_count = length outputs,
           coinbase_tx_hex = hex_encode X (tx_with_witness built),
           coinbase_txid = display_hash_hex (bc_txid built),
           coinbase_wtxid = display_hash_hex (bc_wtxid built),
           coinbase_script_sig_hex = hex_encode X script_sig,
           pm_coinbase_script_sig_suffix_hex = hex_encode X suffix,
           pm_witness_nonce_hex = hex_encode X nonce,
           witness_commitment_script_hex = hex_encode X (bc_witness_commitment_script built),
           pm_outputs = outputs \<rparr>))))"

section \<open>Signing\<close>

text \<open>A \<^verbatim>\<open>ManifestSigningKey\<close> is the 32-byte seed it was made from.\<close>

definition from_seed_hex :: "crypto \<Rightarrow> string \<Rightarrow> BuilderError + byte list" where
  "from_seed_hex X seed_hex =
     rbind (map_err Hex (hex_decode X seed_hex)) (\<lambda>seed.
       if length seed \<noteq> 32 then Inl (InvalidSigningSeedLength (length seed)) else Inr seed)"

definition signing_public_key_hex :: "crypto \<Rightarrow> byte list \<Rightarrow> string" where
  "signing_public_key_hex X key = hex_encode X (ed_public_key X key)"

definition sign_message_hex :: "crypto \<Rightarrow> byte list \<Rightarrow> byte list \<Rightarrow> string" where
  "sign_message_hex X key message = hex_encode X (ed_sign X key message)"

definition canonical_manifest_bytes ::
  "(PayoutManifest \<Rightarrow> string + byte list) \<Rightarrow> PayoutManifest \<Rightarrow> BuilderError + byte list" where
  "canonical_manifest_bytes json manifest = map_err Json (json manifest)"

definition build_signed_manifest ::
  "crypto \<Rightarrow> (PayoutManifest \<Rightarrow> string + byte list) \<Rightarrow> CoinbaseBuildRequest \<Rightarrow> byte list \<Rightarrow>
     BuilderError + SignedPayoutManifest" where
  "build_signed_manifest X json request key =
     rbind (build_manifest X request) (\<lambda>manifest.
     rbind (canonical_manifest_bytes json manifest) (\<lambda>canonical.
     Inr \<lparr> sm_manifest = manifest,
           sm_signature = \<lparr> algorithm = ''ed25519'', public_key_hex = signing_public_key_hex X key,
             signature_hex = hex_encode X (ed_sign X key canonical) \<rparr> \<rparr>))"

definition verify_ed25519_message ::
  "crypto \<Rightarrow> string \<Rightarrow> byte list \<Rightarrow> string \<Rightarrow> BuilderError + unit" where
  "verify_ed25519_message X key_hex message sig_hex =
     rbind (map_err Hex (hex_decode X key_hex)) (\<lambda>key.
     if length key \<noteq> 32 then Inl (InvalidPublicKeyLength (length key))
     else if \<not> ed_parse_key X key then Inl SignatureVerificationFailed
     else
       rbind (map_err Hex (hex_decode X sig_hex)) (\<lambda>sig.
       if length sig \<noteq> 64 then Inl (InvalidSignatureLength (length sig))
       else if ed_verify X key message sig then Inr ()
       else Inl SignatureVerificationFailed))"

definition verify_signed_manifest ::
  "crypto \<Rightarrow> (PayoutManifest \<Rightarrow> string + byte list) \<Rightarrow> SignedPayoutManifest \<Rightarrow> BuilderError + unit" where
  "verify_signed_manifest X json sm =
     (if algorithm (sm_signature sm) \<noteq> ''ed25519'' then Inl SignatureVerificationFailed
      else
        rbind (canonical_manifest_bytes json (sm_manifest sm)) (\<lambda>canonical.
        verify_ed25519_message X (public_key_hex (sm_signature sm)) canonical
          (signature_hex (sm_signature sm))))"

section \<open>What the allocation computes\<close>

lemma mset_rotate_to_front: "i < length xs \<Longrightarrow> mset (rotate_to_front i xs) = mset xs"
proof -
  assume "i < length xs"
  then have "mset xs = mset (take i xs @ xs ! i # drop (Suc i) xs)" by (simp add: id_take_nth_drop[symmetric])
  then show ?thesis by (simp add: rotate_to_front_def)
qed

lemma filter_upt_singleton: "filter P [0..<n] = [i] \<Longrightarrow> i < n \<and> P i \<and> (\<forall>j<n. P j \<longrightarrow> j = i)"
proof -
  assume eq: "filter P [0..<n] = [i]"
  have "j \<in> set (filter P [0..<n]) \<longleftrightarrow> j < n \<and> P j" for j by auto
  then show ?thesis unfolding eq by auto
qed

lemma pinned_entitlement_index_Inr:
  assumes "pinned_entitlement_index es pinned = Inr i"
  shows "i < length es \<and> pinned_match pinned (es ! i) \<and>
    (\<forall>j<length es. pinned_match pinned (es ! j) \<longrightarrow> j = i)"
proof -
  have "filter (\<lambda>i. pinned_match pinned (es ! i)) [0..<length es] = [i]"
    using assms by (simp add: pinned_entitlement_index_def split: list.splits)
  then show ?thesis by (rule filter_upt_singleton)
qed

lemma order_entitlements_mset:
  assumes "order_entitlements request = Inr es"
  shows "mset es = mset (entitlements request)"
proof (cases "pinned_first_output request")
  case None
  with assms show ?thesis by (auto simp: order_entitlements_def sort_entitlements_def)
next
  case (Some pinned)
  with assms obtain i where
    i: "pinned_entitlement_index (sort_entitlements (entitlements request)) pinned = Inr i"
    and es: "es = rotate_to_front i (sort_entitlements (entitlements request))"
    by (auto simp: order_entitlements_def Let_def res_simps)
  show ?thesis
    unfolding es using mset_rotate_to_front pinned_entitlement_index_Inr[OF i]
    by (metis mset_sort sort_entitlements_def)
qed

lemma total_weight_fold:
  "rfold (\<lambda>sum e. if weight e = 0 then Inl (ZeroWeight (recipient_id e))
                  else ok_or (checked_add 128 sum (weight e)) WeightOverflow) s es = Inr t \<longleftrightarrow>
     (\<forall>e\<in>set es. 0 < weight e) \<and> t = s + sum_list (map weight es) \<and>
     (es \<noteq> [] \<longrightarrow> s + sum_list (map weight es) < 2 ^ 128)"
proof (induction es arbitrary: s)
  case Nil
  then show ?case by auto
next
  case (Cons e es)
  show ?case
  proof (cases "0 < weight e \<and> s + weight e < 2 ^ 128")
    case True
    then show ?thesis using Cons.IH[of "s + weight e"]
      by (cases "es = []") (auto simp: checked_add_def[of 128 s "weight e"] add.assoc)
  next
    case False
    then show ?thesis by (auto simp: checked_add_def)
  qed
qed

lemma total_entitlement_weight_Inr [res_simps]:
  "total_entitlement_weight es = Inr t \<longleftrightarrow>
     (\<forall>e\<in>set es. 0 < weight e) \<and> t = sum_list (map weight es) \<and> sum_list (map weight es) < 2 ^ 128"
  unfolding total_entitlement_weight_def total_weight_fold by (cases es) auto

text \<open>An output belongs to an entitlement when it carries its names, its program and its weight.\<close>

definition output_of :: "crypto \<Rightarrow> WeightedEntitlement \<Rightarrow> AllocatedOutput \<Rightarrow> bool" where
  "output_of X e out \<longleftrightarrow>
     ao_recipient_id out = recipient_id e \<and> ao_order_key out = order_key e \<and>
     hex_decode X (p2mr_program_hex e) = Inr (p2mr_program out) \<and>
     length (p2mr_program out) = 32 \<and>
     script_pubkey out = p2mr_script_pubkey (p2mr_program out) \<and> ao_weight out = weight e"

lemma parse_p2mr_program_Inr [res_simps]: "parse_p2mr_program X e = Inr program \<longleftrightarrow>
  hex_decode X (p2mr_program_hex e) = Inr program \<and> length program = 32"
  by (auto simp: parse_p2mr_program_def res_simps P2MR_PROGRAM_LEN_def)

lemma provisional_output_Inr: "provisional_output X T W e = Inr p \<longleftrightarrow>
  output_of X e (fst p) \<and> T * weight e < 2 ^ 128 \<and> lr_base T W (weight e) < 2 ^ 64 \<and>
  amount_sats (fst p) = lr_base T W (weight e) \<and> snd p = lr_rem T W (weight e)"
  by (cases p) (auto simp: provisional_output_def output_of_def res_simps checked_simps
      lr_base_def lr_rem_def)

lemma output_of_amount [simp]: "output_of X e (out \<lparr> amount_sats := a \<rparr>) = output_of X e out"
  by (simp add: output_of_def)

lemma allocate_outputs_run:
  fixes X request es
  defines "T \<equiv> coinbase_value_sats request" and "W \<equiv> sum_list (map weight es)"
  assumes T: "0 < T" "T < 2 ^ 64" and ne: "entitlements request \<noteq> []"
    and es: "order_entitlements request = Inr es"
    and w: "total_entitlement_weight es = Inr W"
    and ps: "rmap (provisional_output X T W) es = Inr ps"
  shows "\<exists>outs. allocate_outputs X request = Inr outs \<and> list_all2 (output_of X) es outs \<and>
           largest_remainder T (map weight es) (map amount_sats outs)"
proof -
  let ?ws = "map weight es" and ?get = "\<lambda>p. amount_sats (fst p)"
  have len: "length ps = length es" using rmap_length[OF ps] .
  have nth: "output_of X (es ! i) (fst (ps ! i))" "?get (ps ! i) = lr_base T W (?ws ! i)"
    "snd (ps ! i) = lr_rem T W (?ws ! i)" if "i < length es" for i
    using ps that by (auto simp: rmap_Inr list_all2_conv_all_nth provisional_output_Inr)
  have "es \<noteq> []" using order_entitlements_mset[OF es] ne by auto
  then have pos: "0 < sum_list ?ws" using w by (cases es) (auto simp: res_simps)
  have "sum_list (map ?get ps) \<le> T \<and> (\<exists>ps'.
     bump_at AllocationOverflow ?get (\<lambda>a p. (fst p \<lparr> amount_sats := a \<rparr>, snd p))
       (take (T - sum_list (map ?get ps)) (sort_key (\<lambda>i. remainder_key (ps ! i)) [0..<length ps])) ps = Inr ps' \<and>
     list_all2 (\<lambda>p q. \<exists>a. q = (fst p \<lparr> amount_sats := a \<rparr>, snd p) \<or> q = p) ps ps' \<and>
     largest_remainder T ?ws (map ?get ps'))"
  proof (rule bump_at_largest_remainder)
    fix i j assume "i < length ?ws" "j < length ?ws" "remainder_key (ps ! i) \<le> remainder_key (ps ! j)"
    then show "lr_rem T (sum_list ?ws) (?ws ! j) \<le> lr_rem T (sum_list ?ws) (?ws ! i)"
      by (auto simp: remainder_key_def nth less_eq_prod_def W_def)
  qed (use T(2) pos nth in \<open>auto simp: len W_def\<close>)
  then obtain ps' where le: "sum_list (map ?get ps) \<le> T"
    and bump: "bump_at AllocationOverflow ?get (\<lambda>a p. (fst p \<lparr> amount_sats := a \<rparr>, snd p))
       (take (T - sum_list (map ?get ps)) (sort_key (\<lambda>i. remainder_key (ps ! i)) [0..<length ps])) ps = Inr ps'"
    and same: "list_all2 (\<lambda>p q. \<exists>a. q = (fst p \<lparr> amount_sats := a \<rparr>, snd p) \<or> q = p) ps ps'"
    and lr: "largest_remainder T ?ws (map ?get ps')" by blast
  have "list_all2 (output_of X) es (map fst ps')"
    using same nth(1) by (fastforce simp: list_all2_conv_all_nth len)
  moreover have "allocate_outputs X request = Inr (map fst ps')"
    unfolding allocate_outputs_def T_def[symmetric]
    using T ne es w ps le bump largest_remainder_sum[OF lr]
    by (simp add: Let_def W_def comp_def try_sum_Inr[THEN iffD2] checked_sub_def)
  ultimately show ?thesis using lr by (auto simp: comp_def)
qed

text \<open>The converse: a call that succeeds went through these steps.\<close>

lemma allocate_outputs_Inr:
  assumes "allocate_outputs X request = Inr outs" "coinbase_value_sats request < 2 ^ 64"
  obtains es where "order_entitlements request = Inr es" "list_all2 (output_of X) es outs"
    "0 < coinbase_value_sats request" "es \<noteq> []" "\<forall>e\<in>set es. 0 < weight e"
    "sum_list (map weight es) < 2 ^ 128"
    "largest_remainder (coinbase_value_sats request) (map weight es) (map amount_sats outs)"
proof -
  let ?T = "coinbase_value_sats request"
  have pos: "0 < ?T" and ne: "entitlements request \<noteq> []"
    using assms(1) by (simp_all add: allocate_outputs_def if_Inl_Inr)
  from assms(1) pos ne obtain es W ps where es: "order_entitlements request = Inr es"
    and w: "total_entitlement_weight es = Inr W" and ps: "rmap (provisional_output X ?T W) es = Inr ps"
    unfolding allocate_outputs_def if_Inl_Inr rbind_Inr by blast
  have W: "W = sum_list (map weight es)" using w by (simp add: res_simps)
  have "es \<noteq> []" using order_entitlements_mset[OF es] ne by auto
  moreover from allocate_outputs_run[OF pos assms(2) ne es w[unfolded W] ps[unfolded W]]
  have "list_all2 (output_of X) es outs" "largest_remainder ?T (map weight es) (map amount_sats outs)"
    unfolding assms(1) by blast+
  moreover have "\<forall>e\<in>set es. 0 < weight e" "sum_list (map weight es) < 2 ^ 128"
    using w unfolding total_entitlement_weight_Inr by blast+
  ultimately show ?thesis using that[of es] es pos by blast
qed

lemma map_weight_outputs:
  "list_all2 (output_of X) es outs \<Longrightarrow>
     map (\<lambda>e. (recipient_id e, order_key e, weight e)) es =
     map (\<lambda>out. (ao_recipient_id out, ao_order_key out, ao_weight out)) outs"
  by (induction rule: list_all2_induct) (simp_all add: output_of_def)

interpretation coinbase_outputs: proportional_allocator
  "\<lambda>T es. allocate_outputs X (request \<lparr> coinbase_value_sats := T, entitlements := es \<rparr>)"
  "\<lambda>e. (recipient_id e, order_key e, weight e)"
  "\<lambda>out. (ao_recipient_id out, ao_order_key out, ao_weight out)"
  "\<lambda>(r, k, w). w" amount_sats
  for X request
proof
  fix T es outs
  assume run: "allocate_outputs X (request \<lparr> coinbase_value_sats := T, entitlements := es \<rparr>) = Inr outs"
    and T: "T < 2 ^ 64"
  let ?r = "request \<lparr> coinbase_value_sats := T, entitlements := es \<rparr>"
  have "coinbase_value_sats ?r < 2 ^ 64" using T by simp
  from allocate_outputs_Inr[OF run this] obtain es' where ord: "order_entitlements ?r = Inr es'"
    and outs: "list_all2 (output_of X) es' outs"
    and lr: "largest_remainder (coinbase_value_sats ?r) (map weight es') (map amount_sats outs)" by blast
  have keys: "map (\<lambda>e. (recipient_id e, order_key e, weight e)) es' =
    map (\<lambda>out. (ao_recipient_id out, ao_order_key out, ao_weight out)) outs"
    by (rule map_weight_outputs[OF outs])
  have "map weight es' = map ao_weight outs"
    using arg_cong[OF keys, of "map (\<lambda>(r, k, w). w)"] by (simp add: comp_def)
  moreover have "mset (map (\<lambda>out. (ao_recipient_id out, ao_order_key out, ao_weight out)) outs) =
      mset (map (\<lambda>e. (recipient_id e, order_key e, weight e)) es)"
    unfolding keys[symmetric] using order_entitlements_mset[OF ord] by simp
  ultimately show "mset (map (\<lambda>out. (ao_recipient_id out, ao_order_key out, ao_weight out)) outs) =
      mset (map (\<lambda>e. (recipient_id e, order_key e, weight e)) es) \<and>
    largest_remainder T (map (\<lambda>x. case (ao_recipient_id x, ao_order_key x, ao_weight x) of (r, k, w) \<Rightarrow> w) outs)
      (map amount_sats outs)"
    using lr by simp
qed

lemma allocate_outputs_ok_needs:
  assumes "allocate_outputs X request = Inr outs"
  shows "0 < coinbase_value_sats request \<and> entitlements request \<noteq> [] \<and> is_ok (order_entitlements request) \<and>
    sum_list (map weight (entitlements request)) < 2 ^ 128 \<and>
    (\<forall>e\<in>set (entitlements request). 0 < weight e \<and> coinbase_value_sats request * weight e < 2 ^ 128 \<and>
       is_ok (parse_p2mr_program X e))"
proof -
  let ?T = "coinbase_value_sats request"
  have pos: "0 < ?T" and ne: "entitlements request \<noteq> []"
    using assms by (simp_all add: allocate_outputs_def if_Inl_Inr)
  from assms pos ne obtain es W ps where es: "order_entitlements request = Inr es"
    and w: "total_entitlement_weight es = Inr W" and ps: "rmap (provisional_output X ?T W) es = Inr ps"
    unfolding allocate_outputs_def if_Inl_Inr rbind_Inr by blast
  have m: "mset es = mset (entitlements request)" by (rule order_entitlements_mset[OF es])
  then have "set es = set (entitlements request)"
    "sum_list (map weight es) = sum_list (map weight (entitlements request))"
    by (metis set_mset_mset) (metis m mset_map sum_mset_sum_list)
  moreover have "?T * weight e < 2 ^ 128 \<and> is_ok (parse_p2mr_program X e)" if "e \<in> set es" for e
  proof -
    have "\<exists>p. provisional_output X ?T W e = Inr p"
      using ps that unfolding rmap_Inr by (auto dest!: list_all2_set1 bspec)
    then obtain p where "provisional_output X ?T W e = Inr p" ..
    then show ?thesis
      by (auto simp: provisional_output_def rbind_Inr ok_or_Inr checked_mul_Some is_ok_iff)
  qed
  ultimately show ?thesis
    using pos ne es w by (simp add: is_ok_iff total_entitlement_weight_Inr)
qed

lemma allocate_outputs_ok_suffices:
  assumes "coinbase_value_sats request < 2 ^ 64"
    and "0 < coinbase_value_sats request \<and> entitlements request \<noteq> [] \<and> is_ok (order_entitlements request) \<and>
    sum_list (map weight (entitlements request)) < 2 ^ 128 \<and>
    (\<forall>e\<in>set (entitlements request). 0 < weight e \<and> coinbase_value_sats request * weight e < 2 ^ 128 \<and>
       is_ok (parse_p2mr_program X e))"
  shows "\<exists>outs. allocate_outputs X request = Inr outs"
proof -
  let ?T = "coinbase_value_sats request"
  obtain es where es: "order_entitlements request = Inr es" using assms(2) by (auto simp: is_ok_iff)
  let ?W = "sum_list (map weight es)"
  have m: "mset es = mset (entitlements request)" by (rule order_entitlements_mset[OF es])
  then have eqs: "set es = set (entitlements request)"
    "sum_list (map weight es) = sum_list (map weight (entitlements request))"
    by (metis set_mset_mset) (metis m mset_map sum_mset_sum_list)
  have w: "total_entitlement_weight es = Inr ?W"
    using assms(2) eqs by (simp add: total_entitlement_weight_Inr)
  have "\<exists>p. provisional_output X ?T ?W e = Inr p" if e: "e \<in> set es" for e
  proof -
    obtain program where "parse_p2mr_program X e = Inr program"
      using assms(2) e eqs by (auto simp: is_ok_iff)
    moreover have "weight e \<le> ?W" by (rule member_le_sum_list) (use e in auto)
    then have "lr_base ?T ?W (weight e) \<le> ?T"
      using e assms(2) eqs by (intro lr_base_le) (auto simp: gr_zeroI)
    ultimately show ?thesis
      using assms e eqs
      by (auto simp: provisional_output_def checked_mul_def try_from_def lr_base_def)
  qed
  then obtain f where "\<forall>e\<in>set es. provisional_output X ?T ?W e = Inr (f e)" by metis
  then have "rmap (provisional_output X ?T ?W) es = Inr (map f es)" by (simp add: rmap_all_ok)
  with allocate_outputs_run[OF _ assms(1) _ es w] assms(2) show ?thesis by blast
qed

lemma filter_unique_index:
  assumes "i < length xs" "P (xs ! i)" "\<forall>j<length xs. P (xs ! j) \<longrightarrow> j = i"
  shows "filter P xs = [xs ! i]" "filter (\<lambda>x. \<not> P x) xs = take i xs @ drop (Suc i) xs"
proof -
  have no: "\<not> P x" if x: "x \<in> set (take i xs) \<or> x \<in> set (drop (Suc i) xs)" for x
  proof -
    have "\<exists>j<length xs. x = xs ! j \<and> j \<noteq> i"
      using x
    proof
      assume "x \<in> set (take i xs)"
      then show ?thesis by (auto simp: in_set_conv_nth)
    next
      assume "x \<in> set (drop (Suc i) xs)"
      then obtain k where "k < length xs - Suc i" "x = xs ! (Suc i + k)" by (auto simp: in_set_conv_nth)
      then show ?thesis by (intro exI[of _ "Suc i + k"]) simp
    qed
    then show ?thesis using assms(3) by blast
  qed
  have xs: "xs = take i xs @ xs ! i # drop (Suc i) xs" by (rule id_take_nth_drop[OF assms(1)])
  show "filter P xs = [xs ! i]" "filter (\<lambda>x. \<not> P x) xs = take i xs @ drop (Suc i) xs"
    by (subst xs, use no assms(2) in \<open>simp add: filter_empty_conv\<close>)+
qed

lemma order_entitlements_pinned:
  assumes "order_entitlements request = Inr es" "pinned_first_output request = Some pinned"
  shows "\<exists>e. filter (pinned_match pinned) (entitlements request) = [e] \<and>
    es = e # sort_key payee_order (filter (\<lambda>e. \<not> pinned_match pinned e) (entitlements request))"
proof -
  let ?s = "sort_entitlements (entitlements request)"
  obtain i where i: "pinned_entitlement_index ?s pinned = Inr i" and es: "es = rotate_to_front i ?s"
    using assms by (auto simp: order_entitlements_def Let_def res_simps)
  note f = filter_unique_index[of i ?s "pinned_match pinned"]
  have "filter (pinned_match pinned) ?s = [?s ! i]"
    "filter (\<lambda>e. \<not> pinned_match pinned e) ?s = take i ?s @ drop (Suc i) ?s"
    using f pinned_entitlement_index_Inr[OF i] by blast+
  moreover have "xs = [x]" if "sort_key f xs = [x]" for f :: "WeightedEntitlement \<Rightarrow> payee_key" and xs x
    using that by (metis mset_sort mset_single_iff mset.simps)
  ultimately show ?thesis
    by (auto simp: es rotate_to_front_def sort_entitlements_def filter_sort)
qed

lemma sort_entitlements_cong:
  "mset es = mset es' \<Longrightarrow> inj_on payee_order (set es) \<Longrightarrow> sort_entitlements es = sort_entitlements es'"
  unfolding sort_entitlements_def by (rule sort_key_inj_key_eq) simp_all

text \<open>The parts of the coinbase that do not look at the entitlements.\<close>

lemma request_only_simps:
  "witness_nonce X (request \<lparr> entitlements := es \<rparr>) = witness_nonce X request"
  "witness_leaves X (request \<lparr> entitlements := es \<rparr>) = witness_leaves X request"
  "coinbase_script_sig_suffix X (request \<lparr> entitlements := es \<rparr>) = coinbase_script_sig_suffix X request"
  "coinbase_script_sig X (request \<lparr> entitlements := es \<rparr>) = coinbase_script_sig X request"
  "serialize_coinbase_input X out (request \<lparr> entitlements := es \<rparr>) = serialize_coinbase_input X out request"
  "serialize_coinbase_prefix X out (request \<lparr> entitlements := es \<rparr>) = serialize_coinbase_prefix X out request"
  by (simp_all add: witness_nonce_def witness_leaves_def coinbase_script_sig_suffix_def
      coinbase_script_sig_def serialize_coinbase_input_def serialize_coinbase_prefix_def)

section \<open>Properties\<close>

text \<open>A request with two entitlements and a pinned output, for the concrete instances.\<close>

definition demo_entitlements :: "WeightedEntitlement list" where
  "demo_entitlements =
     [\<lparr> recipient_id = ''bob'', order_key = ''b'', p2mr_program_hex = concat (replicate 32 ''b2''), weight = 2 \<rparr>,
      \<lparr> recipient_id = ''ann'', order_key = ''a'', p2mr_program_hex = concat (replicate 32 ''A1''), weight = 1 \<rparr>]"

definition demo_request :: CoinbaseBuildRequest where
  "demo_request = \<lparr> block_height = 500, coinbase_value_sats = 100,
     entitlements = demo_entitlements, witness_nonce_hex = None, witness_merkle_leaves_hex = [],
     coinbase_script_sig_suffix_hex = Some ''c0de'',
     pinned_first_output = Some \<lparr> recipient_id = ''bob'', order_key = ''b'',
       p2mr_program_hex = concat (replicate 32 ''B2'') \<rparr> \<rparr>"

definition demo_outputs :: "AllocatedOutput list" where
  "demo_outputs =
     [\<lparr> ao_recipient_id = ''bob'', ao_order_key = ''b'', p2mr_program = replicate 32 0xb2,
        script_pubkey = p2mr_script_pubkey (replicate 32 0xb2), ao_weight = 2, amount_sats = 67 \<rparr>,
      \<lparr> ao_recipient_id = ''ann'', ao_order_key = ''a'', p2mr_program = replicate 32 0xa1,
        script_pubkey = p2mr_script_pubkey (replicate 32 0xa1), ao_weight = 1, amount_sats = 33 \<rparr>]"

lemma demo_allocation: "allocate_outputs demo_crypto demo_request = Inr demo_outputs"
  by code_simp

text \<open>C1. The outputs of the coinbase pay exactly its value: whenever the allocation succeeds,
  there is one output per entitlement with its names and weight, the amounts add up to the
  coinbase value, and each amount is the floor or the ceiling of the proportional share.\<close>

theorem allocate_outputs_exact:
  assumes "allocate_outputs X request = Inr outs" and "coinbase_value_sats request < 2 ^ 64"
  shows "sum_list (map amount_sats outs) = coinbase_value_sats request \<and>
    mset (map (\<lambda>out. (ao_recipient_id out, ao_order_key out, ao_weight out)) outs) =
      mset (map (\<lambda>e. (recipient_id e, order_key e, weight e)) (entitlements request)) \<and>
    (\<forall>out\<in>set outs.
      coinbase_value_sats request * ao_weight out div sum_list (map weight (entitlements request))
        \<le> amount_sats out \<and>
      amount_sats out * sum_list (map weight (entitlements request)) <
        coinbase_value_sats request * ao_weight out + sum_list (map weight (entitlements request)))"
proof -
  have run: "allocate_outputs X (request \<lparr> coinbase_value_sats := coinbase_value_sats request,
    entitlements := entitlements request \<rparr>) = Inr outs" using assms(1) by simp
  show ?thesis
    using coinbase_outputs.alloc_total[OF run assms(2)] coinbase_outputs.alloc_keys[OF run assms(2)]
      coinbase_outputs.alloc_near[OF run assms(2)] by simp
qed

theorem allocate_outputs_exact_witness:
  "sum_list (map amount_sats demo_outputs) = coinbase_value_sats demo_request"
  using allocate_outputs_exact[OF demo_allocation] by (simp add: demo_request_def)

text \<open>The allocation succeeds exactly on well-formed requests: a positive value, at least one
  entitlement, a pin (if any) that selects one entitlement, positive weights whose sum and whose
  products with the value stay in 128 bits, and 32-byte programs. In particular the
  internal errors for a total that differs from the value are never returned.\<close>

lemma allocate_outputs_total:
  assumes "coinbase_value_sats request < 2 ^ 64"
  shows "is_ok (allocate_outputs X request) \<longleftrightarrow>
    0 < coinbase_value_sats request \<and> entitlements request \<noteq> [] \<and> is_ok (order_entitlements request) \<and>
    sum_list (map weight (entitlements request)) < 2 ^ 128 \<and>
    (\<forall>e\<in>set (entitlements request). 0 < weight e \<and> coinbase_value_sats request * weight e < 2 ^ 128 \<and>
       is_ok (parse_p2mr_program X e))"
    (is "_ \<longleftrightarrow> ?R")
proof
  assume "is_ok (allocate_outputs X request)"
  then obtain outs where outs: "allocate_outputs X request = Inr outs" by (auto simp: is_ok_iff)
  show ?R by (rule allocate_outputs_ok_needs[OF outs])
next
  assume ?R
  then show "is_ok (allocate_outputs X request)"
    using allocate_outputs_ok_suffices[OF assms] by (simp add: is_ok_iff)
qed

text \<open>A pinned payee is paid by output 0: the pin selects exactly one entitlement of the request,
  that entitlement's output comes first, and the others follow in canonical order.\<close>

lemma pinned_output_first:
  assumes "allocate_outputs X request = Inr outs" and "coinbase_value_sats request < 2 ^ 64"
    and "pinned_first_output request = Some pinned"
  shows "\<exists>e. filter (pinned_match pinned) (entitlements request) = [e] \<and>
    list_all2 (output_of X)
      (e # sort_key payee_order (filter (\<lambda>e. \<not> pinned_match pinned e) (entitlements request))) outs"
proof -
  from assms(1,2) obtain es where es: "order_entitlements request = Inr es"
    and outs: "list_all2 (output_of X) es outs" by (rule allocate_outputs_Inr)
  from order_entitlements_pinned[OF es assms(3)] outs show ?thesis by auto
qed

text \<open>The order in which the caller lists the entitlements does not matter: two requests that
  differ only in that order build the same manifest, bytes of the coinbase included, as long
  as no two different entitlements share all three names.\<close>

lemma build_manifest_input_order:
  assumes "mset es = mset es'" and "inj_on payee_order (set es)"
  shows "build_manifest X (request \<lparr> entitlements := es \<rparr>) = build_manifest X (request \<lparr> entitlements := es' \<rparr>)"
proof -
  have "order_entitlements (request \<lparr> entitlements := es \<rparr>) = order_entitlements (request \<lparr> entitlements := es' \<rparr>)"
    using sort_entitlements_cong[OF assms] by (simp add: order_entitlements_def)
  moreover have "es = [] \<longleftrightarrow> es' = []" using assms(1) by auto
  ultimately have alloc: "allocate_outputs X (request \<lparr> entitlements := es \<rparr>) =
      allocate_outputs X (request \<lparr> entitlements := es' \<rparr>)"
    by (simp add: allocate_outputs_def cong: if_cong)
  show ?thesis
    unfolding build_manifest_def build_coinbase_def alloc by (simp add: request_only_simps cong: if_cong)
qed

text \<open>A manifest that was built and signed verifies: with the documented behaviour of the hex and
  signature crates, verification accepts whatever signing with a 32-byte seed returns.\<close>

lemma signed_manifest_verifies:
  assumes "hex_law X" and "ed25519_law X" and "from_seed_hex X seed_hex = Inr key"
    and "build_signed_manifest X json request key = Inr sm"
  shows "verify_signed_manifest X json sm = Inr ()"
proof -
  have "length key = 32" using assms(3) by (simp add: from_seed_hex_def res_simps)
  then show ?thesis
    using assms by (auto simp: build_signed_manifest_def verify_signed_manifest_def
        verify_ed25519_message_def signing_public_key_hex_def hex_decode_encode ed25519_law_def res_simps)
qed

end
