(* ===== verification/Window_Cut.thy ===== *)
theory Window_Cut
  imports Prism_Base "HOL-Library.Option_ord"
begin

text \<open>
  The per-node cut of a dual-writer payout window (\<^verbatim>\<open>src/crates/qbit-prism/src/window_cut.rs\<close>).
  A cut holds, for each of the two nodes, the highest share sequence of that node's rows that
  the window may include. \<open>Option\<close> is ordered as in Rust, \<open>None\<close> below every \<open>Some\<close>. The
  hand-written deserializer is modelled on the sequence of keys and entries that the
  format's map access yields.
\<close>

section \<open>The cut and its operations\<close>

record WindowCut =
  node_0 :: "u64 option"
  node_1 :: "u64 option"

datatype WindowCutError = ZeroEntry | UnknownNode u8

definition cut_new :: "u64 option \<Rightarrow> u64 option \<Rightarrow> WindowCutError + WindowCut" where
  "cut_new n0 n1 =
     (if n0 = Some 0 \<or> n1 = Some 0 then Inl ZeroEntry else Inr \<lparr> node_0 = n0, node_1 = n1 \<rparr>)"

definition cut_get :: "WindowCut \<Rightarrow> u8 \<Rightarrow> WindowCutError + u64 option" where
  "cut_get c node =
     (if node = 0 then Inr (node_0 c) else if node = 1 then Inr (node_1 c) else Inl (UnknownNode node))"

definition cut_with :: "WindowCut \<Rightarrow> u8 \<Rightarrow> u64 option \<Rightarrow> WindowCutError + WindowCut" where
  "cut_with c node entry =
     (if node = 0 then cut_new entry (node_1 c)
      else if node = 1 then cut_new (node_0 c) entry
      else Inl (UnknownNode node))"

definition cut_top :: "WindowCut \<Rightarrow> u64 option" where
  "cut_top c = max (node_0 c) (node_1 c)"

definition admits :: "WindowCut \<Rightarrow> u8 \<Rightarrow> u64 \<Rightarrow> bool" where
  "admits c origin_node seq =
     (case cut_get c origin_node of
        Inr (Some entry) \<Rightarrow> seq \<le> entry
      | _ \<Rightarrow> False)"

definition covers :: "WindowCut \<Rightarrow> WindowCut \<Rightarrow> bool" where
  "covers c earlier \<longleftrightarrow> node_0 earlier \<le> node_0 c \<and> node_1 earlier \<le> node_1 c"

definition cut_ok :: "WindowCut \<Rightarrow> bool" where
  "cut_ok c \<longleftrightarrow> node_0 c \<noteq> Some 0 \<and> node_1 c \<noteq> Some 0"

section \<open>Its serialized form\<close>

datatype CutReadError = unknown_field string | duplicate_field string | missing_field string | custom WindowCutError

definition cut_entries :: "WindowCut \<Rightarrow> (string \<times> u64 option) list" where
  "cut_entries c = [(''0'', node_0 c), (''1'', node_1 c)]"

fun visit_entries ::
  "u64 option option \<Rightarrow> u64 option option \<Rightarrow> (string \<times> u64 option) list \<Rightarrow> CutReadError + WindowCut" where
  "visit_entries s0 s1 [] =
     rbind (ok_or s0 (missing_field ''0'')) (\<lambda>n0.
     rbind (ok_or s1 (missing_field ''1'')) (\<lambda>n1. Inr \<lparr> node_0 = n0, node_1 = n1 \<rparr>))"
| "visit_entries s0 s1 ((key, entry) # rest) =
     (if key = ''0'' then
        (if s0 \<noteq> None then Inl (duplicate_field ''0'')
         else if entry = Some 0 then Inl (custom ZeroEntry)
         else visit_entries (Some entry) s1 rest)
      else if key = ''1'' then
        (if s1 \<noteq> None then Inl (duplicate_field ''1'')
         else if entry = Some 0 then Inl (custom ZeroEntry)
         else visit_entries s0 (Some entry) rest)
      else Inl (unknown_field key))"

definition cut_deserialize :: "(string \<times> u64 option) list \<Rightarrow> CutReadError + WindowCut" where
  "cut_deserialize kvs = visit_entries None None kvs"

section \<open>Lemmas\<close>

lemma cut_new_Inr: "cut_new n0 n1 = Inr c \<longleftrightarrow> c = \<lparr> node_0 = n0, node_1 = n1 \<rparr> \<and> cut_ok c"
  by (auto simp: cut_new_def cut_ok_def)

lemma admits_le_top: "admits c n seq \<Longrightarrow> \<exists>top. cut_top c = Some top \<and> seq \<le> top"
  by (cases "node_0 c"; cases "node_1 c")
    (auto simp: admits_def cut_get_def cut_top_def max_def split: if_splits)

lemma covers_admits: "covers c c' \<Longrightarrow> admits c' n seq \<Longrightarrow> admits c n seq"
  by (cases "node_0 c"; cases "node_1 c"; cases "node_0 c'"; cases "node_1 c'")
    (auto simp: covers_def admits_def cut_get_def split: if_splits)

lemma covers_refl [simp]: "covers c c"
  by (simp add: covers_def)

lemma covers_trans: "covers a b \<Longrightarrow> covers b c \<Longrightarrow> covers a c"
  by (auto simp: covers_def intro: order_trans)

lemma visit_entries_both:
  "visit_entries (Some a) (Some b) kvs = Inr c \<Longrightarrow> kvs = [] \<and> c = \<lparr> node_0 = a, node_1 = b \<rparr>"
  by (cases kvs) (auto split: if_splits)

lemma visit_entries_left:
  "visit_entries (Some a) None kvs = Inr c \<Longrightarrow>
     node_0 c = a \<and> node_1 c \<noteq> Some 0 \<and> kvs = [(''1'', node_1 c)]"
  by (cases kvs) (auto split: if_splits dest!: visit_entries_both)

lemma visit_entries_right:
  "visit_entries None (Some b) kvs = Inr c \<Longrightarrow>
     node_1 c = b \<and> node_0 c \<noteq> Some 0 \<and> kvs = [(''0'', node_0 c)]"
  by (cases kvs) (auto split: if_splits dest!: visit_entries_both)

lemma cut_deserialize_Inr:
  "cut_deserialize kvs = Inr c \<Longrightarrow> cut_ok c \<and> (kvs = cut_entries c \<or> kvs = rev (cut_entries c))"
  unfolding cut_deserialize_def cut_ok_def cut_entries_def
  by (cases kvs) (auto split: if_splits dest!: visit_entries_left visit_entries_right)

section \<open>Properties\<close>

text \<open>Reading back a serialized cut gives the cut, and the reader accepts nothing else: an
  accepted map has exactly the keys 0 and 1, once each in either order, with no zero entry.\<close>

lemma cut_deserialize_iff:
  "cut_deserialize kvs = Inr c \<longleftrightarrow> cut_ok c \<and> (kvs = cut_entries c \<or> kvs = rev (cut_entries c))"
proof
  assume "cut_ok c \<and> (kvs = cut_entries c \<or> kvs = rev (cut_entries c))"
  then show "cut_deserialize kvs = Inr c"
    by (auto simp: cut_deserialize_def cut_entries_def cut_ok_def)
qed (rule cut_deserialize_Inr)

text \<open>A cut covers an earlier one exactly when it admits every row the earlier one admits.\<close>

lemma covers_iff_admits:
  "covers c earlier \<longleftrightarrow> (\<forall>node seq. admits earlier node seq \<longrightarrow> admits c node seq)"
proof
  assume r: "\<forall>node seq. admits earlier node seq \<longrightarrow> admits c node seq"
  have "node_0 earlier \<le> node_0 c"
    using r[rule_format, of 0 "the (node_0 earlier)"]
    by (cases "node_0 earlier"; cases "node_0 c") (auto simp: admits_def cut_get_def)
  moreover have "node_1 earlier \<le> node_1 c"
    using r[rule_format, of 1 "the (node_1 earlier)"]
    by (cases "node_1 earlier"; cases "node_1 c") (auto simp: admits_def cut_get_def)
  ultimately show "covers c earlier" by (simp add: covers_def)
qed (blast intro: covers_admits)

end
