(* ===== verification/Ordered_Map.thy ===== *)
theory Ordered_Map
  imports Prism_Base
begin

text \<open>
  \<^verbatim>\<open>BTreeMap\<close> as its entries in ascending key order: \<open>bt_lookup\<close> is \<^verbatim>\<open>get\<close>, \<open>bt_insert\<close> is
  \<^verbatim>\<open>insert\<close> and the write-back of an \<^verbatim>\<open>entry(key)\<close>, and iteration is the list itself.
  The locale \<open>entry_accumulator\<close> is the contract of the loops that add amounts up under a
  key (\<^verbatim>\<open>entry(key).or_insert_with(zero)\<close> followed by a checked addition): after a
  successful run, the entry of every key holds the sum of the amounts that were fed to it.
\<close>

section \<open>Entries in key order\<close>

type_synonym ('k, 'v) btree = "('k \<times> 'v) list"

fun bt_insert :: "'k::linorder \<Rightarrow> 'v \<Rightarrow> ('k, 'v) btree \<Rightarrow> ('k, 'v) btree" where
  "bt_insert k v [] = [(k, v)]"
| "bt_insert k v ((k', v') # m) =
     (if k < k' then (k, v) # (k', v') # m
      else if k = k' then (k, v) # m
      else (k', v') # bt_insert k v m)"

definition bt_lookup :: "('k, 'v) btree \<Rightarrow> 'k \<Rightarrow> 'v option" where
  "bt_lookup m k = map_of m k"

definition bt_values :: "('k, 'v) btree \<Rightarrow> 'v list" where
  "bt_values m = map snd m"

definition bt_ordered :: "('k::linorder, 'v) btree \<Rightarrow> bool" where
  "bt_ordered m \<longleftrightarrow> sorted_wrt (<) (map fst m)"

lemma bt_lookup_Nil [simp]: "bt_lookup [] k = None"
  by (simp add: bt_lookup_def)

lemma bt_lookup_insert [simp]:
  "bt_lookup (bt_insert k v m) k' = (if k' = k then Some v else bt_lookup m k')"
  by (induction k v m rule: bt_insert.induct) (auto simp: bt_lookup_def)

lemma set_keys_bt_insert: "fst ` set (bt_insert k v m) = insert k (fst ` set m)"
  by (induction k v m rule: bt_insert.induct) auto

lemma bt_ordered_Nil [simp]: "bt_ordered []"
  by (simp add: bt_ordered_def)

lemma bt_ordered_insert [simp]: "bt_ordered m \<Longrightarrow> bt_ordered (bt_insert k v m)"
proof (induction k v m rule: bt_insert.induct)
  case (2 k v k' v' m)
  have "x \<in> fst ` set (bt_insert k v m) \<Longrightarrow> x = k \<or> x \<in> fst ` set m" for x
    by (simp add: set_keys_bt_insert)
  with 2 show ?case by (fastforce simp: bt_ordered_def)
qed (simp add: bt_ordered_def)

lemma bt_ordered_distinct: "bt_ordered m \<Longrightarrow> distinct (map fst m)"
  by (simp add: bt_ordered_def strict_sorted_iff)

lemma bt_lookup_entry:
  "bt_ordered m \<Longrightarrow> bt_lookup m k = Some v \<longleftrightarrow> (k, v) \<in> set m"
  by (simp add: bt_lookup_def bt_ordered_distinct)

lemma bt_lookup_None: "bt_lookup m k = None \<longleftrightarrow> k \<notin> fst ` set m"
  by (simp add: bt_lookup_def map_of_eq_None_iff)

text \<open>Replacing one entry changes the sum over the entries by the difference.\<close>

lemma sum_bt_insert:
  fixes g :: "'v \<Rightarrow> 'n::comm_monoid_add"
  assumes "bt_ordered m"
  shows "sum_list (map (\<lambda>(k, v). g v) (bt_insert k v m)) +
         (case bt_lookup m k of None \<Rightarrow> 0 | Some w \<Rightarrow> g w) =
         sum_list (map (\<lambda>(k, v). g v) m) + g v"
  using assms
proof (induction k v m rule: bt_insert.induct)
  case (2 k v k' v' m)
  have nk: "bt_lookup m k = None" if "k < k'"
    using 2(2) that by (fastforce simp: bt_lookup_None bt_ordered_def)
  have nk': "bt_lookup m k' = None"
    using 2(2) by (fastforce simp: bt_lookup_None bt_ordered_def)
  have "bt_ordered m" using 2(2) by (simp add: bt_ordered_def)
  with 2(1) nk nk' show ?case
    by (auto simp: bt_lookup_def ac_simps split: option.splits)
qed simp

text \<open>An ordered map is determined by its lookups.\<close>

lemma bt_ext:
  assumes "bt_ordered m" "bt_ordered m'" "\<And>k. bt_lookup m k = bt_lookup m' k"
  shows "m = m'"
proof (rule map_sorted_distinct_set_unique[where f = fst])
  have eq: "set m = set m'"
    using assms by (metis bt_lookup_entry subrelI subset_antisym)
  then show "set m = set m'" .
  have "inj_on fst (set m)" using bt_ordered_distinct[OF assms(1)] by (simp add: distinct_map)
  then show "inj_on fst (set m \<union> set m')" by (simp add: eq)
qed (use assms(1,2) in \<open>simp_all add: bt_ordered_def strict_sorted_iff\<close>)

section \<open>Accumulating under a key\<close>

definition bt_accumulate ::
  "('x \<Rightarrow> 'k::linorder) \<Rightarrow> ('v option \<Rightarrow> 'x \<Rightarrow> 'e + 'v) \<Rightarrow> 'x list \<Rightarrow> 'e + ('k, 'v) btree" where
  "bt_accumulate key step xs =
     rfold (\<lambda>m x. rbind (step (bt_lookup m (key x)) x) (\<lambda>v. Inr (bt_insert (key x) v m))) [] xs"

lemma bt_accumulate_Nil [simp]: "bt_accumulate key step [] = Inr []"
  by (simp add: bt_accumulate_def)

lemma bt_accumulate_snoc:
  "bt_accumulate key step (xs @ [x]) = Inr m \<longleftrightarrow>
     (\<exists>m' v. bt_accumulate key step xs = Inr m' \<and> step (bt_lookup m' (key x)) x = Inr v \<and>
        m = bt_insert (key x) v m')"
  by (auto simp: bt_accumulate_def rfold_append res_simps)

lemma bt_accumulate_ordered: "bt_accumulate key step xs = Inr m \<Longrightarrow> bt_ordered m"
  by (induction xs arbitrary: m rule: rev_induct) (auto simp: bt_accumulate_snoc)

lemma bt_accumulate_keys: "bt_accumulate key step xs = Inr m \<Longrightarrow> fst ` set m = key ` set xs"
proof (induction xs arbitrary: m rule: rev_induct)
  case Nil
  then show ?case by simp
next
  case (snoc x xs)
  then obtain m' v where "bt_accumulate key step xs = Inr m'" "m = bt_insert (key x) v m'"
    by (auto simp: bt_accumulate_snoc)
  with snoc.IH show ?case by (simp add: set_keys_bt_insert)
qed

locale entry_accumulator =
  fixes key :: "'x \<Rightarrow> 'k::linorder"
    and step :: "'v option \<Rightarrow> 'x \<Rightarrow> 'e + 'v"
    and amount :: "'x \<Rightarrow> 'n::cancel_comm_monoid_add"
    and total :: "'v \<Rightarrow> 'n"
  assumes step_new: "step None x = Inr v \<Longrightarrow> total v = amount x"
    and step_add: "step (Some u) x = Inr v \<Longrightarrow> total v = total u + amount x"
begin

lemma accumulate_entry:
  "bt_accumulate key step xs = Inr m \<Longrightarrow> bt_lookup m k = Some v \<Longrightarrow>
     total v = sum_list (map amount (filter (\<lambda>x. key x = k) xs))"
proof (induction xs arbitrary: m k v rule: rev_induct)
  case Nil
  then show ?case by simp
next
  case (snoc x xs)
  then obtain m' w where m': "bt_accumulate key step xs = Inr m'"
    and w: "step (bt_lookup m' (key x)) x = Inr w" and m: "m = bt_insert (key x) w m'"
    by (auto simp: bt_accumulate_snoc)
  show ?case
  proof (cases "k = key x")
    case False
    with snoc.prems(2) m have "bt_lookup m' k = Some v" by simp
    with snoc.IH[OF m'] False show ?thesis by simp
  next
    case True
    with snoc.prems(2) m have v: "v = w" by simp
    show ?thesis
    proof (cases "bt_lookup m' (key x)")
      case None
      then have "filter (\<lambda>x'. key x' = key x) xs = []"
        using bt_accumulate_keys[OF m'] by (simp add: bt_lookup_None filter_empty_conv) (metis imageI)
      with True v w None show ?thesis by (simp add: step_new)
    next
      case (Some u)
      with True v w snoc.IH[OF m' Some] show ?thesis by (simp add: step_add)
    qed
  qed
qed

lemma accumulate_total:
  "bt_accumulate key step xs = Inr m \<Longrightarrow>
     sum_list (map (\<lambda>(k, v). total v) m) = sum_list (map amount xs)"
proof (induction xs arbitrary: m rule: rev_induct)
  case Nil
  then show ?case by simp
next
  case (snoc x xs)
  then obtain m' w where m': "bt_accumulate key step xs = Inr m'"
    and w: "step (bt_lookup m' (key x)) x = Inr w" and m: "m = bt_insert (key x) w m'"
    by (auto simp: bt_accumulate_snoc)
  have "bt_ordered m'" using m' by (rule bt_accumulate_ordered)
  from sum_bt_insert[OF this, of total "key x" w] snoc.IH[OF m'] w
  show ?case
    by (cases "bt_lookup m' (key x)")
      (auto simp: m step_new step_add add.left_commute add.commute intro: add_left_imp_eq)
qed

end

text \<open>The entry also remembers which key it stands under (a program in another case).\<close>

locale keyed_accumulator = entry_accumulator key step amount total
  for key :: "'x \<Rightarrow> 'k::linorder"
    and step :: "'v option \<Rightarrow> 'x \<Rightarrow> 'e + 'v"
    and amount :: "'x \<Rightarrow> 'n::cancel_comm_monoid_add"
    and total :: "'v \<Rightarrow> 'n" +
  fixes vkey :: "'v \<Rightarrow> 'k"
  assumes step_vkey_new: "step None x = Inr v \<Longrightarrow> vkey v = key x"
    and step_vkey: "step (Some u) x = Inr v \<Longrightarrow> vkey v = vkey u"
begin

lemma accumulate_vkey:
  "bt_accumulate key step xs = Inr m \<Longrightarrow> (k, v) \<in> set m \<Longrightarrow> vkey v = k"
proof (induction xs arbitrary: m k v rule: rev_induct)
  case Nil
  then show ?case by simp
next
  case (snoc x xs)
  then obtain m' w where m': "bt_accumulate key step xs = Inr m'"
    and w: "step (bt_lookup m' (key x)) x = Inr w" and m: "m = bt_insert (key x) w m'"
    by (auto simp: bt_accumulate_snoc)
  have o: "bt_ordered m'" using m' by (rule bt_accumulate_ordered)
  have "vkey w = key x"
    using w snoc.IH[OF m'] o
    by (cases "bt_lookup m' (key x)") (auto simp: step_vkey_new step_vkey bt_lookup_entry)
  with snoc.prems(2) snoc.IH[OF m'] o show ?case
    by (auto simp: m bt_lookup_entry[symmetric] split: if_splits)
qed

end

end
