(* ===== verification/Reward_Window.thy ===== *)
theory Reward_Window
  imports Pool_Builder Window_Cut Ordered_Map
begin

text \<open>
  The PRISM reward window (\<^verbatim>\<open>src/crates/qbit-prism/src/lib.rs\<close>): from the accepted shares and
  the found block it selects the newest eligible shares up to eight times the network
  difficulty, aggregates them per miner, and records the result in the reward manifest. The
  serial fold and the builder's chunked fold are both modelled; the worker threads of the
  latter are abstracted to what \<^verbatim>\<open>ordered_chunks\<close> promises, that chunks are consumed in index
  order. Hashing a stream of updates is hashing their concatenation.
\<close>

section \<open>Errors\<close>

datatype PrismError =
    ZeroNetworkDifficulty
  | ZeroShareDifficulty u64
  | DuplicateShareId string
  | ShareOutsideWindowCut u64
  | WindowOverflow
  | PayoutPolicyOverflow
  | InvalidMinOutputFloor
  | PoolFeeBpsTooHigh u16
  | DuplicatePoolFeeAccount
  | PoolFeeFirstRequiresPoolFee
  | EmptyWindow i64
  | DuplicateCarryForward string
  | CoinbaseBelowFloor u64 u64
  | NoOnchainRecipients
  | PayoutExceedsCandidateBalance u64 u128
  | PayoutBelowFloor string u64 u64
  | MaturePayoutDisconnect string
  | Builder BuilderError
  | PrismJson string
  | AuditMismatch string
  | AuditCoinbaseTxMismatch
  | ExpectedCoinbaseValueMismatch u64 u64
  | LedgerAttestationKeyReuse
  | InvalidCtvFanoutManifest string
  | InvalidAuditCommitment string
  | SettlementModeSelection string
  | Panicked string

text \<open>
  \<open>Panicked\<close> is not a variant of the source's enum: it stands for the panic of an \<^verbatim>\<open>expect\<close>, so that
  the absence of panics can be stated.
\<close>

section \<open>Data\<close>

definition PRISM_WINDOW_MULTIPLIER :: u128 where "PRISM_WINDOW_MULTIPLIER = 8"

text \<open>The fields that \<^verbatim>\<open>AcceptedShare\<close> and \<^verbatim>\<open>CountedShare\<close> have in common.\<close>

record share_fields =
  share_seq :: u64
  share_id :: string
  miner_id :: string
  s_order_key :: string
  s_p2mr_program_hex :: string
  share_difficulty :: u128
  job_issued_at_ms :: i64
  accepted_at_ms :: i64
  credit_policy :: "string option"

record AcceptedShare = share_fields +
  s_network_difficulty :: u128
  template_height :: u64
  job_id :: string
  ntime :: u32

record CountedShare = share_fields +
  counted_difficulty :: u128

record FoundBlock =
  fb_block_height :: u64
  fb_coinbase_value_sats :: u64
  fb_network_difficulty :: u128
  fb_anchor_job_issued_at_ms :: i64

record PrismWindow =
  w_anchor_job_issued_at_ms :: i64
  w_anchor_share_seq :: u64
  w_requested_window_weight :: u128
  w_counted_window_weight :: u128
  w_shares :: "CountedShare list"
  w_entitlements :: "WeightedEntitlement list"

text \<open>\<^verbatim>\<open>PrismRewardManifest\<close> is its header and, as the last field, the counted shares.\<close>

record PrismRewardManifestHeader =
  rm_schema :: string
  rm_block_height :: u64
  rm_coinbase_value_sats :: u64
  rm_network_difficulty :: u128
  rm_window_multiplier :: u128
  rm_requested_window_weight :: u128
  rm_counted_window_weight :: u128
  rm_anchor_job_issued_at_ms :: i64
  rm_anchor_share_seq :: u64
  rm_newest_share_seq :: u64
  rm_oldest_share_seq :: u64
  rm_cut :: "WindowCut option"
  rm_included_share_count :: usize
  rm_share_slice_digest_hex :: string
  rm_entitlements :: "WeightedEntitlement list"

record PrismRewardManifest = PrismRewardManifestHeader +
  rm_shares :: "CountedShare list"

type_synonym miner_key = "string \<times> string \<times> string"

definition MinerKey :: "('x) share_fields_scheme \<Rightarrow> miner_key" where
  "MinerKey s = (miner_id s, s_order_key s, s_p2mr_program_hex s)"

section \<open>Eligibility and order\<close>

definition share_eligible :: "FoundBlock \<Rightarrow> AcceptedShare \<Rightarrow> bool" where
  "share_eligible fb s \<longleftrightarrow>
     job_issued_at_ms s \<le> fb_anchor_job_issued_at_ms fb \<and>
     accepted_at_ms s \<le> fb_anchor_job_issued_at_ms fb"

definition outside_cut :: "WindowCut option \<Rightarrow> AcceptedShare \<Rightarrow> bool" where
  "outside_cut wcut s =
     (case map_option cut_top wcut of
        None \<Rightarrow> False
      | Some None \<Rightarrow> True
      | Some (Some highest) \<Rightarrow> share_seq s > highest)"

definition scan_share ::
  "FoundBlock \<Rightarrow> WindowCut option \<Rightarrow> string set \<times> AcceptedShare list \<Rightarrow> AcceptedShare \<Rightarrow>
     PrismError + string set \<times> AcceptedShare list" where
  "scan_share fb wcut = (\<lambda>(seen, eligible) s.
     if share_difficulty s = 0 then Inl (ZeroShareDifficulty (share_seq s))
     else if outside_cut wcut s then Inl (ShareOutsideWindowCut (share_seq s))
     else if share_id s \<in> seen then Inl (DuplicateShareId (share_id s))
     else Inr (insert (share_id s) seen, if share_eligible fb s then eligible @ [s] else eligible))"

definition newest_first :: "AcceptedShare list \<Rightarrow> AcceptedShare list" where
  "newest_first eligible =
     (if successively (\<lambda>a b. share_seq a < share_seq b) eligible then rev eligible
      else if successively (\<lambda>a b. share_seq a > share_seq b) eligible then eligible
      else sort_key (\<lambda>s. - int (share_seq s)) eligible)"

definition eligible_window ::
  "AcceptedShare list \<Rightarrow> FoundBlock \<Rightarrow> WindowCut option \<Rightarrow> PrismError + AcceptedShare list \<times> u128" where
  "eligible_window shares fb wcut =
     (if fb_network_difficulty fb = 0 then Inl ZeroNetworkDifficulty
      else
        rbind (rfold (scan_share fb wcut) ({}, []) shares) (\<lambda>(seen, eligible).
        rbind (ok_or (checked_mul 128 (fb_network_difficulty fb) PRISM_WINDOW_MULTIPLIER) WindowOverflow)
          (\<lambda>requested. Inr (newest_first eligible, requested))))"

section \<open>The fold\<close>

definition counted_share :: "AcceptedShare \<Rightarrow> u128 \<Rightarrow> CountedShare" where
  "counted_share s counted =
     \<lparr> share_seq = share_seq s, share_id = share_id s, miner_id = miner_id s,
       s_order_key = s_order_key s, s_p2mr_program_hex = s_p2mr_program_hex s,
       share_difficulty = share_difficulty s, job_issued_at_ms = job_issued_at_ms s,
       accepted_at_ms = accepted_at_ms s, credit_policy = credit_policy s,
       counted_difficulty = counted \<rparr>"

fun count_shares :: "u128 \<Rightarrow> AcceptedShare list \<Rightarrow> CountedShare list" where
  "count_shares remaining [] = []"
| "count_shares remaining (s # ss) =
     (if remaining = 0 then []
      else let counted = min (share_difficulty s) remaining in
        counted_share s counted # count_shares (remaining - counted) ss)"

definition entitlement_step :: "u128 option \<Rightarrow> CountedShare \<Rightarrow> PrismError + u128" where
  "entitlement_step existing s =
     ok_or (checked_add 128 (case existing of None \<Rightarrow> 0 | Some w \<Rightarrow> w) (counted_difficulty s)) WindowOverflow"

definition miner_entitlement :: "miner_key \<times> u128 \<Rightarrow> WeightedEntitlement" where
  "miner_entitlement = (\<lambda>((miner, key, program), w).
     \<lparr> recipient_id = miner, order_key = key, p2mr_program_hex = program, weight = w \<rparr>)"

definition aggregate_entitlements :: "CountedShare list \<Rightarrow> PrismError + WeightedEntitlement list" where
  "aggregate_entitlements counted_shares =
     rbind (bt_accumulate MinerKey entitlement_step counted_shares) (\<lambda>weights.
       Inr (map miner_entitlement weights))"

definition compute_prism_window_in_cut ::
  "AcceptedShare list \<Rightarrow> FoundBlock \<Rightarrow> WindowCut option \<Rightarrow> PrismError + PrismWindow" where
  "compute_prism_window_in_cut shares fb wcut =
     rbind (eligible_window shares fb wcut) (\<lambda>(eligible, requested).
     let counted_shares = count_shares requested eligible in
     if counted_shares = [] then Inl (EmptyWindow (fb_anchor_job_issued_at_ms fb))
     else
       rbind (try_sum 128 WindowOverflow (map counted_difficulty counted_shares)) (\<lambda>counted_weight.
       rbind (aggregate_entitlements counted_shares) (\<lambda>es.
       Inr \<lparr> w_anchor_job_issued_at_ms = fb_anchor_job_issued_at_ms fb,
             w_anchor_share_seq = share_seq (counted_shares ! 0),
             w_requested_window_weight = requested, w_counted_window_weight = counted_weight,
             w_shares = counted_shares, w_entitlements = es \<rparr>)))"

definition compute_prism_window :: "AcceptedShare list \<Rightarrow> FoundBlock \<Rightarrow> PrismError + PrismWindow" where
  "compute_prism_window shares fb = compute_prism_window_in_cut shares fb None"

section \<open>Digests\<close>

definition update_u64 :: "u64 \<Rightarrow> byte list" where "update_u64 v = be_bytes 8 v"
definition update_u128 :: "u128 \<Rightarrow> byte list" where "update_u128 v = be_bytes 16 v"
definition update_i64 :: "i64 \<Rightarrow> byte list" where "update_i64 v = be_bytes 8 (signed_bits 8 v)"
definition update_i128 :: "i128 \<Rightarrow> byte list" where "update_i128 v = be_bytes 16 (signed_bits 16 v)"
definition update_string :: "string \<Rightarrow> byte list" where
  "update_string v = update_u64 (length v) @ as_bytes v"

definition update_slice_digest :: "CountedShare \<Rightarrow> byte list" where
  "update_slice_digest s =
     update_u64 (share_seq s) @ update_string (share_id s) @ update_string (miner_id s) @
     update_string (s_order_key s) @ update_string (s_p2mr_program_hex s) @
     update_u128 (share_difficulty s) @ update_u128 (counted_difficulty s) @
     update_i64 (job_issued_at_ms s) @ update_i64 (accepted_at_ms s) @
     (case credit_policy s of
        Some policy \<Rightarrow> update_string ''credit_policy'' @ update_string policy
      | None \<Rightarrow> [])"

definition share_slice_digest_hex :: "crypto \<Rightarrow> CountedShare list \<Rightarrow> string" where
  "share_slice_digest_hex X shares = hex_encode X (sha256 X (concat (map update_slice_digest shares)))"

definition sha256_hex :: "crypto \<Rightarrow> byte list \<Rightarrow> string" where
  "sha256_hex X bytes = hex_encode X (sha256 X bytes)"

section \<open>The builder's chunked fold\<close>

fun taken_difficulties :: "u128 \<Rightarrow> AcceptedShare list \<Rightarrow> u128 list" where
  "taken_difficulties remaining [] = []"
| "taken_difficulties remaining (s # ss) =
     (if remaining = 0 then []
      else let taken = min (share_difficulty s) remaining in
        taken # taken_difficulties (remaining - taken) ss)"

text \<open>What a worker makes of one chunk: its counted shares, their digest bytes and partial sums.\<close>

definition fold_chunk ::
  "(AcceptedShare \<times> u128) list \<Rightarrow> PrismError + CountedShare list \<times> byte list \<times> (miner_key, u128) btree" where
  "fold_chunk pairs =
     (let chunk = map (\<lambda>(s, credited). counted_share s credited) pairs in
      rbind (bt_accumulate MinerKey entitlement_step chunk) (\<lambda>chunk_weights.
        Inr (chunk, concat (map update_slice_digest chunk), chunk_weights)))"

definition merge_weights ::
  "(miner_key, u128) btree \<Rightarrow> (miner_key, u128) btree \<Rightarrow> PrismError + (miner_key, u128) btree" where
  "merge_weights weights chunk_weights =
     rfold (\<lambda>ws (key, w).
       rbind (ok_or (checked_add 128 (case bt_lookup ws key of None \<Rightarrow> 0 | Some t \<Rightarrow> t) w) WindowOverflow)
         (\<lambda>t. Inr (bt_insert key t ws))) weights chunk_weights"

definition merge_chunk ::
  "CountedShare list \<times> byte list \<times> (miner_key, u128) btree \<Rightarrow> (AcceptedShare \<times> u128) list \<Rightarrow>
     PrismError + CountedShare list \<times> byte list \<times> (miner_key, u128) btree" where
  "merge_chunk = (\<lambda>(shares, bytes, weights) pairs.
     rbind (fold_chunk pairs) (\<lambda>(chunk, digest_bytes, chunk_weights).
     rbind (merge_weights weights chunk_weights) (\<lambda>weights'.
       Inr (shares @ chunk, bytes @ digest_bytes, weights'))))"

definition compute_prism_window_parallel ::
  "crypto \<Rightarrow> AcceptedShare list \<Rightarrow> FoundBlock \<Rightarrow> WindowCut option \<Rightarrow> usize \<Rightarrow> PrismError + PrismWindow \<times> string" where
  "compute_prism_window_parallel X shares fb wcut chunk_len =
     rbind (eligible_window shares fb wcut) (\<lambda>(eligible, requested).
     let counted = taken_difficulties requested eligible in
     if counted = [] then Inl (EmptyWindow (fb_anchor_job_issued_at_ms fb))
     else
       rbind (try_sum 128 WindowOverflow counted) (\<lambda>counted_weight.
       let taken = take (length counted) eligible;
           len = min chunk_len (length taken) in
       rbind (rfold merge_chunk ([], [], []) (chunks len (zip taken counted))) (\<lambda>(counted_shares, bytes, weights).
       Inr (\<lparr> w_anchor_job_issued_at_ms = fb_anchor_job_issued_at_ms fb,
              w_anchor_share_seq = share_seq (taken ! 0),
              w_requested_window_weight = requested, w_counted_window_weight = counted_weight,
              w_shares = counted_shares, w_entitlements = map miner_entitlement weights \<rparr>,
            hex_encode X (sha256 X bytes)))))"

section \<open>The reward manifest\<close>

definition reward_manifest ::
  "FoundBlock \<Rightarrow> WindowCut option \<Rightarrow> PrismWindow \<Rightarrow> string \<Rightarrow> PrismRewardManifest" where
  "reward_manifest fb wcut window digest_hex =
     \<lparr> rm_schema = ''qbit.prism.reward-manifest.v1'',
       rm_block_height = fb_block_height fb,
       rm_coinbase_value_sats = fb_coinbase_value_sats fb,
       rm_network_difficulty = fb_network_difficulty fb,
       rm_window_multiplier = PRISM_WINDOW_MULTIPLIER,
       rm_requested_window_weight = w_requested_window_weight window,
       rm_counted_window_weight = w_counted_window_weight window,
       rm_anchor_job_issued_at_ms = w_anchor_job_issued_at_ms window,
       rm_anchor_share_seq = w_anchor_share_seq window,
       rm_newest_share_seq = share_seq (w_shares window ! 0),
       rm_oldest_share_seq = share_seq (last (w_shares window)),
       rm_cut = wcut,
       rm_included_share_count = length (w_shares window),
       rm_share_slice_digest_hex = digest_hex,
       rm_entitlements = w_entitlements window,
       rm_shares = w_shares window \<rparr>"

definition build_prism_reward_manifest_with_cut ::
  "crypto \<Rightarrow> AcceptedShare list \<Rightarrow> FoundBlock \<Rightarrow> WindowCut option \<Rightarrow> PrismError + PrismRewardManifest" where
  "build_prism_reward_manifest_with_cut X shares fb wcut =
     rbind (compute_prism_window_in_cut shares fb wcut) (\<lambda>window.
       Inr (reward_manifest fb wcut window (share_slice_digest_hex X (w_shares window))))"

definition build_prism_reward_manifest ::
  "crypto \<Rightarrow> AcceptedShare list \<Rightarrow> FoundBlock \<Rightarrow> PrismError + PrismRewardManifest" where
  "build_prism_reward_manifest X shares fb = build_prism_reward_manifest_with_cut X shares fb None"

text \<open>\<^verbatim>\<open>Parallelism\<close>: the number of workers and the length of a chunk.\<close>

record Parallelism =
  workers :: usize
  chunk_len :: usize

definition parallelism_serial :: Parallelism where
  "parallelism_serial = \<lparr> workers = 1, chunk_len = 2 ^ 64 - 1 \<rparr>"

definition parallelism_new :: "usize \<Rightarrow> usize \<Rightarrow> Parallelism" where
  "parallelism_new n len = \<lparr> workers = max n 1, chunk_len = max len 1 \<rparr>"

definition is_serial :: "Parallelism \<Rightarrow> bool" where
  "is_serial p \<longleftrightarrow> workers p \<le> 1"

definition build_prism_reward_manifest_parallel ::
  "crypto \<Rightarrow> AcceptedShare list \<Rightarrow> FoundBlock \<Rightarrow> WindowCut option \<Rightarrow> Parallelism \<Rightarrow>
     PrismError + PrismRewardManifest" where
  "build_prism_reward_manifest_parallel X shares fb wcut parallelism =
     (if is_serial parallelism then build_prism_reward_manifest_with_cut X shares fb wcut
      else
        rbind (compute_prism_window_parallel X shares fb wcut (chunk_len parallelism)) (\<lambda>(window, digest_hex).
          Inr (reward_manifest fb wcut window digest_hex)))"

definition into_parts :: "PrismRewardManifest \<Rightarrow> PrismRewardManifestHeader \<times> CountedShare list" where
  "into_parts m = (PrismRewardManifestHeader.truncate m, rm_shares m)"

definition into_manifest :: "PrismRewardManifestHeader \<Rightarrow> CountedShare list \<Rightarrow> PrismRewardManifest" where
  "into_manifest h shares = PrismRewardManifestHeader.extend h (PrismRewardManifest.fields shares)"

definition restore_reward_manifest ::
  "crypto \<Rightarrow> PrismRewardManifestHeader \<Rightarrow> AcceptedShare list \<Rightarrow> FoundBlock \<Rightarrow> PrismError + PrismRewardManifest" where
  "restore_reward_manifest X header shares fb =
     rbind (build_prism_reward_manifest_with_cut X shares fb (rm_cut header)) (\<lambda>m.
       let (rebuilt, window) = into_parts m in
       if rebuilt \<noteq> header then Inl (AuditMismatch ''reward_manifest'')
       else Inr (into_manifest rebuilt window))"

definition build_prism_coinbase_request ::
  "AcceptedShare list \<Rightarrow> FoundBlock \<Rightarrow> PrismError + CoinbaseBuildRequest \<times> PrismWindow" where
  "build_prism_coinbase_request shares fb =
     rbind (compute_prism_window shares fb) (\<lambda>window.
       Inr (\<lparr> block_height = fb_block_height fb, coinbase_value_sats = fb_coinbase_value_sats fb,
              entitlements = w_entitlements window, witness_nonce_hex = None,
              witness_merkle_leaves_hex = [], coinbase_script_sig_suffix_hex = None,
              pinned_first_output = None \<rparr>, window))"

section \<open>Eligibility and order: lemmas\<close>

definition shares_valid :: "WindowCut option \<Rightarrow> AcceptedShare list \<Rightarrow> bool" where
  "shares_valid wcut shares \<longleftrightarrow>
     (\<forall>s\<in>set shares. 0 < share_difficulty s \<and> \<not> outside_cut wcut s) \<and> distinct (map share_id shares)"

lemma scan_shares_Inr:
  "rfold (scan_share fb wcut) (seen, el) shares = Inr r \<longleftrightarrow>
     shares_valid wcut shares \<and> share_id ` set shares \<inter> seen = {} \<and>
     r = (share_id ` set shares \<union> seen, el @ filter (share_eligible fb) shares)"
proof (induction shares arbitrary: seen el)
  case Nil
  then show ?case by (auto simp: shares_valid_def)
next
  case (Cons s shares)
  show ?case
  proof (cases "share_difficulty s = 0 \<or> outside_cut wcut s \<or> share_id s \<in> seen")
    case True
    then show ?thesis by (auto simp: scan_share_def shares_valid_def)
  next
    case False
    then show ?thesis
      using Cons.IH[of "insert (share_id s) seen" "if share_eligible fb s then el @ [s] else el"]
      by (auto simp: scan_share_def shares_valid_def)
  qed
qed

abbreviation newest_key :: "('x) share_fields_scheme \<Rightarrow> int" where
  "newest_key s \<equiv> - int (share_seq s)"

text \<open>The shortcuts for ascending and descending input give what the stable sort gives.\<close>

lemma newest_first_sorts: "newest_first xs = sort_key newest_key xs"
proof -
  have asc: "sort_key newest_key xs = rev xs" if "successively (\<lambda>a b. share_seq a < share_seq b) xs"
  proof -
    have s: "sorted_wrt (\<lambda>a b. share_seq a < share_seq b) xs"
      using that by (subst (asm) successively_conv_sorted_wrt) (auto simp: transp_def)
    then have "sorted_wrt (<) (map share_seq xs)" by (simp add: sorted_wrt_map)
    then have "inj_on share_seq (set xs)" by (simp add: strict_sorted_iff distinct_map)
    then have "inj_on newest_key (set xs)" by (simp add: inj_on_def)
    moreover have "sorted_wrt (\<lambda>a b. newest_key a \<le> newest_key b) (rev xs)"
      using s unfolding sorted_wrt_rev by (rule sorted_wrt_mono_rel[rotated]) simp
    then have "sorted (map newest_key (rev xs))" by (simp add: sorted_wrt_map)
    ultimately show ?thesis by (intro sort_key_inj_key_eq) simp_all
  qed
  have desc: "sort_key newest_key xs = xs" if "successively (\<lambda>a b. share_seq a > share_seq b) xs"
  proof -
    have "sorted_wrt (\<lambda>a b. share_seq a > share_seq b) xs"
      using that by (subst (asm) successively_conv_sorted_wrt) (auto simp: transp_def)
    then have "sorted_wrt (\<lambda>a b. newest_key a \<le> newest_key b) xs"
      by (rule sorted_wrt_mono_rel[rotated]) simp
    then show ?thesis by (simp add: sort_key_id_if_sorted sorted_wrt_map)
  qed
  show ?thesis using asc desc by (simp add: newest_first_def)
qed

lemma eligible_window_Inr [res_simps]:
  "eligible_window shares fb wcut = Inr (el, requested) \<longleftrightarrow>
     0 < fb_network_difficulty fb \<and> shares_valid wcut shares \<and>
     el = sort_key newest_key (filter (share_eligible fb) shares) \<and>
     requested = 8 * fb_network_difficulty fb \<and> 8 * fb_network_difficulty fb < 2 ^ 128"
proof -
  have "rfold (scan_share fb wcut) ({}, []) shares = Inr r \<longleftrightarrow>
     shares_valid wcut shares \<and> r = (share_id ` set shares, filter (share_eligible fb) shares)" for r
    by (subst scan_shares_Inr) simp
  then show ?thesis
    by (auto simp: eligible_window_def rbind_Inr ok_or_Inr checked_mul_Some PRISM_WINDOW_MULTIPLIER_def
        newest_first_sorts mult.commute)
qed

lemma eligible_window_valid:
  assumes "shares_valid wcut shares"
  shows "eligible_window shares fb wcut =
    (if fb_network_difficulty fb = 0 then Inl ZeroNetworkDifficulty
     else rbind (ok_or (checked_mul 128 (fb_network_difficulty fb) PRISM_WINDOW_MULTIPLIER) WindowOverflow)
       (\<lambda>requested. Inr (sort_key newest_key (filter (share_eligible fb) shares), requested)))"
proof -
  have "rfold (scan_share fb wcut) ({}, []) shares = Inr (share_id ` set shares, filter (share_eligible fb) shares)"
    by (subst scan_shares_Inr) (simp add: assms)
  then show ?thesis by (simp add: eligible_window_def newest_first_sorts)
qed

section \<open>The fold: lemmas\<close>

lemma counted_share_simps [simp]:
  "counted_difficulty (counted_share s c) = c" "share_difficulty (counted_share s c) = share_difficulty s"
  "share_seq (counted_share s c) = share_seq s" "share_id (counted_share s c) = share_id s"
  "MinerKey (counted_share s c) = MinerKey s"
  by (simp_all add: counted_share_def MinerKey_def)

lemma count_shares_zip:
  "count_shares r ss = map (\<lambda>(s, c). counted_share s c) (zip ss (taken_difficulties r ss))"
  by (induction r ss rule: count_shares.induct) (simp_all add: Let_def)

lemma length_taken: "length (taken_difficulties r ss) \<le> length ss"
  by (induction r ss rule: taken_difficulties.induct) (simp_all add: Let_def)

lemma counted_difficulties: "map counted_difficulty (count_shares r ss) = taken_difficulties r ss"
  by (induction r ss rule: count_shares.induct) (simp_all add: Let_def)

lemma sum_taken: "sum_list (taken_difficulties r ss) = min r (sum_list (map share_difficulty ss))"
  by (induction r ss rule: taken_difficulties.induct) (auto simp: Let_def min_def)

lemma count_shares_seqs: "map share_seq (count_shares r ss) = map share_seq (take (length (count_shares r ss)) ss)"
  by (induction r ss rule: count_shares.induct) (simp_all add: Let_def)

lemma count_shares_positive:
  "\<forall>s\<in>set ss. 0 < share_difficulty s \<Longrightarrow> c \<in> set (count_shares r ss) \<Longrightarrow>
     0 < counted_difficulty c \<and> counted_difficulty c \<le> share_difficulty c"
  by (induction r ss rule: count_shares.induct) (auto simp: Let_def split: if_splits)

lemma count_shares_full:
  "i + 1 < length (count_shares r ss) \<Longrightarrow>
     counted_difficulty (count_shares r ss ! i) = share_difficulty (count_shares r ss ! i)"
proof (induction r ss arbitrary: i rule: count_shares.induct)
  case (2 r s ss)
  show ?case
  proof (cases i)
    case 0
    with 2(2) have "count_shares (r - min (share_difficulty s) r) ss \<noteq> []"
      by (auto simp: Let_def split: if_splits)
    then have "r - min (share_difficulty s) r \<noteq> 0" by (cases ss) auto
    with 0 2(2) show ?thesis by (auto simp: Let_def min_def split: if_splits)
  next
    case (Suc j)
    with 2(2) show ?thesis using 2(1)[of _ j] by (auto simp: Let_def split: if_splits)
  qed
qed simp

interpretation window_weights: entry_accumulator MinerKey entitlement_step counted_difficulty "\<lambda>w. w"
  by unfold_locales (auto simp: entitlement_step_def res_simps checked_simps)

lemma window_weights_lookup:
  assumes "bt_accumulate MinerKey entitlement_step xs = Inr m"
  shows "bt_lookup m k = (if k \<in> MinerKey ` set xs
     then Some (sum_list (map counted_difficulty (filter (\<lambda>x. MinerKey x = k) xs))) else None)"
proof (cases "bt_lookup m k")
  case None
  then show ?thesis using bt_accumulate_keys[OF assms] by (simp add: bt_lookup_None)
next
  case (Some v)
  then have "k \<in> MinerKey ` set xs"
    using bt_accumulate_keys[OF assms] bt_lookup_None[of m k] by simp
  with Some window_weights.accumulate_entry[OF assms Some] show ?thesis by simp
qed

lemma sum_list_filter_le: "sum_list (map f (filter P xs)) \<le> (sum_list (map f xs) :: nat)"
  by (induction xs) simp_all

lemma window_weights_ok:
  "sum_list (map counted_difficulty xs) < 2 ^ 128 \<Longrightarrow>
     \<exists>m. bt_accumulate MinerKey entitlement_step xs = Inr m"
proof (induction xs rule: rev_induct)
  case (snoc x xs)
  then obtain m where m: "bt_accumulate MinerKey entitlement_step xs = Inr m" by auto
  let ?w = "case bt_lookup m (MinerKey x) of None \<Rightarrow> 0 | Some w \<Rightarrow> w"
  have "?w \<le> sum_list (map counted_difficulty xs)"
    by (simp add: window_weights_lookup[OF m] sum_list_filter_le)
  with snoc.prems have "\<exists>v. entitlement_step (bt_lookup m (MinerKey x)) x = Inr v"
    by (simp add: entitlement_step_def checked_add_def)
  with m show ?case by (auto simp: bt_accumulate_snoc)
qed simp

lemma aggregate_entitlements_ok:
  assumes "sum_list (map counted_difficulty xs) < 2 ^ 128"
  shows "\<exists>es. aggregate_entitlements xs = Inr es"
  using window_weights_ok[OF assms] by (auto simp: aggregate_entitlements_def)

lemma aggregate_entitlements_total:
  assumes "aggregate_entitlements xs = Inr es"
  shows "sum_list (map weight es) = sum_list (map counted_difficulty xs)"
proof -
  obtain m where m: "bt_accumulate MinerKey entitlement_step xs = Inr m" and es: "es = map miner_entitlement m"
    using assms by (auto simp: aggregate_entitlements_def res_simps)
  have "map weight es = map (\<lambda>(k, v). v) m" by (simp add: es miner_entitlement_def split_beta)
  then show ?thesis using window_weights.accumulate_total[OF m] by simp
qed

lemma aggregate_entitlements_each:
  assumes "aggregate_entitlements xs = Inr es"
  shows "e \<in> set es \<longleftrightarrow> (\<exists>x\<in>set xs. MinerKey x = (recipient_id e, order_key e, p2mr_program_hex e) \<and>
      weight e = sum_list (map counted_difficulty (filter (\<lambda>y. MinerKey y = MinerKey x) xs)))"
proof -
  obtain m where m: "bt_accumulate MinerKey entitlement_step xs = Inr m" and es: "es = map miner_entitlement m"
    using assms by (auto simp: aggregate_entitlements_def res_simps)
  let ?k = "(recipient_id e, order_key e, p2mr_program_hex e)"
  have "e \<in> set es \<longleftrightarrow> (?k, weight e) \<in> set m"
    by (force simp: es miner_entitlement_def)
  also have "\<dots> \<longleftrightarrow> bt_lookup m ?k = Some (weight e)"
    using bt_lookup_entry[OF bt_accumulate_ordered[OF m]] by simp
  also have "\<dots> \<longleftrightarrow> (\<exists>x\<in>set xs. MinerKey x = ?k \<and>
      weight e = sum_list (map counted_difficulty (filter (\<lambda>y. MinerKey y = MinerKey x) xs)))"
    by (auto simp: window_weights_lookup[OF m] image_iff)
  finally show ?thesis .
qed

section \<open>The chunked fold: lemmas\<close>

lemma merge_weights_run:
  assumes "distinct (map fst cw)" "bt_ordered ws"
    and "\<forall>(k, w)\<in>set cw. (case bt_lookup ws k of None \<Rightarrow> 0 | Some t \<Rightarrow> t) + w < 2 ^ 128"
  shows "\<exists>m. merge_weights ws cw = Inr m \<and> bt_ordered m \<and> (\<forall>k. bt_lookup m k =
    (case map_of cw k of None \<Rightarrow> bt_lookup ws k
     | Some w \<Rightarrow> Some ((case bt_lookup ws k of None \<Rightarrow> 0 | Some t \<Rightarrow> t) + w)))"
  using assms
proof (induction cw arbitrary: ws)
  case Nil
  then show ?case by (simp add: merge_weights_def)
next
  case (Cons kw cw)
  obtain k w where kw: "kw = (k, w)" by fastforce
  let ?t = "(case bt_lookup ws k of None \<Rightarrow> 0 | Some t \<Rightarrow> t) + w"
  let ?ws = "bt_insert k ?t ws"
  have t: "?t < 2 ^ 128" using Cons.prems(3) by (simp add: kw)
  have "\<forall>(k', w')\<in>set cw. (case bt_lookup ?ws k' of None \<Rightarrow> 0 | Some t \<Rightarrow> t) + w' < 2 ^ 128"
    using Cons.prems(1,3) by (force simp: kw)
  with Cons.IH[of ?ws] Cons.prems obtain m where m: "merge_weights ?ws cw = Inr m" "bt_ordered m"
    "\<forall>k'. bt_lookup m k' = (case map_of cw k' of None \<Rightarrow> bt_lookup ?ws k'
       | Some w \<Rightarrow> Some ((case bt_lookup ?ws k' of None \<Rightarrow> 0 | Some t \<Rightarrow> t) + w))" by auto
  have "merge_weights ws (kw # cw) = Inr m"
    using m(1) t by (simp add: merge_weights_def kw checked_add_def)
  moreover have "map_of cw k = None" using Cons.prems(1) by (simp add: kw map_of_eq_None_iff)
  then have "bt_lookup m k' = (case map_of (kw # cw) k' of None \<Rightarrow> bt_lookup ws k'
      | Some w \<Rightarrow> Some ((case bt_lookup ws k' of None \<Rightarrow> 0 | Some t \<Rightarrow> t) + w))" for k'
    using m(3)[rule_format, of k'] by (cases "k' = k"; cases "map_of cw k'") (simp_all add: kw)
  ultimately show ?case using m(2) by blast
qed

lemma merge_weights_accumulate:
  assumes a: "bt_accumulate MinerKey entitlement_step xs = Inr wx"
    and b: "bt_accumulate MinerKey entitlement_step ys = Inr wy"
    and ab: "bt_accumulate MinerKey entitlement_step (xs @ ys) = Inr w"
    and small: "sum_list (map counted_difficulty (xs @ ys)) < 2 ^ 128"
  shows "merge_weights wx wy = Inr w"
proof -
  let ?sum = "\<lambda>k zs. sum_list (map counted_difficulty (filter (\<lambda>z. MinerKey z = k) zs))"
  have val: "(case bt_lookup wx k of None \<Rightarrow> 0 | Some t \<Rightarrow> t) = ?sum k xs" for k
    by (auto simp: window_weights_lookup[OF a] filter_empty_conv intro!: arg_cong[of _ _ sum_list])
  have fit: "?sum k xs + ?sum k ys < 2 ^ 128" for k
    using small sum_list_filter_le[of counted_difficulty "\<lambda>z. MinerKey z = k" "xs @ ys"] by simp
  have ys: "v = ?sum k ys" if "(k, v) \<in> set wy" for k v
    using that bt_lookup_entry[OF bt_accumulate_ordered[OF b]] window_weights.accumulate_entry[OF b] by blast
  obtain m where m: "merge_weights wx wy = Inr m" "bt_ordered m"
    "\<And>k. bt_lookup m k = (case map_of wy k of None \<Rightarrow> bt_lookup wx k | Some w \<Rightarrow> Some (?sum k xs + w))"
    using merge_weights_run[of wy wx] bt_ordered_distinct[OF bt_accumulate_ordered[OF b]]
      bt_accumulate_ordered[OF a] fit ys unfolding val by fastforce
  have "bt_lookup m k = bt_lookup w k" for k
    unfolding m(3) bt_lookup_def[symmetric]
    by (auto simp: window_weights_lookup[OF a] window_weights_lookup[OF b] window_weights_lookup[OF ab]
        filter_empty_conv image_iff)
  then show ?thesis using m(1,2) bt_ext bt_accumulate_ordered[OF ab] by blast
qed

lemma fold_chunks:
  assumes "bt_accumulate MinerKey entitlement_step xs = Inr ws"
    and "sum_list (map counted_difficulty (xs @ map (\<lambda>(s, c). counted_share s c) (concat cs))) < 2 ^ 128"
  shows "\<exists>ws'. bt_accumulate MinerKey entitlement_step (xs @ map (\<lambda>(s, c). counted_share s c) (concat cs)) = Inr ws' \<and>
    rfold merge_chunk (xs, bytes, ws) cs =
      Inr (xs @ map (\<lambda>(s, c). counted_share s c) (concat cs),
           bytes @ concat (map update_slice_digest (map (\<lambda>(s, c). counted_share s c) (concat cs))), ws')"
  using assms
proof (induction cs arbitrary: xs bytes ws)
  case Nil
  then show ?case by simp
next
  case (Cons c cs)
  let ?y = "map (\<lambda>(s, c). counted_share s c) c"
  let ?ys = "concat (map update_slice_digest ?y)"
  have small: "sum_list (map counted_difficulty (xs @ ?y)) < 2 ^ 128" "sum_list (map counted_difficulty ?y) < 2 ^ 128"
    using Cons.prems(2) by simp_all
  obtain wy w where wy: "bt_accumulate MinerKey entitlement_step ?y = Inr wy"
    and w: "bt_accumulate MinerKey entitlement_step (xs @ ?y) = Inr w"
    using window_weights_ok small by blast
  have "merge_weights ws wy = Inr w" by (rule merge_weights_accumulate[OF Cons.prems(1) wy w small(1)])
  then have step: "merge_chunk (xs, bytes, ws) c = Inr (xs @ ?y, bytes @ ?ys, w)"
    by (simp add: merge_chunk_def fold_chunk_def wy Let_def)
  have "sum_list (map counted_difficulty ((xs @ ?y) @ map (\<lambda>(s, c). counted_share s c) (concat cs))) < 2 ^ 128"
    using Cons.prems(2) by simp
  from Cons.IH[OF w this, of "bytes @ ?ys"] step show ?case by simp
qed

lemma zip_take_length: "zip (take (length ys) xs) ys = zip xs ys"
proof (induction xs arbitrary: ys)
  case (Cons x xs)
  then show ?case by (cases ys) auto
qed simp

lemma compute_prism_window_parallel_serial:
  assumes "0 < len"
  shows "compute_prism_window_parallel X shares fb wcut len =
    rbind (compute_prism_window_in_cut shares fb wcut) (\<lambda>w. Inr (w, share_slice_digest_hex X (w_shares w)))"
proof (cases "eligible_window shares fb wcut")
  case (Inl e)
  then show ?thesis by (simp add: compute_prism_window_parallel_def compute_prism_window_in_cut_def)
next
  case (Inr er)
  obtain el r where er: "er = (el, r)" by fastforce
  let ?ts = "taken_difficulties r el" and ?cs = "count_shares r el"
  have ts: "map counted_difficulty ?cs = ?ts" by (rule counted_difficulties)
  have pairs: "map (\<lambda>(s, c). counted_share s c) (zip (take (length ?ts) el) ?ts) = ?cs"
    by (simp add: count_shares_zip zip_take_length)
  show ?thesis
  proof (cases "?ts = [] \<or> \<not> sum_list ?ts < 2 ^ 128")
    case True
    moreover have "?ts = [] \<longleftrightarrow> ?cs = []" using ts by (metis map_is_Nil_conv)
    ultimately show ?thesis using Inr
      by (cases "try_sum 128 WindowOverflow ?ts :: PrismError + nat")
        (auto simp: er compute_prism_window_parallel_def compute_prism_window_in_cut_def Let_def ts try_sum_Inr)
  next
    case False
    then have small: "sum_list (map counted_difficulty ?cs) < 2 ^ 128" and ne: "?cs \<noteq> []"
      using ts by auto
    let ?n = "min len (length (take (length ?ts) el))"
    have "0 < ?n" using assms False length_taken[of r el] by (cases el) auto
    then have cc: "map (\<lambda>(s, c). counted_share s c) (concat (chunks ?n (zip (take (length ?ts) el) ?ts))) = ?cs"
      using pairs concat_chunks by metis
    obtain w where w: "bt_accumulate MinerKey entitlement_step ?cs = Inr w"
      and run: "rfold merge_chunk ([], [], []) (chunks ?n (zip (take (length ?ts) el) ?ts)) =
        Inr (?cs, concat (map update_slice_digest ?cs), w)"
      using fold_chunks[of "[]" "[]" "chunks ?n (zip (take (length ?ts) el) ?ts)" "[]"] small
      unfolding cc by auto
    have "share_seq (take (length ?ts) el ! 0) = share_seq (?cs ! 0)"
      using ne pairs by (cases el; cases ?ts) (auto simp: count_shares_zip)
    moreover have "try_sum 128 WindowOverflow ?ts = Inr (sum_list ?ts)"
      using small ts by (simp add: try_sum_Inr)
    ultimately show ?thesis
      using Inr False ne run w
      by (simp add: er compute_prism_window_parallel_def compute_prism_window_in_cut_def Let_def ts
          aggregate_entitlements_def share_slice_digest_hex_def)
  qed
qed

section \<open>What a window is\<close>

abbreviation eligible_newest :: "FoundBlock \<Rightarrow> AcceptedShare list \<Rightarrow> AcceptedShare list" where
  "eligible_newest fb shares \<equiv> sort_key newest_key (filter (share_eligible fb) shares)"

lemma compute_prism_window_Inr:
  assumes "compute_prism_window_in_cut shares fb wcut = Inr w"
  shows "shares_valid wcut shares" "0 < fb_network_difficulty fb"
    "w_requested_window_weight w = 8 * fb_network_difficulty fb"
    "8 * fb_network_difficulty fb < 2 ^ 128"
    "w_shares w = count_shares (8 * fb_network_difficulty fb) (eligible_newest fb shares)"
    "w_shares w \<noteq> []"
    "w_counted_window_weight w = sum_list (map counted_difficulty (w_shares w))"
    "aggregate_entitlements (w_shares w) = Inr (w_entitlements w)"
    "w_anchor_share_seq w = share_seq (w_shares w ! 0)"
    "w_anchor_job_issued_at_ms w = fb_anchor_job_issued_at_ms fb"
  using assms unfolding compute_prism_window_in_cut_def
  by (auto simp: rbind_Inr eligible_window_Inr Let_def if_Inl_Inr try_sum_Inr)

lemma sum_list_sort_key: "sum_list (map f (sort_key k xs)) = (sum_list (map f xs) :: nat)"
  by (metis mset_map mset_sort sum_mset_sum_list)

lemma count_shares_total:
  "sum_list (map counted_difficulty (count_shares r (sort_key k ss))) =
     min r (sum_list (map share_difficulty ss))"
  by (simp add: counted_difficulties sum_taken sum_list_sort_key)

lemma sort_key_eq_Nil: "sort_key k xs = [] \<longleftrightarrow> xs = []"
  by (metis length_0_conv length_sort)

lemma count_shares_eq_Nil: "count_shares r ss = [] \<longleftrightarrow> r = 0 \<or> ss = []"
  by (cases ss) (simp_all add: Let_def)

section \<open>Properties\<close>

definition demo_share :: "nat \<Rightarrow> string \<Rightarrow> nat \<Rightarrow> int \<Rightarrow> AcceptedShare" where
  "demo_share n miner diff at =
     \<lparr> share_seq = n, share_id = ''share-'' @ show_nat n, miner_id = miner, s_order_key = miner,
       s_p2mr_program_hex = concat (replicate 32 ''a1''), share_difficulty = diff,
       job_issued_at_ms = at, accepted_at_ms = at, credit_policy = None,
       s_network_difficulty = 2, template_height = 7, job_id = ''job'', ntime = 0 \<rparr>"

definition demo_shares :: "AcceptedShare list" where
  "demo_shares = [demo_share 1 ''ann'' 9 10, demo_share 2 ''bob'' 8 20, demo_share 3 ''ann'' 5 30]"

definition demo_block :: FoundBlock where
  "demo_block = \<lparr> fb_block_height = 500, fb_coinbase_value_sats = 100, fb_network_difficulty = 2,
     fb_anchor_job_issued_at_ms = 40 \<rparr>"

lemma demo_window_ok: "is_ok (compute_prism_window_in_cut demo_shares demo_block None)"
  by code_simp

text \<open>C2. The window counts exactly what it asks for or all there is: the counted weight is eight
  times the network difficulty, or the sum of all eligible difficulties if that is less, and it
  is the sum of the counted shares and of the entitlements. An entitlement exists for each
  miner with a counted share, and its weight is what that miner's counted shares add up to.\<close>

theorem prism_window_weight:
  assumes "compute_prism_window_in_cut shares fb wcut = Inr w"
  shows "w_counted_window_weight w =
      min (8 * fb_network_difficulty fb) (sum_list (map share_difficulty (filter (share_eligible fb) shares))) \<and>
    sum_list (map counted_difficulty (w_shares w)) = w_counted_window_weight w \<and>
    sum_list (map weight (w_entitlements w)) = w_counted_window_weight w \<and>
    (\<forall>e. e \<in> set (w_entitlements w) \<longleftrightarrow> (\<exists>x\<in>set (w_shares w).
       MinerKey x = (recipient_id e, order_key e, p2mr_program_hex e) \<and>
       weight e = sum_list (map counted_difficulty (filter (\<lambda>y. MinerKey y = MinerKey x) (w_shares w)))))"
  using compute_prism_window_Inr[OF assms] count_shares_total aggregate_entitlements_total
    aggregate_entitlements_each by (simp add: count_shares_total)

theorem prism_window_weight_witness:
  "\<exists>w. compute_prism_window_in_cut demo_shares demo_block None = Inr w \<and> w_counted_window_weight w = 16"
proof -
  obtain w where w: "compute_prism_window_in_cut demo_shares demo_block None = Inr w"
    using demo_window_ok by (auto simp: is_ok_iff)
  moreover have "min (8 * fb_network_difficulty demo_block)
      (sum_list (map share_difficulty (filter (share_eligible demo_block) demo_shares))) = 16"
    by code_simp
  ultimately show ?thesis using prism_window_weight[OF w] by auto
qed

text \<open>C33. The window is a run of the newest eligible shares: its shares are the first ones of the
  eligible shares ordered by descending sequence, each is counted with a positive part of its
  difficulty, and only the oldest one may be counted in part.\<close>

theorem prism_window_newest:
  assumes "compute_prism_window_in_cut shares fb wcut = Inr w"
  shows "\<exists>n counted. length counted = n \<and> n \<le> length (filter (share_eligible fb) shares) \<and>
    w_shares w = map (\<lambda>(s, c). counted_share s c) (zip (take n (eligible_newest fb shares)) counted) \<and>
    (\<forall>c\<in>set (w_shares w). 0 < counted_difficulty c \<and> counted_difficulty c \<le> share_difficulty c) \<and>
    (\<forall>i. i + 1 < length (w_shares w) \<longrightarrow>
       counted_difficulty (w_shares w ! i) = share_difficulty (w_shares w ! i))"
proof -
  let ?el = "eligible_newest fb shares" and ?r = "8 * fb_network_difficulty fb"
  note w = compute_prism_window_Inr[OF assms]
  have "\<forall>s\<in>set ?el. 0 < share_difficulty s" using w(1) by (auto simp: shares_valid_def)
  then show ?thesis
    using length_taken[of ?r ?el] count_shares_positive[of ?el _ ?r] count_shares_full[of _ ?r ?el]
    by (intro exI[of _ "length (taken_difficulties ?r ?el)"] exI[of _ "taken_difficulties ?r ?el"])
      (auto simp: w(5) count_shares_zip zip_take_length)
qed

theorem prism_window_newest_witness:
  "\<exists>w n counted. compute_prism_window_in_cut demo_shares demo_block None = Inr w \<and>
     w_shares w = map (\<lambda>(s, c). counted_share s c) (zip (take n (eligible_newest demo_block demo_shares)) counted)"
proof -
  obtain w where w: "compute_prism_window_in_cut demo_shares demo_block None = Inr w"
    using demo_window_ok by (auto simp: is_ok_iff)
  then show ?thesis using prism_window_newest[OF w] by blast
qed

text \<open>C34. When a window exists: the fold succeeds exactly if the network difficulty is positive and
  eight times it fits 128 bits, every share is valid (positive difficulty, inside the cut,
  identifiers distinct), and some share is eligible. The other overflow errors never occur.\<close>

theorem prism_window_exists:
  "is_ok (compute_prism_window_in_cut shares fb wcut) \<longleftrightarrow>
     0 < fb_network_difficulty fb \<and> 8 * fb_network_difficulty fb < 2 ^ 128 \<and>
     shares_valid wcut shares \<and> filter (share_eligible fb) shares \<noteq> []"
    (is "_ \<longleftrightarrow> ?R")
proof
  assume "is_ok (compute_prism_window_in_cut shares fb wcut)"
  then obtain w where w: "compute_prism_window_in_cut shares fb wcut = Inr w" by (auto simp: is_ok_iff)
  show ?R
    using compute_prism_window_Inr[OF w] by (simp add: count_shares_eq_Nil sort_key_eq_Nil)
next
  assume R: ?R
  let ?cs = "count_shares (8 * fb_network_difficulty fb) (eligible_newest fb shares)"
  have el: "eligible_window shares fb wcut = Inr (eligible_newest fb shares, 8 * fb_network_difficulty fb)"
    using R by (simp add: eligible_window_Inr)
  have small: "sum_list (map counted_difficulty ?cs) < 2 ^ 128"
    using R by (simp add: count_shares_total min_less_iff_disj)
  then obtain es where "aggregate_entitlements ?cs = Inr es" using aggregate_entitlements_ok by blast
  moreover have "?cs \<noteq> []" using R by (simp add: count_shares_eq_Nil sort_key_eq_Nil)
  ultimately show "is_ok (compute_prism_window_in_cut shares fb wcut)"
    using small by (simp add: compute_prism_window_in_cut_def el Let_def try_sum_Inr[THEN iffD2] is_ok_iff)
qed

text \<open>The window depends on the eligible shares only: two valid lists with the same eligible
  shares, whose sequence numbers differ, give the same window. The order of the input does not
  matter, and shares that arrive after the anchor change nothing.\<close>

lemma prism_window_determined:
  assumes "shares_valid wcut shares" and "shares_valid wcut shares'"
    and "mset (filter (share_eligible fb) shares) = mset (filter (share_eligible fb) shares')"
    and "inj_on share_seq (set (filter (share_eligible fb) shares))"
  shows "compute_prism_window_in_cut shares fb wcut = compute_prism_window_in_cut shares' fb wcut"
proof -
  have "eligible_newest fb shares = eligible_newest fb shares'"
    by (rule sort_key_inj_key_eq) (use assms(3,4) in \<open>simp_all add: inj_on_def\<close>)
  then have "eligible_window shares fb wcut = eligible_window shares' fb wcut"
    by (simp add: eligible_window_valid assms(1,2))
  then show ?thesis by (simp add: compute_prism_window_in_cut_def)
qed

text \<open>C35. The builder's chunked fold and the serial fold agree: for every number of workers and every
  positive chunk length the manifest is the same, and so are the errors.\<close>

theorem parallel_manifest_agrees:
  assumes "0 < chunk_len parallelism"
  shows "build_prism_reward_manifest_parallel X shares fb wcut parallelism =
    build_prism_reward_manifest_with_cut X shares fb wcut"
  using compute_prism_window_parallel_serial[OF assms, of X shares fb wcut]
  by (cases "compute_prism_window_in_cut shares fb wcut")
    (simp_all add: build_prism_reward_manifest_parallel_def build_prism_reward_manifest_with_cut_def)

theorem parallel_manifest_agrees_witness:
  "build_prism_reward_manifest_parallel demo_crypto demo_shares demo_block None (parallelism_new 4 2) =
   build_prism_reward_manifest_with_cut demo_crypto demo_shares demo_block None"
  by (rule parallel_manifest_agrees) (simp add: parallelism_new_def)

text \<open>A stored header restores to its manifest and to nothing else: restoring succeeds with a
  manifest exactly when building from these shares under the header's cut gives that manifest
  and its header is the stored one.\<close>

lemma restore_reward_manifest_iff:
  "restore_reward_manifest X header shares fb = Inr m \<longleftrightarrow>
     build_prism_reward_manifest_with_cut X shares fb (rm_cut header) = Inr m \<and> fst (into_parts m) = header"
proof -
  have "into_manifest (fst (into_parts m)) (snd (into_parts m)) = m" for m
    by (cases m) (simp add: into_manifest_def into_parts_def PrismRewardManifestHeader.defs PrismRewardManifest.defs)
  then show ?thesis
    by (auto simp: restore_reward_manifest_def rbind_Inr split_beta Let_def if_Inl_Inr)
qed

end
