(* ===== verification/Payout_Policy.thy ===== *)
theory Payout_Policy
  imports Reward_Window
begin

text \<open>
  The payout policy (\<^verbatim>\<open>apply_payout_policy\<close> and its helpers in
  \<^verbatim>\<open>src/crates/qbit-prism/src/lib.rs\<close>): the reward of a block is split over the miners' payout
  programs, prior balances are added, accounts at or above the output floor are paid on chain
  and the others carry their balance forward; a configured pool fee takes its share and
  the dust that cannot be paid. The one long function of the source is cut at its
  blank lines into \<open>policy_accounts\<close>, \<open>policy_onchain\<close>, \<open>record_payment\<close> and the final checks, which
  \<open>apply_payout_policy\<close> composes in the source's order.
\<close>

section \<open>Data\<close>

definition DEFAULT_P2MR_SPEND_INPUT_BYTES :: u64 where "DEFAULT_P2MR_SPEND_INPUT_BYTES = 3680"
definition DEFAULT_MIN_OUTPUT_FEERATE_SATS_PER_BYTE :: u64 where
  "DEFAULT_MIN_OUTPUT_FEERATE_SATS_PER_BYTE = 1"
definition DEFAULT_MIN_OUTPUT_SAFETY_MULTIPLIER :: u64 where
  "DEFAULT_MIN_OUTPUT_SAFETY_MULTIPLIER = 4"

datatype CoinbaseOutputPolicy = Canonical | PoolFeeFirst

datatype PayoutPolicyAccountType = Miner | PoolFee

datatype PayoutPolicyAction = Onchain | Accrued

record PoolFeePolicy = payee +
  fee_bps :: u16

record PoolFeeManifest = PoolFeePolicy +
  earned_pool_fee_sats :: u64
  swept_dust_liability_sats :: u64
  pf_amount_sats :: u64

record CarryForwardBalance = payee +
  balance_sats :: i128

record PayoutPolicy =
  p2mr_spend_input_bytes :: u64
  target_feerate_sats_per_byte :: u64
  safety_multiplier :: u64
  configured_min_output_sats :: "u64 option"
  pool_fee_policy :: "PoolFeePolicy option"
  coinbase_output_policy :: CoinbaseOutputPolicy

record PolicyAccountSeed = payee +
  gross_amount_sats :: u64
  prior_balance_sats :: i128

record PayoutPolicyAccount = PolicyAccountSeed +
  account_type :: PayoutPolicyAccountType
  candidate_balance_sats :: i128
  onchain_amount_sats :: u64
  settlement_fee_sats :: u64
  carry_forward_balance_sats :: i128
  action :: PayoutPolicyAction

record PayoutPolicyManifest =
  pp_schema :: string
  pp_block_height :: u64
  pp_coinbase_value_sats :: u64
  pp_min_output_sats :: u64
  pp_floor_formula :: string
  pp_coinbase_output_policy :: CoinbaseOutputPolicy
  pool_fee :: "PoolFeeManifest option"
  accounts :: "PayoutPolicyAccount list"
  onchain_entitlements :: "WeightedEntitlement list"

section \<open>Floor and fee\<close>

definition day_one_default :: PayoutPolicy where
  "day_one_default =
     \<lparr> p2mr_spend_input_bytes = DEFAULT_P2MR_SPEND_INPUT_BYTES,
       target_feerate_sats_per_byte = DEFAULT_MIN_OUTPUT_FEERATE_SATS_PER_BYTE,
       safety_multiplier = DEFAULT_MIN_OUTPUT_SAFETY_MULTIPLIER,
       configured_min_output_sats = None, pool_fee_policy = None,
       coinbase_output_policy = Canonical \<rparr>"

definition min_output_sats :: "PayoutPolicy \<Rightarrow> PrismError + u64" where
  "min_output_sats policy =
     (case configured_min_output_sats policy of
        Some floor \<Rightarrow> if floor = 0 then Inl InvalidMinOutputFloor else Inr floor
      | None \<Rightarrow>
          ok_or (Option.bind
                   (checked_mul 64 (p2mr_spend_input_bytes policy) (target_feerate_sats_per_byte policy))
                   (\<lambda>value. checked_mul 64 value (safety_multiplier policy)))
            PayoutPolicyOverflow)"

definition floor_formula :: "PayoutPolicy \<Rightarrow> string" where
  "floor_formula policy =
     (case configured_min_output_sats policy of
        Some floor \<Rightarrow> ''configured fixed floor: '' @ show_nat floor @ '' sats''
      | None \<Rightarrow> show_nat (p2mr_spend_input_bytes policy) @ '' bytes/input * '' @
          show_nat (target_feerate_sats_per_byte policy) @ '' sat/byte * '' @
          show_nat (safety_multiplier policy) @ ''x safety'')"

definition pool_fee_manifest :: "u64 \<Rightarrow> PayoutPolicy \<Rightarrow> PrismError + PoolFeeManifest option" where
  "pool_fee_manifest value policy =
     (case pool_fee_policy policy of
        None \<Rightarrow> Inr None
      | Some fp \<Rightarrow>
          if fee_bps fp > 10000 then Inl (PoolFeeBpsTooHigh (fee_bps fp))
          else
            rbind (ok_or (checked_mul 128 value (fee_bps fp)) PayoutPolicyOverflow) (\<lambda>product.
            rbind (ok_or (try_from 64 (product div 10000)) PayoutPolicyOverflow) (\<lambda>fee_sats.
            Inr (Some
              \<lparr> recipient_id = recipient_id fp, order_key = order_key fp,
                p2mr_program_hex = p2mr_program_hex fp, fee_bps = fee_bps fp,
                earned_pool_fee_sats = fee_sats, swept_dust_liability_sats = 0,
                pf_amount_sats = fee_sats \<rparr>))))"

definition add_swept_dust_to_pool_fee ::
  "PoolFeeManifest option \<Rightarrow> u64 \<Rightarrow> PrismError + PoolFeeManifest option" where
  "add_swept_dust_to_pool_fee fee swept =
     (if swept = 0 then Inr fee
      else
        rbind (ok_or fee PayoutPolicyOverflow) (\<lambda>f.
        rbind (ok_or (checked_add 64 (swept_dust_liability_sats f) swept) PayoutPolicyOverflow) (\<lambda>liability.
        rbind (ok_or (checked_add 64 (earned_pool_fee_sats f) liability) PayoutPolicyOverflow) (\<lambda>amount.
        Inr (Some (f \<lparr> swept_dust_liability_sats := liability, pf_amount_sats := amount \<rparr>))))))"

section \<open>Aggregation by payout program\<close>

definition payout_program_key :: "string \<Rightarrow> string" where
  "payout_program_key program = to_ascii_lowercase program"

definition account_key :: "string \<Rightarrow> string \<Rightarrow> string \<Rightarrow> string" where
  "account_key recipient key program = recipient @ [CHR 0x00] @ key @ [CHR 0x00] @ program"

text \<open>The entry keeps the least \<^verbatim>\<open>(order_key, recipient_id)\<close> of those that share the program.\<close>

definition name_order :: "('x) payee_scheme \<Rightarrow> string \<times> string" where
  "name_order p = (order_key p, recipient_id p)"

definition program_weight_step ::
  "WeightedEntitlement option \<Rightarrow> WeightedEntitlement \<Rightarrow> PrismError + WeightedEntitlement" where
  "program_weight_step existing e =
     (let entry = (case existing of Some v \<Rightarrow> v | None \<Rightarrow> e \<lparr> weight := 0 \<rparr>);
          entry = (if name_order e < name_order entry
                   then entry \<lparr> recipient_id := recipient_id e, order_key := order_key e \<rparr> else entry) in
      rbind (ok_or (checked_add 128 (weight entry) (weight e)) PayoutPolicyOverflow) (\<lambda>w.
        Inr (entry \<lparr> weight := w \<rparr>)))"

definition aggregate_entitlements_by_payout_program ::
  "WeightedEntitlement list \<Rightarrow> PrismError + WeightedEntitlement list" where
  "aggregate_entitlements_by_payout_program es =
     rbind (bt_accumulate (\<lambda>e. payout_program_key (p2mr_program_hex e)) program_weight_step es)
       (\<lambda>m. Inr (bt_values m))"

definition program_balance_step ::
  "CarryForwardBalance option \<Rightarrow> CarryForwardBalance \<Rightarrow> PrismError + CarryForwardBalance" where
  "program_balance_step existing b =
     (let entry = (case existing of Some v \<Rightarrow> v | None \<Rightarrow> b \<lparr> balance_sats := 0 \<rparr>);
          entry = (if name_order b < name_order entry
                   then entry \<lparr> recipient_id := recipient_id b, order_key := order_key b \<rparr> else entry) in
      rbind (ok_or (checked_add_signed 128 (balance_sats entry) (balance_sats b)) PayoutPolicyOverflow) (\<lambda>s.
        Inr (entry \<lparr> balance_sats := s \<rparr>)))"

definition carry_forward_by_payout_program ::
  "CarryForwardBalance list \<Rightarrow> PrismError + (string, CarryForwardBalance) btree" where
  "carry_forward_by_payout_program balances =
     bt_accumulate (\<lambda>b. payout_program_key (p2mr_program_hex b)) program_balance_step balances"

section \<open>Weighted allocation\<close>

definition provisional_amount ::
  "u64 \<Rightarrow> u128 \<Rightarrow> WeightedEntitlement \<Rightarrow> PrismError + WeightedEntitlement \<times> u64 \<times> u128" where
  "provisional_amount total_sats total_weight e =
     rbind (ok_or (checked_mul 128 total_sats (weight e)) PayoutPolicyOverflow) (\<lambda>product.
     rbind (ok_or (try_from 64 (product div total_weight)) PayoutPolicyOverflow) (\<lambda>amount.
       Inr (e, amount, product mod total_weight)))"

definition amount_remainder_key ::
  "WeightedEntitlement \<times> u64 \<times> u128 \<Rightarrow> int \<times> payee_key" where
  "amount_remainder_key = (\<lambda>(e, amount, rem). (- int rem, payee_order e))"

definition allocate_weighted_amounts ::
  "u64 \<Rightarrow> WeightedEntitlement list \<Rightarrow> PrismError + (WeightedEntitlement \<times> u64) list" where
  "allocate_weighted_amounts total_sats es =
     (let ordered = sort_key payee_order es in
      rbind (try_sum 128 PayoutPolicyOverflow (map weight ordered)) (\<lambda>total_weight.
      if total_weight = 0 then Inl PayoutPolicyOverflow
      else
        rbind (rmap (provisional_amount total_sats total_weight) ordered) (\<lambda>provisional.
        rbind (try_sum 64 PayoutPolicyOverflow (map (\<lambda>p. fst (snd p)) provisional)) (\<lambda>allocated.
        rbind (ok_or (checked_sub total_sats allocated) PayoutPolicyOverflow) (\<lambda>remainder_sats.
        rbind (bump_at PayoutPolicyOverflow (\<lambda>p. fst (snd p)) (\<lambda>a p. (fst p, a, snd (snd p)))
                 (take remainder_sats
                   (sort_key (\<lambda>i. amount_remainder_key (provisional ! i)) [0..<length provisional]))
                 provisional) (\<lambda>bumped.
        Inr (map (\<lambda>p. (fst p, fst (snd p))) bumped)))))))"

section \<open>Selection\<close>

text \<open>\<^verbatim>\<open>as u128\<close> on a signed value keeps the 128 bits.\<close>

definition as_u128 :: "i128 \<Rightarrow> u128" where
  "as_u128 i = nat (i mod 2 ^ 128)"

definition eligible_onchain_accounts :: "PayoutPolicyAccount list \<Rightarrow> u64 \<Rightarrow> usize list" where
  "eligible_onchain_accounts accs floor =
     filter (\<lambda>i. candidate_balance_sats (accs ! i) \<ge> int floor) [0..<length accs]"

definition selected_candidate_balance_sum ::
  "PayoutPolicyAccount list \<Rightarrow> usize list \<Rightarrow> PrismError + u128" where
  "selected_candidate_balance_sum accs selected =
     rfold (\<lambda>sum i.
       rbind (ok_or (try_from_signed 128 (candidate_balance_sats (accs ! i))) PayoutPolicyOverflow) (\<lambda>balance.
         ok_or (checked_add 128 sum balance) PayoutPolicyOverflow)) 0 selected"

definition policy_weight :: "PayoutPolicyAccount \<Rightarrow> WeightedEntitlement" where
  "policy_weight acc =
     \<lparr> recipient_id = recipient_id acc, order_key = order_key acc,
       p2mr_program_hex = p2mr_program_hex acc, weight = as_u128 (candidate_balance_sats acc) \<rparr>"

definition under_floor_keys :: "u64 \<Rightarrow> (WeightedEntitlement \<times> u64) list \<Rightarrow> string list" where
  "under_floor_keys floor allocations =
     map (\<lambda>(e, amount). account_key (recipient_id e) (order_key e) (p2mr_program_hex e))
       (filter (\<lambda>(e, amount). amount < floor) allocations)"

definition keep_accounts :: "PayoutPolicyAccount list \<Rightarrow> string list \<Rightarrow> usize list \<Rightarrow> usize list" where
  "keep_accounts accs keys selected =
     filter (\<lambda>i. account_key (recipient_id (accs ! i)) (order_key (accs ! i))
                   (p2mr_program_hex (accs ! i)) \<notin> set keys) selected"

lemma bump_at_map:
  assumes "bump_at e get put is ps = Inr ps'" and "\<And>a p. f (put a p) = f p"
  shows "map f ps' = map f ps"
  using assms(1)
proof (induction "is" arbitrary: ps)
  case (Cons i "is")
  then have "map f ps' = map f (ps[i := put (get (ps ! i) + 1) (ps ! i)])"
    by (auto simp: bump_at_Cons res_simps checked_simps)
  also have "\<dots> = map f ps"
  proof (cases "i < length ps")
    case True
    then have "(map f ps)[i := f (ps ! i)] = map f ps" by (metis list_update_id nth_map)
    then show ?thesis by (simp add: map_update assms(2))
  qed (simp add: list_update_beyond)
  finally show ?case .
qed simp

lemma provisional_amount_fst: "provisional_amount T W e = Inr p \<Longrightarrow> fst p = e"
  by (auto simp: provisional_amount_def res_simps)

lemma allocate_weighted_amounts_fst:
  assumes "allocate_weighted_amounts T es = Inr xs"
  shows "map fst xs = sort_key payee_order es"
proof -
  let ?o = "sort_key payee_order es"
  from assms obtain W ps idx ps' where ps: "rmap (provisional_amount T W) ?o = Inr ps"
    and b: "bump_at PayoutPolicyOverflow (\<lambda>p. fst (snd p)) (\<lambda>a p. (fst p, a, snd (snd p))) idx ps = Inr ps'"
    and xs: "xs = map (\<lambda>p. (fst p, fst (snd p))) ps'"
    unfolding allocate_weighted_amounts_def Let_def rbind_Inr if_Inl_Inr
    by blast
  have "map fst xs = map fst ps'" by (simp add: xs comp_def)
  also have "\<dots> = map fst ps" by (rule bump_at_map[OF b]) simp
  also have "\<dots> = ?o"
    using rmap_map[OF ps, of fst "\<lambda>e. e"] provisional_amount_fst by simp
  finally show ?thesis .
qed

text \<open>Every round of the selection drops at least one account, so the loop ends.\<close>

lemma keep_accounts_less:
  assumes "allocate_weighted_amounts T (map (\<lambda>i. policy_weight (accs ! i)) selected) = Inr xs"
    and "under_floor_keys floor xs \<noteq> []"
  shows "length (keep_accounts accs (under_floor_keys floor xs) selected) < length selected"
proof -
  obtain e a where ea: "(e, a) \<in> set xs" "a < floor"
    using assms(2) by (auto simp: under_floor_keys_def filter_empty_conv)
  have "e \<in> fst ` set xs" using ea(1) by force
  then have "e \<in> set (sort_key payee_order (map (\<lambda>i. policy_weight (accs ! i)) selected))"
    using allocate_weighted_amounts_fst[OF assms(1)] by (metis list.set_map)
  then obtain i where i: "i \<in> set selected" "e = policy_weight (accs ! i)" by auto
  have "account_key (recipient_id e) (order_key e) (p2mr_program_hex e) \<in> set (under_floor_keys floor xs)"
    using ea by (force simp: under_floor_keys_def)
  with i show ?thesis
    unfolding keep_accounts_def by (intro length_filter_less[of i]) (auto simp: policy_weight_def)
qed

function select_loop ::
  "PayoutPolicyAccount list \<Rightarrow> u64 \<Rightarrow> u64 \<Rightarrow> usize list \<Rightarrow> PrismError + usize list" where
  "select_loop accs value floor selected =
     (if selected = [] then Inl NoOnchainRecipients
      else
        rbind (selected_candidate_balance_sum accs selected) (\<lambda>balance.
        if balance < value then Inl (PayoutExceedsCandidateBalance value balance)
        else
          rbind (allocate_weighted_amounts value (map (\<lambda>i. policy_weight (accs ! i)) selected)) (\<lambda>allocations.
          if under_floor_keys floor allocations = [] then Inr selected
          else select_loop accs value floor (keep_accounts accs (under_floor_keys floor allocations) selected))))"
  by pat_completeness auto
termination
  by (relation "measure (\<lambda>(accs, value, floor, selected). length selected)") (auto simp: keep_accounts_less)

declare select_loop.simps [simp del]

definition select_onchain_accounts ::
  "PayoutPolicyAccount list \<Rightarrow> u64 \<Rightarrow> u64 \<Rightarrow> PrismError + usize list" where
  "select_onchain_accounts accs value floor =
     select_loop accs value floor (eligible_onchain_accounts accs floor)"

section \<open>The policy\<close>

definition gross_seed ::
  "(string, CarryForwardBalance) btree \<Rightarrow> WeightedEntitlement \<times> u64 \<Rightarrow> PolicyAccountSeed" where
  "gross_seed prior = (\<lambda>(e, gross).
     \<lparr> recipient_id = recipient_id e, order_key = order_key e, p2mr_program_hex = p2mr_program_hex e,
       gross_amount_sats = gross,
       prior_balance_sats = (case bt_lookup prior (payout_program_key (p2mr_program_hex e)) of
          Some b \<Rightarrow> balance_sats b | None \<Rightarrow> 0) \<rparr>)"

definition balance_seed :: "CarryForwardBalance \<Rightarrow> PolicyAccountSeed" where
  "balance_seed b =
     \<lparr> recipient_id = recipient_id b, order_key = order_key b, p2mr_program_hex = p2mr_program_hex b,
       gross_amount_sats = 0, prior_balance_sats = balance_sats b \<rparr>"

text \<open>The seeds of the miners, then those of prior balances whose program has no gross amount.\<close>

definition account_seeds ::
  "(WeightedEntitlement \<times> u64) list \<Rightarrow> (string, CarryForwardBalance) btree \<Rightarrow>
     string set \<times> PolicyAccountSeed list" where
  "account_seeds gross_amounts prior =
     fold (\<lambda>b (seen, seeds).
         let key = payout_program_key (p2mr_program_hex b) in
         if key \<in> seen then (seen, seeds)
         else (insert key seen, seeds @ [balance_seed b]))
       (bt_values prior)
       ((\<lambda>(e, g). payout_program_key (p2mr_program_hex e)) ` set gross_amounts,
        map (gross_seed prior) gross_amounts)"

definition seed_account :: "PolicyAccountSeed \<Rightarrow> PrismError + PayoutPolicyAccount" where
  "seed_account seed =
     rbind (ok_or (checked_add_signed 128 (prior_balance_sats seed) (int (gross_amount_sats seed)))
              PayoutPolicyOverflow) (\<lambda>candidate.
       Inr \<lparr> recipient_id = recipient_id seed, order_key = order_key seed,
             p2mr_program_hex = p2mr_program_hex seed, gross_amount_sats = gross_amount_sats seed,
             prior_balance_sats = prior_balance_sats seed, account_type = Miner,
             candidate_balance_sats = candidate, onchain_amount_sats = 0, settlement_fee_sats = 0,
             carry_forward_balance_sats = candidate, action = Accrued \<rparr>)"

definition policy_accounts ::
  "u64 \<Rightarrow> WeightedEntitlement list \<Rightarrow> CarryForwardBalance list \<Rightarrow>
     PrismError + string set \<times> PayoutPolicyAccount list" where
  "policy_accounts miner_reward es prior_balances =
     rbind (aggregate_entitlements_by_payout_program es) (\<lambda>settlement_entitlements.
     rbind (allocate_weighted_amounts miner_reward settlement_entitlements) (\<lambda>gross_amounts.
     rbind (carry_forward_by_payout_program prior_balances) (\<lambda>prior.
     let (seen, seeds) = account_seeds gross_amounts prior in
     rbind (rmap seed_account seeds) (\<lambda>accs. Inr (seen, accs)))))"

definition full_payment ::
  "PayoutPolicyAccount \<Rightarrow> PrismError + WeightedEntitlement \<times> u64" where
  "full_payment acc =
     rbind (ok_or (try_from_signed 64 (candidate_balance_sats acc)) PayoutPolicyOverflow) (\<lambda>amount.
       Inr (\<lparr> recipient_id = recipient_id acc, order_key = order_key acc,
              p2mr_program_hex = p2mr_program_hex acc, weight = amount \<rparr>, amount))"

definition policy_onchain ::
  "PoolFeeManifest option \<Rightarrow> u64 \<Rightarrow> u64 \<Rightarrow> PayoutPolicyAccount list \<Rightarrow>
     PrismError + PoolFeeManifest option \<times> (WeightedEntitlement \<times> u64) list" where
  "policy_onchain fee miner_reward floor accs =
     (let eligible = eligible_onchain_accounts accs floor in
      if eligible = [] then
        (if fee = None then Inl NoOnchainRecipients
         else rbind (add_swept_dust_to_pool_fee fee miner_reward) (\<lambda>fee'. Inr (fee', [])))
      else
        rbind (selected_candidate_balance_sum accs eligible) (\<lambda>candidate_sum.
        if candidate_sum < miner_reward then
          (if fee = None then Inl (PayoutExceedsCandidateBalance miner_reward candidate_sum)
           else
             rbind (ok_or (try_from 64 candidate_sum) PayoutPolicyOverflow) (\<lambda>sum64.
             rbind (ok_or (checked_sub miner_reward sum64) PayoutPolicyOverflow) (\<lambda>swept.
             rbind (add_swept_dust_to_pool_fee fee swept) (\<lambda>fee'.
             rbind (rmap (\<lambda>i. full_payment (accs ! i)) eligible) (\<lambda>amounts. Inr (fee', amounts))))))
        else
          rbind (select_onchain_accounts accs miner_reward floor) (\<lambda>emitted.
          rbind (allocate_weighted_amounts miner_reward (map (\<lambda>i. policy_weight (accs ! i)) emitted))
            (\<lambda>amounts. Inr (fee, amounts)))))"

definition same_payee :: "('x) payee_scheme \<Rightarrow> ('y) payee_scheme \<Rightarrow> bool" where
  "same_payee p q \<longleftrightarrow> recipient_id p = recipient_id q \<and> order_key p = order_key q \<and>
     p2mr_program_hex p = p2mr_program_hex q"

definition record_payment ::
  "u64 \<Rightarrow> u64 \<Rightarrow> PayoutPolicyAccount list \<Rightarrow> WeightedEntitlement \<times> u64 \<Rightarrow> PrismError + PayoutPolicyAccount list" where
  "record_payment value floor accs = (\<lambda>(e, amount).
     if amount < floor then Inl (PayoutBelowFloor (recipient_id e) amount floor)
     else
       (case filter (\<lambda>i. same_payee (accs ! i) e) [0..<length accs] of
          [] \<Rightarrow> Inl (Panicked ''selected on-chain account must exist'')
        | i # _ \<Rightarrow>
            if int amount > candidate_balance_sats (accs ! i) then
              rbind (ok_or (try_from_signed 128 (candidate_balance_sats (accs ! i))) PayoutPolicyOverflow)
                (\<lambda>balance. Inl (PayoutExceedsCandidateBalance value balance))
            else
              rbind (ok_or (checked_sub_signed 128 (candidate_balance_sats (accs ! i)) (int amount))
                       PayoutPolicyOverflow) (\<lambda>carry.
                Inr (accs[i := (accs ! i) \<lparr> onchain_amount_sats := amount,
                       carry_forward_balance_sats := carry, action := Onchain \<rparr>]))))"

definition pool_fee_account :: "PoolFeeManifest \<Rightarrow> PayoutPolicyAccount" where
  "pool_fee_account f =
     \<lparr> recipient_id = recipient_id f, order_key = order_key f, p2mr_program_hex = p2mr_program_hex f,
       gross_amount_sats = pf_amount_sats f, prior_balance_sats = 0, account_type = PoolFee,
       candidate_balance_sats = int (pf_amount_sats f), onchain_amount_sats = pf_amount_sats f,
       settlement_fee_sats = 0, carry_forward_balance_sats = 0, action = Onchain \<rparr>"

definition add_pool_fee_account ::
  "PoolFeeManifest option \<Rightarrow> string set \<Rightarrow> PayoutPolicyAccount list \<Rightarrow> PrismError + PayoutPolicyAccount list" where
  "add_pool_fee_account fee seen accs =
     (case fee of
        None \<Rightarrow> Inr accs
      | Some f \<Rightarrow>
          if payout_program_key (p2mr_program_hex f) \<in> seen then Inl DuplicatePoolFeeAccount
          else Inr (accs @ [pool_fee_account f]))"

definition onchain_weights :: "PayoutPolicyAccount list \<Rightarrow> WeightedEntitlement list" where
  "onchain_weights accs =
     map (\<lambda>acc. \<lparr> recipient_id = recipient_id acc, order_key = order_key acc,
                  p2mr_program_hex = p2mr_program_hex acc, weight = onchain_amount_sats acc \<rparr>)
       (filter (\<lambda>acc. onchain_amount_sats acc > 0) accs)"

definition sum_weights_u64 :: "WeightedEntitlement list \<Rightarrow> PrismError + u64" where
  "sum_weights_u64 es =
     rfold (\<lambda>sum e. rbind (ok_or (try_from 64 (weight e)) PayoutPolicyOverflow) (\<lambda>w.
       ok_or (checked_add 64 sum w) PayoutPolicyOverflow)) 0 es"

definition policy_manifest ::
  "PrismRewardManifest \<Rightarrow> PayoutPolicy \<Rightarrow> u64 \<Rightarrow> PoolFeeManifest option \<Rightarrow> PayoutPolicyAccount list \<Rightarrow>
     PayoutPolicyManifest" where
  "policy_manifest rm policy floor fee all_accounts =
     \<lparr> pp_schema = ''qbit.prism.payout-policy.v1'', pp_block_height = rm_block_height rm,
       pp_coinbase_value_sats = rm_coinbase_value_sats rm, pp_min_output_sats = floor,
       pp_floor_formula = floor_formula policy,
       pp_coinbase_output_policy = coinbase_output_policy policy, pool_fee = fee,
       accounts = sort_key payee_order all_accounts,
       onchain_entitlements = onchain_weights all_accounts \<rparr>"

definition apply_payout_policy ::
  "PrismRewardManifest \<Rightarrow> CarryForwardBalance list \<Rightarrow> PayoutPolicy \<Rightarrow> PrismError + PayoutPolicyManifest" where
  "apply_payout_policy rm prior_balances policy =
     rbind (min_output_sats policy) (\<lambda>floor.
     rbind (pool_fee_manifest (rm_coinbase_value_sats rm) policy) (\<lambda>fee.
     if coinbase_output_policy policy = PoolFeeFirst \<and> fee = None then Inl PoolFeeFirstRequiresPoolFee
     else
       let fee_amount = (case fee of Some f \<Rightarrow> pf_amount_sats f | None \<Rightarrow> 0) in
       rbind (ok_or (checked_sub (rm_coinbase_value_sats rm) fee_amount) PayoutPolicyOverflow) (\<lambda>miner_reward.
       if miner_reward < floor then Inl (CoinbaseBelowFloor miner_reward floor)
       else
         rbind (policy_accounts miner_reward (rm_entitlements rm) prior_balances) (\<lambda>(seen, accs).
         rbind (policy_onchain fee miner_reward floor accs) (\<lambda>(fee', onchain_amounts).
         rbind (rfold (record_payment (rm_coinbase_value_sats rm) floor) accs onchain_amounts) (\<lambda>paid.
         rbind (add_pool_fee_account fee' seen paid) (\<lambda>all_accounts.
         rbind (sum_weights_u64 (onchain_weights all_accounts)) (\<lambda>onchain_sum.
         if onchain_sum \<noteq> rm_coinbase_value_sats rm then Inl PayoutPolicyOverflow
         else
           Inr (policy_manifest rm policy floor fee' all_accounts)))))))))"

definition pool_fee_first_output :: "PayoutPolicyManifest \<Rightarrow> PoolFeeManifest option" where
  "pool_fee_first_output m =
     (if pp_coinbase_output_policy m \<noteq> PoolFeeFirst then None
      else case pool_fee m of
        Some f \<Rightarrow> if pf_amount_sats f > 0 then Some f else None
      | None \<Rightarrow> None)"

definition pinned_first_output_for_policy :: "PayoutPolicyManifest \<Rightarrow> PinnedFirstOutput option" where
  "pinned_first_output_for_policy m = map_option payee.truncate (pool_fee_first_output m)"

definition build_policy_coinbase_request_with_coinbase_options ::
  "PrismRewardManifest \<Rightarrow> CarryForwardBalance list \<Rightarrow> PayoutPolicy \<Rightarrow> string option \<Rightarrow> string list \<Rightarrow>
     PrismError + CoinbaseBuildRequest \<times> PayoutPolicyManifest" where
  "build_policy_coinbase_request_with_coinbase_options rm prior_balances policy suffix leaves =
     rbind (apply_payout_policy rm prior_balances policy) (\<lambda>m.
       Inr (\<lparr> block_height = rm_block_height rm, coinbase_value_sats = rm_coinbase_value_sats rm,
              entitlements = onchain_entitlements m, witness_nonce_hex = None,
              witness_merkle_leaves_hex = leaves, coinbase_script_sig_suffix_hex = suffix,
              pinned_first_output = pinned_first_output_for_policy m \<rparr>, m))"

definition build_policy_coinbase_request_with_coinbase_script_sig_suffix ::
  "PrismRewardManifest \<Rightarrow> CarryForwardBalance list \<Rightarrow> PayoutPolicy \<Rightarrow> string option \<Rightarrow>
     PrismError + CoinbaseBuildRequest \<times> PayoutPolicyManifest" where
  "build_policy_coinbase_request_with_coinbase_script_sig_suffix rm prior_balances policy suffix =
     build_policy_coinbase_request_with_coinbase_options rm prior_balances policy suffix []"

definition build_policy_coinbase_request ::
  "PrismRewardManifest \<Rightarrow> CarryForwardBalance list \<Rightarrow> PayoutPolicy \<Rightarrow>
     PrismError + CoinbaseBuildRequest \<times> PayoutPolicyManifest" where
  "build_policy_coinbase_request rm prior_balances policy =
     build_policy_coinbase_request_with_coinbase_script_sig_suffix rm prior_balances policy None"

section \<open>Allocation: lemmas\<close>

lemma provisional_amount_Inr: "provisional_amount T W e = Inr p \<longleftrightarrow>
  T * weight e < 2 ^ 128 \<and> lr_base T W (weight e) < 2 ^ 64 \<and>
  p = (e, lr_base T W (weight e), lr_rem T W (weight e))"
  by (auto simp: provisional_amount_def res_simps checked_simps lr_base_def lr_rem_def)

lemma allocate_weighted_amounts_run:
  fixes T es
  defines "ws \<equiv> map weight (sort_key payee_order es)"
  assumes T: "T < 2 ^ 64" and pos: "0 < sum_list ws" and small: "sum_list ws < 2 ^ 128"
    and ps: "rmap (provisional_amount T (sum_list ws)) (sort_key payee_order es) = Inr ps"
  shows "\<exists>xs. allocate_weighted_amounts T es = Inr xs \<and> largest_remainder T ws (map snd xs)"
proof -
  let ?get = "\<lambda>p. fst (snd p)" and ?put = "\<lambda>a p. (fst p, a, snd (snd p))"
  have ps_eq: "ps = map (\<lambda>e. (e, lr_base T (sum_list ws) (weight e), lr_rem T (sum_list ws) (weight e)))
      (sort_key payee_order es)"
    using rmap_map[OF ps, of "\<lambda>p. p" "\<lambda>e. (e, lr_base T (sum_list ws) (weight e), lr_rem T (sum_list ws) (weight e))"]
    by (simp add: provisional_amount_Inr)
  have "sum_list (map ?get ps) \<le> T \<and> (\<exists>ps'.
     bump_at PayoutPolicyOverflow ?get ?put
       (take (T - sum_list (map ?get ps)) (sort_key (\<lambda>i. amount_remainder_key (ps ! i)) [0..<length ps])) ps = Inr ps' \<and>
     list_all2 (\<lambda>p q. \<exists>a. q = ?put a p \<or> q = p) ps ps' \<and> largest_remainder T ws (map ?get ps'))"
  proof (rule bump_at_largest_remainder)
    fix i j assume "i < length ws" "j < length ws" "amount_remainder_key (ps ! i) \<le> amount_remainder_key (ps ! j)"
    then show "lr_rem T (sum_list ws) (ws ! j) \<le> lr_rem T (sum_list ws) (ws ! i)"
      by (auto simp: amount_remainder_key_def ps_eq ws_def less_eq_prod_def)
  qed (use T pos in \<open>auto simp: ps_eq ws_def\<close>)
  then obtain ps' where le: "sum_list (map ?get ps) \<le> T"
    and bump: "bump_at PayoutPolicyOverflow ?get ?put
       (take (T - sum_list (map ?get ps)) (sort_key (\<lambda>i. amount_remainder_key (ps ! i)) [0..<length ps])) ps = Inr ps'"
    and lr: "largest_remainder T ws (map ?get ps')" by blast
  have "allocate_weighted_amounts T es = Inr (map (\<lambda>p. (fst p, ?get p)) ps')"
  proof -
    obtain W where W: "W = sum_list ws" by simp
    have "try_sum 128 PayoutPolicyOverflow ws = Inr W" "0 < W" using small pos by (simp_all only: try_sum_Inr W)
    then show ?thesis
      unfolding allocate_weighted_amounts_def Let_def ws_def[symmetric]
      using T ps[folded W] le bump by (simp add: try_sum_Inr[THEN iffD2] checked_sub_def)
  qed
  then show ?thesis using lr by (auto simp: comp_def)
qed

lemma allocate_weighted_amounts_split:
  assumes "allocate_weighted_amounts T es = Inr xs" "T < 2 ^ 64"
  shows "largest_remainder T (map weight (sort_key payee_order es)) (map snd xs)"
    "0 < sum_list (map weight es)"
proof -
  let ?ws = "map weight (sort_key payee_order es)"
  from assms(1) obtain ps where ps: "sum_list ?ws < 2 ^ 128" "sum_list ?ws \<noteq> 0"
    "rmap (provisional_amount T (sum_list ?ws)) (sort_key payee_order es) = Inr ps"
    unfolding allocate_weighted_amounts_def Let_def rbind_Inr if_Inl_Inr try_sum_Inr by blast
  then have pos: "0 < sum_list ?ws" by blast
  then show "0 < sum_list (map weight es)" unfolding sum_list_sort_key .
  from allocate_weighted_amounts_run[OF assms(2) pos ps(1,3)]
  show "largest_remainder T ?ws (map snd xs)" unfolding assms(1) by blast
qed

interpretation weighted_amounts: proportional_allocator
  allocate_weighted_amounts "\<lambda>e. e" fst weight snd
proof
  fix T es xs assume a: "allocate_weighted_amounts T es = Inr xs" "T < 2 ^ 64"
  have "map fst xs = sort_key payee_order es" by (rule allocate_weighted_amounts_fst[OF a(1)])
  with allocate_weighted_amounts_split[OF a]
  show "mset (map fst xs) = mset (map (\<lambda>e. e) es) \<and>
    largest_remainder T (map (\<lambda>x. weight (fst x)) xs) (map snd xs)"
    by (metis (no_types, lifting) comp_apply list.map_comp list.map_ident map_eq_conv mset_sort)
qed

section \<open>Aggregation: lemmas\<close>

interpretation program_weights: keyed_accumulator
  "\<lambda>e. payout_program_key (p2mr_program_hex e)" program_weight_step weight weight
  "\<lambda>e. payout_program_key (p2mr_program_hex e)"
  by unfold_locales (auto simp: program_weight_step_def Let_def res_simps checked_simps)

interpretation program_balances: keyed_accumulator
  "\<lambda>b. payout_program_key (p2mr_program_hex b)" program_balance_step balance_sats balance_sats
  "\<lambda>b. payout_program_key (p2mr_program_hex b)"
  by unfold_locales (auto simp: program_balance_step_def Let_def res_simps checked_simps)

abbreviation program_of :: "('x) payee_scheme \<Rightarrow> string" where
  "program_of p \<equiv> payout_program_key (p2mr_program_hex p)"

lemma keyed_values_distinct:
  assumes "bt_ordered m" "\<And>k v. (k, v) \<in> set m \<Longrightarrow> f v = k"
  shows "map f (bt_values m) = map fst m" "distinct (map f (bt_values m))"
proof -
  show "map f (bt_values m) = map fst m" using assms(2) by (auto simp: bt_values_def)
  then show "distinct (map f (bt_values m))" using bt_ordered_distinct[OF assms(1)] by simp
qed

lemma aggregate_by_program:
  assumes "aggregate_entitlements_by_payout_program es = Inr ses"
  shows "distinct (map program_of ses)" "program_of ` set ses = program_of ` set es"
    "sum_list (map weight ses) = sum_list (map weight es)"
proof -
  obtain m where m: "bt_accumulate (\<lambda>e. program_of e) program_weight_step es = Inr m" and ses: "ses = bt_values m"
    using assms by (auto simp: aggregate_entitlements_by_payout_program_def res_simps)
  note keyed = keyed_values_distinct[where f = "\<lambda>e. program_of e", OF bt_accumulate_ordered[OF m] program_weights.accumulate_vkey[OF m]]
  show "distinct (map program_of ses)" using keyed(2) by (simp add: ses)
  have "program_of ` set ses = fst ` set m" using arg_cong[where f = set, OF keyed(1)] by (simp add: ses)
  then show "program_of ` set ses = program_of ` set es" using bt_accumulate_keys[OF m] by simp
  show "sum_list (map weight ses) = sum_list (map weight es)"
    using program_weights.accumulate_total[OF m] by (simp add: ses bt_values_def case_prod_unfold comp_def)
qed

lemma carry_forward_by_program:
  assumes "carry_forward_by_payout_program bs = Inr m"
  shows "distinct (map program_of (bt_values m))"
    "map program_of (bt_values m) = map fst m" "bt_ordered m"
    "sum_list (map balance_sats (bt_values m)) = sum_list (map balance_sats bs)"
proof -
  have m: "bt_accumulate (\<lambda>e. program_of e) program_balance_step bs = Inr m"
    using assms by (simp add: carry_forward_by_payout_program_def)
  note keyed = keyed_values_distinct[where f = "\<lambda>e. program_of e", OF bt_accumulate_ordered[OF m] program_balances.accumulate_vkey[OF m]]
  show "distinct (map program_of (bt_values m))" "map program_of (bt_values m) = map fst m"
    using keyed by simp_all
  show "bt_ordered m" by (rule bt_accumulate_ordered[OF m])
  show "sum_list (map balance_sats (bt_values m)) = sum_list (map balance_sats bs)"
    using program_balances.accumulate_total[OF m] by (simp add: bt_values_def case_prod_unfold comp_def)
qed

section \<open>Accounts: lemmas\<close>

lemma distinct_map_sort_key: "distinct (map f (sort_key k xs)) \<longleftrightarrow> distinct (map f xs)"
  by (rule mset_eq_imp_distinct_iff) simp

lemma fold_balance_seeds:
  assumes "distinct (map program_of bs)"
  shows "fold (\<lambda>b (seen, seeds).
         let key = payout_program_key (p2mr_program_hex b) in
         if key \<in> seen then (seen, seeds) else (insert key seen, seeds @ [balance_seed b])) bs (seen, seeds) =
    (seen \<union> program_of ` set bs, seeds @ map balance_seed (filter (\<lambda>b. program_of b \<notin> seen) bs))"
  using assms
proof (induction bs arbitrary: seen seeds)
  case (Cons b bs)
  have "filter (\<lambda>b'. program_of b' \<notin> insert (program_of b) seen) bs = filter (\<lambda>b'. program_of b' \<notin> seen) bs"
    using Cons.prems by (auto simp: image_iff intro!: filter_cong)
  with Cons show ?case by (auto simp: Let_def)
qed simp

definition prior_of :: "(string, CarryForwardBalance) btree \<Rightarrow> string \<Rightarrow> i128" where
  "prior_of m k = (case bt_lookup m k of Some b \<Rightarrow> balance_sats b | None \<Rightarrow> 0)"

lemma prior_sum:
  assumes "bt_ordered m"
  shows "sum_list (map balance_sats (map snd (filter (\<lambda>kb. Q (fst kb)) m))) =
    (\<Sum>k\<in>{k \<in> fst ` set m. Q k}. prior_of m k)"
proof -
  let ?f = "filter (\<lambda>kb. Q (fst kb)) m"
  have "balance_sats (snd kb) = prior_of m (fst kb)" if "kb \<in> set m" for kb
    using that assms bt_lookup_entry[OF assms, of "fst kb" "snd kb"] by (simp add: prior_of_def)
  then have "map balance_sats (map snd ?f) = map (prior_of m) (map fst ?f)" by simp
  moreover have "distinct (map fst ?f)" by (rule distinct_map_filter[OF bt_ordered_distinct[OF assms]])
  moreover have "set (map fst ?f) = {k \<in> fst ` set m. Q k}" by auto
  ultimately show ?thesis by (simp only: sum_list_distinct_conv_sum_set)
qed

lemma gross_prior_sum:
  assumes "distinct (map (\<lambda>(e, g). program_of e) xs)" "bt_ordered m"
  shows "sum_list (map (\<lambda>(e, g). prior_of m (program_of e)) xs) =
    (\<Sum>k\<in>{k \<in> fst ` set m. k \<in> (\<lambda>(e, g). program_of e) ` set xs}. prior_of m k)"
proof -
  let ?P = "(\<lambda>(e, g). program_of e) ` set xs"
  have "sum_list (map (\<lambda>(e, g). prior_of m (program_of e)) xs) =
      sum_list (map (prior_of m) (map (\<lambda>(e, g). program_of e) xs))" by (simp add: comp_def case_prod_unfold)
  also have "\<dots> = (\<Sum>k\<in>?P. prior_of m k)"
    using assms(1) by (simp add: sum_list_distinct_conv_sum_set del: map_map)
  also have "\<dots> = (\<Sum>k\<in>{k \<in> fst ` set m. k \<in> ?P}. prior_of m k)"
  proof (rule sum.mono_neutral_right)
    have "prior_of m k = 0" if "k \<notin> fst ` set m" for k
      using that bt_lookup_None[of m k] by (simp add: prior_of_def)
    then show "\<forall>k\<in>?P - {k \<in> fst ` set m. k \<in> ?P}. prior_of m k = 0" by blast
  qed (simp, blast)
  finally show ?thesis .
qed

text \<open>What a list of balances holds for one payout program.\<close>

definition balance_for :: "CarryForwardBalance list \<Rightarrow> string \<Rightarrow> i128" where
  "balance_for bs k = sum_list (map balance_sats (filter (\<lambda>b. program_of b = k) bs))"

lemma prior_of_balance_for:
  assumes "carry_forward_by_payout_program bs = Inr m"
  shows "prior_of m k = balance_for bs k" "fst ` set m = program_of ` set bs"
proof -
  have m: "bt_accumulate (\<lambda>e. program_of e) program_balance_step bs = Inr m"
    using assms by (simp add: carry_forward_by_payout_program_def)
  show keys: "fst ` set m = program_of ` set bs" using bt_accumulate_keys[OF m] by simp
  show "prior_of m k = balance_for bs k"
  proof (cases "bt_lookup m k")
    case None
    then have "k \<notin> program_of ` set bs" using keys bt_lookup_None[of m k] by simp
    then have "filter (\<lambda>b. program_of b = k) bs = []" by (auto simp: filter_empty_conv)
    then show ?thesis using None by (simp add: prior_of_def balance_for_def)
  next
    case (Some b)
    then show ?thesis
      using program_balances.accumulate_entry[OF m Some] by (simp add: prior_of_def balance_for_def)
  qed
qed

lemma account_seeds_prior:
  assumes m: "carry_forward_by_payout_program bs = Inr m" and run: "account_seeds xs m = (seen, seeds)"
  shows "\<forall>seed\<in>set seeds. prior_balance_sats seed = balance_for bs (program_of seed)"
    "program_of ` set bs \<subseteq> seen"
proof -
  note prior = carry_forward_by_program[OF m]
  let ?P = "(\<lambda>(e, g). program_of e) ` set xs"
  let ?rest = "filter (\<lambda>b. program_of b \<notin> ?P) (bt_values m)"
  have seen: "seen = ?P \<union> program_of ` set (bt_values m)"
    and seeds: "seeds = map (gross_seed m) xs @ map balance_seed ?rest"
    using run unfolding account_seeds_def fold_balance_seeds[OF prior(1)] by auto
  have "program_of ` set (bt_values m) = fst ` set m" using arg_cong[where f = set, OF prior(2)] by simp
  then show "program_of ` set bs \<subseteq> seen" using prior_of_balance_for(2)[OF m] by (simp add: seen)
  have "prior_balance_sats (gross_seed m x) = prior_of m (program_of (gross_seed m x))" for x
    by (simp add: gross_seed_def prior_of_def case_prod_unfold)
  moreover have "balance_sats b = prior_of m (program_of b)" if b: "b \<in> set (bt_values m)" for b
  proof -
    obtain k where k: "(k, b) \<in> set m" using b by (auto simp: bt_values_def)
    then have "program_of b = k" using prior(2) by (auto simp: bt_values_def)
    with k show ?thesis using bt_lookup_entry[OF prior(3), of k b] by (simp add: prior_of_def)
  qed
  ultimately show "\<forall>seed\<in>set seeds. prior_balance_sats seed = balance_for bs (program_of seed)"
    by (auto simp: seeds balance_seed_def prior_of_balance_for(1)[OF m])
qed

lemma account_seeds_run:
  assumes g: "distinct (map (\<lambda>(e, g). program_of e) xs)"
    and m: "carry_forward_by_payout_program bs = Inr m"
    and run: "account_seeds xs m = (seen, seeds)"
  shows "distinct (map program_of seeds)" "seen = program_of ` set seeds"
    "sum_list (map gross_amount_sats seeds) = sum_list (map snd xs)"
    "sum_list (map prior_balance_sats seeds) = sum_list (map balance_sats bs)"
proof -
  note prior = carry_forward_by_program[OF m]
  let ?P = "(\<lambda>(e, g). program_of e) ` set xs"
  let ?rest = "filter (\<lambda>b. program_of b \<notin> ?P) (bt_values m)"
  have run': "seen = ?P \<union> program_of ` set (bt_values m)"
    and seeds: "seeds = map (gross_seed m) xs @ map balance_seed ?rest"
    using run unfolding account_seeds_def fold_balance_seeds[OF prior(1)] by auto
  have programs: "map program_of seeds = map (\<lambda>(e, g). program_of e) xs @ map program_of ?rest"
    by (auto simp: seeds gross_seed_def balance_seed_def)
  have sets: "A \<inter> program_of ` {b \<in> S. program_of b \<notin> A} = {}"
    "A \<union> program_of ` {b \<in> S. program_of b \<notin> A} = A \<union> program_of ` S"
    for A and S :: "CarryForwardBalance set" by blast+
  show "distinct (map program_of seeds)"
    unfolding programs distinct_append using g distinct_map_filter[OF prior(1)] sets(1) by simp
  show "seen = program_of ` set seeds"
    using arg_cong[where f = set, OF programs] sets(2) by (simp add: run')
  show "sum_list (map gross_amount_sats seeds) = sum_list (map snd xs)"
    by (simp add: seeds gross_seed_def balance_seed_def comp_def case_prod_unfold)
  have keys: "program_of (snd kb) = fst kb" if "kb \<in> set m" for kb
    using prior(2) that by (auto simp: bt_values_def)
  have "?rest = map snd (filter (\<lambda>kb. fst kb \<notin> ?P) m)"
    using keys by (simp add: bt_values_def filter_map comp_def cong: filter_cong)
  then have "sum_list (map prior_balance_sats seeds) =
      sum_list (map (\<lambda>(e, g). prior_of m (program_of e)) xs) +
      sum_list (map balance_sats (map snd (filter (\<lambda>kb. fst kb \<notin> ?P) m)))"
    by (simp add: seeds gross_seed_def balance_seed_def prior_of_def comp_def case_prod_unfold)
  also have "\<dots> = (\<Sum>k\<in>{k \<in> fst ` set m. k \<in> ?P}. prior_of m k) + (\<Sum>k\<in>{k \<in> fst ` set m. k \<notin> ?P}. prior_of m k)"
    unfolding gross_prior_sum[OF g prior(3)] prior_sum[OF prior(3), of "\<lambda>k. k \<notin> ?P"] ..
  also have "\<dots> = (\<Sum>k\<in>fst ` set m. prior_of m k)"
    by (subst sum.union_disjoint[symmetric]) (auto intro!: sum.cong)
  also have "\<dots> = sum_list (map balance_sats (map snd (filter (\<lambda>kb. True) m)))"
    by (subst prior_sum[OF prior(3), of "\<lambda>_. True"]) simp
  finally show "sum_list (map prior_balance_sats seeds) = sum_list (map balance_sats bs)"
    using prior(4) by (simp add: bt_values_def)
qed

definition fresh_account :: "PayoutPolicyAccount \<Rightarrow> bool" where
  "fresh_account acc \<longleftrightarrow>
     account_type acc = Miner \<and> candidate_balance_sats acc = prior_balance_sats acc + int (gross_amount_sats acc) \<and>
     onchain_amount_sats acc = 0 \<and> settlement_fee_sats acc = 0 \<and>
     carry_forward_balance_sats acc = candidate_balance_sats acc \<and> action acc = Accrued \<and>
     fits_signed 128 (candidate_balance_sats acc)"

lemma fresh_account_fits: "fresh_account acc \<Longrightarrow> fits_signed 128 (candidate_balance_sats acc)"
  unfolding fresh_account_def by blast

lemma seed_account_Inr:
  assumes "seed_account seed = Inr acc"
  shows "fresh_account acc" "program_of acc = program_of seed" "gross_amount_sats acc = gross_amount_sats seed"
    "prior_balance_sats acc = prior_balance_sats seed"
  using assms by (auto simp: seed_account_def fresh_account_def res_simps checked_simps)

lemma policy_accounts_Inr:
  assumes "policy_accounts R es bs = Inr (seen, accs)" "R < 2 ^ 64"
  shows "distinct (map program_of accs)" "seen = program_of ` set accs" "\<forall>acc\<in>set accs. fresh_account acc"
    "sum_list (map gross_amount_sats accs) = R"
    "sum_list (map prior_balance_sats accs) = sum_list (map balance_sats bs)"
    "\<forall>acc\<in>set accs. prior_balance_sats acc = balance_for bs (program_of acc)" "program_of ` set bs \<subseteq> seen"
proof -
  from assms(1) obtain ses xs m where ses: "aggregate_entitlements_by_payout_program es = Inr ses"
    and xs: "allocate_weighted_amounts R ses = Inr xs" and m: "carry_forward_by_payout_program bs = Inr m"
    and rest: "(let (seen, seeds) = account_seeds xs m in
       rbind (rmap seed_account seeds) (\<lambda>accs. Inr (seen, accs))) = Inr (seen, accs)"
    unfolding policy_accounts_def rbind_Inr by blast
  obtain seen' seeds where "account_seeds xs m = (seen', seeds)" by fastforce
  with rest have seeds: "account_seeds xs m = (seen, seeds)" and accs: "rmap seed_account seeds = Inr accs"
    by (simp_all add: rbind_Inr)
  have "map program_of (map fst xs) = map program_of (sort_key payee_order ses)"
    by (simp only: allocate_weighted_amounts_fst[OF xs])
  then have "distinct (map program_of (map fst xs))"
    using aggregate_by_program(1)[OF ses] by (simp only: distinct_map_sort_key)
  then have "distinct (map (\<lambda>(e, g). program_of e) xs)" by (simp add: comp_def case_prod_unfold)
  note run = account_seeds_run[OF this m seeds]
  have progs: "map program_of accs = map program_of seeds"
    by (rule rmap_map[OF accs]) (rule seed_account_Inr(2))
  show "distinct (map program_of accs)" using run(1) by (simp add: progs)
  show "seen = program_of ` set accs" 
    using run(2) arg_cong[where f = set, OF progs] by simp
  show "\<forall>acc\<in>set accs. fresh_account acc"
    using accs unfolding rmap_Inr by (auto dest!: list_all2_set2 seed_account_Inr(1) bspec)
  have "map gross_amount_sats accs = map gross_amount_sats seeds"
    by (rule rmap_map[OF accs]) (rule seed_account_Inr(3))
  then show "sum_list (map gross_amount_sats accs) = R"
    using run(3) weighted_amounts.alloc_total[OF xs assms(2)] by simp
  have "map prior_balance_sats accs = map prior_balance_sats seeds"
    by (rule rmap_map[OF accs]) (rule seed_account_Inr(4))
  then show "sum_list (map prior_balance_sats accs) = sum_list (map balance_sats bs)"
    using run(4) by simp
  show "program_of ` set bs \<subseteq> seen" by (rule account_seeds_prior(2)[OF m seeds])
  show "\<forall>acc\<in>set accs. prior_balance_sats acc = balance_for bs (program_of acc)"
  proof
    fix acc assume "acc \<in> set accs"
    with accs obtain seed where seed: "seed \<in> set seeds" "seed_account seed = Inr acc"
      unfolding rmap_Inr by (auto dest!: list_all2_set2 bspec)
    with account_seeds_prior(1)[OF m seeds] seed_account_Inr[OF seed(2)]
    show "prior_balance_sats acc = balance_for bs (program_of acc)" by simp
  qed
qed

section \<open>Selection: lemmas\<close>

lemma candidate_sum_fold:
  "rfold (\<lambda>sum i.
       rbind (ok_or (try_from_signed 128 (candidate_balance_sats (accs ! i))) PayoutPolicyOverflow) (\<lambda>balance.
         ok_or (checked_add 128 sum balance) PayoutPolicyOverflow)) s sel = Inr t \<Longrightarrow>
   (\<forall>i\<in>set sel. 0 \<le> candidate_balance_sats (accs ! i)) \<and>
   t = s + sum_list (map (\<lambda>i. nat (candidate_balance_sats (accs ! i))) sel)"
  by (induction sel arbitrary: s) (auto simp: rbind_Inr ok_or_Inr try_from_signed_Some checked_add_Some, force+)

lemma selected_candidate_balance_sum_Inr:
  "selected_candidate_balance_sum accs sel = Inr t \<Longrightarrow>
   (\<forall>i\<in>set sel. 0 \<le> candidate_balance_sats (accs ! i)) \<and>
   t = sum_list (map (\<lambda>i. nat (candidate_balance_sats (accs ! i))) sel)"
  using candidate_sum_fold[of accs 0 sel t] by (simp add: selected_candidate_balance_sum_def)

lemma select_loop_Inr:
  "select_loop accs V F sel = Inr out \<Longrightarrow>
     set out \<subseteq> set sel \<and> (distinct sel \<longrightarrow> distinct out) \<and> out \<noteq> [] \<and>
     (\<exists>t. selected_candidate_balance_sum accs out = Inr t \<and> V \<le> t) \<and>
     (\<exists>xs. allocate_weighted_amounts V (map (\<lambda>i. policy_weight (accs ! i)) out) = Inr xs \<and>
        (\<forall>(e, a)\<in>set xs. F \<le> a))"
proof (induction accs V F sel rule: select_loop.induct)
  case (1 accs V F sel)
  from 1(2) obtain t xs where sel: "sel \<noteq> []" and t: "selected_candidate_balance_sum accs sel = Inr t" "\<not> t < V"
    and xs: "allocate_weighted_amounts V (map (\<lambda>i. policy_weight (accs ! i)) sel) = Inr xs"
    unfolding select_loop.simps[of accs V F sel] if_Inl_Inr rbind_Inr by blast
  show ?case
  proof (cases "under_floor_keys F xs = []")
    case True
    then have "out = sel" using 1(2) sel t xs by (simp add: select_loop.simps[of accs V F sel])
    moreover have "\<forall>(e, a)\<in>set xs. F \<le> a"
      using True by (auto simp: under_floor_keys_def filter_empty_conv)
    ultimately show ?thesis using sel t xs by auto
  next
    case False
    let ?k = "keep_accounts accs (under_floor_keys F xs) sel"
    have "select_loop accs V F ?k = Inr out"
      using 1(2) sel t xs False by (simp add: select_loop.simps[of accs V F sel])
    from 1(1)[OF sel t xs False this]
    have "set out \<subseteq> set ?k \<and> (distinct ?k \<longrightarrow> distinct out) \<and> out \<noteq> [] \<and>
     (\<exists>t. selected_candidate_balance_sum accs out = Inr t \<and> V \<le> t) \<and>
     (\<exists>xs. allocate_weighted_amounts V (map (\<lambda>i. policy_weight (accs ! i)) out) = Inr xs \<and>
        (\<forall>(e, a)\<in>set xs. F \<le> a))" .
    moreover have "set ?k \<subseteq> set sel" "distinct sel \<longrightarrow> distinct ?k" by (auto simp: keep_accounts_def)
    ultimately show ?thesis by blast
  qed
qed

lemma int_sum_nat: "\<forall>x\<in>set xs. 0 \<le> f x \<Longrightarrow> int (sum_list (map (\<lambda>x. nat (f x)) xs)) = sum_list (map f xs)"
  by (induction xs) simp_all

text \<open>What the selected amounts are: one per payee, at least the floor, at most the balance.\<close>

definition payable :: "u64 \<Rightarrow> PayoutPolicyAccount list \<Rightarrow> (WeightedEntitlement \<times> u64) list \<Rightarrow> bool" where
  "payable floor accs ons \<longleftrightarrow>
     distinct (map (\<lambda>x. payee_order (fst x)) ons) \<and>
     (\<forall>(e, a)\<in>set ons. floor \<le> a \<and>
        (\<exists>acc\<in>set accs. payee_order acc = payee_order e \<and> int a \<le> candidate_balance_sats acc))"

lemma distinct_payees:
  "distinct (map program_of accs) \<Longrightarrow> distinct (map payee_order accs)"
  by (auto simp: distinct_map inj_on_def payee_order_def)

lemma distinct_selected:
  assumes "distinct (map payee_order accs)" "distinct sel" "\<forall>i\<in>set sel. i < length accs"
  shows "distinct (map (\<lambda>i. payee_order (accs ! i)) sel)"
proof -
  have "inj_on (\<lambda>i. payee_order (accs ! i)) (set sel)"
    using assms(1,3) by (auto simp: inj_on_def distinct_conv_nth)
  then show ?thesis using assms(2) by (simp add: distinct_map)
qed

lemma as_u128_candidate:
  "0 \<le> c \<Longrightarrow> fits_signed 128 c \<Longrightarrow> as_u128 c = nat c"
  by (simp add: as_u128_def fits_signed_def)

lemma policy_weight_order [simp]: "payee_order (policy_weight acc) = payee_order acc"
  by (simp add: payee_order_def policy_weight_def)

lemma allocated_payable:
  assumes xs: "allocate_weighted_amounts R (map (\<lambda>i. policy_weight (accs ! i)) sel) = Inr xs" "R < 2 ^ 64"
    and t: "selected_candidate_balance_sum accs sel = Inr t" "R \<le> t"
    and accs: "distinct (map payee_order accs)" "\<forall>acc\<in>set accs. fresh_account acc"
    and sel: "distinct sel" "\<forall>i\<in>set sel. i < length accs" and floor: "\<forall>(e, a)\<in>set xs. F \<le> a"
  shows "payable F accs xs"
proof -
  let ?ws = "map (\<lambda>i. policy_weight (accs ! i)) sel"
  have fst: "map fst xs = sort_key payee_order ?ws" by (rule allocate_weighted_amounts_fst[OF xs(1)])
  have w: "weight (policy_weight (accs ! i)) = nat (candidate_balance_sats (accs ! i))"
    "0 \<le> candidate_balance_sats (accs ! i)" if "i \<in> set sel" for i
    using that selected_candidate_balance_sum_Inr[OF t(1)] accs(2) sel(2)
    by (simp_all add: policy_weight_def as_u128_candidate fresh_account_fits)
  have "sum_list (map weight ?ws) = t"
    using selected_candidate_balance_sum_Inr[OF t(1)] w by (simp add: comp_def cong: map_cong)
  then have le: "snd x \<le> weight (fst x)" if "x \<in> set xs" for x
    using weighted_amounts.alloc_le_weight[OF xs that] t(2) by simp
  have "distinct (map payee_order ?ws)"
    using distinct_selected[OF accs(1) sel] by (simp add: comp_def)
  then have "distinct (map payee_order (map fst xs))" unfolding fst distinct_map_sort_key .
  moreover have "\<exists>acc\<in>set accs. payee_order acc = payee_order e \<and> int a \<le> candidate_balance_sats acc"
    if ea: "(e, a) \<in> set xs" for e a
  proof -
    have "e \<in> set (map fst xs)" using ea by force
    then obtain i where i: "i \<in> set sel" "e = policy_weight (accs ! i)" unfolding fst by auto
    then have "int a \<le> candidate_balance_sats (accs ! i)" using le[OF ea] w[OF i(1)] by simp
    then show ?thesis using i sel(2) by (intro bexI[of _ "accs ! i"]) auto
  qed
  ultimately show ?thesis using floor by (auto simp: payable_def comp_def)
qed

lemma full_payment_Inr: "full_payment acc = Inr x \<Longrightarrow>
  payee_order (fst x) = payee_order acc \<and> int (snd x) = candidate_balance_sats acc"
  by (auto simp: full_payment_def payee_order_def res_simps checked_simps)

lemma full_payable:
  assumes run: "rmap (\<lambda>i. full_payment (accs ! i)) (eligible_onchain_accounts accs F) = Inr xs"
    and accs: "distinct (map payee_order accs)"
  shows "payable F accs xs"
    "int (sum_list (map snd xs)) = sum_list (map (\<lambda>i. candidate_balance_sats (accs ! i)) (eligible_onchain_accounts accs F))"
proof -
  let ?sel = "eligible_onchain_accounts accs F"
  have orders: "map (\<lambda>x. payee_order (fst x)) xs = map (\<lambda>i. payee_order (accs ! i)) ?sel"
    and amounts: "map (\<lambda>x. int (snd x)) xs = map (\<lambda>i. candidate_balance_sats (accs ! i)) ?sel"
    by (rule rmap_map[OF run], use full_payment_Inr in blast)+
  have "distinct ?sel" "\<forall>i\<in>set ?sel. i < length accs" by (auto simp: eligible_onchain_accounts_def)
  then have "distinct (map (\<lambda>x. payee_order (fst x)) xs)" unfolding orders by (rule distinct_selected[OF accs])
  moreover have "F \<le> snd x \<and> (\<exists>acc\<in>set accs. payee_order acc = payee_order (fst x) \<and>
      int (snd x) \<le> candidate_balance_sats acc)" if x: "x \<in> set xs" for x
  proof -
    obtain i where i: "i \<in> set ?sel" "full_payment (accs ! i) = Inr x"
      using run x unfolding rmap_Inr by (auto dest!: list_all2_set2 bspec)
    then show ?thesis using full_payment_Inr[OF i(2)]
      by (intro conjI bexI[of _ "accs ! i"]) (auto simp: eligible_onchain_accounts_def)
  qed
  ultimately show "payable F accs xs" by (auto simp: payable_def)
  have "int (sum_list (map snd xs)) = sum_list (map (\<lambda>x. int (snd x)) xs)"
    by (induction xs) simp_all
  then show "int (sum_list (map snd xs)) = sum_list (map (\<lambda>i. candidate_balance_sats (accs ! i)) ?sel)"
    by (simp add: amounts)
qed

lemma policy_onchain_Inr:
  assumes run: "policy_onchain fee R F accs = Inr (fee', ons)" and R: "R < 2 ^ 64"
    and accs: "distinct (map program_of accs)" "\<forall>acc\<in>set accs. fresh_account acc"
  shows "payable F accs ons" "\<exists>swept. add_swept_dust_to_pool_fee fee swept = Inr fee' \<and> sum_list (map snd ons) + swept = R"
proof -
  let ?el = "eligible_onchain_accounts accs F"
  have d: "distinct (map payee_order accs)" by (rule distinct_payees[OF accs(1)])
  have el: "distinct ?el" "\<forall>i\<in>set ?el. i < length accs" by (auto simp: eligible_onchain_accounts_def)
  have goal: "payable F accs ons \<and>
    (\<exists>swept. add_swept_dust_to_pool_fee fee swept = Inr fee' \<and> sum_list (map snd ons) + swept = R)"
  proof (cases "?el = []")
    case True
    with run have "add_swept_dust_to_pool_fee fee R = Inr fee'" "ons = []"
      by (auto simp: policy_onchain_def Let_def rbind_Inr split: if_splits)
    then show ?thesis by (simp add: payable_def)
  next
    case False
    with run obtain t where t: "selected_candidate_balance_sum accs ?el = Inr t"
      by (auto simp: policy_onchain_def Let_def rbind_Inr)
    note sum = selected_candidate_balance_sum_Inr[OF t]
    show ?thesis
    proof (cases "t < R")
      case True
      with run False t obtain swept where swept: "R = t + swept" "add_swept_dust_to_pool_fee fee swept = Inr fee'"
        and ons: "rmap (\<lambda>i. full_payment (accs ! i)) ?el = Inr ons"
        by (auto simp: policy_onchain_def Let_def rbind_Inr ok_or_Inr try_from_Some checked_sub_Some if_Inl_Inr)
      have "int (sum_list (map (\<lambda>i. nat (candidate_balance_sats (accs ! i))) ?el)) =
          sum_list (map (\<lambda>i. candidate_balance_sats (accs ! i)) ?el)"
        by (rule int_sum_nat) (use sum in blast)
      then have "sum_list (map snd ons) = t" using full_payable(2)[OF ons d] sum by linarith
      with swept full_payable(1)[OF ons d] show ?thesis by auto
    next
      case False2: False
      with run False t obtain sel where sel: "select_onchain_accounts accs R F = Inr sel"
        and ons: "allocate_weighted_amounts R (map (\<lambda>i. policy_weight (accs ! i)) sel) = Inr ons" and fee: "fee' = fee"
        by (auto simp: policy_onchain_def Let_def rbind_Inr)
      from select_loop_Inr[OF sel[unfolded select_onchain_accounts_def]] el ons
      have "payable F accs ons"
        using allocated_payable[OF ons R _ _ d accs(2)] by (metis Inr_inject subsetD)
      moreover have "sum_list (map snd ons) = R" by (rule weighted_amounts.alloc_total[OF ons R])
      ultimately show ?thesis by (auto simp: fee add_swept_dust_to_pool_fee_def intro!: exI[of _ 0])
    qed
  qed
  then show "payable F accs ons"
    "\<exists>swept. add_swept_dust_to_pool_fee fee swept = Inr fee' \<and> sum_list (map snd ons) + swept = R" by blast+
qed

section \<open>Recording the payments: lemmas\<close>

definition pay :: "u64 \<Rightarrow> PayoutPolicyAccount \<Rightarrow> PayoutPolicyAccount" where
  "pay a acc = acc \<lparr> onchain_amount_sats := a,
     carry_forward_balance_sats := candidate_balance_sats acc - int a, action := Onchain \<rparr>"

lemma pay_simps [simp]:
  "payee_order (pay a acc) = payee_order acc" "candidate_balance_sats (pay a acc) = candidate_balance_sats acc"
  "onchain_amount_sats (pay a acc) = a" "gross_amount_sats (pay a acc) = gross_amount_sats acc"
  "prior_balance_sats (pay a acc) = prior_balance_sats acc" "action (pay a acc) = Onchain"
  "carry_forward_balance_sats (pay a acc) = candidate_balance_sats acc - int a"
  "account_type (pay a acc) = account_type acc" "settlement_fee_sats (pay a acc) = settlement_fee_sats acc"
  "p2mr_program_hex (pay a acc) = p2mr_program_hex acc"
  by (simp_all add: pay_def payee_order_def)

lemma same_payee_iff: "same_payee p q \<longleftrightarrow> payee_order p = payee_order q"
  by (auto simp: same_payee_def payee_order_def)

lemma fits_signed_diff: "fits_signed w c \<Longrightarrow> int a \<le> c \<Longrightarrow> fits_signed w (c - int a)"
  by (auto simp: fits_signed_def)

lemma record_payment_run:
  assumes d: "distinct (map payee_order accs)" and floor: "floor \<le> a"
    and acc: "acc \<in> set accs" "payee_order acc = payee_order e" "int a \<le> candidate_balance_sats acc"
      "fits_signed 128 (candidate_balance_sats acc)"
  shows "record_payment V floor accs (e, a) = Inr (map (\<lambda>x. if payee_order x = payee_order e then pay a x else x) accs)"
proof -
  obtain i where i: "i < length accs" "acc = accs ! i" using acc(1) by (auto simp: in_set_conv_nth)
  have only: "payee_order (accs ! j) = payee_order e \<longleftrightarrow> j = i" if "j < length accs" for j
    using nth_eq_iff_index_eq[OF d, of j i] i acc(2) that by auto
  have "filter (\<lambda>j. same_payee (accs ! j) e) [0..<length accs] = filter (\<lambda>j. j = i) [0..<length accs]"
    by (rule filter_cong) (auto simp: same_payee_iff only)
  also have "\<dots> = [i]"
    using filter_unique_index(1)[of i "[0..<length accs]" "\<lambda>j. j = i"] i(1) by simp
  finally have f: "filter (\<lambda>j. same_payee (accs ! j) e) [0..<length accs] = [i]" .
  have "accs[i := pay a (accs ! i)] = map (\<lambda>x. if payee_order x = payee_order e then pay a x else x) accs"
    by (rule nth_equalityI) (auto simp: nth_list_update only)
  then show ?thesis
    using floor acc(3,4) i
    by (simp add: record_payment_def f checked_sub_signed_def fits_signed_diff flip: pay_def)
qed

definition paid_amount :: "(WeightedEntitlement \<times> u64) list \<Rightarrow> PayoutPolicyAccount \<Rightarrow> u64 option" where
  "paid_amount ons acc = map_of (map (\<lambda>(e, a). (payee_order e, a)) ons) (payee_order acc)"

definition paid_account :: "(WeightedEntitlement \<times> u64) list \<Rightarrow> PayoutPolicyAccount \<Rightarrow> PayoutPolicyAccount" where
  "paid_account ons acc = (case paid_amount ons acc of None \<Rightarrow> acc | Some a \<Rightarrow> pay a acc)"

lemma paid_amount_Cons:
  "paid_amount ((e, a) # ons) acc = (if payee_order acc = payee_order e then Some a else paid_amount ons acc)"
  by (simp add: paid_amount_def)

lemma payable_Cons: "payable floor accs ((e, a) # ons) \<longleftrightarrow>
  payee_order e \<notin> (\<lambda>x. payee_order (fst x)) ` set ons \<and> floor \<le> a \<and>
  (\<exists>acc\<in>set accs. payee_order acc = payee_order e \<and> int a \<le> candidate_balance_sats acc) \<and> payable floor accs ons"
  by (auto simp: payable_def)

lemma payable_map:
  assumes "\<And>y. payee_order (f y) = payee_order y" "\<And>y. candidate_balance_sats (f y) = candidate_balance_sats y"
  shows "payable floor (map f accs) ons = payable floor accs ons"
  by (simp add: payable_def assms)

lemma paid_amount_None: "payee_order acc \<notin> (\<lambda>x. payee_order (fst x)) ` set ons \<Longrightarrow> paid_amount ons acc = None"
  by (force simp: paid_amount_def map_of_eq_None_iff)

lemma record_payments_run:
  assumes "payable floor accs ons" "distinct (map payee_order accs)"
    "\<forall>acc\<in>set accs. fits_signed 128 (candidate_balance_sats acc)"
  shows "rfold (record_payment V floor) accs ons = Inr (map (paid_account ons) accs)"
  using assms
proof (induction ons arbitrary: accs)
  case Nil
  then show ?case by (simp add: paid_account_def paid_amount_def)
next
  case (Cons x ons)
  obtain e a where x: "x = (e, a)" by fastforce
  let ?f = "\<lambda>y. if payee_order y = payee_order e then pay a y else y"
  have new: "payee_order e \<notin> (\<lambda>x. payee_order (fst x)) ` set ons" and rest: "payable floor accs ons"
    using Cons.prems(1) unfolding x payable_Cons by blast+
  have same: "payee_order (?f y) = payee_order y" "candidate_balance_sats (?f y) = candidate_balance_sats y" for y
    by simp_all
  have "payable floor (map ?f accs) ons" 
    using rest payable_map[of ?f floor accs ons] same by simp
  moreover have "distinct (map payee_order (map ?f accs))" using Cons.prems(2) by (simp add: comp_def same)
  ultimately have "rfold (record_payment V floor) (map ?f accs) ons = Inr (map (paid_account ons) (map ?f accs))"
    using Cons.prems(3) by (intro Cons.IH) (auto simp: same)
  moreover have "record_payment V floor accs (e, a) = Inr (map ?f accs)"
    using Cons.prems unfolding x payable_Cons by (blast intro: record_payment_run)
  moreover have "paid_account ons (?f y) = paid_account (x # ons) y" for y
    using new paid_amount_None[of "pay a y" ons] by (simp add: paid_account_def x paid_amount_Cons)
  ultimately show ?case by (simp add: x)
qed

lemma paid_total:
  assumes "payable floor accs ons" "distinct (map payee_order accs)"
  shows "sum_list (map (\<lambda>acc. case paid_amount ons acc of None \<Rightarrow> 0 | Some a \<Rightarrow> a) accs) = sum_list (map snd ons)"
  using assms(1)
proof (induction ons)
  case Nil
  then show ?case by (simp add: paid_amount_def)
next
  case (Cons x ons)
  obtain e a where x: "x = (e, a)" by fastforce
  let ?amt = "\<lambda>ons acc. case paid_amount ons acc of None \<Rightarrow> 0 | Some a \<Rightarrow> a"
  from Cons.prems obtain acc where acc: "acc \<in> set accs" "payee_order acc = payee_order e"
    and new: "payee_order e \<notin> (\<lambda>x. payee_order (fst x)) ` set ons" and rest: "payable floor accs ons"
    unfolding x payable_Cons by blast
  have d: "distinct accs" "inj_on payee_order (set accs)" using assms(2) by (simp_all add: distinct_map)
  have "?amt ((e, a) # ons) y = ?amt ons y" if "y \<in> set accs - {acc}" for y
    using that acc d(2) by (auto simp: paid_amount_Cons inj_on_def)
  then have "sum (?amt ((e, a) # ons)) (set accs - {acc}) = sum (?amt ons) (set accs - {acc})"
    by (rule sum.cong[OF refl])
  moreover have "?amt ons acc = 0" using new acc(2) paid_amount_None[of acc ons] by simp
  moreover have "?amt ((e, a) # ons) acc = a" using acc(2) by (simp add: paid_amount_Cons)
  ultimately have "sum (?amt ((e, a) # ons)) (set accs) = a + sum (?amt ons) (set accs)"
    using sum.remove[OF finite_set acc(1), of "?amt ((e, a) # ons)"] sum.remove[OF finite_set acc(1), of "?amt ons"] by simp
  then show ?case
    using Cons.IH[OF rest] by (simp add: x sum_list_distinct_conv_sum_set[OF d(1)])
qed

section \<open>The whole policy: lemmas\<close>

lemma pool_fee_manifest_Some:
  assumes "pool_fee_manifest V policy = Inr (Some f)"
  shows "pf_amount_sats f = earned_pool_fee_sats f" "swept_dust_liability_sats f = 0"
    "earned_pool_fee_sats f \<le> V"
proof -
  have fp: "fee_bps f \<le> 10000" and "earned_pool_fee_sats f = V * fee_bps f div 10000"
    and "pf_amount_sats f = earned_pool_fee_sats f" "swept_dust_liability_sats f = 0"
    using assms by (auto simp: pool_fee_manifest_def res_simps checked_simps split: option.splits)
  moreover have "V * fee_bps f div 10000 \<le> V * 10000 div 10000"
    by (rule div_le_mono) (simp add: fp)
  ultimately show "pf_amount_sats f = earned_pool_fee_sats f" "swept_dust_liability_sats f = 0"
    "earned_pool_fee_sats f \<le> V" by simp_all
qed

lemma add_swept_dust_Inr:
  assumes "add_swept_dust_to_pool_fee fee swept = Inr fee'"
  shows "fee = None \<Longrightarrow> fee' = None \<and> swept = 0"
    "fee = Some f \<Longrightarrow> pf_amount_sats f = earned_pool_fee_sats f \<Longrightarrow> swept_dust_liability_sats f = 0 \<Longrightarrow>
      \<exists>f'. fee' = Some f' \<and> payee_order f' = payee_order f \<and> earned_pool_fee_sats f' = earned_pool_fee_sats f \<and>
        swept_dust_liability_sats f' = swept \<and> pf_amount_sats f' = earned_pool_fee_sats f + swept"
  using assms
  by (auto simp: add_swept_dust_to_pool_fee_def res_simps checked_simps payee_order_def split: if_splits)

lemma sum_weights_fold:
  "s + sum_list (map weight es) < 2 ^ 64 \<Longrightarrow>
   rfold (\<lambda>sum e. rbind (ok_or (try_from 64 (weight e)) PayoutPolicyOverflow) (\<lambda>w.
       ok_or (checked_add 64 sum w) PayoutPolicyOverflow)) s es = Inr (s + sum_list (map weight es))"
proof (induction es arbitrary: s)
  case (Cons e es)
  then show ?case using Cons.IH[of "s + weight e"]
    by (simp add: try_from_def[of 64 "weight e"] checked_add_def[of 64 s "weight e"] add.assoc)
qed simp

lemma onchain_weights_sum: "sum_list (map weight (onchain_weights accs)) = sum_list (map onchain_amount_sats accs)"
  by (induction accs) (simp_all add: onchain_weights_def)

lemma sum_weights_u64_ok:
  "sum_list (map onchain_amount_sats accs) < 2 ^ 64 \<Longrightarrow>
   sum_weights_u64 (onchain_weights accs) = Inr (sum_list (map onchain_amount_sats accs))"
  using sum_weights_fold[of 0 "onchain_weights accs"] by (simp add: sum_weights_u64_def onchain_weights_sum)

lemma paid_onchain:
  "\<forall>acc\<in>set accs. fresh_account acc \<Longrightarrow> map onchain_amount_sats (map (paid_account ons) accs) =
     map (\<lambda>acc. case paid_amount ons acc of None \<Rightarrow> 0 | Some a \<Rightarrow> a) accs"
  by (auto simp: paid_account_def fresh_account_def split: option.splits)

text \<open>
  The state of a run once its accounts and amounts are known: what the accounts, the fee and
  the amounts satisfy. The later steps rely on nothing else.
\<close>

definition policy_state ::
  "u64 \<Rightarrow> u64 \<Rightarrow> CarryForwardBalance list \<Rightarrow> string set \<Rightarrow> PayoutPolicyAccount list \<Rightarrow>
     PoolFeeManifest option \<Rightarrow> (WeightedEntitlement \<times> u64) list \<Rightarrow> bool" where
  "policy_state V floor bs seen accs fee ons \<longleftrightarrow>
     distinct (map program_of accs) \<and> seen = program_of ` set accs \<and> (\<forall>acc\<in>set accs. fresh_account acc) \<and>
     sum_list (map prior_balance_sats accs) = sum_list (map balance_sats bs) \<and>
     (\<forall>acc\<in>set accs. prior_balance_sats acc = balance_for bs (program_of acc)) \<and>
     program_of ` set bs \<subseteq> seen \<and> payable floor accs ons \<and>
     (case fee of
        None \<Rightarrow> sum_list (map gross_amount_sats accs) = V \<and> sum_list (map snd ons) = V
      | Some f \<Rightarrow> pf_amount_sats f = earned_pool_fee_sats f + swept_dust_liability_sats f \<and>
          sum_list (map gross_amount_sats accs) + earned_pool_fee_sats f = V \<and>
          sum_list (map snd ons) + pf_amount_sats f = V)"

lemma policy_state_reached:
  assumes V: "V < 2 ^ 64" and fee: "pool_fee_manifest V policy = Inr fee"
    and R: "checked_sub V (case fee of Some f \<Rightarrow> pf_amount_sats f | None \<Rightarrow> 0) = Some R"
    and accs: "policy_accounts R es bs = Inr (seen, accs)"
    and ons: "policy_onchain fee R F accs = Inr (fee', ons)"
  shows "policy_state V F bs seen accs fee' ons"
proof -
  have "R < 2 ^ 64" using R V by (simp add: checked_simps)
  note a = policy_accounts_Inr[OF accs this] and o = policy_onchain_Inr[OF ons this]
  note o = o[OF a(1,3)]
  obtain swept where swept: "add_swept_dust_to_pool_fee fee swept = Inr fee'" "sum_list (map snd ons) + swept = R"
    using o(2) by blast
  show ?thesis
  proof (cases fee)
    case None
    then have "fee' = None" "swept = 0" "R = V"
      using add_swept_dust_Inr(1)[OF swept(1)] R by (simp_all add: checked_simps)
    then show ?thesis using a o(1) swept by (simp add: policy_state_def)
  next
    case (Some f)
    note f = pool_fee_manifest_Some[OF fee[unfolded Some]]
    obtain f' where "fee' = Some f'" "earned_pool_fee_sats f' = earned_pool_fee_sats f"
      "swept_dust_liability_sats f' = swept" "pf_amount_sats f' = earned_pool_fee_sats f + swept"
      using add_swept_dust_Inr(2)[OF swept(1) Some f(1,2)] by blast
    then show ?thesis
      using a o(1) swept(2) R f Some by (simp add: policy_state_def checked_simps)
  qed
qed

definition settled_accounts ::
  "PayoutPolicyAccount list \<Rightarrow> PoolFeeManifest option \<Rightarrow> (WeightedEntitlement \<times> u64) list \<Rightarrow>
     PayoutPolicyAccount list" where
  "settled_accounts accs fee ons = map (paid_account ons) accs @
     (case fee of None \<Rightarrow> [] | Some f \<Rightarrow> [pool_fee_account f])"

lemma settled_onchain_sum:
  assumes "policy_state V F bs seen accs fee ons"
  shows "sum_list (map onchain_amount_sats (settled_accounts accs fee ons)) = V"
proof -
  have "sum_list (map onchain_amount_sats (map (paid_account ons) accs)) = sum_list (map snd ons)"
  proof -
    have st: "distinct (map payee_order accs)" "payable F accs ons" "\<forall>acc\<in>set accs. fresh_account acc"
      using assms distinct_payees unfolding policy_state_def by blast+
    show ?thesis unfolding paid_onchain[OF st(3)] by (rule paid_total[OF st(2,1)])
  qed
  then show ?thesis
    using assms by (auto simp: settled_accounts_def policy_state_def pool_fee_account_def split: option.splits)
qed

lemma policy_later_steps:
  assumes V: "V < 2 ^ 64" and st: "policy_state V F bs seen accs fee ons"
  shows "rfold (record_payment V F) accs ons = Inr (map (paid_account ons) accs)"
    "add_pool_fee_account fee seen (map (paid_account ons) accs) = Inr all \<longleftrightarrow>
       all = settled_accounts accs fee ons \<and> (\<forall>f. fee = Some f \<longrightarrow> program_of f \<notin> seen)"
    "sum_weights_u64 (onchain_weights (settled_accounts accs fee ons)) = Inr V"
proof -
  show "rfold (record_payment V F) accs ons = Inr (map (paid_account ons) accs)"
    using st by (intro record_payments_run) (auto simp: policy_state_def distinct_payees fresh_account_fits)
  show "add_pool_fee_account fee seen (map (paid_account ons) accs) = Inr all \<longleftrightarrow>
       all = settled_accounts accs fee ons \<and> (\<forall>f. fee = Some f \<longrightarrow> program_of f \<notin> seen)"
    by (auto simp: add_pool_fee_account_def settled_accounts_def split: option.splits if_splits)
  show "sum_weights_u64 (onchain_weights (settled_accounts accs fee ons)) = Inr V"
    using sum_weights_u64_ok[of "settled_accounts accs fee ons"] V by (simp add: settled_onchain_sum[OF st])
qed

lemma apply_payout_policy_Inr:
  assumes "apply_payout_policy rm bs policy = Inr m" and V: "rm_coinbase_value_sats rm < 2 ^ 64"
  obtains seen accs ons where "policy_state (rm_coinbase_value_sats rm) (pp_min_output_sats m) bs seen accs (pool_fee m) ons"
    "accounts m = sort_key payee_order (settled_accounts accs (pool_fee m) ons)"
    "onchain_entitlements m = onchain_weights (settled_accounts accs (pool_fee m) ons)"
    "\<forall>f. pool_fee m = Some f \<longrightarrow> program_of f \<notin> seen"
    "pp_coinbase_value_sats m = rm_coinbase_value_sats rm"
    "pp_coinbase_output_policy m = coinbase_output_policy policy" "pp_block_height m = rm_block_height rm"
proof -
  let ?V = "rm_coinbase_value_sats rm"
  from assms(1) obtain F fee R seen accs fee' ons where F: "min_output_sats policy = Inr F"
    and fee: "pool_fee_manifest ?V policy = Inr fee"
    and R: "checked_sub ?V (case fee of Some f \<Rightarrow> pf_amount_sats f | None \<Rightarrow> 0) = Some R"
    and accs: "policy_accounts R (rm_entitlements rm) bs = Inr (seen, accs)"
    and ons: "policy_onchain fee R F accs = Inr (fee', ons)"
    and rest: "rbind (rfold (record_payment ?V F) accs ons) (\<lambda>paid.
         rbind (add_pool_fee_account fee' seen paid) (\<lambda>all_accounts.
         rbind (sum_weights_u64 (onchain_weights all_accounts)) (\<lambda>onchain_sum.
         if onchain_sum \<noteq> ?V then Inl PayoutPolicyOverflow
         else
           Inr (policy_manifest rm policy F fee' all_accounts)))) = Inr m"
    unfolding apply_payout_policy_def rbind_Inr Let_def if_Inl_Inr ok_or_Inr split_paired_Ex split_conv by blast
  have st: "policy_state ?V F bs seen accs fee' ons" by (rule policy_state_reached[OF V fee R accs ons])
  note late = policy_later_steps[OF V st]
  show thesis
    by (rule that[of seen accs ons])
      (use rest st late in \<open>auto simp: rbind_Inr if_Inl_Inr policy_manifest_def\<close>)
qed

lemma settled_account_cases:
  assumes "acc \<in> set (settled_accounts accs fee ons)"
  shows "(\<exists>x\<in>set accs. paid_amount ons x = None \<and> acc = x) \<or>
    (\<exists>x\<in>set accs. \<exists>a. paid_amount ons x = Some a \<and> acc = pay a x) \<or>
    (\<exists>f. fee = Some f \<and> acc = pool_fee_account f)"
proof -
  have "(\<exists>x\<in>set accs. acc = paid_account ons x) \<or> (\<exists>f. fee = Some f \<and> acc = pool_fee_account f)"
    using assms by (auto simp: settled_accounts_def split: option.splits)
  moreover have "paid_amount ons x = None \<and> paid_account ons x = x \<or>
      (\<exists>a. paid_amount ons x = Some a \<and> paid_account ons x = pay a x)" for x
    by (simp add: paid_account_def split: option.split)
  ultimately show ?thesis by metis
qed

lemma paid_amount_bounds:
  assumes "payable F accs ons" "distinct (map payee_order accs)" "x \<in> set accs" "paid_amount ons x = Some a"
  shows "F \<le> a" "int a \<le> candidate_balance_sats x"
proof -
  from assms(4) obtain e where e: "(e, a) \<in> set ons" "payee_order e = payee_order x"
    unfolding paid_amount_def by (auto dest!: map_of_SomeD)
  with assms(1) obtain acc where acc: "acc \<in> set accs" "payee_order acc = payee_order x"
    "int a \<le> candidate_balance_sats acc" and "F \<le> a" by (auto simp: payable_def)
  moreover have "acc = x" using acc(1,2) assms(2,3) by (auto simp: distinct_map inj_on_def)
  ultimately show "F \<le> a" "int a \<le> candidate_balance_sats x" by simp_all
qed

text \<open>What every account of a manifest satisfies.\<close>

definition account_ok :: "u64 \<Rightarrow> PayoutPolicyAccount \<Rightarrow> bool" where
  "account_ok floor acc \<longleftrightarrow>
     candidate_balance_sats acc = prior_balance_sats acc + int (gross_amount_sats acc) \<and>
     carry_forward_balance_sats acc = candidate_balance_sats acc - int (onchain_amount_sats acc) \<and>
     settlement_fee_sats acc = 0 \<and>
     (case action acc of
        Accrued \<Rightarrow> account_type acc = Miner \<and> onchain_amount_sats acc = 0
      | Onchain \<Rightarrow> int (onchain_amount_sats acc) \<le> candidate_balance_sats acc \<and>
          (account_type acc = Miner \<longrightarrow> floor \<le> onchain_amount_sats acc))"

lemma settled_account_ok:
  assumes "policy_state V F bs seen accs fee ons" "acc \<in> set (settled_accounts accs fee ons)"
  shows "account_ok F acc"
proof -
  have st: "distinct (map payee_order accs)" "payable F accs ons" "\<forall>acc\<in>set accs. fresh_account acc"
    using assms(1) distinct_payees unfolding policy_state_def by blast+
  from settled_account_cases[OF assms(2)] show ?thesis
  proof (elim disjE bexE exE conjE)
    fix x assume x: "x \<in> set accs" "acc = x"
    with st(3) show ?thesis by (simp add: account_ok_def fresh_account_def)
  next
    fix x a assume x: "x \<in> set accs" "paid_amount ons x = Some a" "acc = pay a x"
    with st(3) paid_amount_bounds[OF st(2,1) x(1,2)] show ?thesis
      by (simp add: account_ok_def fresh_account_def)
  next
    fix f assume "acc = pool_fee_account f"
    then show ?thesis by (simp add: account_ok_def pool_fee_account_def)
  qed
qed

lemma sum_list_sort_key_int: "sum_list (map f (sort_key k xs)) = (sum_list (map f xs) :: int)"
  by (metis mset_map mset_sort sum_mset_sum_list)

lemma carry_sum:
  "\<forall>acc\<in>set xs. account_ok F acc \<Longrightarrow> sum_list (map carry_forward_balance_sats xs) =
     sum_list (map prior_balance_sats xs) + int (sum_list (map gross_amount_sats xs)) -
     int (sum_list (map onchain_amount_sats xs))"
  by (induction xs) (auto simp: account_ok_def)

lemma paid_account_simps [simp]:
  "gross_amount_sats (paid_account ons x) = gross_amount_sats x"
  "prior_balance_sats (paid_account ons x) = prior_balance_sats x"
  "p2mr_program_hex (paid_account ons x) = p2mr_program_hex x"
  by (simp_all add: paid_account_def split: option.split)

lemma settled_sums:
  "sum_list (map gross_amount_sats (settled_accounts accs fee ons)) = sum_list (map gross_amount_sats accs) +
     (case fee of None \<Rightarrow> 0 | Some f \<Rightarrow> pf_amount_sats f)"
  "sum_list (map prior_balance_sats (settled_accounts accs fee ons)) = sum_list (map prior_balance_sats accs)"
  by (simp_all add: settled_accounts_def comp_def pool_fee_account_def split: option.split)

section \<open>Errors: lemmas\<close>

lemma rfold_error: "rfold f s xs = Inl e \<Longrightarrow> \<exists>s' x. x \<in> set xs \<and> f s' x = Inl e"
proof (induction xs arbitrary: s)
  case (Cons x xs)
  then show ?case by (cases "f s x") force+
qed simp

lemma rmap_error: "rmap f xs = Inl e \<Longrightarrow> \<exists>x\<in>set xs. f x = Inl e"
  by (induction xs) (auto simp: rbind_Inl)

lemma bt_accumulate_error: "bt_accumulate key step xs = Inl e \<Longrightarrow> \<exists>v x. step v x = Inl e"
  unfolding bt_accumulate_def by (drule rfold_error) (auto simp: rbind_Inl)

lemma bump_at_error: "bump_at err get put is ps = Inl e \<Longrightarrow> e = err"
  unfolding bump_at_def by (drule rfold_error) (auto simp: rbind_Inl ok_or_Inl)

lemma allocate_weighted_amounts_error: "allocate_weighted_amounts T es = Inl e \<Longrightarrow> e = PayoutPolicyOverflow"
  by (auto simp: allocate_weighted_amounts_def provisional_amount_def Let_def rbind_Inl ok_or_Inl
      split: if_splits dest!: try_sum_Inl rmap_error bump_at_error)

lemma min_output_sats_error: "min_output_sats policy = Inl e \<Longrightarrow> e = InvalidMinOutputFloor \<or> e = PayoutPolicyOverflow"
  by (auto simp: min_output_sats_def ok_or_Inl split: option.splits if_splits)

lemma pool_fee_manifest_error:
  "pool_fee_manifest V policy = Inl e \<Longrightarrow> e = PayoutPolicyOverflow \<or> (\<exists>b>10000. e = PoolFeeBpsTooHigh b)"
  by (auto simp: pool_fee_manifest_def rbind_Inl ok_or_Inl split: option.splits if_splits)

lemma policy_accounts_error: "policy_accounts R es bs = Inl e \<Longrightarrow> e = PayoutPolicyOverflow"
  by (auto simp: policy_accounts_def aggregate_entitlements_by_payout_program_def
      carry_forward_by_payout_program_def seed_account_def program_weight_step_def
      program_balance_step_def Let_def rbind_Inl ok_or_Inl split_beta
      dest!: allocate_weighted_amounts_error bt_accumulate_error rmap_error)

lemma selected_candidate_balance_sum_error:
  "selected_candidate_balance_sum accs sel = Inl e \<Longrightarrow> e = PayoutPolicyOverflow"
  unfolding selected_candidate_balance_sum_def by (drule rfold_error) (auto simp: rbind_Inl ok_or_Inl)

lemma select_loop_error:
  "select_loop accs V F sel = Inl e \<Longrightarrow>
     e = NoOnchainRecipients \<or> e = PayoutPolicyOverflow \<or> (\<exists>b<V. e = PayoutExceedsCandidateBalance V b)"
proof (induction accs V F sel rule: select_loop.induct)
  case (1 accs V F sel)
  then show ?case
    unfolding select_loop.simps[of accs V F sel]
    by (auto simp: rbind_Inl split: if_splits
        dest!: selected_candidate_balance_sum_error allocate_weighted_amounts_error)
qed

lemma policy_onchain_error:
  "policy_onchain fee R F accs = Inl e \<Longrightarrow>
     e = NoOnchainRecipients \<or> e = PayoutPolicyOverflow \<or> (\<exists>b<R. e = PayoutExceedsCandidateBalance R b)"
  by (auto simp: policy_onchain_def add_swept_dust_to_pool_fee_def full_payment_def select_onchain_accounts_def
      Let_def rbind_Inl ok_or_Inl split: if_splits
      dest!: selected_candidate_balance_sum_error rmap_error select_loop_error allocate_weighted_amounts_error)

text \<open>Once the amounts are selected, the only error left is a pool account that is also a miner's.\<close>

lemma policy_late_error:
  assumes V: "V < 2 ^ 64" and fee: "pool_fee_manifest V policy = Inr fee"
    and R: "checked_sub V (case fee of Some f \<Rightarrow> pf_amount_sats f | None \<Rightarrow> 0) = Some R"
    and accs: "policy_accounts R es bs = Inr (seen, accs)"
    and ons: "policy_onchain fee R F accs = Inr (fee', ons)"
    and run: "rbind (rfold (record_payment V F) accs ons) (\<lambda>paid.
         rbind (add_pool_fee_account fee' seen paid) (\<lambda>all_accounts.
         rbind (sum_weights_u64 (onchain_weights all_accounts)) (\<lambda>onchain_sum.
         if onchain_sum \<noteq> V then Inl PayoutPolicyOverflow else Inr (m all_accounts)))) = Inl e"
  shows "e = DuplicatePoolFeeAccount"
proof -
  have st: "policy_state V F bs seen accs fee' ons" by (rule policy_state_reached[OF V fee R accs ons])
  note steps = policy_later_steps[OF V st]
  show ?thesis
  proof (cases "add_pool_fee_account fee' seen (map (paid_account ons) accs)")
    case (Inl e')
    then have "e = e'" using run steps(1) by simp
    with Inl show ?thesis by (simp add: add_pool_fee_account_def split: option.splits if_splits)
  next
    case (Inr all)
    then have "all = settled_accounts accs fee' ons" using steps(2) by simp
    with Inr run steps(1,3) show ?thesis by simp
  qed
qed

section \<open>Properties\<close>

text \<open>A block of 1000 over three miners, one of whom is below the floor of 100, and a fee of one percent.\<close>

definition demo_payee :: "string \<Rightarrow> string \<Rightarrow> payee" where
  "demo_payee name byte = \<lparr> recipient_id = name, order_key = name, p2mr_program_hex = byte \<rparr>"

definition demo_weight :: "string \<Rightarrow> string \<Rightarrow> nat \<Rightarrow> WeightedEntitlement" where
  "demo_weight name byte w = payee.extend (demo_payee name byte) (WeightedEntitlement.fields w)"

definition demo_balance :: "string \<Rightarrow> string \<Rightarrow> int \<Rightarrow> CarryForwardBalance" where
  "demo_balance name byte b = payee.extend (demo_payee name byte) (CarryForwardBalance.fields b)"

definition demo_manifest :: "nat \<Rightarrow> WeightedEntitlement list \<Rightarrow> PrismRewardManifest" where
  "demo_manifest value es = (reward_manifest demo_block None
     \<lparr> w_anchor_job_issued_at_ms = 40, w_anchor_share_seq = 3, w_requested_window_weight = 16,
       w_counted_window_weight = 16, w_shares = [counted_share (demo_share 3 ''ann'' 5 30) 5],
       w_entitlements = es \<rparr> ''00'') \<lparr> rm_coinbase_value_sats := value \<rparr>"

definition demo_policy :: "nat \<Rightarrow> PoolFeePolicy option \<Rightarrow> PayoutPolicy" where
  "demo_policy floor fee = day_one_default \<lparr> configured_min_output_sats := Some floor, pool_fee_policy := fee \<rparr>"

definition demo_fee :: PoolFeePolicy where
  "demo_fee = payee.extend (demo_payee ''pool'' ''ff'') (PoolFeePolicy.fields 100)"

definition demo_rewards :: PrismRewardManifest where
  "demo_rewards = demo_manifest 1000 [demo_weight ''ann'' ''a1'' 50, demo_weight ''bob'' ''b2'' 46, demo_weight ''cat'' ''c3'' 4]"

definition demo_balances :: "CarryForwardBalance list" where
  "demo_balances = [demo_balance ''cat'' ''C3'' 30, demo_balance ''dan'' ''d4'' 20]"

lemma demo_policy_ok: "is_ok (apply_payout_policy demo_rewards demo_balances (demo_policy 100 (Some demo_fee)))"
  by code_simp

text \<open>C3. The policy pays exactly the coinbase value and keeps every account balanced: the on-chain
  amounts of the accounts add up to the coinbase value, and for every account the candidate
  balance is prior balance plus gross amount, the carried balance is what is left after the
  on-chain amount, a miner that is paid gets at least the floor and at most its candidate
  balance, and an accruing account is paid nothing.\<close>

theorem policy_pays_exactly:
  assumes "apply_payout_policy rm bs policy = Inr m" and "rm_coinbase_value_sats rm < 2 ^ 64"
  shows "sum_list (map onchain_amount_sats (accounts m)) = rm_coinbase_value_sats rm \<and>
    (\<forall>acc\<in>set (accounts m). account_ok (pp_min_output_sats m) acc)"
proof -
  obtain seen accs ons where
    st: "policy_state (rm_coinbase_value_sats rm) (pp_min_output_sats m) bs seen accs (pool_fee m) ons"
    and accs: "accounts m = sort_key payee_order (settled_accounts accs (pool_fee m) ons)"
    by (rule apply_payout_policy_Inr[OF assms])
  show ?thesis
    using settled_onchain_sum[OF st] settled_account_ok[OF st] by (simp add: accs sum_list_sort_key)
qed

theorem policy_pays_exactly_witness:
  "\<exists>m. apply_payout_policy demo_rewards demo_balances (demo_policy 100 (Some demo_fee)) = Inr m \<and>
     sum_list (map onchain_amount_sats (accounts m)) = 1000"
proof -
  obtain m where m: "apply_payout_policy demo_rewards demo_balances (demo_policy 100 (Some demo_fee)) = Inr m"
    using demo_policy_ok by (auto simp: is_ok_iff)
  have "rm_coinbase_value_sats demo_rewards = 1000" by code_simp
  with policy_pays_exactly[OF m] m show ?thesis by simp
qed

text \<open>C32. Nothing is lost between blocks: the balances carried out of a block are the balances carried
  into it plus the dust the pool fee took over, whether or not a fee is configured (without one
  no dust is swept), and the fee's payment is its earned part plus that dust.\<close>

theorem policy_conserves_balances:
  assumes "apply_payout_policy rm bs policy = Inr m" and "rm_coinbase_value_sats rm < 2 ^ 64"
  shows "sum_list (map carry_forward_balance_sats (accounts m)) = sum_list (map balance_sats bs) +
      (case pool_fee m of None \<Rightarrow> 0 | Some f \<Rightarrow> int (swept_dust_liability_sats f)) \<and>
    (\<forall>f. pool_fee m = Some f \<longrightarrow> pf_amount_sats f = earned_pool_fee_sats f + swept_dust_liability_sats f)"
proof -
  obtain seen accs ons where
    st: "policy_state (rm_coinbase_value_sats rm) (pp_min_output_sats m) bs seen accs (pool_fee m) ons"
    and accs: "accounts m = sort_key payee_order (settled_accounts accs (pool_fee m) ons)"
    by (rule apply_payout_policy_Inr[OF assms])
  have "sum_list (map carry_forward_balance_sats (settled_accounts accs (pool_fee m) ons)) =
    sum_list (map prior_balance_sats accs) + int (sum_list (map gross_amount_sats accs) +
      (case pool_fee m of None \<Rightarrow> 0 | Some f \<Rightarrow> pf_amount_sats f)) - int (rm_coinbase_value_sats rm)"
    using carry_sum[of "settled_accounts accs (pool_fee m) ons" "pp_min_output_sats m"] settled_account_ok[OF st]
    by (simp add: settled_sums settled_onchain_sum[OF st])
  then show ?thesis
    using st by (auto simp: accs sum_list_sort_key_int policy_state_def split: option.splits)
qed

theorem policy_conserves_balances_witness:
  "\<exists>m f. apply_payout_policy demo_rewards demo_balances (demo_policy 100 (Some demo_fee)) = Inr m \<and>
     pool_fee m = Some f \<and>
     sum_list (map carry_forward_balance_sats (accounts m)) = 50 + int (swept_dust_liability_sats f)"
proof -
  obtain m where m: "apply_payout_policy demo_rewards demo_balances (demo_policy 100 (Some demo_fee)) = Inr m"
    using demo_policy_ok by (auto simp: is_ok_iff)
  have "rm_coinbase_value_sats demo_rewards = 1000" "sum_list (map balance_sats demo_balances) = 50" by code_simp+
  moreover have "map_option (\<lambda>m. pool_fee m \<noteq> None)
      (case apply_payout_policy demo_rewards demo_balances (demo_policy 100 (Some demo_fee)) of
         Inl e \<Rightarrow> None | Inr m \<Rightarrow> Some m) = Some True" by code_simp
  ultimately show ?thesis using policy_conserves_balances[OF m] m by (auto split: option.splits)
qed

text \<open>One account per payout program: no two accounts of a manifest share a program, letter case
  aside, the pool's account included, and the on-chain entitlements are the accounts that are
  paid a positive amount, with that amount as weight.\<close>

lemma policy_one_account_per_program:
  assumes "apply_payout_policy rm bs policy = Inr m" and "rm_coinbase_value_sats rm < 2 ^ 64"
  shows "distinct (map program_of (accounts m)) \<and>
    mset (map (\<lambda>e. (payee_order e, weight e)) (onchain_entitlements m)) =
    mset (map (\<lambda>acc. (payee_order acc, onchain_amount_sats acc))
      (filter (\<lambda>acc. 0 < onchain_amount_sats acc) (accounts m)))"
proof -
  obtain seen accs ons where
    st: "policy_state (rm_coinbase_value_sats rm) (pp_min_output_sats m) bs seen accs (pool_fee m) ons"
    and accs: "accounts m = sort_key payee_order (settled_accounts accs (pool_fee m) ons)"
    and on: "onchain_entitlements m = onchain_weights (settled_accounts accs (pool_fee m) ons)"
    and fee: "\<forall>f. pool_fee m = Some f \<longrightarrow> program_of f \<notin> seen"
    by (rule apply_payout_policy_Inr[OF assms])
  have "map program_of (settled_accounts accs (pool_fee m) ons) = map program_of accs @
      (case pool_fee m of None \<Rightarrow> [] | Some f \<Rightarrow> [program_of f])"
    by (simp add: settled_accounts_def pool_fee_account_def comp_def split: option.split)
  then have "distinct (map program_of (accounts m))"
    using st fee unfolding accs distinct_map_sort_key by (auto simp: policy_state_def split: option.splits)
  moreover have "map (\<lambda>e. (payee_order e, weight e)) (onchain_weights xs) =
      map (\<lambda>acc. (payee_order acc, onchain_amount_sats acc)) (filter (\<lambda>acc. 0 < onchain_amount_sats acc) xs)" for xs
    by (simp add: onchain_weights_def payee_order_def)
  ultimately show ?thesis by (simp add: on accs filter_sort)
qed

text \<open>C36. Which errors the policy can return. In particular it never panics on a missing account, never
  reports an amount below the floor, and reports a payout above the candidate balances only
  when the selected balances are below the miners' reward.\<close>

theorem policy_errors:
  assumes "apply_payout_policy rm bs policy = Inl e" and "rm_coinbase_value_sats rm < 2 ^ 64"
  shows "e \<in> {InvalidMinOutputFloor, PayoutPolicyOverflow, PoolFeeFirstRequiresPoolFee,
      NoOnchainRecipients, DuplicatePoolFeeAccount} \<or>
    (\<exists>b>10000. e = PoolFeeBpsTooHigh b) \<or> (\<exists>R F. R < F \<and> e = CoinbaseBelowFloor R F) \<or>
    (\<exists>R b. b < R \<and> e = PayoutExceedsCandidateBalance R b)"
proof -
  let ?V = "rm_coinbase_value_sats rm"
  note def = assms(1)[unfolded apply_payout_policy_def Let_def]
  show ?thesis
  proof (cases "min_output_sats policy")
    case (Inl e')
    with def min_output_sats_error[OF Inl] show ?thesis by auto
  next
    case F: (Inr F)
    show ?thesis
    proof (cases "pool_fee_manifest ?V policy")
      case (Inl e')
      with def F pool_fee_manifest_error[OF Inl] show ?thesis by auto
    next
      case fee: (Inr fee)
      show ?thesis
      proof (cases "checked_sub ?V (case fee of Some f \<Rightarrow> pf_amount_sats f | None \<Rightarrow> 0)")
        case None
        with def F fee show ?thesis by (auto split: if_splits)
      next
        case R: (Some R)
        show ?thesis
        proof (cases "policy_accounts R (rm_entitlements rm) bs")
          case (Inl e')
          with def F fee R policy_accounts_error[OF Inl] show ?thesis by (auto split: if_splits)
        next
          case (Inr sa)
          then obtain seen accs where accs: "policy_accounts R (rm_entitlements rm) bs = Inr (seen, accs)"
            by (cases sa) simp
          show ?thesis
          proof (cases "policy_onchain fee R F accs")
            case (Inl e')
            with def F fee R accs policy_onchain_error[OF Inl] show ?thesis by (auto split: if_splits)
          next
            case (Inr fo)
            then obtain fee' ons where ons: "policy_onchain fee R F accs = Inr (fee', ons)" by (cases fo) simp
            from def F fee R accs ons 
              policy_late_error[OF assms(2) fee R accs ons, of "policy_manifest rm policy F fee'" e]
            show ?thesis by (auto split: if_splits)
          qed
        qed
      qed
    qed
  qed
qed

theorem policy_errors_witness:
  "apply_payout_policy demo_rewards [] (demo_policy 2000 None) = Inl (CoinbaseBelowFloor 1000 2000)"
proof -
  have run: "apply_payout_policy demo_rewards [] (demo_policy 2000 None) = Inl (CoinbaseBelowFloor 1000 2000)"
    by code_simp
  have "rm_coinbase_value_sats demo_rewards < 2 ^ 64" by code_simp
  from policy_errors[OF run this] show ?thesis using run by simp
qed

text \<open>A configured pool fee does not settle all dust. With a floor of 10, a reward of 100 and a fee of
  zero basis points, ann is owed 95 and bob and cat 10 each: all three reach the floor and
  together cover the reward, but their shares of it put bob and cat below the floor, and once
  they are dropped the selection fails instead of leaving the difference to the fee.\<close>

lemma fee_leaves_dust_unsettled:
  "apply_payout_policy (demo_manifest 100 [demo_weight ''ann'' ''a1'' 95, demo_weight ''bob'' ''b2'' 5])
     [demo_balance ''bob'' ''b2'' 5, demo_balance ''cat'' ''c3'' 10]
     (demo_policy 10 (Some (demo_fee \<lparr> fee_bps := 0 \<rparr>))) =
   Inl (PayoutExceedsCandidateBalance 100 95)"
  by code_simp

end
