(* ===== verification/Maturity.thy ===== *)
theory Maturity
  imports Payout_Policy
begin

text \<open>
  The maturity ledger of payouts (\<^verbatim>\<open>build_maturity_entries\<close> to \<^verbatim>\<open>owed_balances_for_display\<close> in
  \<^verbatim>\<open>src/crates/qbit-prism/src/lib.rs\<close>). Every account of a connected block becomes an entry,
  entries mature with the chain, entries of disconnected blocks are reversed, and the
  balances that miners are owed are replayed from the entries that are not reversed. The
  relation \<open>ledger_step\<close> collects the three operations that change a ledger.
\<close>

section \<open>Entries and operations\<close>

definition QBIT_COINBASE_MATURITY_BLOCKS :: u64 where "QBIT_COINBASE_MATURITY_BLOCKS = 1000"

datatype PayoutMaturityState = Immature | Mature | Reversed

record PayoutMaturityEntry = PayoutPolicyAccount +
  me_block_hash :: string
  me_block_height :: u64
  state :: PayoutMaturityState

definition maturity_entry :: "string \<Rightarrow> u64 \<Rightarrow> PayoutPolicyAccount \<Rightarrow> PayoutMaturityEntry" where
  "maturity_entry hash height acc =
     PayoutPolicyAccount.extend acc (PayoutMaturityEntry.fields hash height Immature)"

definition build_maturity_entries ::
  "string \<Rightarrow> u64 \<Rightarrow> PayoutPolicyManifest \<Rightarrow> PayoutMaturityEntry list" where
  "build_maturity_entries hash height m = map (maturity_entry hash height) (accounts m)"

definition maturity_height :: "PayoutMaturityEntry \<Rightarrow> u64" where
  "maturity_height e = saturating_add 64 (me_block_height e) QBIT_COINBASE_MATURITY_BLOCKS"

definition update_maturity_states :: "PayoutMaturityEntry list \<Rightarrow> u64 \<Rightarrow> PayoutMaturityEntry list" where
  "update_maturity_states entries tip =
     map (\<lambda>e. if state e = Immature \<and> tip \<ge> maturity_height e then e \<lparr> state := Mature \<rparr> else e) entries"

definition reverse_entry :: "string list \<Rightarrow> u64 \<Rightarrow> PayoutMaturityEntry \<Rightarrow> PrismError + PayoutMaturityEntry" where
  "reverse_entry hashes tip e =
     (if me_block_hash e \<in> set hashes then
        (if maturity_height e \<le> tip then Inl (MaturePayoutDisconnect (me_block_hash e))
         else case state e of
             Immature \<Rightarrow> Inr (e \<lparr> state := Reversed \<rparr>)
           | Mature \<Rightarrow> Inl (MaturePayoutDisconnect (me_block_hash e))
           | Reversed \<Rightarrow> Inr e)
      else Inr e)"

definition reverse_disconnected_blocks ::
  "PayoutMaturityEntry list \<Rightarrow> string list \<Rightarrow> u64 \<Rightarrow> PrismError + PayoutMaturityEntry list" where
  "reverse_disconnected_blocks entries hashes tip = rmap (reverse_entry hashes tip) entries"

text \<open>The replay loop; its \<^verbatim>\<open>expect\<close>s are the two panics.\<close>

definition replay_step ::
  "CarryForwardBalance option \<Rightarrow> PayoutMaturityEntry \<Rightarrow> PrismError + CarryForwardBalance" where
  "replay_step existing e =
     rbind (ok_or (checked_sub_signed 128 (int (gross_amount_sats e)) (int (onchain_amount_sats e)))
              (Panicked ''u64 on-chain amount always fits i128'')) (\<lambda>delta.
     let balance = (case existing of
           Some b \<Rightarrow> b
         | None \<Rightarrow> \<lparr> recipient_id = recipient_id e, order_key = order_key e,
                     p2mr_program_hex = p2mr_program_hex e, balance_sats = 0 \<rparr>);
         balance = (if name_order e < name_order balance
           then balance \<lparr> recipient_id := recipient_id e, order_key := order_key e \<rparr> else balance) in
     rbind (ok_or (checked_add_signed 128 (balance_sats balance) delta)
              (Panicked ''carry-forward delta replay should not overflow i128'')) (\<lambda>sats.
       Inr (balance \<lparr> balance_sats := sats \<rparr>)))"

definition active_entry :: "PayoutMaturityEntry \<Rightarrow> bool" where
  "active_entry e \<longleftrightarrow> state e \<noteq> Reversed \<and> account_type e \<noteq> PoolFee"

definition current_carry_forward_balances ::
  "PayoutMaturityEntry list \<Rightarrow> PrismError + CarryForwardBalance list" where
  "current_carry_forward_balances entries =
     rbind (bt_accumulate (\<lambda>e. payout_program_key (p2mr_program_hex e)) replay_step
              (filter active_entry entries)) (\<lambda>balances.
       Inr (filter (\<lambda>b. balance_sats b \<noteq> 0) (bt_values balances)))"

definition owed_balances_for_display ::
  "PayoutMaturityEntry list \<Rightarrow> PrismError + CarryForwardBalance list" where
  "owed_balances_for_display entries =
     rbind (current_carry_forward_balances entries) (\<lambda>bs.
       Inr (map (\<lambda>b. b \<lparr> balance_sats := max (balance_sats b) 0 \<rparr>) bs))"

section \<open>Ledgers\<close>

inductive ledger_step :: "PayoutMaturityEntry list \<Rightarrow> PayoutMaturityEntry list \<Rightarrow> bool" where
  connect: "ledger_step es (es @ build_maturity_entries hash height m)"
| advance: "ledger_step es (update_maturity_states es tip)"
| disconnect: "reverse_disconnected_blocks es hashes tip = Inr es' \<Longrightarrow> ledger_step es es'"

inductive_cases ledger_stepE: "ledger_step es es'"

text \<open>What may happen to one entry: it stays as it is, or it leaves the immature state.\<close>

definition entry_moves :: "PayoutMaturityEntry \<Rightarrow> PayoutMaturityEntry \<Rightarrow> bool" where
  "entry_moves e e' \<longleftrightarrow> e' = e \<or> (state e = Immature \<and> (\<exists>s. e' = e \<lparr> state := s \<rparr>))"

lemma entry_moves_refl [simp]: "entry_moves e e"
  by (simp add: entry_moves_def)

lemma entry_moves_trans: "entry_moves a b \<Longrightarrow> entry_moves b c \<Longrightarrow> entry_moves a c"
  by (auto simp: entry_moves_def)

lemma reverse_entry_moves: "reverse_entry hashes tip e = Inr e' \<Longrightarrow> entry_moves e e'"
  by (auto simp: reverse_entry_def entry_moves_def split: if_splits PayoutMaturityState.splits)

lemma ledger_step_moves:
  assumes "ledger_step es es'"
  shows "length es \<le> length es' \<and> (\<forall>i<length es. entry_moves (es ! i) (es' ! i))"
  using assms
proof (cases rule: ledger_step.cases)
  case (connect hash height m)
  then show ?thesis by (simp add: nth_append)
next
  case (advance tip)
  then show ?thesis by (auto simp: update_maturity_states_def entry_moves_def)
next
  case (disconnect hashes tip)
  then have "list_all2 (\<lambda>e e'. reverse_entry hashes tip e = Inr e') es es'"
    by (simp add: reverse_disconnected_blocks_def rmap_Inr)
  then show ?thesis by (auto simp: list_all2_conv_all_nth intro: reverse_entry_moves)
qed

lemma ledger_run_moves:
  "ledger_step\<^sup>*\<^sup>* es es' \<Longrightarrow> length es \<le> length es' \<and> (\<forall>i<length es. entry_moves (es ! i) (es' ! i))"
proof (induction rule: rtranclp_induct)
  case (step es' es'')
  then show ?case using ledger_step_moves[OF step.hyps(2)] by (meson entry_moves_trans le_trans less_le_trans)
qed simp

section \<open>Replay: lemmas\<close>

abbreviation entry_delta :: "PayoutMaturityEntry \<Rightarrow> int" where
  "entry_delta e \<equiv> int (gross_amount_sats e) - int (onchain_amount_sats e)"

interpretation replay: keyed_accumulator
  "\<lambda>e. payout_program_key (p2mr_program_hex e)" replay_step entry_delta balance_sats
  "\<lambda>b. payout_program_key (p2mr_program_hex b)"
  by unfold_locales (auto simp: replay_step_def Let_def res_simps checked_simps split: if_splits)

lemma sum_filter_nonzero:
  "sum_list (map f (filter P (filter (\<lambda>x. f x \<noteq> 0) xs))) = (sum_list (map f (filter P xs)) :: int)"
  by (induction xs) auto

lemma filter_distinct_key:
  "distinct (map f xs) \<Longrightarrow> b \<in> set xs \<Longrightarrow> f b = k \<Longrightarrow> filter (\<lambda>x. f x = k) xs = [b]"
proof (induction xs)
  case (Cons x xs)
  show ?case
  proof (cases "x = b")
    case True
    with Cons.prems have "filter (\<lambda>x. f x = k) xs = []" by (auto simp: filter_empty_conv image_iff)
    with True Cons.prems show ?thesis by simp
  next
    case False
    with Cons show ?thesis by (auto simp: image_iff)
  qed
qed simp

lemma current_balance_for:
  assumes "current_carry_forward_balances es = Inr bs"
  shows "balance_for bs k = sum_list (map entry_delta (filter (\<lambda>e. active_entry e \<and> program_of e = k) es))"
proof -
  obtain m where m: "bt_accumulate (\<lambda>e. program_of e) replay_step (filter active_entry es) = Inr m"
    and bs: "bs = filter (\<lambda>b. balance_sats b \<noteq> 0) (bt_values m)"
    using assms by (auto simp: current_carry_forward_balances_def res_simps)
  have o: "bt_ordered m" by (rule bt_accumulate_ordered[OF m])
  note keyed = keyed_values_distinct[where f = "\<lambda>e. program_of e", OF o replay.accumulate_vkey[OF m]]
  have "balance_for bs k = sum_list (map balance_sats (filter (\<lambda>b. program_of b = k) (bt_values m)))"
    unfolding bs balance_for_def sum_filter_nonzero ..
  also have "\<dots> = (case bt_lookup m k of None \<Rightarrow> 0 | Some b \<Rightarrow> balance_sats b)"
  proof (cases "bt_lookup m k")
    case None
    then have "k \<notin> set (map program_of (bt_values m))" using keyed(1) bt_lookup_None[of m k] by simp
    then have "filter (\<lambda>b. program_of b = k) (bt_values m) = []" by (auto simp: filter_empty_conv)
    with None show ?thesis by simp
  next
    case (Some b)
    then have b: "b \<in> set (bt_values m)" "program_of b = k"
      using bt_lookup_entry[OF o] replay.accumulate_vkey[OF m] by (force simp: bt_values_def)+
    have "filter (\<lambda>b'. program_of b' = k) (bt_values m) = [b]"
      by (rule filter_distinct_key[OF keyed(2) b])
    with Some show ?thesis by simp
  qed
  also have "\<dots> = sum_list (map entry_delta (filter (\<lambda>e. program_of e = k) (filter active_entry es)))"
  proof (cases "bt_lookup m k")
    case None
    then have "k \<notin> program_of ` set (filter active_entry es)"
      using bt_accumulate_keys[OF m] bt_lookup_None[of m k] by simp
    then have "filter (\<lambda>e. program_of e = k) (filter active_entry es) = []"
      unfolding filter_empty_conv by blast
    with None show ?thesis by (simp del: filter_filter)
  next
    case (Some b)
    then show ?thesis using replay.accumulate_entry[OF m Some] by (simp del: filter_filter)
  qed
  finally show ?thesis by (simp add: conj_commute)
qed

lemma maturity_entry_simps [simp]:
  "gross_amount_sats (maturity_entry hash height acc) = gross_amount_sats acc"
  "onchain_amount_sats (maturity_entry hash height acc) = onchain_amount_sats acc"
  "p2mr_program_hex (maturity_entry hash height acc) = p2mr_program_hex acc"
  "account_type (maturity_entry hash height acc) = account_type acc"
  "state (maturity_entry hash height acc) = Immature"
  "me_block_hash (maturity_entry hash height acc) = hash"
  "me_block_height (maturity_entry hash height acc) = height"
  by (simp_all add: maturity_entry_def PayoutPolicyAccount.defs PayoutMaturityEntry.defs)

section \<open>Blocks: lemmas\<close>

lemma settled_prior:
  assumes st: "policy_state V F bs seen accs fee ons"
  shows "sum_list (map prior_balance_sats (filter (\<lambda>acc. program_of acc = k) (settled_accounts accs fee ons))) =
    balance_for bs k"
proof -
  have facts: "distinct (map program_of accs)" "seen = program_of ` set accs" "program_of ` set bs \<subseteq> seen"
    "\<forall>acc\<in>set accs. prior_balance_sats acc = balance_for bs (program_of acc)"
    using st unfolding policy_state_def by blast+
  have "sum_list (map prior_balance_sats (filter (\<lambda>acc. program_of acc = k) (settled_accounts accs fee ons))) =
      sum_list (map prior_balance_sats (filter (\<lambda>acc. program_of acc = k) accs))"
    by (simp add: settled_accounts_def filter_map comp_def pool_fee_account_def split: option.split)
  also have "\<dots> = balance_for bs k"
  proof (cases "k \<in> seen")
    case True
    then obtain acc where acc: "acc \<in> set accs" "program_of acc = k" using facts(2) by blast
    then show ?thesis using filter_distinct_key[OF facts(1) acc] facts(4) by simp
  next
    case False
    then have "filter (\<lambda>acc. program_of acc = k) accs = []" "filter (\<lambda>b. program_of b = k) bs = []"
      using facts(2,3) by (auto simp: filter_empty_conv)
    then show ?thesis by (simp add: balance_for_def)
  qed
  finally show ?thesis .
qed

lemma account_delta:
  "account_ok F acc \<Longrightarrow> carry_forward_balance_sats acc =
     prior_balance_sats acc + (int (gross_amount_sats acc) - int (onchain_amount_sats acc))"
  by (simp add: account_ok_def)

lemma sum_filter_sort:
  "sum_list (map f (filter P (sort_key k xs))) = (sum_list (map f (filter P xs)) :: int)"
  by (simp add: filter_sort sum_list_sort_key_int)

lemma block_deltas:
  assumes "\<forall>acc\<in>set xs. account_ok F acc \<and> (account_type acc = PoolFee \<longrightarrow> gross_amount_sats acc = onchain_amount_sats acc)"
  shows "sum_list (map carry_forward_balance_sats (filter (\<lambda>acc. program_of acc = k) xs)) =
    sum_list (map prior_balance_sats (filter (\<lambda>acc. program_of acc = k) xs)) +
    sum_list (map entry_delta (filter (\<lambda>e. active_entry e \<and> program_of e = k) (map (maturity_entry hash height) xs)))"
  using assms
proof (induction xs)
  case (Cons x xs)
  then show ?case
    by (cases "account_type x") (auto simp: active_entry_def account_delta)
qed simp

lemma settled_pool_fee:
  assumes "policy_state V F bs seen accs fee ons" "acc \<in> set (settled_accounts accs fee ons)" "account_type acc = PoolFee"
  shows "gross_amount_sats acc = onchain_amount_sats acc"
proof -
  have "\<forall>acc\<in>set accs. account_type acc = Miner"
    using assms(1) by (auto simp: policy_state_def fresh_account_def)
  with settled_account_cases[OF assms(2)] assms(3) show ?thesis by (auto simp: pool_fee_account_def)
qed

section \<open>Properties\<close>

text \<open>C37. Payout states only move forward: whatever sequence of blocks connects, tips and disconnects
  acts on a ledger, its entries keep their positions and every field but the state, and an
  entry that is mature or reversed stays so.\<close>

theorem ledger_states_final:
  assumes "ledger_step\<^sup>*\<^sup>* es es'" and "i < length es"
  shows "i < length es' \<and> es' ! i = (es ! i) \<lparr> state := state (es' ! i) \<rparr> \<and>
    (state (es ! i) \<noteq> Immature \<longrightarrow> es' ! i = es ! i)"
  using ledger_run_moves[OF assms(1)] assms(2) by (auto simp: entry_moves_def)

definition demo_entry :: PayoutMaturityEntry where
  "demo_entry = maturity_entry ''block-1'' 100
     \<lparr> recipient_id = ''ann'', order_key = ''ann'', p2mr_program_hex = ''a1'',
       gross_amount_sats = 60, prior_balance_sats = 0, account_type = Miner, candidate_balance_sats = 60,
       onchain_amount_sats = 20, settlement_fee_sats = 0, carry_forward_balance_sats = 40, action = Onchain \<rparr>"

abbreviation demo_block_run :: "PrismError + PayoutPolicyManifest" where
  "demo_block_run \<equiv> apply_payout_policy demo_rewards [demo_balance ''ann'' ''a1'' 40] (demo_policy 100 (Some demo_fee))"

theorem ledger_states_final_witness:
  "(update_maturity_states [demo_entry] 1100 @ [demo_entry]) ! 0 = demo_entry \<lparr> state := Mature \<rparr>"
proof -
  obtain m where m: "build_maturity_entries ''block-1'' 100 m = [demo_entry]"
    using that[of "policy_manifest demo_rewards day_one_default 1 None [_]"]
    by (simp add: build_maturity_entries_def policy_manifest_def demo_entry_def)
  let ?es = "update_maturity_states [demo_entry] 1100"
  have up: "?es = [demo_entry \<lparr> state := Mature \<rparr>]"
    by (simp add: update_maturity_states_def demo_entry_def maturity_height_def saturating_add_def
        QBIT_COINBASE_MATURITY_BLOCKS_def)
  have "ledger_step\<^sup>*\<^sup>* ?es (?es @ [demo_entry])"
    unfolding m[symmetric] by (rule r_into_rtranclp) (rule ledger_step.connect)
  from ledger_states_final[OF this, of 0] show ?thesis by (simp add: up)
qed

text \<open>C4. Replaying the ledger after a block gives the balances that the block carried forward: if the
  policy was computed from the replayed balances and its entries are appended, then for every
  payout program the new replay holds what the block's accounts of that program carry.\<close>

theorem replay_carries_forward:
  assumes "current_carry_forward_balances es = Inr bs"
    and "apply_payout_policy rm bs policy = Inr m" and "rm_coinbase_value_sats rm < 2 ^ 64"
    and "current_carry_forward_balances (es @ build_maturity_entries hash height m) = Inr bs'"
  shows "balance_for bs' k =
    sum_list (map carry_forward_balance_sats (filter (\<lambda>acc. program_of acc = k) (accounts m)))"
proof -
  obtain seen accs ons where
    st: "policy_state (rm_coinbase_value_sats rm) (pp_min_output_sats m) bs seen accs (pool_fee m) ons"
    and accs: "accounts m = sort_key payee_order (settled_accounts accs (pool_fee m) ons)"
    by (rule apply_payout_policy_Inr[OF assms(2,3)])
  have ok: "\<forall>acc\<in>set (accounts m). account_ok (pp_min_output_sats m) acc \<and>
      (account_type acc = PoolFee \<longrightarrow> gross_amount_sats acc = onchain_amount_sats acc)"
    using settled_account_ok[OF st] settled_pool_fee[OF st] by (simp add: accs)
  have "balance_for bs' k = balance_for bs k +
      sum_list (map entry_delta (filter (\<lambda>e. active_entry e \<and> program_of e = k) (build_maturity_entries hash height m)))"
    using current_balance_for[OF assms(4), of k] current_balance_for[OF assms(1), of k] by simp
  moreover have "sum_list (map prior_balance_sats (filter (\<lambda>acc. program_of acc = k) (accounts m))) = balance_for bs k"
    unfolding accs sum_filter_sort by (rule settled_prior[OF st])
  ultimately show ?thesis
    using block_deltas[OF ok, of k hash height] by (simp add: build_maturity_entries_def)
qed

theorem replay_carries_forward_witness:
  "\<exists>m bs'. demo_block_run = Inr m \<and>
    current_carry_forward_balances ([demo_entry] @ build_maturity_entries ''block-2'' 101 m) = Inr bs' \<and>
    (\<forall>k. balance_for bs' k =
      sum_list (map carry_forward_balance_sats (filter (\<lambda>acc. program_of acc = k) (accounts m))))"
proof -
  have before: "current_carry_forward_balances [demo_entry] = Inr [demo_balance ''ann'' ''a1'' 40]" by code_simp
  have "is_ok (rbind demo_block_run (\<lambda>m. current_carry_forward_balances
      ([demo_entry] @ build_maturity_entries ''block-2'' 101 m)))" by code_simp
  then obtain m bs' where m: "demo_block_run = Inr m"
    and after: "current_carry_forward_balances ([demo_entry] @ build_maturity_entries ''block-2'' 101 m) = Inr bs'"
    unfolding is_ok_iff rbind_Inr by blast
  have "rm_coinbase_value_sats demo_rewards < 2 ^ 64" by code_simp
  from replay_carries_forward[OF before m this after] m after show ?thesis by blast
qed

text \<open>Disconnecting a block takes its payouts back: if the entries of a block that is not in the
  ledger yet are appended and then reversed, the replayed balances are those from before.\<close>

lemma reversal_restores_balances:
  assumes "\<forall>e\<in>set es. me_block_hash e \<noteq> hash"
    and "reverse_disconnected_blocks (es @ build_maturity_entries hash height m) [hash] tip = Inr es'"
  shows "current_carry_forward_balances es' = current_carry_forward_balances es"
proof -
  let ?rev = "map (\<lambda>e. e \<lparr> state := Reversed \<rparr>) (build_maturity_entries hash height m)"
  have "list_all2 (\<lambda>e e'. reverse_entry [hash] tip e = Inr e') (es @ build_maturity_entries hash height m) es'"
    using assms(2) by (simp add: reverse_disconnected_blocks_def rmap_Inr)
  then obtain a b where es': "es' = a @ b" and a: "list_all2 (\<lambda>e e'. reverse_entry [hash] tip e = Inr e') es a"
    and b: "list_all2 (\<lambda>e e'. reverse_entry [hash] tip e = Inr e') (build_maturity_entries hash height m) b"
    by (auto simp: list_all2_append1)
  have "a = es" using a assms(1) by (induction rule: list_all2_induct) (auto simp: reverse_entry_def)
  moreover have "\<forall>e\<in>set b. state e = Reversed"
    using list_all2_set2[OF b] by (force simp: build_maturity_entries_def reverse_entry_def split: if_splits)
  then have "filter active_entry b = []" by (auto simp: filter_empty_conv active_entry_def)
  ultimately show ?thesis by (simp add: es' current_carry_forward_balances_def)
qed

end
