(* ===== verification/Ctv_Codec.thy ===== *)
theory Ctv_Codec
  imports Reward_Window
begin

text \<open>
  The transaction reader and writer of \<^verbatim>\<open>src/crates/qbit-prism/src/ctv.rs\<close>. A \<^verbatim>\<open>TxReader\<close> is the bytes
  that are left of its slice together with its field name, so that every read takes the bytes and
  returns a value and the rest; an offset that would overflow reads past the end in either
  case. \<^verbatim>\<open>compact_size\<close> is the function of the same text in the coinbase builder.

  The locale \<open>wire_format\<close> is the contract between one encoding and its reader: reading what was
  written gives the value and leaves the rest, and nothing else is read. It is closed
  under repetition, which is how transactions are put together, and it is interpreted on
  compact sizes, byte strings, inputs, outputs and witness stacks.
\<close>

section \<open>The reader\<close>

definition QBIT_MAX_MONEY_SATS :: u64 where "QBIT_MAX_MONEY_SATS = 210000000 * 100000000"

type_synonym 'a read = "byte list \<Rightarrow> PrismError + 'a \<times> byte list"

definition invalid_ctv_manifest :: "string \<Rightarrow> PrismError" where
  "invalid_ctv_manifest r = InvalidCtvFanoutManifest r"

definition truncated :: "string \<Rightarrow> PrismError" where
  "truncated field = invalid_ctv_manifest (field @ '' transaction is truncated'')"

definition peek_u8 :: "string \<Rightarrow> byte list \<Rightarrow> PrismError + byte" where
  "peek_u8 field bs = (case bs of [] \<Rightarrow> Inl (truncated field) | b # _ \<Rightarrow> Inr b)"

definition read_u8 :: "string \<Rightarrow> byte read" where
  "read_u8 field bs = rbind (peek_u8 field bs) (\<lambda>b. Inr (b, tl bs))"

definition read_bytes :: "string \<Rightarrow> usize \<Rightarrow> byte list read" where
  "read_bytes field n bs = (if n \<le> length bs then Inr (take n bs, drop n bs) else Inl (truncated field))"

definition read_u32 :: "string \<Rightarrow> u32 read" where
  "read_u32 field bs = rbind (read_bytes field 4 bs) (\<lambda>(raw, rest). Inr (from_le_bytes raw, rest))"

text \<open>\<^verbatim>\<open>i64::from_le_bytes\<close>: the sign is the highest of the 64 bits.\<close>

definition read_i64_nonnegative :: "string \<Rightarrow> u64 read" where
  "read_i64_nonnegative field bs =
     rbind (read_bytes field 8 bs) (\<lambda>(raw, rest).
     let value = from_le_bytes raw in
     if value \<ge> 2 ^ 63 then Inl (invalid_ctv_manifest (field @ '' has negative transaction output value''))
     else if value > QBIT_MAX_MONEY_SATS
     then Inl (invalid_ctv_manifest (field @ '' has transaction output value above MAX_MONEY''))
     else Inr (value, rest))"

definition read_wide_size :: "string \<Rightarrow> usize \<Rightarrow> u64 \<Rightarrow> u64 read" where
  "read_wide_size field width least bs =
     rbind (read_bytes field width bs) (\<lambda>(raw, rest).
     let value = from_le_bytes raw in
     if value < least then Inl (invalid_ctv_manifest (field @ '' has non-canonical compact size''))
     else Inr (value, rest))"

definition read_compact_size :: "string \<Rightarrow> u64 read" where
  "read_compact_size field bs =
     rbind (read_u8 field bs) (\<lambda>(first, rest).
     if unat first \<le> 0xfc then Inr (unat first, rest)
     else if unat first = 0xfd then read_wide_size field 2 0xfd rest
     else if unat first = 0xfe then read_wide_size field 4 0x10000 rest
     else read_wide_size field 8 0x100000000 rest)"

definition read_compact_size_as_usize :: "string \<Rightarrow> usize read" where
  "read_compact_size_as_usize field bs =
     rbind (read_compact_size field bs) (\<lambda>(value, rest).
     if value > length rest then Inl (truncated field) else Inr (value, rest))"

definition read_var_bytes :: "string \<Rightarrow> byte list read" where
  "read_var_bytes field bs =
     rbind (read_compact_size_as_usize field bs) (\<lambda>(n, rest). read_bytes field n rest)"

definition expect_finished :: "string \<Rightarrow> byte list \<Rightarrow> PrismError + unit" where
  "expect_finished field bs =
     (if bs \<noteq> [] then Inl (invalid_ctv_manifest (field @ '' has trailing transaction bytes'')) else Inr ())"

text \<open>The loops \<^verbatim>\<open>for _ in 0..count { out.push(read()?) }\<close>.\<close>

fun read_many :: "'a read \<Rightarrow> nat \<Rightarrow> 'a list read" where
  "read_many dec 0 bs = Inr ([], bs)"
| "read_many dec (Suc n) bs =
     rbind (dec bs) (\<lambda>(x, rest). rbind (read_many dec n rest) (\<lambda>(xs, rest'). Inr (x # xs, rest')))"

section \<open>Transactions\<close>

record ParsedTxIn =
  ti_prev_txid_hex :: string
  ti_prev_vout :: u32
  ti_script_sig :: "byte list"
  ti_sequence :: u32

record ParsedTxOut =
  to_amount_sats :: u64
  to_script_pubkey :: "byte list"

record ParsedTransaction =
  pt_version :: u32
  pt_inputs :: "ParsedTxIn list"
  pt_outputs :: "ParsedTxOut list"
  pt_lock_time :: u32
  pt_witness_stacks :: "byte list list list option"
  pt_tx_without_witness :: "byte list"

text \<open>\<^verbatim>\<open>TxOutputSpec\<close> has the fields of \<^verbatim>\<open>ParsedTxOut\<close>, \<^verbatim>\<open>TxInputSpec\<close> those of \<^verbatim>\<open>ParsedTxIn\<close> and a witness stack.\<close>

type_synonym TxOutputSpec = ParsedTxOut

record TxInputSpec = ParsedTxIn +
  is_witness_stack :: "byte list list"

definition read_tx_in :: "crypto \<Rightarrow> string \<Rightarrow> ParsedTxIn read" where
  "read_tx_in X field bs =
     rbind (read_bytes field 32 bs) (\<lambda>(raw, r1).
     rbind (read_u32 field r1) (\<lambda>(prev_vout, r2).
     rbind (read_var_bytes field r2) (\<lambda>(script_sig, r3).
     rbind (read_u32 field r3) (\<lambda>(sequence, r4).
       Inr (\<lparr> ti_prev_txid_hex = hex_encode X (rev raw), ti_prev_vout = prev_vout,
              ti_script_sig = script_sig, ti_sequence = sequence \<rparr>, r4)))))"

definition read_tx_out :: "string \<Rightarrow> ParsedTxOut read" where
  "read_tx_out field bs =
     rbind (read_i64_nonnegative field bs) (\<lambda>(amount, r1).
     rbind (read_var_bytes field r1) (\<lambda>(script, r2).
       Inr (\<lparr> to_amount_sats = amount, to_script_pubkey = script \<rparr>, r2)))"

definition read_stack :: "string \<Rightarrow> byte list list read" where
  "read_stack field bs =
     rbind (read_compact_size_as_usize field bs) (\<lambda>(item_count, rest).
       read_many (read_var_bytes field) item_count rest)"

definition serialize_tx_out :: "ParsedTxOut \<Rightarrow> byte list" where
  "serialize_tx_out output =
     le_bytes 8 (to_amount_sats output) @ compact_size (length (to_script_pubkey output)) @ to_script_pubkey output"

text \<open>The part of an input after its outpoint's transaction id.\<close>

definition tx_in_tail :: "('x) ParsedTxIn_scheme \<Rightarrow> byte list" where
  "tx_in_tail input =
     le_bytes 4 (ti_prev_vout input) @ compact_size (length (ti_script_sig input)) @ ti_script_sig input @
     le_bytes 4 (ti_sequence input)"

definition strip_tx_in :: "crypto \<Rightarrow> ParsedTxIn \<Rightarrow> PrismError + byte list" where
  "strip_tx_in X input =
     rbind (map_err (\<lambda>_. Panicked ''display txid hex'') (hex_decode X (ti_prev_txid_hex input))) (\<lambda>prev_txid.
       Inr (rev prev_txid @ tx_in_tail input))"

definition strip_witness ::
  "crypto \<Rightarrow> u32 \<Rightarrow> ParsedTxIn list \<Rightarrow> ParsedTxOut list \<Rightarrow> u32 \<Rightarrow> PrismError + byte list" where
  "strip_witness X version inputs outputs lock_time =
     rbind (rmap (strip_tx_in X) inputs) (\<lambda>ins.
       Inr (le_bytes 4 version @ compact_size (length inputs) @ concat ins @
            compact_size (length outputs) @ concat (map serialize_tx_out outputs) @ le_bytes 4 lock_time))"

definition read_witness_flag :: "string \<Rightarrow> bool read" where
  "read_witness_flag field bs =
     rbind (peek_u8 field bs) (\<lambda>marker.
     if marker = 0 then
       rbind (read_u8 field bs) (\<lambda>(_, r1).
       rbind (read_u8 field r1) (\<lambda>(flag, r2).
       if flag = 0 then Inl (invalid_ctv_manifest (field @ '' has invalid witness flag 0''))
       else Inr (True, r2)))
     else Inr (False, bs))"

definition read_witness_stacks :: "string \<Rightarrow> bool \<Rightarrow> usize \<Rightarrow> byte list list list option read" where
  "read_witness_stacks field has_witness input_count bs =
     (if has_witness
      then rbind (read_many (read_stack field) input_count bs) (\<lambda>(stacks, rest). Inr (Some stacks, rest))
      else Inr (None, bs))"

definition parse_transaction :: "crypto \<Rightarrow> byte list \<Rightarrow> string \<Rightarrow> PrismError + ParsedTransaction" where
  "parse_transaction X bytes field =
     rbind (read_u32 field bytes) (\<lambda>(version, r1).
     rbind (read_witness_flag field r1) (\<lambda>(has_witness, r2).
     rbind (read_compact_size_as_usize field r2) (\<lambda>(input_count, r3).
     if input_count = 0 then Inl (invalid_ctv_manifest (field @ '' has no inputs''))
     else
       rbind (read_many (read_tx_in X field) input_count r3) (\<lambda>(inputs, r4).
       rbind (read_compact_size_as_usize field r4) (\<lambda>(output_count, r5).
       rbind (read_many (read_tx_out field) output_count r5) (\<lambda>(outputs, r6).
       rbind (read_witness_stacks field has_witness input_count r6) (\<lambda>(witness_stacks, r7).
       rbind (read_u32 field r7) (\<lambda>(lock_time, r8).
       rbind (expect_finished field r8) (\<lambda>_.
       rbind (strip_witness X version inputs outputs lock_time) (\<lambda>stripped.
         Inr \<lparr> pt_version = version, pt_inputs = inputs, pt_outputs = outputs, pt_lock_time = lock_time,
               pt_witness_stacks = witness_stacks, pt_tx_without_witness = stripped \<rparr>))))))))))"

definition parse_transaction_hex :: "crypto \<Rightarrow> string \<Rightarrow> string \<Rightarrow> PrismError + ParsedTransaction" where
  "parse_transaction_hex X tx_hex field =
     rbind (map_err (\<lambda>err. invalid_ctv_manifest (field @ '' is not valid hex: '' @ err)) (hex_decode X tx_hex)) (\<lambda>bytes.
       parse_transaction X bytes field)"

definition txid_hex :: "crypto \<Rightarrow> ParsedTransaction \<Rightarrow> string" where
  "txid_hex X tx = hex_encode X (rev (hash256 X (pt_tx_without_witness tx)))"

definition serialize_input :: "crypto \<Rightarrow> TxInputSpec \<Rightarrow> PrismError + byte list" where
  "serialize_input X input =
     rbind (map_err (\<lambda>err. invalid_ctv_manifest (''prev txid must be hex: '' @ err))
              (hex_decode X (ti_prev_txid_hex input))) (\<lambda>prev_txid.
       if length prev_txid \<noteq> 32 then Inl (invalid_ctv_manifest ''prev txid must be 32 bytes'')
       else Inr (rev prev_txid @ tx_in_tail input))"

definition serialize_stack :: "byte list list \<Rightarrow> byte list" where
  "serialize_stack items =
     compact_size (length items) @ concat (map (\<lambda>item. compact_size (length item) @ item) items)"

definition serialize_tx_hex ::
  "crypto \<Rightarrow> u32 \<Rightarrow> TxInputSpec list \<Rightarrow> TxOutputSpec list \<Rightarrow> u32 \<Rightarrow> bool \<Rightarrow> PrismError + string" where
  "serialize_tx_hex X version inputs outputs lock_time with_witness =
     rbind (rmap (serialize_input X) inputs) (\<lambda>ins.
       Inr (hex_encode X
         (le_bytes 4 version @ (if with_witness then [0, 1] else []) @
          compact_size (length inputs) @ concat ins @
          compact_size (length outputs) @ concat (map serialize_tx_out outputs) @
          (if with_witness then concat (map (\<lambda>input. serialize_stack (is_witness_stack input)) inputs) else []) @
          le_bytes 4 lock_time)))"

section \<open>Reading what was written\<close>

locale wire_format =
  fixes enc :: "'a \<Rightarrow> byte list" and dec :: "'a read" and ok :: "'a \<Rightarrow> bool"
  assumes dec_enc: "ok x \<Longrightarrow> dec (enc x @ rest) = Inr (x, rest)"
    and dec_Inr: "dec bs = Inr (x, rest) \<Longrightarrow> ok x \<and> bs = enc x @ rest"
    and enc_nonempty: "ok x \<Longrightarrow> enc x \<noteq> []"
begin

lemma many_enc:
  "\<forall>x\<in>set xs. ok x \<Longrightarrow> read_many dec (length xs) (concat (map enc xs) @ rest) = Inr (xs, rest)"
  by (induction xs) (simp_all add: dec_enc)

lemma many_Inr:
  "read_many dec n bs = Inr (xs, rest) \<Longrightarrow>
     length xs = n \<and> (\<forall>x\<in>set xs. ok x) \<and> bs = concat (map enc xs) @ rest"
proof (induction n arbitrary: bs xs)
  case (Suc n)
  then obtain x r ys where "dec bs = Inr (x, r)" "read_many dec n r = Inr (ys, rest)" "xs = x # ys"
    by (auto simp: rbind_Inr)
  with Suc.IH dec_Inr show ?case by force
qed simp

lemma many_length: "\<forall>x\<in>set xs. ok x \<Longrightarrow> length xs \<le> length (concat (map enc xs))"
proof (induction xs)
  case (Cons x xs)
  then show ?case using enc_nonempty[of x] by (cases "enc x") auto
qed simp

end

lemma read_bytes_append: "length a = n \<Longrightarrow> read_bytes field n (a @ rest) = Inr (a, rest)"
  by (simp add: read_bytes_def)

lemma read_bytes_Inr: "read_bytes field n bs = Inr (a, rest) \<longleftrightarrow> length a = n \<and> bs = a @ rest"
  by (auto simp: read_bytes_def)

lemma le_bytes_of_read: "length a = n \<Longrightarrow> a = le_bytes n (from_le_bytes a)"
  using le_bytes_from_le_bytes[of a] by simp

lemma read_wide_size_enc:
  "least \<le> n \<Longrightarrow> n < 256 ^ w \<Longrightarrow> read_wide_size field w least (le_bytes w n @ rest) = Inr (n, rest)"
  by (simp add: read_wide_size_def read_bytes_append)

lemma read_wide_size_Inr: "read_wide_size field w least bs = Inr (n, rest) \<Longrightarrow>
  least \<le> n \<and> n < 256 ^ w \<and> bs = le_bytes w n @ rest"
  unfolding read_wide_size_def
  by (auto simp: rbind_Inr read_bytes_Inr Let_def le_bytes_from_le_bytes from_le_bytes_less split: if_splits)

lemma unat_of_nat_byte: "n < 256 \<Longrightarrow> unat (of_nat n :: byte) = n"
  by (simp add: unat_of_nat)

interpretation u32s: wire_format "le_bytes 4" "read_u32 field" "\<lambda>n. n < 2 ^ 32" for field
proof unfold_locales
  show "n < 2 ^ 32 \<Longrightarrow> read_u32 field (le_bytes 4 n @ rest) = Inr (n, rest)" for n rest
    by (simp add: read_u32_def read_bytes_append)
  show "n < 2 ^ 32 \<and> bs = le_bytes 4 n @ rest" if r: "read_u32 field bs = Inr (n, rest)" for bs n rest
  proof -
    obtain raw where "length raw = 4" "bs = raw @ rest" "n = from_le_bytes raw"
      using r by (auto simp: read_u32_def rbind_Inr read_bytes_Inr)
    then show ?thesis using from_le_bytes_less[of raw] le_bytes_of_read[of raw 4] by simp
  qed
  show "le_bytes 4 n \<noteq> []" for n by (metis length_le_bytes list.size(3) zero_neq_numeral)
qed

interpretation sats: wire_format "le_bytes 8" "read_i64_nonnegative field" "\<lambda>n. n \<le> QBIT_MAX_MONEY_SATS" for field
proof unfold_locales
  show "read_i64_nonnegative field (le_bytes 8 n @ rest) = Inr (n, rest)" if "n \<le> QBIT_MAX_MONEY_SATS" for n rest
    using that by (simp add: read_i64_nonnegative_def read_bytes_append QBIT_MAX_MONEY_SATS_def)
  show "n \<le> QBIT_MAX_MONEY_SATS \<and> bs = le_bytes 8 n @ rest" if r: "read_i64_nonnegative field bs = Inr (n, rest)" for bs n rest
  proof -
    obtain raw where "length raw = 8" "bs = raw @ rest" "n = from_le_bytes raw" "n \<le> QBIT_MAX_MONEY_SATS"
      using r by (auto simp: read_i64_nonnegative_def rbind_Inr read_bytes_Inr Let_def split: if_splits)
    then show ?thesis using le_bytes_of_read[of raw 8] by simp
  qed
  show "le_bytes 8 n \<noteq> []" for n by (metis length_le_bytes list.size(3) zero_neq_numeral)
qed

lemma compact_size_nonempty [simp]: "compact_size n \<noteq> []"
  by (simp add: compact_size_def)

lemma read_compact_size_Inr:
  assumes "read_compact_size field bs = Inr (n, rest)"
  shows "n < 2 ^ 64 \<and> bs = compact_size n @ rest"
proof -
  obtain first r where bs: "bs = first # r" and body:
    "(if unat first \<le> 0xfc then Inr (unat first, r)
      else if unat first = 0xfd then read_wide_size field 2 0xfd r
      else if unat first = 0xfe then read_wide_size field 4 0x10000 r
      else read_wide_size field 8 0x100000000 r) = Inr (n, rest)"
    using assms by (cases bs) (auto simp: read_compact_size_def read_u8_def peek_u8_def rbind_Inr)
  have first: "first = of_nat (unat first)" by simp
  consider "unat first \<le> 0xfc" | "unat first = 0xfd" | "unat first = 0xfe" | "unat first = 0xff"
    using byte_less[of first] by linarith
  then show ?thesis
  proof cases
    case 1
    with body bs show ?thesis by (auto simp: compact_size_def)
  next
    case 2
    with first have "first = 253" by simp
    with 2 body bs read_wide_size_Inr[of field 2 "0xfd" r n rest] show ?thesis by (auto simp: compact_size_def)
  next
    case 3
    with first have "first = 254" by simp
    with 3 body bs read_wide_size_Inr[of field 4 "0x10000" r n rest] show ?thesis by (auto simp: compact_size_def)
  next
    case 4
    with first have "first = 255" by simp
    with 4 body bs read_wide_size_Inr[of field 8 "0x100000000" r n rest] show ?thesis by (auto simp: compact_size_def)
  qed
qed

interpretation sizes: wire_format compact_size "read_compact_size field" "\<lambda>n. n < 2 ^ 64" for field
proof unfold_locales
  show "read_compact_size field (compact_size n @ rest) = Inr (n, rest)" if "n < 2 ^ 64" for n rest
    using that
    by (auto simp: read_compact_size_def read_u8_def peek_u8_def compact_size_def unat_of_nat_byte read_wide_size_enc)
qed (auto dest: read_compact_size_Inr)

lemma counted_size_enc:
  "n < 2 ^ 64 \<Longrightarrow> n \<le> length rest \<Longrightarrow> read_compact_size_as_usize field (compact_size n @ rest) = Inr (n, rest)"
  by (simp add: read_compact_size_as_usize_def sizes.dec_enc)

lemma counted_size_Inr: "read_compact_size_as_usize field bs = Inr (n, rest) \<Longrightarrow>
  n < 2 ^ 64 \<and> n \<le> length rest \<and> bs = compact_size n @ rest"
  unfolding read_compact_size_as_usize_def
  by (auto simp: rbind_Inr split: if_splits dest: sizes.dec_Inr)

interpretation strings: wire_format "\<lambda>b. compact_size (length b) @ b" "read_var_bytes field" "\<lambda>b. length b < 2 ^ 64" for field
proof unfold_locales
  show "read_var_bytes field ((compact_size (length b) @ b) @ rest) = Inr (b, rest)" if "length b < 2 ^ 64" for b rest
    using that by (simp add: read_var_bytes_def counted_size_enc read_bytes_append)
  show "length b < 2 ^ 64 \<and> bs = (compact_size (length b) @ b) @ rest" if "read_var_bytes field bs = Inr (b, rest)" for bs b rest
    using that by (auto simp: read_var_bytes_def rbind_Inr read_bytes_Inr dest!: counted_size_Inr)
qed simp

definition stack_ok :: "byte list list \<Rightarrow> bool" where
  "stack_ok items \<longleftrightarrow> length items < 2 ^ 64 \<and> (\<forall>item\<in>set items. length item < 2 ^ 64)"

interpretation stacks: wire_format serialize_stack "read_stack field" stack_ok for field
proof unfold_locales
  let ?enc = "\<lambda>item :: byte list. compact_size (length item) @ item"
  show "read_stack field (serialize_stack items @ rest) = Inr (items, rest)" if ok: "stack_ok items" for items rest
  proof -
    have "length items \<le> length (concat (map ?enc items) @ rest)"
      using strings.many_length[of items] ok by (simp add: stack_ok_def)
    then have "read_compact_size_as_usize field (compact_size (length items) @ concat (map ?enc items) @ rest) =
        Inr (length items, concat (map ?enc items) @ rest)"
      using ok by (intro counted_size_enc) (simp_all add: stack_ok_def)
    then show ?thesis
      using strings.many_enc[of items field rest] ok by (simp add: read_stack_def serialize_stack_def stack_ok_def)
  qed
  show "stack_ok items \<and> bs = serialize_stack items @ rest" if r: "read_stack field bs = Inr (items, rest)" for bs items rest
  proof -
    obtain n r1 where n: "read_compact_size_as_usize field bs = Inr (n, r1)"
      and items: "read_many (read_var_bytes field) n r1 = Inr (items, rest)"
      using r by (auto simp: read_stack_def rbind_Inr)
    from counted_size_Inr[OF n] strings.many_Inr[OF items] show ?thesis
      by (auto simp: stack_ok_def serialize_stack_def)
  qed
qed (simp add: serialize_stack_def)

definition tx_out_ok :: "ParsedTxOut \<Rightarrow> bool" where
  "tx_out_ok output \<longleftrightarrow> to_amount_sats output \<le> QBIT_MAX_MONEY_SATS \<and> length (to_script_pubkey output) < 2 ^ 64"

interpretation tx_outs: wire_format serialize_tx_out "read_tx_out field" tx_out_ok for field
proof unfold_locales
  show "read_tx_out field (serialize_tx_out txo @ rest) = Inr (txo, rest)" if "tx_out_ok txo" for txo rest
    using that strings.dec_enc[of "to_script_pubkey txo" field rest]
    by (simp add: read_tx_out_def serialize_tx_out_def tx_out_ok_def sats.dec_enc)
  show "tx_out_ok txo \<and> bs = serialize_tx_out txo @ rest" if r: "read_tx_out field bs = Inr (txo, rest)" for bs txo rest
  proof -
    obtain amount r1 script where a: "read_i64_nonnegative field bs = Inr (amount, r1)"
      and s: "read_var_bytes field r1 = Inr (script, rest)"
      and out: "txo = \<lparr> to_amount_sats = amount, to_script_pubkey = script \<rparr>"
      using r by (auto simp: read_tx_out_def rbind_Inr)
    from sats.dec_Inr[OF a] strings.dec_Inr[OF s] out show ?thesis
      by (simp add: tx_out_ok_def serialize_tx_out_def)
  qed
  show "serialize_tx_out txo \<noteq> []" for txo by (simp add: serialize_tx_out_def)
qed

definition prev_txid_bytes :: "crypto \<Rightarrow> ('x) ParsedTxIn_scheme \<Rightarrow> byte list" where
  "prev_txid_bytes X input = (case hex_decode X (ti_prev_txid_hex input) of Inl _ \<Rightarrow> [] | Inr b \<Rightarrow> b)"

definition tx_in_bytes :: "crypto \<Rightarrow> ('x) ParsedTxIn_scheme \<Rightarrow> byte list" where
  "tx_in_bytes X input = rev (prev_txid_bytes X input) @ tx_in_tail input"

definition tx_in_ok :: "crypto \<Rightarrow> ('x) ParsedTxIn_scheme \<Rightarrow> bool" where
  "tx_in_ok X input \<longleftrightarrow>
     hex_decode X (ti_prev_txid_hex input) = Inr (prev_txid_bytes X input) \<and>
     ti_prev_txid_hex input = hex_encode X (prev_txid_bytes X input) \<and> length (prev_txid_bytes X input) = 32 \<and>
     ti_prev_vout input < 2 ^ 32 \<and> length (ti_script_sig input) < 2 ^ 64 \<and> ti_sequence input < 2 ^ 32"

lemma tx_in_enc:
  assumes "tx_in_ok X input"
  shows "read_tx_in X field (tx_in_bytes X input @ rest) = Inr (ParsedTxIn.truncate input, rest)"
  using assms strings.dec_enc[of "ti_script_sig input" field "le_bytes 4 (ti_sequence input) @ rest"]
  by (simp add: read_tx_in_def tx_in_bytes_def tx_in_tail_def tx_in_ok_def read_bytes_append u32s.dec_enc
      ParsedTxIn.truncate_def)

lemma tx_in_wire:
  assumes hex: "hex_law X"
  shows "wire_format (tx_in_bytes X) (read_tx_in X field) (tx_in_ok X)"
proof unfold_locales
  show "read_tx_in X field (tx_in_bytes X input @ rest) = Inr (input, rest)" if "tx_in_ok X input" for input :: ParsedTxIn and rest
    using tx_in_enc[OF that, of field rest] by (cases input) (simp add: ParsedTxIn.truncate_def)
  show "tx_in_ok X input \<and> bs = tx_in_bytes X input @ rest" if r: "read_tx_in X field bs = Inr (input, rest)" for bs input rest
  proof -
    obtain raw r1 vout r2 script r3 sequence where raw: "read_bytes field 32 bs = Inr (raw, r1)"
      and vout: "read_u32 field r1 = Inr (vout, r2)" and script: "read_var_bytes field r2 = Inr (script, r3)"
      and seq: "read_u32 field r3 = Inr (sequence, rest)"
      and input: "input = \<lparr> ti_prev_txid_hex = hex_encode X (rev raw), ti_prev_vout = vout,
        ti_script_sig = script, ti_sequence = sequence \<rparr>"
      using r by (auto simp: read_tx_in_def rbind_Inr)
    have "prev_txid_bytes X input = rev raw" by (simp add: prev_txid_bytes_def input hex_decode_encode[OF hex])
    with raw u32s.dec_Inr[OF vout] strings.dec_Inr[OF script] u32s.dec_Inr[OF seq] input show ?thesis
      by (simp add: tx_in_ok_def tx_in_bytes_def tx_in_tail_def read_bytes_Inr hex_decode_encode[OF hex])
  qed
  show "tx_in_bytes X input \<noteq> []" for input :: ParsedTxIn
    by (simp add: tx_in_bytes_def tx_in_tail_def)
qed

section \<open>Whole transactions\<close>

text \<open>Inputs and outputs with their counts: what both serializations have in common.\<close>

definition tx_body :: "crypto \<Rightarrow> ('x) ParsedTxIn_scheme list \<Rightarrow> ParsedTxOut list \<Rightarrow> byte list" where
  "tx_body X inputs outputs =
     compact_size (length inputs) @ concat (map (tx_in_bytes X) inputs) @
     compact_size (length outputs) @ concat (map serialize_tx_out outputs)"

definition tx_bytes ::
  "crypto \<Rightarrow> u32 \<Rightarrow> byte list \<Rightarrow> ('x) ParsedTxIn_scheme list \<Rightarrow> ParsedTxOut list \<Rightarrow> byte list \<Rightarrow> u32 \<Rightarrow> byte list" where
  "tx_bytes X version flag inputs outputs witness lock_time =
     le_bytes 4 version @ flag @ tx_body X inputs outputs @ witness @ le_bytes 4 lock_time"

definition tx_parts_ok :: "crypto \<Rightarrow> ('x) ParsedTxIn_scheme list \<Rightarrow> ParsedTxOut list \<Rightarrow> bool" where
  "tx_parts_ok X inputs outputs \<longleftrightarrow> inputs \<noteq> [] \<and> length inputs < 2 ^ 64 \<and> length outputs < 2 ^ 64 \<and>
     (\<forall>input\<in>set inputs. tx_in_ok X input) \<and> (\<forall>txo\<in>set outputs. tx_out_ok txo)"

lemma tx_in_ok_truncate [simp]: "tx_in_ok X (ParsedTxIn.truncate input) = tx_in_ok X input"
  "tx_in_bytes X (ParsedTxIn.truncate input) = tx_in_bytes X input"
  by (simp_all add: tx_in_ok_def tx_in_bytes_def prev_txid_bytes_def tx_in_tail_def ParsedTxIn.truncate_def)

lemma tx_parts_truncate:
  "tx_parts_ok X (map ParsedTxIn.truncate inputs) outputs = tx_parts_ok X inputs outputs"
  "tx_body X (map ParsedTxIn.truncate inputs) outputs = tx_body X inputs outputs"
  by (simp_all add: tx_parts_ok_def tx_body_def comp_def)

lemma tx_in_ok_txid:
  "tx_in_ok X input \<Longrightarrow> hex_decode X (ti_prev_txid_hex input) = Inr (prev_txid_bytes X input)"
  "tx_in_ok X input \<Longrightarrow> length (prev_txid_bytes X input) = 32"
  unfolding tx_in_ok_def by blast+

lemma strip_witness_ok:
  assumes "\<forall>input\<in>set inputs. tx_in_ok X input"
  shows "strip_witness X version inputs outputs lock_time = Inr (tx_bytes X version [] inputs outputs [] lock_time)"
proof -
  have "rmap (strip_tx_in X) inputs = Inr (map (tx_in_bytes X) inputs)"
    by (rule rmap_all_ok) (use assms in \<open>simp add: strip_tx_in_def tx_in_bytes_def tx_in_ok_txid\<close>)
  then show ?thesis by (simp add: strip_witness_def tx_bytes_def tx_body_def)
qed

lemma serialize_inputs_ok:
  assumes "\<forall>input\<in>set inputs. tx_in_ok X input"
  shows "rmap (serialize_input X) inputs = Inr (map (tx_in_bytes X) inputs)"
  by (rule rmap_all_ok) (use assms in \<open>simp add: serialize_input_def tx_in_bytes_def tx_in_ok_txid\<close>)

lemma compact_size_first:
  assumes "0 < n" "n < 2 ^ 64"
  shows "\<exists>b bs. compact_size n = b # bs \<and> b \<noteq> 0"
proof -
  have "(of_nat n :: byte) \<noteq> 0" if "n < 253"
  proof
    assume "(of_nat n :: byte) = 0"
    then have "unat (of_nat n :: byte) = 0" by simp
    with that assms(1) show False by (simp add: unat_of_nat)
  qed
  then show ?thesis by (simp add: compact_size_def)
qed

lemma read_body:
  fixes inputs :: "ParsedTxIn list"
  assumes hex: "hex_law X" and ok: "tx_parts_ok X inputs outputs"
  shows "\<exists>r3 r4 r5. read_compact_size_as_usize field (tx_body X inputs outputs @ rest) = Inr (length inputs, r3) \<and>
     read_many (read_tx_in X field) (length inputs) r3 = Inr (inputs, r4) \<and>
     read_compact_size_as_usize field r4 = Inr (length outputs, r5) \<and>
     read_many (read_tx_out field) (length outputs) r5 = Inr (outputs, rest)"
proof -
  note ins = wire_format.many_enc[OF tx_in_wire[OF hex, of field], of inputs]
    wire_format.many_length[OF tx_in_wire[OF hex, of field], of inputs]
  let ?r5 = "concat (map serialize_tx_out outputs) @ rest"
  let ?r3 = "concat (map (tx_in_bytes X) inputs) @ compact_size (length outputs) @ ?r5"
  have "read_compact_size_as_usize field (compact_size (length inputs) @ ?r3) = Inr (length inputs, ?r3)"
    by (rule counted_size_enc) (use ok ins(2) in \<open>simp_all add: tx_parts_ok_def\<close>)
  moreover have "read_many (read_tx_in X field) (length inputs) ?r3 =
      Inr (inputs, compact_size (length outputs) @ ?r5)"
    using ok ins(1) by (simp add: tx_parts_ok_def)
  moreover have "read_compact_size_as_usize field (compact_size (length outputs) @ ?r5) = Inr (length outputs, ?r5)"
    by (rule counted_size_enc) (use ok tx_outs.many_length[of outputs] in \<open>simp_all add: tx_parts_ok_def\<close>)
  moreover have "read_many (read_tx_out field) (length outputs) ?r5 = Inr (outputs, rest)"
    using ok by (intro tx_outs.many_enc) (simp add: tx_parts_ok_def)
  ultimately show ?thesis unfolding tx_body_def append_assoc by blast
qed

lemma parse_tx_bytes:
  fixes inputs :: "ParsedTxIn list"
  assumes hex: "hex_law X" and ok: "tx_parts_ok X inputs outputs" and w: "version < 2 ^ 32" "lock_time < 2 ^ 32"
    and wit: "case stacks of None \<Rightarrow> flag = [] \<and> witness = []
      | Some ss \<Rightarrow> (\<exists>b. b \<noteq> 0 \<and> flag = [0, b]) \<and> length ss = length inputs \<and> (\<forall>s\<in>set ss. stack_ok s) \<and>
          witness = concat (map serialize_stack ss)"
  shows "parse_transaction X (tx_bytes X version flag inputs outputs witness lock_time) field =
    Inr \<lparr> pt_version = version, pt_inputs = inputs, pt_outputs = outputs, pt_lock_time = lock_time,
          pt_witness_stacks = stacks, pt_tx_without_witness = tx_bytes X version [] inputs outputs [] lock_time \<rparr>"
proof -
  let ?tail = "witness @ le_bytes 4 lock_time"
  have ne: "inputs \<noteq> []" and strip: "strip_witness X version inputs outputs lock_time =
      Inr (tx_bytes X version [] inputs outputs [] lock_time)"
    using ok by (auto simp: tx_parts_ok_def intro!: strip_witness_ok)
  obtain b bs where b: "compact_size (length inputs) = b # bs" "b \<noteq> 0"
    using compact_size_first[of "length inputs"] ok by (auto simp: tx_parts_ok_def)
  have flag: "read_witness_flag field (flag @ tx_body X inputs outputs @ ?tail) =
      Inr (stacks \<noteq> None, tx_body X inputs outputs @ ?tail)"
  proof (cases stacks)
    case None
    then show ?thesis using wit b by (simp add: read_witness_flag_def peek_u8_def tx_body_def)
  next
    case (Some ss)
    then show ?thesis using wit by (auto simp: read_witness_flag_def peek_u8_def read_u8_def)
  qed
  have lock: "read_u32 field (le_bytes 4 lock_time) = Inr (lock_time, [])"
    using u32s.dec_enc[OF w(2), of field "[]"] by simp
  have stacks: "read_witness_stacks field (stacks \<noteq> None) (length inputs) ?tail = Inr (stacks, le_bytes 4 lock_time)"
    using wit stacks.many_enc[of "the stacks" field "le_bytes 4 lock_time"]
    by (cases stacks) (auto simp: read_witness_stacks_def)
  obtain r3 r4 r5 where
    "read_compact_size_as_usize field (tx_body X inputs outputs @ ?tail) = Inr (length inputs, r3)"
    "read_many (read_tx_in X field) (length inputs) r3 = Inr (inputs, r4)"
    "read_compact_size_as_usize field r4 = Inr (length outputs, r5)"
    "read_many (read_tx_out field) (length outputs) r5 = Inr (outputs, ?tail)"
    using read_body[OF hex ok] by blast
  then show ?thesis
    unfolding parse_transaction_def tx_bytes_def[of X version flag]
    by (simp add: u32s.dec_enc[OF w(1)] flag[simplified] ne stacks[simplified] lock strip expect_finished_def)
qed

lemma serialize_tx_hex_ok:
  assumes "\<forall>input\<in>set inputs. tx_in_ok X input"
  shows "serialize_tx_hex X version inputs outputs lock_time with_witness =
    Inr (hex_encode X (tx_bytes X version (if with_witness then [0, 1] else []) inputs outputs
      (if with_witness then concat (map (\<lambda>input. serialize_stack (is_witness_stack input)) inputs) else []) lock_time))"
  unfolding serialize_tx_hex_def serialize_inputs_ok[OF assms] by (simp add: tx_bytes_def tx_body_def)

lemma parse_transaction_Inr:
  assumes hex: "hex_law X" and run: "parse_transaction X bytes field = Inr tx"
  obtains flag stacks where
    "bytes = tx_bytes X (pt_version tx) flag (pt_inputs tx) (pt_outputs tx) stacks (pt_lock_time tx)"
    "tx_parts_ok X (pt_inputs tx) (pt_outputs tx)" "pt_version tx < 2 ^ 32" "pt_lock_time tx < 2 ^ 32"
    "pt_tx_without_witness tx = tx_bytes X (pt_version tx) [] (pt_inputs tx) (pt_outputs tx) [] (pt_lock_time tx)"
    "case pt_witness_stacks tx of None \<Rightarrow> flag = [] \<and> stacks = []
     | Some ss \<Rightarrow> (\<exists>b. b \<noteq> 0 \<and> flag = [0, b]) \<and> length ss = length (pt_inputs tx) \<and>
         (\<forall>s\<in>set ss. stack_ok s) \<and> stacks = concat (map serialize_stack ss)"
proof -
  obtain version r1 hw r2 n r3 ins r4 m r5 outs r6 ws r7 lock r8 stripped where
    rd: "read_u32 field bytes = Inr (version, r1)" "read_witness_flag field r1 = Inr (hw, r2)"
      "read_compact_size_as_usize field r2 = Inr (n, r3)" "n \<noteq> 0"
      "read_many (read_tx_in X field) n r3 = Inr (ins, r4)" "read_compact_size_as_usize field r4 = Inr (m, r5)"
      "read_many (read_tx_out field) m r5 = Inr (outs, r6)" "read_witness_stacks field hw n r6 = Inr (ws, r7)"
      "read_u32 field r7 = Inr (lock, r8)" "r8 = []"
      "strip_witness X version ins outs lock = Inr stripped"
    and tx: "tx = \<lparr> pt_version = version, pt_inputs = ins, pt_outputs = outs, pt_lock_time = lock,
        pt_witness_stacks = ws, pt_tx_without_witness = stripped \<rparr>"
    using run unfolding parse_transaction_def expect_finished_def
    by (auto simp: rbind_Inr if_Inl_Inr if_Inr_Inl split: if_splits)
  note parts = u32s.dec_Inr[OF rd(1)] counted_size_Inr[OF rd(3)]
    wire_format.many_Inr[OF tx_in_wire[OF hex] rd(5)] counted_size_Inr[OF rd(6)] tx_outs.many_Inr[OF rd(7)]
    u32s.dec_Inr[OF rd(9)]
  obtain flag where flag: "r1 = flag @ r2" "hw \<longrightarrow> (\<exists>b. b \<noteq> 0 \<and> flag = [0, b])" "\<not> hw \<longrightarrow> flag = []"
    using rd(2) that[of "[]"] that[of "take 2 r1"]
    by (cases r1; cases "tl r1") (auto simp: read_witness_flag_def peek_u8_def read_u8_def split: if_splits)
  obtain stacks where stacks: "r6 = stacks @ r7" "case ws of None \<Rightarrow> \<not> hw \<and> stacks = []
      | Some ss \<Rightarrow> hw \<and> length ss = n \<and> (\<forall>s\<in>set ss. stack_ok s) \<and> stacks = concat (map serialize_stack ss)"
    using rd(8) by (auto simp: read_witness_stacks_def rbind_Inr split: if_splits dest!: stacks.many_Inr)
  show thesis
  proof (rule that[of flag stacks])
    show "tx_parts_ok X (pt_inputs tx) (pt_outputs tx)" using parts rd(4) by (auto simp: tx tx_parts_ok_def)
    show "bytes = tx_bytes X (pt_version tx) flag (pt_inputs tx) (pt_outputs tx) stacks (pt_lock_time tx)"
      using parts flag(1) stacks(1) rd(10) by (simp add: tx tx_bytes_def tx_body_def)
    show "pt_tx_without_witness tx = tx_bytes X (pt_version tx) [] (pt_inputs tx) (pt_outputs tx) [] (pt_lock_time tx)"
      using rd(11) parts by (simp add: tx strip_witness_ok)
    show "case pt_witness_stacks tx of None \<Rightarrow> flag = [] \<and> stacks = []
     | Some ss \<Rightarrow> (\<exists>b. b \<noteq> 0 \<and> flag = [0, b]) \<and> length ss = length (pt_inputs tx) \<and>
         (\<forall>s\<in>set ss. stack_ok s) \<and> stacks = concat (map serialize_stack ss)"
      using flag(2,3) stacks(2) parts by (cases ws) (simp_all add: tx)
  qed (use parts in \<open>simp_all add: tx\<close>)
qed

lemma serialize_parse:
  assumes hex: "hex_law X" and ok: "tx_parts_ok X inputs outputs"
    and stacks: "\<forall>input\<in>set inputs. stack_ok (is_witness_stack input)"
    and w: "version < 2 ^ 32" "lock_time < 2 ^ 32"
  shows "\<exists>tx_hex. serialize_tx_hex X version inputs outputs lock_time with_witness = Inr tx_hex \<and>
    (\<exists>bytes. tx_hex = hex_encode X bytes) \<and>
    (\<forall>field. parse_transaction_hex X tx_hex field =
      Inr \<lparr> pt_version = version, pt_inputs = map ParsedTxIn.truncate inputs, pt_outputs = outputs,
          pt_lock_time = lock_time,
          pt_witness_stacks = (if with_witness then Some (map is_witness_stack inputs) else None),
          pt_tx_without_witness = tx_bytes X version [] inputs outputs [] lock_time \<rparr>)"
proof -
  let ?ins = "map ParsedTxIn.truncate inputs"
  have body: "tx_bytes X version flag ?ins outputs wit lock_time = tx_bytes X version flag inputs outputs wit lock_time"
    for flag wit by (simp add: tx_bytes_def tx_parts_truncate)
  have "parse_transaction X (tx_bytes X version (if with_witness then [0, 1] else []) ?ins outputs
      (if with_witness then concat (map (\<lambda>input. serialize_stack (is_witness_stack input)) inputs) else []) lock_time) field =
    Inr \<lparr> pt_version = version, pt_inputs = ?ins, pt_outputs = outputs, pt_lock_time = lock_time,
          pt_witness_stacks = (if with_witness then Some (map is_witness_stack inputs) else None),
          pt_tx_without_witness = tx_bytes X version [] ?ins outputs [] lock_time \<rparr>" for field
    using ok stacks w by (intro parse_tx_bytes hex) (simp_all add: tx_parts_truncate comp_def)
  then show ?thesis
    using ok by (auto simp: serialize_tx_hex_ok parse_transaction_hex_def hex_decode_encode[OF hex] body tx_parts_ok_def)
qed

text \<open>The field name occurs in errors only.\<close>

lemma parse_any_field:
  assumes hex: "hex_law X" and run: "parse_transaction_hex X s field = Inr tx"
  shows "parse_transaction_hex X s field' = Inr tx"
proof -
  obtain bytes where b: "hex_decode X s = Inr bytes" and p: "parse_transaction X bytes field = Inr tx"
    using run by (auto simp: parse_transaction_hex_def res_simps)
  obtain flag stacks where
    "bytes = tx_bytes X (pt_version tx) flag (pt_inputs tx) (pt_outputs tx) stacks (pt_lock_time tx)"
    "tx_parts_ok X (pt_inputs tx) (pt_outputs tx)" "pt_version tx < 2 ^ 32" "pt_lock_time tx < 2 ^ 32"
    "pt_tx_without_witness tx = tx_bytes X (pt_version tx) [] (pt_inputs tx) (pt_outputs tx) [] (pt_lock_time tx)"
    "case pt_witness_stacks tx of None \<Rightarrow> flag = [] \<and> stacks = []
     | Some ss \<Rightarrow> (\<exists>b. b \<noteq> 0 \<and> flag = [0, b]) \<and> length ss = length (pt_inputs tx) \<and>
         (\<forall>s\<in>set ss. stack_ok s) \<and> stacks = concat (map serialize_stack ss)"
    by (rule parse_transaction_Inr[OF hex p])
  with parse_tx_bytes[OF hex this(2-4,6), of field'] b show ?thesis
    by (simp add: parse_transaction_hex_def)
qed

section \<open>Properties\<close>

text \<open>Reading back a serialized transaction gives the transaction: whatever well-formed inputs,
  outputs and witness stacks are serialized, with or without witness data, the parser
  returns them, and the identifier of the result is that of the serialization without witness.\<close>

lemma parse_serialized_transaction:
  assumes hex: "hex_law X" and ok: "tx_parts_ok X inputs outputs"
    and stacks: "\<forall>input\<in>set inputs. stack_ok (is_witness_stack input)"
    and w: "version < 2 ^ 32" "lock_time < 2 ^ 32"
  shows "rbind (serialize_tx_hex X version inputs outputs lock_time with_witness)
      (\<lambda>tx_hex. parse_transaction_hex X tx_hex field) =
    Inr \<lparr> pt_version = version, pt_inputs = map ParsedTxIn.truncate inputs, pt_outputs = outputs,
          pt_lock_time = lock_time,
          pt_witness_stacks = (if with_witness then Some (map is_witness_stack inputs) else None),
          pt_tx_without_witness = tx_bytes X version [] inputs outputs [] lock_time \<rparr>"
proof -
  obtain tx_hex where "serialize_tx_hex X version inputs outputs lock_time with_witness = Inr tx_hex"
    and "\<forall>field. parse_transaction_hex X tx_hex field =
      Inr \<lparr> pt_version = version, pt_inputs = map ParsedTxIn.truncate inputs, pt_outputs = outputs,
          pt_lock_time = lock_time,
          pt_witness_stacks = (if with_witness then Some (map is_witness_stack inputs) else None),
          pt_tx_without_witness = tx_bytes X version [] inputs outputs [] lock_time \<rparr>"
    using serialize_parse[OF assms] by blast
  then show ?thesis by simp
qed

definition demo_tx_in :: TxInputSpec where
  "demo_tx_in = \<lparr> ti_prev_txid_hex = concat (replicate 32 ''0a''), ti_prev_vout = 1, ti_script_sig = [],
     ti_sequence = 7, is_witness_stack = [[1, 2], [0xc1]] \<rparr>"

definition demo_tx_out :: ParsedTxOut where
  "demo_tx_out = \<lparr> to_amount_sats = 5000, to_script_pubkey = [0x51, 2, 0x4e, 0x73] \<rparr>"

lemma demo_tx_ok: "tx_parts_ok demo_crypto [demo_tx_in] [demo_tx_out]"
  by code_simp

text \<open>The parser is strict: the bytes it accepts are the serialization of what it returns. Without
  witness data the identifier is computed from exactly the given bytes, so no two different
  byte strings without witness data are read as the same transaction; with witness data the
  only freedom is the value of the flag byte, which must not be zero.\<close>

lemma parse_transaction_strict:
  assumes hex: "hex_law X" and run: "parse_transaction X bytes field = Inr tx"
  shows "(pt_witness_stacks tx = None \<longrightarrow> pt_tx_without_witness tx = bytes) \<and>
    (\<forall>stacks. pt_witness_stacks tx = Some stacks \<longrightarrow> length stacks = length (pt_inputs tx) \<and>
       (\<exists>flag. flag \<noteq> 0 \<and> bytes = tx_bytes X (pt_version tx) [0, flag] (pt_inputs tx) (pt_outputs tx)
          (concat (map serialize_stack stacks)) (pt_lock_time tx))) \<and>
    pt_tx_without_witness tx = tx_bytes X (pt_version tx) [] (pt_inputs tx) (pt_outputs tx) [] (pt_lock_time tx) \<and>
    (\<forall>txo\<in>set (pt_outputs tx). to_amount_sats txo \<le> QBIT_MAX_MONEY_SATS)"
proof -
  obtain flag stacks where
    b: "bytes = tx_bytes X (pt_version tx) flag (pt_inputs tx) (pt_outputs tx) stacks (pt_lock_time tx)"
    and ok: "tx_parts_ok X (pt_inputs tx) (pt_outputs tx)"
    and strip: "pt_tx_without_witness tx = tx_bytes X (pt_version tx) [] (pt_inputs tx) (pt_outputs tx) [] (pt_lock_time tx)"
    and wit: "case pt_witness_stacks tx of None \<Rightarrow> flag = [] \<and> stacks = []
     | Some ss \<Rightarrow> (\<exists>b. b \<noteq> 0 \<and> flag = [0, b]) \<and> length ss = length (pt_inputs tx) \<and>
         (\<forall>s\<in>set ss. stack_ok s) \<and> stacks = concat (map serialize_stack ss)"
    by (rule parse_transaction_Inr[OF hex run])
  from ok have "\<forall>txo\<in>set (pt_outputs tx). to_amount_sats txo \<le> QBIT_MAX_MONEY_SATS"
    by (simp add: tx_parts_ok_def tx_out_ok_def)
  with b strip wit show ?thesis by (cases "pt_witness_stacks tx") auto
qed

end
