(* ===== verification/Settlement.thy ===== *)
theory Settlement
  imports Payout_Policy
begin

text \<open>
  Settlement modes and fan-out fees (\<^verbatim>\<open>src/crates/qbit-prism/src/settlement.rs\<close>). Recipients at or
  above the direct floor compete for direct coinbase outputs by amount, the others go to
  bounded fan-out chunks, and the fee of a fan-out is deducted in proportion, dropping
  recipients it would push below the floor. \<^verbatim>\<open>Iterator::sum\<close> on machine integers wraps in a
  release build and is modelled so; the lemmas show that it does not.
\<close>

section \<open>Data\<close>

definition MAX_COINBASE_SETTLEMENT_OUTPUTS :: usize where "MAX_COINBASE_SETTLEMENT_OUTPUTS = 500"
definition DEFAULT_MAX_COINBASE_SETTLEMENT_OUTPUTS :: usize where
  "DEFAULT_MAX_COINBASE_SETTLEMENT_OUTPUTS = 16"
definition MAX_DIRECT_COINBASE_OUTPUTS :: usize where
  "MAX_DIRECT_COINBASE_OUTPUTS = MAX_COINBASE_SETTLEMENT_OUTPUTS"
definition DEFAULT_MAX_DIRECT_COINBASE_OUTPUTS :: usize where
  "DEFAULT_MAX_DIRECT_COINBASE_OUTPUTS = 12"
definition OCEAN_ONCHAIN_PAYOUT_THRESHOLD_SATS :: u64 where
  "OCEAN_ONCHAIN_PAYOUT_THRESHOLD_SATS = 1048576"
definition DEFAULT_DIRECT_COINBASE_PAYOUT_FLOOR_SATS :: u64 where
  "DEFAULT_DIRECT_COINBASE_PAYOUT_FLOOR_SATS = OCEAN_ONCHAIN_PAYOUT_THRESHOLD_SATS * 10"
definition DEFAULT_CTV_FANOUT_FEE_PREMIUM_BPS :: u64 where
  "DEFAULT_CTV_FANOUT_FEE_PREMIUM_BPS = 12000"
definition QBIT_TRUC_MAX_TX_WEIGHT_BYTES :: usize where "QBIT_TRUC_MAX_TX_WEIGHT_BYTES = 50000"
definition CTV_FANOUT_P2MR_OUTPUT_BYTES :: usize where "CTV_FANOUT_P2MR_OUTPUT_BYTES = 43"
definition CTV_FANOUT_FIXED_WEIGHT_BYTES :: usize where "CTV_FANOUT_FIXED_WEIGHT_BYTES = 90"
definition MAX_CTV_FANOUT_RECIPIENTS_PER_TRANSACTION :: usize where
  "MAX_CTV_FANOUT_RECIPIENTS_PER_TRANSACTION = 1160"
definition DEFAULT_MAX_CTV_FANOUT_RECIPIENTS_PER_TRANSACTION :: usize where
  "DEFAULT_MAX_CTV_FANOUT_RECIPIENTS_PER_TRANSACTION = 1000"

datatype SettlementMode = DirectCoinbase | HybridCoinbaseCtvFanout | CtvFanout

record FanoutFeeRatePolicy =
  market_fee_rate_sats_per_1000_weight :: u64
  premium_bps :: u64

record SettlementModeConfig =
  max_coinbase_settlement_outputs :: usize
  max_direct_coinbase_outputs :: usize
  max_fanout_recipients_per_transaction :: usize
  reserved_coinbase_outputs :: usize

record SettlementRecipient = payee +
  sr_amount_sats :: u64

record SettlementFanoutChunk =
  sc_chunk_index :: usize
  sc_recipient_count :: usize
  sc_amount_sats :: u64
  sc_recipients :: "SettlementRecipient list"

record FanoutFeeRecipient = payee +
  fr_gross_amount_sats :: u64
  fee_sats :: u64
  net_amount_sats :: u64

record FanoutFeeDecision =
  total_gross_sats :: u64
  requested_fee_sats :: u64
  applied_fee_sats :: u64
  payable_recipients :: "FanoutFeeRecipient list"
  carry_forward_recipients :: "FanoutFeeRecipient list"

record SettlementModeDecision =
  mode :: SettlementMode
  direct_recipients :: "SettlementRecipient list"
  fanout_chunks :: "SettlementFanoutChunk list"
  direct_recipient_count :: usize
  fanout_recipient_count :: usize
  fanout_chunk_count_d :: usize
  direct_amount_sats :: u64
  fanout_amount_sats :: u64
  total_amount_sats :: u64
  coinbase_settlement_output_count :: usize
  reserved_coinbase_output_count :: usize
  reason :: string

definition default_settlement_config :: SettlementModeConfig where
  "default_settlement_config =
     \<lparr> max_coinbase_settlement_outputs = DEFAULT_MAX_COINBASE_SETTLEMENT_OUTPUTS,
       max_direct_coinbase_outputs = DEFAULT_MAX_DIRECT_COINBASE_OUTPUTS,
       max_fanout_recipients_per_transaction = DEFAULT_MAX_CTV_FANOUT_RECIPIENTS_PER_TRANSACTION,
       reserved_coinbase_outputs = 0 \<rparr>"

definition fee_rate_policy_new :: "u64 \<Rightarrow> u64 \<Rightarrow> FanoutFeeRatePolicy" where
  "fee_rate_policy_new rate premium =
     \<lparr> market_fee_rate_sats_per_1000_weight = rate, premium_bps = premium \<rparr>"

definition settlement_error :: "string \<Rightarrow> PrismError" where
  "settlement_error r = SettlementModeSelection r"

section \<open>Weight and fee of a fan-out\<close>

definition compact_size_len :: "usize \<Rightarrow> usize" where
  "compact_size_len value =
     (if value < 253 then 1 else if value \<le> 0xffff then 3 else if value \<le> 0xffffffff then 5 else 9)"

definition estimated_ctv_fanout_weight_bytes :: "usize \<Rightarrow> PrismError + usize" where
  "estimated_ctv_fanout_weight_bytes recipient_count =
     ok_or (Option.bind (checked_add 64 CTV_FANOUT_FIXED_WEIGHT_BYTES (compact_size_len recipient_count)) (\<lambda>base.
            Option.bind (checked_mul 64 recipient_count CTV_FANOUT_P2MR_OUTPUT_BYTES) (\<lambda>outputs.
              checked_add 64 base outputs)))
       (settlement_error ''fanout weight estimate overflowed'')"

definition estimate_ctv_fanout_fee_sats :: "usize \<Rightarrow> FanoutFeeRatePolicy \<Rightarrow> PrismError + u64" where
  "estimate_ctv_fanout_fee_sats recipient_count policy =
     (if recipient_count = 0 then Inl (settlement_error ''fanout recipient count must be positive'')
      else if market_fee_rate_sats_per_1000_weight policy = 0
      then Inl (settlement_error ''market_fee_rate_sats_per_1000_weight must be positive'')
      else if premium_bps policy = 0 then Inl (settlement_error ''premium_bps must be positive'')
      else
        rbind (estimated_ctv_fanout_weight_bytes recipient_count) (\<lambda>fanout_weight.
        rbind (ok_or (Option.bind (checked_mul 128 fanout_weight (market_fee_rate_sats_per_1000_weight policy))
                        (\<lambda>value. checked_mul 128 value (premium_bps policy)))
                 (settlement_error ''fanout fee estimate overflowed'')) (\<lambda>numerator.
        let denominator = 1000 * 10000 in
        rbind (ok_or (checked_add 128 numerator (denominator - 1))
                 (settlement_error ''fanout fee estimate overflowed'')) (\<lambda>adjusted.
        ok_or (try_from 64 (adjusted div denominator))
          (settlement_error ''fanout fee estimate exceeds uint64'')))))"

section \<open>Recipients\<close>

definition validate_config :: "SettlementModeConfig \<Rightarrow> PrismError + unit" where
  "validate_config config =
     (if max_coinbase_settlement_outputs config = 0
      then Inl (settlement_error ''max_coinbase_settlement_outputs must be positive'')
      else if max_coinbase_settlement_outputs config > MAX_COINBASE_SETTLEMENT_OUTPUTS
      then Inl (settlement_error ''max_coinbase_settlement_outputs must be <= 500'')
      else if max_direct_coinbase_outputs config > MAX_DIRECT_COINBASE_OUTPUTS
      then Inl (settlement_error ''max_direct_coinbase_outputs must be <= 500'')
      else if max_fanout_recipients_per_transaction config = 0
      then Inl (settlement_error ''max_fanout_recipients_per_transaction must be positive'')
      else if max_fanout_recipients_per_transaction config > MAX_CTV_FANOUT_RECIPIENTS_PER_TRANSACTION
      then Inl (settlement_error ''max_fanout_recipients_per_transaction must be <= 1160'')
      else
        rbind (estimated_ctv_fanout_weight_bytes (max_fanout_recipients_per_transaction config)) (\<lambda>w.
        if w > QBIT_TRUC_MAX_TX_WEIGHT_BYTES
        then Inl (settlement_error ''max_fanout_recipients_per_transaction exceeds qbit TRUC weight limit 50000'')
        else if reserved_coinbase_outputs config > max_coinbase_settlement_outputs config
        then Inl (settlement_error ''reserved_coinbase_outputs exceeds max_coinbase_settlement_outputs'')
        else Inr ()))"

definition normalize_recipient :: "crypto \<Rightarrow> SettlementRecipient \<Rightarrow> PrismError + SettlementRecipient" where
  "normalize_recipient X r =
     rbind (map_err (\<lambda>err. settlement_error (''recipient '' @ recipient_id r @ '' p2mr_program_hex must be hex: '' @ err))
              (hex_decode X (p2mr_program_hex r))) (\<lambda>bytes.
       if length bytes \<noteq> P2MR_PROGRAM_LEN
       then Inl (settlement_error (''recipient '' @ recipient_id r @ '' p2mr_program_hex must be 32 bytes, got ''
              @ show_nat (length bytes)))
       else Inr (r \<lparr> p2mr_program_hex := hex_encode X bytes \<rparr>))"

definition normalize_recipient_p2mr_programs ::
  "crypto \<Rightarrow> SettlementRecipient list \<Rightarrow> PrismError + SettlementRecipient list" where
  "normalize_recipient_p2mr_programs X recipients = rmap (normalize_recipient X) recipients"

text \<open>\<^verbatim>\<open>account_key\<close> of this module and its comparison functions are the canonical order.\<close>

definition validate_recipients :: "SettlementRecipient list \<Rightarrow> PrismError + unit" where
  "validate_recipients recipients =
     rbind (rfold (\<lambda>seen r.
         if sr_amount_sats r = 0
         then Inl (settlement_error (''recipient '' @ recipient_id r @ '' amount must be positive''))
         else if payee_order r \<in> seen
         then Inl (settlement_error (''duplicate settlement recipient '' @ recipient_id r))
         else Inr (insert (payee_order r) seen)) {} recipients) (\<lambda>_. Inr ())"

definition sum_amounts :: "SettlementRecipient list \<Rightarrow> PrismError + u64" where
  "sum_amounts recipients =
     try_sum 64 (settlement_error ''settlement amount overflowed'') (map sr_amount_sats recipients)"

definition canonical_recipients ::
  "crypto \<Rightarrow> SettlementRecipient list \<Rightarrow> PrismError + SettlementRecipient list" where
  "canonical_recipients X recipients =
     rbind (normalize_recipient_p2mr_programs X recipients) (\<lambda>normalized.
     let canonical = sort_key payee_order normalized in
     rbind (validate_recipients canonical) (\<lambda>_. Inr canonical))"

section \<open>Choosing the mode\<close>

definition resolve_pinned_direct_key ::
  "crypto \<Rightarrow> SettlementRecipient list \<Rightarrow> SettlementRecipient \<Rightarrow> SettlementModeConfig \<Rightarrow> PrismError + payee_key" where
  "resolve_pinned_direct_key X canonical pinned config =
     (if max_direct_coinbase_outputs config = 0
      then Inl (settlement_error ''pinned direct recipient requires max_direct_coinbase_outputs >= 1'')
      else
        rbind (normalize_recipient_p2mr_programs X [pinned]) (\<lambda>normalized.
        let key = payee_order (normalized ! 0) in
        if \<not> list_ex (\<lambda>r. payee_order r = key) canonical
        then Inl (settlement_error (''pinned direct recipient '' @ recipient_id pinned @
               '' is not among the settlement recipients''))
        else Inr key))"

definition fanout_chunk_count :: "usize \<Rightarrow> usize \<Rightarrow> PrismError + usize" where
  "fanout_chunk_count recipient_count max_per_chunk =
     (if recipient_count = 0 then Inr 0
      else ok_or (map_option (\<lambda>adjusted. adjusted div max_per_chunk)
                    (checked_add 64 recipient_count (max_per_chunk - 1)))
             (settlement_error ''fanout chunk count overflowed''))"

definition coinbase_output_total ::
  "usize \<Rightarrow> SettlementModeConfig \<Rightarrow> usize \<Rightarrow> usize \<Rightarrow> PrismError + usize" where
  "coinbase_output_total total_in config pinned_count direct_count =
     rbind (ok_or (Option.bind (checked_sub total_in pinned_count) (\<lambda>count. checked_sub count direct_count))
              (settlement_error ''direct recipient count exceeded total recipients'')) (\<lambda>fanout_count.
     rbind (fanout_chunk_count fanout_count (max_fanout_recipients_per_transaction config)) (\<lambda>chunk_count.
     ok_or (Option.bind (checked_add 64 (reserved_coinbase_outputs config) pinned_count) (\<lambda>a.
            Option.bind (checked_add 64 a direct_count) (\<lambda>b. checked_add 64 b chunk_count)))
       (settlement_error ''coinbase settlement output count overflowed'')))"

text \<open>The loop \<^verbatim>\<open>for direct_count in (0..=max_direct).rev()\<close>.\<close>

fun try_direct_counts ::
  "usize \<Rightarrow> SettlementModeConfig \<Rightarrow> usize \<Rightarrow> nat list \<Rightarrow> PrismError + usize" where
  "try_direct_counts total_in config pinned_count [] =
     Inl (settlement_error (''recipient partition requires more than '' @
       show_nat (max_coinbase_settlement_outputs config) @ '' coinbase settlement outputs''))"
| "try_direct_counts total_in config pinned_count (direct_count # counts) =
     rbind (coinbase_output_total total_in config pinned_count direct_count) (\<lambda>outputs.
       if outputs \<le> max_coinbase_settlement_outputs config then Inr direct_count
       else try_direct_counts total_in config pinned_count counts)"

definition select_direct_count ::
  "usize \<Rightarrow> usize \<Rightarrow> SettlementModeConfig \<Rightarrow> usize \<Rightarrow> PrismError + usize" where
  "select_direct_count total_in candidate_count config pinned_count =
     (let max_direct = min candidate_count (max_direct_coinbase_outputs config - pinned_count) in
      try_direct_counts total_in config pinned_count (rev [0..<max_direct + 1]))"

definition direct_priority :: "SettlementRecipient \<Rightarrow> int \<times> payee_key" where
  "direct_priority r = (- int (sr_amount_sats r), payee_order r)"

definition decision_reason ::
  "usize \<Rightarrow> usize \<Rightarrow> usize \<Rightarrow> u64 \<Rightarrow> usize \<Rightarrow> SettlementModeConfig \<Rightarrow> usize \<Rightarrow> string" where
  "decision_reason direct_count fanout_count chunk_count floor outputs config pinned_count =
     (let text = (if fanout_count = 0 then
            show_nat direct_count @ '' recipients meet the '' @ show_nat floor @
            ''-sat direct floor and fit within the '' @ show_nat (max_coinbase_settlement_outputs config) @
            ''-output coinbase settlement cap''
          else if direct_count = 0 then
            show_nat fanout_count @ '' recipients routed to '' @ show_nat chunk_count @
            '' CTV fanout chunk(s) capped at '' @ show_nat (max_fanout_recipients_per_transaction config) @
            '' recipients each; '' @ show_nat outputs @ '' coinbase settlement outputs used''
          else
            show_nat direct_count @ '' recipients paid directly by largest-liability priority; '' @
            show_nat fanout_count @ '' recipients routed to '' @ show_nat chunk_count @
            '' CTV fanout chunk(s); '' @ show_nat outputs @ '' of '' @
            show_nat (max_coinbase_settlement_outputs config) @ '' coinbase settlement outputs used'') in
      if pinned_count = 0 then text
      else text @ ''; '' @ show_nat pinned_count @
        '' direct settlement slot(s) pinned by the coinbase output policy'')"

definition settlement_chunk :: "usize \<times> SettlementRecipient list \<Rightarrow> PrismError + SettlementFanoutChunk" where
  "settlement_chunk = (\<lambda>(index, chunk).
     rbind (sum_amounts chunk) (\<lambda>amount.
       Inr \<lparr> sc_chunk_index = index, sc_recipient_count = length chunk, sc_amount_sats = amount,
             sc_recipients = chunk \<rparr>))"

definition settlement_mode_of ::
  "SettlementRecipient list \<Rightarrow> SettlementFanoutChunk list \<Rightarrow> PrismError + SettlementMode" where
  "settlement_mode_of direct chunk_list =
     (case (direct = [], chunk_list = []) of
        (False, True) \<Rightarrow> Inr DirectCoinbase
      | (True, False) \<Rightarrow> Inr CtvFanout
      | (False, False) \<Rightarrow> Inr HybridCoinbaseCtvFanout
      | (True, True) \<Rightarrow> Inl (settlement_error ''settlement partition is empty''))"

definition partition_recipients ::
  "payee_key option \<Rightarrow> u64 \<Rightarrow> usize \<Rightarrow> SettlementRecipient list \<Rightarrow>
     SettlementRecipient list \<times> SettlementRecipient list" where
  "partition_recipients pinned_key floor direct_count canonical =
     (let candidates = sort_key direct_priority
            (filter (\<lambda>r. sr_amount_sats r \<ge> floor \<and> pinned_key \<noteq> Some (payee_order r)) canonical);
          selected = set (map payee_order (take direct_count candidates));
          is_direct = (\<lambda>r. pinned_key = Some (payee_order r) \<or> payee_order r \<in> selected) in
      (filter is_direct canonical, filter (\<lambda>r. \<not> is_direct r) canonical))"

definition candidate_count :: "payee_key option \<Rightarrow> u64 \<Rightarrow> SettlementRecipient list \<Rightarrow> usize" where
  "candidate_count pinned_key floor canonical =
     length (filter (\<lambda>r. sr_amount_sats r \<ge> floor \<and> pinned_key \<noteq> Some (payee_order r)) canonical)"

definition settle_partition ::
  "SettlementModeConfig \<Rightarrow> u64 \<Rightarrow> usize \<Rightarrow> u64 \<Rightarrow> SettlementRecipient list \<Rightarrow> SettlementRecipient list \<Rightarrow>
     PrismError + SettlementModeDecision" where
  "settle_partition config floor pinned_count total_in direct fanout =
     rbind (sum_amounts direct) (\<lambda>direct_amount.
     rbind (sum_amounts fanout) (\<lambda>fanout_amount.
     rbind (ok_or (checked_add 64 direct_amount fanout_amount)
              (settlement_error ''settlement amount overflowed'')) (\<lambda>amount_sum.
     if amount_sum \<noteq> total_in then Inl (settlement_error ''settlement partition lost value'')
     else
       rbind (rmap settlement_chunk
                (enumerate 0 (chunks (max_fanout_recipients_per_transaction config) fanout))) (\<lambda>chunk_list.
       rbind (settlement_mode_of direct chunk_list) (\<lambda>m.
       let fanout_count = sum_list (map sc_recipient_count chunk_list) mod 2 ^ 64 in
       rbind (ok_or (Option.bind (checked_add 64 (reserved_coinbase_outputs config) (length direct)) (\<lambda>count.
                       checked_add 64 count (length chunk_list)))
                (settlement_error ''coinbase settlement output count overflowed'')) (\<lambda>outputs.
       Inr \<lparr> mode = m, direct_recipients = direct, fanout_chunks = chunk_list,
             direct_recipient_count = length direct, fanout_recipient_count = fanout_count,
             fanout_chunk_count_d = length chunk_list, direct_amount_sats = direct_amount,
             fanout_amount_sats = fanout_amount, total_amount_sats = total_in,
             coinbase_settlement_output_count = outputs,
             reserved_coinbase_output_count = reserved_coinbase_outputs config,
             reason = decision_reason (length direct) fanout_count (length chunk_list) floor outputs
               config pinned_count \<rparr>))))))"

definition select_settlement_mode_with_pinned_direct ::
  "crypto \<Rightarrow> SettlementRecipient list \<Rightarrow> u64 \<Rightarrow> SettlementModeConfig \<Rightarrow> SettlementRecipient option \<Rightarrow>
     PrismError + SettlementModeDecision" where
  "select_settlement_mode_with_pinned_direct X recipients floor config pinned_direct =
     rbind (validate_config config) (\<lambda>_.
     if recipients = [] then Inl (settlement_error ''no recipients to settle'')
     else
       rbind (canonical_recipients X recipients) (\<lambda>canonical.
       rbind (case pinned_direct of
                None \<Rightarrow> Inr None
              | Some pinned \<Rightarrow> rbind (resolve_pinned_direct_key X canonical pinned config) (\<lambda>k. Inr (Some k)))
         (\<lambda>pinned_key.
       let pinned_count = (if pinned_key = None then 0 else 1) in
       rbind (sum_amounts canonical) (\<lambda>total_in.
       rbind (select_direct_count (length recipients) (candidate_count pinned_key floor canonical) config pinned_count)
         (\<lambda>direct_count.
       let (direct, fanout) = partition_recipients pinned_key floor direct_count canonical in
       settle_partition config floor pinned_count total_in direct fanout)))))"

definition select_settlement_mode ::
  "crypto \<Rightarrow> SettlementRecipient list \<Rightarrow> u64 \<Rightarrow> SettlementModeConfig \<Rightarrow> PrismError + SettlementModeDecision" where
  "select_settlement_mode X recipients floor config =
     select_settlement_mode_with_pinned_direct X recipients floor config None"

definition pinned_settlement_recipient_for_policy :: "PayoutPolicyManifest \<Rightarrow> SettlementRecipient option" where
  "pinned_settlement_recipient_for_policy m =
     map_option (\<lambda>f. \<lparr> recipient_id = recipient_id f, order_key = order_key f,
       p2mr_program_hex = p2mr_program_hex f, sr_amount_sats = pf_amount_sats f \<rparr>) (pool_fee_first_output m)"

section \<open>Fan-out fees\<close>

definition fee_share ::
  "u64 \<Rightarrow> u64 \<Rightarrow> SettlementRecipient \<Rightarrow> PrismError + FanoutFeeRecipient \<times> u128" where
  "fee_share fee total_in r =
     rbind (ok_or (checked_mul 128 fee (sr_amount_sats r)) (settlement_error ''fanout fee allocation overflowed'')) (\<lambda>product.
     if total_in = 0 then Inl (Panicked ''attempt to divide by zero'')
     else
       rbind (ok_or (try_from 64 (product div total_in)) (settlement_error ''fanout fee share exceeds uint64'')) (\<lambda>share.
       rbind (ok_or (checked_sub (sr_amount_sats r) share) (settlement_error ''fanout fee exceeds recipient amount'')) (\<lambda>net.
       Inr (\<lparr> recipient_id = recipient_id r, order_key = order_key r, p2mr_program_hex = p2mr_program_hex r,
              fr_gross_amount_sats = sr_amount_sats r, fee_sats = share, net_amount_sats = net \<rparr>,
            product mod total_in))))"

definition fee_share_key :: "FanoutFeeRecipient \<times> u128 \<Rightarrow> int \<times> payee_key" where
  "fee_share_key = (\<lambda>(r, rem). (- int rem, payee_order r))"

definition charge_one_more ::
  "FanoutFeeRecipient \<times> u128 \<Rightarrow> PrismError + FanoutFeeRecipient \<times> u128" where
  "charge_one_more = (\<lambda>(r, rem).
     rbind (ok_or (checked_add 64 (fee_sats r) 1) (settlement_error ''fanout fee share overflowed'')) (\<lambda>fee.
     rbind (ok_or (checked_sub (fr_gross_amount_sats r) fee) (settlement_error ''fanout fee exceeds recipient amount'')) (\<lambda>net.
       Inr (r \<lparr> fee_sats := fee, net_amount_sats := net \<rparr>, rem))))"

definition allocate_proportional_fee ::
  "SettlementRecipient list \<Rightarrow> u64 \<Rightarrow> u64 \<Rightarrow> PrismError + FanoutFeeRecipient list" where
  "allocate_proportional_fee recipients fee total_in =
     rbind (rmap (fee_share fee total_in) recipients) (\<lambda>allocated.
     let floor_fee_sum = sum_list (map (\<lambda>p. fee_sats (fst p)) allocated) mod 2 ^ 64 in
     rbind (ok_or (checked_sub fee floor_fee_sum)
              (settlement_error ''fanout fee floor allocation exceeded total fee'')) (\<lambda>remainder_fee.
     let ordered = sort_key fee_share_key allocated in
     rbind (rmap charge_one_more (take remainder_fee ordered)) (\<lambda>charged.
       Inr (map fst (charged @ drop remainder_fee ordered)))))"

definition carried_fanout_fee_recipient :: "SettlementRecipient \<Rightarrow> FanoutFeeRecipient" where
  "carried_fanout_fee_recipient r =
     \<lparr> recipient_id = recipient_id r, order_key = order_key r, p2mr_program_hex = p2mr_program_hex r,
       fr_gross_amount_sats = sr_amount_sats r, fee_sats = 0, net_amount_sats = sr_amount_sats r \<rparr>"

definition below_floor :: "u64 \<Rightarrow> FanoutFeeRecipient \<Rightarrow> bool" where
  "below_floor floor r \<longleftrightarrow> \<not> net_amount_sats r \<ge> floor"

definition uncharge :: "FanoutFeeRecipient \<Rightarrow> FanoutFeeRecipient" where
  "uncharge r = r \<lparr> fee_sats := 0, net_amount_sats := fr_gross_amount_sats r \<rparr>"

definition fee_decision ::
  "u64 \<Rightarrow> u64 \<Rightarrow> u64 \<Rightarrow> FanoutFeeRecipient list \<Rightarrow> FanoutFeeRecipient list \<Rightarrow> FanoutFeeDecision" where
  "fee_decision total_in requested applied payable_list carried =
     \<lparr> total_gross_sats = total_in, requested_fee_sats = requested, applied_fee_sats = applied,
       payable_recipients = sort_key payee_order payable_list,
       carry_forward_recipients = sort_key payee_order carried \<rparr>"


text \<open>
  The \<^verbatim>\<open>loop\<close> of \<^verbatim>\<open>apply_proportional_fanout_fee\<close>: a round that leaves somebody below the
  floor removes at least one candidate, because the routine that splits the fee keeps the
  account keys.
\<close>

lemma fee_share_Inr: "fee_share fee W r = Inr p \<longleftrightarrow>
  fee * sr_amount_sats r < 2 ^ 128 \<and> W \<noteq> 0 \<and> lr_base fee W (sr_amount_sats r) < 2 ^ 64 \<and>
  lr_base fee W (sr_amount_sats r) \<le> sr_amount_sats r \<and>
  p = (\<lparr> recipient_id = recipient_id r, order_key = order_key r, p2mr_program_hex = p2mr_program_hex r,
         fr_gross_amount_sats = sr_amount_sats r, fee_sats = lr_base fee W (sr_amount_sats r),
         net_amount_sats = sr_amount_sats r - lr_base fee W (sr_amount_sats r) \<rparr>,
       lr_rem fee W (sr_amount_sats r))"
  unfolding fee_share_def rbind_Inr if_Inl_Inr lr_base_def lr_rem_def
  by (auto simp: res_simps checked_simps intro: le_Suc_ex)

lemma charge_one_more_Inr: "charge_one_more p = Inr q \<longleftrightarrow>
  fee_sats (fst p) + 1 < 2 ^ 64 \<and> fee_sats (fst p) + 1 \<le> fr_gross_amount_sats (fst p) \<and>
  q = ((fst p) \<lparr> fee_sats := fee_sats (fst p) + 1,
                  net_amount_sats := fr_gross_amount_sats (fst p) - (fee_sats (fst p) + 1) \<rparr>, snd p)"
  unfolding charge_one_more_def case_prod_unfold rbind_Inr
  by (auto simp: res_simps checked_simps
        intro!: exI[of _ "fr_gross_amount_sats (fst p) - Suc (fee_sats (fst p))"])

definition gross_key :: "FanoutFeeRecipient \<Rightarrow> payee_key \<times> u64" where
  "gross_key r = (payee_order r, fr_gross_amount_sats r)"

definition recipient_key :: "SettlementRecipient \<Rightarrow> payee_key \<times> u64" where
  "recipient_key r = (payee_order r, sr_amount_sats r)"

lemma charge_keeps_key: "charge_one_more p = Inr q \<Longrightarrow> gross_key (fst q) = gross_key (fst p)"
  by (simp add: charge_one_more_Inr gross_key_def payee_order_def)

lemma fee_share_key_kept: "fee_share fee W r = Inr p \<Longrightarrow> gross_key (fst p) = recipient_key r"
  by (simp add: fee_share_Inr gross_key_def recipient_key_def payee_order_def)

lemma allocate_fee_keys:
  assumes "allocate_proportional_fee rs fee W = Inr xs"
  shows "mset (map gross_key xs) = mset (map recipient_key rs)"
proof -
  obtain al R ch where al: "rmap (fee_share fee W) rs = Inr al"
    and ch: "rmap charge_one_more (take R (sort_key fee_share_key al)) = Inr ch"
    and xs: "xs = map fst (ch @ drop R (sort_key fee_share_key al))"
    using assms unfolding allocate_proportional_fee_def rbind_Inr Let_def by blast
  have "map (\<lambda>p. gross_key (fst p)) ch = map (\<lambda>p. gross_key (fst p)) (take R (sort_key fee_share_key al))"
    by (rule rmap_map[OF ch charge_keeps_key])
  then have "map gross_key xs = map (\<lambda>p. gross_key (fst p)) (sort_key fee_share_key al)"
    unfolding xs by (simp add: comp_def) (metis append_take_drop_id map_append)
  then have "mset (map gross_key xs) = mset (map (\<lambda>p. gross_key (fst p)) al)" by simp
  also have "map (\<lambda>p. gross_key (fst p)) al = map recipient_key rs"
    by (rule rmap_map[OF al fee_share_key_kept])
  finally show ?thesis .
qed

lemma allocate_fee_orders:
  assumes "allocate_proportional_fee rs fee W = Inr xs"
  shows "set (map payee_order xs) = set (map payee_order rs)"
proof -
  have "set (map gross_key xs) = set (map recipient_key rs)"
    by (rule mset_eq_setD[OF allocate_fee_keys[OF assms]])
  then have "fst ` set (map gross_key xs) = fst ` set (map recipient_key rs)" by (rule arg_cong)
  then show ?thesis by (simp add: image_image gross_key_def recipient_key_def)
qed

lemma fee_loop_shrinks:
  assumes "allocate_proportional_fee rs fee W = Inr xs" "filter P xs \<noteq> []"
  shows "length (filter (\<lambda>r. payee_order r \<notin> set (map payee_order (filter P xs))) rs) < length rs"
proof -
  obtain x where x: "x \<in> set (filter P xs)" using assms(2) by (meson list.set_sel(1))
  then have "payee_order x \<in> set (map payee_order rs)"
    using allocate_fee_orders[OF assms(1)] by auto
  then obtain r where "r \<in> set rs" "payee_order r = payee_order x" by auto
  with x show ?thesis by (intro length_filter_less[of r]) auto
qed

function fee_loop ::
  "u64 \<Rightarrow> u64 \<Rightarrow> u64 \<Rightarrow> SettlementRecipient list \<Rightarrow> FanoutFeeRecipient list \<Rightarrow> PrismError + FanoutFeeDecision" where
  "fee_loop fee floor total_gross candidates carried =
     (if candidates = [] then Inr (fee_decision total_gross fee 0 [] carried)
      else
        rbind (sum_amounts candidates) (\<lambda>candidate_sum.
        if fee \<ge> candidate_sum
        then Inr (fee_decision total_gross fee 0 [] (carried @ map carried_fanout_fee_recipient candidates))
        else
          rbind (allocate_proportional_fee candidates fee candidate_sum) (\<lambda>allocated.
          let payable_list = filter (\<lambda>r. \<not> below_floor floor r) allocated;
              below = filter (below_floor floor) allocated in
          if below = [] then Inr (fee_decision total_gross fee fee payable_list carried)
          else
            fee_loop fee floor total_gross
              (filter (\<lambda>r. payee_order r \<notin> set (map payee_order below)) candidates)
              (carried @ map uncharge below))))"
  by pat_completeness auto
termination
  by (relation "measure (\<lambda>(fee, floor, total_gross, candidates, carried). length candidates)")
    (auto dest: fee_loop_shrinks)

declare fee_loop.simps [simp del]

definition apply_proportional_fanout_fee ::
  "crypto \<Rightarrow> SettlementRecipient list \<Rightarrow> u64 \<Rightarrow> u64 \<Rightarrow> PrismError + FanoutFeeDecision" where
  "apply_proportional_fanout_fee X recipients fee floor =
     (if floor = 0 then Inl (settlement_error ''min_output_sats must be positive'')
      else if recipients = [] then Inl (settlement_error ''no fanout recipients to charge'')
      else
        rbind (canonical_recipients X recipients) (\<lambda>candidates.
        rbind (sum_amounts candidates) (\<lambda>total_gross.
        fee_loop fee floor total_gross candidates [])))"

definition apply_estimated_proportional_fanout_fee ::
  "crypto \<Rightarrow> SettlementRecipient list \<Rightarrow> u64 \<Rightarrow> FanoutFeeRatePolicy \<Rightarrow> PrismError + FanoutFeeDecision" where
  "apply_estimated_proportional_fanout_fee X recipients floor policy =
     rbind (estimate_ctv_fanout_fee_sats (length recipients) policy) (\<lambda>fee.
       apply_proportional_fanout_fee X recipients fee floor)"


section \<open>The fee is split by largest remainders\<close>

definition fee_floor_share :: "u64 \<Rightarrow> u64 \<Rightarrow> SettlementRecipient \<Rightarrow> FanoutFeeRecipient \<times> u128" where
  "fee_floor_share fee W r =
     (\<lparr> recipient_id = recipient_id r, order_key = order_key r, p2mr_program_hex = p2mr_program_hex r,
        fr_gross_amount_sats = sr_amount_sats r, fee_sats = lr_base fee W (sr_amount_sats r),
        net_amount_sats = sr_amount_sats r - lr_base fee W (sr_amount_sats r) \<rparr>,
      lr_rem fee W (sr_amount_sats r))"

definition one_more :: "FanoutFeeRecipient \<times> u128 \<Rightarrow> FanoutFeeRecipient \<times> u128" where
  "one_more p = ((fst p) \<lparr> fee_sats := fee_sats (fst p) + 1,
                  net_amount_sats := fr_gross_amount_sats (fst p) - (fee_sats (fst p) + 1) \<rparr>, snd p)"

definition fee_order :: "u64 \<Rightarrow> SettlementRecipient list \<Rightarrow> (FanoutFeeRecipient \<times> u128) list" where
  "fee_order fee rs =
     sort_key fee_share_key (map (fee_floor_share fee (sum_list (map sr_amount_sats rs))) rs)"

definition fee_split :: "u64 \<Rightarrow> SettlementRecipient list \<Rightarrow> FanoutFeeRecipient list" where
  "fee_split fee rs =
     (let k = lr_left fee (map sr_amount_sats rs) in
      map fst (map one_more (take k (fee_order fee rs)) @ drop k (fee_order fee rs)))"

lemma fee_shares_Inr:
  assumes "rmap (fee_share fee W) rs = Inr al"
  shows "al = map (fee_floor_share fee W) rs \<and> (rs \<noteq> [] \<longrightarrow> 0 < W) \<and>
    (\<forall>r\<in>set rs. lr_base fee W (sr_amount_sats r) \<le> sr_amount_sats r)"
proof -
  have al: "list_all2 (\<lambda>r p. fee_share fee W r = Inr p) rs al" using assms by (simp add: rmap_Inr)
  have "list_all2 (\<lambda>r p. p = fee_floor_share fee W r) rs al"
    by (rule list_all2_mono[OF al]) (simp add: fee_share_Inr fee_floor_share_def)
  moreover have "\<forall>r\<in>set rs. 0 < W \<and> lr_base fee W (sr_amount_sats r) \<le> sr_amount_sats r"
    using list_all2_set1[OF al] by (auto simp: fee_share_Inr)
  ultimately show ?thesis by (cases rs) (auto simp: list_all2_eq_map)
qed

lemma fee_floor_sum:
  "sum_list (map (\<lambda>p. fee_sats (fst p)) (map (fee_floor_share fee W) rs)) =
   sum_list (map (lr_base fee W) (map sr_amount_sats rs))"
  by (simp add: fee_floor_share_def comp_def)

lemma allocate_fee_Inr:
  assumes run: "allocate_proportional_fee rs fee W = Inr xs" and ne: "rs \<noteq> []"
    and W: "W = sum_list (map sr_amount_sats rs)" and fee: "fee < 2 ^ 64"
  shows "0 < W \<and> xs = fee_split fee rs \<and>
    (\<forall>p\<in>set (take (lr_left fee (map sr_amount_sats rs)) (fee_order fee rs)).
       fee_sats (fst p) + 1 \<le> fr_gross_amount_sats (fst p)) \<and>
    (\<forall>r\<in>set rs. lr_base fee W (sr_amount_sats r) \<le> sr_amount_sats r)"
proof -
  let ?f = "\<lambda>al. sum_list (map (\<lambda>p. fee_sats (fst p)) al) mod 2 ^ 64"
  obtain al R ch where al: "rmap (fee_share fee W) rs = Inr al"
    and R: "fee = ?f al + R"
    and ch: "rmap charge_one_more (take R (sort_key fee_share_key al)) = Inr ch"
    and xs: "xs = map fst (ch @ drop R (sort_key fee_share_key al))"
    using run unfolding allocate_proportional_fee_def rbind_Inr Let_def ok_or_Inr checked_sub_Some
    by blast
  have sh: "al = map (fee_floor_share fee W) rs" "0 < W"
    "\<forall>r\<in>set rs. lr_base fee W (sr_amount_sats r) \<le> sr_amount_sats r"
    using fee_shares_Inr[OF al] ne by auto
  have "sum_list (map (lr_base fee W) (map sr_amount_sats rs)) \<le> fee"
    unfolding W by (rule lr_base_sum_le) (use sh(2) W in simp)
  then have k: "R = lr_left fee (map sr_amount_sats rs)"
    using R fee unfolding sh(1) fee_floor_sum lr_left_def W by simp
  have ord: "sort_key fee_share_key al = fee_order fee rs" unfolding fee_order_def sh(1) W by simp
  have ch2: "list_all2 (\<lambda>p q. charge_one_more p = Inr q) (take R (fee_order fee rs)) ch"
    using ch by (simp add: rmap_Inr ord)
  have "list_all2 (\<lambda>p q. q = one_more p) (take R (fee_order fee rs)) ch"
    by (rule list_all2_mono[OF ch2]) (simp add: charge_one_more_Inr one_more_def)
  then have "ch = map one_more (take R (fee_order fee rs))" by (simp add: list_all2_eq_map)
  moreover have "\<forall>p\<in>set (take R (fee_order fee rs)). fee_sats (fst p) + 1 \<le> fr_gross_amount_sats (fst p)"
    using list_all2_set1[OF ch2] by (auto simp: charge_one_more_Inr)
  ultimately show ?thesis using sh xs ord k by (simp add: fee_split_def Let_def)
qed

lemma length_fee_order [simp]: "length (fee_order fee rs) = length rs"
  by (simp add: fee_order_def)

lemma fee_split_nth:
  "length (fee_split fee rs) = length rs"
  "i < length rs \<Longrightarrow> fee_split fee rs ! i =
     fst (if i < lr_left fee (map sr_amount_sats rs) then one_more (fee_order fee rs ! i)
          else fee_order fee rs ! i)"
  by (auto simp: fee_split_def Let_def fee_order_def nth_append min_def)

lemma fee_order_entries:
  assumes "p \<in> set (fee_order fee rs)"
  shows "fee_sats (fst p) = lr_base fee (sum_list (map sr_amount_sats rs)) (fr_gross_amount_sats (fst p)) \<and>
    snd p = lr_rem fee (sum_list (map sr_amount_sats rs)) (fr_gross_amount_sats (fst p)) \<and>
    net_amount_sats (fst p) = fr_gross_amount_sats (fst p) - fee_sats (fst p) \<and>
    (\<exists>r\<in>set rs. fr_gross_amount_sats (fst p) = sr_amount_sats r)"
  using assms by (auto simp: fee_order_def fee_floor_share_def)

lemma fee_split_gross: "map fr_gross_amount_sats (fee_split fee rs) =
  map (\<lambda>p. fr_gross_amount_sats (fst p)) (fee_order fee rs)"
  by (rule nth_equalityI) (auto simp: fee_split_nth one_more_def fee_order_def)

lemma fee_order_gross:
  "mset (map (\<lambda>p. fr_gross_amount_sats (fst p)) (fee_order fee rs)) = mset (map sr_amount_sats rs)"
  by (simp add: fee_order_def fee_floor_share_def image_mset.compositionality comp_def)

lemma fee_split_largest:
  assumes "0 < sum_list (map sr_amount_sats rs)"
  shows "largest_remainder fee (map fr_gross_amount_sats (fee_split fee rs)) (map fee_sats (fee_split fee rs))"
proof (rule largest_remainder_prefix)
  let ?ws = "map fr_gross_amount_sats (fee_split fee rs)" and ?ord = "fee_order fee rs"
  have ms: "mset ?ws = mset (map sr_amount_sats rs)" unfolding fee_split_gross by (rule fee_order_gross)
  have W: "sum_list ?ws = sum_list (map sr_amount_sats rs)" by (metis ms sum_mset_sum_list)
  have k: "lr_left fee ?ws = lr_left fee (map sr_amount_sats rs)" by (rule lr_left_mset[OF ms])
  have len: "length ?ord = length rs" by (simp add: fee_order_def)
  have ent: "fee_sats (fst (?ord ! i)) = lr_base fee (sum_list ?ws) (?ws ! i)"
    "snd (?ord ! i) = lr_rem fee (sum_list ?ws) (?ws ! i)" if "i < length rs" for i
    using fee_order_entries[of "?ord ! i" fee rs] that len W unfolding fee_split_gross by simp_all
  show "0 < sum_list ?ws" using assms W by simp
  show "length (map fee_sats (fee_split fee rs)) = length ?ws" by simp
  show "lr_rem fee (sum_list ?ws) (?ws ! j) \<le> lr_rem fee (sum_list ?ws) (?ws ! i)"
    if "i < lr_left fee ?ws" "lr_left fee ?ws \<le> j" "j < length ?ws" for i j
  proof -
    have ij: "i \<le> j" "j < length rs" "i < length rs" using that by (simp_all add: fee_split_nth)
    have "sorted (map fee_share_key ?ord)" by (simp add: fee_order_def)
    then have "fee_share_key (?ord ! i) \<le> fee_share_key (?ord ! j)"
      using ij len sorted_nth_mono[of "map fee_share_key ?ord" i j] by simp
    then have "snd (?ord ! j) \<le> snd (?ord ! i)"
      by (auto simp: fee_share_key_def case_prod_unfold less_eq_prod_def)
    then show ?thesis by (simp only: ent(2)[OF ij(2)] ent(2)[OF ij(3)])
  qed
  show "map fee_sats (fee_split fee rs) ! i = lr_base fee (sum_list ?ws) (?ws ! i) +
      (if i < lr_left fee ?ws then 1 else 0)" if "i < length ?ws" for i
  proof -
    have i: "i < length rs" using that by (simp add: fee_split_nth)
    then have "map fee_sats (fee_split fee rs) ! i =
        fee_sats (fst (?ord ! i)) + (if i < lr_left fee ?ws then 1 else 0)"
      unfolding k by (simp add: fee_split_nth one_more_def)
    then show ?thesis by (simp only: ent(1)[OF i])
  qed
qed

lemma allocate_fee_split:
  assumes "allocate_proportional_fee rs fee (sum_list (map sr_amount_sats rs)) = Inr xs"
    and "rs \<noteq> []" "fee < 2 ^ 64"
  shows "mset (map gross_key xs) = mset (map recipient_key rs)"
    and "largest_remainder fee (map fr_gross_amount_sats xs) (map fee_sats xs)"
    and "\<forall>x\<in>set xs. fr_gross_amount_sats x = fee_sats x + net_amount_sats x"
proof -
  note a = allocate_fee_Inr[OF assms(1,2) refl assms(3)]
  show "mset (map gross_key xs) = mset (map recipient_key rs)" by (rule allocate_fee_keys[OF assms(1)])
  show "largest_remainder fee (map fr_gross_amount_sats xs) (map fee_sats xs)"
    using a fee_split_largest by blast
  show "\<forall>x\<in>set xs. fr_gross_amount_sats x = fee_sats x + net_amount_sats x"
  proof
    fix x assume "x \<in> set xs"
    then obtain i where i: "i < length rs" "x = fee_split fee rs ! i"
      using a fee_split_nth(1) by (metis in_set_conv_nth)
    let ?p = "fee_order fee rs ! i"
    have p: "?p \<in> set (fee_order fee rs)" using i(1) by simp
    show "fr_gross_amount_sats x = fee_sats x + net_amount_sats x"
    proof (cases "i < lr_left fee (map sr_amount_sats rs)")
      case True
      then have "?p \<in> set (take (lr_left fee (map sr_amount_sats rs)) (fee_order fee rs))"
        using i(1) by (auto simp: in_set_conv_nth intro!: exI[of _ i])
      with a True i show ?thesis by (auto simp: fee_split_nth one_more_def)
    next
      case False
      with a i fee_order_entries[OF p] show ?thesis by (auto simp: fee_split_nth)
    qed
  qed
qed

interpretation fanout_fees: proportional_allocator
  "\<lambda>fee rs. if rs = [] then Inl (settlement_error ''no fanout recipients to charge'')
            else allocate_proportional_fee rs fee (sum_list (map sr_amount_sats rs))"
  recipient_key gross_key snd fee_sats
proof unfold_locales
  fix T and es :: "SettlementRecipient list" and xs
  assume "(if es = [] then Inl (settlement_error ''no fanout recipients to charge'')
    else allocate_proportional_fee es T (sum_list (map sr_amount_sats es))) = Inr xs" and T: "T < 2 ^ 64"
  then have "allocate_proportional_fee es T (sum_list (map sr_amount_sats es)) = Inr xs" "es \<noteq> []"
    by (auto split: if_splits)
  from allocate_fee_split[OF this T]
  show "mset (map gross_key xs) = mset (map recipient_key es) \<and>
      largest_remainder T (map (\<lambda>x. snd (gross_key x)) xs) (map fee_sats xs)"
    by (simp add: gross_key_def)
qed

section \<open>The fee loop\<close>

lemma fee_share_ok:
  assumes "r \<in> set rs" "fee < sum_list (map sr_amount_sats rs)" "sum_list (map sr_amount_sats rs) < 2 ^ 64"
  shows "fee_share fee (sum_list (map sr_amount_sats rs)) r =
    Inr (fee_floor_share fee (sum_list (map sr_amount_sats rs)) r)"
proof -
  let ?W = "sum_list (map sr_amount_sats rs)"
  have a: "sr_amount_sats r \<le> ?W" using assms(1) by (simp add: member_le_sum_list)
  have "fee * sr_amount_sats r < 2 ^ 64 * 2 ^ 64"
    using a assms(2,3) by (intro mult_strict_mono') simp_all
  then have prod: "fee * sr_amount_sats r < 2 ^ 128" by simp
  have "fee * sr_amount_sats r div ?W \<le> ?W * sr_amount_sats r div ?W"
    using assms(2) by (intro div_le_mono mult_le_mono) simp_all
  also have "\<dots> = sr_amount_sats r" using gr_implies_not0[OF assms(2)] by (rule nonzero_mult_div_cancel_left)
  finally have "lr_base fee ?W (sr_amount_sats r) \<le> sr_amount_sats r" unfolding lr_base_def .
  with prod a assms(2,3) gr_implies_not0[OF assms(2)] show ?thesis
    unfolding fee_share_Inr fee_floor_share_def by - (intro conjI; (rule refl | linarith))
qed

lemma charge_ok:
  assumes fee: "fee < sum_list (map sr_amount_sats rs)" and W: "sum_list (map sr_amount_sats rs) < 2 ^ 64"
    and p: "p \<in> set (take (lr_left fee (map sr_amount_sats rs)) (fee_order fee rs))"
  shows "charge_one_more p = Inr (one_more p)"
proof -
  let ?k = "lr_left fee (map sr_amount_sats rs)"
  obtain i where i: "i < ?k" "i < length rs" "p = fee_order fee rs ! i"
    using p by (auto simp: in_set_conv_nth)
  have lr: "largest_remainder fee (map fr_gross_amount_sats (fee_split fee rs)) (map fee_sats (fee_split fee rs))"
    by (rule fee_split_largest) (use fee in simp)
  have sum: "sum_list (map fr_gross_amount_sats (fee_split fee rs)) = sum_list (map sr_amount_sats rs)"
    unfolding fee_split_gross by (metis fee_order_gross sum_mset_sum_list)
  have "map fee_sats (fee_split fee rs) ! i \<le> map fr_gross_amount_sats (fee_split fee rs) ! i"
    by (rule largest_remainder_le_weight[OF lr]) (use i fee sum in \<open>simp_all add: fee_split_nth\<close>)
  then have le: "fee_sats (fst p) + 1 \<le> fr_gross_amount_sats (fst p)"
    using i by (simp add: fee_split_nth one_more_def)
  have "p \<in> set (fee_order fee rs)" using p set_take_subset by fast
  then obtain r where "r \<in> set rs" "fr_gross_amount_sats (fst p) = sr_amount_sats r"
    using fee_order_entries by blast
  then have "fr_gross_amount_sats (fst p) \<le> sum_list (map sr_amount_sats rs)"
    by (simp add: member_le_sum_list)
  with le W show ?thesis by (simp add: charge_one_more_Inr one_more_def)
qed

lemma allocate_fee_ok:
  assumes "fee < sum_list (map sr_amount_sats rs)" "sum_list (map sr_amount_sats rs) < 2 ^ 64"
  shows "allocate_proportional_fee rs fee (sum_list (map sr_amount_sats rs)) = Inr (fee_split fee rs)"
proof -
  let ?W = "sum_list (map sr_amount_sats rs)" and ?k = "lr_left fee (map sr_amount_sats rs)"
  have al: "rmap (fee_share fee ?W) rs = Inr (map (fee_floor_share fee ?W) rs)"
    by (rule rmap_all_ok) (rule fee_share_ok[OF _ assms])
  have le: "sum_list (map (lr_base fee ?W) (map sr_amount_sats rs)) \<le> fee"
    by (rule lr_base_sum_le) (use assms(1) in simp)
  then have rem: "checked_sub fee (sum_list (map (\<lambda>p. fee_sats (fst p)) (map (fee_floor_share fee ?W) rs)) mod 2 ^ 64)
      = Some ?k"
    unfolding fee_floor_sum checked_sub_Some lr_left_def using assms by simp
  have "rmap charge_one_more (take ?k (fee_order fee rs)) = Inr (map one_more (take ?k (fee_order fee rs)))"
    by (rule rmap_all_ok) (rule charge_ok[OF assms])
  then show ?thesis
    unfolding allocate_proportional_fee_def al rbind.simps Let_def rem ok_or_simps
    by (simp add: fee_split_def fee_order_def Let_def)
qed

lemma filter_distinct_key_mem:
  assumes "distinct (map f xs)"
  shows "filter (\<lambda>x. f x \<in> f ` set (filter P xs)) xs = filter P xs"
  using assms by (intro filter_cong) (auto simp: distinct_map inj_on_def)

lemma below_floor_removed:
  assumes dist: "distinct (map payee_order rs)"
    and keys: "mset (map gross_key xs) = mset (map recipient_key rs)"
  shows "mset (map gross_key (filter P xs)) +
    mset (map recipient_key (filter (\<lambda>r. payee_order r \<notin> set (map payee_order (filter P xs))) rs)) =
    mset (map recipient_key rs)"
proof -
  let ?B = "payee_order ` set (filter P xs)" and ?M = "mset (map recipient_key rs)"
  have "mset (map payee_order xs) = image_mset fst (mset (map gross_key xs))"
    by (simp add: image_mset.compositionality comp_def gross_key_def)
  also have "\<dots> = mset (map payee_order rs)"
    unfolding keys by (simp add: image_mset.compositionality comp_def recipient_key_def)
  finally have "distinct (map payee_order xs)" using dist by (metis mset_eq_imp_distinct_iff)
  then have "filter P xs = filter (\<lambda>x. payee_order x \<in> ?B) xs" by (simp only: filter_distinct_key_mem)
  then have "map gross_key (filter P xs) = filter (\<lambda>k. fst k \<in> ?B) (map gross_key xs)"
    by (metis (mono_tags, lifting) filter_cong filter_map comp_apply fst_conv gross_key_def)
  then have a: "mset (map gross_key (filter P xs)) = filter_mset (\<lambda>k. fst k \<in> ?B) ?M"
    by (metis keys mset_filter)
  have "map recipient_key (filter (\<lambda>r. payee_order r \<notin> ?B) rs) = filter (\<lambda>k. fst k \<notin> ?B) (map recipient_key rs)"
    by (simp add: filter_map comp_def recipient_key_def)
  then have b: "mset (map recipient_key (filter (\<lambda>r. payee_order r \<notin> ?B) rs)) = filter_mset (\<lambda>k. fst k \<notin> ?B) ?M"
    by (metis mset_filter)
  show ?thesis unfolding a set_map b by (rule multiset_partition[symmetric])
qed

text \<open>What the loop leaves: payable recipients \<open>p\<close> that share the whole fee and recipients \<open>c\<close> that it carries.\<close>

definition fee_shared :: "u64 \<Rightarrow> u64 \<Rightarrow> FanoutFeeRecipient list \<Rightarrow> bool" where
  "fee_shared fee floor p \<longleftrightarrow>
     (\<forall>r\<in>set p. fr_gross_amount_sats r = fee_sats r + net_amount_sats r \<and> floor \<le> net_amount_sats r) \<and>
     (p \<noteq> [] \<longrightarrow> largest_remainder fee (map fr_gross_amount_sats p) (map fee_sats p))"

definition uncharged :: "FanoutFeeRecipient list \<Rightarrow> bool" where
  "uncharged c \<longleftrightarrow> (\<forall>r\<in>set c. fee_sats r = 0 \<and> net_amount_sats r = fr_gross_amount_sats r)"

definition fee_outcome ::
  "u64 \<Rightarrow> u64 \<Rightarrow> SettlementRecipient list \<Rightarrow> FanoutFeeRecipient list \<Rightarrow> FanoutFeeRecipient list \<Rightarrow> bool" where
  "fee_outcome fee floor rs p c \<longleftrightarrow>
     mset (map gross_key (p @ c)) = mset (map recipient_key rs) \<and> fee_shared fee floor p \<and> uncharged c"

lemma uncharge_simps [simp]:
  "gross_key (uncharge r) = gross_key r" "fee_sats (uncharge r) = 0"
  "net_amount_sats (uncharge r) = fr_gross_amount_sats (uncharge r)"
  by (simp_all add: uncharge_def gross_key_def payee_order_def)

lemma carried_simps [simp]:
  "gross_key (carried_fanout_fee_recipient r) = recipient_key r"
  "fee_sats (carried_fanout_fee_recipient r) = 0"
  "net_amount_sats (carried_fanout_fee_recipient r) = fr_gross_amount_sats (carried_fanout_fee_recipient r)"
  by (simp_all add: carried_fanout_fee_recipient_def gross_key_def recipient_key_def payee_order_def)

lemma fee_outcome_none: "fee_outcome fee floor rs [] (map carried_fanout_fee_recipient rs)"
  by (simp add: fee_outcome_def fee_shared_def uncharged_def comp_def)

lemma fee_outcome_all:
  assumes "allocate_proportional_fee rs fee (sum_list (map sr_amount_sats rs)) = Inr xs"
    and "rs \<noteq> []" "fee < 2 ^ 64" "filter (below_floor floor) xs = []"
  shows "fee_outcome fee floor rs xs []"
  using allocate_fee_split[OF assms(1-3)] assms(4)
  by (auto simp: fee_outcome_def fee_shared_def uncharged_def below_floor_def filter_empty_conv not_le)

lemma fee_outcome_round:
  assumes "allocate_proportional_fee rs fee (sum_list (map sr_amount_sats rs)) = Inr xs"
    and "distinct (map payee_order rs)"
    and "fee_outcome fee floor (filter (\<lambda>r. payee_order r \<notin> set (map payee_order (filter P xs))) rs) p c"
  shows "fee_outcome fee floor rs p (map uncharge (filter P xs) @ c)"
proof -
  let ?rest = "filter (\<lambda>r. payee_order r \<notin> set (map payee_order (filter P xs))) rs"
  have "mset (map gross_key (p @ map uncharge (filter P xs) @ c)) =
      mset (map gross_key (filter P xs)) + mset (map gross_key (p @ c))"
    by (simp add: comp_def)
  also have "mset (map gross_key (p @ c)) = mset (map recipient_key ?rest)"
    using assms(3) by (simp only: fee_outcome_def)
  also have "mset (map gross_key (filter P xs)) + \<dots> = mset (map recipient_key rs)"
    by (rule below_floor_removed[OF assms(2) allocate_fee_keys[OF assms(1)]])
  finally show ?thesis using assms(3) by (auto simp: fee_outcome_def uncharged_def)
qed

lemma sum_filter_le: "sum_list (map f (filter P xs)) \<le> (sum_list (map f xs) :: nat)"
  by (induction xs) auto

lemma fee_loop_outcome:
  assumes "distinct (map payee_order rs)" "sum_list (map sr_amount_sats rs) < 2 ^ 64"
  shows "\<exists>p c. fee_loop fee floor T rs carried =
      Inr (fee_decision T fee (if p = [] then 0 else fee) p (carried @ c)) \<and> fee_outcome fee floor rs p c"
  using assms
proof (induction fee floor T rs carried rule: fee_loop.induct)
  case (1 fee floor T rs carried)
  let ?W = "sum_list (map sr_amount_sats rs)"
  have sum: "sum_amounts rs = Inr ?W" using "1.prems"(2) by (simp add: sum_amounts_def try_sum_Inr)
  show ?case
  proof (cases "rs = [] \<or> ?W \<le> fee")
    case True
    then have "fee_loop fee floor T rs carried =
        Inr (fee_decision T fee 0 [] (carried @ map carried_fanout_fee_recipient rs))"
      by (subst fee_loop.simps) (auto simp: sum)
    then show ?thesis using fee_outcome_none
      by (intro exI[of _ "[]"] exI[of _ "map carried_fanout_fee_recipient rs"]) simp
  next
    case False
    let ?xs = "fee_split fee rs"
    have ne: "rs \<noteq> []" and nle: "\<not> ?W \<le> fee" and lt: "fee < ?W" using False by auto
    have al: "allocate_proportional_fee rs fee ?W = Inr ?xs" by (rule allocate_fee_ok[OF lt "1.prems"(2)])
    show ?thesis
    proof (cases "filter (below_floor floor) ?xs = []")
      case True
      then have "filter (\<lambda>r. \<not> below_floor floor r) ?xs = ?xs" by (simp add: filter_empty_conv)
      moreover have "?xs \<noteq> []" using ne fee_split_nth(1)[of fee rs] by (metis length_0_conv)
      ultimately have "fee_loop fee floor T rs carried =
          Inr (fee_decision T fee (if ?xs = [] then 0 else fee) ?xs (carried @ []))"
        by (subst fee_loop.simps) (simp add: ne nle sum al True Let_def)
      then show ?thesis using fee_outcome_all[OF al ne _ True] lt "1.prems"(2)
        by (intro exI[of _ ?xs] exI[of _ "[]"]) simp
    next
      case more: False
      let ?rs = "filter (\<lambda>r. payee_order r \<notin> set (map payee_order (filter (below_floor floor) ?xs))) rs"
      have "\<exists>p c. fee_loop fee floor T ?rs (carried @ map uncharge (filter (below_floor floor) ?xs)) =
          Inr (fee_decision T fee (if p = [] then 0 else fee) p ((carried @ map uncharge (filter (below_floor floor) ?xs)) @ c)) \<and>
          fee_outcome fee floor ?rs p c"
        by (rule "1.IH"[OF ne sum _ al refl refl more])
          (use lt "1.prems" le_less_trans[OF sum_filter_le] in \<open>auto simp: distinct_map_filter\<close>)
      then obtain p c where pc: "fee_loop fee floor T ?rs (carried @ map uncharge (filter (below_floor floor) ?xs)) =
          Inr (fee_decision T fee (if p = [] then 0 else fee) p ((carried @ map uncharge (filter (below_floor floor) ?xs)) @ c))"
        "fee_outcome fee floor ?rs p c" by blast
      have "fee_loop fee floor T rs carried =
          fee_loop fee floor T ?rs (carried @ map uncharge (filter (below_floor floor) ?xs))"
        by (subst fee_loop.simps) (simp add: ne nle sum al more Let_def)
      then show ?thesis using pc fee_outcome_round[OF al "1.prems"(1) pc(2)]
        by (intro exI[of _ p] exI[of _ "map uncharge (filter (below_floor floor) ?xs) @ c"]) simp
    qed
  qed
qed

section \<open>Canonical recipients\<close>

lemma validate_fold:
  "rfold (\<lambda>seen r.
       if sr_amount_sats r = 0
       then Inl (settlement_error (''recipient '' @ recipient_id r @ '' amount must be positive''))
       else if payee_order r \<in> seen
       then Inl (settlement_error (''duplicate settlement recipient '' @ recipient_id r))
       else Inr (insert (payee_order r) seen)) seen rs = Inr seen' \<longleftrightarrow>
   (\<forall>r\<in>set rs. 0 < sr_amount_sats r) \<and> distinct (map payee_order rs) \<and>
   payee_order ` set rs \<inter> seen = {} \<and> seen' = payee_order ` set rs \<union> seen"
  by (induction rs arbitrary: seen) auto

lemma validate_recipients_Inr: "validate_recipients rs = Inr u \<longleftrightarrow>
  (\<forall>r\<in>set rs. 0 < sr_amount_sats r) \<and> distinct (map payee_order rs)"
  by (auto simp: validate_recipients_def rbind_Inr validate_fold)

lemma canonical_recipients_Inr:
  assumes "canonical_recipients X rs = Inr cs"
  obtains ns where "rmap (normalize_recipient X) rs = Inr ns" "cs = sort_key payee_order ns"
    "length cs = length rs" "\<forall>r\<in>set cs. 0 < sr_amount_sats r" "distinct (map payee_order cs)"
  using assms that unfolding canonical_recipients_def normalize_recipient_p2mr_programs_def Let_def
  by (auto simp: rbind_Inr validate_recipients_Inr dest: rmap_length)

lemma sum_amounts_Inr: "sum_amounts rs = Inr s \<longleftrightarrow>
  s = sum_list (map sr_amount_sats rs) \<and> sum_list (map sr_amount_sats rs) < 2 ^ 64"
  by (auto simp: sum_amounts_def try_sum_Inr)

section \<open>The partition\<close>

lemma settlement_chunk_Inr: "settlement_chunk ic = Inr c \<longleftrightarrow>
  sum_list (map sr_amount_sats (snd ic)) < 2 ^ 64 \<and>
  c = \<lparr> sc_chunk_index = fst ic, sc_recipient_count = length (snd ic),
        sc_amount_sats = sum_list (map sr_amount_sats (snd ic)), sc_recipients = snd ic \<rparr>"
  by (auto simp: settlement_chunk_def case_prod_unfold rbind_Inr sum_amounts_Inr)

definition chunk_of :: "usize \<times> SettlementRecipient list \<Rightarrow> SettlementFanoutChunk" where
  "chunk_of ic = \<lparr> sc_chunk_index = fst ic, sc_recipient_count = length (snd ic),
     sc_amount_sats = sum_list (map sr_amount_sats (snd ic)), sc_recipients = snd ic \<rparr>"

lemma chunk_of_simps [simp]:
  "sc_chunk_index (chunk_of ic) = fst ic" "sc_recipient_count (chunk_of ic) = length (snd ic)"
  "sc_amount_sats (chunk_of ic) = sum_list (map sr_amount_sats (snd ic))" "sc_recipients (chunk_of ic) = snd ic"
  by (simp_all add: chunk_of_def)

definition fanout_chunk_list :: "usize \<Rightarrow> SettlementRecipient list \<Rightarrow> SettlementFanoutChunk list" where
  "fanout_chunk_list n fanout = map chunk_of (enumerate 0 (chunks n fanout))"

lemma settlement_chunks_Inr:
  assumes "rmap settlement_chunk (enumerate 0 (chunks n fanout)) = Inr cl"
  shows "cl = fanout_chunk_list n fanout"
proof -
  have "map id cl = map chunk_of (enumerate 0 (chunks n fanout))"
    by (rule rmap_map[OF assms]) (simp add: settlement_chunk_Inr chunk_of_def)
  then show ?thesis unfolding fanout_chunk_list_def by (simp only: list.map_id)
qed

lemma sum_list_map_concat:
  "sum_list (map f (concat xss)) = sum_list (map (\<lambda>xs. sum_list (map f xs)) xss)"
  by (induction xss) simp_all

lemma settlement_chunks_ok:
  assumes "0 < n" "sum_list (map sr_amount_sats fanout) < 2 ^ 64"
  shows "rmap settlement_chunk (enumerate 0 (chunks n fanout)) = Inr (fanout_chunk_list n fanout)"
  unfolding fanout_chunk_list_def
proof (rule rmap_all_ok)
  fix ic assume ic: "ic \<in> set (enumerate 0 (chunks n fanout))"
  then have "snd ic \<in> set (chunks n fanout)"
    unfolding enumerate_eq_zip by (metis set_zip_rightD prod.collapse)
  then have "sum_list (map sr_amount_sats (snd ic)) \<le> sum_list (map (\<lambda>c. sum_list (map sr_amount_sats c)) (chunks n fanout))"
    by (simp add: member_le_sum_list)
  also have "\<dots> = sum_list (map sr_amount_sats (concat (chunks n fanout)))"
    by (simp only: sum_list_map_concat)
  finally show "settlement_chunk ic = Inr (chunk_of ic)"
    using assms by (simp add: settlement_chunk_Inr chunk_of_def concat_chunks)
qed

lemma fanout_chunk_list_simps:
  "map sc_chunk_index (fanout_chunk_list n fanout) = [0..<length (chunks n fanout)]"
  "map sc_recipients (fanout_chunk_list n fanout) = chunks n fanout"
  "length (fanout_chunk_list n fanout) = length (chunks n fanout)"
  "fanout_chunk_list n fanout = [] \<longleftrightarrow> chunks n fanout = []"
  by (simp_all add: fanout_chunk_list_def comp_def enumerate_eq_zip)

lemma fanout_chunk_list_entry:
  assumes "c \<in> set (fanout_chunk_list n fanout)"
  shows "sc_amount_sats c = sum_list (map sr_amount_sats (sc_recipients c)) \<and>
    sc_recipient_count c = length (sc_recipients c) \<and> 0 < sc_recipient_count c \<and> sc_recipient_count c \<le> n"
proof -
  obtain ic where ic: "ic \<in> set (enumerate 0 (chunks n fanout))" "c = chunk_of ic"
    using assms by (auto simp: fanout_chunk_list_def)
  then have "snd ic \<in> set (chunks n fanout)"
    unfolding enumerate_eq_zip by (metis set_zip_rightD prod.collapse)
  from chunks_bound[OF this] ic(2) show ?thesis by simp
qed

lemma fanout_chunk_list_amount:
  assumes "0 < n"
  shows "sum_list (map sc_amount_sats (fanout_chunk_list n fanout)) = sum_list (map sr_amount_sats fanout)"
proof -
  have "map sc_amount_sats (fanout_chunk_list n fanout) =
      map (\<lambda>c. sum_list (map sr_amount_sats c)) (map sc_recipients (fanout_chunk_list n fanout))"
    using fanout_chunk_list_entry by (simp add: comp_def)
  also have "\<dots> = map (\<lambda>c. sum_list (map sr_amount_sats c)) (chunks n fanout)"
    by (simp only: fanout_chunk_list_simps)
  finally show ?thesis
    using sum_list_map_concat[of sr_amount_sats "chunks n fanout"] by (simp add: concat_chunks[OF assms])
qed

lemma settle_partition_Inr:
  assumes "settle_partition config floor pc T direct fanout = Inr d"
  shows "direct_recipients d = direct"
    and "fanout_chunks d = fanout_chunk_list (max_fanout_recipients_per_transaction config) fanout"
    and "direct_amount_sats d = sum_list (map sr_amount_sats direct)"
    and "fanout_amount_sats d = sum_list (map sr_amount_sats fanout)"
    and "total_amount_sats d = sum_list (map sr_amount_sats direct) + sum_list (map sr_amount_sats fanout)"
    and "coinbase_settlement_output_count d = reserved_coinbase_outputs config + length direct + length (fanout_chunks d)"
  using assms unfolding settle_partition_def Let_def rbind_Inr if_Inl_Inr ok_or_Inr checked_add_Some sum_amounts_Inr
  by (auto simp: checked_simps bind_eq_Some_conv dest!: settlement_chunks_Inr)

lemma settle_partition_ok:
  assumes "sum_list (map sr_amount_sats direct) + sum_list (map sr_amount_sats fanout) = T" "T < 2 ^ 64"
    and n: "0 < max_fanout_recipients_per_transaction config" and "direct \<noteq> [] \<or> fanout \<noteq> []"
    and "reserved_coinbase_outputs config + length direct +
      length (chunks (max_fanout_recipients_per_transaction config) fanout) < 2 ^ 64"
  shows "\<exists>d. settle_partition config floor pc T direct fanout = Inr d"
proof -
  let ?n = "max_fanout_recipients_per_transaction config"
  have "sum_amounts direct = Inr (sum_list (map sr_amount_sats direct))"
    "sum_amounts fanout = Inr (sum_list (map sr_amount_sats fanout))"
    using assms(1,2) by (simp_all add: sum_amounts_Inr)
  moreover have "checked_add 64 (sum_list (map sr_amount_sats direct)) (sum_list (map sr_amount_sats fanout)) = Some T"
    using assms(1,2) by (simp add: checked_add_Some)
  moreover have "rmap settlement_chunk (enumerate 0 (chunks ?n fanout)) = Inr (fanout_chunk_list ?n fanout)"
    using assms(1,2) by (intro settlement_chunks_ok n) simp
  moreover obtain m where "settlement_mode_of direct (fanout_chunk_list ?n fanout) = Inr m"
    using assms(4) n by (cases "direct = []"; cases "fanout = []")
      (simp_all add: settlement_mode_of_def fanout_chunk_list_simps)
  moreover have "Option.bind (checked_add 64 (reserved_coinbase_outputs config) (length direct))
      (\<lambda>count. checked_add 64 count (length (fanout_chunk_list ?n fanout))) =
      Some (reserved_coinbase_outputs config + length direct + length (chunks ?n fanout))"
    using assms(5) by (auto simp: bind_eq_Some_conv checked_add_Some fanout_chunk_list_simps)
  ultimately show ?thesis unfolding settle_partition_def by (simp add: Let_def)
qed

lemma coinbase_output_total_Inr: "0 < max_fanout_recipients_per_transaction config \<Longrightarrow>
  coinbase_output_total n config pc dc = Inr outputs \<Longrightarrow>
  pc + dc \<le> n \<and> outputs = reserved_coinbase_outputs config + pc + dc +
    (n - pc - dc + (max_fanout_recipients_per_transaction config - 1)) div max_fanout_recipients_per_transaction config"
  unfolding coinbase_output_total_def fanout_chunk_count_def
  by (auto simp: rbind_Inr ok_or_Inr bind_eq_Some_conv checked_simps split: if_splits)

lemma coinbase_output_total_ok:
  assumes "pc + dc \<le> n" "n < 2 ^ 63" "max_fanout_recipients_per_transaction config \<le> 1160"
    "reserved_coinbase_outputs config \<le> 500"
  shows "\<exists>outputs. coinbase_output_total n config pc dc = Inr outputs"
proof -
  let ?m = "max_fanout_recipients_per_transaction config" and ?k = "n - pc - dc"
  have k: "Option.bind (checked_sub n pc) (\<lambda>count. checked_sub count dc) = Some ?k"
    using assms(1) by (auto simp: bind_eq_Some_conv checked_sub_Some)
  have add: "checked_add 64 ?k (?m - 1) = Some (?k + (?m - 1))" using assms(2,3) by (simp add: checked_add_Some)
  have "(?m - 1) div ?m = 0" by (cases ?m) simp_all
  then have "fanout_chunk_count ?k ?m = Inr ((?k + (?m - 1)) div ?m)"
    unfolding fanout_chunk_count_def add by simp
  moreover have "(?k + (?m - 1)) div ?m \<le> ?k + (?m - 1)" by simp
  ultimately obtain q where cc: "fanout_chunk_count ?k ?m = Inr q" and "q \<le> ?k + (?m - 1)" by blast
  then show ?thesis using assms
    unfolding coinbase_output_total_def k ok_or_simps rbind.simps cc
    by (simp add: checked_add_def fits_def)
qed

lemma try_direct_counts_Inr: "try_direct_counts n config pc cs = Inr dc \<Longrightarrow>
  dc \<in> set cs \<and> (\<exists>outputs. coinbase_output_total n config pc dc = Inr outputs \<and>
    outputs \<le> max_coinbase_settlement_outputs config)"
  by (induction cs) (auto simp: rbind_Inr split: if_splits)

lemma try_direct_counts_ok:
  assumes "\<forall>c\<in>set cs. \<exists>outputs. coinbase_output_total n config pc c = Inr outputs"
    and "\<exists>c\<in>set cs. \<exists>outputs. coinbase_output_total n config pc c = Inr outputs \<and>
      outputs \<le> max_coinbase_settlement_outputs config"
  shows "\<exists>dc. try_direct_counts n config pc cs = Inr dc"
  using assms
proof (induction cs)
  case (Cons c cs)
  then obtain outputs where "coinbase_output_total n config pc c = Inr outputs" by auto
  with Cons show ?case by (cases "outputs \<le> max_coinbase_settlement_outputs config") fastforce+
qed simp

text \<open>The counts are tried from the largest: whatever is larger does not fit.\<close>

lemma try_direct_counts_first:
  assumes "try_direct_counts n config pc cs = Inr dc" "sorted_wrt (>) cs" "c \<in> set cs" "dc < c"
  shows "\<exists>outputs. coinbase_output_total n config pc c = Inr outputs \<and>
    max_coinbase_settlement_outputs config < outputs"
  using assms by (induction cs) (auto simp: rbind_Inr split: if_splits)

lemma select_direct_count_largest:
  assumes "select_direct_count n cc config pc = Inr dc" "0 < max_fanout_recipients_per_transaction config"
    and "dc < c" "c \<le> cc" "c \<le> max_direct_coinbase_outputs config - pc"
  shows "max_coinbase_settlement_outputs config < reserved_coinbase_outputs config + pc + c +
      (n - pc - c + (max_fanout_recipients_per_transaction config - 1)) div max_fanout_recipients_per_transaction config"
proof -
  let ?cs = "rev [0..<min cc (max_direct_coinbase_outputs config - pc) + 1]"
  have "sorted_wrt (>) ?cs" by (simp add: sorted_wrt_rev)
  moreover have "c \<in> set ?cs" using assms(4,5) by (auto simp: min_def)
  ultimately obtain outputs where out: "coinbase_output_total n config pc c = Inr outputs"
    "max_coinbase_settlement_outputs config < outputs"
    using try_direct_counts_first[of n config pc ?cs dc c] assms(1,3) unfolding select_direct_count_def Let_def by blast
  from out(2) show ?thesis using coinbase_output_total_Inr[OF assms(2) out(1)] by (simp only:)
qed

lemma partition_mset:
  assumes "partition_recipients pk floor n cs = (direct, fanout)"
  shows "mset (direct @ fanout) = mset cs"
  using assms unfolding partition_recipients_def Let_def
  by (auto simp: multiset_partition[symmetric])

lemma partition_members:
  assumes part: "partition_recipients pk floor n cs = (direct, fanout)"
    and dist: "distinct (map payee_order cs)"
  defines "cands \<equiv> sort_key direct_priority
      (filter (\<lambda>r. sr_amount_sats r \<ge> floor \<and> pk \<noteq> Some (payee_order r)) cs)"
  shows "set direct = {r \<in> set cs. pk = Some (payee_order r)} \<union> set (take n cands)"
    and "set fanout = {r \<in> set cs. pk \<noteq> Some (payee_order r)} - set (take n cands)"
proof -
  have sub: "set (take n cands) \<subseteq> set cs" using set_take_subset[of n cands] by (auto simp: cands_def)
  have inj: "inj_on payee_order (set cs)" using dist by (simp add: distinct_map)
  have key: "payee_order r \<in> payee_order ` set (take n cands) \<longleftrightarrow> r \<in> set (take n cands)" if "r \<in> set cs" for r
    using that sub inj by (auto simp: inj_on_def)
  have d: "direct = filter (\<lambda>r. pk = Some (payee_order r) \<or> payee_order r \<in> payee_order ` set (take n cands)) cs"
    and f: "fanout = filter (\<lambda>r. \<not> (pk = Some (payee_order r) \<or> payee_order r \<in> payee_order ` set (take n cands))) cs"
    using part by (simp_all add: partition_recipients_def Let_def cands_def)
  show "set direct = {r \<in> set cs. pk = Some (payee_order r)} \<union> set (take n cands)"
    unfolding d using key sub by auto
  show "set fanout = {r \<in> set cs. pk \<noteq> Some (payee_order r)} - set (take n cands)"
    unfolding f using key sub by auto
qed

lemma partition_lengths:
  assumes part: "partition_recipients pk floor n cs = (direct, fanout)"
    and dist: "distinct (map payee_order cs)" and n: "n \<le> candidate_count pk floor cs"
    and pk: "\<forall>k. pk = Some k \<longrightarrow> k \<in> payee_order ` set cs"
  shows "length direct = (if pk = None then 0 else 1) + n"
proof -
  define cands where "cands = sort_key direct_priority
      (filter (\<lambda>r. sr_amount_sats r \<ge> floor \<and> pk \<noteq> Some (payee_order r)) cs)"
  have dd: "distinct cs" and inj: "inj_on payee_order (set cs)" using dist by (simp_all add: distinct_map)
  have "distinct direct" using part dd by (auto simp: partition_recipients_def Let_def)
  then have "length direct = card (set direct)" by (simp add: distinct_card)
  also have "set direct = {r \<in> set cs. pk = Some (payee_order r)} \<union> set (take n cands)"
    unfolding cands_def by (rule partition_members(1)[OF part dist])
  also have "card \<dots> = card {r \<in> set cs. pk = Some (payee_order r)} + card (set (take n cands))"
    using set_take_subset[of n cands] by (intro card_Un_disjoint) (auto simp: cands_def)
  also have "card (set (take n cands)) = n"
    using dd n by (simp add: distinct_card cands_def candidate_count_def)
  also have "card {r \<in> set cs. pk = Some (payee_order r)} = (if pk = None then 0 else 1)"
  proof (cases pk)
    case (Some k)
    then obtain r where "r \<in> set cs" "payee_order r = k" using pk by auto
    then have "{r \<in> set cs. pk = Some (payee_order r)} = {r}" using inj Some by (auto simp: inj_on_def)
    then show ?thesis using Some by simp
  qed simp
  finally show ?thesis .
qed

lemma candidates_split:
  assumes part: "partition_recipients pk floor n cs = (direct, fanout)"
    and dist: "distinct (map payee_order cs)" and n: "n \<le> candidate_count pk floor cs"
  shows "candidate_count pk floor cs = n + length (filter (\<lambda>f. floor \<le> sr_amount_sats f) fanout)"
proof -
  define cands where "cands = sort_key direct_priority
      (filter (\<lambda>r. sr_amount_sats r \<ge> floor \<and> pk \<noteq> Some (payee_order r)) cs)"
  have dd: "distinct cs" "distinct cands" using dist by (simp_all add: distinct_map cands_def)
  have "distinct (filter (\<lambda>f. floor \<le> sr_amount_sats f) fanout)"
    using part dd(1) by (auto simp: partition_recipients_def Let_def)
  then have "length (filter (\<lambda>f. floor \<le> sr_amount_sats f) fanout) =
      card (set (filter (\<lambda>f. floor \<le> sr_amount_sats f) fanout))"
    by (rule distinct_card[symmetric])
  also have "set (filter (\<lambda>f. floor \<le> sr_amount_sats f) fanout) = set cands - set (take n cands)"
    using partition_members(2)[OF part dist] by (auto simp: cands_def)
  also have "card \<dots> = card (set cands) - card (set (take n cands))"
    by (rule card_Diff_subset) (simp_all add: set_take_subset)
  also have "\<dots> = length cands - n" using dd(2) by (simp add: distinct_card)
  finally show ?thesis using n by (simp add: cands_def candidate_count_def)
qed

definition pinned_key_of ::
  "crypto \<Rightarrow> SettlementRecipient option \<Rightarrow> payee_key option" where
  "pinned_key_of X pinned = (case pinned of None \<Rightarrow> None | Some r \<Rightarrow>
     (case normalize_recipient X r of Inl e \<Rightarrow> None | Inr q \<Rightarrow> Some (payee_order q)))"

lemma resolve_pinned_Inr: "resolve_pinned_direct_key X cs r config = Inr k \<longleftrightarrow>
  max_direct_coinbase_outputs config \<noteq> 0 \<and> k \<in> payee_order ` set cs \<and>
  (\<exists>q. normalize_recipient X r = Inr q \<and> k = payee_order q)"
  unfolding resolve_pinned_direct_key_def normalize_recipient_p2mr_programs_def Let_def if_Inl_Inr rbind_Inr
  by (auto simp: list_ex_iff rbind_Inr) (metis imageI)

lemma pinned_key_resolved:
  assumes "(case pinned of None \<Rightarrow> Inr None
    | Some r \<Rightarrow> rbind (resolve_pinned_direct_key X cs r config) (\<lambda>k. Inr (Some k))) = Inr pk"
  shows "pk = pinned_key_of X pinned"
    and "\<forall>k. pinned_key_of X pinned = Some k \<longrightarrow> k \<in> payee_order ` set cs"
    and "pinned \<noteq> None \<longrightarrow> pinned_key_of X pinned \<noteq> None \<and> 0 < max_direct_coinbase_outputs config"
proof -
  have "pk = pinned_key_of X pinned \<and> (\<forall>k. pinned_key_of X pinned = Some k \<longrightarrow> k \<in> payee_order ` set cs) \<and>
    (pinned \<noteq> None \<longrightarrow> pinned_key_of X pinned \<noteq> None \<and> 0 < max_direct_coinbase_outputs config)"
  proof (cases pinned)
    case None
    with assms show ?thesis by (simp add: pinned_key_of_def)
  next
    case (Some r)
    with assms have "\<exists>k. resolve_pinned_direct_key X cs r config = Inr k \<and> Some k = pk"
      by (simp only: option.case rbind_Inr sum.inject)
    then obtain k where k: "resolve_pinned_direct_key X cs r config = Inr k" "pk = Some k" by blast
    from k(1) obtain q where q: "max_direct_coinbase_outputs config \<noteq> 0" "k \<in> payee_order ` set cs"
      "normalize_recipient X r = Inr q" "k = payee_order q" unfolding resolve_pinned_Inr by blast
    then have "pinned_key_of X pinned = Some k" using Some by (simp add: pinned_key_of_def)
    with k(2) q(1,2) show ?thesis by simp
  qed
  then show "pk = pinned_key_of X pinned"
    "\<forall>k. pinned_key_of X pinned = Some k \<longrightarrow> k \<in> payee_order ` set cs"
    "pinned \<noteq> None \<longrightarrow> pinned_key_of X pinned \<noteq> None \<and> 0 < max_direct_coinbase_outputs config"
    by blast+
qed

lemma validate_config_Inr: "validate_config config = Inr u \<Longrightarrow>
  0 < max_coinbase_settlement_outputs config \<and> max_coinbase_settlement_outputs config \<le> 500 \<and>
  0 < max_fanout_recipients_per_transaction config \<and> max_fanout_recipients_per_transaction config \<le> 1160 \<and>
  reserved_coinbase_outputs config \<le> max_coinbase_settlement_outputs config"
  unfolding validate_config_def if_Inl_Inr rbind_Inr MAX_COINBASE_SETTLEMENT_OUTPUTS_def
    MAX_CTV_FANOUT_RECIPIENTS_PER_TRANSACTION_def by auto

lemma select_settlement_Inr:
  assumes "select_settlement_mode_with_pinned_direct X rs floor config pinned = Inr d"
  defines "pk \<equiv> pinned_key_of X pinned"
  obtains cs n direct fanout where
    "validate_config config = Inr ()" "canonical_recipients X rs = Inr cs" "distinct (map payee_order cs)"
    "length cs = length rs" "\<forall>k. pk = Some k \<longrightarrow> k \<in> payee_order ` set cs"
    "pinned \<noteq> None \<longrightarrow> pk \<noteq> None \<and> 0 < max_direct_coinbase_outputs config"
    "sum_list (map sr_amount_sats cs) < 2 ^ 64"
    "select_direct_count (length rs) (candidate_count pk floor cs) config (if pk = None then 0 else 1) = Inr n"
    "partition_recipients pk floor n cs = (direct, fanout)"
    "settle_partition config floor (if pk = None then 0 else 1) (sum_list (map sr_amount_sats cs)) direct fanout = Inr d"
proof -
  let ?res = "\<lambda>cs. case pinned of None \<Rightarrow> Inr None
    | Some r \<Rightarrow> rbind (resolve_pinned_direct_key X cs r config) (\<lambda>k. Inr (Some k))"
  obtain u cs pk' n where v: "validate_config config = Inr u" and cs: "canonical_recipients X rs = Inr cs"
    and pk': "?res cs = Inr pk'" and lt: "sum_list (map sr_amount_sats cs) < 2 ^ 64"
    and n: "select_direct_count (length rs) (candidate_count pk' floor cs) config (if pk' = None then 0 else 1) = Inr n"
    and set: "(case partition_recipients pk' floor n cs of (direct, fanout) \<Rightarrow> settle_partition config floor
        (if pk' = None then 0 else 1) (sum_list (map sr_amount_sats cs)) direct fanout) = Inr d"
    using assms(1) unfolding select_settlement_mode_with_pinned_direct_def rbind_Inr if_Inl_Inr Let_def sum_amounts_Inr
    by blast
  have pk: "pk' = pk" "\<forall>k. pk = Some k \<longrightarrow> k \<in> payee_order ` set cs"
    "pinned \<noteq> None \<longrightarrow> pk \<noteq> None \<and> 0 < max_direct_coinbase_outputs config"
    by (rule pinned_key_resolved[OF pk', folded pk_def])+
  have dist: "distinct (map payee_order cs)" "length cs = length rs"
    by (rule canonical_recipients_Inr[OF cs], assumption)+
  obtain direct fanout where "partition_recipients pk floor n cs = (direct, fanout)" by fastforce
  with v cs pk dist lt n set that show thesis by simp
qed

lemma select_direct_count_Inr:
  assumes "select_direct_count n cc config pc = Inr dc" "0 < max_fanout_recipients_per_transaction config"
  shows "dc \<le> cc \<and> dc \<le> max_direct_coinbase_outputs config - pc \<and> pc + dc \<le> n \<and>
    reserved_coinbase_outputs config + pc + dc +
      (n - pc - dc + (max_fanout_recipients_per_transaction config - 1)) div max_fanout_recipients_per_transaction config
      \<le> max_coinbase_settlement_outputs config"
  using try_direct_counts_Inr[of n config pc _ dc] assms(1) coinbase_output_total_Inr[OF assms(2)]
  unfolding select_direct_count_def Let_def by fastforce

section \<open>Properties\<close>

definition demo_recipient :: "string \<Rightarrow> string \<Rightarrow> u64 \<Rightarrow> SettlementRecipient" where
  "demo_recipient name byte amount =
     \<lparr> recipient_id = name, order_key = name, p2mr_program_hex = concat (replicate 32 byte), sr_amount_sats = amount \<rparr>"

definition demo_recipients :: "SettlementRecipient list" where
  "demo_recipients = [demo_recipient ''dan'' ''D4'' 5, demo_recipient ''bob'' ''b2'' 60,
     demo_recipient ''ann'' ''a1'' 100, demo_recipient ''cat'' ''c3'' 70]"

definition demo_config :: SettlementModeConfig where
  "demo_config = default_settlement_config \<lparr> max_direct_coinbase_outputs := 2 \<rparr>"

lemma demo_settlement_ok:
  "is_ok (select_settlement_mode_with_pinned_direct demo_crypto demo_recipients 50 demo_config
     (Some (demo_recipient ''dan'' ''d4'' 5)))"
  by code_simp

lemma demo_canonical_ok: "is_ok (canonical_recipients demo_crypto demo_recipients)"
  by code_simp

text \<open>C19. Settlement neither loses nor invents recipients or money: the direct recipients and the
  fan-out chunks together are the given recipients with normalised programs, each exactly once,
  and the reported amounts are their sums. Chunks are numbered from zero, no chunk is empty or
  above its limit, and the coinbase outputs used stay within the limits on outputs and on
  direct outputs.\<close>

theorem settlement_partition_exact:
  assumes "select_settlement_mode_with_pinned_direct X rs floor config pinned = Inr d"
  shows "\<exists>cs. canonical_recipients X rs = Inr cs \<and>
    mset (direct_recipients d @ concat (map sc_recipients (fanout_chunks d))) = mset cs \<and>
    direct_amount_sats d = sum_list (map sr_amount_sats (direct_recipients d)) \<and>
    fanout_amount_sats d = sum_list (map sc_amount_sats (fanout_chunks d)) \<and>
    direct_amount_sats d + fanout_amount_sats d = total_amount_sats d \<and>
    total_amount_sats d = sum_list (map sr_amount_sats cs) \<and>
    map sc_chunk_index (fanout_chunks d) = [0..<length (fanout_chunks d)] \<and>
    (\<forall>c\<in>set (fanout_chunks d). sc_amount_sats c = sum_list (map sr_amount_sats (sc_recipients c)) \<and>
       sc_recipient_count c = length (sc_recipients c) \<and> 0 < sc_recipient_count c \<and>
       sc_recipient_count c \<le> max_fanout_recipients_per_transaction config) \<and>
    coinbase_settlement_output_count d =
      reserved_coinbase_outputs config + length (direct_recipients d) + length (fanout_chunks d) \<and>
    coinbase_settlement_output_count d \<le> max_coinbase_settlement_outputs config \<and>
    length (direct_recipients d) \<le> max_direct_coinbase_outputs config"
proof -
  let ?pk = "pinned_key_of X pinned" and ?m = "max_fanout_recipients_per_transaction config"
  obtain cs n direct fanout where v: "validate_config config = Inr ()" and cs: "canonical_recipients X rs = Inr cs"
    and dist: "distinct (map payee_order cs)" and len: "length cs = length rs"
    and pk: "\<forall>k. ?pk = Some k \<longrightarrow> k \<in> payee_order ` set cs"
    and pinned: "pinned \<noteq> None \<longrightarrow> ?pk \<noteq> None \<and> 0 < max_direct_coinbase_outputs config"
    and n: "select_direct_count (length rs) (candidate_count ?pk floor cs) config (if ?pk = None then 0 else 1) = Inr n"
    and part: "partition_recipients ?pk floor n cs = (direct, fanout)"
    and set: "settle_partition config floor (if ?pk = None then 0 else 1) (sum_list (map sr_amount_sats cs)) direct fanout = Inr d"
    by (rule select_settlement_Inr[OF assms])
  note d = settle_partition_Inr[OF set]
  have m: "0 < ?m" using validate_config_Inr[OF v] by simp
  note bound = select_direct_count_Inr[OF n m]
  have ms: "mset (direct @ fanout) = mset cs" by (rule partition_mset[OF part])
  have ld: "length direct = (if ?pk = None then 0 else 1) + n"
    by (rule partition_lengths[OF part dist _ pk]) (use bound in simp)
  have lf: "length fanout = length rs - (if ?pk = None then 0 else 1) - n"
    using arg_cong[where f = size, OF ms] ld len by simp
  have sums: "sum_list (map sr_amount_sats direct) + sum_list (map sr_amount_sats fanout) = sum_list (map sr_amount_sats cs)"
    using arg_cong[where f = "\<lambda>M. sum_mset (image_mset sr_amount_sats M)", OF ms] by (simp flip: sum_mset_sum_list)
  have direct: "length direct \<le> max_direct_coinbase_outputs config"
    using bound ld pinned by (auto simp: pinned_key_of_def split: option.splits if_splits)
  have outputs: "reserved_coinbase_outputs config + length direct + length (chunks ?m fanout) \<le>
      max_coinbase_settlement_outputs config"
    using bound unfolding length_chunks[OF m] lf ld add.assoc by blast
  have entries: "\<forall>c\<in>set (fanout_chunks d). sc_amount_sats c = sum_list (map sr_amount_sats (sc_recipients c)) \<and>
      sc_recipient_count c = length (sc_recipients c) \<and> 0 < sc_recipient_count c \<and> sc_recipient_count c \<le> ?m"
    unfolding d(2) using fanout_chunk_list_entry by blast
  show ?thesis
    by (rule exI[of _ cs], intro conjI; (rule cs | rule entries | use ms d(1,3-6) sums direct outputs in
        \<open>simp add: d(2) fanout_chunk_list_simps concat_chunks[OF m] fanout_chunk_list_amount[OF m]\<close>))
qed

theorem settlement_partition_exact_witness:
  "\<exists>d. select_settlement_mode_with_pinned_direct demo_crypto demo_recipients 50 demo_config
      (Some (demo_recipient ''dan'' ''d4'' 5)) = Inr d \<and> length (direct_recipients d) \<le> 2 \<and>
    direct_amount_sats d + fanout_amount_sats d = total_amount_sats d"
proof -
  obtain d where d: "select_settlement_mode_with_pinned_direct demo_crypto demo_recipients 50 demo_config
      (Some (demo_recipient ''dan'' ''d4'' 5)) = Inr d"
    using demo_settlement_ok unfolding is_ok_iff by blast
  have "max_direct_coinbase_outputs demo_config = 2" by code_simp
  with settlement_partition_exact[OF d] d show ?thesis by auto
qed

text \<open>C28. Direct outputs go to the largest liabilities: a pinned recipient is settled directly, every
  other direct recipient reaches the floor and comes before every fan-out recipient that
  reaches it too, larger amounts first, and no larger number of direct outputs that the
  candidates and the limit on direct outputs allow would fit the limit on all outputs.\<close>

theorem direct_largest_first:
  assumes "select_settlement_mode_with_pinned_direct X rs floor config pinned = Inr d"
  defines "pk \<equiv> pinned_key_of X pinned"
    and "fanout \<equiv> concat (map sc_recipients (fanout_chunks d))"
    and "m \<equiv> max_fanout_recipients_per_transaction config"
  shows "(pinned \<noteq> None \<longrightarrow> pk \<noteq> None) \<and> (\<forall>k. pk = Some k \<longrightarrow> k \<in> payee_order ` set (direct_recipients d)) \<and>
    (\<forall>r\<in>set (direct_recipients d). pk \<noteq> Some (payee_order r) \<longrightarrow> floor \<le> sr_amount_sats r \<and>
      (\<forall>f\<in>set fanout. floor \<le> sr_amount_sats f \<longrightarrow>
        direct_priority r \<le> direct_priority f \<and> sr_amount_sats f \<le> sr_amount_sats r)) \<and>
    (\<forall>c. length (direct_recipients d) < c \<and> c \<le> max_direct_coinbase_outputs config \<and>
       c \<le> length (direct_recipients d) + length (filter (\<lambda>f. floor \<le> sr_amount_sats f) fanout) \<longrightarrow>
       max_coinbase_settlement_outputs config < reserved_coinbase_outputs config + c + (length rs - c + (m - 1)) div m)"
proof -
  obtain cs n direct fan where v: "validate_config config = Inr ()" and cs: "canonical_recipients X rs = Inr cs"
    and dist: "distinct (map payee_order cs)" and len: "length cs = length rs"
    and pk: "\<forall>k. pk = Some k \<longrightarrow> k \<in> payee_order ` set cs"
    and pinned: "pinned \<noteq> None \<longrightarrow> pk \<noteq> None \<and> 0 < max_direct_coinbase_outputs config"
    and n: "select_direct_count (length rs) (candidate_count pk floor cs) config (if pk = None then 0 else 1) = Inr n"
    and part: "partition_recipients pk floor n cs = (direct, fan)"
    and set: "settle_partition config floor (if pk = None then 0 else 1) (sum_list (map sr_amount_sats cs)) direct fan = Inr d"
    unfolding pk_def by (rule select_settlement_Inr[OF assms(1)])
  have m: "0 < m" using validate_config_Inr[OF v] by (simp add: m_def)
  have d: "direct_recipients d = direct" "fanout = fan"
    using settle_partition_Inr[OF set] m by (simp_all add: fanout_def fanout_chunk_list_simps concat_chunks m_def)
  note bound = select_direct_count_Inr[OF n m[unfolded m_def]]
  define cands where "cands = sort_key direct_priority
      (filter (\<lambda>r. sr_amount_sats r \<ge> floor \<and> pk \<noteq> Some (payee_order r)) cs)"
  note mem = partition_members[OF part dist, folded cands_def]
  have first: "direct_priority r \<le> direct_priority f \<and> sr_amount_sats f \<le> sr_amount_sats r"
    if "r \<in> set (take n cands)" "f \<in> set cands" "f \<notin> set (take n cands)" for r f
  proof -
    have "f \<in> set (drop n cands)" using that(2,3) by (metis Un_iff append_take_drop_id set_append)
    then have "direct_priority r \<le> direct_priority f"
      using sorted_take_drop[of direct_priority cands r n f] that(1) by (simp add: cands_def)
    then show ?thesis by (auto simp: direct_priority_def less_eq_prod_def)
  qed
  have ld: "length direct = (if pk = None then 0 else 1) + n"
    by (rule partition_lengths[OF part dist _ pk]) (use bound in simp)
  have cc: "candidate_count pk floor cs = n + length (filter (\<lambda>f. floor \<le> sr_amount_sats f) fan)"
    by (rule candidates_split[OF part dist]) (use bound in simp)
  have "max_coinbase_settlement_outputs config < reserved_coinbase_outputs config + c + (length rs - c + (m - 1)) div m"
    if "length direct < c" "c \<le> max_direct_coinbase_outputs config"
      "c \<le> length direct + length (filter (\<lambda>f. floor \<le> sr_amount_sats f) fan)" for c
    using select_direct_count_largest[OF n m[unfolded m_def], of "c - (if pk = None then 0 else 1)"] that cc ld
    by (auto simp: m_def split: if_splits)
  moreover have "\<forall>k. pk = Some k \<longrightarrow> k \<in> payee_order ` set direct" using pk unfolding mem(1) by blast
  moreover have "\<forall>r\<in>set direct. pk \<noteq> Some (payee_order r) \<longrightarrow> r \<in> set (take n cands) \<and> floor \<le> sr_amount_sats r"
    unfolding mem(1) using set_take_subset[of n cands] by (auto simp: cands_def)
  moreover have "\<forall>f\<in>set fan. floor \<le> sr_amount_sats f \<longrightarrow> f \<in> set cands \<and> f \<notin> set (take n cands)"
    unfolding mem(2) by (auto simp: cands_def)
  ultimately show ?thesis unfolding d using first pinned by blast
qed

theorem direct_largest_first_witness:
  "\<exists>d. select_settlement_mode_with_pinned_direct demo_crypto demo_recipients 50 demo_config
      (Some (demo_recipient ''dan'' ''d4'' 5)) = Inr d \<and>
    pinned_key_of demo_crypto (Some (demo_recipient ''dan'' ''d4'' 5)) \<noteq> None"
proof -
  obtain d where d: "select_settlement_mode_with_pinned_direct demo_crypto demo_recipients 50 demo_config
      (Some (demo_recipient ''dan'' ''d4'' 5)) = Inr d"
    using demo_settlement_ok unfolding is_ok_iff by blast
  from direct_largest_first[OF d] d show ?thesis by blast
qed

text \<open>The chunks of a fan-out that has \<open>d\<close> more recipients: at most \<open>d\<close> more.\<close>

lemma fewer_chunks: "0 < m \<Longrightarrow> d \<le> k \<Longrightarrow> (k + (m - 1)) div m \<le> d + (k - d + (m - 1)) div m" for m :: nat
proof -
  assume m: "0 < m" and d: "d \<le> k"
  have "d \<le> d * m" using m by simp
  then have "k + (m - 1) \<le> k - d + (m - 1) + d * m" using d by linarith
  then have "(k + (m - 1)) div m \<le> (k - d + (m - 1) + d * m) div m" by (rule div_le_mono)
  also have "\<dots> = d + (k - d + (m - 1)) div m" by (rule div_mult_self1) (use m in simp)
  finally show ?thesis .
qed

lemma resolved_pin:
  assumes "\<forall>r. pinned = Some r \<longrightarrow> is_ok (resolve_pinned_direct_key X cs r config)"
  shows "(case pinned of None \<Rightarrow> Inr None | Some r \<Rightarrow> rbind (resolve_pinned_direct_key X cs r config) (\<lambda>k. Inr (Some k))) =
    Inr (pinned_key_of X pinned)"
proof (cases pinned)
  case (Some r)
  then obtain k where k: "resolve_pinned_direct_key X cs r config = Inr k" using assms by (auto simp: is_ok_iff)
  then show ?thesis using Some k[unfolded resolve_pinned_Inr] by (auto simp: pinned_key_of_def)
qed (simp add: pinned_key_of_def)

lemma direct_count_found:
  assumes v: "validate_config config = Inr ()" and len: "p + cc \<le> n" "n < 2 ^ 63"
    and fits: "reserved_coinbase_outputs config + p + (n - p + (max_fanout_recipients_per_transaction config - 1)) div
      max_fanout_recipients_per_transaction config \<le> max_coinbase_settlement_outputs config"
  shows "\<exists>dc. select_direct_count n cc config p = Inr dc"
proof -
  note c = validate_config_Inr[OF v]
  have totals: "\<exists>outputs. coinbase_output_total n config p dc = Inr outputs" if "dc \<le> cc" for dc
    by (rule coinbase_output_total_ok) (use that len c in auto)
  have "\<exists>outputs. coinbase_output_total n config p 0 = Inr outputs \<and> outputs \<le> max_coinbase_settlement_outputs config"
    using totals[of 0] fits c coinbase_output_total_Inr[of config n p 0] by force
  then show ?thesis unfolding select_direct_count_def Let_def
    by (intro try_direct_counts_ok) (use totals in \<open>auto simp del: upt_Suc\<close>)
qed

lemma candidate_count_pinned:
  assumes "\<forall>k. pk = Some k \<longrightarrow> k \<in> payee_order ` set cs"
  shows "(if pk = None then 0 else 1) + candidate_count pk floor cs \<le> length cs"
proof (cases pk)
  case (Some k)
  then obtain r where "r \<in> set cs" "pk = Some (payee_order r)" using assms by auto
  then have "length (filter (\<lambda>r. sr_amount_sats r \<ge> floor \<and> pk \<noteq> Some (payee_order r)) cs) < length cs"
    by (intro length_filter_less[of r]) auto
  then show ?thesis using Some by (simp add: candidate_count_def)
qed (simp add: candidate_count_def)

lemma settlement_found:
  assumes v: "validate_config config = Inr ()" and cs: "canonical_recipients X rs = Inr cs" and ne: "rs \<noteq> []"
    and lt: "sum_list (map sr_amount_sats cs) < 2 ^ 64" and len: "length rs < 2 ^ 63"
    and pin: "\<forall>r. pinned = Some r \<longrightarrow> is_ok (resolve_pinned_direct_key X cs r config)"
    and fits: "reserved_coinbase_outputs config + p + (length rs - p + (max_fanout_recipients_per_transaction config - 1)) div
      max_fanout_recipients_per_transaction config \<le> max_coinbase_settlement_outputs config"
    and p: "p = (if pinned_key_of X pinned = None then 0 else 1)"
  shows "is_ok (select_settlement_mode_with_pinned_direct X rs floor config pinned)"
proof -
  let ?m = "max_fanout_recipients_per_transaction config" and ?pk = "pinned_key_of X pinned"
  let ?cc = "candidate_count ?pk floor cs"
  note c = validate_config_Inr[OF v] and pk = pinned_key_resolved(2)[OF resolved_pin[OF pin]]
  have canon: "distinct (map payee_order cs)" "length cs = length rs"
    by (rule canonical_recipients_Inr[OF cs], assumption)+
  obtain n where n: "select_direct_count (length rs) ?cc config p = Inr n"
    using direct_count_found[OF v _ len fits] candidate_count_pinned[OF pk] canon(2) p by auto
  have m: "0 < ?m" using c by simp
  note bound = select_direct_count_Inr[OF n m]
  obtain direct fanout where part: "partition_recipients ?pk floor n cs = (direct, fanout)" by fastforce
  have ms: "mset (direct @ fanout) = mset cs" by (rule partition_mset[OF part])
  have ld: "length direct = p + n" using partition_lengths[OF part canon(1) _ pk] bound p by simp
  have lf: "length fanout = length rs - p - n" using arg_cong[where f = size, OF ms] ld canon(2) by simp
  have sums: "sum_list (map sr_amount_sats direct) + sum_list (map sr_amount_sats fanout) = sum_list (map sr_amount_sats cs)"
    using arg_cong[where f = "\<lambda>M. sum_mset (image_mset sr_amount_sats M)", OF ms] by (simp flip: sum_mset_sum_list)
  have "reserved_coinbase_outputs config + (p + n) + (length rs - p - n + (?m - 1)) div ?m \<le> 500"
    using bound c by linarith
  then have "reserved_coinbase_outputs config + length direct + length (chunks ?m fanout) < 2 ^ 64"
    unfolding ld lf length_chunks[OF m] by (rule le_less_trans) simp
  moreover have "direct \<noteq> [] \<or> fanout \<noteq> []" using ms ne canon(2) by auto
  ultimately have "\<exists>d. settle_partition config floor p (sum_list (map sr_amount_sats cs)) direct fanout = Inr d"
    by (intro settle_partition_ok[OF sums lt m])
  then show ?thesis
    using v cs n ne part unfolding p
    by (auto simp: select_settlement_mode_with_pinned_direct_def Let_def is_ok_iff resolved_pin[OF pin]
        sum_amounts_Inr[THEN iffD2, OF conjI[OF refl lt]])
qed

text \<open>C27. Exactly when a block is settled, with or without a pinned direct recipient: for fewer than \<^verbatim>\<open>2 ^ 63\<close> recipients,
  settlement succeeds if and only if the configuration is valid, there are recipients, they are well-formed and
  distinct with amounts whose sum fits 64 bits, a pinned recipient is one of them, and paying everybody but the
  pinned recipient through fan-outs would fit the coinbase outputs. The floor plays no part: settlement is never refused because
  direct payouts are impractical.\<close>

theorem settlement_found_iff:
  fixes pinned :: "SettlementRecipient option"
  assumes len: "length rs < 2 ^ 63"
  defines "p \<equiv> (if pinned = None then 0 else 1 :: nat)"
  shows "is_ok (select_settlement_mode_with_pinned_direct X rs floor config pinned) \<longleftrightarrow>
    is_ok (validate_config config) \<and> rs \<noteq> [] \<and>
    (\<exists>cs. canonical_recipients X rs = Inr cs \<and> sum_list (map sr_amount_sats cs) < 2 ^ 64 \<and>
       (\<forall>r. pinned = Some r \<longrightarrow> is_ok (resolve_pinned_direct_key X cs r config))) \<and>
    reserved_coinbase_outputs config + p + (length rs - p + (max_fanout_recipients_per_transaction config - 1)) div
      max_fanout_recipients_per_transaction config \<le> max_coinbase_settlement_outputs config"
    (is "?found \<longleftrightarrow> ?valid \<and> _ \<and> ?canon \<and> ?fits")
proof
  assume ?found
  then obtain d where d: "select_settlement_mode_with_pinned_direct X rs floor config pinned = Inr d" by (auto simp: is_ok_iff)
  let ?pk = "pinned_key_of X pinned" and ?m = "max_fanout_recipients_per_transaction config"
  obtain cs n where v: "validate_config config = Inr ()" and cs: "canonical_recipients X rs = Inr cs" and len': "length cs = length rs"
    and pk: "\<forall>k. ?pk = Some k \<longrightarrow> k \<in> payee_order ` set cs" "pinned \<noteq> None \<longrightarrow> ?pk \<noteq> None \<and> 0 < max_direct_coinbase_outputs config"
    and lt: "sum_list (map sr_amount_sats cs) < 2 ^ 64"
    and n: "select_direct_count (length rs) (candidate_count ?pk floor cs) config (if ?pk = None then 0 else 1) = Inr n"
    by (rule select_settlement_Inr[OF d]) blast
  have "rs \<noteq> []" using d v by (auto simp: select_settlement_mode_with_pinned_direct_def)
  moreover have "\<forall>r. pinned = Some r \<longrightarrow> is_ok (resolve_pinned_direct_key X cs r config)"
    using pk by (fastforce simp: is_ok_iff resolve_pinned_Inr pinned_key_of_def split: sum.splits)
  moreover have p: "p = (if ?pk = None then 0 else 1)" using pk(2) by (auto simp: p_def pinned_key_of_def)
  have m: "0 < ?m" using validate_config_Inr[OF v] by simp
  have ?fits
    using select_direct_count_Inr[OF n[folded p] m] fewer_chunks[OF m, of n "length rs - p"] by linarith
  ultimately show "?valid \<and> rs \<noteq> [] \<and> ?canon \<and> ?fits" using v cs lt by (auto simp: is_ok_iff)
next
  assume r: "?valid \<and> rs \<noteq> [] \<and> ?canon \<and> ?fits"
  then obtain cs where cs: "canonical_recipients X rs = Inr cs" "sum_list (map sr_amount_sats cs) < 2 ^ 64"
    and pin: "\<forall>r. pinned = Some r \<longrightarrow> is_ok (resolve_pinned_direct_key X cs r config)" by blast
  have "p = (if pinned_key_of X pinned = None then 0 else 1)"
    using pinned_key_resolved(3)[OF resolved_pin[OF pin]] by (auto simp: p_def pinned_key_of_def)
  then show ?found
    using settlement_found[OF _ cs(1) _ cs(2) len pin] r by (simp add: is_ok_iff)
qed

theorem settlement_found_iff_witness:
  "length demo_recipients < 2 ^ 63 \<and>
   reserved_coinbase_outputs demo_config + 1 + (length demo_recipients - 1 +
     (max_fanout_recipients_per_transaction demo_config - 1)) div max_fanout_recipients_per_transaction demo_config
     \<le> max_coinbase_settlement_outputs demo_config \<and>
   \<not> is_ok (select_settlement_mode_with_pinned_direct demo_crypto demo_recipients 50
       (demo_config \<lparr> max_coinbase_settlement_outputs := 1 \<rparr>) (Some (demo_recipient ''dan'' ''d4'' 5)))"
proof -
  have len: "length demo_recipients < 2 ^ 63" by (simp add: demo_recipients_def)
  have fits: "reserved_coinbase_outputs demo_config + 1 + (length demo_recipients - 1 +
     (max_fanout_recipients_per_transaction demo_config - 1)) div max_fanout_recipients_per_transaction demo_config
     \<le> max_coinbase_settlement_outputs demo_config"
    using demo_settlement_ok unfolding settlement_found_iff[OF len] by simp
  have "\<not> reserved_coinbase_outputs (demo_config \<lparr> max_coinbase_settlement_outputs := 1 \<rparr>) + 1 + (length demo_recipients - 1 +
     (max_fanout_recipients_per_transaction (demo_config \<lparr> max_coinbase_settlement_outputs := 1 \<rparr>) - 1)) div
       max_fanout_recipients_per_transaction (demo_config \<lparr> max_coinbase_settlement_outputs := 1 \<rparr>)
     \<le> max_coinbase_settlement_outputs (demo_config \<lparr> max_coinbase_settlement_outputs := 1 \<rparr>)"
    by code_simp
  then show ?thesis using len fits unfolding settlement_found_iff[OF len] by simp
qed

lemma ceiling_div: "0 < (D :: nat) \<Longrightarrow> x \<le> (x + (D - 1)) div D * D \<and> (x + (D - 1)) div D * D < x + D"
  using div_times_less_eq_dividend[of "x + (D - 1)" D] dividend_less_div_times[of D "x + (D - 1)"] by linarith

lemma fee_shared_near:
  assumes "fee_shared fee floor p" "r \<in> set p"
  shows "fee * fr_gross_amount_sats r div sum_list (map fr_gross_amount_sats p) \<le> fee_sats r \<and>
    fee_sats r * sum_list (map fr_gross_amount_sats p) <
      fee * fr_gross_amount_sats r + sum_list (map fr_gross_amount_sats p)"
proof -
  obtain i where i: "i < length p" "r = p ! i" using assms(2) by (metis in_set_conv_nth)
  have lr: "largest_remainder fee (map fr_gross_amount_sats p) (map fee_sats p)"
    using assms by (auto simp: fee_shared_def)
  show ?thesis using largest_remainder_floor[OF lr, of i] largest_remainder_ceiling[OF lr, of i] i by simp
qed

text \<open>C23. A fan-out fee is deducted exactly: the loop always ends with a decision, whose payable and
  carried recipients are the given ones, each once, with their amounts. Whoever is payable
  pays the floor or ceiling of a proportional part of the fee and keeps at least the floor,
  these parts add up to the applied fee, and whoever is carried forward pays nothing. The
  applied fee is the requested one unless nobody is payable.\<close>

theorem fanout_fee_exact:
  assumes "canonical_recipients X rs = Inr cs" and "rs \<noteq> []" and "0 < floor"
    and "sum_list (map sr_amount_sats cs) < 2 ^ 64"
  shows "\<exists>d. apply_proportional_fanout_fee X rs fee floor = Inr d \<and>
    mset (map gross_key (payable_recipients d @ carry_forward_recipients d)) = mset (map recipient_key cs) \<and>
    total_gross_sats d = sum_list (map sr_amount_sats cs) \<and> requested_fee_sats d = fee \<and>
    applied_fee_sats d = (if payable_recipients d = [] then 0 else fee) \<and>
    sum_list (map fee_sats (payable_recipients d)) = applied_fee_sats d \<and>
    (\<forall>r\<in>set (payable_recipients d). let G = sum_list (map fr_gross_amount_sats (payable_recipients d)) in
       fr_gross_amount_sats r = fee_sats r + net_amount_sats r \<and> floor \<le> net_amount_sats r \<and>
       fee * fr_gross_amount_sats r div G \<le> fee_sats r \<and> fee_sats r * G < fee * fr_gross_amount_sats r + G) \<and>
    (\<forall>r\<in>set (carry_forward_recipients d). fee_sats r = 0 \<and> net_amount_sats r = fr_gross_amount_sats r)"
proof -
  have dist: "distinct (map payee_order cs)" by (rule canonical_recipients_Inr[OF assms(1)], assumption)
  obtain p c where run: "fee_loop fee floor (sum_list (map sr_amount_sats cs)) cs [] =
      Inr (fee_decision (sum_list (map sr_amount_sats cs)) fee (if p = [] then 0 else fee) p ([] @ c))"
    and out: "fee_outcome fee floor cs p c"
    using fee_loop_outcome[OF dist assms(4)] by blast
  have sh: "fee_shared fee floor p" using out by (simp only: fee_outcome_def)
  have "p \<noteq> [] \<longrightarrow> sum_list (map fee_sats p) = fee"
    using sh largest_remainder_sum by (auto simp: fee_shared_def)
  moreover have "apply_proportional_fanout_fee X rs fee floor =
      Inr (fee_decision (sum_list (map sr_amount_sats cs)) fee (if p = [] then 0 else fee) p c)"
    using run assms by (simp add: apply_proportional_fanout_fee_def sum_amounts_Inr[THEN iffD2, OF conjI[OF refl assms(4)]])
  ultimately show ?thesis
    using out sh fee_shared_near[OF sh]
    by (intro exI[of _ "fee_decision (sum_list (map sr_amount_sats cs)) fee (if p = [] then 0 else fee) p c"])
      (auto simp: fee_decision_def fee_outcome_def uncharged_def fee_shared_def sum_list_sort_key sort_key_eq_Nil Let_def)
qed

theorem fanout_fee_exact_witness:
  "\<exists>d. apply_proportional_fanout_fee demo_crypto demo_recipients 11 4 = Inr d \<and>
     sum_list (map fee_sats (payable_recipients d)) = applied_fee_sats d"
proof -
  obtain cs where cs: "canonical_recipients demo_crypto demo_recipients = Inr cs"
    using demo_canonical_ok unfolding is_ok_iff by blast
  have "is_ok (rbind (canonical_recipients demo_crypto demo_recipients)
      (\<lambda>cs. if sum_list (map sr_amount_sats cs) < 2 ^ 64 then Inr () else Inl PayoutPolicyOverflow))" by code_simp
  then have lt: "sum_list (map sr_amount_sats cs) < 2 ^ 64" by (auto simp: cs is_ok_iff split: if_splits)
  have "demo_recipients \<noteq> []" by (simp add: demo_recipients_def)
  from fanout_fee_exact[OF cs this _ lt, of 4 11] show ?thesis by auto
qed

text \<open>The estimated fee is the exact price rounded up: the weight times the market rate per 1000
  weight times the premium in basis points, divided by ten million and rounded up.\<close>

lemma fanout_fee_rounds_up:
  assumes "estimate_ctv_fanout_fee_sats n policy = Inr fee"
  shows "\<exists>w. estimated_ctv_fanout_weight_bytes n = Inr w \<and>
    w * market_fee_rate_sats_per_1000_weight policy * premium_bps policy \<le> fee * 10000000 \<and>
    fee * 10000000 < w * market_fee_rate_sats_per_1000_weight policy * premium_bps policy + 10000000"
proof -
  obtain w where w: "estimated_ctv_fanout_weight_bytes n = Inr w"
    and fee: "fee = (w * market_fee_rate_sats_per_1000_weight policy * premium_bps policy + 9999999) div 10000000"
    using assms unfolding estimate_ctv_fanout_fee_sats_def Let_def
    by (auto simp: rbind_Inr ok_or_Inr bind_eq_Some_conv checked_simps split: if_splits)
  from w show ?thesis unfolding fee using ceiling_div[of 10000000] by (intro exI[of _ w]) simp
qed

text \<open>The cap on fan-out recipients is the largest that the weight limit allows: a fan-out weighs
  at most the 50000 bytes of a standard version 3 transaction exactly when it has at most
  the 1160 recipients of the cap.\<close>

lemma fanout_cap_is_tight:
  assumes "estimated_ctv_fanout_weight_bytes n = Inr w"
  shows "w \<le> QBIT_TRUC_MAX_TX_WEIGHT_BYTES \<longleftrightarrow> n \<le> MAX_CTV_FANOUT_RECIPIENTS_PER_TRANSACTION"
  using assms unfolding estimated_ctv_fanout_weight_bytes_def compact_size_len_def
    QBIT_TRUC_MAX_TX_WEIGHT_BYTES_def MAX_CTV_FANOUT_RECIPIENTS_PER_TRANSACTION_def
    CTV_FANOUT_FIXED_WEIGHT_BYTES_def CTV_FANOUT_P2MR_OUTPUT_BYTES_def
  by (auto simp: ok_or_Inr bind_eq_Some_conv checked_simps split: if_splits)

end
