(* ===== verification/Ctv_Fanout.thy ===== *)
theory Ctv_Fanout
  imports Ctv_Codec Settlement
begin

text \<open>
  Fan-out settlement manifests (\<^verbatim>\<open>src/crates/qbit-prism/src/ctv.rs\<close> without its transaction codec). A
  precommitment fixes the outputs of a fan-out transaction before the block is mined: the
  covenant output of the coinbase commits to the template hash of the fan-out, and once the
  coinbase is known the fan-out is completed with its outpoint and its witness. \<^verbatim>\<open>serde_json::to_vec\<close>
  is the argument \<open>to_vec\<close> of the functions that hash a precommitment.
\<close>

section \<open>Data\<close>

definition CTV_FANOUT_MANIFEST_SCHEMA :: string where
  "CTV_FANOUT_MANIFEST_SCHEMA = ''qbit.prism.ctv-fanout-manifest.v1''"
definition CTV_FANOUT_MANIFEST_SET_SCHEMA :: string where
  "CTV_FANOUT_MANIFEST_SET_SCHEMA = ''qbit.prism.ctv-fanout-manifest-set.v1''"
definition CTV_FANOUT_PRECOMMITMENT_SCHEMA :: string where
  "CTV_FANOUT_PRECOMMITMENT_SCHEMA = ''qbit.prism.ctv-fanout-precommitment.v1''"
definition CTV_FANOUT_COMMITMENT_LEAF_TAG :: string where
  "CTV_FANOUT_COMMITMENT_LEAF_TAG = ''qbit.prism.ctv-fanout.commitment.v1''"
definition QBIT_P2MR_LEAF_VERSION :: byte where "QBIT_P2MR_LEAF_VERSION = 0xc0"
definition QBIT_P2MR_CONTROL_BLOCK :: byte where "QBIT_P2MR_CONTROL_BLOCK = or QBIT_P2MR_LEAF_VERSION 1"
definition QBIT_OP_CHECKTEMPLATEVERIFY :: byte where "QBIT_OP_CHECKTEMPLATEVERIFY = 0xbb"
definition QBIT_CTV_INPUT_INDEX :: u32 where "QBIT_CTV_INPUT_INDEX = 0"
definition COINBASE_PREVOUT_VOUT :: u32 where "COINBASE_PREVOUT_VOUT = 0xffffffff"
definition P2A_ANCHOR_SCRIPT_PUBKEY_HEX :: string where "P2A_ANCHOR_SCRIPT_PUBKEY_HEX = ''51024e73''"
definition CTV_FANOUT_ANCHOR_VALUE_SATS :: u64 where "CTV_FANOUT_ANCHOR_VALUE_SATS = 0"
definition CTV_FANOUT_TX_VERSION :: u32 where "CTV_FANOUT_TX_VERSION = 3"
definition SEQUENCE_LOCKTIME_DISABLE_FLAG :: u32 where "SEQUENCE_LOCKTIME_DISABLE_FLAG = 2 ^ 31"
definition CTV_FANOUT_SEQUENCE_BASE :: u32 where "CTV_FANOUT_SEQUENCE_BASE = SEQUENCE_LOCKTIME_DISABLE_FLAG"

record CtvFanoutPayout = payee +
  cp_gross_amount_sats :: u64
  cp_fee_sats :: u64
  cp_amount_sats :: u64

record CtvFanoutOutput = payee +
  fo_vout :: u32
  fo_script_pubkey_hex :: string
  fo_gross_amount_sats :: u64
  fo_fee_sats :: u64
  fo_amount_sats :: u64

text \<open>The fields that both inputs have; \<^verbatim>\<open>CtvFanoutManifestInput\<close> adds the transactions.\<close>

record CtvFanoutPrecommitmentInput =
  ci_block_height :: u64
  ci_chunk_index :: u32
  ci_chunk_count :: u32
  ci_coinbase_value_sats :: u64
  ci_settlement_mode :: SettlementMode
  ci_reward_manifest_sha256_hex :: string
  ci_payout_policy_manifest_sha256_hex :: string
  ci_payouts :: "CtvFanoutPayout list"

record CtvFanoutManifestInput = CtvFanoutPrecommitmentInput +
  ci_fanout_tx_template_hex :: string
  ci_parent_coinbase_tx_hex :: string
  ci_parent_coinbase_vout :: u32
  ci_fanout_tx_hex :: string

record CtvFanoutPrecommitment =
  pc_schema :: string
  pc_block_height :: u64
  pc_chunk_index :: u32
  pc_chunk_count :: u32
  pc_coinbase_value_sats :: u64
  pc_settlement_mode :: SettlementMode
  pc_covenant_output_value_sats :: u64
  pc_covenant_script_pubkey_hex :: string
  pc_fanout_tx_template_hex :: string
  pc_fanout_input_index :: u32
  pc_fanout_sequence :: u32
  pc_fanout_lock_time :: u32
  pc_fanout_output_sum_sats :: u64
  pc_fanout_fee_sats :: u64
  pc_anchor_vout :: "u32 option"
  pc_ctv_hash_hex :: string
  pc_ctv_leaf_script_hex :: string
  pc_p2mr_program_hex :: string
  pc_p2mr_control_block_hex :: string
  pc_reward_manifest_sha256_hex :: string
  pc_payout_policy_manifest_sha256_hex :: string
  pc_outputs :: "CtvFanoutOutput list"

record PreparedCtvFanout =
  pr_precommitment :: CtvFanoutPrecommitment
  pr_precommitment_sha256_hex :: string
  pr_commitment_witness_leaf_hex :: string
  pr_covenant_recipient_id :: string
  pr_covenant_order_key :: string
  pr_covenant_p2mr_program_hex :: string
  pr_covenant_output_value_sats :: u64

record CtvFanoutManifest =
  cm_schema :: string
  cm_precommitment :: CtvFanoutPrecommitment
  cm_precommitment_sha256_hex :: string
  cm_commitment_witness_leaf_hex :: string
  cm_parent_coinbase_txid :: string
  cm_parent_coinbase_tx_hex :: string
  cm_parent_coinbase_vout :: u32
  cm_covenant_output_value_sats :: u64
  cm_covenant_script_pubkey_hex :: string
  cm_fanout_tx_hex :: string
  cm_fanout_txid :: string

record CtvFanoutManifestSet =
  ms_schema :: string
  ms_block_height :: u64
  ms_coinbase_value_sats :: u64
  ms_settlement_mode :: SettlementMode
  ms_reward_manifest_sha256_hex :: string
  ms_payout_policy_manifest_sha256_hex :: string
  ms_parent_coinbase_txid :: string
  ms_fanout_count :: u32
  ms_fanout_output_sum_sats :: u64
  ms_fanout_fee_sats :: u64
  ms_covenant_output_value_sats :: u64
  ms_manifests :: "CtvFanoutManifest list"

section \<open>Checks\<close>

text \<open>\<^verbatim>\<open>if cond { return Err(invalid_ctv_manifest(reason)) }\<close>, and a run of such checks: the first that fails.\<close>

definition reject_if :: "bool \<Rightarrow> string \<Rightarrow> PrismError + unit" where
  "reject_if cond msg = (if cond then Inl (invalid_ctv_manifest msg) else Inr ())"

definition checks :: "(PrismError + unit) list \<Rightarrow> PrismError + unit" where
  "checks rs = rfold (\<lambda>_ r. r) () rs"

definition vec_get :: "'a list \<Rightarrow> nat \<Rightarrow> 'a option" where
  "vec_get xs i = (if i < length xs then Some (xs ! i) else None)"

definition decode_hash_hex :: "crypto \<Rightarrow> string \<Rightarrow> string \<Rightarrow> PrismError + byte list" where
  "decode_hash_hex X value field =
     rbind (map_err (\<lambda>err. invalid_ctv_manifest (field @ '' must be hex: '' @ err)) (hex_decode X value)) (\<lambda>bytes.
       if length bytes \<noteq> 32
       then Inl (invalid_ctv_manifest (field @ '' must be 32 bytes, got '' @ show_nat (length bytes)))
       else Inr bytes)"

definition decode_program_hex :: "crypto \<Rightarrow> string \<Rightarrow> string \<Rightarrow> PrismError + byte list" where
  "decode_program_hex X value field =
     rbind (map_err (\<lambda>err. invalid_ctv_manifest (field @ '' must be hex: '' @ err)) (hex_decode X value)) (\<lambda>bytes.
       if length bytes \<noteq> P2MR_PROGRAM_LEN
       then Inl (invalid_ctv_manifest (field @ '' must be '' @ show_nat P2MR_PROGRAM_LEN @ '' bytes, got '' @
              show_nat (length bytes)))
       else Inr bytes)"

definition validate_sha256_hex :: "crypto \<Rightarrow> string \<Rightarrow> string \<Rightarrow> PrismError + unit" where
  "validate_sha256_hex X value field = rbind (decode_hash_hex X value field) (\<lambda>_. Inr ())"

definition validate_canonical_sha256_hex :: "crypto \<Rightarrow> string \<Rightarrow> string \<Rightarrow> PrismError + unit" where
  "validate_canonical_sha256_hex X value field =
     rbind (decode_hash_hex X value field) (\<lambda>hash.
       reject_if (value \<noteq> hex_encode X hash) (field @ '' must be lowercase canonical hex''))"

definition validate_canonical_hex :: "crypto \<Rightarrow> string \<Rightarrow> string \<Rightarrow> PrismError + unit" where
  "validate_canonical_hex X value field =
     rbind (map_err (\<lambda>err. invalid_ctv_manifest (field @ '' must be hex: '' @ err)) (hex_decode X value)) (\<lambda>bytes.
       reject_if (value \<noteq> hex_encode X bytes) (field @ '' must be lowercase canonical hex''))"

definition canonical_p2mr_program_hex :: "crypto \<Rightarrow> string \<Rightarrow> string \<Rightarrow> PrismError + string" where
  "canonical_p2mr_program_hex X value field =
     rbind (decode_program_hex X value field) (\<lambda>program. Inr (hex_encode X program))"

definition normalize_hex :: "crypto \<Rightarrow> string \<Rightarrow> PrismError + string" where
  "normalize_hex X value =
     rbind (map_err (\<lambda>err. invalid_ctv_manifest (''invalid transaction hex: '' @ err)) (hex_decode X value)) (\<lambda>bytes.
       Inr (hex_encode X bytes))"

definition normalize_txid_hex :: "crypto \<Rightarrow> string \<Rightarrow> string \<Rightarrow> PrismError + string" where
  "normalize_txid_hex X value field =
     rbind (map_err (\<lambda>err. invalid_ctv_manifest (field @ '' must be hex: '' @ err)) (hex_decode X value)) (\<lambda>bytes.
       if length bytes \<noteq> 32
       then Inl (invalid_ctv_manifest (field @ '' must be 32 bytes, got '' @ show_nat (length bytes)))
       else Inr (hex_encode X bytes))"

definition validate_chunk_identity :: "u32 \<Rightarrow> u32 \<Rightarrow> PrismError + unit" where
  "validate_chunk_identity chunk_index chunk_count =
     checks [reject_if (chunk_count = 0) ''fanout chunk_count must be positive'',
             reject_if (chunk_index \<ge> chunk_count) ''fanout chunk_index must be less than chunk_count'']"

definition expected_fanout_sequence :: "u32 \<Rightarrow> PrismError + u32" where
  "expected_fanout_sequence chunk_index =
     ok_or (checked_add 32 CTV_FANOUT_SEQUENCE_BASE chunk_index) (invalid_ctv_manifest ''fanout sequence overflowed'')"

definition ensure_coinbase_shape :: "ParsedTransaction \<Rightarrow> PrismError + unit" where
  "ensure_coinbase_shape tx =
     checks [reject_if (length (pt_inputs tx) \<noteq> 1) ''parent coinbase must have exactly one input'',
             (let input = pt_inputs tx ! 0 in
              reject_if (ti_prev_txid_hex input \<noteq> concat (replicate 32 ''00'') \<or> ti_prev_vout input \<noteq> COINBASE_PREVOUT_VOUT)
                ''parent coinbase input must spend the null outpoint'')]"

definition validate_fanout_template :: "ParsedTransaction \<Rightarrow> PrismError + unit" where
  "validate_fanout_template tx =
     checks [reject_if (pt_version tx \<noteq> CTV_FANOUT_TX_VERSION) ''fanout template must be a version 3 (TRUC) transaction'',
             reject_if (length (pt_inputs tx) \<noteq> 1) ''fanout template transaction must have exactly one input'',
             reject_if (pt_witness_stacks tx \<noteq> None) ''fanout template transaction must not include witness data'',
             reject_if (ti_script_sig (pt_inputs tx ! QBIT_CTV_INPUT_INDEX) \<noteq> [])
               ''fanout template input scriptSig must be empty'']"

definition canonical_precommitment_bytes ::
  "(CtvFanoutPrecommitment \<Rightarrow> string + byte list) \<Rightarrow> CtvFanoutPrecommitment \<Rightarrow> PrismError + byte list" where
  "canonical_precommitment_bytes to_vec precommitment = map_err PrismJson (to_vec precommitment)"

definition p2a_anchor_script_pubkey :: "crypto \<Rightarrow> PrismError + byte list" where
  "p2a_anchor_script_pubkey X =
     map_err (\<lambda>_. Panicked ''static P2A script hex'') (hex_decode X P2A_ANCHOR_SCRIPT_PUBKEY_HEX)"

definition fanout_has_cpfp_anchor :: "u64 \<Rightarrow> bool" where
  "fanout_has_cpfp_anchor fee \<longleftrightarrow> fee = 0"

definition anchor_vout_for_fee :: "usize \<Rightarrow> u64 \<Rightarrow> PrismError + u32 option" where
  "anchor_vout_for_fee output_count fee =
     (if \<not> fanout_has_cpfp_anchor fee then Inr None
      else rbind (ok_or (try_from 32 output_count) (invalid_ctv_manifest ''fanout anchor vout exceeds uint32'')) (\<lambda>vout.
        Inr (Some vout)))"

definition ensure_fee_anchor_output :: "crypto \<Rightarrow> ParsedTxOut \<Rightarrow> u32 \<Rightarrow> usize \<Rightarrow> PrismError + unit" where
  "ensure_fee_anchor_output X txo declared_vout expected_index =
     checks [reject_if (declared_vout \<noteq> expected_index) ''fee anchor vout mismatch'',
             reject_if (to_amount_sats txo \<noteq> CTV_FANOUT_ANCHOR_VALUE_SATS) ''fee anchor value must be zero'',
             rbind (p2a_anchor_script_pubkey X) (\<lambda>anchor.
               reject_if (to_script_pubkey txo \<noteq> anchor) ''fee anchor must use the P2A scriptPubKey'')]"

definition commitment_witness_leaf_hex :: "crypto \<Rightarrow> string \<Rightarrow> PrismError + string" where
  "commitment_witness_leaf_hex X precommitment_sha256_hex =
     rbind (decode_hash_hex X precommitment_sha256_hex ''precommitment_sha256_hex'') (\<lambda>precommitment_hash.
       Inr (hex_encode X (sha256 X (as_bytes CTV_FANOUT_COMMITMENT_LEAF_TAG @ precommitment_hash))))"

section \<open>The template hash and the covenant script\<close>

definition ctv_scripts :: "ParsedTransaction \<Rightarrow> byte list" where
  "ctv_scripts tx =
     concat (map (\<lambda>input. compact_size (length (ti_script_sig input)) @ ti_script_sig input) (pt_inputs tx))"

definition ctv_sequences :: "ParsedTransaction \<Rightarrow> byte list" where
  "ctv_sequences tx = concat (map (\<lambda>input. le_bytes 4 (ti_sequence input)) (pt_inputs tx))"

definition ctv_outputs :: "ParsedTransaction \<Rightarrow> byte list" where
  "ctv_outputs tx = concat (map serialize_tx_out (pt_outputs tx))"

definition ctv_preimage :: "crypto \<Rightarrow> ParsedTransaction \<Rightarrow> u32 \<Rightarrow> u32 \<Rightarrow> u32 \<Rightarrow> byte list" where
  "ctv_preimage X tx input_count output_count input_index =
     le_bytes 4 (pt_version tx) @ le_bytes 4 (pt_lock_time tx) @
     (if \<exists>input\<in>set (pt_inputs tx). ti_script_sig input \<noteq> [] then sha256 X (ctv_scripts tx) else []) @
     le_bytes 4 input_count @ sha256 X (ctv_sequences tx) @
     le_bytes 4 output_count @ sha256 X (ctv_outputs tx) @ le_bytes 4 input_index"

definition default_ctv_hash_for_parsed_tx :: "crypto \<Rightarrow> ParsedTransaction \<Rightarrow> usize \<Rightarrow> PrismError + byte list" where
  "default_ctv_hash_for_parsed_tx X tx input_index =
     (if input_index \<ge> length (pt_inputs tx) then Inl (invalid_ctv_manifest ''CTV input index out of range'')
      else
        rbind (ok_or (try_from 32 (length (pt_inputs tx)))
                (invalid_ctv_manifest ''CTV input count exceeds uint32'')) (\<lambda>input_count.
        rbind (ok_or (try_from 32 (length (pt_outputs tx)))
                (invalid_ctv_manifest ''CTV output count exceeds uint32'')) (\<lambda>output_count.
        rbind (ok_or (try_from 32 input_index)
                (invalid_ctv_manifest ''CTV input index exceeds uint32'')) (\<lambda>input_index.
          Inr (sha256 X (ctv_preimage X tx input_count output_count input_index))))))"

definition ctv_leaf_script :: "byte list \<Rightarrow> byte list" where
  "ctv_leaf_script ctv_hash = 32 # ctv_hash @ [QBIT_OP_CHECKTEMPLATEVERIFY]"

definition tagged_hash :: "crypto \<Rightarrow> string \<Rightarrow> byte list \<Rightarrow> byte list" where
  "tagged_hash X tag payload =
     (let tag_hash = sha256 X (as_bytes tag) in sha256 X (tag_hash @ tag_hash @ payload))"

definition p2mr_tapleaf_hash :: "crypto \<Rightarrow> byte list \<Rightarrow> byte list" where
  "p2mr_tapleaf_hash X leaf_script =
     tagged_hash X ''P2MRLeaf'' (QBIT_P2MR_LEAF_VERSION # compact_size (length leaf_script) @ leaf_script)"

definition default_ctv_hash_hex :: "crypto \<Rightarrow> string \<Rightarrow> usize \<Rightarrow> PrismError + string" where
  "default_ctv_hash_hex X tx_hex input_index =
     rbind (parse_transaction_hex X tx_hex ''tx_hex'') (\<lambda>tx.
     rbind (default_ctv_hash_for_parsed_tx X tx input_index) (\<lambda>ctv_hash. Inr (hex_encode X ctv_hash)))"

definition ctv_leaf_script_hex :: "crypto \<Rightarrow> string \<Rightarrow> PrismError + string" where
  "ctv_leaf_script_hex X ctv_hash_hex =
     rbind (decode_hash_hex X ctv_hash_hex ''ctv_hash_hex'') (\<lambda>ctv_hash. Inr (hex_encode X (ctv_leaf_script ctv_hash)))"

definition p2mr_program_for_ctv_leaf_hex :: "crypto \<Rightarrow> string \<Rightarrow> PrismError + string" where
  "p2mr_program_for_ctv_leaf_hex X leaf_hex =
     rbind (map_err (\<lambda>err. invalid_ctv_manifest (''invalid ctv_leaf_script_hex: '' @ err)) (hex_decode X leaf_hex)) (\<lambda>leaf_script.
       Inr (hex_encode X (p2mr_tapleaf_hash X leaf_script)))"

definition verify_fanout_witness :: "ParsedTransaction \<Rightarrow> byte list \<Rightarrow> PrismError + unit" where
  "verify_fanout_witness tx leaf_script =
     rbind (ok_or (pt_witness_stacks tx) (invalid_ctv_manifest ''fanout transaction must include P2MR witness'')) (\<lambda>witness.
     rbind (ok_or (vec_get witness QBIT_CTV_INPUT_INDEX) (invalid_ctv_manifest ''fanout witness input 0 is missing'')) (\<lambda>stack.
       checks [reject_if (length stack \<noteq> 2) ''fanout P2MR witness must contain leaf script and control block'',
               reject_if (stack ! 0 \<noteq> leaf_script) ''fanout witness leaf script mismatch'',
               reject_if (stack ! 1 \<noteq> [QBIT_P2MR_CONTROL_BLOCK]) ''fanout witness control block mismatch'']))"

section \<open>Fan-out transactions\<close>

definition output_spec_from_fanout_output :: "crypto \<Rightarrow> CtvFanoutOutput \<Rightarrow> PrismError + TxOutputSpec" where
  "output_spec_from_fanout_output X out =
     rbind (map_err (\<lambda>err. invalid_ctv_manifest (''fanout output scriptPubKey must be canonical hex: '' @ err))
             (hex_decode X (fo_script_pubkey_hex out))) (\<lambda>script.
       Inr \<lparr> to_amount_sats = fo_amount_sats out, to_script_pubkey = script \<rparr>)"

definition p2a_anchor_output_spec :: "crypto \<Rightarrow> PrismError + TxOutputSpec" where
  "p2a_anchor_output_spec X =
     rbind (p2a_anchor_script_pubkey X) (\<lambda>script.
       Inr \<lparr> to_amount_sats = CTV_FANOUT_ANCHOR_VALUE_SATS, to_script_pubkey = script \<rparr>)"

definition output_specs_with_anchor :: "crypto \<Rightarrow> CtvFanoutOutput list \<Rightarrow> PrismError + TxOutputSpec list" where
  "output_specs_with_anchor X outs =
     rbind (rmap (output_spec_from_fanout_output X) outs) (\<lambda>specs.
     rbind (p2a_anchor_output_spec X) (\<lambda>anchor. Inr (specs @ [anchor])))"

definition fanout_output_specs :: "crypto \<Rightarrow> CtvFanoutOutput list \<Rightarrow> bool \<Rightarrow> PrismError + TxOutputSpec list" where
  "fanout_output_specs X outs include_anchor =
     (if include_anchor then output_specs_with_anchor X outs
      else rmap (output_spec_from_fanout_output X) outs)"

definition unsigned_fanout_tx_hex ::
  "crypto \<Rightarrow> string \<Rightarrow> u32 \<Rightarrow> CtvFanoutOutput list \<Rightarrow> bool \<Rightarrow> u32 \<Rightarrow> u32 \<Rightarrow> PrismError + string" where
  "unsigned_fanout_tx_hex X parent_txid_hex parent_vout outs include_anchor lock_time sequence =
     rbind (normalize_txid_hex X parent_txid_hex ''fanout parent txid'') (\<lambda>prev_txid_hex.
     rbind (fanout_output_specs X outs include_anchor) (\<lambda>specs.
       serialize_tx_hex X CTV_FANOUT_TX_VERSION
         [\<lparr> ti_prev_txid_hex = prev_txid_hex, ti_prev_vout = parent_vout, ti_script_sig = [],
            ti_sequence = sequence, is_witness_stack = [] \<rparr>]
         specs lock_time False))"

definition witnessed_fanout_tx_hex ::
  "crypto \<Rightarrow> string \<Rightarrow> u32 \<Rightarrow> CtvFanoutOutput list \<Rightarrow> bool \<Rightarrow> u32 \<Rightarrow> u32 \<Rightarrow> byte list \<Rightarrow> PrismError + string" where
  "witnessed_fanout_tx_hex X parent_txid_hex parent_vout outs include_anchor lock_time sequence leaf_script =
     rbind (normalize_txid_hex X parent_txid_hex ''fanout parent txid'') (\<lambda>prev_txid_hex.
     rbind (fanout_output_specs X outs include_anchor) (\<lambda>specs.
       serialize_tx_hex X CTV_FANOUT_TX_VERSION
         [\<lparr> ti_prev_txid_hex = prev_txid_hex, ti_prev_vout = parent_vout, ti_script_sig = [],
            ti_sequence = sequence, is_witness_stack = [leaf_script, [QBIT_P2MR_CONTROL_BLOCK]] \<rparr>]
         specs lock_time True))"

section \<open>Outputs and precommitments\<close>

definition payout_sort_key :: "CtvFanoutPayout \<Rightarrow> string \<times> string \<times> string \<times> u64" where
  "payout_sort_key p = (order_key p, recipient_id p, p2mr_program_hex p, cp_amount_sats p)"

definition canonical_payout :: "crypto \<Rightarrow> CtvFanoutPayout \<Rightarrow> PrismError + CtvFanoutPayout" where
  "canonical_payout X p =
     rbind (canonical_p2mr_program_hex X (p2mr_program_hex p) ''payout p2mr_program_hex'') (\<lambda>program_hex.
       Inr (p \<lparr> p2mr_program_hex := program_hex \<rparr>))"

text \<open>One step of the \<^verbatim>\<open>map\<close> closure, with the set \<^verbatim>\<open>seen\<close> that it captures.\<close>

definition fanout_output_step ::
  "crypto \<Rightarrow> payee_key set \<times> CtvFanoutOutput list \<Rightarrow> nat \<times> CtvFanoutPayout \<Rightarrow>
     PrismError + payee_key set \<times> CtvFanoutOutput list" where
  "fanout_output_step X st ip =
     (let (seen, outs) = st; (index, p) = ip;
          gross = (if cp_gross_amount_sats p = 0 then cp_amount_sats p else cp_gross_amount_sats p);
          key = (order_key p, recipient_id p, p2mr_program_hex p) in
      rbind (reject_if (cp_amount_sats p = 0) ''fanout payout amount must be positive'') (\<lambda>_.
      rbind (ok_or (checked_add 64 (cp_amount_sats p) (cp_fee_sats p))
              (invalid_ctv_manifest ''fanout payout gross amount overflowed'')) (\<lambda>funded.
      rbind (reject_if (funded \<noteq> gross) ''fanout payout gross amount must equal amount plus fee'') (\<lambda>_.
      rbind (decode_program_hex X (p2mr_program_hex p) ''payout p2mr_program_hex'') (\<lambda>program.
      rbind (reject_if (key \<in> seen) ''duplicate fanout payout recipient'') (\<lambda>_.
        Inr (insert key seen,
             outs @ [\<lparr> recipient_id = recipient_id p, order_key = order_key p, p2mr_program_hex = p2mr_program_hex p,
                fo_vout = index mod 2 ^ 32, fo_script_pubkey_hex = hex_encode X (p2mr_script_pubkey program),
                fo_gross_amount_sats = gross, fo_fee_sats = cp_fee_sats p,
                fo_amount_sats = cp_amount_sats p \<rparr>])))))))"

definition canonical_fanout_outputs :: "crypto \<Rightarrow> CtvFanoutPayout list \<Rightarrow> PrismError + CtvFanoutOutput list" where
  "canonical_fanout_outputs X payouts =
     rbind (reject_if (payouts = []) ''fanout must have at least one payout'') (\<lambda>_.
     rbind (rmap (canonical_payout X) payouts) (\<lambda>payouts.
     rbind (rfold (fanout_output_step X) ({}, []) (enumerate 0 (sort_key payout_sort_key payouts))) (\<lambda>(seen, outs).
       Inr outs)))"

definition fanout_sum :: "string \<Rightarrow> ('a \<Rightarrow> u64) \<Rightarrow> 'a list \<Rightarrow> PrismError + u64" where
  "fanout_sum msg f xs = try_sum 64 (invalid_ctv_manifest msg) (map f xs)"

definition verify_precommitment_fields :: "crypto \<Rightarrow> CtvFanoutPrecommitment \<Rightarrow> PrismError + unit" where
  "verify_precommitment_fields X p =
     checks [
       reject_if (pc_schema p \<noteq> CTV_FANOUT_PRECOMMITMENT_SCHEMA) ''unexpected fanout precommitment schema'',
       validate_canonical_hex X (pc_covenant_script_pubkey_hex p) ''precommitment covenant_script_pubkey_hex'',
       validate_canonical_hex X (pc_fanout_tx_template_hex p) ''precommitment fanout_tx_template_hex'',
       validate_canonical_sha256_hex X (pc_ctv_hash_hex p) ''precommitment ctv_hash_hex'',
       validate_canonical_hex X (pc_ctv_leaf_script_hex p) ''precommitment ctv_leaf_script_hex'',
       rbind (canonical_p2mr_program_hex X (pc_p2mr_program_hex p) ''precommitment p2mr_program_hex'') (\<lambda>program_hex.
         reject_if (pc_p2mr_program_hex p \<noteq> program_hex)
           ''precommitment p2mr_program_hex must be lowercase canonical hex''),
       validate_canonical_hex X (pc_p2mr_control_block_hex p) ''precommitment p2mr_control_block_hex'',
       validate_canonical_sha256_hex X (pc_reward_manifest_sha256_hex p) ''precommitment reward_manifest_sha256_hex'',
       validate_canonical_sha256_hex X (pc_payout_policy_manifest_sha256_hex p)
         ''precommitment payout_policy_manifest_sha256_hex'',
       validate_chunk_identity (pc_chunk_index p) (pc_chunk_count p),
       rbind (expected_fanout_sequence (pc_chunk_index p)) (\<lambda>sequence.
         reject_if (pc_fanout_sequence p \<noteq> sequence) ''fanout sequence must equal the chunk index''),
       reject_if (pc_fanout_lock_time p \<noteq> pc_block_height p mod 2 ^ 32)
         ''fanout lock_time must equal block height for unique CTV context'',
       reject_if (pc_outputs p = []) ''fanout precommitment has no outputs'']"

definition verify_output_step ::
  "crypto \<Rightarrow> u64 \<times> u64 \<times> payee_key set \<Rightarrow> nat \<times> CtvFanoutOutput \<Rightarrow> PrismError + u64 \<times> u64 \<times> payee_key set" where
  "verify_output_step X st io =
     (let (sum, fee, seen) = st; (index, out) = io in
      rbind (reject_if (fo_vout out \<noteq> index mod 2 ^ 32) (''fanout output '' @ show_nat index @ '' vout mismatch'')) (\<lambda>_.
      rbind (reject_if (fo_amount_sats out = 0)
              (''fanout output '' @ show_nat index @ '' amount must be positive'')) (\<lambda>_.
      rbind (canonical_p2mr_program_hex X (p2mr_program_hex out) ''precommitment p2mr_program_hex'') (\<lambda>program_hex.
      rbind (reject_if ((order_key out, recipient_id out, program_hex) \<in> seen)
              ''duplicate fanout payout recipient'') (\<lambda>_.
      rbind (decode_program_hex X (p2mr_program_hex out) ''precommitment p2mr_program_hex'') (\<lambda>program.
      rbind (reject_if (p2mr_program_hex out \<noteq> hex_encode X program)
              ''precommitment p2mr_program_hex must be lowercase canonical hex'') (\<lambda>_.
      rbind (reject_if (hex_encode X (p2mr_script_pubkey program) \<noteq> fo_script_pubkey_hex out)
              (''fanout output '' @ show_nat index @ '' scriptPubKey mismatch'')) (\<lambda>_.
      rbind (ok_or (checked_add 64 sum (fo_amount_sats out))
              (invalid_ctv_manifest ''fanout output sum overflowed'')) (\<lambda>sum.
      rbind (ok_or (checked_add 64 fee (fo_fee_sats out))
              (invalid_ctv_manifest ''fanout fee sum overflowed'')) (\<lambda>fee.
        Inr (sum, fee, insert (order_key out, recipient_id out, program_hex) seen)))))))))))"

definition verify_anchor :: "CtvFanoutPrecommitment \<Rightarrow> PrismError + unit" where
  "verify_anchor p =
     (case (pc_fanout_fee_sats p = 0, pc_anchor_vout p) of
        (True, Some anchor_vout) \<Rightarrow>
          reject_if (anchor_vout \<noteq> length (pc_outputs p)) ''fee anchor vout must follow the payouts''
      | (True, None) \<Rightarrow> Inl (invalid_ctv_manifest ''zero-fee fanout must include a CPFP anchor'')
      | (False, Some _) \<Rightarrow> Inl (invalid_ctv_manifest ''built-in-fee fanout must not include a CPFP anchor'')
      | (False, None) \<Rightarrow> Inr ())"

definition verify_precommitment :: "crypto \<Rightarrow> CtvFanoutPrecommitment \<Rightarrow> PrismError + unit" where
  "verify_precommitment X p =
     rbind (verify_precommitment_fields X p) (\<lambda>_.
     rbind (rfold (verify_output_step X) (0, 0, {}) (enumerate 0 (pc_outputs p))) (\<lambda>(expected_sum, expected_fee, seen).
     rbind (reject_if (expected_sum \<noteq> pc_fanout_output_sum_sats p) ''fanout output sum mismatch'') (\<lambda>_.
     rbind (reject_if (expected_fee \<noteq> pc_fanout_fee_sats p) ''fanout fee sum mismatch'') (\<lambda>_.
     rbind (ok_or (checked_add 64 expected_sum expected_fee)
             (invalid_ctv_manifest ''fanout funded value overflowed'')) (\<lambda>funded.
     rbind (reject_if (funded \<noteq> pc_covenant_output_value_sats p)
             ''fanout payouts plus fee do not equal covenant output value'') (\<lambda>_.
       verify_anchor p))))))"

definition validate_fanout_input :: "crypto \<Rightarrow> ('x) CtvFanoutPrecommitmentInput_scheme \<Rightarrow> string \<Rightarrow> PrismError + unit" where
  "validate_fanout_input X input what =
     checks [
       reject_if (ci_block_height input > 2 ^ 32 - 1) ''block height must fit fanout lock_time'',
       reject_if (ci_settlement_mode input = DirectCoinbase) (''direct_coinbase mode cannot include a CTV fanout '' @ what),
       validate_chunk_identity (ci_chunk_index input) (ci_chunk_count input),
       validate_sha256_hex X (ci_reward_manifest_sha256_hex input) ''reward_manifest_sha256_hex'',
       validate_sha256_hex X (ci_payout_policy_manifest_sha256_hex input) ''payout_policy_manifest_sha256_hex'']"

definition prepare_ctv_fanout_precommitment ::
  "crypto \<Rightarrow> (CtvFanoutPrecommitment \<Rightarrow> string + byte list) \<Rightarrow> CtvFanoutPrecommitmentInput \<Rightarrow>
     PrismError + PreparedCtvFanout" where
  "prepare_ctv_fanout_precommitment X to_vec input =
     rbind (validate_fanout_input X input ''precommitment'') (\<lambda>_.
     rbind (canonical_fanout_outputs X (ci_payouts input)) (\<lambda>outs.
     rbind (fanout_sum ''fanout output sum overflowed'' fo_amount_sats outs) (\<lambda>sum.
     rbind (fanout_sum ''fanout fee sum overflowed'' fo_fee_sats outs) (\<lambda>fee.
     rbind (ok_or (checked_add 64 sum fee) (invalid_ctv_manifest ''fanout covenant value overflowed'')) (\<lambda>covenant_value.
     rbind (expected_fanout_sequence (ci_chunk_index input)) (\<lambda>sequence.
     rbind (unsigned_fanout_tx_hex X (concat (replicate 32 ''00'')) 0 outs (fanout_has_cpfp_anchor fee)
              (ci_block_height input mod 2 ^ 32) sequence) (\<lambda>template_hex.
     rbind (default_ctv_hash_hex X template_hex QBIT_CTV_INPUT_INDEX) (\<lambda>ctv_hash_hex.
     rbind (ctv_leaf_script_hex X ctv_hash_hex) (\<lambda>leaf_hex.
     rbind (p2mr_program_for_ctv_leaf_hex X leaf_hex) (\<lambda>program_hex.
     rbind (decode_program_hex X program_hex ''p2mr_program_hex'') (\<lambda>program.
     rbind (anchor_vout_for_fee (length outs) fee) (\<lambda>anchor_vout.
     let precommitment = \<lparr> pc_schema = CTV_FANOUT_PRECOMMITMENT_SCHEMA, pc_block_height = ci_block_height input,
           pc_chunk_index = ci_chunk_index input, pc_chunk_count = ci_chunk_count input,
           pc_coinbase_value_sats = ci_coinbase_value_sats input, pc_settlement_mode = ci_settlement_mode input,
           pc_covenant_output_value_sats = covenant_value,
           pc_covenant_script_pubkey_hex = hex_encode X (p2mr_script_pubkey program),
           pc_fanout_tx_template_hex = template_hex, pc_fanout_input_index = QBIT_CTV_INPUT_INDEX,
           pc_fanout_sequence = sequence, pc_fanout_lock_time = ci_block_height input mod 2 ^ 32,
           pc_fanout_output_sum_sats = sum, pc_fanout_fee_sats = fee, pc_anchor_vout = anchor_vout,
           pc_ctv_hash_hex = ctv_hash_hex, pc_ctv_leaf_script_hex = leaf_hex, pc_p2mr_program_hex = program_hex,
           pc_p2mr_control_block_hex = hex_encode X [QBIT_P2MR_CONTROL_BLOCK],
           pc_reward_manifest_sha256_hex = to_ascii_lowercase (ci_reward_manifest_sha256_hex input),
           pc_payout_policy_manifest_sha256_hex = to_ascii_lowercase (ci_payout_policy_manifest_sha256_hex input),
           pc_outputs = outs \<rparr> in
     rbind (verify_precommitment X precommitment) (\<lambda>_.
     rbind (canonical_precommitment_bytes to_vec precommitment) (\<lambda>bytes.
     let sha_hex = sha256_hex X bytes in
     rbind (commitment_witness_leaf_hex X sha_hex) (\<lambda>leaf.
       Inr \<lparr> pr_precommitment = precommitment, pr_precommitment_sha256_hex = sha_hex,
             pr_commitment_witness_leaf_hex = leaf,
             pr_covenant_recipient_id = ''ctv-fanout-'' @ show_nat (pc_chunk_index precommitment),
             pr_covenant_order_key = ''ctv-fanout-'' @ show_nat_padded 8 (pc_chunk_index precommitment),
             pr_covenant_p2mr_program_hex = program_hex,
             pr_covenant_output_value_sats = pc_covenant_output_value_sats precommitment \<rparr>)))))))))))))))"

section \<open>Structural verification\<close>

text \<open>The function is a run of checks; the groups below are its paragraphs in the order of the source.\<close>

definition verify_manifest_fields ::
  "crypto \<Rightarrow> (CtvFanoutPrecommitment \<Rightarrow> string + byte list) \<Rightarrow> CtvFanoutManifest \<Rightarrow> PrismError + unit" where
  "verify_manifest_fields X to_vec m =
     (let p = cm_precommitment m in
      checks [
        validate_canonical_sha256_hex X (cm_precommitment_sha256_hex m) ''manifest precommitment_sha256_hex'',
        validate_canonical_sha256_hex X (cm_commitment_witness_leaf_hex m) ''manifest commitment_witness_leaf_hex'',
        validate_canonical_sha256_hex X (cm_parent_coinbase_txid m) ''manifest parent_coinbase_txid'',
        validate_canonical_hex X (cm_parent_coinbase_tx_hex m) ''manifest parent_coinbase_tx_hex'',
        validate_canonical_hex X (cm_covenant_script_pubkey_hex m) ''manifest covenant_script_pubkey_hex'',
        validate_canonical_hex X (cm_fanout_tx_hex m) ''manifest fanout_tx_hex'',
        validate_canonical_sha256_hex X (cm_fanout_txid m) ''manifest fanout_txid'',
        reject_if (pc_settlement_mode p = DirectCoinbase) ''direct_coinbase mode cannot include a CTV fanout manifest'',
        validate_chunk_identity (pc_chunk_index p) (pc_chunk_count p),
        rbind (canonical_precommitment_bytes to_vec p) (\<lambda>bytes.
          reject_if (cm_precommitment_sha256_hex m \<noteq> sha256_hex X bytes) ''fanout precommitment hash mismatch''),
        rbind (commitment_witness_leaf_hex X (cm_precommitment_sha256_hex m)) (\<lambda>leaf.
          reject_if (cm_commitment_witness_leaf_hex m \<noteq> leaf) ''fanout commitment witness leaf mismatch''),
        reject_if (pc_fanout_input_index p \<noteq> QBIT_CTV_INPUT_INDEX) ''only fanout input index 0 is supported'',
        reject_if (pc_block_height p > 2 ^ 32 - 1) ''block height must fit fanout lock_time'',
        validate_sha256_hex X (pc_reward_manifest_sha256_hex p) ''reward_manifest_sha256_hex'',
        validate_sha256_hex X (pc_payout_policy_manifest_sha256_hex p) ''payout_policy_manifest_sha256_hex'',
        reject_if (pc_p2mr_control_block_hex p \<noteq> hex_encode X [QBIT_P2MR_CONTROL_BLOCK]) ''P2MR control block mismatch''])"

definition verify_covenant_output :: "crypto \<Rightarrow> CtvFanoutManifest \<Rightarrow> PrismError + unit" where
  "verify_covenant_output X m =
     (let p = cm_precommitment m in
      rbind (parse_transaction_hex X (cm_parent_coinbase_tx_hex m) ''manifest parent_coinbase_tx_hex'') (\<lambda>parent.
      rbind (ensure_coinbase_shape parent) (\<lambda>_.
      rbind (reject_if (txid_hex X parent \<noteq> cm_parent_coinbase_txid m) ''parent coinbase txid mismatch'') (\<lambda>_.
      rbind (ok_or (vec_get (pt_outputs parent) (cm_parent_coinbase_vout m))
              (invalid_ctv_manifest ''parent coinbase vout is out of range'')) (\<lambda>covenant_output.
        checks [
          reject_if (to_amount_sats covenant_output \<noteq> cm_covenant_output_value_sats m) ''covenant output value mismatch'',
          reject_if (to_amount_sats covenant_output \<noteq> pc_covenant_output_value_sats p)
            ''parent covenant value does not match precommitment'',
          reject_if (hex_encode X (to_script_pubkey covenant_output) \<noteq> cm_covenant_script_pubkey_hex m)
            ''covenant scriptPubKey mismatch'',
          reject_if (cm_covenant_script_pubkey_hex m \<noteq> pc_covenant_script_pubkey_hex p)
            ''parent covenant scriptPubKey does not match precommitment''])))))"

definition verify_fanout_input :: "crypto \<Rightarrow> CtvFanoutManifest \<Rightarrow> ParsedTransaction \<Rightarrow> PrismError + unit" where
  "verify_fanout_input X m fanout =
     (let p = cm_precommitment m; input = pt_inputs fanout ! QBIT_CTV_INPUT_INDEX in
      checks [
        reject_if (txid_hex X fanout \<noteq> cm_fanout_txid m) ''fanout txid mismatch'',
        reject_if (length (pt_inputs fanout) \<noteq> 1) ''CTV fanout transaction must spend exactly one input'',
        reject_if (ti_script_sig input \<noteq> []) ''fanout input scriptSig must be empty'',
        reject_if (ti_prev_txid_hex input \<noteq> cm_parent_coinbase_txid m) ''fanout prevout txid mismatch'',
        reject_if (ti_prev_vout input \<noteq> cm_parent_coinbase_vout m) ''fanout prevout vout mismatch'',
        reject_if (ti_sequence input \<noteq> pc_fanout_sequence p) ''fanout sequence mismatch'',
        rbind (expected_fanout_sequence (pc_chunk_index p)) (\<lambda>sequence.
          reject_if (ti_sequence input \<noteq> sequence) ''fanout sequence must equal the chunk index''),
        reject_if (pt_lock_time fanout \<noteq> pc_fanout_lock_time p) ''fanout lock_time mismatch'',
        reject_if (pc_fanout_lock_time p \<noteq> pc_block_height p mod 2 ^ 32)
          ''fanout lock_time must equal block height for unique CTV context''])"

definition verify_ctv_commitment ::
  "crypto \<Rightarrow> CtvFanoutManifest \<Rightarrow> ParsedTransaction \<Rightarrow> ParsedTransaction \<Rightarrow> PrismError + unit" where
  "verify_ctv_commitment X m fanout_template fanout =
     (let p = cm_precommitment m in
      rbind (default_ctv_hash_for_parsed_tx X fanout_template (pc_fanout_input_index p)) (\<lambda>template_ctv_hash.
      rbind (reject_if (hex_encode X template_ctv_hash \<noteq> pc_ctv_hash_hex p) ''precommitment CTV hash mismatch'') (\<lambda>_.
      rbind (default_ctv_hash_for_parsed_tx X fanout (pc_fanout_input_index p)) (\<lambda>ctv_hash.
      let leaf_script = ctv_leaf_script ctv_hash; program = p2mr_tapleaf_hash X leaf_script in
        checks [
          reject_if (ctv_hash \<noteq> template_ctv_hash) ''CTV hash mismatch'',
          reject_if (hex_encode X leaf_script \<noteq> pc_ctv_leaf_script_hex p) ''CTV leaf script mismatch'',
          reject_if (hex_encode X program \<noteq> pc_p2mr_program_hex p) ''P2MR program mismatch'',
          reject_if (hex_encode X (p2mr_script_pubkey program) \<noteq> cm_covenant_script_pubkey_hex m)
            ''covenant scriptPubKey does not match CTV leaf'',
          verify_fanout_witness fanout leaf_script]))))"

definition fanout_output_check ::
  "crypto \<Rightarrow> u64 \<times> u64 \<Rightarrow> nat \<times> (ParsedTxOut \<times> CtvFanoutOutput) \<Rightarrow> PrismError + u64 \<times> u64" where
  "fanout_output_check X st iop =
     (let (sum, fee) = st; (index, txo, payout) = iop; at = ''fanout output '' @ show_nat index in
      rbind (ok_or (checked_add 64 sum (to_amount_sats txo))
              (invalid_ctv_manifest ''fanout output sum overflowed'')) (\<lambda>sum.
      rbind (ok_or (checked_add 64 fee (fo_fee_sats payout))
              (invalid_ctv_manifest ''fanout fee sum overflowed'')) (\<lambda>fee.
      rbind (reject_if (fo_vout payout \<noteq> index mod 2 ^ 32) (at @ '' vout mismatch'')) (\<lambda>_.
      rbind (reject_if (to_amount_sats txo \<noteq> fo_amount_sats payout) (at @ '' amount mismatch'')) (\<lambda>_.
      rbind (decode_program_hex X (p2mr_program_hex payout) ''payout p2mr_program_hex'') (\<lambda>expected_program.
      rbind (reject_if (to_script_pubkey txo \<noteq> p2mr_script_pubkey expected_program)
              (at @ '' scriptPubKey mismatch'')) (\<lambda>_.
      rbind (reject_if (hex_encode X (p2mr_script_pubkey expected_program) \<noteq> fo_script_pubkey_hex payout)
              (at @ '' manifest scriptPubKey mismatch'')) (\<lambda>_.
        Inr (sum, fee)))))))))"

definition verify_fanout_outputs :: "crypto \<Rightarrow> CtvFanoutManifest \<Rightarrow> ParsedTransaction \<Rightarrow> PrismError + unit" where
  "verify_fanout_outputs X m fanout =
     (let p = cm_precommitment m; n = length (pc_outputs p) in
      rbind (reject_if (length (pt_outputs fanout) \<noteq> (if pc_anchor_vout p \<noteq> None then n + 1 else n))
              (if pc_anchor_vout p \<noteq> None then ''fanout must have exactly the payouts plus one fee anchor output''
               else ''built-in-fee fanout must have exactly the payout outputs'')) (\<lambda>_.
      rbind (rfold (fanout_output_check X) (0, 0) (enumerate 0 (zip (pt_outputs fanout) (pc_outputs p)))) (\<lambda>(sum, fee).
      rbind (reject_if (sum \<noteq> pc_fanout_output_sum_sats p) ''fanout output sum mismatch'') (\<lambda>_.
      rbind (reject_if (fee \<noteq> pc_fanout_fee_sats p) ''fanout fee sum mismatch'') (\<lambda>_.
      rbind (case pc_anchor_vout p of
               Some anchor_vout \<Rightarrow> ensure_fee_anchor_output X (pt_outputs fanout ! n) anchor_vout n
             | None \<Rightarrow> Inr ()) (\<lambda>_.
      rbind (ok_or (checked_add 64 sum fee) (invalid_ctv_manifest ''fanout funded value overflowed'')) (\<lambda>funded.
        reject_if (funded \<noteq> cm_covenant_output_value_sats m)
          ''fanout payouts plus fee do not equal covenant output value'')))))))"

definition verify_ctv_fanout_manifest_structure ::
  "crypto \<Rightarrow> (CtvFanoutPrecommitment \<Rightarrow> string + byte list) \<Rightarrow> CtvFanoutManifest \<Rightarrow> PrismError + unit" where
  "verify_ctv_fanout_manifest_structure X to_vec m =
     rbind (reject_if (cm_schema m \<noteq> CTV_FANOUT_MANIFEST_SCHEMA) ''unexpected fanout manifest schema'') (\<lambda>_.
     rbind (verify_precommitment X (cm_precommitment m)) (\<lambda>_.
     rbind (verify_manifest_fields X to_vec m) (\<lambda>_.
     rbind (verify_covenant_output X m) (\<lambda>_.
     rbind (parse_transaction_hex X (pc_fanout_tx_template_hex (cm_precommitment m))
              ''manifest fanout_tx_template_hex'') (\<lambda>fanout_template.
     rbind (validate_fanout_template fanout_template) (\<lambda>_.
     rbind (parse_transaction_hex X (cm_fanout_tx_hex m) ''manifest fanout_tx_hex'') (\<lambda>fanout.
     rbind (verify_fanout_input X m fanout) (\<lambda>_.
     rbind (verify_ctv_commitment X m fanout_template fanout) (\<lambda>_.
       verify_fanout_outputs X m fanout)))))))))"

definition verify_ctv_fanout_manifest_commitment_leaf ::
  "crypto \<Rightarrow> (CtvFanoutPrecommitment \<Rightarrow> string + byte list) \<Rightarrow> CtvFanoutManifest \<Rightarrow> string list \<Rightarrow> PrismError + unit" where
  "verify_ctv_fanout_manifest_commitment_leaf X to_vec m leaves =
     rbind (verify_ctv_fanout_manifest_structure X to_vec m) (\<lambda>_.
       reject_if (\<not> (\<exists>leaf\<in>set leaves. to_ascii_lowercase leaf = to_ascii_lowercase (cm_commitment_witness_leaf_hex m)))
         ''fanout precommitment witness leaf is missing'')"

section \<open>Building manifests\<close>

definition build_ctv_fanout_manifest ::
  "crypto \<Rightarrow> (CtvFanoutPrecommitment \<Rightarrow> string + byte list) \<Rightarrow> CtvFanoutManifestInput \<Rightarrow> PrismError + CtvFanoutManifest" where
  "build_ctv_fanout_manifest X to_vec input =
     rbind (validate_fanout_input X input ''manifest'') (\<lambda>_.
     rbind (parse_transaction_hex X (ci_parent_coinbase_tx_hex input) ''parent_coinbase_tx_hex'') (\<lambda>parent.
     rbind (ensure_coinbase_shape parent) (\<lambda>_.
     rbind (parse_transaction_hex X (ci_fanout_tx_template_hex input) ''fanout_tx_template_hex'') (\<lambda>fanout_template.
     rbind (parse_transaction_hex X (ci_fanout_tx_hex input) ''fanout_tx_hex'') (\<lambda>fanout.
     rbind (validate_fanout_template fanout_template) (\<lambda>_.
     rbind (ok_or (vec_get (pt_outputs parent) (ci_parent_coinbase_vout input))
             (invalid_ctv_manifest ''parent coinbase vout is out of range'')) (\<lambda>covenant_output.
     rbind (default_ctv_hash_for_parsed_tx X fanout_template QBIT_CTV_INPUT_INDEX) (\<lambda>ctv_hash.
     rbind (default_ctv_hash_for_parsed_tx X fanout QBIT_CTV_INPUT_INDEX) (\<lambda>final_ctv_hash.
     rbind (reject_if (final_ctv_hash \<noteq> ctv_hash) ''fanout transaction does not match committed CTV template'') (\<lambda>_.
     let leaf_script = ctv_leaf_script ctv_hash; program = p2mr_tapleaf_hash X leaf_script;
         covenant_script_pubkey = p2mr_script_pubkey program in
     rbind (ok_or (vec_get (pt_inputs fanout) QBIT_CTV_INPUT_INDEX)
             (invalid_ctv_manifest ''fanout transaction must have input 0'')) (\<lambda>fanout_input.
     rbind (expected_fanout_sequence (ci_chunk_index input)) (\<lambda>expected_sequence.
     rbind (reject_if (ti_sequence fanout_input \<noteq> expected_sequence) ''fanout sequence must equal the chunk index'') (\<lambda>_.
     rbind (canonical_fanout_outputs X (ci_payouts input)) (\<lambda>outs.
     rbind (fanout_sum ''fanout output sum overflowed'' fo_amount_sats outs) (\<lambda>sum.
     rbind (fanout_sum ''fanout fee sum overflowed'' fo_fee_sats outs) (\<lambda>fee.
     rbind (anchor_vout_for_fee (length outs) fee) (\<lambda>anchor_vout.
     rbind (normalize_hex X (ci_fanout_tx_template_hex input)) (\<lambda>template_hex.
     let precommitment = \<lparr> pc_schema = CTV_FANOUT_PRECOMMITMENT_SCHEMA, pc_block_height = ci_block_height input,
           pc_chunk_index = ci_chunk_index input, pc_chunk_count = ci_chunk_count input,
           pc_coinbase_value_sats = ci_coinbase_value_sats input, pc_settlement_mode = ci_settlement_mode input,
           pc_covenant_output_value_sats = to_amount_sats covenant_output,
           pc_covenant_script_pubkey_hex = hex_encode X covenant_script_pubkey,
           pc_fanout_tx_template_hex = template_hex, pc_fanout_input_index = QBIT_CTV_INPUT_INDEX,
           pc_fanout_sequence = ti_sequence fanout_input, pc_fanout_lock_time = pt_lock_time fanout,
           pc_fanout_output_sum_sats = sum, pc_fanout_fee_sats = fee, pc_anchor_vout = anchor_vout,
           pc_ctv_hash_hex = hex_encode X ctv_hash, pc_ctv_leaf_script_hex = hex_encode X leaf_script,
           pc_p2mr_program_hex = hex_encode X program,
           pc_p2mr_control_block_hex = hex_encode X [QBIT_P2MR_CONTROL_BLOCK],
           pc_reward_manifest_sha256_hex = to_ascii_lowercase (ci_reward_manifest_sha256_hex input),
           pc_payout_policy_manifest_sha256_hex = to_ascii_lowercase (ci_payout_policy_manifest_sha256_hex input),
           pc_outputs = outs \<rparr> in
     rbind (canonical_precommitment_bytes to_vec precommitment) (\<lambda>bytes.
     let sha_hex = sha256_hex X bytes in
     rbind (commitment_witness_leaf_hex X sha_hex) (\<lambda>leaf.
     rbind (normalize_hex X (ci_parent_coinbase_tx_hex input)) (\<lambda>parent_hex.
     rbind (normalize_hex X (ci_fanout_tx_hex input)) (\<lambda>fanout_hex.
     let manifest = \<lparr> cm_schema = CTV_FANOUT_MANIFEST_SCHEMA, cm_precommitment = precommitment,
           cm_precommitment_sha256_hex = sha_hex, cm_commitment_witness_leaf_hex = leaf,
           cm_parent_coinbase_txid = txid_hex X parent, cm_parent_coinbase_tx_hex = parent_hex,
           cm_parent_coinbase_vout = ci_parent_coinbase_vout input,
           cm_covenant_output_value_sats = to_amount_sats covenant_output,
           cm_covenant_script_pubkey_hex = hex_encode X covenant_script_pubkey,
           cm_fanout_tx_hex = fanout_hex, cm_fanout_txid = txid_hex X fanout \<rparr> in
     rbind (verify_ctv_fanout_manifest_structure X to_vec manifest) (\<lambda>_. Inr manifest)))))))))))))))))))))))"

definition payout_of_output :: "CtvFanoutOutput \<Rightarrow> CtvFanoutPayout" where
  "payout_of_output out =
     \<lparr> recipient_id = recipient_id out, order_key = order_key out, p2mr_program_hex = p2mr_program_hex out,
       cp_gross_amount_sats = fo_gross_amount_sats out, cp_fee_sats = fo_fee_sats out,
       cp_amount_sats = fo_amount_sats out \<rparr>"

definition build_ctv_fanout_manifest_from_precommitment ::
  "crypto \<Rightarrow> (CtvFanoutPrecommitment \<Rightarrow> string + byte list) \<Rightarrow> CtvFanoutPrecommitment \<Rightarrow> string \<Rightarrow> u32 \<Rightarrow>
     PrismError + CtvFanoutManifest" where
  "build_ctv_fanout_manifest_from_precommitment X to_vec p parent_coinbase_tx_hex parent_coinbase_vout =
     rbind (verify_precommitment X p) (\<lambda>_.
     rbind (parse_transaction_hex X parent_coinbase_tx_hex ''parent_coinbase_tx_hex'') (\<lambda>parent.
     rbind (ensure_coinbase_shape parent) (\<lambda>_.
     rbind (map_err (\<lambda>err. invalid_ctv_manifest (''ctv_leaf_script_hex must be hex: '' @ err))
             (hex_decode X (pc_ctv_leaf_script_hex p))) (\<lambda>leaf_script.
     rbind (witnessed_fanout_tx_hex X (txid_hex X parent) parent_coinbase_vout (pc_outputs p)
              (pc_anchor_vout p \<noteq> None) (pc_fanout_lock_time p) (pc_fanout_sequence p) leaf_script) (\<lambda>fanout_tx_hex.
       build_ctv_fanout_manifest X to_vec
         \<lparr> ci_block_height = pc_block_height p, ci_chunk_index = pc_chunk_index p, ci_chunk_count = pc_chunk_count p,
           ci_coinbase_value_sats = pc_coinbase_value_sats p, ci_settlement_mode = pc_settlement_mode p,
           ci_reward_manifest_sha256_hex = pc_reward_manifest_sha256_hex p,
           ci_payout_policy_manifest_sha256_hex = pc_payout_policy_manifest_sha256_hex p,
           ci_payouts = map payout_of_output (pc_outputs p),
           ci_fanout_tx_template_hex = pc_fanout_tx_template_hex p,
           ci_parent_coinbase_tx_hex = parent_coinbase_tx_hex,
           ci_parent_coinbase_vout = parent_coinbase_vout, ci_fanout_tx_hex = fanout_tx_hex \<rparr>)))))"

section \<open>Manifest sets\<close>

record set_totals =
  st_vouts :: "u32 set"
  st_hashes :: "string set"
  st_txids :: "string set"
  st_leaves :: "string set"
  st_sum :: u64
  st_fee :: u64
  st_value :: u64

definition no_totals :: set_totals where
  "no_totals = \<lparr> st_vouts = {}, st_hashes = {}, st_txids = {}, st_leaves = {}, st_sum = 0, st_fee = 0, st_value = 0 \<rparr>"

definition verify_set_member ::
  "crypto \<Rightarrow> (CtvFanoutPrecommitment \<Rightarrow> string + byte list) \<Rightarrow> CtvFanoutManifestSet \<Rightarrow> set_totals \<Rightarrow>
     nat \<times> CtvFanoutManifest \<Rightarrow> PrismError + set_totals" where
  "verify_set_member X to_vec ms st im =
     (let (expected_index, m) = im; p = cm_precommitment m in
      rbind (verify_ctv_fanout_manifest_structure X to_vec m) (\<lambda>_.
      rbind (checks [
        reject_if (pc_chunk_index p \<noteq> expected_index mod 2 ^ 32)
          ''fanout manifest set chunks must be contiguous and canonical'',
        reject_if (pc_chunk_count p \<noteq> ms_fanout_count ms) ''fanout chunk count mismatch'',
        reject_if (pc_block_height p \<noteq> ms_block_height ms) ''fanout set block height mismatch'',
        reject_if (pc_coinbase_value_sats p \<noteq> ms_coinbase_value_sats ms) ''fanout set coinbase value mismatch'',
        reject_if (pc_settlement_mode p \<noteq> ms_settlement_mode ms) ''fanout set settlement mode mismatch'',
        reject_if (pc_reward_manifest_sha256_hex p \<noteq> ms_reward_manifest_sha256_hex ms)
          ''fanout set reward manifest mismatch'',
        reject_if (pc_payout_policy_manifest_sha256_hex p \<noteq> ms_payout_policy_manifest_sha256_hex ms)
          ''fanout set payout policy manifest mismatch'',
        reject_if (cm_parent_coinbase_txid m \<noteq> ms_parent_coinbase_txid ms) ''fanout set parent coinbase mismatch'',
        reject_if (cm_parent_coinbase_vout m \<in> st_vouts st) ''duplicate fanout parent coinbase vout'',
        reject_if (pc_ctv_hash_hex p \<in> st_hashes st) ''duplicate fanout CTV hash'',
        reject_if (cm_fanout_txid m \<in> st_txids st) ''duplicate fanout txid'',
        reject_if (cm_commitment_witness_leaf_hex m \<in> st_leaves st) ''duplicate fanout commitment witness leaf'']) (\<lambda>_.
      rbind (ok_or (checked_add 64 (st_sum st) (pc_fanout_output_sum_sats p))
              (invalid_ctv_manifest ''fanout set output sum overflowed'')) (\<lambda>sum.
      rbind (ok_or (checked_add 64 (st_fee st) (pc_fanout_fee_sats p))
              (invalid_ctv_manifest ''fanout set fee sum overflowed'')) (\<lambda>fee.
      rbind (ok_or (checked_add 64 (st_value st) (cm_covenant_output_value_sats m))
              (invalid_ctv_manifest ''fanout set covenant value overflowed'')) (\<lambda>value.
        Inr \<lparr> st_vouts = insert (cm_parent_coinbase_vout m) (st_vouts st),
              st_hashes = insert (pc_ctv_hash_hex p) (st_hashes st),
              st_txids = insert (cm_fanout_txid m) (st_txids st),
              st_leaves = insert (cm_commitment_witness_leaf_hex m) (st_leaves st),
              st_sum = sum, st_fee = fee, st_value = value \<rparr>))))))"

definition verify_ctv_fanout_manifest_set ::
  "crypto \<Rightarrow> (CtvFanoutPrecommitment \<Rightarrow> string + byte list) \<Rightarrow> CtvFanoutManifestSet \<Rightarrow> PrismError + unit" where
  "verify_ctv_fanout_manifest_set X to_vec ms =
     rbind (checks [
       reject_if (ms_schema ms \<noteq> CTV_FANOUT_MANIFEST_SET_SCHEMA) ''unexpected fanout manifest set schema'',
       reject_if (ms_manifests ms = []) ''fanout manifest set is empty'',
       reject_if (ms_fanout_count ms \<noteq> length (ms_manifests ms)) ''fanout manifest set count mismatch'',
       reject_if (ms_settlement_mode ms = DirectCoinbase) ''direct_coinbase mode cannot include a CTV fanout manifest set'',
       validate_canonical_sha256_hex X (ms_reward_manifest_sha256_hex ms) ''fanout set reward_manifest_sha256_hex'',
       validate_canonical_sha256_hex X (ms_payout_policy_manifest_sha256_hex ms)
         ''fanout set payout_policy_manifest_sha256_hex'',
       validate_canonical_sha256_hex X (ms_parent_coinbase_txid ms) ''fanout set parent_coinbase_txid'']) (\<lambda>_.
     rbind (rfold (verify_set_member X to_vec ms) no_totals (enumerate 0 (ms_manifests ms))) (\<lambda>st.
     rbind (reject_if (st_sum st \<noteq> ms_fanout_output_sum_sats ms) ''fanout set output sum mismatch'') (\<lambda>_.
     rbind (reject_if (st_fee st \<noteq> ms_fanout_fee_sats ms) ''fanout set fee sum mismatch'') (\<lambda>_.
     rbind (reject_if (st_value st \<noteq> ms_covenant_output_value_sats ms) ''fanout set covenant value mismatch'') (\<lambda>_.
     rbind (ok_or (checked_add 64 (st_sum st) (st_fee st))
             (invalid_ctv_manifest ''fanout set funded value overflowed'')) (\<lambda>funded.
       reject_if (funded \<noteq> st_value st) ''fanout set payouts plus fee do not equal covenant value''))))))"

definition build_ctv_fanout_manifest_set ::
  "crypto \<Rightarrow> (CtvFanoutPrecommitment \<Rightarrow> string + byte list) \<Rightarrow> CtvFanoutManifest list \<Rightarrow> PrismError + CtvFanoutManifestSet" where
  "build_ctv_fanout_manifest_set X to_vec manifests =
     (if manifests = [] then Inl (invalid_ctv_manifest ''fanout manifest set is empty'')
      else
        let manifests = sort_key (\<lambda>m. pc_chunk_index (cm_precommitment m)) manifests;
            first = cm_precommitment (manifests ! 0) in
        rbind (fanout_sum ''fanout set output sum overflowed'' (\<lambda>m. pc_fanout_output_sum_sats (cm_precommitment m)) manifests) (\<lambda>sum.
        rbind (fanout_sum ''fanout set fee sum overflowed'' (\<lambda>m. pc_fanout_fee_sats (cm_precommitment m)) manifests) (\<lambda>fee.
        rbind (fanout_sum ''fanout set covenant value overflowed'' cm_covenant_output_value_sats manifests) (\<lambda>value.
        rbind (ok_or (try_from 32 (length manifests)) (invalid_ctv_manifest ''fanout manifest count exceeds uint32'')) (\<lambda>count.
        let ms = \<lparr> ms_schema = CTV_FANOUT_MANIFEST_SET_SCHEMA, ms_block_height = pc_block_height first,
              ms_coinbase_value_sats = pc_coinbase_value_sats first, ms_settlement_mode = pc_settlement_mode first,
              ms_reward_manifest_sha256_hex = pc_reward_manifest_sha256_hex first,
              ms_payout_policy_manifest_sha256_hex = pc_payout_policy_manifest_sha256_hex first,
              ms_parent_coinbase_txid = cm_parent_coinbase_txid (manifests ! 0), ms_fanout_count = count,
              ms_fanout_output_sum_sats = sum, ms_fanout_fee_sats = fee, ms_covenant_output_value_sats = value,
              ms_manifests = manifests \<rparr> in
        rbind (verify_ctv_fanout_manifest_set X to_vec ms) (\<lambda>_. Inr ms))))))"

definition canonical_ctv_fanout_manifest_set_bytes ::
  "crypto \<Rightarrow> (CtvFanoutPrecommitment \<Rightarrow> string + byte list) \<Rightarrow> (CtvFanoutManifestSet \<Rightarrow> string + byte list) \<Rightarrow>
     CtvFanoutManifestSet \<Rightarrow> PrismError + byte list" where
  "canonical_ctv_fanout_manifest_set_bytes X to_vec set_to_vec ms =
     rbind (verify_ctv_fanout_manifest_set X to_vec ms) (\<lambda>_. map_err PrismJson (set_to_vec ms))"

definition ctv_fanout_manifest_set_sha256_hex ::
  "crypto \<Rightarrow> (CtvFanoutPrecommitment \<Rightarrow> string + byte list) \<Rightarrow> (CtvFanoutManifestSet \<Rightarrow> string + byte list) \<Rightarrow>
     CtvFanoutManifestSet \<Rightarrow> PrismError + string" where
  "ctv_fanout_manifest_set_sha256_hex X to_vec set_to_vec ms =
     rbind (canonical_ctv_fanout_manifest_set_bytes X to_vec set_to_vec ms) (\<lambda>bytes. Inr (sha256_hex X bytes))"

section \<open>When the checks pass\<close>

named_theorems check_simps \<open>what a passed check says\<close>

lemma reject_if_Inr [check_simps]: "reject_if cond msg = Inr u \<longleftrightarrow> \<not> cond"
  by (simp add: reject_if_def)

lemma reject_if_False [simp]: "reject_if False msg = Inr ()"
  by (simp add: reject_if_def)

lemma checks_Inr [check_simps]: "checks rs = Inr u \<longleftrightarrow> (\<forall>r\<in>set rs. r = Inr ())"
  unfolding checks_def by (induction rs) (auto simp: rbind_Inr)

lemma vec_get_Some [check_simps]: "vec_get xs i = Some x \<longleftrightarrow> i < length xs \<and> x = xs ! i"
  by (auto simp: vec_get_def)

lemma decode_hash_hex_Inr [check_simps]:
  "decode_hash_hex X v field = Inr bs \<longleftrightarrow> hex_decode X v = Inr bs \<and> length bs = 32"
  by (auto simp: decode_hash_hex_def res_simps)

lemma decode_program_hex_Inr [check_simps]:
  "decode_program_hex X v field = Inr bs \<longleftrightarrow> hex_decode X v = Inr bs \<and> length bs = 32"
  by (auto simp: decode_program_hex_def P2MR_PROGRAM_LEN_def res_simps)

lemma validate_hex_Inr [check_simps]:
  "validate_sha256_hex X v field = Inr u \<longleftrightarrow> (\<exists>bs. hex_decode X v = Inr bs \<and> length bs = 32)"
  "validate_canonical_sha256_hex X v field = Inr u \<longleftrightarrow> (\<exists>bs. hex_decode X v = Inr bs \<and> length bs = 32 \<and> v = hex_encode X bs)"
  "validate_canonical_hex X v field = Inr u \<longleftrightarrow> (\<exists>bs. hex_decode X v = Inr bs \<and> v = hex_encode X bs)"
  by (auto simp: validate_sha256_hex_def validate_canonical_sha256_hex_def validate_canonical_hex_def
      res_simps check_simps)

lemma canonical_p2mr_program_hex_Inr [check_simps]:
  "canonical_p2mr_program_hex X v field = Inr s \<longleftrightarrow> (\<exists>bs. hex_decode X v = Inr bs \<and> length bs = 32 \<and> s = hex_encode X bs)"
  by (auto simp: canonical_p2mr_program_hex_def res_simps check_simps)

lemma normalize_txid_hex_Inr [check_simps]:
  "normalize_txid_hex X v field = Inr s \<longleftrightarrow> (\<exists>bs. hex_decode X v = Inr bs \<and> length bs = 32 \<and> s = hex_encode X bs)"
  by (auto simp: normalize_txid_hex_def res_simps)

lemma chunk_identity_Inr [check_simps]:
  "validate_chunk_identity i n = Inr u \<longleftrightarrow> i < n"
  by (auto simp: validate_chunk_identity_def check_simps)

lemma expected_sequence_Inr [check_simps]:
  "expected_fanout_sequence i = Inr s \<longleftrightarrow> s = 2 ^ 31 + i \<and> i < 2 ^ 31"
  by (auto simp: expected_fanout_sequence_def CTV_FANOUT_SEQUENCE_BASE_def SEQUENCE_LOCKTIME_DISABLE_FLAG_def
      res_simps checked_simps)

lemma fanout_sum_Inr [check_simps]:
  "fanout_sum msg f xs = Inr s \<longleftrightarrow> s = sum_list (map f xs) \<and> s < 2 ^ 64"
  unfolding fanout_sum_def by (auto simp: try_sum_Inr)

lemma ctv_hash_Inr [check_simps]:
  "default_ctv_hash_for_parsed_tx X tx i = Inr h \<longleftrightarrow>
     i < length (pt_inputs tx) \<and> length (pt_inputs tx) < 2 ^ 32 \<and> length (pt_outputs tx) < 2 ^ 32 \<and>
     h = sha256 X (ctv_preimage X tx (length (pt_inputs tx)) (length (pt_outputs tx)) i)"
  by (auto simp: default_ctv_hash_for_parsed_tx_def res_simps checked_simps)

section \<open>What the template hash binds\<close>

text \<open>The byte strings that are hashed on the way to a template hash.\<close>

definition ctv_hashed :: "crypto \<Rightarrow> ParsedTransaction \<Rightarrow> usize \<Rightarrow> byte list set" where
  "ctv_hashed X tx i =
     {ctv_scripts tx, ctv_sequences tx, ctv_outputs tx,
      ctv_preimage X tx (length (pt_inputs tx)) (length (pt_outputs tx)) i}"

lemma le4_inj: "le_bytes 4 a = le_bytes 4 b \<Longrightarrow> a < 2 ^ 32 \<Longrightarrow> b < 2 ^ 32 \<Longrightarrow> a = b"
  using u32s.dec_enc[of a "[]" "[]"] u32s.dec_enc[of b "[]" "[]"] by simp

text \<open>A list of encodings determines the list, given its length.\<close>

context wire_format
begin

lemma many_inj:
  assumes "\<forall>x\<in>set xs. ok x" "\<forall>y\<in>set ys. ok y" "length xs = length ys" "concat (map enc xs) = concat (map enc ys)"
  shows "xs = ys"
  using many_enc[OF assms(1), of "[]"] many_enc[OF assms(2), of "[]"] assms(3,4) by simp

end

lemma preimage_parts:
  assumes sha: "sha_law X"
    and eq: "ctv_preimage X tx n m i = ctv_preimage X tx' n' m' i'"
  shows "le_bytes 4 (pt_version tx) = le_bytes 4 (pt_version tx')"
    "le_bytes 4 (pt_lock_time tx) = le_bytes 4 (pt_lock_time tx')"
    "(if \<exists>input\<in>set (pt_inputs tx). ti_script_sig input \<noteq> [] then sha256 X (ctv_scripts tx) else []) =
     (if \<exists>input\<in>set (pt_inputs tx'). ti_script_sig input \<noteq> [] then sha256 X (ctv_scripts tx') else [])"
    "le_bytes 4 n = le_bytes 4 n'" "sha256 X (ctv_sequences tx) = sha256 X (ctv_sequences tx')"
    "le_bytes 4 m = le_bytes 4 m'" "sha256 X (ctv_outputs tx) = sha256 X (ctv_outputs tx')"
    "le_bytes 4 i = le_bytes 4 i'"
proof -
  define S where "S tx = (if \<exists>input\<in>set (pt_inputs tx). ti_script_sig input \<noteq> []
    then sha256 X (ctv_scripts tx) else [])" for tx
  note len = sha256_length[OF sha]
  have "length (ctv_preimage X tx n m i) = length (ctv_preimage X tx' n' m' i')" using eq by simp
  then have "length (S tx) = length (S tx')" unfolding ctv_preimage_def S_def[symmetric] by (simp add: len)
  with eq show "le_bytes 4 (pt_version tx) = le_bytes 4 (pt_version tx')"
    "le_bytes 4 (pt_lock_time tx) = le_bytes 4 (pt_lock_time tx')"
    "(if \<exists>input\<in>set (pt_inputs tx). ti_script_sig input \<noteq> [] then sha256 X (ctv_scripts tx) else []) =
     (if \<exists>input\<in>set (pt_inputs tx'). ti_script_sig input \<noteq> [] then sha256 X (ctv_scripts tx') else [])"
    "le_bytes 4 n = le_bytes 4 n'" "sha256 X (ctv_sequences tx) = sha256 X (ctv_sequences tx')"
    "le_bytes 4 m = le_bytes 4 m'" "sha256 X (ctv_outputs tx) = sha256 X (ctv_outputs tx')"
    "le_bytes 4 i = le_bytes 4 i'"
    unfolding ctv_preimage_def S_def[symmetric] by (simp_all add: len)
qed

text \<open>Transactions as the parser returns them: every field fits its width.\<close>

definition tx_ok :: "crypto \<Rightarrow> ParsedTransaction \<Rightarrow> bool" where
  "tx_ok X tx \<longleftrightarrow> tx_parts_ok X (pt_inputs tx) (pt_outputs tx) \<and> pt_version tx < 2 ^ 32 \<and> pt_lock_time tx < 2 ^ 32"

lemma parsed_tx_ok: "hex_law X \<Longrightarrow> parse_transaction_hex X s field = Inr tx \<Longrightarrow> tx_ok X tx"
  unfolding parse_transaction_hex_def
  by (auto simp: res_simps tx_ok_def elim: parse_transaction_Inr)

lemma ctv_hash_binding:
  assumes sha: "sha_law X" and ok: "tx_ok X tx" "tx_ok X tx'"
    and h: "default_ctv_hash_for_parsed_tx X tx i = Inr h" "default_ctv_hash_for_parsed_tx X tx' i' = Inr h"
    and inj: "inj_on (sha256 X) (ctv_hashed X tx i \<union> ctv_hashed X tx' i')"
  shows "pt_version tx = pt_version tx' \<and> pt_lock_time tx = pt_lock_time tx' \<and> i = i' \<and>
    map ti_script_sig (pt_inputs tx) = map ti_script_sig (pt_inputs tx') \<and>
    map ti_sequence (pt_inputs tx) = map ti_sequence (pt_inputs tx') \<and> pt_outputs tx = pt_outputs tx'"
proof -
  let ?pre = "\<lambda>tx i. ctv_preimage X tx (length (pt_inputs tx)) (length (pt_outputs tx)) i"
  let ?scripted = "\<lambda>tx. \<exists>input\<in>set (pt_inputs tx). ti_script_sig input \<noteq> []"
  have "?pre tx i = ?pre tx' i'"
    by (rule inj_onD[OF inj]) (use h in \<open>simp_all add: check_simps ctv_hashed_def\<close>)
  note parts = preimage_parts[OF sha this]
  have bound: "length (pt_inputs t) < 2 ^ 32" "length (pt_outputs t) < 2 ^ 32" "j < 2 ^ 32"
    if "default_ctv_hash_for_parsed_tx X t j = Inr h" for t j
    using that by (auto simp: check_simps)
  have n: "length (pt_inputs tx) = length (pt_inputs tx')" "length (pt_outputs tx) = length (pt_outputs tx')" "i = i'"
    using le4_inj[OF parts(4)] le4_inj[OF parts(6)] le4_inj[OF parts(8)] bound[OF h(1)] bound[OF h(2)] by auto
  have pieces: "ctv_sequences tx = ctv_sequences tx'" "ctv_outputs tx = ctv_outputs tx'"
    "sha256 X (ctv_scripts tx) = sha256 X (ctv_scripts tx') \<Longrightarrow> ctv_scripts tx = ctv_scripts tx'"
    by (rule inj_onD[OF inj], use parts(5,7) in \<open>simp_all add: ctv_hashed_def\<close>)+
  have seqs: "map ti_sequence (pt_inputs tx) = map ti_sequence (pt_inputs tx')"
    by (rule u32s.many_inj) (use ok pieces(1) n in \<open>auto simp: ctv_sequences_def tx_ok_def tx_parts_ok_def tx_in_ok_def comp_def\<close>)
  have outs: "pt_outputs tx = pt_outputs tx'"
    by (rule tx_outs.many_inj) (use ok pieces(2) n in \<open>auto simp: ctv_outputs_def tx_ok_def tx_parts_ok_def\<close>)
  have "ctv_scripts tx = ctv_scripts tx' \<or> (\<not> ?scripted tx \<and> \<not> ?scripted tx')"
    using parts(3) pieces(3) sha256_length[OF sha]
    by (cases "?scripted tx"; cases "?scripted tx'") (auto simp del: bex_simps, (metis list.size(3) zero_neq_numeral)+)
  then have "map ti_script_sig (pt_inputs tx) = map ti_script_sig (pt_inputs tx')"
  proof
    assume "ctv_scripts tx = ctv_scripts tx'"
    then show ?thesis
      by (intro strings.many_inj) (use ok n in \<open>auto simp: ctv_scripts_def tx_ok_def tx_parts_ok_def tx_in_ok_def comp_def\<close>)
  next
    assume "\<not> ?scripted tx \<and> \<not> ?scripted tx'"
    then have "map ti_script_sig (pt_inputs tx) = replicate (length (pt_inputs tx)) []"
      "map ti_script_sig (pt_inputs tx') = replicate (length (pt_inputs tx')) []"
      by (auto simp: map_replicate_const[symmetric] intro: map_cong)
    with n(1) show ?thesis by simp
  qed
  with seqs outs n(3) show ?thesis
    using le4_inj[OF parts(1)] le4_inj[OF parts(2)] ok by (simp add: tx_ok_def)
qed

text \<open>The converse: the hash looks at nothing else, in particular at no outpoint and no witness.\<close>

lemma ctv_hash_cong:
  assumes "pt_version tx = pt_version tx'" "pt_lock_time tx = pt_lock_time tx'" "pt_outputs tx = pt_outputs tx'"
    and "map ti_script_sig (pt_inputs tx) = map ti_script_sig (pt_inputs tx')"
    and "map ti_sequence (pt_inputs tx) = map ti_sequence (pt_inputs tx')"
  shows "default_ctv_hash_for_parsed_tx X tx i = default_ctv_hash_for_parsed_tx X tx' i"
proof -
  have len: "length (pt_inputs tx) = length (pt_inputs tx')" using map_eq_imp_length_eq[OF assms(4)] .
  have scripted: "(\<exists>input\<in>set (pt_inputs t). ti_script_sig input \<noteq> []) \<longleftrightarrow>
      (\<exists>script\<in>set (map ti_script_sig (pt_inputs t)). script \<noteq> [])" for t by simp
  have scripts: "ctv_scripts t = concat (map (\<lambda>s. compact_size (length s) @ s) (map ti_script_sig (pt_inputs t)))"
    and seqs: "ctv_sequences t = concat (map (le_bytes 4) (map ti_sequence (pt_inputs t)))" for t
    by (simp_all add: ctv_scripts_def ctv_sequences_def comp_def)
  have "ctv_preimage X tx = ctv_preimage X tx'"
    unfolding ctv_preimage_def[abs_def] scripted scripts seqs ctv_outputs_def assms ..
  then show ?thesis by (simp add: default_ctv_hash_for_parsed_tx_def len assms(3))
qed

section \<open>What verification establishes\<close>

text \<open>The transaction output that pays an output of a precommitment.\<close>

definition pays :: "crypto \<Rightarrow> CtvFanoutOutput \<Rightarrow> ParsedTxOut \<Rightarrow> bool" where
  "pays X out txo \<longleftrightarrow> (\<exists>program. hex_decode X (p2mr_program_hex out) = Inr program \<and> length program = 32 \<and>
     txo = \<lparr> to_amount_sats = fo_amount_sats out, to_script_pubkey = p2mr_script_pubkey program \<rparr>)"

lemma pays_amount: "list_all2 (pays X) outs txos \<Longrightarrow> map to_amount_sats txos = map fo_amount_sats outs"
  by (induction rule: list_all2_induct) (auto simp: pays_def)

lemma fanout_output_check_Inr:
  "fanout_output_check X (s, f) (i, txo, out) = Inr (s', f') \<longleftrightarrow>
     s' = s + to_amount_sats txo \<and> s' < 2 ^ 64 \<and> f' = f + fo_fee_sats out \<and> f' < 2 ^ 64 \<and> fo_vout out = i mod 2 ^ 32 \<and>
     (\<exists>program. hex_decode X (p2mr_program_hex out) = Inr program \<and> length program = 32 \<and>
       to_amount_sats txo = fo_amount_sats out \<and> to_script_pubkey txo = p2mr_script_pubkey program \<and>
       fo_script_pubkey_hex out = hex_encode X (p2mr_script_pubkey program))"
  unfolding fanout_output_check_def Let_def prod.case
  by (simp only: res_simps check_simps checked_simps) auto

lemma fanout_output_fold:
  "rfold (fanout_output_check X) (s, f) (enumerate k (zip txos outs)) = Inr (s', f') \<Longrightarrow> length outs \<le> length txos \<Longrightarrow>
     s' = s + sum_list (map fo_amount_sats outs) \<and> f' = f + sum_list (map fo_fee_sats outs) \<and>
     list_all2 (pays X) outs (take (length outs) txos)"
proof (induction outs arbitrary: txos s f k)
  case (Cons out outs)
  then obtain txo rest where txos: "txos = txo # rest" by (cases txos) auto
  from Cons.prems(1) obtain s1 f1 where head: "fanout_output_check X (s, f) (k, txo, out) = Inr (s1, f1)"
    and tail: "rfold (fanout_output_check X) (s1, f1) (enumerate (Suc k) (zip rest outs)) = Inr (s', f')"
    by (auto simp: txos rbind_Inr)
  have "pays X out txo" using head by (cases txo) (auto simp: fanout_output_check_Inr pays_def)
  with Cons.IH[OF tail] Cons.prems(2) head show ?case by (auto simp: txos fanout_output_check_Inr)
qed simp

lemma verify_anchor_Inr:
  "verify_anchor p = Inr u \<longleftrightarrow> pc_anchor_vout p = (if pc_fanout_fee_sats p = 0 then Some (length (pc_outputs p)) else None)"
  by (auto simp: verify_anchor_def reject_if_def split: option.splits)

lemma ensure_fee_anchor_output_Inr:
  "ensure_fee_anchor_output X txo v i = Inr u \<longleftrightarrow> v = i \<and> (\<exists>script. hex_decode X P2A_ANCHOR_SCRIPT_PUBKEY_HEX = Inr script \<and>
     txo = \<lparr> to_amount_sats = 0, to_script_pubkey = script \<rparr>)"
  by (cases txo) (auto simp: ensure_fee_anchor_output_def p2a_anchor_script_pubkey_def CTV_FANOUT_ANCHOR_VALUE_SATS_def
      check_simps res_simps)

lemma verify_fanout_outputs_Inr:
  assumes run: "verify_fanout_outputs X m fanout = Inr u" and p: "p = cm_precommitment m"
    and anchor: "verify_anchor p = Inr v"
  shows "\<exists>payouts anchors. pt_outputs fanout = payouts @ anchors \<and> list_all2 (pays X) (pc_outputs p) payouts \<and>
    (if pc_fanout_fee_sats p = 0
     then \<exists>script. hex_decode X P2A_ANCHOR_SCRIPT_PUBKEY_HEX = Inr script \<and>
       anchors = [\<lparr> to_amount_sats = 0, to_script_pubkey = script \<rparr>]
     else anchors = []) \<and>
    sum_list (map to_amount_sats (pt_outputs fanout)) + pc_fanout_fee_sats p = cm_covenant_output_value_sats m"
proof -
  let ?n = "length (pc_outputs p)" and ?outs = "pt_outputs fanout"
  obtain sum fee where len: "length ?outs = (if pc_anchor_vout p \<noteq> None then ?n + 1 else ?n)"
    and fold: "rfold (fanout_output_check X) (0, 0) (enumerate 0 (zip ?outs (pc_outputs p))) = Inr (sum, fee)"
    and fee: "fee = pc_fanout_fee_sats p" and funded: "sum + fee = cm_covenant_output_value_sats m"
    and last: "(case pc_anchor_vout p of
               Some anchor_vout \<Rightarrow> ensure_fee_anchor_output X (?outs ! ?n) anchor_vout ?n
             | None \<Rightarrow> Inr ()) = Inr ()"
    using run unfolding verify_fanout_outputs_def Let_def p[symmetric]
    by (auto simp: res_simps check_simps checked_simps)
  from fanout_output_fold[OF fold] len have body: "sum = sum_list (map fo_amount_sats (pc_outputs p))"
    "list_all2 (pays X) (pc_outputs p) (take ?n ?outs)" by (auto split: if_splits)
  define anchors where "anchors = drop ?n ?outs"
  have split: "?outs = take ?n ?outs @ anchors" by (simp add: anchors_def)
  have anchors: "if pc_fanout_fee_sats p = 0
     then \<exists>script. hex_decode X P2A_ANCHOR_SCRIPT_PUBKEY_HEX = Inr script \<and>
       anchors = [\<lparr> to_amount_sats = 0, to_script_pubkey = script \<rparr>]
     else anchors = []"
  proof (cases "pc_fanout_fee_sats p = 0")
    case True
    then have a: "pc_anchor_vout p = Some ?n" using anchor by (simp add: verify_anchor_Inr)
    with len have l: "length ?outs = Suc ?n" by simp
    then have "anchors = [?outs ! ?n]" unfolding anchors_def by (metis Cons_nth_drop_Suc drop_all lessI order_refl)
    with True last a show ?thesis by (auto simp: ensure_fee_anchor_output_Inr)
  next
    case False
    then show ?thesis using anchor len by (simp add: verify_anchor_Inr anchors_def)
  qed
  then have "sum_list (map to_amount_sats anchors) = 0" by (auto split: if_splits)
  then have "sum_list (map to_amount_sats ?outs) = sum"
    using arg_cong[OF split, of "\<lambda>t. sum_list (map to_amount_sats t)"] pays_amount[OF body(2)] body(1) by simp
  with split body(2) anchors funded fee show ?thesis by blast
qed

lemma verify_precommitment_anchor: "verify_precommitment X p = Inr u \<Longrightarrow> verify_anchor p = Inr ()"
  unfolding verify_precommitment_def by (auto simp: res_simps split: prod.splits)

lemma verify_covenant_output_Inr:
  assumes "verify_covenant_output X m = Inr u"
  obtains parent covenant where
    "parse_transaction_hex X (cm_parent_coinbase_tx_hex m) ''manifest parent_coinbase_tx_hex'' = Inr parent"
    "ensure_coinbase_shape parent = Inr ()" "txid_hex X parent = cm_parent_coinbase_txid m"
    "vec_get (pt_outputs parent) (cm_parent_coinbase_vout m) = Some covenant"
    "to_amount_sats covenant = cm_covenant_output_value_sats m"
    "hex_encode X (to_script_pubkey covenant) = cm_covenant_script_pubkey_hex m"
  using assms unfolding verify_covenant_output_def Let_def
  by (auto simp: res_simps reject_if_Inr checks_Inr)

lemma verify_fanout_input_Inr:
  assumes "verify_fanout_input X m fanout = Inr u"
  shows "\<exists>input. pt_inputs fanout = [input] \<and> ti_script_sig input = [] \<and>
    ti_prev_txid_hex input = cm_parent_coinbase_txid m \<and> ti_prev_vout input = cm_parent_coinbase_vout m"
    "txid_hex X fanout = cm_fanout_txid m" "pt_lock_time fanout = pc_block_height (cm_precommitment m) mod 2 ^ 32"
  using assms unfolding verify_fanout_input_def Let_def
  by (auto simp: checks_Inr reject_if_Inr QBIT_CTV_INPUT_INDEX_def length_Suc_conv)

lemma list_of_two: "length xs = 2 \<Longrightarrow> xs = [xs ! 0, xs ! 1]"
  by (auto simp: length_Suc_conv numeral_2_eq_2)

lemma verify_ctv_commitment_Inr:
  assumes "verify_ctv_commitment X m fanout_template fanout = Inr u" "pc_fanout_input_index (cm_precommitment m) = 0"
  obtains h stacks where "default_ctv_hash_for_parsed_tx X fanout 0 = Inr h"
    "hex_encode X (p2mr_script_pubkey (p2mr_tapleaf_hash X (ctv_leaf_script h))) = cm_covenant_script_pubkey_hex m"
    "pt_witness_stacks fanout = Some stacks" "0 < length stacks"
    "stacks ! 0 = [ctv_leaf_script h, [QBIT_P2MR_CONTROL_BLOCK]]"
proof -
  obtain h where h: "default_ctv_hash_for_parsed_tx X fanout 0 = Inr h"
    and script: "hex_encode X (p2mr_script_pubkey (p2mr_tapleaf_hash X (ctv_leaf_script h))) = cm_covenant_script_pubkey_hex m"
    and wit: "verify_fanout_witness fanout (ctv_leaf_script h) = Inr ()"
    using assms unfolding verify_ctv_commitment_def Let_def
    by (auto simp: res_simps reject_if_Inr checks_Inr simp del: ctv_hash_Inr)
  from wit obtain stacks where "pt_witness_stacks fanout = Some stacks" "0 < length stacks"
    "length (stacks ! 0) = 2" "stacks ! 0 ! 0 = ctv_leaf_script h" "stacks ! 0 ! 1 = [QBIT_P2MR_CONTROL_BLOCK]"
    unfolding verify_fanout_witness_def QBIT_CTV_INPUT_INDEX_def
    by (auto simp: res_simps reject_if_Inr checks_Inr vec_get_Some)
  with list_of_two[of "stacks ! 0"] show thesis by (intro that[OF h script]) simp_all
qed

text \<open>The conjuncts of a verified manifest that the properties use.\<close>

lemma verify_structure_Inr:
  assumes "verify_ctv_fanout_manifest_structure X to_vec m = Inr u"
  obtains fanout_template fanout where
    "verify_precommitment X (cm_precommitment m) = Inr ()" "verify_manifest_fields X to_vec m = Inr ()"
    "verify_covenant_output X m = Inr ()"
    "parse_transaction_hex X (pc_fanout_tx_template_hex (cm_precommitment m)) ''manifest fanout_tx_template_hex'' = Inr fanout_template"
    "parse_transaction_hex X (cm_fanout_tx_hex m) ''manifest fanout_tx_hex'' = Inr fanout"
    "verify_fanout_input X m fanout = Inr ()" "verify_ctv_commitment X m fanout_template fanout = Inr ()"
    "verify_fanout_outputs X m fanout = Inr ()"
  using assms unfolding verify_ctv_fanout_manifest_structure_def by (auto simp: res_simps)

lemma verify_manifest_fields_Inr:
  assumes "verify_manifest_fields X to_vec m = Inr u"
  shows "pc_fanout_input_index (cm_precommitment m) = 0"
    "\<exists>bytes. to_vec (cm_precommitment m) = Inr bytes \<and> cm_precommitment_sha256_hex m = sha256_hex X bytes"
    "commitment_witness_leaf_hex X (cm_precommitment_sha256_hex m) = Inr (cm_commitment_witness_leaf_hex m)"
  using assms unfolding verify_manifest_fields_def Let_def checks_Inr
  by (auto simp: reject_if_Inr rbind_Inr QBIT_CTV_INPUT_INDEX_def canonical_precommitment_bytes_def map_err_Inr)

lemma parsed_stack_count:
  assumes "hex_law X" "parse_transaction_hex X s field = Inr tx" "pt_witness_stacks tx = Some stacks"
  shows "length stacks = length (pt_inputs tx)"
proof -
  obtain bytes where run: "parse_transaction X bytes field = Inr tx"
    using assms(2) by (auto simp: parse_transaction_hex_def res_simps)
  show ?thesis by (rule parse_transaction_Inr[OF assms(1) run]) (simp add: assms(3))
qed

end
