(* ===== verification/Ctv_Lifecycle.thy ===== *)
theory Ctv_Lifecycle
  imports Ctv_Fanout
begin

text \<open>
  The life of a fan-out manifest (\<^verbatim>\<open>src/crates/qbit-prism/src/ctv.rs\<close>): canonical outputs are a fixed point, a
  prepared fan-out can be finished with any coinbase that holds its covenant output, a verified
  manifest pays what it says out of the output it names, and a verified set is complete.
\<close>

section \<open>Finishing a prepared fan-out\<close>

text \<open>Outputs as \<open>canonical_fanout_outputs\<close> makes them.\<close>

definition output_ok :: "crypto \<Rightarrow> CtvFanoutOutput \<Rightarrow> bool" where
  "output_ok X out \<longleftrightarrow> (\<exists>program. length program = 32 \<and> p2mr_program_hex out = hex_encode X program \<and>
     fo_script_pubkey_hex out = hex_encode X (p2mr_script_pubkey program) \<and>
     0 < fo_amount_sats out \<and> fo_gross_amount_sats out = fo_amount_sats out + fo_fee_sats out)"

lemma fanout_output_step_Inr:
  assumes hex: "hex_law X" and prog: "p2mr_program_hex p = hex_encode X program" "length program = 32"
  shows "fanout_output_step X (seen, acc) (i, p) = Inr st \<longleftrightarrow>
    0 < cp_amount_sats p \<and> cp_amount_sats p + cp_fee_sats p < 2 ^ 64 \<and>
    (if cp_gross_amount_sats p = 0 then cp_amount_sats p else cp_gross_amount_sats p) = cp_amount_sats p + cp_fee_sats p \<and>
    (order_key p, recipient_id p, p2mr_program_hex p) \<notin> seen \<and>
    st = (insert (order_key p, recipient_id p, p2mr_program_hex p) seen,
      acc @ [\<lparr> recipient_id = recipient_id p, order_key = order_key p, p2mr_program_hex = p2mr_program_hex p,
        fo_vout = i mod 2 ^ 32, fo_script_pubkey_hex = hex_encode X (p2mr_script_pubkey program),
        fo_gross_amount_sats = cp_amount_sats p + cp_fee_sats p, fo_fee_sats = cp_fee_sats p,
        fo_amount_sats = cp_amount_sats p \<rparr>])"
  unfolding fanout_output_step_def Let_def prod.case
  by (simp only: res_simps check_simps checked_simps prog(1) hex_decode_encode[OF hex] sum.inject)
    (auto simp: prog(2))

lemma fanout_output_fold_stable:
  assumes hex: "hex_law X"
  shows "rfold (fanout_output_step X) (seen, acc) (enumerate k ps) = Inr (seen', res) \<Longrightarrow>
    \<forall>p\<in>set ps. \<exists>program. length program = 32 \<and> p2mr_program_hex p = hex_encode X program \<Longrightarrow>
    \<exists>outs. res = acc @ outs \<and> map (payout_sort_key \<circ> payout_of_output) outs = map payout_sort_key ps \<and>
      (\<forall>out\<in>set outs. output_ok X out) \<and> map fo_vout outs = map (\<lambda>i. i mod 2 ^ 32) [k..<k + length outs] \<and>
      distinct (map payee_order outs) \<and> seen \<inter> payee_order ` set outs = {} \<and>
      rfold (fanout_output_step X) (seen, acc) (enumerate k (map payout_of_output outs)) = Inr (seen', res)"
proof (induction ps arbitrary: seen acc k)
  case (Cons p ps)
  obtain program where prog: "p2mr_program_hex p = hex_encode X program" "length program = 32"
    using Cons.prems(2) by auto
  let ?key = "(order_key p, recipient_id p, p2mr_program_hex p)"
  let ?out = "\<lparr> recipient_id = recipient_id p, order_key = order_key p, p2mr_program_hex = p2mr_program_hex p,
      fo_vout = k mod 2 ^ 32, fo_script_pubkey_hex = hex_encode X (p2mr_script_pubkey program),
      fo_gross_amount_sats = cp_amount_sats p + cp_fee_sats p, fo_fee_sats = cp_fee_sats p,
      fo_amount_sats = cp_amount_sats p \<rparr>"
  from Cons.prems(1) obtain st where head: "fanout_output_step X (seen, acc) (k, p) = Inr st"
    and tail: "rfold (fanout_output_step X) st (enumerate (Suc k) ps) = Inr (seen', res)"
    by (auto simp: rbind_Inr)
  note h = head[unfolded fanout_output_step_Inr[OF hex prog]]
  have prog': "p2mr_program_hex (payout_of_output ?out) = hex_encode X program" by (simp add: payout_of_output_def prog)
  have "fanout_output_step X (seen, acc) (k, payout_of_output ?out) = Inr st"
    unfolding fanout_output_step_Inr[OF hex prog' prog(2)] using h by (auto simp: payout_of_output_def)
  moreover have "output_ok X ?out" using prog h by (auto simp: output_ok_def)
  moreover have "payout_sort_key (payout_of_output ?out) = payout_sort_key p"
    by (simp add: payout_sort_key_def payout_of_output_def)
  moreover have "st = (insert ?key seen, acc @ [?out])" "?key \<notin> seen" using h by blast+
  moreover have "payee_order ?out = ?key" "fo_vout ?out = k mod 2 ^ 32" by (simp_all add: payee_order_def)
  ultimately obtain out where out: "fanout_output_step X (seen, acc) (k, payout_of_output out) = Inr st"
    "output_ok X out" "payout_sort_key (payout_of_output out) = payout_sort_key p"
    "st = (insert (payee_order out) seen, acc @ [out])" "payee_order out \<notin> seen" "fo_vout out = k mod 2 ^ 32"
    by metis
  have rest: "\<forall>p\<in>set ps. \<exists>program. length program = 32 \<and> p2mr_program_hex p = hex_encode X program"
    using Cons.prems(2) by simp
  from Cons.IH[OF tail[unfolded out(4)] rest] obtain outs where outs: "res = (acc @ [out]) @ outs"
    "map (payout_sort_key \<circ> payout_of_output) outs = map payout_sort_key ps" "\<forall>out\<in>set outs. output_ok X out"
    "map fo_vout outs = map (\<lambda>i. i mod 2 ^ 32) [Suc k..<Suc k + length outs]"
    "distinct (map payee_order outs)" "insert (payee_order out) seen \<inter> payee_order ` set outs = {}"
    "rfold (fanout_output_step X) st (enumerate (Suc k) (map payout_of_output outs)) = Inr (seen', res)"
    unfolding out(4) by blast
  moreover have "[k..<k + length (out # outs)] = k # [Suc k..<Suc k + length outs]" by (simp add: upt_rec)
  ultimately show ?case using out(1-3,5,6) by (intro exI[of _ "out # outs"]) (simp add: comp_def)
qed simp

lemma canonical_payout_Inr:
  "canonical_payout X p = Inr q \<Longrightarrow> \<exists>program. length program = 32 \<and> p2mr_program_hex q = hex_encode X program"
  by (auto simp: canonical_payout_def res_simps check_simps)

text \<open>Canonical outputs are a fixed point: rebuilding them from their own payouts changes nothing.\<close>

lemma canonical_outputs_stable:
  assumes hex: "hex_law X" and run: "canonical_fanout_outputs X payouts = Inr outs"
  shows "canonical_fanout_outputs X (map payout_of_output outs) = Inr outs" "\<forall>out\<in>set outs. output_ok X out"
    "outs \<noteq> []" "map fo_vout outs = map (\<lambda>i. i mod 2 ^ 32) [0..<length outs]" "distinct (map payee_order outs)"
proof -
  obtain ps seen where ne: "payouts \<noteq> []" and ps: "rmap (canonical_payout X) payouts = Inr ps"
    and fold: "rfold (fanout_output_step X) ({}, []) (enumerate 0 (sort_key payout_sort_key ps)) = Inr (seen, outs)"
    using run by (auto simp: canonical_fanout_outputs_def res_simps check_simps)
  have "\<forall>p\<in>set ps. \<exists>program. length program = 32 \<and> p2mr_program_hex p = hex_encode X program"
    using list_all2_set2[OF ps[unfolded rmap_Inr]] canonical_payout_Inr[of X] by blast
  then have "\<forall>p\<in>set (sort_key payout_sort_key ps). \<exists>program. length program = 32 \<and> p2mr_program_hex p = hex_encode X program"
    by simp
  from fanout_output_fold_stable[OF hex fold this] have
    keys: "map (payout_sort_key \<circ> payout_of_output) outs = map payout_sort_key (sort_key payout_sort_key ps)"
    and ok: "\<forall>out\<in>set outs. output_ok X out"
    and num: "map fo_vout outs = map (\<lambda>i. i mod 2 ^ 32) [0..<length outs]" "distinct (map payee_order outs)"
    and again: "rfold (fanout_output_step X) ({}, []) (enumerate 0 (map payout_of_output outs)) = Inr (seen, outs)"
    by auto
  show "map fo_vout outs = map (\<lambda>i. i mod 2 ^ 32) [0..<length outs]" "distinct (map payee_order outs)" by (rule num)+
  show "\<forall>out\<in>set outs. output_ok X out" by (rule ok)
  have "length outs = length payouts"
    using arg_cong[OF keys, of length] rmap_length[OF ps] by simp
  then show ne': "outs \<noteq> []" using ne by auto
  have "sorted (map payout_sort_key (map payout_of_output outs))" using keys by (simp add: comp_def)
  then have sort: "sort_key payout_sort_key (map payout_of_output outs) = map payout_of_output outs"
    by (rule sort_key_id_if_sorted)
  have "canonical_payout X (payout_of_output out) = Inr (payout_of_output out)" if "out \<in> set outs" for out
    using ok that hex_decode_encode[OF hex]
    by (auto simp: output_ok_def canonical_payout_def payout_of_output_def canonical_p2mr_program_hex_def
        decode_program_hex_def P2MR_PROGRAM_LEN_def)
  then have "rmap (canonical_payout X) (map payout_of_output outs) = Inr (map payout_of_output outs)"
    using rmap_all_ok[of "map payout_of_output outs" "canonical_payout X" "\<lambda>p. p"] by auto
  with ne' sort again show "canonical_fanout_outputs X (map payout_of_output outs) = Inr outs"
    by (simp add: canonical_fanout_outputs_def)
qed

text \<open>The outputs of the fan-out transaction: the payouts, then the anchor of a fan-out without fee.\<close>

definition anchor_outputs :: "bool \<Rightarrow> ParsedTxOut list" where
  "anchor_outputs anchored = (if anchored then [\<lparr> to_amount_sats = 0, to_script_pubkey = [0x51, 2, 0x4e, 0x73] \<rparr>] else [])"

lemma p2a_script:
  assumes "hex_law X" "hex_text_law X"
  shows "hex_decode X P2A_ANCHOR_SCRIPT_PUBKEY_HEX = Inr [0x51, 2, 0x4e, 0x73]"
proof -
  have "P2A_ANCHOR_SCRIPT_PUBKEY_HEX = concat (map fmt_02x [0x51, 2, 0x4e, 0x73])" by code_simp
  then have "P2A_ANCHOR_SCRIPT_PUBKEY_HEX = hex_encode X [0x51, 2, 0x4e, 0x73]"
    using assms(2) unfolding hex_text_law_def by metis
  then show ?thesis using hex_decode_encode[OF assms(1)] by metis
qed

lemma output_spec_Inr:
  assumes "hex_law X" "output_ok X out" "output_spec_from_fanout_output X out = Inr txo"
  shows "pays X out txo"
  using assms hex_decode_encode[OF assms(1)]
  by (auto simp: output_spec_from_fanout_output_def output_ok_def pays_def res_simps)

lemma fanout_output_specs_Inr:
  assumes laws: "hex_law X" "hex_text_law X" and ok: "\<forall>out\<in>set outs. output_ok X out"
    and run: "fanout_output_specs X outs anchored = Inr specs"
  shows "\<exists>payouts. specs = payouts @ anchor_outputs anchored \<and> list_all2 (pays X) outs payouts"
proof -
  obtain payouts where p: "rmap (output_spec_from_fanout_output X) outs = Inr payouts"
    and specs: "specs = payouts @ anchor_outputs anchored"
    using run p2a_script[OF laws]
    by (auto simp: fanout_output_specs_def output_specs_with_anchor_def p2a_anchor_output_spec_def anchor_outputs_def
        p2a_anchor_script_pubkey_def CTV_FANOUT_ANCHOR_VALUE_SATS_def rbind_Inr map_err_Inr split: if_splits)
  have "list_all2 (pays X) outs payouts"
    by (rule list.rel_mono_strong[OF p[unfolded rmap_Inr]]) (use ok output_spec_Inr[OF laws(1)] in blast)
  with specs show ?thesis by blast
qed

lemma pays_tx_out_ok:
  assumes "list_all2 (pays X) outs payouts" "sum_list (map fo_amount_sats outs) \<le> QBIT_MAX_MONEY_SATS"
  shows "\<forall>txo\<in>set (payouts @ anchor_outputs anchored). tx_out_ok txo"
proof -
  have "to_amount_sats txo \<le> QBIT_MAX_MONEY_SATS" if "txo \<in> set payouts" for txo
  proof -
    have "to_amount_sats txo \<in> set (map fo_amount_sats outs)"
      using that pays_amount[OF assms(1), symmetric] by simp
    from member_le_sum_list[OF this] assms(2) show ?thesis by simp
  qed
  moreover have "length (to_script_pubkey txo) = 34" if "txo \<in> set payouts" for txo
    using that list_all2_set2[OF assms(1)] by (auto simp: pays_def p2mr_script_pubkey_def)
  ultimately show ?thesis by (auto simp: tx_out_ok_def anchor_outputs_def)
qed

text \<open>Both forms of the fan-out transaction are read back as one input and the given outputs.\<close>

lemma fanout_tx_parse:
  assumes hex: "hex_law X" and specs: "fanout_output_specs X outs anchored = Inr specs"
    and ok: "\<forall>txo\<in>set specs. tx_out_ok txo" "length specs < 2 ^ 64"
    and txid: "hex_decode X parent_txid = Inr b" "length b = 32"
    and w: "n < 2 ^ 32" "lock < 2 ^ 32" "sequence < 2 ^ 32" and leaf: "length leaf < 2 ^ 64"
  shows "\<exists>s bytes tx. unsigned_fanout_tx_hex X parent_txid n outs anchored lock sequence = Inr s \<and>
      s = hex_encode X bytes \<and> (\<forall>field. parse_transaction_hex X s field = Inr tx) \<and>
      pt_version tx = 3 \<and> pt_outputs tx = specs \<and> pt_lock_time tx = lock \<and> pt_witness_stacks tx = None \<and>
      pt_inputs tx = [\<lparr> ti_prev_txid_hex = hex_encode X b, ti_prev_vout = n, ti_script_sig = [], ti_sequence = sequence \<rparr>]"
    and "\<exists>s bytes tx. witnessed_fanout_tx_hex X parent_txid n outs anchored lock sequence leaf = Inr s \<and>
      s = hex_encode X bytes \<and> (\<forall>field. parse_transaction_hex X s field = Inr tx) \<and>
      pt_version tx = 3 \<and> pt_outputs tx = specs \<and> pt_lock_time tx = lock \<and>
      pt_witness_stacks tx = Some [[leaf, [QBIT_P2MR_CONTROL_BLOCK]]] \<and>
      pt_inputs tx = [\<lparr> ti_prev_txid_hex = hex_encode X b, ti_prev_vout = n, ti_script_sig = [], ti_sequence = sequence \<rparr>]"
proof -
  define input where "input stack = \<lparr> ti_prev_txid_hex = hex_encode X b, ti_prev_vout = n, ti_script_sig = [],
    ti_sequence = sequence, is_witness_stack = stack \<rparr>" for stack
  have norm: "normalize_txid_hex X parent_txid ''fanout parent txid'' = Inr (hex_encode X b)"
    using txid by (simp add: check_simps)
  have parts: "tx_parts_ok X [input stack] specs" for stack
    using ok w txid hex_decode_encode[OF hex] by (simp add: tx_parts_ok_def tx_in_ok_def prev_txid_bytes_def input_def)
  have trunc: "ParsedTxIn.truncate (input stack) = \<lparr> ti_prev_txid_hex = hex_encode X b, ti_prev_vout = n,
    ti_script_sig = [], ti_sequence = sequence \<rparr>" for stack by (simp add: input_def ParsedTxIn.truncate_def)
  have unsigned: "unsigned_fanout_tx_hex X parent_txid n outs anchored lock sequence =
      serialize_tx_hex X 3 [input []] specs lock False"
    by (simp add: unsigned_fanout_tx_hex_def norm specs input_def CTV_FANOUT_TX_VERSION_def)
  have witnessed: "witnessed_fanout_tx_hex X parent_txid n outs anchored lock sequence leaf =
      serialize_tx_hex X 3 [input [leaf, [QBIT_P2MR_CONTROL_BLOCK]]] specs lock True"
    by (simp add: witnessed_fanout_tx_hex_def norm specs input_def CTV_FANOUT_TX_VERSION_def)
  have stack: "is_witness_stack (input stack) = stack" for stack by (simp add: input_def)
  show "\<exists>s bytes tx. unsigned_fanout_tx_hex X parent_txid n outs anchored lock sequence = Inr s \<and>
      s = hex_encode X bytes \<and> (\<forall>field. parse_transaction_hex X s field = Inr tx) \<and>
      pt_version tx = 3 \<and> pt_outputs tx = specs \<and> pt_lock_time tx = lock \<and> pt_witness_stacks tx = None \<and>
      pt_inputs tx = [\<lparr> ti_prev_txid_hex = hex_encode X b, ti_prev_vout = n, ti_script_sig = [], ti_sequence = sequence \<rparr>]"
    using serialize_parse[OF hex parts, of "[]" 3 lock False] w unfolding unsigned
    by (auto simp: stack trunc stack_ok_def)
  show "\<exists>s bytes tx. witnessed_fanout_tx_hex X parent_txid n outs anchored lock sequence leaf = Inr s \<and>
      s = hex_encode X bytes \<and> (\<forall>field. parse_transaction_hex X s field = Inr tx) \<and>
      pt_version tx = 3 \<and> pt_outputs tx = specs \<and> pt_lock_time tx = lock \<and>
      pt_witness_stacks tx = Some [[leaf, [QBIT_P2MR_CONTROL_BLOCK]]] \<and>
      pt_inputs tx = [\<lparr> ti_prev_txid_hex = hex_encode X b, ti_prev_vout = n, ti_script_sig = [], ti_sequence = sequence \<rparr>]"
    using serialize_parse[OF hex parts, of "[leaf, [QBIT_P2MR_CONTROL_BLOCK]]" 3 lock True] w leaf unfolding witnessed
    by (auto simp: stack trunc stack_ok_def)
qed

section \<open>Preparing a fan-out\<close>

lemma zero_txid:
  assumes "hex_law X" "hex_text_law X"
  shows "hex_encode X (replicate 32 0) = concat (replicate 32 ''00'')"
    "hex_decode X (concat (replicate 32 ''00'')) = Inr (replicate 32 0)"
proof -
  have "fmt_02x 0 = ''00''" by code_simp
  then show enc: "hex_encode X (replicate 32 0) = concat (replicate 32 ''00'')"
    using assms(2) unfolding hex_text_law_def by (simp only: map_replicate)
  show "hex_decode X (concat (replicate 32 ''00'')) = Inr (replicate 32 0)"
    unfolding enc[symmetric] by (rule hex_decode_encode[OF assms(1)])
qed

lemma fanout_output_specs_ok:
  assumes laws: "hex_law X" "hex_text_law X" and ok: "\<forall>out\<in>set outs. output_ok X out"
  shows "\<exists>specs. fanout_output_specs X outs anchored = Inr specs"
proof -
  have "\<exists>txo. output_spec_from_fanout_output X out = Inr txo" if "out \<in> set outs" for out
    using ok that hex_decode_encode[OF laws(1)] by (auto simp: output_ok_def output_spec_from_fanout_output_def)
  then have "rmap (output_spec_from_fanout_output X) outs =
      Inr (map (\<lambda>out. projr (output_spec_from_fanout_output X out)) outs)"
    by (intro rmap_all_ok) force
  then show ?thesis
    by (simp add: fanout_output_specs_def output_specs_with_anchor_def p2a_anchor_output_spec_def
        p2a_anchor_script_pubkey_def p2a_script[OF laws])
qed

lemma verify_output_fold_ok:
  "hex_law X \<Longrightarrow> \<forall>out\<in>set outs. output_ok X out \<Longrightarrow> map fo_vout outs = map (\<lambda>i. i mod 2 ^ 32) [k..<k + length outs] \<Longrightarrow>
     distinct (map payee_order outs) \<Longrightarrow> seen \<inter> payee_order ` set outs = {} \<Longrightarrow>
     s + sum_list (map fo_amount_sats outs) < 2 ^ 64 \<Longrightarrow> f + sum_list (map fo_fee_sats outs) < 2 ^ 64 \<Longrightarrow>
     \<exists>seen'. rfold (verify_output_step X) (s, f, seen) (enumerate k outs) =
       Inr (s + sum_list (map fo_amount_sats outs), f + sum_list (map fo_fee_sats outs), seen')"
proof (induction outs arbitrary: s f seen k)
  case (Cons out outs)
  have "[k..<k + length (out # outs)] = k # [Suc k..<Suc k + length outs]" by (simp add: upt_rec)
  then have nums: "fo_vout out = k mod 2 ^ 32" "map fo_vout outs = map (\<lambda>i. i mod 2 ^ 32) [Suc k..<Suc k + length outs]"
    using Cons.prems(3) by simp_all
  obtain program where prog: "length program = 32" "p2mr_program_hex out = hex_encode X program"
    "fo_script_pubkey_hex out = hex_encode X (p2mr_script_pubkey program)" "0 < fo_amount_sats out"
    using Cons.prems(2) by (auto simp: output_ok_def)
  have key: "(order_key out, recipient_id out, hex_encode X program) = payee_order out" by (simp add: payee_order_def prog(2))
  have "verify_output_step X (s, f, seen) (k, out) =
      Inr (s + fo_amount_sats out, f + fo_fee_sats out, insert (payee_order out) seen)"
    unfolding verify_output_step_def Let_def prod.case canonical_p2mr_program_hex_def decode_program_hex_def prog(2)
      hex_decode_encode[OF Cons.prems(1)]
    using Cons.prems(5-7) nums(1) prog by (simp add: key reject_if_def checked_add_def P2MR_PROGRAM_LEN_def)
  moreover have "\<exists>seen'. rfold (verify_output_step X) (s + fo_amount_sats out, f + fo_fee_sats out, insert (payee_order out) seen)
      (enumerate (Suc k) outs) = Inr (s + fo_amount_sats out + sum_list (map fo_amount_sats outs),
        f + fo_fee_sats out + sum_list (map fo_fee_sats outs), seen')"
    using Cons.prems nums(2) by (intro Cons.IH) auto
  ultimately show ?case by (simp add: add.assoc)
qed simp

text \<open>What the checks of a precommitment say of its outputs.\<close>

lemma verify_output_fold:
  "rfold (verify_output_step X) (s, f, seen) (enumerate k outs) = Inr (s', f', seen') \<Longrightarrow>
     map fo_vout outs = map (\<lambda>i. i mod 2 ^ 32) [k..<k + length outs] \<and>
     s' = s + sum_list (map fo_amount_sats outs) \<and> f' = f + sum_list (map fo_fee_sats outs)"
proof (induction outs arbitrary: s f seen k)
  case (Cons out outs)
  from Cons.prems obtain s1 f1 seen1 where head: "verify_output_step X (s, f, seen) (k, out) = Inr (s1, f1, seen1)"
    and tail: "rfold (verify_output_step X) (s1, f1, seen1) (enumerate (Suc k) outs) = Inr (s', f', seen')"
    by (auto simp: rbind_Inr)
  have "fo_vout out = k mod 2 ^ 32 \<and> s1 = s + fo_amount_sats out \<and> f1 = f + fo_fee_sats out"
    using head unfolding verify_output_step_def Let_def prod.case
    by (simp only: rbind_Inr reject_if_Inr ok_or_Inr checked_simps) auto
  moreover have "[k..<k + length (out # outs)] = k # [Suc k..<Suc k + length outs]" by (simp add: upt_rec)
  ultimately show ?case using Cons.IH[OF tail] by simp
qed simp

lemma verify_precommitment_Inr:
  assumes "verify_precommitment X p = Inr u"
  shows "verify_precommitment_fields X p = Inr ()"
    "map fo_vout (pc_outputs p) = map (\<lambda>i. i mod 2 ^ 32) [0..<length (pc_outputs p)]"
    "pc_fanout_output_sum_sats p = sum_list (map fo_amount_sats (pc_outputs p))"
    "pc_fanout_fee_sats p = sum_list (map fo_fee_sats (pc_outputs p))"
    "pc_covenant_output_value_sats p = pc_fanout_output_sum_sats p + pc_fanout_fee_sats p"
    "pc_fanout_output_sum_sats p + pc_fanout_fee_sats p < 2 ^ 64" "verify_anchor p = Inr ()"
proof -
  obtain s f seen where fields: "verify_precommitment_fields X p = Inr ()"
    and fold: "rfold (verify_output_step X) (0, 0, {}) (enumerate 0 (pc_outputs p)) = Inr (s, f, seen)"
    and rest: "s = pc_fanout_output_sum_sats p" "f = pc_fanout_fee_sats p" "s + f = pc_covenant_output_value_sats p"
      "s + f < 2 ^ 64" "verify_anchor p = Inr ()"
    using assms unfolding verify_precommitment_def by (auto simp: rbind_Inr reject_if_Inr ok_or_Inr checked_simps)
  from verify_output_fold[OF fold] fields rest show "verify_precommitment_fields X p = Inr ()"
    "map fo_vout (pc_outputs p) = map (\<lambda>i. i mod 2 ^ 32) [0..<length (pc_outputs p)]"
    "pc_fanout_output_sum_sats p = sum_list (map fo_amount_sats (pc_outputs p))"
    "pc_fanout_fee_sats p = sum_list (map fo_fee_sats (pc_outputs p))"
    "pc_covenant_output_value_sats p = pc_fanout_output_sum_sats p + pc_fanout_fee_sats p"
    "pc_fanout_output_sum_sats p + pc_fanout_fee_sats p < 2 ^ 64" "verify_anchor p = Inr ()" by simp_all
qed

lemma verify_precommitment_fields_Inr:
  assumes "verify_precommitment_fields X p = Inr u"
  shows "pc_schema p = CTV_FANOUT_PRECOMMITMENT_SCHEMA" "pc_chunk_index p < pc_chunk_count p"
    "expected_fanout_sequence (pc_chunk_index p) = Inr (pc_fanout_sequence p)"
    "pc_fanout_lock_time p = pc_block_height p mod 2 ^ 32"
    "\<exists>b. length b = 32 \<and> pc_reward_manifest_sha256_hex p = hex_encode X b"
    "\<exists>b. length b = 32 \<and> pc_payout_policy_manifest_sha256_hex p = hex_encode X b"
    "\<exists>b. pc_fanout_tx_template_hex p = hex_encode X b"
  using assms unfolding verify_precommitment_fields_def checks_Inr
  by (auto simp: reject_if_Inr rbind_Inr chunk_identity_Inr validate_hex_Inr)

lemma prepare_ok:
  assumes laws: "hex_law X" "hex_text_law X" "sha_law X" and json: "\<forall>p. \<exists>bytes. to_vec p = Inr bytes"
    and valid: "validate_fanout_input X input ''precommitment'' = Inr ()"
    and outs: "canonical_fanout_outputs X (ci_payouts input) = Inr outs"
    and money: "sum_list (map fo_amount_sats outs) + sum_list (map fo_fee_sats outs) \<le> QBIT_MAX_MONEY_SATS"
    and len: "length outs < 2 ^ 32 - 1" and idx: "ci_chunk_index input < 2 ^ 31"
  obtains prep where "prepare_ctv_fanout_precommitment X to_vec input = Inr prep"
    "pc_outputs (pr_precommitment prep) = outs"
    "pr_covenant_output_value_sats prep = sum_list (map fo_amount_sats outs) + sum_list (map fo_fee_sats outs)"
proof -
  let ?sum = "sum_list (map fo_amount_sats outs)" and ?fee = "sum_list (map fo_fee_sats outs)"
    and ?seq = "2 ^ 31 + ci_chunk_index input" and ?lock = "ci_block_height input mod 2 ^ 32"
  note stable = canonical_outputs_stable[OF laws(1) outs] and dec = hex_decode_encode[OF laws(1)]
  obtain specs where specs: "fanout_output_specs X outs (?fee = 0) = Inr specs"
    using fanout_output_specs_ok[OF laws(1,2) stable(2)] by blast
  obtain payouts where payouts: "specs = payouts @ anchor_outputs (?fee = 0)" "list_all2 (pays X) outs payouts"
    using fanout_output_specs_Inr[OF laws(1,2) stable(2) specs] by blast
  have ok: "\<forall>txo\<in>set specs. tx_out_ok txo"
    unfolding payouts(1) by (rule pays_tx_out_ok[OF payouts(2)]) (use money in simp)
  have count: "length specs < 2 ^ 32"
    using len list_all2_lengthD[OF payouts(2)] by (simp add: payouts(1) anchor_outputs_def)
  obtain s b template where u: "unsigned_fanout_tx_hex X (concat (replicate 32 ''00'')) 0 outs (?fee = 0) ?lock ?seq = Inr s"
    "s = hex_encode X b" "\<forall>field. parse_transaction_hex X s field = Inr template" "pt_outputs template = specs"
    "length (pt_inputs template) = 1"
    using fanout_tx_parse(1)[OF laws(1) specs ok _ zero_txid(2)[OF laws(1,2)], of 0 ?lock ?seq "[]"] idx count by force
  obtain h where h: "default_ctv_hash_for_parsed_tx X template 0 = Inr h" "length h = 32"
    using u(4,5) count sha256_length[OF laws(3)] by (simp add: ctv_hash_Inr)
  define prog where "prog = p2mr_tapleaf_hash X (ctv_leaf_script h)"
  have prog: "length prog = 32" by (simp add: prog_def p2mr_tapleaf_hash_def tagged_hash_def Let_def sha256_length[OF laws(3)])
  have steps: "fanout_sum ''fanout output sum overflowed'' fo_amount_sats outs = Inr ?sum"
    "fanout_sum ''fanout fee sum overflowed'' fo_fee_sats outs = Inr ?fee" "checked_add 64 ?sum ?fee = Some (?sum + ?fee)"
    "expected_fanout_sequence (ci_chunk_index input) = Inr ?seq"
    "default_ctv_hash_hex X s 0 = Inr (hex_encode X h)"
    "ctv_leaf_script_hex X (hex_encode X h) = Inr (hex_encode X (ctv_leaf_script h))"
    "p2mr_program_for_ctv_leaf_hex X (hex_encode X (ctv_leaf_script h)) = Inr (hex_encode X prog)"
    "decode_program_hex X (hex_encode X prog) ''p2mr_program_hex'' = Inr prog"
    "anchor_vout_for_fee (length outs) ?fee = Inr (if ?fee = 0 then Some (length outs) else None)"
    using money idx u(3) h prog len
    by (simp_all add: fanout_sum_Inr checked_simps expected_sequence_Inr default_ctv_hash_hex_def ctv_leaf_script_hex_def
        decode_hash_hex_def dec p2mr_program_for_ctv_leaf_hex_def decode_program_hex_Inr anchor_vout_for_fee_def
        fanout_has_cpfp_anchor_def try_from_def prog_def QBIT_MAX_MONEY_SATS_def)
  define p where "p = \<lparr> pc_schema = CTV_FANOUT_PRECOMMITMENT_SCHEMA, pc_block_height = ci_block_height input,
    pc_chunk_index = ci_chunk_index input, pc_chunk_count = ci_chunk_count input,
    pc_coinbase_value_sats = ci_coinbase_value_sats input, pc_settlement_mode = ci_settlement_mode input,
    pc_covenant_output_value_sats = ?sum + ?fee, pc_covenant_script_pubkey_hex = hex_encode X (p2mr_script_pubkey prog),
    pc_fanout_tx_template_hex = s, pc_fanout_input_index = 0, pc_fanout_sequence = ?seq, pc_fanout_lock_time = ?lock,
    pc_fanout_output_sum_sats = ?sum, pc_fanout_fee_sats = ?fee,
    pc_anchor_vout = (if ?fee = 0 then Some (length outs) else None),
    pc_ctv_hash_hex = hex_encode X h, pc_ctv_leaf_script_hex = hex_encode X (ctv_leaf_script h),
    pc_p2mr_program_hex = hex_encode X prog, pc_p2mr_control_block_hex = hex_encode X [QBIT_P2MR_CONTROL_BLOCK],
    pc_reward_manifest_sha256_hex = to_ascii_lowercase (ci_reward_manifest_sha256_hex input),
    pc_payout_policy_manifest_sha256_hex = to_ascii_lowercase (ci_payout_policy_manifest_sha256_hex input),
    pc_outputs = outs \<rparr>"
  obtain rb qb where rq: "hex_decode X (ci_reward_manifest_sha256_hex input) = Inr rb" "length rb = 32"
    "hex_decode X (ci_payout_policy_manifest_sha256_hex input) = Inr qb" "length qb = 32"
    and chunk: "ci_chunk_index input < ci_chunk_count input"
    using valid by (auto simp: validate_fanout_input_def checks_Inr validate_hex_Inr chunk_identity_Inr)
  have "verify_precommitment_fields X p = Inr ()"
    unfolding verify_precommitment_fields_def checks_Inr p_def
    using stable(3) chunk idx u(2) h(2) prog hex_encode_decode[OF laws(1) rq(1), symmetric] hex_encode_decode[OF laws(1) rq(3), symmetric] rq(2,4)
    by (simp add: reject_if_Inr validate_hex_Inr rbind_Inr canonical_p2mr_program_hex_Inr dec chunk_identity_Inr expected_sequence_Inr)
  moreover obtain seen where "rfold (verify_output_step X) (0, 0, {}) (enumerate 0 outs) = Inr (?sum, ?fee, seen)"
    using verify_output_fold_ok[OF laws(1) stable(2), of 0 "{}" 0 0] stable(4,5) money by (auto simp: QBIT_MAX_MONEY_SATS_def)
  ultimately have ver: "verify_precommitment X p = Inr ()"
    using steps(3) by (simp add: verify_precommitment_def p_def verify_anchor_Inr)
  obtain bytes where bytes: "to_vec p = Inr bytes" using json by blast
  obtain leaf where leaf: "commitment_witness_leaf_hex X (sha256_hex X bytes) = Inr leaf"
    by (simp add: commitment_witness_leaf_hex_def sha256_hex_def decode_hash_hex_def dec sha256_length[OF laws(3)])
  have "\<exists>prep. prepare_ctv_fanout_precommitment X to_vec input = Inr prep \<and> pr_precommitment prep = p \<and>
      pr_covenant_output_value_sats prep = ?sum + ?fee"
    unfolding prepare_ctv_fanout_precommitment_def Let_def valid outs rbind.simps steps ok_or_simps fanout_has_cpfp_anchor_def
      u(1) QBIT_CTV_INPUT_INDEX_def p_def[symmetric] ver canonical_precommitment_bytes_def bytes map_err_simps leaf
    by (simp add: p_def)
  then show thesis by (metis that p_def CtvFanoutPrecommitment.select_convs(22))
qed

text \<open>Every step of the preparation, with the intermediate values as fields of the precommitment.\<close>

lemma prepare_Inr:
  assumes "prepare_ctv_fanout_precommitment X to_vec input = Inr prep" and p: "p = pr_precommitment prep"
  obtains program bytes where "validate_fanout_input X input ''precommitment'' = Inr ()"
    "canonical_fanout_outputs X (ci_payouts input) = Inr (pc_outputs p)"
    "unsigned_fanout_tx_hex X (concat (replicate 32 ''00'')) 0 (pc_outputs p) (pc_fanout_fee_sats p = 0)
       (pc_block_height p mod 2 ^ 32) (pc_fanout_sequence p) = Inr (pc_fanout_tx_template_hex p)"
    "default_ctv_hash_hex X (pc_fanout_tx_template_hex p) 0 = Inr (pc_ctv_hash_hex p)"
    "ctv_leaf_script_hex X (pc_ctv_hash_hex p) = Inr (pc_ctv_leaf_script_hex p)"
    "p2mr_program_for_ctv_leaf_hex X (pc_ctv_leaf_script_hex p) = Inr (pc_p2mr_program_hex p)"
    "decode_program_hex X (pc_p2mr_program_hex p) ''p2mr_program_hex'' = Inr program"
    "pc_covenant_script_pubkey_hex p = hex_encode X (p2mr_script_pubkey program)"
    "anchor_vout_for_fee (length (pc_outputs p)) (pc_fanout_fee_sats p) = Inr (pc_anchor_vout p)"
    "verify_precommitment X p = Inr ()" "to_vec p = Inr bytes"
    "commitment_witness_leaf_hex X (sha256_hex X bytes) = Inr (pr_commitment_witness_leaf_hex prep)"
    "pr_precommitment_sha256_hex prep = sha256_hex X bytes"
    "pr_covenant_output_value_sats prep = pc_covenant_output_value_sats p"
    "pc_block_height p = ci_block_height input" "pc_settlement_mode p = ci_settlement_mode input"
    "pc_fanout_input_index p = 0" "pc_p2mr_control_block_hex p = hex_encode X [QBIT_P2MR_CONTROL_BLOCK]"
    "pc_reward_manifest_sha256_hex p = to_ascii_lowercase (ci_reward_manifest_sha256_hex input)"
    "pc_payout_policy_manifest_sha256_hex p = to_ascii_lowercase (ci_payout_policy_manifest_sha256_hex input)"
  using assms(1) unfolding prepare_ctv_fanout_precommitment_def Let_def
  by (auto simp: rbind_Inr p canonical_precommitment_bytes_def map_err_Inr fanout_has_cpfp_anchor_def
      QBIT_CTV_INPUT_INDEX_def)

lemma sum_list_ge_length: "\<forall>x\<in>set xs. 0 < f x \<Longrightarrow> length xs \<le> sum_list (map f xs)" for f :: "'a \<Rightarrow> nat"
  by (induction xs) auto

text \<open>The template and the finished transaction of a prepared fan-out, and the hash they share.\<close>

lemma prepared_transactions:
  assumes laws: "hex_law X" "hex_text_law X" "sha_law X"
    and prep: "prepare_ctv_fanout_precommitment X to_vec input = Inr prep" and p: "p = pr_precommitment prep"
    and money: "pc_covenant_output_value_sats p \<le> QBIT_MAX_MONEY_SATS"
    and txid: "hex_decode X txid = Inr b" "length b = 32" and n: "n < 2 ^ 32"
  obtains payouts template fanout h fbytes where
    "\<forall>field. parse_transaction_hex X (pc_fanout_tx_template_hex p) field = Inr template"
    "validate_fanout_template template = Inr ()"
    "default_ctv_hash_for_parsed_tx X template 0 = Inr h"
    "witnessed_fanout_tx_hex X txid n (pc_outputs p) (pc_anchor_vout p \<noteq> None) (pc_fanout_lock_time p)
       (pc_fanout_sequence p) (ctv_leaf_script h) = Inr (hex_encode X fbytes)"
    "\<forall>field. parse_transaction_hex X (hex_encode X fbytes) field = Inr fanout"
    "default_ctv_hash_for_parsed_tx X fanout 0 = Inr h"
    "pt_inputs fanout = [\<lparr> ti_prev_txid_hex = hex_encode X b, ti_prev_vout = n, ti_script_sig = [],
       ti_sequence = pc_fanout_sequence p \<rparr>]"
    "pt_lock_time fanout = pc_fanout_lock_time p"
    "pt_witness_stacks fanout = Some [[ctv_leaf_script h, [QBIT_P2MR_CONTROL_BLOCK]]]"
    "pt_outputs fanout = payouts @ anchor_outputs (pc_fanout_fee_sats p = 0)"
    "list_all2 (pays X) (pc_outputs p) payouts"
    "pc_ctv_hash_hex p = hex_encode X h" "pc_ctv_leaf_script_hex p = hex_encode X (ctv_leaf_script h)"
    "pc_p2mr_program_hex p = hex_encode X (p2mr_tapleaf_hash X (ctv_leaf_script h))"
    "pc_covenant_script_pubkey_hex p = hex_encode X (p2mr_script_pubkey (p2mr_tapleaf_hash X (ctv_leaf_script h)))"
proof -
  obtain program where
    outs: "canonical_fanout_outputs X (ci_payouts input) = Inr (pc_outputs p)"
    and unsigned: "unsigned_fanout_tx_hex X (concat (replicate 32 ''00'')) 0 (pc_outputs p) (pc_fanout_fee_sats p = 0)
       (pc_block_height p mod 2 ^ 32) (pc_fanout_sequence p) = Inr (pc_fanout_tx_template_hex p)"
    and hash: "default_ctv_hash_hex X (pc_fanout_tx_template_hex p) 0 = Inr (pc_ctv_hash_hex p)"
    and leaf: "ctv_leaf_script_hex X (pc_ctv_hash_hex p) = Inr (pc_ctv_leaf_script_hex p)"
    and prog: "p2mr_program_for_ctv_leaf_hex X (pc_ctv_leaf_script_hex p) = Inr (pc_p2mr_program_hex p)"
      "decode_program_hex X (pc_p2mr_program_hex p) ''p2mr_program_hex'' = Inr program"
      "pc_covenant_script_pubkey_hex p = hex_encode X (p2mr_script_pubkey program)"
    and ver: "verify_precommitment X p = Inr ()"
    by (rule prepare_Inr[OF prep p])
  note v = verify_precommitment_Inr[OF ver] and fields = verify_precommitment_fields_Inr[OF verify_precommitment_Inr(1)[OF ver]]
  note stable = canonical_outputs_stable[OF laws(1) outs]
  let ?anchored = "pc_fanout_fee_sats p = 0"
  obtain zero specs where zero: "hex_decode X (concat (replicate 32 ''00'')) = Inr zero" "length zero = 32"
    and specs: "fanout_output_specs X (pc_outputs p) ?anchored = Inr specs"
    using unsigned by (auto simp: unsigned_fanout_tx_hex_def rbind_Inr normalize_txid_hex_Inr)
  obtain payouts where payouts: "specs = payouts @ anchor_outputs ?anchored" "list_all2 (pays X) (pc_outputs p) payouts"
    using fanout_output_specs_Inr[OF laws(1,2) stable(2) specs] by blast
  have sum: "sum_list (map fo_amount_sats (pc_outputs p)) \<le> QBIT_MAX_MONEY_SATS" using money v(3,5) by simp
  have ok: "\<forall>txo\<in>set specs. tx_out_ok txo" unfolding payouts(1) by (rule pays_tx_out_ok[OF payouts(2) sum])
  have "length payouts \<le> QBIT_MAX_MONEY_SATS"
    using sum_list_ge_length[of "pc_outputs p" fo_amount_sats] stable(2) sum list_all2_lengthD[OF payouts(2)]
    by (force simp: output_ok_def)
  then have len: "length specs < 2 ^ 64" by (simp add: payouts(1) anchor_outputs_def QBIT_MAX_MONEY_SATS_def)
  have w: "pc_fanout_sequence p < 2 ^ 32" "pc_fanout_lock_time p < 2 ^ 32"
    using fields(3,4) by (auto simp: expected_sequence_Inr)
  note parse = fanout_tx_parse[OF laws(1) specs ok len]
  obtain template where t: "\<forall>field. parse_transaction_hex X (pc_fanout_tx_template_hex p) field = Inr template"
    "pt_version template = 3" "pt_outputs template = specs" "pt_lock_time template = pc_fanout_lock_time p"
    "pt_witness_stacks template = None"
    "pt_inputs template = [\<lparr> ti_prev_txid_hex = hex_encode X zero, ti_prev_vout = 0, ti_script_sig = [],
       ti_sequence = pc_fanout_sequence p \<rparr>]"
    using parse(1)[OF zero _ w(2,1), of 0 "[]"] unsigned fields(4) by auto
  obtain h where h: "default_ctv_hash_for_parsed_tx X template 0 = Inr h" and hx: "pc_ctv_hash_hex p = hex_encode X h"
    using hash t(1) by (auto simp: default_ctv_hash_hex_def rbind_Inr)
  have "length h = 32" using h sha256_length[OF laws(3)] by (auto simp: ctv_hash_Inr)
  then have lx: "pc_ctv_leaf_script_hex p = hex_encode X (ctv_leaf_script h)"
    using leaf by (auto simp: ctv_leaf_script_hex_def hx hex_decode_encode[OF laws(1)] rbind_Inr decode_hash_hex_Inr)
  have px: "pc_p2mr_program_hex p = hex_encode X (p2mr_tapleaf_hash X (ctv_leaf_script h))"
    using prog(1) by (auto simp: p2mr_program_for_ctv_leaf_hex_def lx hex_decode_encode[OF laws(1)])
  then have cx: "pc_covenant_script_pubkey_hex p = hex_encode X (p2mr_script_pubkey (p2mr_tapleaf_hash X (ctv_leaf_script h)))"
    using prog(2,3) by (auto simp: decode_program_hex_Inr hex_decode_encode[OF laws(1)])
  have anchor: "(pc_anchor_vout p \<noteq> None) = ?anchored" using v(7) by (simp add: verify_anchor_Inr)
  have "length (ctv_leaf_script h) < 2 ^ 64" using \<open>length h = 32\<close> by (simp add: ctv_leaf_script_def)
  from parse(2)[OF txid n w(2,1) this] obtain fbytes fanout where f:
    "witnessed_fanout_tx_hex X txid n (pc_outputs p) (pc_anchor_vout p \<noteq> None) (pc_fanout_lock_time p)
       (pc_fanout_sequence p) (ctv_leaf_script h) = Inr (hex_encode X fbytes)"
    "\<forall>field. parse_transaction_hex X (hex_encode X fbytes) field = Inr fanout"
    "pt_version fanout = 3" "pt_outputs fanout = specs" "pt_lock_time fanout = pc_fanout_lock_time p"
    "pt_witness_stacks fanout = Some [[ctv_leaf_script h, [QBIT_P2MR_CONTROL_BLOCK]]]"
    "pt_inputs fanout = [\<lparr> ti_prev_txid_hex = hex_encode X b, ti_prev_vout = n, ti_script_sig = [],
       ti_sequence = pc_fanout_sequence p \<rparr>]"
    unfolding anchor by auto
  have "default_ctv_hash_for_parsed_tx X fanout 0 = default_ctv_hash_for_parsed_tx X template 0"
    by (rule ctv_hash_cong) (simp_all add: f t)
  then have fh: "default_ctv_hash_for_parsed_tx X fanout 0 = Inr h" using h by simp
  have vt: "validate_fanout_template template = Inr ()"
    by (simp add: validate_fanout_template_def checks_Inr reject_if_Inr t CTV_FANOUT_TX_VERSION_def QBIT_CTV_INPUT_INDEX_def)
  show thesis by (rule that[OF t(1) vt h f(1,2) fh f(7,5,6) f(4)[unfolded payouts(1)] payouts(2) hx lx px cx])
qed

lemma fanout_output_fold_ok:
  "list_all2 (pays X) outs payouts \<Longrightarrow> \<forall>out\<in>set outs. output_ok X out \<Longrightarrow> hex_law X \<Longrightarrow>
     map fo_vout outs = map (\<lambda>i. i mod 2 ^ 32) [k..<k + length outs] \<Longrightarrow>
     s + sum_list (map fo_amount_sats outs) < 2 ^ 64 \<Longrightarrow> f + sum_list (map fo_fee_sats outs) < 2 ^ 64 \<Longrightarrow>
     rfold (fanout_output_check X) (s, f) (enumerate k (zip (payouts @ rest) outs)) =
       Inr (s + sum_list (map fo_amount_sats outs), f + sum_list (map fo_fee_sats outs))"
proof (induction arbitrary: s f k rule: list_all2_induct)
  case (Cons out outs txo payouts)
  have "[k..<k + length (out # outs)] = k # [Suc k..<Suc k + length outs]" by (simp add: upt_rec)
  then have nums: "fo_vout out = k mod 2 ^ 32" "map fo_vout outs = map (\<lambda>i. i mod 2 ^ 32) [Suc k..<Suc k + length outs]"
    using Cons.prems(3) by simp_all
  have "fanout_output_check X (s, f) (k, txo, out) = Inr (s + fo_amount_sats out, f + fo_fee_sats out)"
    unfolding fanout_output_check_Inr using Cons.hyps(1) Cons.prems(1,4,5) nums(1) hex_decode_encode[OF Cons.prems(2)]
    by (auto simp: pays_def output_ok_def)
  moreover have "rfold (fanout_output_check X) (s + fo_amount_sats out, f + fo_fee_sats out)
      (enumerate (Suc k) (zip (payouts @ rest) outs)) =
      Inr (s + fo_amount_sats out + sum_list (map fo_amount_sats outs), f + fo_fee_sats out + sum_list (map fo_fee_sats outs))"
    using Cons.prems nums(2) by (intro Cons.IH) simp_all
  ultimately show ?case by (simp add: add.assoc)
qed simp

lemma finished_outputs_verify:
  assumes laws: "hex_law X" "hex_text_law X" and ver: "verify_precommitment X p = Inr ()"
    and ok: "\<forall>out\<in>set (pc_outputs p). output_ok X out"
    and m: "cm_precommitment m = p" "cm_covenant_output_value_sats m = pc_covenant_output_value_sats p"
    and outs: "pt_outputs fanout = payouts @ anchor_outputs (pc_fanout_fee_sats p = 0)" "list_all2 (pays X) (pc_outputs p) payouts"
  shows "verify_fanout_outputs X m fanout = Inr ()"
proof -
  note v = verify_precommitment_Inr[OF ver]
  have anchor: "pc_anchor_vout p = (if pc_fanout_fee_sats p = 0 then Some (length (pc_outputs p)) else None)"
    using v(7) by (simp add: verify_anchor_Inr)
  have len: "length payouts = length (pc_outputs p)" using list_all2_lengthD[OF outs(2)] by simp
  have fold: "rfold (fanout_output_check X) (0, 0) (enumerate 0 (zip (pt_outputs fanout) (pc_outputs p))) =
      Inr (pc_fanout_output_sum_sats p, pc_fanout_fee_sats p)"
    unfolding outs(1) v(3,4)
    by (subst fanout_output_fold_ok[OF outs(2) ok laws(1)]) (use v in simp_all)
  have last: "ensure_fee_anchor_output X (pt_outputs fanout ! length (pc_outputs p)) (length (pc_outputs p)) (length (pc_outputs p)) =
      Inr ()" if "pc_fanout_fee_sats p = 0"
    unfolding ensure_fee_anchor_output_Inr outs(1)
    using that p2a_script[OF laws] by (simp add: anchor_outputs_def nth_append len)
  show ?thesis
    unfolding verify_fanout_outputs_def Let_def m
    using fold last v(5,6) by (auto simp: rbind_Inr reject_if_Inr ok_or_Inr checked_simps anchor outs(1) len anchor_outputs_def)
qed

lemma txid_hex_32: "sha_law X \<Longrightarrow> \<exists>b. length b = 32 \<and> txid_hex X tx = hex_encode X b"
  by (auto simp: txid_hex_def hash256_def sha_law_def intro!: exI[of _ "rev (hash256 X (pt_tx_without_witness tx))"])

lemma finished_fields_verify:
  assumes laws: "hex_law X" "sha_law X" and ver: "verify_precommitment X p = Inr ()"
    and p: "pc_settlement_mode p \<noteq> DirectCoinbase" "pc_fanout_input_index p = 0" "pc_block_height p \<le> 2 ^ 32 - 1"
      "pc_p2mr_control_block_hex p = hex_encode X [QBIT_P2MR_CONTROL_BLOCK]" "to_vec p = Inr bytes"
    and m: "cm_precommitment m = p" "cm_precommitment_sha256_hex m = sha256_hex X bytes"
      "commitment_witness_leaf_hex X (sha256_hex X bytes) = Inr (cm_commitment_witness_leaf_hex m)"
      "cm_parent_coinbase_txid m = txid_hex X parent" "cm_parent_coinbase_tx_hex m = hex_encode X b1"
      "cm_covenant_script_pubkey_hex m = hex_encode X b2" "cm_fanout_tx_hex m = hex_encode X b3"
      "cm_fanout_txid m = txid_hex X fanout"
  shows "verify_manifest_fields X to_vec m = Inr ()"
proof -
  note fields = verify_precommitment_fields_Inr[OF verify_precommitment_Inr(1)[OF ver]]
  note dec = hex_decode_encode[OF laws(1)]
  have canon: "\<exists>b. hex_decode X s = Inr b \<and> length b = 32 \<and> s = hex_encode X b"
    if "\<exists>b. length b = 32 \<and> s = hex_encode X b" for s using that dec by blast
  have leaf: "\<exists>b. length b = 32 \<and> cm_commitment_witness_leaf_hex m = hex_encode X b"
    using m(3) sha256_length[OF laws(2)] unfolding commitment_witness_leaf_hex_def rbind_Inr by (metis Inr_inject)
  have sha: "\<exists>b. length b = 32 \<and> sha256_hex X bytes = hex_encode X b"
    using sha256_length[OF laws(2)] by (auto simp: sha256_hex_def)
  note canons = canon[OF leaf] canon[OF sha] canon[OF txid_hex_32[OF laws(2), of parent]]
    canon[OF txid_hex_32[OF laws(2), of fanout]] canon[OF fields(5)] canon[OF fields(6)]
  have "\<forall>r\<in>set [validate_sha256_hex X (pc_reward_manifest_sha256_hex p) ''reward_manifest_sha256_hex'',
      validate_sha256_hex X (pc_payout_policy_manifest_sha256_hex p) ''payout_policy_manifest_sha256_hex'']. r = Inr ()"
    using canons(5,6) by (auto simp: validate_hex_Inr)
  then show ?thesis
    unfolding verify_manifest_fields_def Let_def checks_Inr m
    using p fields(2) m(3) canons(1-4)
    by (simp add: reject_if_Inr validate_hex_Inr chunk_identity_Inr rbind_Inr canonical_precommitment_bytes_def
        map_err_Inr QBIT_CTV_INPUT_INDEX_def dec)
qed

lemma finished_structure_verifies:
  assumes m: "cm_schema m = CTV_FANOUT_MANIFEST_SCHEMA" "cm_precommitment m = p"
      "cm_parent_coinbase_txid m = txid_hex X parent" "cm_covenant_output_value_sats m = pc_covenant_output_value_sats p"
      "cm_covenant_script_pubkey_hex m = pc_covenant_script_pubkey_hex p" "cm_fanout_txid m = txid_hex X fanout"
    and ver: "verify_precommitment X p = Inr ()" and fields: "verify_manifest_fields X to_vec m = Inr ()"
    and parent: "\<And>field. parse_transaction_hex X (cm_parent_coinbase_tx_hex m) field = Inr parent"
      "ensure_coinbase_shape parent = Inr ()" "vec_get (pt_outputs parent) (cm_parent_coinbase_vout m) = Some covenant"
      "to_amount_sats covenant = pc_covenant_output_value_sats p"
      "hex_encode X (to_script_pubkey covenant) = pc_covenant_script_pubkey_hex p"
    and template: "\<And>field. parse_transaction_hex X (pc_fanout_tx_template_hex p) field = Inr template"
      "validate_fanout_template template = Inr ()" "default_ctv_hash_for_parsed_tx X template 0 = Inr h"
    and fanout: "\<And>field. parse_transaction_hex X (cm_fanout_tx_hex m) field = Inr fanout"
      "default_ctv_hash_for_parsed_tx X fanout 0 = Inr h"
      "pt_inputs fanout = [\<lparr> ti_prev_txid_hex = txid_hex X parent, ti_prev_vout = cm_parent_coinbase_vout m, ti_script_sig = [],
         ti_sequence = pc_fanout_sequence p \<rparr>]"
      "pt_lock_time fanout = pc_fanout_lock_time p"
      "pt_witness_stacks fanout = Some [[ctv_leaf_script h, [QBIT_P2MR_CONTROL_BLOCK]]]"
      "verify_fanout_outputs X m fanout = Inr ()"
    and p: "pc_fanout_input_index p = 0" "pc_ctv_hash_hex p = hex_encode X h"
      "pc_ctv_leaf_script_hex p = hex_encode X (ctv_leaf_script h)"
      "pc_p2mr_program_hex p = hex_encode X (p2mr_tapleaf_hash X (ctv_leaf_script h))"
      "pc_covenant_script_pubkey_hex p = hex_encode X (p2mr_script_pubkey (p2mr_tapleaf_hash X (ctv_leaf_script h)))"
  shows "verify_ctv_fanout_manifest_structure X to_vec m = Inr ()"
proof -
  note pf = verify_precommitment_fields_Inr[OF verify_precommitment_Inr(1)[OF ver]]
  have "verify_covenant_output X m = Inr ()"
    unfolding verify_covenant_output_def Let_def using parent m
    by (simp add: checks_Inr reject_if_Inr)
  moreover have "verify_fanout_input X m fanout = Inr ()"
    unfolding verify_fanout_input_def Let_def using fanout(3,4) m pf(3,4)
    by (simp add: checks_Inr reject_if_Inr QBIT_CTV_INPUT_INDEX_def)
  moreover have "verify_fanout_witness fanout (ctv_leaf_script h) = Inr ()"
    unfolding verify_fanout_witness_def using fanout(5)
    by (simp add: checks_Inr reject_if_Inr QBIT_CTV_INPUT_INDEX_def vec_get_def)
  then have "verify_ctv_commitment X m template fanout = Inr ()"
    unfolding verify_ctv_commitment_def Let_def using template(3) fanout(2) m p
    by (simp add: checks_Inr reject_if_Inr)
  ultimately show ?thesis
    unfolding verify_ctv_fanout_manifest_structure_def using m(1,2) ver fields template(1,2) fanout(1,6) by simp
qed

lemma coinbase_bytes:
  assumes "hex_law X" "parse_transaction_hex X s field = Inr tx"
  obtains b where "normalize_hex X s = Inr (hex_encode X b)"
    "\<forall>field. parse_transaction_hex X s field = Inr tx" "\<forall>field. parse_transaction_hex X (hex_encode X b) field = Inr tx"
proof -
  obtain b where b: "hex_decode X s = Inr b" using assms(2) by (auto simp: parse_transaction_hex_def rbind_Inr map_err_Inr)
  have any: "parse_transaction_hex X s field' = Inr tx" for field' by (rule parse_any_field[OF assms])
  show thesis
    by (rule that[of b]) (use b any in \<open>simp_all add: normalize_hex_def parse_transaction_hex_def hex_decode_encode[OF assms(1)]\<close>)
qed

lemma lowercase_canonical:
  assumes "hex_law X" "s = hex_encode X b"
  shows "to_ascii_lowercase s = s"
  using hex_encode_decode[OF assms(1) hex_decode_encode[OF assms(1)], of b] assms(2) by simp

text \<open>One run of the builder that ends with the precommitment it started from.\<close>

lemma build_manifest_run:
  assumes run: "validate_fanout_input X input ''manifest'' = Inr ()"
      "parse_transaction_hex X (ci_parent_coinbase_tx_hex input) ''parent_coinbase_tx_hex'' = Inr parent"
      "ensure_coinbase_shape parent = Inr ()"
      "parse_transaction_hex X (ci_fanout_tx_template_hex input) ''fanout_tx_template_hex'' = Inr template"
      "parse_transaction_hex X (ci_fanout_tx_hex input) ''fanout_tx_hex'' = Inr fanout"
      "validate_fanout_template template = Inr ()" "vec_get (pt_outputs parent) (ci_parent_coinbase_vout input) = Some covenant"
      "default_ctv_hash_for_parsed_tx X template 0 = Inr h" "default_ctv_hash_for_parsed_tx X fanout 0 = Inr h"
      "vec_get (pt_inputs fanout) 0 = Some fanout_input" "expected_fanout_sequence (pc_chunk_index p) = Inr (pc_fanout_sequence p)"
      "canonical_fanout_outputs X (ci_payouts input) = Inr (pc_outputs p)"
      "fanout_sum ''fanout output sum overflowed'' fo_amount_sats (pc_outputs p) = Inr (pc_fanout_output_sum_sats p)"
      "fanout_sum ''fanout fee sum overflowed'' fo_fee_sats (pc_outputs p) = Inr (pc_fanout_fee_sats p)"
      "anchor_vout_for_fee (length (pc_outputs p)) (pc_fanout_fee_sats p) = Inr (pc_anchor_vout p)"
      "normalize_hex X (ci_fanout_tx_template_hex input) = Inr (pc_fanout_tx_template_hex p)"
      "to_vec p = Inr bytes" "commitment_witness_leaf_hex X (sha256_hex X bytes) = Inr leaf"
      "normalize_hex X (ci_parent_coinbase_tx_hex input) = Inr parent_hex" "normalize_hex X (ci_fanout_tx_hex input) = Inr fanout_hex"
    and p: "pc_schema p = CTV_FANOUT_PRECOMMITMENT_SCHEMA" "pc_block_height p = ci_block_height input"
      "pc_chunk_index p = ci_chunk_index input" "pc_chunk_count p = ci_chunk_count input"
      "pc_coinbase_value_sats p = ci_coinbase_value_sats input" "pc_settlement_mode p = ci_settlement_mode input"
      "pc_covenant_output_value_sats p = to_amount_sats covenant" "pc_fanout_input_index p = 0"
      "pc_fanout_sequence p = ti_sequence fanout_input" "pc_fanout_lock_time p = pt_lock_time fanout"
      "pc_ctv_hash_hex p = hex_encode X h" "pc_ctv_leaf_script_hex p = hex_encode X (ctv_leaf_script h)"
      "pc_p2mr_program_hex p = hex_encode X (p2mr_tapleaf_hash X (ctv_leaf_script h))"
      "pc_covenant_script_pubkey_hex p = hex_encode X (p2mr_script_pubkey (p2mr_tapleaf_hash X (ctv_leaf_script h)))"
      "pc_p2mr_control_block_hex p = hex_encode X [QBIT_P2MR_CONTROL_BLOCK]"
      "pc_reward_manifest_sha256_hex p = to_ascii_lowercase (ci_reward_manifest_sha256_hex input)"
      "pc_payout_policy_manifest_sha256_hex p = to_ascii_lowercase (ci_payout_policy_manifest_sha256_hex input)"
    and m: "m = \<lparr> cm_schema = CTV_FANOUT_MANIFEST_SCHEMA, cm_precommitment = p, cm_precommitment_sha256_hex = sha256_hex X bytes,
        cm_commitment_witness_leaf_hex = leaf, cm_parent_coinbase_txid = txid_hex X parent, cm_parent_coinbase_tx_hex = parent_hex,
        cm_parent_coinbase_vout = ci_parent_coinbase_vout input, cm_covenant_output_value_sats = to_amount_sats covenant,
        cm_covenant_script_pubkey_hex = pc_covenant_script_pubkey_hex p, cm_fanout_tx_hex = fanout_hex,
        cm_fanout_txid = txid_hex X fanout \<rparr>"
    and ver: "verify_ctv_fanout_manifest_structure X to_vec m = Inr ()"
  shows "build_ctv_fanout_manifest X to_vec input = Inr m"
proof -
  have p_rec: "p = \<lparr> pc_schema = CTV_FANOUT_PRECOMMITMENT_SCHEMA, pc_block_height = ci_block_height input,
           pc_chunk_index = ci_chunk_index input, pc_chunk_count = ci_chunk_count input,
           pc_coinbase_value_sats = ci_coinbase_value_sats input, pc_settlement_mode = ci_settlement_mode input,
           pc_covenant_output_value_sats = to_amount_sats covenant,
           pc_covenant_script_pubkey_hex = hex_encode X (p2mr_script_pubkey (p2mr_tapleaf_hash X (ctv_leaf_script h))),
           pc_fanout_tx_template_hex = pc_fanout_tx_template_hex p, pc_fanout_input_index = 0,
           pc_fanout_sequence = ti_sequence fanout_input, pc_fanout_lock_time = pt_lock_time fanout,
           pc_fanout_output_sum_sats = pc_fanout_output_sum_sats p, pc_fanout_fee_sats = pc_fanout_fee_sats p,
           pc_anchor_vout = pc_anchor_vout p,
           pc_ctv_hash_hex = hex_encode X h, pc_ctv_leaf_script_hex = hex_encode X (ctv_leaf_script h),
           pc_p2mr_program_hex = hex_encode X (p2mr_tapleaf_hash X (ctv_leaf_script h)),
           pc_p2mr_control_block_hex = hex_encode X [QBIT_P2MR_CONTROL_BLOCK],
           pc_reward_manifest_sha256_hex = to_ascii_lowercase (ci_reward_manifest_sha256_hex input),
           pc_payout_policy_manifest_sha256_hex = to_ascii_lowercase (ci_payout_policy_manifest_sha256_hex input),
           pc_outputs = pc_outputs p \<rparr>"
    by (rule CtvFanoutPrecommitment.equality) (simp_all add: p)
  show ?thesis
    unfolding build_ctv_fanout_manifest_def Let_def QBIT_CTV_INPUT_INDEX_def run rbind.simps ok_or_simps
      p(3)[symmetric] p(9)[symmetric] reject_if_def simp_thms if_False p_rec[unfolded p(3,9)[symmetric], symmetric]
      canonical_precommitment_bytes_def map_err_simps
    using ver p(14) unfolding m by simp
qed

lemma finish_prepared:
  assumes laws: "hex_law X" "hex_text_law X" "sha_law X"
    and prep: "prepare_ctv_fanout_precommitment X to_vec input = Inr prep" and p: "p = pr_precommitment prep"
    and parent: "parse_transaction_hex X parent_hex field = Inr parent" "ensure_coinbase_shape parent = Inr ()"
      "vec_get (pt_outputs parent) n = Some covenant" "to_amount_sats covenant = pr_covenant_output_value_sats prep"
      "hex_encode X (to_script_pubkey covenant) = pc_covenant_script_pubkey_hex p" and n: "n < 2 ^ 32"
  obtains m where "build_ctv_fanout_manifest_from_precommitment X to_vec p parent_hex n = Inr m"
    "verify_ctv_fanout_manifest_structure X to_vec m = Inr ()" "cm_precommitment m = p"
    "cm_commitment_witness_leaf_hex m = pr_commitment_witness_leaf_hex prep"
    "cm_parent_coinbase_txid m = txid_hex X parent" "cm_parent_coinbase_vout m = n"
proof -
  obtain bytes where
    valid: "validate_fanout_input X input ''precommitment'' = Inr ()"
    and outs: "canonical_fanout_outputs X (ci_payouts input) = Inr (pc_outputs p)"
    and anchor: "anchor_vout_for_fee (length (pc_outputs p)) (pc_fanout_fee_sats p) = Inr (pc_anchor_vout p)"
    and ver: "verify_precommitment X p = Inr ()" and json: "to_vec p = Inr bytes"
    and leaf: "commitment_witness_leaf_hex X (sha256_hex X bytes) = Inr (pr_commitment_witness_leaf_hex prep)"
    and val: "pr_covenant_output_value_sats prep = pc_covenant_output_value_sats p"
    and pf: "pc_block_height p = ci_block_height input" "pc_settlement_mode p = ci_settlement_mode input"
      "pc_fanout_input_index p = 0" "pc_p2mr_control_block_hex p = hex_encode X [QBIT_P2MR_CONTROL_BLOCK]"
    by (rule prepare_Inr[OF prep p])
  note v = verify_precommitment_Inr[OF ver]
  note fields = verify_precommitment_fields_Inr[OF v(1)]
  note stable = canonical_outputs_stable[OF laws(1) outs]
  note dec = hex_decode_encode[OF laws(1)]
  have "covenant \<in> set (pt_outputs parent)" using parent(3) by (auto simp: vec_get_Some)
  then have money: "pc_covenant_output_value_sats p \<le> QBIT_MAX_MONEY_SATS"
    using parsed_tx_ok[OF laws(1) parent(1)] parent(4) val by (auto simp: tx_ok_def tx_parts_ok_def tx_out_ok_def)
  obtain b where b: "length b = 32" "txid_hex X parent = hex_encode X b" using txid_hex_32[OF laws(3)] by blast
  then have txid: "hex_decode X (txid_hex X parent) = Inr b" by (simp add: dec)
  obtain pb where pb: "normalize_hex X parent_hex = Inr (hex_encode X pb)"
    "\<forall>field. parse_transaction_hex X parent_hex field = Inr parent"
    "\<forall>field. parse_transaction_hex X (hex_encode X pb) field = Inr parent"
    by (rule coinbase_bytes[OF laws(1) parent(1)])
  obtain payouts template fanout h fbytes where
    t: "\<forall>field. parse_transaction_hex X (pc_fanout_tx_template_hex p) field = Inr template"
      "validate_fanout_template template = Inr ()" "default_ctv_hash_for_parsed_tx X template 0 = Inr h"
    and wit: "witnessed_fanout_tx_hex X (txid_hex X parent) n (pc_outputs p) (pc_anchor_vout p \<noteq> None) (pc_fanout_lock_time p)
       (pc_fanout_sequence p) (ctv_leaf_script h) = Inr (hex_encode X fbytes)"
    and f: "\<forall>field. parse_transaction_hex X (hex_encode X fbytes) field = Inr fanout"
      "default_ctv_hash_for_parsed_tx X fanout 0 = Inr h"
      "pt_inputs fanout = [\<lparr> ti_prev_txid_hex = hex_encode X b, ti_prev_vout = n, ti_script_sig = [],
         ti_sequence = pc_fanout_sequence p \<rparr>]"
      "pt_lock_time fanout = pc_fanout_lock_time p"
      "pt_witness_stacks fanout = Some [[ctv_leaf_script h, [QBIT_P2MR_CONTROL_BLOCK]]]"
      "pt_outputs fanout = payouts @ anchor_outputs (pc_fanout_fee_sats p = 0)"
      "list_all2 (pays X) (pc_outputs p) payouts"
    and hx: "pc_ctv_hash_hex p = hex_encode X h" "pc_ctv_leaf_script_hex p = hex_encode X (ctv_leaf_script h)"
      "pc_p2mr_program_hex p = hex_encode X (p2mr_tapleaf_hash X (ctv_leaf_script h))"
      "pc_covenant_script_pubkey_hex p = hex_encode X (p2mr_script_pubkey (p2mr_tapleaf_hash X (ctv_leaf_script h)))"
    by (rule prepared_transactions[OF laws prep p money txid b(1) n])
  define m where "m = \<lparr> cm_schema = CTV_FANOUT_MANIFEST_SCHEMA, cm_precommitment = p,
    cm_precommitment_sha256_hex = sha256_hex X bytes, cm_commitment_witness_leaf_hex = pr_commitment_witness_leaf_hex prep,
    cm_parent_coinbase_txid = txid_hex X parent, cm_parent_coinbase_tx_hex = hex_encode X pb, cm_parent_coinbase_vout = n,
    cm_covenant_output_value_sats = to_amount_sats covenant,
    cm_covenant_script_pubkey_hex = pc_covenant_script_pubkey_hex p, cm_fanout_tx_hex = hex_encode X fbytes,
    cm_fanout_txid = txid_hex X fanout \<rparr>"
  have in_ok: "ci_block_height input \<le> 2 ^ 32 - 1" "ci_settlement_mode input \<noteq> DirectCoinbase"
    using valid by (simp_all add: validate_fanout_input_def checks_Inr reject_if_Inr)
  have low: "to_ascii_lowercase (pc_reward_manifest_sha256_hex p) = pc_reward_manifest_sha256_hex p"
    "to_ascii_lowercase (pc_payout_policy_manifest_sha256_hex p) = pc_payout_policy_manifest_sha256_hex p"
    using fields(5,6) lowercase_canonical[OF laws(1)] by blast+
  have verified: "verify_ctv_fanout_manifest_structure X to_vec m = Inr ()"
  proof (rule finished_structure_verifies[where parent = parent and covenant = covenant and template = template
        and fanout = fanout and h = h and p = p, OF _ _ _ _ _ _ ver _ _ parent(2) _ _ parent(5) t(1)[rule_format] t(2,3) _ f(2)])
    show "verify_manifest_fields X to_vec m = Inr ()"
      by (rule finished_fields_verify[OF laws(1,3) ver, where bytes = bytes and parent = parent and fanout = fanout])
        (use in_ok pf json leaf hx(4) in \<open>simp_all add: m_def\<close>)
    show "verify_fanout_outputs X m fanout = Inr ()"
      by (rule finished_outputs_verify[OF laws(1,2) ver stable(2) _ _ f(6,7)]) (simp_all add: m_def parent(4) val)
  qed (use parent(3,4) val pb(3) f b pf(3) hx in \<open>simp_all add: m_def\<close>)
  let ?in = "\<lparr> ci_block_height = pc_block_height p, ci_chunk_index = pc_chunk_index p, ci_chunk_count = pc_chunk_count p,
           ci_coinbase_value_sats = pc_coinbase_value_sats p, ci_settlement_mode = pc_settlement_mode p,
           ci_reward_manifest_sha256_hex = pc_reward_manifest_sha256_hex p,
           ci_payout_policy_manifest_sha256_hex = pc_payout_policy_manifest_sha256_hex p,
           ci_payouts = map payout_of_output (pc_outputs p),
           ci_fanout_tx_template_hex = pc_fanout_tx_template_hex p,
           ci_parent_coinbase_tx_hex = parent_hex,
           ci_parent_coinbase_vout = n, ci_fanout_tx_hex = hex_encode X fbytes \<rparr>"
  have valid': "validate_fanout_input X ?in ''manifest'' = Inr ()"
    using in_ok pf fields(2,5,6) dec
    by (auto simp: validate_fanout_input_def checks_Inr reject_if_Inr chunk_identity_Inr validate_hex_Inr)
  have sums: "fanout_sum ''fanout output sum overflowed'' fo_amount_sats (pc_outputs p) = Inr (pc_fanout_output_sum_sats p)"
    "fanout_sum ''fanout fee sum overflowed'' fo_fee_sats (pc_outputs p) = Inr (pc_fanout_fee_sats p)"
    using v(3,4,6) by (simp_all add: fanout_sum_Inr)
  obtain tb where tb: "pc_fanout_tx_template_hex p = hex_encode X tb" using fields(7) by blast
  have norm: "normalize_hex X (hex_encode X q) = Inr (hex_encode X q)" for q by (simp add: normalize_hex_def dec)
  have "build_ctv_fanout_manifest X to_vec ?in = Inr m"
    by (rule build_manifest_run[OF valid' _ parent(2), where template = template and fanout = fanout and p = p and h = h
          and covenant = covenant and bytes = bytes and leaf = "pr_commitment_witness_leaf_hex prep" and
          parent_hex = "hex_encode X pb" and fanout_hex = "hex_encode X fbytes" and fanout_input = "pt_inputs fanout ! 0"])
      (use pb t f stable(1) sums anchor fields json leaf parent(3,4) val pf hx low verified norm tb in
        \<open>simp_all add: m_def vec_get_def\<close>)
  then have "build_ctv_fanout_manifest_from_precommitment X to_vec p parent_hex n = Inr m"
    unfolding build_ctv_fanout_manifest_from_precommitment_def
    using ver pb(2) parent(2) hx(2) dec wit by simp
  from this verified show thesis by (rule that) (simp_all add: m_def)
qed

section \<open>Manifest sets\<close>

lemma verify_set_member_Inr:
  assumes "verify_set_member X to_vec ms st (i, m) = Inr st'"
  shows "verify_ctv_fanout_manifest_structure X to_vec m = Inr ()"
    "pc_chunk_index (cm_precommitment m) = i mod 2 ^ 32" "pc_chunk_count (cm_precommitment m) = ms_fanout_count ms"
    "pc_block_height (cm_precommitment m) = ms_block_height ms" "cm_parent_coinbase_txid m = ms_parent_coinbase_txid ms"
    "pc_settlement_mode (cm_precommitment m) = ms_settlement_mode ms"
    "cm_parent_coinbase_vout m \<notin> st_vouts st" "cm_fanout_txid m \<notin> st_txids st"
    "cm_commitment_witness_leaf_hex m \<notin> st_leaves st"
    "st_vouts st' = insert (cm_parent_coinbase_vout m) (st_vouts st)" "st_txids st' = insert (cm_fanout_txid m) (st_txids st)"
    "st_leaves st' = insert (cm_commitment_witness_leaf_hex m) (st_leaves st)"
    "st_sum st' = st_sum st + pc_fanout_output_sum_sats (cm_precommitment m)"
    "st_fee st' = st_fee st + pc_fanout_fee_sats (cm_precommitment m)"
    "st_value st' = st_value st + cm_covenant_output_value_sats m"
  using assms unfolding verify_set_member_def Let_def prod.case
  by (auto simp: rbind_Inr checks_Inr reject_if_Inr ok_or_Inr checked_simps)

lemma verify_set_fold:
  "rfold (verify_set_member X to_vec ms) st (enumerate k mans) = Inr st' \<Longrightarrow>
     (\<forall>m\<in>set mans. verify_ctv_fanout_manifest_structure X to_vec m = Inr () \<and>
       pc_chunk_count (cm_precommitment m) = ms_fanout_count ms \<and> pc_block_height (cm_precommitment m) = ms_block_height ms \<and>
       cm_parent_coinbase_txid m = ms_parent_coinbase_txid ms) \<and>
     map (\<lambda>m. pc_chunk_index (cm_precommitment m)) mans = map (\<lambda>i. i mod 2 ^ 32) [k..<k + length mans] \<and>
     distinct (map cm_parent_coinbase_vout mans) \<and> st_vouts st \<inter> cm_parent_coinbase_vout ` set mans = {} \<and>
     distinct (map cm_fanout_txid mans) \<and> st_txids st \<inter> cm_fanout_txid ` set mans = {} \<and>
     distinct (map cm_commitment_witness_leaf_hex mans) \<and> st_leaves st \<inter> cm_commitment_witness_leaf_hex ` set mans = {} \<and>
     st_sum st' = st_sum st + sum_list (map (\<lambda>m. pc_fanout_output_sum_sats (cm_precommitment m)) mans) \<and>
     st_fee st' = st_fee st + sum_list (map (\<lambda>m. pc_fanout_fee_sats (cm_precommitment m)) mans) \<and>
     st_value st' = st_value st + sum_list (map cm_covenant_output_value_sats mans)"
proof (induction mans arbitrary: st k)
  case (Cons m mans)
  from Cons.prems obtain st1 where head: "verify_set_member X to_vec ms st (k, m) = Inr st1"
    and tail: "rfold (verify_set_member X to_vec ms) st1 (enumerate (Suc k) mans) = Inr st'"
    by (auto simp: rbind_Inr)
  have upt: "[k..<k + length (m # mans)] = k # [Suc k..<Suc k + length mans]" by (simp add: upt_rec)
  note h = verify_set_member_Inr[OF head] and ih = Cons.IH[OF tail]
  show ?case unfolding upt using h ih by (auto simp: add.assoc)
qed simp

lemma verify_set_Inr:
  assumes "verify_ctv_fanout_manifest_set X to_vec ms = Inr u"
  obtains st where "rfold (verify_set_member X to_vec ms) no_totals (enumerate 0 (ms_manifests ms)) = Inr st"
    "ms_fanout_count ms = length (ms_manifests ms)" "ms_manifests ms \<noteq> []"
    "ms_fanout_output_sum_sats ms = st_sum st" "ms_fanout_fee_sats ms = st_fee st"
    "ms_covenant_output_value_sats ms = st_value st" "st_sum st + st_fee st = st_value st"
  using assms unfolding verify_ctv_fanout_manifest_set_def
  by (auto simp: rbind_Inr checks_Inr reject_if_Inr ok_or_Inr checked_simps)

lemma verified_chunk_bound:
  assumes "verify_ctv_fanout_manifest_structure X to_vec m = Inr ()"
  shows "pc_chunk_index (cm_precommitment m) < 2 ^ 31"
proof -
  obtain "verify_precommitment X (cm_precommitment m) = Inr ()" by (rule verify_structure_Inr[OF assms])
  from verify_precommitment_fields_Inr(3)[OF verify_precommitment_Inr(1)[OF this]] show ?thesis
    by (simp add: expected_sequence_Inr)
qed

section \<open>Properties\<close>

text \<open>The running example: two payouts of a fan-out with fee, and the coinbase that holds its covenant output.\<close>

definition demo_payout :: "string \<Rightarrow> nat \<Rightarrow> CtvFanoutPayout" where
  "demo_payout name n = \<lparr> recipient_id = name, order_key = name, p2mr_program_hex = hex_encode demo_crypto (replicate 32 0xb2),
     cp_gross_amount_sats = n + 3, cp_fee_sats = 3, cp_amount_sats = n \<rparr>"

definition demo_fanout_input :: CtvFanoutPrecommitmentInput where
  "demo_fanout_input = \<lparr> ci_block_height = 101, ci_chunk_index = 0, ci_chunk_count = 1, ci_coinbase_value_sats = 900,
     ci_settlement_mode = CtvFanout, ci_reward_manifest_sha256_hex = hex_encode demo_crypto (replicate 32 0xaa),
     ci_payout_policy_manifest_sha256_hex = hex_encode demo_crypto (replicate 32 0x1f),
     ci_payouts = [demo_payout ''bob'' 500, demo_payout ''amy'' 300] \<rparr>"

definition demo_to_vec :: "CtvFanoutPrecommitment \<Rightarrow> string + byte list" where
  "demo_to_vec p = Inr (as_bytes (pc_ctv_hash_hex p))"

lemma demo_input_valid: "validate_fanout_input demo_crypto demo_fanout_input ''precommitment'' = Inr ()"
  unfolding validate_fanout_input_def checks_Inr demo_fanout_input_def
  by (simp add: reject_if_Inr validate_hex_Inr chunk_identity_Inr demo_decode_encode del: map_replicate)

lemma demo_input_outputs:
  obtains outs where "canonical_fanout_outputs demo_crypto (ci_payouts demo_fanout_input) = Inr outs"
    "map fo_amount_sats outs = [300, 500]" "map fo_fee_sats outs = [3, 3]"
proof -
  have canon: "canonical_payout demo_crypto (demo_payout name n) = Inr (demo_payout name n)" for name n
    by (simp add: canonical_payout_def demo_payout_def canonical_p2mr_program_hex_def decode_program_hex_def
        P2MR_PROGRAM_LEN_def demo_decode_encode del: map_replicate)
  have sort: "sort_key payout_sort_key [demo_payout ''bob'' 500, demo_payout ''amy'' 300] =
      [demo_payout ''amy'' 300, demo_payout ''bob'' 500]"
    by (simp add: payout_sort_key_def demo_payout_def)
  have prog: "p2mr_program_hex (demo_payout name n) = hex_encode demo_crypto (replicate 32 0xb2)" "length (replicate 32 (0xb2 :: byte)) = 32"
    for name n by (simp_all add: demo_payout_def)
  note step = fanout_output_step_Inr[OF demo_crypto_hex prog]
  have "\<exists>seen outs. rfold (fanout_output_step demo_crypto) ({}, []) (enumerate 0 [demo_payout ''amy'' 300, demo_payout ''bob'' 500]) =
      Inr (seen, outs) \<and> map fo_amount_sats outs = [300, 500] \<and> map fo_fee_sats outs = [3, 3]"
    by (simp add: rbind_Inr step del: demo_crypto_simps map_replicate) (simp add: demo_payout_def)
  moreover have "rmap (canonical_payout demo_crypto) [demo_payout ''bob'' 500, demo_payout ''amy'' 300] =
      Inr [demo_payout ''bob'' 500, demo_payout ''amy'' 300]" by (simp add: canon)
  ultimately show thesis using that
    unfolding canonical_fanout_outputs_def demo_fanout_input_def CtvFanoutPrecommitmentInput.select_convs
    by (auto simp only: reject_if_def list.distinct if_False rbind.simps sort prod.case list.map sum.inject)
qed

text \<open>A coinbase with one given output, as a transaction that the parser reads.\<close>

lemma coinbase_with_output:
  assumes laws: "hex_law X" "hex_text_law X" and ok: "tx_out_ok covenant"
  obtains parent_hex parent where "\<forall>field. parse_transaction_hex X parent_hex field = Inr parent"
    "ensure_coinbase_shape parent = Inr ()" "vec_get (pt_outputs parent) 0 = Some covenant"
proof -
  let ?in = "\<lparr> ti_prev_txid_hex = concat (replicate 32 ''00''), ti_prev_vout = 2 ^ 32 - 1, ti_script_sig = [],
    ti_sequence = 0, is_witness_stack = [] \<rparr>"
  note zero = zero_txid[OF laws]
  have parts: "tx_parts_ok X [?in] [covenant]"
    using ok zero by (simp add: tx_parts_ok_def tx_in_ok_def prev_txid_bytes_def)
  obtain s parent where s: "\<forall>field. parse_transaction_hex X s field = Inr parent"
    "pt_inputs parent = [ParsedTxIn.truncate ?in]" "pt_outputs parent = [covenant]"
    using serialize_parse[OF laws(1) parts, of 2 0 False] by (auto simp: stack_ok_def)
  have "ensure_coinbase_shape parent = Inr ()"
    unfolding ensure_coinbase_shape_def Let_def checks_Inr s(2)
    by (simp add: reject_if_Inr COINBASE_PREVOUT_VOUT_def ParsedTxIn.truncate_def)
  with s show thesis by (intro that[of s parent]) (simp_all add: vec_get_def)
qed

text \<open>C20. A fan-out can always be settled. Payouts that are well-formed and within the money supply
  can be prepared before the block is mined, and whatever coinbase then holds the covenant
  output, at any index, the fan-out is finished against it, verifies, and carries the very precommitment
  and witness leaf that were prepared, so the miner did commit to them.\<close>

theorem fanout_lifecycle:
  assumes laws: "hex_law X" "hex_text_law X" "sha_law X" and json: "\<forall>p. \<exists>bytes. to_vec p = Inr bytes"
    and valid: "validate_fanout_input X input ''precommitment'' = Inr ()"
    and outs: "canonical_fanout_outputs X (ci_payouts input) = Inr outs"
    and money: "sum_list (map fo_amount_sats outs) + sum_list (map fo_fee_sats outs) \<le> QBIT_MAX_MONEY_SATS"
    and len: "length outs < 2 ^ 32 - 1" and idx: "ci_chunk_index input < 2 ^ 31"
  shows "\<exists>prep p. prepare_ctv_fanout_precommitment X to_vec input = Inr prep \<and> p = pr_precommitment prep \<and>
    pc_outputs p = outs \<and>
    pr_covenant_output_value_sats prep = sum_list (map fo_amount_sats outs) + sum_list (map fo_fee_sats outs) \<and>
    (\<forall>parent_hex field parent n covenant.
       parse_transaction_hex X parent_hex field = Inr parent \<and> ensure_coinbase_shape parent = Inr () \<and> n < 2 ^ 32 \<and>
       vec_get (pt_outputs parent) n = Some covenant \<and> to_amount_sats covenant = pr_covenant_output_value_sats prep \<and>
       hex_encode X (to_script_pubkey covenant) = pc_covenant_script_pubkey_hex p \<longrightarrow>
       (\<exists>m. build_ctv_fanout_manifest_from_precommitment X to_vec p parent_hex n = Inr m \<and>
          verify_ctv_fanout_manifest_structure X to_vec m = Inr () \<and> cm_precommitment m = p \<and>
          cm_commitment_witness_leaf_hex m = pr_commitment_witness_leaf_hex prep \<and>
          cm_parent_coinbase_txid m = txid_hex X parent \<and> cm_parent_coinbase_vout m = n))"
proof -
  obtain prep where prep: "prepare_ctv_fanout_precommitment X to_vec input = Inr prep"
    "pc_outputs (pr_precommitment prep) = outs"
    "pr_covenant_output_value_sats prep = sum_list (map fo_amount_sats outs) + sum_list (map fo_fee_sats outs)"
    by (rule prepare_ok[OF laws json valid outs money len idx])
  from finish_prepared[OF laws prep(1) refl] prep show ?thesis
    by (intro exI[of _ prep] exI[of _ "pr_precommitment prep"]) metis
qed

lemma covenant_output_exists:
  assumes laws: "hex_law X" "sha_law X" and prep: "prepare_ctv_fanout_precommitment X to_vec input = Inr prep"
    and money: "pr_covenant_output_value_sats prep \<le> QBIT_MAX_MONEY_SATS"
  obtains covenant where "to_amount_sats covenant = pr_covenant_output_value_sats prep" "tx_out_ok covenant"
    "hex_encode X (to_script_pubkey covenant) = pc_covenant_script_pubkey_hex (pr_precommitment prep)"
proof -
  obtain program where "decode_program_hex X (pc_p2mr_program_hex (pr_precommitment prep)) ''p2mr_program_hex'' = Inr program"
    "pc_covenant_script_pubkey_hex (pr_precommitment prep) = hex_encode X (p2mr_script_pubkey program)"
    by (rule prepare_Inr[OF prep refl])
  then show thesis
    by (intro that[of "\<lparr> to_amount_sats = pr_covenant_output_value_sats prep, to_script_pubkey = p2mr_script_pubkey program \<rparr>"])
      (use money in \<open>simp_all add: tx_out_ok_def decode_program_hex_Inr p2mr_script_pubkey_def\<close>)
qed

theorem fanout_lifecycle_witness:
  "\<exists>prep parent_hex m. prepare_ctv_fanout_precommitment demo_crypto demo_to_vec demo_fanout_input = Inr prep \<and>
     pr_covenant_output_value_sats prep = 806 \<and>
     build_ctv_fanout_manifest_from_precommitment demo_crypto demo_to_vec (pr_precommitment prep) parent_hex 0 = Inr m \<and>
     verify_ctv_fanout_manifest_structure demo_crypto demo_to_vec m = Inr ()"
proof -
  note laws = demo_crypto_hex demo_crypto_hex_text demo_crypto_sha
  obtain outs where outs: "canonical_fanout_outputs demo_crypto (ci_payouts demo_fanout_input) = Inr outs"
    "map fo_amount_sats outs = [300, 500]" "map fo_fee_sats outs = [3, 3]" by (rule demo_input_outputs)
  have len: "length outs = 2" using arg_cong[OF outs(2), of length] by simp
  have json: "\<forall>p. \<exists>bytes. demo_to_vec p = Inr bytes" by (simp add: demo_to_vec_def)
  have small: "sum_list (map fo_amount_sats outs) + sum_list (map fo_fee_sats outs) \<le> QBIT_MAX_MONEY_SATS"
    "length outs < 2 ^ 32 - 1" "ci_chunk_index demo_fanout_input < 2 ^ 31"
    by (simp_all add: outs(2,3) len QBIT_MAX_MONEY_SATS_def demo_fanout_input_def)
  from fanout_lifecycle[OF laws json demo_input_valid outs(1) small] obtain prep where
    prep: "prepare_ctv_fanout_precommitment demo_crypto demo_to_vec demo_fanout_input = Inr prep"
      "pr_covenant_output_value_sats prep = sum_list (map fo_amount_sats outs) + sum_list (map fo_fee_sats outs)"
    and fin: "\<forall>parent_hex field parent n covenant.
       parse_transaction_hex demo_crypto parent_hex field = Inr parent \<and> ensure_coinbase_shape parent = Inr () \<and> n < 2 ^ 32 \<and>
       vec_get (pt_outputs parent) n = Some covenant \<and> to_amount_sats covenant = pr_covenant_output_value_sats prep \<and>
       hex_encode demo_crypto (to_script_pubkey covenant) = pc_covenant_script_pubkey_hex (pr_precommitment prep) \<longrightarrow>
       (\<exists>m. build_ctv_fanout_manifest_from_precommitment demo_crypto demo_to_vec (pr_precommitment prep) parent_hex n = Inr m \<and>
          verify_ctv_fanout_manifest_structure demo_crypto demo_to_vec m = Inr ())"
    by blast
  have sats: "pr_covenant_output_value_sats prep = 806" by (simp add: prep(2) outs(2,3))
  obtain covenant where cov: "to_amount_sats covenant = pr_covenant_output_value_sats prep" "tx_out_ok covenant"
    "hex_encode demo_crypto (to_script_pubkey covenant) = pc_covenant_script_pubkey_hex (pr_precommitment prep)"
    by (rule covenant_output_exists[OF laws(1,3) prep(1)]) (use sats in \<open>simp_all add: QBIT_MAX_MONEY_SATS_def\<close>)
  obtain parent_hex parent where "\<forall>field. parse_transaction_hex demo_crypto parent_hex field = Inr parent"
    "ensure_coinbase_shape parent = Inr ()" "vec_get (pt_outputs parent) 0 = Some covenant"
    by (rule coinbase_with_output[OF laws(1,2) cov(2)])
  with fin cov have "\<exists>m. build_ctv_fanout_manifest_from_precommitment demo_crypto demo_to_vec (pr_precommitment prep) parent_hex 0 = Inr m \<and>
          verify_ctv_fanout_manifest_structure demo_crypto demo_to_vec m = Inr ()" by (metis zero_less_numeral zero_less_power)
  with prep(1) sats show ?thesis by blast
qed

lemma demo_manifest:
  obtains prep m where "prepare_ctv_fanout_precommitment demo_crypto demo_to_vec demo_fanout_input = Inr prep"
    "verify_ctv_fanout_manifest_structure demo_crypto demo_to_vec m = Inr ()" "cm_precommitment m = pr_precommitment prep"
proof -
  note laws = demo_crypto_hex demo_crypto_hex_text demo_crypto_sha
  obtain outs where outs: "canonical_fanout_outputs demo_crypto (ci_payouts demo_fanout_input) = Inr outs"
    "map fo_amount_sats outs = [300, 500]" "map fo_fee_sats outs = [3, 3]" by (rule demo_input_outputs)
  have small: "sum_list (map fo_amount_sats outs) + sum_list (map fo_fee_sats outs) \<le> QBIT_MAX_MONEY_SATS"
    "length outs < 2 ^ 32 - 1" "ci_chunk_index demo_fanout_input < 2 ^ 31" "\<forall>p. \<exists>bytes. demo_to_vec p = Inr bytes"
    using map_eq_imp_length_eq[of fo_amount_sats outs "\<lambda>n. n" "[300, 500]"] outs(2)
    by (simp_all add: outs(2,3) QBIT_MAX_MONEY_SATS_def demo_fanout_input_def demo_to_vec_def)
  obtain prep where prep: "prepare_ctv_fanout_precommitment demo_crypto demo_to_vec demo_fanout_input = Inr prep"
    "pr_covenant_output_value_sats prep = sum_list (map fo_amount_sats outs) + sum_list (map fo_fee_sats outs)"
    by (rule prepare_ok[OF laws small(4) demo_input_valid outs(1) small(1-3)])
  obtain covenant where cov: "to_amount_sats covenant = pr_covenant_output_value_sats prep" "tx_out_ok covenant"
    "hex_encode demo_crypto (to_script_pubkey covenant) = pc_covenant_script_pubkey_hex (pr_precommitment prep)"
    by (rule covenant_output_exists[OF laws(1,3) prep(1)]) (use prep(2) small(1) in simp_all)
  obtain parent_hex parent where "\<forall>field. parse_transaction_hex demo_crypto parent_hex field = Inr parent"
    and parent: "ensure_coinbase_shape parent = Inr ()" "vec_get (pt_outputs parent) 0 = Some covenant"
    by (rule coinbase_with_output[OF laws(1,2) cov(2)])
  then have "parse_transaction_hex demo_crypto parent_hex ''coinbase'' = Inr parent" by blast
  then show thesis
    by (rule finish_prepared[OF laws prep(1) refl _ parent cov(1,3)]) (auto intro: that prep(1))
qed

text \<open>C21. What a verified manifest promises. The parent has the shape of a coinbase and holds the
  covenant output; its script commits to the template hash of the fan-out, which spends exactly that output with
  the leaf script and control block as witness; the fan-out pays every recorded output its
  amount in order, then the zero-valued anchor when there is no fee, and what the outputs leave of the
  covenant output is the recorded fee.\<close>

theorem verified_fanout_pays:
  assumes hex: "hex_law X" and ver: "verify_ctv_fanout_manifest_structure X to_vec m = Inr ()"
  shows "\<exists>parent fanout covenant h payouts anchors.
    parse_transaction_hex X (cm_parent_coinbase_tx_hex m) ''manifest parent_coinbase_tx_hex'' = Inr parent \<and>
    parse_transaction_hex X (cm_fanout_tx_hex m) ''manifest fanout_tx_hex'' = Inr fanout \<and>
    ensure_coinbase_shape parent = Inr () \<and>
    vec_get (pt_outputs parent) (cm_parent_coinbase_vout m) = Some covenant \<and>
    default_ctv_hash_for_parsed_tx X fanout 0 = Inr h \<and>
    to_script_pubkey covenant = p2mr_script_pubkey (p2mr_tapleaf_hash X (ctv_leaf_script h)) \<and>
    (\<exists>input. pt_inputs fanout = [input] \<and> ti_prev_txid_hex input = txid_hex X parent \<and>
       ti_prev_vout input = cm_parent_coinbase_vout m \<and> ti_script_sig input = []) \<and>
    pt_witness_stacks fanout = Some [[ctv_leaf_script h, [QBIT_P2MR_CONTROL_BLOCK]]] \<and>
    pt_outputs fanout = payouts @ anchors \<and> list_all2 (pays X) (pc_outputs (cm_precommitment m)) payouts \<and>
    (pc_fanout_fee_sats (cm_precommitment m) = 0 \<longrightarrow> length anchors = 1) \<and>
    (pc_fanout_fee_sats (cm_precommitment m) \<noteq> 0 \<longrightarrow> anchors = []) \<and>
    sum_list (map to_amount_sats (pt_outputs fanout)) + pc_fanout_fee_sats (cm_precommitment m) = to_amount_sats covenant"
proof -
  obtain template fanout where pre: "verify_precommitment X (cm_precommitment m) = Inr ()"
    and fields: "verify_manifest_fields X to_vec m = Inr ()" and cov: "verify_covenant_output X m = Inr ()"
    and f: "parse_transaction_hex X (cm_fanout_tx_hex m) ''manifest fanout_tx_hex'' = Inr fanout"
    and inp: "verify_fanout_input X m fanout = Inr ()" and commit: "verify_ctv_commitment X m template fanout = Inr ()"
    and outs: "verify_fanout_outputs X m fanout = Inr ()"
    by (rule verify_structure_Inr[OF ver])
  obtain parent covenant where
    parent: "parse_transaction_hex X (cm_parent_coinbase_tx_hex m) ''manifest parent_coinbase_tx_hex'' = Inr parent"
    "ensure_coinbase_shape parent = Inr ()" "txid_hex X parent = cm_parent_coinbase_txid m"
    "vec_get (pt_outputs parent) (cm_parent_coinbase_vout m) = Some covenant"
    "to_amount_sats covenant = cm_covenant_output_value_sats m"
    "hex_encode X (to_script_pubkey covenant) = cm_covenant_script_pubkey_hex m"
    by (rule verify_covenant_output_Inr[OF cov])
  obtain h stacks where h: "default_ctv_hash_for_parsed_tx X fanout 0 = Inr h"
    "hex_encode X (p2mr_script_pubkey (p2mr_tapleaf_hash X (ctv_leaf_script h))) = cm_covenant_script_pubkey_hex m"
    "pt_witness_stacks fanout = Some stacks" "0 < length stacks"
    "stacks ! 0 = [ctv_leaf_script h, [QBIT_P2MR_CONTROL_BLOCK]]"
    by (rule verify_ctv_commitment_Inr[OF commit verify_manifest_fields_Inr(1)[OF fields]])
  obtain input where input: "pt_inputs fanout = [input]" "ti_script_sig input = []"
    "ti_prev_txid_hex input = cm_parent_coinbase_txid m" "ti_prev_vout input = cm_parent_coinbase_vout m"
    using verify_fanout_input_Inr(1)[OF inp] by blast
  have "length stacks = 1" using parsed_stack_count[OF hex f h(3)] input(1) by simp
  with h(5) have "stacks = [[ctv_leaf_script h, [QBIT_P2MR_CONTROL_BLOCK]]]" by (cases stacks) auto
  moreover have "to_script_pubkey covenant = p2mr_script_pubkey (p2mr_tapleaf_hash X (ctv_leaf_script h))"
    using parent(6) h(2) hex_encode_inj[OF hex] by metis
  moreover obtain payouts anchors where "pt_outputs fanout = payouts @ anchors"
    "list_all2 (pays X) (pc_outputs (cm_precommitment m)) payouts"
    "pc_fanout_fee_sats (cm_precommitment m) = 0 \<longrightarrow> length anchors = 1"
    "pc_fanout_fee_sats (cm_precommitment m) \<noteq> 0 \<longrightarrow> anchors = []"
    "sum_list (map to_amount_sats (pt_outputs fanout)) + pc_fanout_fee_sats (cm_precommitment m) = to_amount_sats covenant"
    using verify_fanout_outputs_Inr[OF outs refl verify_precommitment_anchor[OF pre]] parent(5)
    by (auto split: if_splits)
  ultimately show ?thesis
    using parent f h(1,3) input by (intro exI[of _ parent] exI[of _ fanout] exI[of _ covenant] exI[of _ h]
      exI[of _ payouts] exI[of _ anchors]) simp
qed

theorem verified_fanout_pays_witness:
  "\<exists>prep (m :: CtvFanoutManifest) fanout. prepare_ctv_fanout_precommitment demo_crypto demo_to_vec demo_fanout_input = Inr prep \<and>
     cm_precommitment m = pr_precommitment prep \<and>
     parse_transaction_hex demo_crypto (cm_fanout_tx_hex m) ''manifest fanout_tx_hex'' = Inr fanout \<and> length (pt_inputs fanout) = 1"
proof -
  obtain prep m where m: "prepare_ctv_fanout_precommitment demo_crypto demo_to_vec demo_fanout_input = Inr prep"
    "verify_ctv_fanout_manifest_structure demo_crypto demo_to_vec m = Inr ()" "cm_precommitment m = pr_precommitment prep"
    by (rule demo_manifest)
  from verified_fanout_pays[OF demo_crypto_hex m(2)] obtain fanout input where
    "parse_transaction_hex demo_crypto (cm_fanout_tx_hex m) ''manifest fanout_tx_hex'' = Inr fanout" "pt_inputs fanout = [input]"
    by blast
  moreover from this(2) have "length (pt_inputs fanout) = 1" by simp
  ultimately show ?thesis using m by blast
qed

text \<open>C22. The template hash binds everything that decides who is paid. Two transactions with the same
  template hash have the same version, lock time, input count, script signatures, sequences, outputs and input
  index, unless two of the strings hashed on the way collide; and a transaction that differs only in the
  outpoints it spends and in its witness has the same hash.\<close>

theorem ctv_hash_binds_outputs:
  assumes laws: "hex_law X" "sha_law X"
    and tx: "parse_transaction_hex X s field = Inr tx" "parse_transaction_hex X s' field' = Inr tx'"
    and h: "default_ctv_hash_for_parsed_tx X tx i = Inr h"
    and inj: "inj_on (sha256 X) (ctv_hashed X tx i \<union> ctv_hashed X tx' i')"
  shows "default_ctv_hash_for_parsed_tx X tx' i' = Inr h \<longleftrightarrow>
    pt_version tx = pt_version tx' \<and> pt_lock_time tx = pt_lock_time tx' \<and> i = i' \<and>
    map ti_script_sig (pt_inputs tx) = map ti_script_sig (pt_inputs tx') \<and>
    map ti_sequence (pt_inputs tx) = map ti_sequence (pt_inputs tx') \<and> pt_outputs tx = pt_outputs tx'"
proof
  assume "default_ctv_hash_for_parsed_tx X tx' i' = Inr h"
  from ctv_hash_binding[OF laws(2) parsed_tx_ok[OF laws(1) tx(1)] parsed_tx_ok[OF laws(1) tx(2)] h this inj]
  show "pt_version tx = pt_version tx' \<and> pt_lock_time tx = pt_lock_time tx' \<and> i = i' \<and>
    map ti_script_sig (pt_inputs tx) = map ti_script_sig (pt_inputs tx') \<and>
    map ti_sequence (pt_inputs tx) = map ti_sequence (pt_inputs tx') \<and> pt_outputs tx = pt_outputs tx'" .
next
  assume "pt_version tx = pt_version tx' \<and> pt_lock_time tx = pt_lock_time tx' \<and> i = i' \<and>
    map ti_script_sig (pt_inputs tx) = map ti_script_sig (pt_inputs tx') \<and>
    map ti_sequence (pt_inputs tx) = map ti_sequence (pt_inputs tx') \<and> pt_outputs tx = pt_outputs tx'"
  with ctv_hash_cong[of tx tx' X i] h show "default_ctv_hash_for_parsed_tx X tx' i' = Inr h" by simp
qed

text \<open>The example transactions of the codec, spending two different outpoints.\<close>

definition demo_parsed :: "nat \<Rightarrow> ParsedTransaction" where
  "demo_parsed n = \<lparr> pt_version = 3, pt_inputs = [ParsedTxIn.truncate (demo_tx_in \<lparr> ti_prev_vout := n \<rparr>)],
     pt_outputs = [demo_tx_out], pt_lock_time = 101, pt_witness_stacks = None,
     pt_tx_without_witness = tx_bytes demo_crypto 3 [] [demo_tx_in \<lparr> ti_prev_vout := n \<rparr>] [demo_tx_out] [] 101 \<rparr>"

lemma demo_parsed_hex: "n < 2 ^ 32 \<Longrightarrow> \<exists>s. parse_transaction_hex demo_crypto s ''tx'' = Inr (demo_parsed n)"
proof -
  assume n: "n < 2 ^ 32"
  have "tx_parts_ok demo_crypto [demo_tx_in \<lparr> ti_prev_vout := n \<rparr>] [demo_tx_out]"
    using demo_tx_ok n by (simp add: tx_parts_ok_def tx_in_ok_def prev_txid_bytes_def)
  from serialize_parse[OF demo_crypto_hex this, of 3 101 False] show ?thesis
    by (auto simp: demo_parsed_def demo_tx_in_def stack_ok_def)
qed

lemma demo_no_collision:
  "inj_on (sha256 demo_crypto) (ctv_hashed demo_crypto (demo_parsed 1) 0 \<union> ctv_hashed demo_crypto (demo_parsed 2) 0)"
proof -
  let ?xs = "[ctv_scripts (demo_parsed 1), ctv_sequences (demo_parsed 1), ctv_outputs (demo_parsed 1),
    ctv_preimage demo_crypto (demo_parsed 1) 1 1 0]"
  have "ctv_hashed demo_crypto (demo_parsed 1) 0 \<union> ctv_hashed demo_crypto (demo_parsed 2) 0 = set ?xs"
    by (auto simp: ctv_hashed_def demo_parsed_def ctv_scripts_def ctv_sequences_def ctv_outputs_def ctv_preimage_def
        ParsedTxIn.truncate_def)
  moreover have "distinct (map (sha256 demo_crypto) ?xs)" by code_simp
  ultimately show ?thesis by (simp only: distinct_map)
qed

theorem ctv_hash_binds_outputs_witness:
  "default_ctv_hash_for_parsed_tx demo_crypto (demo_parsed 2) 0 = default_ctv_hash_for_parsed_tx demo_crypto (demo_parsed 1) 0"
proof -
  obtain s s' where "parse_transaction_hex demo_crypto s ''tx'' = Inr (demo_parsed 1)"
    "parse_transaction_hex demo_crypto s' ''tx'' = Inr (demo_parsed 2)"
    using demo_parsed_hex[of 1] demo_parsed_hex[of 2] by auto
  moreover obtain h where h: "default_ctv_hash_for_parsed_tx demo_crypto (demo_parsed 1) 0 = Inr h"
    by (simp add: ctv_hash_Inr demo_parsed_def)
  ultimately have "default_ctv_hash_for_parsed_tx demo_crypto (demo_parsed 2) 0 = Inr h"
    using ctv_hash_binds_outputs[OF demo_crypto_hex demo_crypto_sha _ _ h demo_no_collision, of s "''tx''" s' "''tx''"]
    by (simp add: demo_parsed_def ParsedTxIn.truncate_def)
  with h show ?thesis by simp
qed

lemma verified_set_chunks:
  assumes ver: "\<forall>m\<in>set mans. verify_ctv_fanout_manifest_structure X to_vec m = Inr ()"
    and idx: "map (\<lambda>m. pc_chunk_index (cm_precommitment m)) mans = map (\<lambda>i. i mod 2 ^ 32) [0..<length mans]"
  shows "map (\<lambda>m. pc_chunk_index (cm_precommitment m)) mans = [0..<length mans]"
proof -
  have nth: "pc_chunk_index (cm_precommitment (mans ! i)) = i mod 2 ^ 32" if "i < length mans" for i
    using arg_cong[OF idx, of "\<lambda>l. l ! i"] that by simp
  have "length mans \<le> 2 ^ 31"
  proof (rule ccontr)
    assume "\<not> length mans \<le> 2 ^ 31"
    then have l: "2 ^ 31 < length mans" by simp
    with ver have "verify_ctv_fanout_manifest_structure X to_vec (mans ! (2 ^ 31)) = Inr ()" using nth_mem by blast
    with verified_chunk_bound[OF this] nth[OF l] show False by simp
  qed
  then show ?thesis unfolding idx by (intro map_idI) auto
qed

lemma singleton_set_verifies:
  assumes laws: "hex_law X" "sha_law X" and ver: "verify_ctv_fanout_manifest_structure X to_vec m = Inr ()"
    and one: "pc_chunk_count (cm_precommitment m) = 1"
  shows "\<exists>ms. build_ctv_fanout_manifest_set X to_vec [m] = Inr ms \<and> ms_manifests ms = [m]"
proof -
  let ?p = "cm_precommitment m"
  obtain pre: "verify_precommitment X ?p = Inr ()" and man: "verify_manifest_fields X to_vec m = Inr ()"
    and cov: "verify_covenant_output X m = Inr ()" by (rule verify_structure_Inr[OF ver])
  note v = verify_precommitment_Inr[OF pre]
  note f = verify_precommitment_fields_Inr[OF v(1)]
  have mode: "pc_settlement_mode ?p \<noteq> DirectCoinbase"
    using man by (simp add: verify_manifest_fields_def Let_def checks_Inr reject_if_Inr)
  have val: "cm_covenant_output_value_sats m = pc_fanout_output_sum_sats ?p + pc_fanout_fee_sats ?p"
    using cov v(5) by (auto simp: verify_covenant_output_def Let_def rbind_Inr checks_Inr reject_if_Inr)
  have txid: "\<exists>b. hex_decode X (cm_parent_coinbase_txid m) = Inr b \<and> length b = 32 \<and> cm_parent_coinbase_txid m = hex_encode X b"
    using man unfolding verify_manifest_fields_def Let_def checks_Inr by (simp add: validate_hex_Inr)
  have valid: "validate_canonical_sha256_hex X (cm_parent_coinbase_txid m) field = Inr ()"
    "validate_canonical_sha256_hex X (pc_reward_manifest_sha256_hex ?p) field = Inr ()"
    "validate_canonical_sha256_hex X (pc_payout_policy_manifest_sha256_hex ?p) field = Inr ()" for field
    using txid f(5,6) hex_decode_encode[OF laws(1)] by (auto simp: validate_hex_Inr)
  have small: "pc_fanout_output_sum_sats ?p < 2 ^ 64" "pc_fanout_fee_sats ?p < 2 ^ 64" using v(6) by simp_all
  show ?thesis
    unfolding build_ctv_fanout_manifest_set_def Let_def verify_ctv_fanout_manifest_set_def verify_set_member_def
      fanout_sum_def try_sum_def
    using ver one f(2) mode val v(6) small
    by (simp add: checked_add_def try_from_def no_totals_def checks_def valid)
qed

text \<open>C38. A verified set is complete and has no doubles: its manifests all verify, belong to one coinbase
  and one block, are numbered 0 to n - 1 with n as every chunk count, spend different outputs of the coinbase by
  different transactions under different witness leaves, and the recorded totals are the sums
  over the manifests with payouts and fees adding up to the covenant value.\<close>

theorem manifest_set_complete:
  assumes "verify_ctv_fanout_manifest_set X to_vec ms = Inr ()"
  shows "(\<forall>m\<in>set (ms_manifests ms). verify_ctv_fanout_manifest_structure X to_vec m = Inr () \<and>
      cm_parent_coinbase_txid m = ms_parent_coinbase_txid ms \<and> pc_block_height (cm_precommitment m) = ms_block_height ms \<and>
      pc_chunk_count (cm_precommitment m) = length (ms_manifests ms)) \<and>
    map (\<lambda>m. pc_chunk_index (cm_precommitment m)) (ms_manifests ms) = [0..<length (ms_manifests ms)] \<and>
    distinct (map cm_parent_coinbase_vout (ms_manifests ms)) \<and> distinct (map cm_fanout_txid (ms_manifests ms)) \<and>
    distinct (map cm_commitment_witness_leaf_hex (ms_manifests ms)) \<and>
    ms_fanout_output_sum_sats ms = sum_list (map (\<lambda>m. pc_fanout_output_sum_sats (cm_precommitment m)) (ms_manifests ms)) \<and>
    ms_fanout_fee_sats ms = sum_list (map (\<lambda>m. pc_fanout_fee_sats (cm_precommitment m)) (ms_manifests ms)) \<and>
    ms_covenant_output_value_sats ms = sum_list (map cm_covenant_output_value_sats (ms_manifests ms)) \<and>
    ms_fanout_output_sum_sats ms + ms_fanout_fee_sats ms = ms_covenant_output_value_sats ms"
proof -
  obtain st where fold: "rfold (verify_set_member X to_vec ms) no_totals (enumerate 0 (ms_manifests ms)) = Inr st"
    and tot: "ms_fanout_count ms = length (ms_manifests ms)" "ms_fanout_output_sum_sats ms = st_sum st"
      "ms_fanout_fee_sats ms = st_fee st" "ms_covenant_output_value_sats ms = st_value st" "st_sum st + st_fee st = st_value st"
    by (rule verify_set_Inr[OF assms])
  note all = verify_set_fold[OF fold]
  then have "map (\<lambda>m. pc_chunk_index (cm_precommitment m)) (ms_manifests ms) = [0..<length (ms_manifests ms)]"
    by (intro verified_set_chunks[of _ X to_vec]) simp_all
  with all tot show ?thesis by (simp add: no_totals_def)
qed

theorem manifest_set_complete_witness:
  "\<exists>m ms. build_ctv_fanout_manifest_set demo_crypto demo_to_vec [m] = Inr ms \<and>
     ms_fanout_output_sum_sats ms + ms_fanout_fee_sats ms = ms_covenant_output_value_sats ms"
proof -
  obtain prep m where prep: "prepare_ctv_fanout_precommitment demo_crypto demo_to_vec demo_fanout_input = Inr prep"
    and m: "verify_ctv_fanout_manifest_structure demo_crypto demo_to_vec m = Inr ()" "cm_precommitment m = pr_precommitment prep"
    by (rule demo_manifest)
  have "pc_chunk_count (pr_precommitment prep) = 1"
    using prep unfolding prepare_ctv_fanout_precommitment_def Let_def by (auto simp: rbind_Inr demo_fanout_input_def)
  then obtain ms where ms: "build_ctv_fanout_manifest_set demo_crypto demo_to_vec [m] = Inr ms"
    using singleton_set_verifies[OF demo_crypto_hex demo_crypto_sha m(1)] m(2) by auto
  then have "verify_ctv_fanout_manifest_set demo_crypto demo_to_vec ms = Inr ()"
    by (auto simp: build_ctv_fanout_manifest_set_def Let_def rbind_Inr)
  from manifest_set_complete[OF this] ms show ?thesis by blast
qed

end
