(* ===== verification/Chunk_Pool.thy ===== *)
theory Chunk_Pool
  imports Prism_Base
begin

text \<open>
  Ordered chunks (\<^verbatim>\<open>ordered_chunks\<close> of \<^verbatim>\<open>src/crates/qbit-prism/src/parallel.rs\<close>): chunks are produced on the builder pool and
  consumed in index order on the calling thread. The loop without a pool is a function. With a pool, a run is a sequence of
  steps of the calling thread, one per section under the lock, and of jobs, which finish in any order. The state the consumer
  closure captures is passed along. Producers that panic are left out.
\<close>

section \<open>Without a pool\<close>

definition chunk_step :: "(usize \<Rightarrow> 'e + 'c) \<Rightarrow> ('s \<Rightarrow> usize \<Rightarrow> 'c \<Rightarrow> 'e + 's) \<Rightarrow> 's \<Rightarrow> usize \<Rightarrow> 'e + 's" where
  "chunk_step produce consume st index = rbind (produce index) (\<lambda>chunk. consume st index chunk)"

definition ordered_chunks :: "usize \<Rightarrow> (usize \<Rightarrow> 'e + 'c) \<Rightarrow> ('s \<Rightarrow> usize \<Rightarrow> 'c \<Rightarrow> 'e + 's) \<Rightarrow> 's \<Rightarrow> 'e + 's" where
  "ordered_chunks n produce consume st = rfold (chunk_step produce consume) st [0..<n]"

section \<open>With a pool\<close>

datatype ('c, 'e, 's) ChunkPhase = Submitting | Waiting | Consuming 'c | Draining | Returned "'e + 's"

text \<open>The shared state, the jobs that are submitted and not finished, and the locals of the calling thread.\<close>

record ('c, 'e, 's) PoolRun =
  pr_ready :: "usize \<rightharpoonup> 'c"
  pr_failed :: "'e option"
  pr_outstanding :: usize
  pr_jobs :: "usize list"
  pr_next :: usize
  pr_index :: usize
  pr_consumer :: 's
  pr_phase :: "('c, 'e, 's) ChunkPhase"

definition stopping :: "('c, 'e, 's) PoolRun \<Rightarrow> bool" where
  "stopping run \<longleftrightarrow> pr_failed run \<noteq> None"

definition get_or_insert :: "'e option \<Rightarrow> 'e \<Rightarrow> 'e option" where
  "get_or_insert failed e = (case failed of None \<Rightarrow> Some e | Some first \<Rightarrow> Some first)"

definition max_inflight :: "usize \<Rightarrow> usize \<Rightarrow> usize" where
  "max_inflight workers n = min (max workers 1) n * 2"

function submit_ahead :: "usize \<Rightarrow> usize \<Rightarrow> ('c, 'e, 's) PoolRun \<Rightarrow> ('c, 'e, 's) PoolRun" where
  "submit_ahead n inflight run =
     (if pr_next run < n \<and> pr_next run - pr_index run < inflight \<and> \<not> stopping run
      then submit_ahead n inflight (run \<lparr> pr_outstanding := pr_outstanding run + 1, pr_next := pr_next run + 1,
             pr_jobs := pr_jobs run @ [pr_next run] \<rparr>)
      else run)"
  by pat_completeness auto
termination
  by (relation "measure (\<lambda>(n, inflight, run). n - pr_next run)") auto

declare submit_ahead.simps [simp del]

definition finish_job :: "(usize \<Rightarrow> 'e + 'c) \<Rightarrow> usize \<Rightarrow> ('c, 'e, 's) PoolRun \<Rightarrow> ('c, 'e, 's) PoolRun" where
  "finish_job produce submitted run =
     (let run = (case produce submitted of
            Inr chunk \<Rightarrow> run \<lparr> pr_ready := (pr_ready run)(submitted \<mapsto> chunk) \<rparr>
          | Inl e \<Rightarrow> run \<lparr> pr_failed := get_or_insert (pr_failed run) e \<rparr>) in
      run \<lparr> pr_outstanding := pr_outstanding run - 1, pr_jobs := remove1 submitted (pr_jobs run) \<rparr>)"

definition take_chunk :: "('c, 'e, 's) PoolRun \<Rightarrow> ('c, 'e, 's) PoolRun option" where
  "take_chunk run =
     (case pr_ready run (pr_index run) of
        Some chunk \<Rightarrow> Some (run \<lparr> pr_ready := (pr_ready run)(pr_index run := None), pr_phase := Consuming chunk \<rparr>)
      | None \<Rightarrow> if stopping run then Some (run \<lparr> pr_phase := Draining \<rparr>) else None)"

definition consume_chunk ::
  "usize \<Rightarrow> ('s \<Rightarrow> usize \<Rightarrow> 'c \<Rightarrow> 'e + 's) \<Rightarrow> 'c \<Rightarrow> ('c, 'e, 's) PoolRun \<Rightarrow> ('c, 'e, 's) PoolRun" where
  "consume_chunk n consume chunk run =
     (case consume (pr_consumer run) (pr_index run) chunk of
        Inl e \<Rightarrow> run \<lparr> pr_failed := get_or_insert (pr_failed run) e, pr_phase := Draining \<rparr>
      | Inr st \<Rightarrow> run \<lparr> pr_consumer := st, pr_index := pr_index run + 1,
                        pr_phase := (if pr_index run + 1 < n then Submitting else Draining) \<rparr>)"

definition settle :: "('c, 'e, 's) PoolRun \<Rightarrow> ('c, 'e, 's) PoolRun option" where
  "settle run =
     (if pr_outstanding run > 0 then None
      else Some (run \<lparr> pr_phase := Returned (case pr_failed run of Some e \<Rightarrow> Inl e | None \<Rightarrow> Inr (pr_consumer run)),
                      pr_failed := None, pr_ready := Map.empty \<rparr>))"

text \<open>The next section of the calling thread; \<^verbatim>\<open>None\<close> while it waits for a job, and once it has returned.\<close>

definition calling_thread ::
  "usize \<Rightarrow> usize \<Rightarrow> ('s \<Rightarrow> usize \<Rightarrow> 'c \<Rightarrow> 'e + 's) \<Rightarrow> ('c, 'e, 's) PoolRun \<Rightarrow> ('c, 'e, 's) PoolRun option" where
  "calling_thread n workers consume run =
     (case pr_phase run of
        Submitting \<Rightarrow> Some ((submit_ahead n (max_inflight workers n) run) \<lparr> pr_phase := Waiting \<rparr>)
      | Waiting \<Rightarrow> take_chunk run
      | Consuming chunk \<Rightarrow> Some (consume_chunk n consume chunk run)
      | Draining \<Rightarrow> settle run
      | Returned _ \<Rightarrow> None)"

definition pool_start :: "usize \<Rightarrow> 's \<Rightarrow> ('c, 'e, 's) PoolRun" where
  "pool_start n st = \<lparr> pr_ready = Map.empty, pr_failed = None, pr_outstanding = 0, pr_jobs = [], pr_next = 0, pr_index = 0,
     pr_consumer = st, pr_phase = (if n = 0 then Returned (Inr st) else Submitting) \<rparr>"

inductive pool_step ::
  "usize \<Rightarrow> usize \<Rightarrow> (usize \<Rightarrow> 'e + 'c) \<Rightarrow> ('s \<Rightarrow> usize \<Rightarrow> 'c \<Rightarrow> 'e + 's) \<Rightarrow> ('c, 'e, 's) PoolRun \<Rightarrow> ('c, 'e, 's) PoolRun \<Rightarrow> bool"
  for n workers produce consume where
  caller: "calling_thread n workers consume run = Some run' \<Longrightarrow> pool_step n workers produce consume run run'"
| job: "j \<in> set (pr_jobs run) \<Longrightarrow> pool_step n workers produce consume run (finish_job produce j run)"

section \<open>The invariant of a run\<close>

text \<open>The indices submitted and not taken by the consumer.\<close>

definition awaited :: "('c, 'e, 's) PoolRun \<Rightarrow> usize set" where
  "awaited run = {(case pr_phase run of Consuming _ \<Rightarrow> pr_index run + 1 | _ \<Rightarrow> pr_index run)..<pr_next run}"

definition jobs_ok :: "(usize \<Rightarrow> 'e + 'c) \<Rightarrow> ('c, 'e, 's) PoolRun \<Rightarrow> bool" where
  "jobs_ok produce run \<longleftrightarrow>
     distinct (pr_jobs run) \<and> set (pr_jobs run) \<subseteq> awaited run \<and> pr_outstanding run = length (pr_jobs run) \<and>
     (\<forall>j c. pr_ready run j = Some c \<longrightarrow> produce j = Inr c \<and> j \<in> awaited run \<and> j \<notin> set (pr_jobs run)) \<and>
     (\<forall>j \<in> awaited run. j \<in> set (pr_jobs run) \<or> pr_ready run j \<noteq> None \<or> pr_failed run \<noteq> None)"

definition phase_ok :: "usize \<Rightarrow> (usize \<Rightarrow> 'e + 'c) \<Rightarrow> ('c, 'e, 's) PoolRun \<Rightarrow> bool" where
  "phase_ok n produce run \<longleftrightarrow>
     (case pr_phase run of
        Submitting \<Rightarrow> pr_index run < n
      | Waiting \<Rightarrow> pr_index run < n \<and> (pr_failed run = None \<longrightarrow> pr_index run < pr_next run)
      | Consuming c \<Rightarrow> pr_index run < pr_next run \<and> produce (pr_index run) = Inr c
      | Draining \<Rightarrow> pr_failed run = None \<longrightarrow> pr_index run = n
      | Returned _ \<Rightarrow> False)"

definition run_ok ::
  "usize \<Rightarrow> usize \<Rightarrow> (usize \<Rightarrow> 'e + 'c) \<Rightarrow> ('s \<Rightarrow> usize \<Rightarrow> 'c \<Rightarrow> 'e + 's) \<Rightarrow> 's \<Rightarrow> ('c, 'e, 's) PoolRun \<Rightarrow> bool" where
  "run_ok n workers produce consume st run \<longleftrightarrow>
     pr_index run \<le> pr_next run \<and> pr_next run \<le> n \<and> pr_next run \<le> pr_index run + max_inflight workers n \<and>
     jobs_ok produce run \<and> phase_ok n produce run \<and>
     rfold (chunk_step produce consume) st [0..<pr_index run] = Inr (pr_consumer run) \<and>
     (pr_failed run \<noteq> None \<longrightarrow> \<not> is_ok (ordered_chunks n produce consume st))"

definition pool_inv ::
  "usize \<Rightarrow> usize \<Rightarrow> (usize \<Rightarrow> 'e + 'c) \<Rightarrow> ('s \<Rightarrow> usize \<Rightarrow> 'c \<Rightarrow> 'e + 's) \<Rightarrow> 's \<Rightarrow> ('c, 'e, 's) PoolRun \<Rightarrow> bool" where
  "pool_inv n workers produce consume st run \<longleftrightarrow>
     (case pr_phase run of
        Returned res \<Rightarrow> pr_jobs run = [] \<and> pr_next run \<le> pr_index run + max_inflight workers n \<and>
          (\<forall>out. res = Inr out \<longleftrightarrow> ordered_chunks n produce consume st = Inr out)
      | _ \<Rightarrow> run_ok n workers produce consume st run)"

lemma ordered_chunks_split:
  assumes "rfold (chunk_step produce consume) st [0..<i] = Inr s" and "i < n"
  shows "ordered_chunks n produce consume st =
    rbind (chunk_step produce consume s i) (\<lambda>s. rfold (chunk_step produce consume) s [Suc i..<n])"
proof -
  have "[0..<n] = [0..<i] @ i # [Suc i..<n]"
    using assms(2) by (metis le0 less_imp_le le_add_diff_inverse upt_add_eq_append upt_conv_Cons)
  then show ?thesis using assms(1) by (simp add: ordered_chunks_def rfold_append)
qed

text \<open>The loop succeeds only when every chunk is produced.\<close>

lemma rfold_produced: "rfold (chunk_step produce consume) st js = Inr s \<Longrightarrow> j \<in> set js \<Longrightarrow> is_ok (produce j)"
  by (induction js arbitrary: st) (auto simp: chunk_step_def res_simps is_ok_iff)

lemma failed_producer: "produce j = Inl e \<Longrightarrow> j < n \<Longrightarrow> \<not> is_ok (ordered_chunks n produce consume st)"
  using rfold_produced[of produce consume st "[0..<n]" _ j] by (auto simp: ordered_chunks_def is_ok_iff)

lemma get_or_insert_Some [simp]: "get_or_insert failed e \<noteq> None" "get_or_insert failed e = None \<longleftrightarrow> False"
  by (auto simp: get_or_insert_def split: option.split)

section \<open>Every step keeps it\<close>

lemma submit_ahead_frame:
  "pr_phase (submit_ahead n k run) = pr_phase run \<and> pr_index (submit_ahead n k run) = pr_index run \<and>
   pr_failed (submit_ahead n k run) = pr_failed run \<and>
   (pr_failed run = None \<and> pr_index run < n \<and> 0 < k \<longrightarrow> pr_index run < pr_next (submit_ahead n k run)) \<and>
   2 * (n - pr_next (submit_ahead n k run)) + length (pr_jobs (submit_ahead n k run)) \<le> 2 * (n - pr_next run) + length (pr_jobs run)"
proof (induction n k run rule: submit_ahead.induct)
  case (1 n k run)
  show ?case
  proof (cases "pr_next run < n \<and> pr_next run - pr_index run < k \<and> \<not> stopping run")
    case True
    then show ?thesis using 1 by (subst (1 2 3 4 5 6) submit_ahead.simps) auto
  next
    case False
    then show ?thesis by (subst (1 2 3 4 5 6) submit_ahead.simps) (auto simp: stopping_def)
  qed
qed

lemma submit_ahead_ok:
  assumes "run_ok n workers produce consume st run" "pr_phase run = Submitting"
  shows "run_ok n workers produce consume st (submit_ahead n (max_inflight workers n) run)"
  using assms
proof (induction n "max_inflight workers n" run rule: submit_ahead.induct)
  case (1 n run)
  show ?case
  proof (cases "pr_next run < n \<and> pr_next run - pr_index run < max_inflight workers n \<and> \<not> stopping run")
    case True
    let ?run = "run \<lparr> pr_outstanding := pr_outstanding run + 1, pr_next := pr_next run + 1, pr_jobs := pr_jobs run @ [pr_next run] \<rparr>"
    have "run_ok n workers produce consume st ?run"
      using 1(2,3) True by (auto simp: run_ok_def jobs_ok_def phase_ok_def awaited_def less_Suc_eq)
    then show ?thesis using 1(1)[OF True] 1(3) True by (simp add: submit_ahead.simps[of n _ run])
  next
    case False
    then show ?thesis using 1(2) by (subst submit_ahead.simps) auto
  qed
qed

lemma finish_job_frame [simp]:
  "pr_phase (finish_job produce j run) = pr_phase run" "pr_index (finish_job produce j run) = pr_index run"
  "pr_next (finish_job produce j run) = pr_next run" "pr_consumer (finish_job produce j run) = pr_consumer run"
  "pr_jobs (finish_job produce j run) = remove1 j (pr_jobs run)"
  "pr_outstanding (finish_job produce j run) = pr_outstanding run - 1"
  by (auto simp: finish_job_def Let_def split: sum.split)

lemma finish_job_shared:
  "pr_ready (finish_job produce j run) = (case produce j of Inr c \<Rightarrow> (pr_ready run)(j \<mapsto> c) | Inl _ \<Rightarrow> pr_ready run)"
  "pr_failed (finish_job produce j run) = (case produce j of Inr _ \<Rightarrow> pr_failed run | Inl e \<Rightarrow> get_or_insert (pr_failed run) e)"
  by (auto simp: finish_job_def Let_def split: sum.split)

lemma awaited_finish_job [simp]: "awaited (finish_job produce j run) = awaited run"
  by (simp add: awaited_def split: ChunkPhase.split)

lemma finish_job_ok:
  assumes ok: "run_ok n workers produce consume st run" and j: "j \<in> set (pr_jobs run)"
  shows "run_ok n workers produce consume st (finish_job produce j run)"
proof -
  have n: "j < n" using assms by (auto simp: run_ok_def jobs_ok_def awaited_def)
  have "jobs_ok produce (finish_job produce j run)"
    using ok j by (auto simp: run_ok_def jobs_ok_def finish_job_shared set_remove1_eq length_remove1 split: sum.split)
  moreover have "phase_ok n produce (finish_job produce j run)"
    using ok by (auto simp: run_ok_def phase_ok_def finish_job_shared split: sum.split ChunkPhase.splits)
  ultimately show ?thesis
    using ok failed_producer[OF _ n, of produce _ consume st] by (auto simp: run_ok_def finish_job_shared split: sum.splits)
qed

lemma submit_ok:
  assumes ok: "run_ok n workers produce consume st run" and ph: "pr_phase run = Submitting"
  shows "run_ok n workers produce consume st ((submit_ahead n (max_inflight workers n) run) \<lparr> pr_phase := Waiting \<rparr>)"
proof -
  let ?run = "submit_ahead n (max_inflight workers n) run"
  have a: "run_ok n workers produce consume st ?run" by (rule submit_ahead_ok[OF ok ph])
  have f: "pr_phase ?run = Submitting" "pr_index ?run = pr_index run" "pr_failed ?run = pr_failed run"
    "pr_failed run = None \<and> pr_index run < n \<and> 0 < max_inflight workers n \<longrightarrow> pr_index run < pr_next ?run"
    using submit_ahead_frame[of n "max_inflight workers n" run] ph by auto
  have "pr_index run < n" using ok ph by (simp add: run_ok_def phase_ok_def)
  then have "phase_ok n produce (?run \<lparr> pr_phase := Waiting \<rparr>)" using f by (auto simp: phase_ok_def max_inflight_def)
  moreover have "awaited (?run \<lparr> pr_phase := Waiting \<rparr>) = awaited ?run" using f by (simp add: awaited_def)
  then have "jobs_ok produce (?run \<lparr> pr_phase := Waiting \<rparr>)" using a by (simp add: run_ok_def jobs_ok_def)
  ultimately show ?thesis using a by (simp add: run_ok_def)
qed

lemma take_ok:
  assumes ok: "run_ok n workers produce consume st run" and ph: "pr_phase run = Waiting" and run': "take_chunk run = Some run'"
  shows "run_ok n workers produce consume st run' \<and> (\<forall>res. pr_phase run' \<noteq> Returned res)"
proof (cases "pr_ready run (pr_index run)")
  case None
  then have "run' = run \<lparr> pr_phase := Draining \<rparr>" "pr_failed run \<noteq> None"
    using run' by (auto simp: take_chunk_def stopping_def split: if_splits)
  then show ?thesis using ok ph by (simp add: run_ok_def jobs_ok_def phase_ok_def awaited_def)
next
  case (Some c)
  then have r: "run' = run \<lparr> pr_ready := (pr_ready run)(pr_index run := None), pr_phase := Consuming c \<rparr>"
    using run' by (simp add: take_chunk_def)
  have i: "produce (pr_index run) = Inr c" "pr_index run < pr_next run" "pr_index run \<notin> set (pr_jobs run)"
    using ok ph Some by (auto simp: run_ok_def jobs_ok_def awaited_def)
  then have aw: "awaited run' = awaited run - {pr_index run}" using ph by (auto simp: r awaited_def)
  have "jobs_ok produce run'" using ok i(3) unfolding jobs_ok_def aw by (auto simp: r run_ok_def jobs_ok_def)
  then show ?thesis using ok i by (auto simp: r run_ok_def phase_ok_def)
qed

lemma consume_ok:
  assumes ok: "run_ok n workers produce consume st run" and ph: "pr_phase run = Consuming c"
  shows "run_ok n workers produce consume st (consume_chunk n consume c run) \<and>
    (\<forall>res. pr_phase (consume_chunk n consume c run) \<noteq> Returned res)"
proof -
  have i: "pr_index run < n" "produce (pr_index run) = Inr c" and fold: "rfold (chunk_step produce consume) st [0..<pr_index run] = Inr (pr_consumer run)"
    using ok ph by (auto simp: run_ok_def phase_ok_def)
  show ?thesis
  proof (cases "consume (pr_consumer run) (pr_index run) c")
    case (Inl e)
    then have "\<not> is_ok (ordered_chunks n produce consume st)"
      using ordered_chunks_split[OF fold i(1)] i(2) by (simp add: chunk_step_def is_ok_def)
    moreover have "jobs_ok produce (consume_chunk n consume c run)"
    proof -
      have "awaited run \<subseteq> awaited (consume_chunk n consume c run)" using ph Inl by (auto simp: consume_chunk_def awaited_def)
      then show ?thesis using ok Inl unfolding run_ok_def jobs_ok_def by (auto simp: consume_chunk_def)
    qed
    ultimately show ?thesis using ok Inl by (auto simp: run_ok_def phase_ok_def consume_chunk_def)
  next
    case (Inr s)
    then have aw: "awaited (consume_chunk n consume c run) = awaited run" using ph by (simp add: consume_chunk_def awaited_def)
    have "jobs_ok produce (consume_chunk n consume c run)"
      using ok unfolding jobs_ok_def aw by (simp add: consume_chunk_def Inr run_ok_def jobs_ok_def)
    moreover have "phase_ok n produce (consume_chunk n consume c run)"
      using i by (simp add: consume_chunk_def Inr phase_ok_def)
    moreover have "pr_index run < pr_next run" using ok ph by (simp add: run_ok_def phase_ok_def)
    ultimately show ?thesis using ok Inr i(2) fold by (simp add: run_ok_def consume_chunk_def rfold_append chunk_step_def)
  qed
qed

lemma settle_ok:
  assumes ok: "run_ok n workers produce consume st run" and ph: "pr_phase run = Draining" and run': "settle run = Some run'"
  shows "pool_inv n workers produce consume st run'"
  using assms
  by (cases "pr_failed run")
    (auto simp: settle_def pool_inv_def run_ok_def jobs_ok_def phase_ok_def ordered_chunks_def is_ok_iff split: if_splits)

lemma pool_inv_running: "(\<forall>res. pr_phase run \<noteq> Returned res) \<Longrightarrow> pool_inv n workers produce consume st run = run_ok n workers produce consume st run"
  by (auto simp: pool_inv_def split: ChunkPhase.split)

lemma pool_step_inv:
  assumes "pool_step n workers produce consume run run'" and inv: "pool_inv n workers produce consume st run"
  shows "pool_inv n workers produce consume st run'"
  using assms(1)
proof cases
  case caller
  then have ok: "run_ok n workers produce consume st run"
    using inv by (auto simp: calling_thread_def pool_inv_def split: ChunkPhase.splits)
  show ?thesis
    using caller submit_ok[OF ok] take_ok[OF ok] consume_ok[OF ok] settle_ok[OF ok]
    by (cases "pr_phase run") (auto simp: calling_thread_def pool_inv_running)
next
  case (job j)
  then have ok: "run_ok n workers produce consume st run" and "\<forall>res. pr_phase run \<noteq> Returned res"
    using inv by (auto simp: pool_inv_def split: ChunkPhase.splits)
  then show ?thesis using finish_job_ok[OF ok job(2)] job(1) by (simp add: pool_inv_running)
qed

lemma pool_start_inv: "pool_inv n workers produce consume st (pool_start n st)"
  by (auto simp: pool_inv_def pool_start_def run_ok_def jobs_ok_def phase_ok_def awaited_def ordered_chunks_def)

lemma pool_reachable_inv:
  assumes "(pool_step n workers produce consume)\<^sup>*\<^sup>* (pool_start n st) run"
  shows "pool_inv n workers produce consume st run"
  using assms by induction (auto intro: pool_start_inv pool_step_inv)

section \<open>Every run ends\<close>

fun phase_rank :: "('c, 'e, 's) ChunkPhase \<Rightarrow> nat" where
  "phase_rank Submitting = 4"
| "phase_rank Waiting = 3"
| "phase_rank (Consuming _) = 2"
| "phase_rank Draining = 1"
| "phase_rank (Returned _) = 0"

definition pool_measure :: "usize \<Rightarrow> ('c, 'e, 's) PoolRun \<Rightarrow> nat" where
  "pool_measure n run = 4 * (n - pr_index run) + 2 * (n - pr_next run) + length (pr_jobs run) + phase_rank (pr_phase run)"

lemma pool_step_measure:
  assumes "pool_step n workers produce consume run run'" and inv: "pool_inv n workers produce consume st run"
  shows "pool_measure n run' < pool_measure n run"
  using assms(1)
proof cases
  case caller
  then show ?thesis
    using inv submit_ahead_frame[of n "max_inflight workers n" run]
    by (cases "pr_phase run")
      (auto simp: calling_thread_def pool_measure_def take_chunk_def consume_chunk_def settle_def pool_inv_def run_ok_def phase_ok_def
        split: option.splits sum.splits if_splits)
next
  case (job j)
  then have "length (remove1 j (pr_jobs run)) < length (pr_jobs run)"
    by (simp add: length_remove1) (metis diff_less length_pos_if_in_set zero_less_one One_nat_def)
  then show ?thesis using job by (simp add: pool_measure_def)
qed

lemma pool_progress:
  assumes inv: "pool_inv n workers produce consume st run" and running: "\<forall>res. pr_phase run \<noteq> Returned res"
  shows "\<exists>run'. pool_step n workers produce consume run run'"
proof (cases "pr_jobs run = [] \<and> (pr_phase run = Waiting \<or> pr_phase run = Draining)")
  case True
  then have ok: "run_ok n workers produce consume st run" using inv running by (simp add: pool_inv_running)
  have "pr_ready run (pr_index run) \<noteq> None \<or> pr_failed run \<noteq> None" if "pr_phase run = Waiting"
    using ok True that unfolding run_ok_def jobs_ok_def phase_ok_def awaited_def by fastforce
  then have "calling_thread n workers consume run \<noteq> None"
    using ok True by (auto simp: calling_thread_def take_chunk_def settle_def stopping_def run_ok_def jobs_ok_def split: option.split)
  then show ?thesis by (auto intro: pool_step.caller)
next
  case False
  show ?thesis
  proof (cases "pr_jobs run")
    case Nil
    then have "calling_thread n workers consume run \<noteq> None"
      using False running by (auto simp: calling_thread_def split: ChunkPhase.split)
    then show ?thesis by (auto intro: pool_step.caller)
  next
    case (Cons j js)
    then have "pool_step n workers produce consume run (finish_job produce j run)" by (intro pool_step.job) simp
    then show ?thesis by blast
  qed
qed

section \<open>Schedules\<close>

text \<open>A run as a list of turns: \<^verbatim>\<open>None\<close> is the calling thread, \<^verbatim>\<open>Some j\<close> the job of index \<^verbatim>\<open>j\<close>.\<close>

fun run_schedule ::
  "usize \<Rightarrow> usize \<Rightarrow> (usize \<Rightarrow> 'e + 'c) \<Rightarrow> ('s \<Rightarrow> usize \<Rightarrow> 'c \<Rightarrow> 'e + 's) \<Rightarrow> usize option list \<Rightarrow> ('c, 'e, 's) PoolRun \<Rightarrow>
     ('c, 'e, 's) PoolRun option" where
  "run_schedule n workers produce consume [] run = Some run"
| "run_schedule n workers produce consume (None # turns) run =
     Option.bind (calling_thread n workers consume run) (run_schedule n workers produce consume turns)"
| "run_schedule n workers produce consume (Some j # turns) run =
     (if j \<in> set (pr_jobs run) then run_schedule n workers produce consume turns (finish_job produce j run) else None)"

lemma run_schedule_steps:
  "run_schedule n workers produce consume turns run = Some run' \<Longrightarrow> (pool_step n workers produce consume)\<^sup>*\<^sup>* run run'"
proof (induction n workers produce consume turns run rule: run_schedule.induct)
  case (2 n workers produce consume turns run)
  then show ?case
    by (auto simp: bind_eq_Some_conv intro: converse_rtranclp_into_rtranclp pool_step.caller)
next
  case (3 n workers produce consume j turns run)
  then show ?case
    by (auto split: if_splits intro: converse_rtranclp_into_rtranclp pool_step.job)
qed simp

definition demo_chunk :: "usize \<Rightarrow> string + nat list" where
  "demo_chunk index = Inr [10 * index, 10 * index + 1]"

definition demo_append :: "nat list \<Rightarrow> usize \<Rightarrow> nat list \<Rightarrow> string + nat list" where
  "demo_append out index chunk = Inr (out @ chunk)"

definition demo_turns :: "usize option list" where
  "demo_turns = [None, Some 1, Some 0, None, None, None, Some 2, None, None, None, None, None, None]"

definition demo_finished :: "(nat list, string, nat list) PoolRun" where
  "demo_finished = \<lparr> pr_ready = Map.empty, pr_failed = None, pr_outstanding = 0, pr_jobs = [], pr_next = 3, pr_index = 3,
     pr_consumer = [0, 1, 10, 11, 20, 21], pr_phase = Returned (Inr [0, 1, 10, 11, 20, 21]) \<rparr>"

lemma demo_pool_run: "run_schedule 3 1 demo_chunk demo_append demo_turns (pool_start 3 []) = Some demo_finished"
  by (simp add: demo_turns_def pool_start_def calling_thread_def submit_ahead.simps max_inflight_def stopping_def finish_job_def
      demo_chunk_def take_chunk_def consume_chunk_def demo_append_def settle_def demo_finished_def)

section \<open>Properties\<close>

text \<open>C40. The builder pool. In every state that a run with a pool reaches, whatever the order in which the jobs finish: the run is
  not stuck before it has returned, and every further step brings its end nearer, so every run returns; at most twice the workers'
  chunks are submitted ahead of the consumer; and when the run has returned, no job that borrows the caller's data is left, and it
  has succeeded with a result exactly when the loop without a pool succeeds with that result.\<close>

theorem pool_runs_like_loop:
  assumes "(pool_step n workers produce consume)\<^sup>*\<^sup>* (pool_start n st) run"
  shows "((\<exists>res. pr_phase run = Returned res) \<or> (\<exists>run'. pool_step n workers produce consume run run')) \<and>
    (\<forall>run'. pool_step n workers produce consume run run' \<longrightarrow> pool_measure n run' < pool_measure n run) \<and>
    pr_next run \<le> pr_index run + 2 * max workers 1 \<and>
    (\<forall>res. pr_phase run = Returned res \<longrightarrow>
       pr_jobs run = [] \<and> (\<forall>out. res = Inr out \<longleftrightarrow> ordered_chunks n produce consume st = Inr out))"
proof -
  have inv: "pool_inv n workers produce consume st run" by (rule pool_reachable_inv[OF assms])
  then have "pr_next run \<le> pr_index run + max_inflight workers n"
    by (auto simp: pool_inv_def run_ok_def split: ChunkPhase.splits)
  then have "pr_next run \<le> pr_index run + 2 * max workers 1"
    by (simp add: max_inflight_def)
  then show ?thesis
    using inv pool_progress[OF inv] pool_step_measure[OF _ inv] by (auto simp: pool_inv_def)
qed

theorem pool_runs_like_loop_witness:
  "(pool_step 3 1 demo_chunk demo_append)\<^sup>*\<^sup>* (pool_start 3 []) demo_finished \<and>
   pr_phase demo_finished = Returned (Inr [0, 1, 10, 11, 20, 21]) \<and>
   ordered_chunks 3 demo_chunk demo_append [] = Inr [0, 1, 10, 11, 20, 21]"
proof -
  have steps: "(pool_step 3 1 demo_chunk demo_append)\<^sup>*\<^sup>* (pool_start 3 []) demo_finished"
    by (rule run_schedule_steps[OF demo_pool_run])
  moreover have "pr_phase demo_finished = Returned (Inr [0, 1, 10, 11, 20, 21])" by (simp add: demo_finished_def)
  ultimately show ?thesis using pool_runs_like_loop[OF steps] by blast
qed

end
