(* ===== verification/Chunked_Writer.thy ===== *)
theory Chunked_Writer
  imports Reward_Window Chunk_Pool
begin

text \<open>
  The builder's chunked JSON writer (\<^verbatim>\<open>src/crates/qbit-prism/src/parallel.rs\<close>): an array is written in frames of a chunk each,
  and one field of a struct is written by a function of its own while \<^verbatim>\<open>serde_json\<close> writes the others. A writer is the list of
  bytes written so far. What \<^verbatim>\<open>serde_json\<close> writes for keys, values and whole arrays are arguments. The chunks go
  through \<^verbatim>\<open>ordered_chunks\<close>.
\<close>

section \<open>Compact JSON\<close>

text \<open>The form of \<^verbatim>\<open>serde_json\<close>'s compact output: members and elements separated by commas, without spaces. The codes are
  those of the comma, the colon, brackets and braces.\<close>

fun join_commas :: "byte list list \<Rightarrow> byte list" where
  "join_commas [] = []"
| "join_commas (p # ps) = p @ concat (map (\<lambda>q. 44 # q) ps)"

definition json_array :: "('a \<Rightarrow> string + byte list) \<Rightarrow> 'a list \<Rightarrow> string + byte list" where
  "json_array item xs = rbind (rmap item xs) (\<lambda>parts. Inr ([91] @ join_commas parts @ [93]))"

definition json_member :: "(string \<Rightarrow> string + byte list) \<Rightarrow> ('v \<Rightarrow> string + byte list) \<Rightarrow> string \<times> 'v \<Rightarrow> string + byte list" where
  "json_member key val = (\<lambda>(k, v). rbind (key k) (\<lambda>kb. rbind (val v) (\<lambda>vb. Inr (kb @ [58] @ vb))))"

definition json_object :: "(string \<Rightarrow> string + byte list) \<Rightarrow> ('v \<Rightarrow> string + byte list) \<Rightarrow> (string \<times> 'v) list \<Rightarrow> string + byte list" where
  "json_object key val entries = rbind (rmap (json_member key val) entries) (\<lambda>parts. Inr ([123] @ join_commas parts @ [125]))"

section \<open>Arrays in frames\<close>

definition write_element :: "('a \<Rightarrow> string + byte list) \<Rightarrow> usize \<Rightarrow> byte list \<Rightarrow> nat \<times> 'a \<Rightarrow> string + byte list" where
  "write_element item index buffer = (\<lambda>(position, x).
     let buffer = (if position > 0 \<or> index > 0 then buffer @ [44] else buffer) in
       rbind (item x) (\<lambda>bytes. Inr (buffer @ bytes)))"

definition write_chunk :: "('a \<Rightarrow> string + byte list) \<Rightarrow> 'a list \<Rightarrow> usize \<Rightarrow> usize \<Rightarrow> string + byte list" where
  "write_chunk item items len index =
     (let chunk = take (min ((index + 1) * len) (length items) - index * len) (drop (index * len) items) in
        rfold (write_element item index) [] (enumerate 0 chunk))"

definition write_array_frames ::
  "('a list \<Rightarrow> string + byte list) \<Rightarrow> ('a \<Rightarrow> string + byte list) \<Rightarrow> 'a list \<Rightarrow> Parallelism \<Rightarrow>
     ('s \<Rightarrow> byte list \<Rightarrow> string + 's) \<Rightarrow> 's \<Rightarrow> string + 's" where
  "write_array_frames to_writer item items parallelism consume st =
     (let len = max (min (chunk_len parallelism) (length items)) 1 in
      if is_serial parallelism \<or> length items \<le> len then rbind (to_writer items) (consume st)
      else
        rbind (consume st [91]) (\<lambda>st.
        rbind (ordered_chunks ((length items + (len - 1)) div len) (write_chunk item items len) (\<lambda>st _ frame. consume st frame) st) (\<lambda>st.
          consume st [93])))"

definition write_array ::
  "('a list \<Rightarrow> string + byte list) \<Rightarrow> ('a \<Rightarrow> string + byte list) \<Rightarrow> 'a list \<Rightarrow> Parallelism \<Rightarrow> byte list \<Rightarrow> string + byte list" where
  "write_array to_writer item items parallelism out =
     (if is_serial parallelism \<or> length items \<le> chunk_len parallelism then rbind (to_writer items) (\<lambda>bytes. Inr (out @ bytes))
      else write_array_frames to_writer item items parallelism (\<lambda>out frame. Inr (out @ frame)) out)"

section \<open>Structs with a spliced field\<close>

record SpliceFields =
  sp_out :: "byte list"
  sp_splice :: "(byte list \<Rightarrow> string + byte list) option"
  sp_first :: bool

definition serialize_field ::
  "(string \<Rightarrow> string + byte list) \<Rightarrow> ('v \<Rightarrow> string + byte list) \<Rightarrow> string \<Rightarrow> SpliceFields \<Rightarrow> string \<times> 'v \<Rightarrow> string + SpliceFields" where
  "serialize_field key val field self = (\<lambda>(k, v).
     let out = (if sp_first self then sp_out self else sp_out self @ [44]) in
     rbind (key k) (\<lambda>kb.
     let out = out @ kb @ [58] in
     if k = field
     then (case sp_splice self of
         None \<Rightarrow> Inl ''spliced field serialized twice''
       | Some supplied \<Rightarrow> rbind (supplied out) (\<lambda>out. Inr \<lparr> sp_out = out, sp_splice = None, sp_first = False \<rparr>))
     else rbind (val v) (\<lambda>vb. Inr (self \<lparr> sp_out := out @ vb, sp_first := False \<rparr>))))"

definition serialize_struct :: "byte list \<Rightarrow> (byte list \<Rightarrow> string + byte list) \<Rightarrow> byte list \<Rightarrow> SpliceFields" where
  "serialize_struct opening supplied out = \<lparr> sp_out = out @ opening, sp_splice = Some supplied, sp_first = True \<rparr>"

definition splice_end :: "SpliceFields \<Rightarrow> byte list" where
  "splice_end self = sp_out self @ [125]"

text \<open>The derived \<^verbatim>\<open>Serialize\<close> of a struct run with \<^verbatim>\<open>StructSplice::object\<close>: the struct is begun, each field is written in turn and
  the struct is ended.\<close>

definition splice_object ::
  "(string \<Rightarrow> string + byte list) \<Rightarrow> ('v \<Rightarrow> string + byte list) \<Rightarrow> string \<Rightarrow> (byte list \<Rightarrow> string + byte list) \<Rightarrow>
     (string \<times> 'v) list \<Rightarrow> byte list \<Rightarrow> string + byte list" where
  "splice_object key val field supplied entries out =
     rbind (rfold (serialize_field key val field) (serialize_struct [123] supplied out) entries) (\<lambda>st. Inr (splice_end st))"

section \<open>The bytes are those of the whole value\<close>

definition tail_commas :: "bool \<Rightarrow> byte list list \<Rightarrow> byte list" where
  "tail_commas first parts = (if first then join_commas parts else concat (map (\<lambda>q. 44 # q) parts))"

lemma tail_commas_simps [simp]:
  "tail_commas first [] = []" "tail_commas True (p # ps) = p @ tail_commas False ps" "tail_commas False (p # ps) = 44 # p @ tail_commas False ps"
  by (simp_all add: tail_commas_def)

lemma tail_commas_Cons: "tail_commas first (p # ps) = (if first then p else 44 # p) @ tail_commas False ps"
  by (simp add: tail_commas_def)

lemma join_append: "xs \<noteq> [] \<Longrightarrow> join_commas (xs @ ys) = join_commas xs @ tail_commas False ys"
  by (cases xs) (simp_all add: tail_commas_def)

lemma rmap_append: "rmap f (xs @ ys) = rbind (rmap f xs) (\<lambda>as. rbind (rmap f ys) (\<lambda>bs. Inr (as @ bs)))"
proof (induction xs)
  case Nil
  show ?case by (cases "rmap f ys") simp_all
next
  case (Cons x xs)
  then show ?case by (cases "f x"; cases "rmap f xs"; cases "rmap f ys") simp_all
qed

lemma write_element_step: "write_element item index buffer (position, x) =
  rbind (item x) (\<lambda>bytes. Inr ((if position = 0 \<and> index = 0 then buffer else buffer @ [44]) @ bytes))"
  by (simp add: write_element_def)

lemma write_elements:
  "rfold (write_element item index) buffer (enumerate position xs) =
   rbind (rmap item xs) (\<lambda>parts. Inr (buffer @ tail_commas (position = 0 \<and> index = 0) parts))"
proof (induction xs arbitrary: position buffer)
  case (Cons x xs)
  show ?case
    by (cases "item x"; cases "rmap item xs") (simp_all add: Cons.IH write_element_step tail_commas_Cons)
qed simp

lemma write_chunk_eq:
  "write_chunk item items len index =
   rbind (rmap item (take len (drop (index * len) items))) (\<lambda>parts. Inr (tail_commas (index = 0) parts))"
proof -
  have "take (min ((index + 1) * len) (length items) - index * len) (drop (index * len) items) = take len (drop (index * len) items)"
    by (simp add: take_drop min_def add.commute)
  then show ?thesis by (simp add: write_chunk_def Let_def write_elements)
qed

lemma write_chunks:
  assumes "0 < len"
  shows "ordered_chunks n (write_chunk item items len) (\<lambda>out _ frame. Inr (out @ frame)) out =
    rbind (rmap item (take (n * len) items)) (\<lambda>parts. Inr (out @ join_commas parts))"
proof (induction n)
  case (Suc n)
  let ?next = "take len (drop (n * len) items)"
  have split: "take (Suc n * len) items = take (n * len) items @ ?next" by (metis add.commute mult_Suc take_add)
  have "join_commas as @ tail_commas (n = 0) bs = join_commas (as @ bs)"
    if a: "rmap item (take (n * len) items) = Inr as" and b: "rmap item ?next = Inr bs" for as bs
  proof (cases "n = 0 \<or> as \<noteq> []")
    case True
    then show ?thesis using a by (auto simp: join_append tail_commas_def)
  next
    case False
    then have "items = []" using assms rmap_length[OF a] by (auto simp: min_def split: if_splits)
    then show ?thesis using b False by auto
  qed
  then show ?case
    using Suc unfolding ordered_chunks_def split rmap_append
    by (cases "rmap item (take (n * len) items)"; cases "rmap item ?next") (auto simp: rfold_append chunk_step_def write_chunk_eq)
qed (simp add: ordered_chunks_def)

lemma write_array_eq:
  assumes "\<And>xs. to_writer xs = json_array item xs"
  shows "write_array to_writer item items parallelism out = rbind (json_array item items) (\<lambda>bytes. Inr (out @ bytes))"
proof (cases "is_serial parallelism \<or> length items \<le> chunk_len parallelism")
  case False
  define len where "len = max (min (chunk_len parallelism) (length items)) 1"
  have len: "0 < len" by (simp add: len_def)
  have "length items \<le> (length items + (len - 1)) div len * len"
    using dividend_less_div_times[of len "length items + (len - 1)"] len by linarith
  then have all: "take ((length items + (len - 1)) div len * len) items = items" by simp
  show ?thesis
  proof (cases "length items \<le> len")
    case True
    then show ?thesis using False assms unfolding write_array_def write_array_frames_def Let_def len_def[symmetric] by simp
  next
    case long: False
    then show ?thesis using False
      unfolding write_array_def write_array_frames_def Let_def len_def[symmetric] write_chunks[OF len] all json_array_def
      by (cases "rmap item items") simp_all
  qed
qed (simp add: write_array_def assms)

lemma serialize_field_step:
  assumes "key k = Inr kb"
    and "k = field \<Longrightarrow> \<exists>supplied. sp_splice st = Some supplied \<and> (\<forall>out. supplied out = rbind (val v) (\<lambda>vb. Inr (out @ vb)))"
  obtains st' where "serialize_field key val field st (k, v) = rbind (val v) (\<lambda>vb. Inr (st' vb))"
    "\<And>vb. sp_out (st' vb) = (if sp_first st then sp_out st else sp_out st @ [44]) @ kb @ [58] @ vb" "\<And>vb. \<not> sp_first (st' vb)"
    "\<And>vb. k \<noteq> field \<Longrightarrow> sp_splice (st' vb) = sp_splice st"
proof (cases "k = field")
  case True
  let ?out = "if sp_first st then sp_out st else sp_out st @ [44]"
  obtain supplied where "sp_splice st = Some supplied" "\<forall>out. supplied out = rbind (val v) (\<lambda>vb. Inr (out @ vb))"
    using assms(2)[OF True] by blast
  then have "serialize_field key val field st (k, v) =
      rbind (val v) (\<lambda>vb. Inr \<lparr> sp_out = ?out @ kb @ [58] @ vb, sp_splice = None, sp_first = False \<rparr>)"
    using True assms(1) by (cases "val v") (simp_all add: serialize_field_def Let_def)
  then show thesis by (rule that) (simp_all add: True)
next
  case False
  let ?out = "if sp_first st then sp_out st else sp_out st @ [44]"
  have "serialize_field key val field st (k, v) = rbind (val v) (\<lambda>vb. Inr (st \<lparr> sp_out := ?out @ kb @ [58] @ vb, sp_first := False \<rparr>))"
    using False assms(1) by (simp add: serialize_field_def Let_def)
  then show thesis by (rule that) simp_all
qed

lemma serialize_fields:
  assumes "distinct (map fst entries)"
    and "\<forall>(k, v)\<in>set entries. k = field \<longrightarrow> (\<exists>supplied. sp_splice st = Some supplied \<and> (\<forall>out. supplied out = rbind (val v) (\<lambda>vb. Inr (out @ vb))))"
  shows "rbind (rfold (serialize_field key val field) st entries) (\<lambda>st. Inr (sp_out st @ [125])) =
    rbind (rmap (json_member key val) entries) (\<lambda>parts. Inr (sp_out st @ tail_commas (sp_first st) parts @ [125]))"
  using assms
proof (induction entries arbitrary: st)
  case (Cons f entries)
  obtain k v where f: "f = (k, v)" by fastforce
  show ?case
  proof (cases "key k")
    case (Inr kb)
    obtain st' where st': "serialize_field key val field st (k, v) = rbind (val v) (\<lambda>vb. Inr (st' vb))"
      "\<And>vb. sp_out (st' vb) = (if sp_first st then sp_out st else sp_out st @ [44]) @ kb @ [58] @ vb" "\<And>vb. \<not> sp_first (st' vb)"
      "\<And>vb. k \<noteq> field \<Longrightarrow> sp_splice (st' vb) = sp_splice st"
      by (rule serialize_field_step[where key = key and k = k and st = st and field = field and val = val and v = v, OF Inr])
        (use Cons.prems(2) f in auto)
    show ?thesis
    proof (cases "val v")
      case v: (Inr vb)
      have "rbind (rfold (serialize_field key val field) (st' vb) entries) (\<lambda>st. Inr (sp_out st @ [125])) =
          rbind (rmap (json_member key val) entries) (\<lambda>parts. Inr (sp_out (st' vb) @ tail_commas (sp_first (st' vb)) parts @ [125]))"
        by (rule Cons.IH) (use Cons.prems st'(4) f in \<open>force simp: image_iff\<close>)+
      then show ?thesis using st' v Inr f
        by (cases "rmap (json_member key val) entries"; cases "sp_first st") (simp_all add: json_member_def)
    qed (use st'(1) Inr f in \<open>simp add: json_member_def\<close>)
  qed (simp add: f serialize_field_def json_member_def Let_def)
qed simp

lemma splice_object_eq:
  assumes "distinct (map fst entries)" "\<forall>(k, v)\<in>set entries. k = field \<longrightarrow> (\<forall>out. supplied out = rbind (val v) (\<lambda>vb. Inr (out @ vb)))"
  shows "splice_object key val field supplied entries out = rbind (json_object key val entries) (\<lambda>bytes. Inr (out @ bytes))"
proof -
  let ?st = "\<lparr> sp_out = out @ [123], sp_splice = Some supplied, sp_first = True \<rparr>"
  have "rbind (rfold (serialize_field key val field) ?st entries) (\<lambda>st. Inr (sp_out st @ [125])) =
    rbind (rmap (json_member key val) entries) (\<lambda>parts. Inr (sp_out ?st @ tail_commas (sp_first ?st) parts @ [125]))"
    using assms by (intro serialize_fields) auto
  then show ?thesis
    by (cases "rmap (json_member key val) entries") (simp_all add: splice_object_def serialize_struct_def splice_end_def json_object_def tail_commas_def)
qed

end
