(* ===== verification/Audit_Bundle.thy ===== *)
theory Audit_Bundle
  imports Ctv_Lifecycle Payout_Policy Chunked_Writer
begin

text \<open>
  Audit bundles (\<^verbatim>\<open>src/crates/qbit-prism/src/lib.rs\<close>, from the commitment leaves to the verification
  report): the ledger attestation, the bundle builders with and without fan-out settlement, and the
  verifier that recomputes a bundle from its shares. \<^verbatim>\<open>AuditBundleRef\<close> is the bundle itself. The
  functions of \<^verbatim>\<open>serde_json\<close> are the argument \<open>J\<close>; the profiling wrappers only measure time.
\<close>

section \<open>Data\<close>

definition PRISM_AUDIT_COMMITMENT_LEAF_TAG :: string where
  "PRISM_AUDIT_COMMITMENT_LEAF_TAG = ''qbit.prism.audit.commitment.v1''"
definition AUDIT_BUNDLE_SCHEMA_V1 :: string where "AUDIT_BUNDLE_SCHEMA_V1 = ''qbit.prism.audit-bundle.v1''"
definition AUDIT_BUNDLE_SCHEMA_V1_1 :: string where "AUDIT_BUNDLE_SCHEMA_V1_1 = ''qbit.prism.audit-bundle.v1.1''"

text \<open>The signed fields of an attestation (\<^verbatim>\<open>Payload\<close>), then the attestation with its signature.\<close>

record AttestationPayload =
  la_schema :: string
  la_block_height :: u64
  la_coinbase_value_sats :: u64
  la_anchor_job_issued_at_ms :: i64
  la_network_difficulty :: u128
  la_share_slice_digest_hex :: string
  la_prior_balances_digest_hex :: string

record LedgerWindowAttestation = AttestationPayload +
  la_signature :: ManifestSignature

text \<open>\<^verbatim>\<open>AuditBundle\<close> has the fields of the body and the shares.\<close>

record AuditBundleBody =
  ab_schema :: string
  ab_found_block :: FoundBlock
  ab_prior_balances :: "CarryForwardBalance list"
  ab_payout_policy :: PayoutPolicy
  ab_coinbase_script_sig_suffix_hex :: "string option"
  ab_witness_merkle_leaves_hex :: "string list"
  ab_audit_commitment_leaves_hex :: "string list"
  ab_audit_commitment_root_hex :: "string option"
  ab_ledger_window_attestation :: LedgerWindowAttestation
  ab_reward_manifest :: PrismRewardManifest
  ab_payout_policy_manifest :: PayoutPolicyManifest
  ab_settlement_mode_decision :: "SettlementModeDecision option"
  ab_ctv_fanout_fee_policy :: "FanoutFeeRatePolicy option"
  ab_ctv_fanout_manifest_set :: "CtvFanoutManifestSet option"
  ab_signed_coinbase_manifest :: SignedPayoutManifest

record AuditBundle = AuditBundleBody +
  ab_shares :: "AcceptedShare list"

record AuditVerificationReport =
  vr_schema :: string
  vr_block_height :: u64
  vr_coinbase_value_sats :: u64
  vr_reward_manifest_sha256_hex :: string
  vr_payout_policy_manifest_sha256_hex :: string
  vr_prism_audit_commitment_leaf_hex :: string
  vr_audit_commitment_root_hex :: string
  vr_coinbase_manifest_sha256_hex :: string
  vr_audit_bundle_sha256_hex :: string
  vr_coinbase_txid :: string
  vr_coinbase_wtxid :: string
  vr_coinbase_tx_hex :: string
  vr_min_output_sats :: u64
  vr_coinbase_output_policy :: CoinbaseOutputPolicy
  vr_onchain_output_count :: usize
  vr_accrued_account_count :: usize

text \<open>The values of the fields of a reward manifest, and the fields in the order of their declaration: the derived
  \<^verbatim>\<open>Serialize\<close> leaves out a cut that is absent.\<close>

datatype RewardValue = StringField string | UnsignedField nat | SignedField int | CutField "WindowCut option"
  | SharesField "CountedShare list" | EntitlementsField "WeightedEntitlement list"

definition reward_fields :: "PrismRewardManifest \<Rightarrow> (string \<times> RewardValue) list" where
  "reward_fields m =
     [(''schema'', StringField (rm_schema m)), (''block_height'', UnsignedField (rm_block_height m)),
      (''coinbase_value_sats'', UnsignedField (rm_coinbase_value_sats m)),
      (''network_difficulty'', UnsignedField (rm_network_difficulty m)),
      (''window_multiplier'', UnsignedField (rm_window_multiplier m)),
      (''requested_window_weight'', UnsignedField (rm_requested_window_weight m)),
      (''counted_window_weight'', UnsignedField (rm_counted_window_weight m)),
      (''anchor_job_issued_at_ms'', SignedField (rm_anchor_job_issued_at_ms m)),
      (''anchor_share_seq'', UnsignedField (rm_anchor_share_seq m)), (''newest_share_seq'', UnsignedField (rm_newest_share_seq m)),
      (''oldest_share_seq'', UnsignedField (rm_oldest_share_seq m))] @
     (if rm_cut m = None then [] else [(''cut'', CutField (rm_cut m))]) @
     [(''included_share_count'', UnsignedField (rm_included_share_count m)),
      (''share_slice_digest_hex'', StringField (rm_share_slice_digest_hex m)), (''shares'', SharesField (rm_shares m)),
      (''entitlements'', EntitlementsField (rm_entitlements m))]"

text \<open>\<^verbatim>\<open>serde_json\<close>: whole values, and for reward manifests also the names and values of fields and single shares.\<close>

record json =
  js_key :: "string \<Rightarrow> string + byte list"
  js_value :: "RewardValue \<Rightarrow> string + byte list"
  js_share :: "CountedShare \<Rightarrow> string + byte list"
  js_reward :: "PrismRewardManifest \<Rightarrow> string + byte list"
  js_policy :: "PayoutPolicyManifest \<Rightarrow> string + byte list"
  js_attestation :: "AttestationPayload \<Rightarrow> string + byte list"
  js_coinbase :: "PayoutManifest \<Rightarrow> string + byte list"
  js_precommitment :: "CtvFanoutPrecommitment \<Rightarrow> string + byte list"
  js_bundle :: "AuditBundle \<Rightarrow> string + byte list"

text \<open>A struct is written as an object of the fields its \<^verbatim>\<open>Serialize\<close> names, and a slice as an array of its elements.\<close>

definition serde_law :: "json \<Rightarrow> bool" where
  "serde_law J \<longleftrightarrow> (\<forall>m. js_reward J m = json_object (js_key J) (js_value J) (reward_fields m)) \<and>
     (\<forall>xs. js_value J (SharesField xs) = json_array (js_share J) xs)"

definition into_bundle :: "AuditBundleBody \<Rightarrow> AcceptedShare list \<Rightarrow> AuditBundle" where
  "into_bundle body shares = AuditBundleBody.extend body (AuditBundle.fields shares)"

definition bundle_into_parts :: "AuditBundle \<Rightarrow> AuditBundleBody \<times> AcceptedShare list" where
  "bundle_into_parts bundle = (AuditBundleBody.truncate bundle, ab_shares bundle)"

section \<open>Commitment leaves\<close>

definition canonical_reward_manifest_bytes :: "json \<Rightarrow> PrismRewardManifest \<Rightarrow> PrismError + byte list" where
  "canonical_reward_manifest_bytes J m = map_err PrismJson (js_reward J m)"

definition canonical_payout_policy_manifest_bytes :: "json \<Rightarrow> PayoutPolicyManifest \<Rightarrow> PrismError + byte list" where
  "canonical_payout_policy_manifest_bytes J m = map_err PrismJson (js_policy J m)"

definition canonical_audit_bundle_bytes :: "json \<Rightarrow> AuditBundle \<Rightarrow> PrismError + byte list" where
  "canonical_audit_bundle_bytes J bundle = map_err PrismJson (js_bundle J bundle)"

definition canonical_audit_bundle_bytes_from_parts :: "json \<Rightarrow> AuditBundleBody \<Rightarrow> AcceptedShare list \<Rightarrow> PrismError + byte list" where
  "canonical_audit_bundle_bytes_from_parts J body shares = canonical_audit_bundle_bytes J (into_bundle body shares)"

definition write_reward_manifest :: "json \<Rightarrow> PrismRewardManifest \<Rightarrow> Parallelism \<Rightarrow> byte list \<Rightarrow> string + byte list" where
  "write_reward_manifest J m parallelism out =
     (if is_serial parallelism then rbind (js_reward J m) (\<lambda>bytes. Inr (out @ bytes))
      else splice_object (js_key J) (js_value J) ''shares''
        (write_array (\<lambda>shares. js_value J (SharesField shares)) (js_share J) (rm_shares m) parallelism) (reward_fields m) out)"

definition reward_manifest_sha256 :: "crypto \<Rightarrow> json \<Rightarrow> PrismRewardManifest \<Rightarrow> Parallelism \<Rightarrow> string + byte list" where
  "reward_manifest_sha256 X J m parallelism =
     rbind (write_reward_manifest J m parallelism []) (\<lambda>bytes. Inr (sha256 X bytes))"

definition commitment_leaf_hex :: "crypto \<Rightarrow> byte list \<Rightarrow> byte list \<Rightarrow> string" where
  "commitment_leaf_hex X reward_manifest_hash payout_policy_manifest_hash =
     sha256_hex X (as_bytes PRISM_AUDIT_COMMITMENT_LEAF_TAG @ reward_manifest_hash @ payout_policy_manifest_hash)"

definition prism_audit_commitment_leaf_hex ::
  "crypto \<Rightarrow> json \<Rightarrow> PrismRewardManifest \<Rightarrow> PayoutPolicyManifest \<Rightarrow> PrismError + string" where
  "prism_audit_commitment_leaf_hex X J reward policy =
     rbind (canonical_reward_manifest_bytes J reward) (\<lambda>reward_bytes.
     rbind (canonical_payout_policy_manifest_bytes J policy) (\<lambda>policy_bytes.
       Inr (commitment_leaf_hex X (sha256 X reward_bytes) (sha256 X policy_bytes))))"

definition parse_audit_commitment_leaf :: "crypto \<Rightarrow> string \<Rightarrow> usize \<Rightarrow> PrismError + byte list" where
  "parse_audit_commitment_leaf X raw index =
     rbind (map_err (\<lambda>err. InvalidAuditCommitment (''commitment leaf '' @ show_nat index @ '' is not hex: '' @ err))
             (hex_decode X raw)) (\<lambda>decoded.
       if length decoded \<noteq> 32
       then Inl (InvalidAuditCommitment (''commitment leaf '' @ show_nat index @ '' must be 32 bytes, got '' @
              show_nat (length decoded)))
       else Inr decoded)"

definition parse_audit_commitment_leaves :: "crypto \<Rightarrow> string list \<Rightarrow> PrismError + byte list list" where
  "parse_audit_commitment_leaves X leaves =
     (if leaves = [] then Inl (InvalidAuditCommitment ''at least one commitment leaf is required'')
      else rmap (\<lambda>(index, raw). parse_audit_commitment_leaf X raw index) (enumerate 0 leaves))"

definition audit_commitment_root_hex :: "crypto \<Rightarrow> string list \<Rightarrow> PrismError + string" where
  "audit_commitment_root_hex X leaves =
     rbind (parse_audit_commitment_leaves X leaves) (\<lambda>parsed. Inr (hex_encode X (merkle_root X parsed)))"

section \<open>The ledger attestation\<close>

definition prior_balances_digest :: "crypto \<Rightarrow> CarryForwardBalance list \<Rightarrow> byte list" where
  "prior_balances_digest X balances =
     sha256 X (concat (map (\<lambda>b. update_string (recipient_id b) @ update_string (order_key b) @
       update_string (p2mr_program_hex b) @ update_i128 (balance_sats b)) (sort_key payee_order balances)))"

definition prior_balances_digest_hex :: "crypto \<Rightarrow> CarryForwardBalance list \<Rightarrow> string" where
  "prior_balances_digest_hex X balances = hex_encode X (prior_balances_digest X balances)"

definition canonical_ledger_window_attestation_bytes :: "json \<Rightarrow> LedgerWindowAttestation \<Rightarrow> PrismError + byte list" where
  "canonical_ledger_window_attestation_bytes J a = map_err PrismJson (js_attestation J (AttestationPayload.truncate a))"

definition build_ledger_window_attestation ::
  "crypto \<Rightarrow> json \<Rightarrow> PrismRewardManifest \<Rightarrow> CarryForwardBalance list \<Rightarrow> byte list \<Rightarrow> PrismError + LedgerWindowAttestation" where
  "build_ledger_window_attestation X J rm prior_balances key =
     (let attestation = \<lparr> la_schema = ''qbit.prism.ledger-window-attestation.v1'', la_block_height = rm_block_height rm,
            la_coinbase_value_sats = rm_coinbase_value_sats rm,
            la_anchor_job_issued_at_ms = rm_anchor_job_issued_at_ms rm, la_network_difficulty = rm_network_difficulty rm,
            la_share_slice_digest_hex = rm_share_slice_digest_hex rm,
            la_prior_balances_digest_hex = prior_balances_digest_hex X prior_balances,
            la_signature = \<lparr> algorithm = ''ed25519'', public_key_hex = signing_public_key_hex X key, signature_hex = [] \<rparr> \<rparr> in
      rbind (canonical_ledger_window_attestation_bytes J attestation) (\<lambda>payload.
        Inr (attestation \<lparr> la_signature := (la_signature attestation) \<lparr> signature_hex := sign_message_hex X key payload \<rparr> \<rparr>)))"

definition audit_check :: "bool \<Rightarrow> string \<Rightarrow> PrismError + unit" where
  "audit_check ok artifact = (if ok then Inr () else Inl (AuditMismatch artifact))"

definition verify_ledger_window_attestation :: "crypto \<Rightarrow> json \<Rightarrow> AuditBundle \<Rightarrow> string \<Rightarrow> PrismError + unit" where
  "verify_ledger_window_attestation X J bundle writer_key =
     (let a = ab_ledger_window_attestation bundle; fb = ab_found_block bundle in
      checks [
        audit_check (la_schema a = ''qbit.prism.ledger-window-attestation.v1'') ''ledger_attestation_schema'',
        audit_check (la_anchor_job_issued_at_ms a = fb_anchor_job_issued_at_ms fb \<and>
          la_network_difficulty a = fb_network_difficulty fb \<and> la_block_height a = fb_block_height fb \<and>
          la_coinbase_value_sats a = fb_coinbase_value_sats fb) ''ledger_attestation_scope'',
        audit_check (la_share_slice_digest_hex a = rm_share_slice_digest_hex (ab_reward_manifest bundle))
          ''ledger_attestation_share_digest'',
        audit_check (la_prior_balances_digest_hex a = prior_balances_digest_hex X (ab_prior_balances bundle))
          ''ledger_attestation_prior_digest'',
        audit_check (eq_ignore_ascii_case (public_key_hex (la_signature a)) writer_key) ''ledger_attestation_public_key'',
        audit_check (algorithm (la_signature a) = ''ed25519'') ''ledger_attestation_signature'',
        rbind (canonical_ledger_window_attestation_bytes J a) (\<lambda>payload.
          map_err Builder (verify_ed25519_message X (public_key_hex (la_signature a)) payload
            (signature_hex (la_signature a))))])"

section \<open>Building a bundle without fan-outs\<close>

definition audit_bundle_schema_for_shares :: "AcceptedShare list \<Rightarrow> string" where
  "audit_bundle_schema_for_shares shares =
     (if \<exists>s\<in>set shares. credit_policy s \<noteq> None then AUDIT_BUNDLE_SCHEMA_V1_1 else AUDIT_BUNDLE_SCHEMA_V1)"

definition build_profiled_signed_manifest ::
  "crypto \<Rightarrow> json \<Rightarrow> CoinbaseBuildRequest \<Rightarrow> byte list \<Rightarrow> PrismError + SignedPayoutManifest" where
  "build_profiled_signed_manifest X J request key =
     rbind (map_err Builder (build_manifest X request)) (\<lambda>manifest.
     map_err Builder (rbind (canonical_manifest_bytes (js_coinbase J) manifest) (\<lambda>canonical_manifest.
       Inr \<lparr> sm_manifest = manifest,
             sm_signature = \<lparr> algorithm = ''ed25519'', public_key_hex = signing_public_key_hex X key,
               signature_hex = sign_message_hex X key canonical_manifest \<rparr> \<rparr>)))"

text \<open>The coinbase request of a bundle: the builders and the verifier fill it the same way.\<close>

definition audit_coinbase_request ::
  "PrismRewardManifest \<Rightarrow> PayoutPolicyManifest \<Rightarrow> WeightedEntitlement list \<Rightarrow> string \<Rightarrow> string list \<Rightarrow> string option \<Rightarrow>
     CoinbaseBuildRequest" where
  "audit_coinbase_request rm pm es root leaves suffix =
     \<lparr> block_height = rm_block_height rm, coinbase_value_sats = rm_coinbase_value_sats rm, entitlements = es,
       witness_nonce_hex = Some root, witness_merkle_leaves_hex = leaves,
       coinbase_script_sig_suffix_hex = suffix, pinned_first_output = pinned_first_output_for_policy pm \<rparr>"

definition build_audit_bundle_body_with_coinbase_options_parallel ::
  "crypto \<Rightarrow> json \<Rightarrow> AcceptedShare list \<Rightarrow> FoundBlock \<Rightarrow> WindowCut option \<Rightarrow> CarryForwardBalance list \<Rightarrow> PayoutPolicy \<Rightarrow>
     string option \<Rightarrow> string list \<Rightarrow> byte list \<Rightarrow> byte list \<Rightarrow> Parallelism \<Rightarrow> PrismError + AuditBundleBody" where
  "build_audit_bundle_body_with_coinbase_options_parallel X J shares fb wcut prior policy suffix leaves_hex
      coinbase_key ledger_key parallelism =
     (if eq_ignore_ascii_case (signing_public_key_hex X coinbase_key) (signing_public_key_hex X ledger_key)
      then Inl LedgerAttestationKeyReuse
      else
        rbind (build_prism_reward_manifest_parallel X shares fb wcut parallelism) (\<lambda>rm.
        rbind (build_ledger_window_attestation X J rm prior ledger_key) (\<lambda>attestation.
        rbind (apply_payout_policy rm prior policy) (\<lambda>pm.
        rbind (map_err PrismJson (reward_manifest_sha256 X J rm parallelism)) (\<lambda>reward_hash.
        rbind (canonical_payout_policy_manifest_bytes J pm) (\<lambda>policy_bytes.
        let leaves = [commitment_leaf_hex X reward_hash (sha256 X policy_bytes)] in
        rbind (audit_commitment_root_hex X leaves) (\<lambda>root.
        rbind (build_profiled_signed_manifest X J
                 (audit_coinbase_request rm pm (onchain_entitlements pm) root leaves_hex suffix) coinbase_key) (\<lambda>sm.
          Inr \<lparr> ab_schema = audit_bundle_schema_for_shares shares, ab_found_block = fb, ab_prior_balances = prior,
                ab_payout_policy = policy, ab_coinbase_script_sig_suffix_hex = suffix,
                ab_witness_merkle_leaves_hex = leaves_hex, ab_audit_commitment_leaves_hex = leaves,
                ab_audit_commitment_root_hex = Some root, ab_ledger_window_attestation = attestation,
                ab_reward_manifest = rm, ab_payout_policy_manifest = pm, ab_settlement_mode_decision = None,
                ab_ctv_fanout_fee_policy = None, ab_ctv_fanout_manifest_set = None,
                ab_signed_coinbase_manifest = sm \<rparr>))))))))"

definition build_audit_bundle_body_with_coinbase_options ::
  "crypto \<Rightarrow> json \<Rightarrow> AcceptedShare list \<Rightarrow> FoundBlock \<Rightarrow> CarryForwardBalance list \<Rightarrow> PayoutPolicy \<Rightarrow> string option \<Rightarrow>
     string list \<Rightarrow> byte list \<Rightarrow> byte list \<Rightarrow> PrismError + AuditBundleBody" where
  "build_audit_bundle_body_with_coinbase_options X J shares fb prior policy suffix leaves_hex coinbase_key ledger_key =
     build_audit_bundle_body_with_coinbase_options_parallel X J shares fb None prior policy suffix leaves_hex
       coinbase_key ledger_key parallelism_serial"

definition build_audit_bundle_with_coinbase_options ::
  "crypto \<Rightarrow> json \<Rightarrow> AcceptedShare list \<Rightarrow> FoundBlock \<Rightarrow> CarryForwardBalance list \<Rightarrow> PayoutPolicy \<Rightarrow> string option \<Rightarrow>
     string list \<Rightarrow> byte list \<Rightarrow> byte list \<Rightarrow> PrismError + AuditBundle" where
  "build_audit_bundle_with_coinbase_options X J shares fb prior policy suffix leaves_hex coinbase_key ledger_key =
     rbind (build_audit_bundle_body_with_coinbase_options X J shares fb prior policy suffix leaves_hex coinbase_key
              ledger_key) (\<lambda>body. Inr (into_bundle body shares))"

definition build_audit_bundle_body_with_coinbase_script_sig_suffix ::
  "crypto \<Rightarrow> json \<Rightarrow> AcceptedShare list \<Rightarrow> FoundBlock \<Rightarrow> CarryForwardBalance list \<Rightarrow> PayoutPolicy \<Rightarrow> string option \<Rightarrow>
     byte list \<Rightarrow> byte list \<Rightarrow> PrismError + AuditBundleBody" where
  "build_audit_bundle_body_with_coinbase_script_sig_suffix X J shares fb prior policy suffix coinbase_key ledger_key =
     build_audit_bundle_body_with_coinbase_options X J shares fb prior policy suffix [] coinbase_key ledger_key"

definition build_audit_bundle_with_coinbase_script_sig_suffix ::
  "crypto \<Rightarrow> json \<Rightarrow> AcceptedShare list \<Rightarrow> FoundBlock \<Rightarrow> CarryForwardBalance list \<Rightarrow> PayoutPolicy \<Rightarrow> string option \<Rightarrow>
     byte list \<Rightarrow> byte list \<Rightarrow> PrismError + AuditBundle" where
  "build_audit_bundle_with_coinbase_script_sig_suffix X J shares fb prior policy suffix coinbase_key ledger_key =
     rbind (build_audit_bundle_body_with_coinbase_script_sig_suffix X J shares fb prior policy suffix coinbase_key
              ledger_key) (\<lambda>body. Inr (into_bundle body shares))"

definition build_audit_bundle_body ::
  "crypto \<Rightarrow> json \<Rightarrow> AcceptedShare list \<Rightarrow> FoundBlock \<Rightarrow> CarryForwardBalance list \<Rightarrow> PayoutPolicy \<Rightarrow> byte list \<Rightarrow>
     byte list \<Rightarrow> PrismError + AuditBundleBody" where
  "build_audit_bundle_body X J shares fb prior policy coinbase_key ledger_key =
     build_audit_bundle_body_with_coinbase_script_sig_suffix X J shares fb prior policy None coinbase_key ledger_key"

definition build_audit_bundle ::
  "crypto \<Rightarrow> json \<Rightarrow> AcceptedShare list \<Rightarrow> FoundBlock \<Rightarrow> CarryForwardBalance list \<Rightarrow> PayoutPolicy \<Rightarrow> byte list \<Rightarrow>
     byte list \<Rightarrow> PrismError + AuditBundle" where
  "build_audit_bundle X J shares fb prior policy coinbase_key ledger_key =
     rbind (build_audit_bundle_body X J shares fb prior policy coinbase_key ledger_key) (\<lambda>body.
       Inr (into_bundle body shares))"

section \<open>Building a bundle with fan-outs\<close>

definition record_fee_recipient ::
  "(string, FanoutFeeRecipient) btree \<Rightarrow> FanoutFeeRecipient \<Rightarrow> PrismError + (string, FanoutFeeRecipient) btree" where
  "record_fee_recipient m r =
     (let key = account_key (recipient_id r) (order_key r) (p2mr_program_hex r) in
      if bt_lookup m key \<noteq> None then Inl (SettlementModeSelection ''duplicate fanout fee recipient'')
      else Inr (bt_insert key r m))"

definition charge_chunk ::
  "crypto \<Rightarrow> FanoutFeeRatePolicy \<Rightarrow> u64 \<Rightarrow> (string, FanoutFeeRecipient) btree \<Rightarrow> SettlementFanoutChunk \<Rightarrow>
     PrismError + (string, FanoutFeeRecipient) btree" where
  "charge_chunk X fee_policy floor m chunk =
     rbind (estimate_ctv_fanout_fee_sats (length (sc_recipients chunk)) fee_policy) (\<lambda>fee.
     rbind (apply_proportional_fanout_fee X (sc_recipients chunk) fee floor) (\<lambda>d.
       if carry_forward_recipients d \<noteq> []
       then Inl (SettlementModeSelection ''fanout fee would push a recipient below the payout floor'')
       else rfold record_fee_recipient m (payable_recipients d)))"

definition charge_account ::
  "(string, FanoutFeeRecipient) btree \<Rightarrow> PayoutPolicyAccount \<Rightarrow> PrismError + PayoutPolicyAccount" where
  "charge_account m a =
     (case bt_lookup m (account_key (recipient_id a) (order_key a) (p2mr_program_hex a)) of
        None \<Rightarrow> Inr a
      | Some r \<Rightarrow>
          if onchain_amount_sats a \<noteq> fr_gross_amount_sats r then Inl (AuditMismatch ''ctv_fanout_fee_accounting'')
          else Inr (a \<lparr> settlement_fee_sats := fee_sats r \<rparr>))"

text \<open>The manifest the function updates in place is returned with the recipients.\<close>

definition apply_ctv_fanout_fee_accounting ::
  "crypto \<Rightarrow> PayoutPolicyManifest \<Rightarrow> SettlementModeDecision \<Rightarrow> FanoutFeeRatePolicy \<Rightarrow>
     PrismError + PayoutPolicyManifest \<times> (string, FanoutFeeRecipient) btree" where
  "apply_ctv_fanout_fee_accounting X pm decision fee_policy =
     rbind (rfold (charge_chunk X fee_policy (pp_min_output_sats pm)) [] (fanout_chunks decision)) (\<lambda>m.
     rbind (rmap (charge_account m) (accounts pm)) (\<lambda>accs.
       Inr (pm \<lparr> accounts := accs \<rparr>, m)))"

definition settlement_recipients_from_entitlements :: "WeightedEntitlement list \<Rightarrow> PrismError + SettlementRecipient list" where
  "settlement_recipients_from_entitlements es =
     rmap (\<lambda>e. rbind (ok_or (try_from 64 (weight e)) PayoutPolicyOverflow) (\<lambda>amount.
       Inr \<lparr> recipient_id = recipient_id e, order_key = order_key e, p2mr_program_hex = p2mr_program_hex e,
             sr_amount_sats = amount \<rparr>)) es"

definition direct_entitlement :: "SettlementRecipient \<Rightarrow> WeightedEntitlement" where
  "direct_entitlement r = \<lparr> recipient_id = recipient_id r, order_key = order_key r,
     p2mr_program_hex = p2mr_program_hex r, weight = sr_amount_sats r \<rparr>"

definition ctv_settlement_coinbase_entitlements ::
  "SettlementModeDecision \<Rightarrow> PreparedCtvFanout list \<Rightarrow> PrismError + WeightedEntitlement list" where
  "ctv_settlement_coinbase_entitlements decision prepared =
     (if length prepared \<noteq> length (fanout_chunks decision) then Inl (AuditMismatch ''ctv_fanout_chunk_count'')
      else Inr (map direct_entitlement (direct_recipients decision) @
        map (\<lambda>f. \<lparr> recipient_id = pr_covenant_recipient_id f, order_key = pr_covenant_order_key f,
               p2mr_program_hex = pr_covenant_p2mr_program_hex f, weight = pr_covenant_output_value_sats f \<rparr>) prepared))"

definition find_coinbase_output_vout :: "PayoutManifest \<Rightarrow> string \<Rightarrow> string \<Rightarrow> string \<Rightarrow> u64 \<Rightarrow> PrismError + u32" where
  "find_coinbase_output_vout m rid key program amount =
     rbind (ok_or (find (\<lambda>out. recipient_id out = rid \<and> order_key out = key \<and>
              p2mr_program_hex out = program \<and> po_amount_sats out = amount) (pm_outputs m))
             (AuditMismatch ''ctv_coinbase_output'')) (\<lambda>out.
       ok_or (try_from 32 (vout out)) (AuditMismatch ''ctv_coinbase_output_vout''))"

definition fanout_payout :: "(string, FanoutFeeRecipient) btree \<Rightarrow> SettlementRecipient \<Rightarrow> CtvFanoutPayout" where
  "fanout_payout fee_recipients r =
     (let fee_recipient = bt_lookup fee_recipients (account_key (recipient_id r) (order_key r) (p2mr_program_hex r)) in
      \<lparr> recipient_id = recipient_id r, order_key = order_key r, p2mr_program_hex = p2mr_program_hex r,
        cp_gross_amount_sats = (case fee_recipient of Some f \<Rightarrow> fr_gross_amount_sats f | None \<Rightarrow> 0),
        cp_fee_sats = (case fee_recipient of Some f \<Rightarrow> fee_sats f | None \<Rightarrow> 0),
        cp_amount_sats = (case fee_recipient of Some f \<Rightarrow> net_amount_sats f | None \<Rightarrow> sr_amount_sats r) \<rparr>)"

definition prepare_chunk ::
  "crypto \<Rightarrow> json \<Rightarrow> PrismRewardManifest \<Rightarrow> SettlementModeDecision \<Rightarrow> string \<Rightarrow> string \<Rightarrow>
     (string, FanoutFeeRecipient) btree \<Rightarrow> SettlementFanoutChunk \<Rightarrow> PrismError + PreparedCtvFanout" where
  "prepare_chunk X J rm decision reward_hex policy_hex fee_recipients chunk =
     rbind (ok_or (try_from 32 (sc_chunk_index chunk)) PayoutPolicyOverflow) (\<lambda>chunk_index.
     rbind (ok_or (try_from 32 (fanout_chunk_count_d decision)) PayoutPolicyOverflow) (\<lambda>chunk_count.
       prepare_ctv_fanout_precommitment X (js_precommitment J)
         \<lparr> ci_block_height = rm_block_height rm, ci_chunk_index = chunk_index, ci_chunk_count = chunk_count,
           ci_coinbase_value_sats = rm_coinbase_value_sats rm, ci_settlement_mode = mode decision,
           ci_reward_manifest_sha256_hex = reward_hex, ci_payout_policy_manifest_sha256_hex = policy_hex,
           ci_payouts = map (fanout_payout fee_recipients) (sc_recipients chunk) \<rparr>))"

text \<open>Payout derivation: the policy, the settlement mode and the fees of the fan-outs.\<close>

definition derive_ctv_settlement ::
  "crypto \<Rightarrow> PrismRewardManifest \<Rightarrow> CarryForwardBalance list \<Rightarrow> PayoutPolicy \<Rightarrow> u64 \<Rightarrow> SettlementModeConfig \<Rightarrow>
     FanoutFeeRatePolicy option \<Rightarrow>
     PrismError + PayoutPolicyManifest \<times> SettlementModeDecision \<times> (string, FanoutFeeRecipient) btree" where
  "derive_ctv_settlement X rm prior policy direct_floor config fee_policy =
     rbind (apply_payout_policy rm prior policy) (\<lambda>pm.
     rbind (settlement_recipients_from_entitlements (onchain_entitlements pm)) (\<lambda>recipients.
     rbind (select_settlement_mode_with_pinned_direct X recipients direct_floor config
              (pinned_settlement_recipient_for_policy pm)) (\<lambda>decision.
     case fee_policy of
       None \<Rightarrow> Inr (pm, decision, [])
     | Some fee \<Rightarrow> rbind (apply_ctv_fanout_fee_accounting X pm decision fee) (\<lambda>(pm, fee_recipients).
         Inr (pm, decision, fee_recipients)))))"

definition finish_fanouts ::
  "crypto \<Rightarrow> json \<Rightarrow> PayoutManifest \<Rightarrow> PreparedCtvFanout list \<Rightarrow> PrismError + CtvFanoutManifestSet option" where
  "finish_fanouts X J coinbase prepared =
     (if prepared = [] then Inr None
      else
        rbind (rmap (\<lambda>f.
          rbind (find_coinbase_output_vout coinbase (pr_covenant_recipient_id f) (pr_covenant_order_key f)
                   (pr_covenant_p2mr_program_hex f) (pr_covenant_output_value_sats f)) (\<lambda>parent_vout.
            build_ctv_fanout_manifest_from_precommitment X (js_precommitment J) (pr_precommitment f)
              (coinbase_tx_hex coinbase) parent_vout)) prepared) (\<lambda>manifests.
        rbind (build_ctv_fanout_manifest_set X (js_precommitment J) manifests) (\<lambda>ms. Inr (Some ms))))"

definition build_audit_bundle_body_with_ctv_settlement_options_parallel ::
  "crypto \<Rightarrow> json \<Rightarrow> AcceptedShare list \<Rightarrow> FoundBlock \<Rightarrow> WindowCut option \<Rightarrow> CarryForwardBalance list \<Rightarrow> PayoutPolicy \<Rightarrow>
     u64 \<Rightarrow> SettlementModeConfig \<Rightarrow> FanoutFeeRatePolicy option \<Rightarrow> string option \<Rightarrow> string list \<Rightarrow> byte list \<Rightarrow> byte list \<Rightarrow>
     Parallelism \<Rightarrow> PrismError + AuditBundleBody" where
  "build_audit_bundle_body_with_ctv_settlement_options_parallel X J shares fb wcut prior policy direct_floor config
      fee_policy suffix leaves_hex coinbase_key ledger_key parallelism =
     (if eq_ignore_ascii_case (signing_public_key_hex X coinbase_key) (signing_public_key_hex X ledger_key)
      then Inl LedgerAttestationKeyReuse
      else
        rbind (build_prism_reward_manifest_parallel X shares fb wcut parallelism) (\<lambda>rm.
        rbind (build_ledger_window_attestation X J rm prior ledger_key) (\<lambda>attestation.
        rbind (derive_ctv_settlement X rm prior policy direct_floor config fee_policy) (\<lambda>(pm, decision, fee_recipients).
        rbind (map_err PrismJson (reward_manifest_sha256 X J rm parallelism)) (\<lambda>reward_hash.
        rbind (canonical_payout_policy_manifest_bytes J pm) (\<lambda>policy_bytes.
        let policy_hash = sha256 X policy_bytes in
        rbind (rmap (prepare_chunk X J rm decision (hex_encode X reward_hash) (hex_encode X policy_hash) fee_recipients)
                 (fanout_chunks decision)) (\<lambda>prepared.
        let leaves = commitment_leaf_hex X reward_hash policy_hash # map pr_commitment_witness_leaf_hex prepared in
        rbind (audit_commitment_root_hex X leaves) (\<lambda>root.
        rbind (ctv_settlement_coinbase_entitlements decision prepared) (\<lambda>es.
        rbind (build_profiled_signed_manifest X J (audit_coinbase_request rm pm es root leaves_hex suffix) coinbase_key) (\<lambda>sm.
        rbind (finish_fanouts X J (sm_manifest sm) prepared) (\<lambda>manifest_set.
          Inr \<lparr> ab_schema = audit_bundle_schema_for_shares shares, ab_found_block = fb, ab_prior_balances = prior,
                ab_payout_policy = policy, ab_coinbase_script_sig_suffix_hex = suffix,
                ab_witness_merkle_leaves_hex = leaves_hex, ab_audit_commitment_leaves_hex = leaves,
                ab_audit_commitment_root_hex = Some root, ab_ledger_window_attestation = attestation,
                ab_reward_manifest = rm, ab_payout_policy_manifest = pm, ab_settlement_mode_decision = Some decision,
                ab_ctv_fanout_fee_policy = fee_policy, ab_ctv_fanout_manifest_set = manifest_set,
                ab_signed_coinbase_manifest = sm \<rparr>)))))))))))"

definition build_audit_bundle_body_with_ctv_settlement_options ::
  "crypto \<Rightarrow> json \<Rightarrow> AcceptedShare list \<Rightarrow> FoundBlock \<Rightarrow> CarryForwardBalance list \<Rightarrow> PayoutPolicy \<Rightarrow>
     u64 \<Rightarrow> SettlementModeConfig \<Rightarrow> FanoutFeeRatePolicy option \<Rightarrow> string option \<Rightarrow> string list \<Rightarrow> byte list \<Rightarrow> byte list \<Rightarrow>
     PrismError + AuditBundleBody" where
  "build_audit_bundle_body_with_ctv_settlement_options X J shares fb prior policy direct_floor config fee_policy suffix
      leaves_hex coinbase_key ledger_key =
     build_audit_bundle_body_with_ctv_settlement_options_parallel X J shares fb None prior policy direct_floor config
       fee_policy suffix leaves_hex coinbase_key ledger_key parallelism_serial"

definition build_audit_bundle_with_ctv_settlement_options ::
  "crypto \<Rightarrow> json \<Rightarrow> AcceptedShare list \<Rightarrow> FoundBlock \<Rightarrow> CarryForwardBalance list \<Rightarrow> PayoutPolicy \<Rightarrow>
     u64 \<Rightarrow> SettlementModeConfig \<Rightarrow> FanoutFeeRatePolicy option \<Rightarrow> string option \<Rightarrow> string list \<Rightarrow> byte list \<Rightarrow> byte list \<Rightarrow>
     PrismError + AuditBundle" where
  "build_audit_bundle_with_ctv_settlement_options X J shares fb prior policy direct_floor config fee_policy suffix
      leaves_hex coinbase_key ledger_key =
     rbind (build_audit_bundle_body_with_ctv_settlement_options X J shares fb prior policy direct_floor config fee_policy
              suffix leaves_hex coinbase_key ledger_key) (\<lambda>body. Inr (into_bundle body shares))"

section \<open>Verifying a bundle\<close>

definition settlement_recipient_order :: "SettlementRecipient \<Rightarrow> string \<times> string \<times> string \<times> u64" where
  "settlement_recipient_order r = (order_key r, recipient_id r, p2mr_program_hex r, sr_amount_sats r)"

definition covered_recipient :: "CtvFanoutOutput \<Rightarrow> SettlementRecipient" where
  "covered_recipient out =
     \<lparr> recipient_id = recipient_id out, order_key = order_key out, p2mr_program_hex = p2mr_program_hex out,
       sr_amount_sats = (if fo_gross_amount_sats out = 0 then fo_amount_sats out else fo_gross_amount_sats out) \<rparr>"

definition covenant_entitlement :: "CtvFanoutManifest \<Rightarrow> WeightedEntitlement" where
  "covenant_entitlement m =
     (let chunk_index = pc_chunk_index (cm_precommitment m) in
      \<lparr> recipient_id = ''ctv-fanout-'' @ show_nat chunk_index,
        order_key = ''ctv-fanout-'' @ show_nat_padded 8 chunk_index,
        p2mr_program_hex = pc_p2mr_program_hex (cm_precommitment m),
        weight = cm_covenant_output_value_sats m \<rparr>)"

text \<open>One round of the loop over the manifests, which extends the covered recipients and the entitlements.\<close>

definition cover_manifest ::
  "crypto \<Rightarrow> json \<Rightarrow> PayoutManifest \<Rightarrow> string list \<Rightarrow> SettlementRecipient list \<times> WeightedEntitlement list \<Rightarrow>
     CtvFanoutManifest \<Rightarrow> PrismError + SettlementRecipient list \<times> WeightedEntitlement list" where
  "cover_manifest X J coinbase leaves st m =
     (let (covered, es) = st in
      rbind (audit_check (cm_parent_coinbase_tx_hex m = coinbase_tx_hex coinbase) ''ctv_fanout_parent_coinbase_tx'') (\<lambda>_.
      rbind (verify_ctv_fanout_manifest_commitment_leaf X (js_precommitment J) m leaves) (\<lambda>_.
        Inr (covered @ map covered_recipient (pc_outputs (cm_precommitment m)), es @ [covenant_entitlement m]))))"

definition verify_fanout_coverage ::
  "crypto \<Rightarrow> json \<Rightarrow> SettlementModeDecision \<Rightarrow> CtvFanoutManifestSet option \<Rightarrow> PayoutManifest \<Rightarrow> string list \<Rightarrow>
     PrismError + SettlementRecipient list \<times> WeightedEntitlement list" where
  "verify_fanout_coverage X J decision fanout_set coinbase leaves =
     (let direct = (direct_recipients decision, map direct_entitlement (direct_recipients decision)) in
      if fanout_chunk_count_d decision = 0
      then rbind (audit_check (fanout_set = None) ''unexpected_ctv_fanout_manifest_set'') (\<lambda>_. Inr direct)
      else
        rbind (ok_or fanout_set (AuditMismatch ''ctv_fanout_manifest_set'')) (\<lambda>ms.
        rbind (verify_ctv_fanout_manifest_set X (js_precommitment J) ms) (\<lambda>_.
        rbind (audit_check (ms_parent_coinbase_txid ms = coinbase_txid coinbase) ''ctv_fanout_parent_coinbase'') (\<lambda>_.
        rbind (audit_check (ms_settlement_mode ms = mode decision) ''ctv_fanout_settlement_mode'') (\<lambda>_.
        rbind (audit_check (ms_fanout_count ms = fanout_chunk_count_d decision) ''ctv_fanout_chunk_count'') (\<lambda>_.
          rfold (cover_manifest X J coinbase leaves) direct (ms_manifests ms)))))))"

definition verify_ctv_settlement_bundle ::
  "crypto \<Rightarrow> json \<Rightarrow> SettlementModeDecision \<Rightarrow> CtvFanoutManifestSet option \<Rightarrow> PayoutPolicyManifest \<Rightarrow> PayoutManifest \<Rightarrow>
     string list \<Rightarrow> PrismError + WeightedEntitlement list" where
  "verify_ctv_settlement_bundle X J decision fanout_set pm coinbase leaves =
     rbind (verify_fanout_coverage X J decision fanout_set coinbase leaves) (\<lambda>(covered, es).
     rbind (settlement_recipients_from_entitlements (onchain_entitlements pm)) (\<lambda>expected.
     rbind (audit_check (sort_key settlement_recipient_order covered = sort_key settlement_recipient_order expected)
              ''ctv_settlement_coverage'') (\<lambda>_. Inr es)))"

definition matches_pool_fee :: "PoolFeeManifest \<Rightarrow> ('x) payee_scheme \<Rightarrow> bool" where
  "matches_pool_fee fee p \<longleftrightarrow> recipient_id p = recipient_id fee \<and> order_key p = order_key fee \<and>
     eq_ignore_ascii_case (p2mr_program_hex p) (p2mr_program_hex fee)"

definition verify_coinbase_output_policy ::
  "PayoutPolicyManifest \<Rightarrow> SettlementModeDecision option \<Rightarrow> PayoutManifest \<Rightarrow> PrismError + unit" where
  "verify_coinbase_output_policy pm decision coinbase =
     (case pool_fee_first_output pm of
        None \<Rightarrow> Inr ()
      | Some fee \<Rightarrow>
          (case pm_outputs coinbase of
             [] \<Rightarrow> Inl (AuditMismatch ''coinbase_output_policy'')
           | first # _ \<Rightarrow>
               if vout first \<noteq> 0 \<or> \<not> matches_pool_fee fee first \<or> po_amount_sats first \<noteq> pf_amount_sats fee
               then Inl (AuditMismatch ''coinbase_output_policy'')
               else
                 (case decision of
                    None \<Rightarrow> Inr ()
                  | Some d \<Rightarrow>
                      let fee_is_direct = (\<exists>r\<in>set (direct_recipients d). matches_pool_fee fee r);
                          fee_in_fanout = (\<exists>c\<in>set (fanout_chunks d). \<exists>r\<in>set (sc_recipients c). matches_pool_fee fee r) in
                      if \<not> fee_is_direct \<or> fee_in_fanout then Inl (AuditMismatch ''coinbase_output_policy'')
                      else Inr ())))"

definition hex_vec_eq_ignore_ascii_case :: "string list \<Rightarrow> string list \<Rightarrow> bool" where
  "hex_vec_eq_ignore_ascii_case left right \<longleftrightarrow>
     length left = length right \<and> (\<forall>(l, r)\<in>set (zip left right). eq_ignore_ascii_case l r)"

definition audit_verification_report :: "crypto \<Rightarrow> json \<Rightarrow> AuditBundle \<Rightarrow> PayoutManifest \<Rightarrow> PrismError + AuditVerificationReport" where
  "audit_verification_report X J bundle coinbase =
     rbind (canonical_reward_manifest_bytes J (ab_reward_manifest bundle)) (\<lambda>reward_bytes.
     rbind (canonical_payout_policy_manifest_bytes J (ab_payout_policy_manifest bundle)) (\<lambda>policy_bytes.
     rbind (prism_audit_commitment_leaf_hex X J (ab_reward_manifest bundle) (ab_payout_policy_manifest bundle)) (\<lambda>leaf.
     rbind (audit_commitment_root_hex X (ab_audit_commitment_leaves_hex bundle)) (\<lambda>root.
     rbind (map_err PrismJson (js_coinbase J coinbase)) (\<lambda>coinbase_bytes.
     rbind (canonical_audit_bundle_bytes J bundle) (\<lambda>bundle_bytes.
       Inr \<lparr> vr_schema = ''qbit.prism.audit-verification-report.v1'',
             vr_block_height = fb_block_height (ab_found_block bundle),
             vr_coinbase_value_sats = fb_coinbase_value_sats (ab_found_block bundle),
             vr_reward_manifest_sha256_hex = sha256_hex X reward_bytes,
             vr_payout_policy_manifest_sha256_hex = sha256_hex X policy_bytes,
             vr_prism_audit_commitment_leaf_hex = leaf, vr_audit_commitment_root_hex = root,
             vr_coinbase_manifest_sha256_hex = sha256_hex X coinbase_bytes,
             vr_audit_bundle_sha256_hex = sha256_hex X bundle_bytes,
             vr_coinbase_txid = coinbase_txid coinbase, vr_coinbase_wtxid = coinbase_wtxid coinbase,
             vr_coinbase_tx_hex = coinbase_tx_hex coinbase,
             vr_min_output_sats = pp_min_output_sats (ab_payout_policy_manifest bundle),
             vr_coinbase_output_policy = pp_coinbase_output_policy (ab_payout_policy_manifest bundle),
             vr_onchain_output_count = length (pm_outputs coinbase),
             vr_accrued_account_count =
               length (filter (\<lambda>a. action a = Accrued) (accounts (ab_payout_policy_manifest bundle))) \<rparr>))))))"

text \<open>
  The verifier recomputes everything from the shares, the found block, the prior balances and the
  policy of the bundle. It is written in the paragraphs of the source: the policy manifest, the
  entitlements and commitment leaves, and the coinbase.
\<close>

definition expected_policy_manifest ::
  "crypto \<Rightarrow> AuditBundle \<Rightarrow> PrismRewardManifest \<Rightarrow> PrismError + PayoutPolicyManifest" where
  "expected_policy_manifest X bundle rm =
     rbind (apply_payout_policy rm (ab_prior_balances bundle) (ab_payout_policy bundle)) (\<lambda>pm.
     case (ab_settlement_mode_decision bundle, ab_ctv_fanout_fee_policy bundle) of
       (Some decision, Some fee_policy) \<Rightarrow>
         rbind (apply_ctv_fanout_fee_accounting X pm decision fee_policy) (\<lambda>(pm, _). Inr pm)
     | _ \<Rightarrow> Inr pm)"

definition expected_entitlements_and_leaves ::
  "crypto \<Rightarrow> json \<Rightarrow> AuditBundle \<Rightarrow> PayoutPolicyManifest \<Rightarrow> string \<Rightarrow> PrismError + WeightedEntitlement list \<times> string list" where
  "expected_entitlements_and_leaves X J bundle pm leaf =
     (case ab_settlement_mode_decision bundle of
        None \<Rightarrow> Inr (onchain_entitlements pm, [leaf])
      | Some decision \<Rightarrow>
          rbind (verify_ctv_settlement_bundle X J decision (ab_ctv_fanout_manifest_set bundle) pm
                   (sm_manifest (ab_signed_coinbase_manifest bundle)) (ab_audit_commitment_leaves_hex bundle)) (\<lambda>es.
            Inr (es, leaf # (case ab_ctv_fanout_manifest_set bundle of
              None \<Rightarrow> [] | Some ms \<Rightarrow> map cm_commitment_witness_leaf_hex (ms_manifests ms)))))"

definition verify_audit_view :: "crypto \<Rightarrow> json \<Rightarrow> AuditBundle \<Rightarrow> string \<Rightarrow> PrismError + AuditVerificationReport" where
  "verify_audit_view X J bundle writer_key =
     (let coinbase = sm_manifest (ab_signed_coinbase_manifest bundle) in
      rbind (audit_check (ab_schema bundle = audit_bundle_schema_for_shares (ab_shares bundle)) ''schema'') (\<lambda>_.
      rbind (verify_ledger_window_attestation X J bundle writer_key) (\<lambda>_.
      rbind (map_err Builder (verify_signed_manifest X (js_coinbase J) (ab_signed_coinbase_manifest bundle))) (\<lambda>_.
      rbind (build_prism_reward_manifest_with_cut X (ab_shares bundle) (ab_found_block bundle)
               (rm_cut (ab_reward_manifest bundle))) (\<lambda>rm.
      rbind (audit_check (rm = ab_reward_manifest bundle) ''reward_manifest'') (\<lambda>_.
      rbind (expected_policy_manifest X bundle rm) (\<lambda>pm.
      rbind (audit_check (pm = ab_payout_policy_manifest bundle) ''payout_policy_manifest'') (\<lambda>_.
      rbind (verify_coinbase_output_policy pm (ab_settlement_mode_decision bundle) coinbase) (\<lambda>_.
      rbind (prism_audit_commitment_leaf_hex X J rm pm) (\<lambda>leaf.
      rbind (expected_entitlements_and_leaves X J bundle pm leaf) (\<lambda>(es, leaves).
      rbind (audit_check (hex_vec_eq_ignore_ascii_case (ab_audit_commitment_leaves_hex bundle) leaves)
               ''audit_commitment_leaves'') (\<lambda>_.
      rbind (audit_commitment_root_hex X leaves) (\<lambda>root.
      rbind (audit_check (case ab_audit_commitment_root_hex bundle of None \<Rightarrow> False
               | Some r \<Rightarrow> eq_ignore_ascii_case r root) ''audit_commitment_root'') (\<lambda>_.
      rbind (map_err Builder (build_manifest X (audit_coinbase_request rm pm es root
               (ab_witness_merkle_leaves_hex bundle) (ab_coinbase_script_sig_suffix_hex bundle)))) (\<lambda>expected_coinbase.
      rbind (audit_check (expected_coinbase = coinbase) ''coinbase_manifest'') (\<lambda>_.
        audit_verification_report X J bundle expected_coinbase))))))))))))))))"

definition verify_audit_bundle :: "crypto \<Rightarrow> json \<Rightarrow> AuditBundle \<Rightarrow> string \<Rightarrow> PrismError + AuditVerificationReport" where
  "verify_audit_bundle X J bundle writer_key = verify_audit_view X J bundle writer_key"

definition verify_audit_parts ::
  "crypto \<Rightarrow> json \<Rightarrow> AuditBundleBody \<Rightarrow> AcceptedShare list \<Rightarrow> string \<Rightarrow> PrismError + AuditVerificationReport" where
  "verify_audit_parts X J body shares writer_key = verify_audit_view X J (into_bundle body shares) writer_key"

definition verify_audit_bundle_with_ledger_public_key ::
  "crypto \<Rightarrow> json \<Rightarrow> AuditBundle \<Rightarrow> string \<Rightarrow> PrismError + AuditVerificationReport" where
  "verify_audit_bundle_with_ledger_public_key X J bundle writer_key = verify_audit_bundle X J bundle writer_key"

text \<open>\<^verbatim>\<open>str::trim\<close> removes the characters of Unicode's \<^verbatim>\<open>White_Space\<close>, here by their UTF-8 bytes.\<close>

definition utf8_white_space :: "string list" where
  "utf8_white_space = map (map char_of)
     ([[9], [10], [11], [12], [13], [32], [0xC2, 0x85], [0xC2, 0xA0], [0xE1, 0x9A, 0x80], [0xE2, 0x80, 0xA8],
       [0xE2, 0x80, 0xA9], [0xE2, 0x80, 0xAF], [0xE2, 0x81, 0x9F], [0xE3, 0x80, 0x80 :: nat]] @
      map (\<lambda>b. [0xE2, 0x80, b]) [0x80..<0x8B])"

definition strip_one :: "string list \<Rightarrow> string \<Rightarrow> string option" where
  "strip_one ws s = map_option (\<lambda>w. drop (length w) s) (find (\<lambda>w. w \<noteq> [] \<and> take (length w) s = w) ws)"

lemma strip_one_shorter: "strip_one ws s = Some t \<Longrightarrow> length t < length s"
  by (auto simp: strip_one_def find_Some_iff) (metis diff_less length_greater_0_conv take_Nil)

function trim_start :: "string list \<Rightarrow> string \<Rightarrow> string" where
  "trim_start ws s = (case strip_one ws s of None \<Rightarrow> s | Some t \<Rightarrow> trim_start ws t)"
  by pat_completeness auto
termination
  by (relation "measure (\<lambda>(ws, s). length s)") (auto dest: strip_one_shorter)

declare trim_start.simps [simp del]

definition trim :: "string \<Rightarrow> string" where
  "trim s = rev (trim_start (map rev utf8_white_space) (rev (trim_start utf8_white_space s)))"

definition verify_audit_view_against_coinbase_tx_hex ::
  "crypto \<Rightarrow> json \<Rightarrow> AuditBundle \<Rightarrow> string \<Rightarrow> string \<Rightarrow> PrismError + AuditVerificationReport" where
  "verify_audit_view_against_coinbase_tx_hex X J bundle onchain_hex writer_key =
     rbind (verify_audit_view X J bundle writer_key) (\<lambda>report.
       if \<not> eq_ignore_ascii_case (vr_coinbase_tx_hex report) (trim onchain_hex) then Inl AuditCoinbaseTxMismatch
       else Inr report)"

definition verify_audit_bundle_against_coinbase_tx_hex ::
  "crypto \<Rightarrow> json \<Rightarrow> AuditBundle \<Rightarrow> string \<Rightarrow> string \<Rightarrow> PrismError + AuditVerificationReport" where
  "verify_audit_bundle_against_coinbase_tx_hex X J bundle onchain_hex writer_key =
     verify_audit_view_against_coinbase_tx_hex X J bundle onchain_hex writer_key"

definition verify_audit_parts_against_coinbase_tx_hex ::
  "crypto \<Rightarrow> json \<Rightarrow> AuditBundleBody \<Rightarrow> AcceptedShare list \<Rightarrow> string \<Rightarrow> string \<Rightarrow> PrismError + AuditVerificationReport" where
  "verify_audit_parts_against_coinbase_tx_hex X J body shares onchain_hex writer_key =
     verify_audit_view_against_coinbase_tx_hex X J (into_bundle body shares) onchain_hex writer_key"

definition verify_audit_view_against_coinbase_tx_hex_and_expected_coinbase_value ::
  "crypto \<Rightarrow> json \<Rightarrow> AuditBundle \<Rightarrow> string \<Rightarrow> string \<Rightarrow> u64 \<Rightarrow> PrismError + AuditVerificationReport" where
  "verify_audit_view_against_coinbase_tx_hex_and_expected_coinbase_value X J bundle onchain_hex writer_key expected =
     rbind (verify_audit_view_against_coinbase_tx_hex X J bundle onchain_hex writer_key) (\<lambda>report.
       if vr_coinbase_value_sats report \<noteq> expected
       then Inl (ExpectedCoinbaseValueMismatch expected (vr_coinbase_value_sats report))
       else Inr report)"

definition verify_audit_bundle_against_coinbase_tx_hex_and_expected_coinbase_value ::
  "crypto \<Rightarrow> json \<Rightarrow> AuditBundle \<Rightarrow> string \<Rightarrow> string \<Rightarrow> u64 \<Rightarrow> PrismError + AuditVerificationReport" where
  "verify_audit_bundle_against_coinbase_tx_hex_and_expected_coinbase_value X J bundle onchain_hex writer_key expected =
     verify_audit_view_against_coinbase_tx_hex_and_expected_coinbase_value X J bundle onchain_hex writer_key expected"

definition verify_audit_parts_against_coinbase_tx_hex_and_expected_coinbase_value ::
  "crypto \<Rightarrow> json \<Rightarrow> AuditBundleBody \<Rightarrow> AcceptedShare list \<Rightarrow> string \<Rightarrow> string \<Rightarrow> u64 \<Rightarrow> PrismError + AuditVerificationReport" where
  "verify_audit_parts_against_coinbase_tx_hex_and_expected_coinbase_value X J body shares onchain_hex writer_key expected =
     verify_audit_view_against_coinbase_tx_hex_and_expected_coinbase_value X J (into_bundle body shares) onchain_hex
       writer_key expected"

end
