(* ===== verification/Coinbase_Codec.thy ===== *)
theory Coinbase_Codec
  imports Ctv_Lifecycle
begin

text \<open>
  The coinbase of \<open>Pool_Builder\<close> seen by the transaction reader of \<open>Ctv_Codec\<close>: two crates that
  write and read transactions independently. The lemmas identify the bytes the builder writes with a
  serialization the reader knows, and say when the builder succeeds.
\<close>

section \<open>The bytes of a coinbase\<close>

definition coinbase_input :: "byte list \<Rightarrow> byte list \<Rightarrow> TxInputSpec" where
  "coinbase_input script_sig nonce =
     \<lparr> ti_prev_txid_hex = concat (replicate 32 ''00''), ti_prev_vout = 0xffffffff, ti_script_sig = script_sig,
       ti_sequence = MAX_SEQUENCE_NONFINAL, is_witness_stack = [nonce] \<rparr>"

definition coinbase_tx_outs :: "AllocatedOutput list \<Rightarrow> byte list \<Rightarrow> ParsedTxOut list" where
  "coinbase_tx_outs outs commitment =
     map (\<lambda>out. \<lparr> to_amount_sats = amount_sats out, to_script_pubkey = script_pubkey out \<rparr>) outs @
     [\<lparr> to_amount_sats = 0, to_script_pubkey = commitment \<rparr>]"

lemma coinbase_input_bytes:
  assumes "hex_law X" "hex_text_law X"
  shows "tx_in_bytes X (coinbase_input script_sig nonce) = replicate 32 0 @ le_bytes 4 0xffffffff @
    compact_size (length script_sig) @ script_sig @ le_bytes 4 MAX_SEQUENCE_NONFINAL"
  using zero_txid[OF assms] by (simp add: tx_in_bytes_def prev_txid_bytes_def tx_in_tail_def coinbase_input_def)

lemma coinbase_serialized:
  assumes "hex_law X" "hex_text_law X"
  shows "serialize_outputs (le_bytes 4 2 @ flag @ compact_size 1 @ replicate 32 0 @ le_bytes 4 0xffffffff @
      compact_size (length script_sig) @ script_sig @ le_bytes 4 MAX_SEQUENCE_NONFINAL) outs commitment @ tail =
    le_bytes 4 2 @ flag @ tx_body X [coinbase_input script_sig nonce] (coinbase_tx_outs outs commitment) @ tail"
  using coinbase_input_bytes[OF assms, of script_sig nonce]
  by (simp add: tx_body_def serialize_outputs_def coinbase_tx_outs_def serialize_tx_out_def comp_def)

lemma build_coinbase_Inr:
  assumes laws: "hex_law X" "hex_text_law X" and run: "build_coinbase X request = Inr built"
  obtains nonce script_sig leaves where "allocate_outputs X request = Inr (bc_outputs built)"
    "witness_nonce X request = Inr nonce" "length script_sig \<le> MAX_COINBASE_SCRIPT_SIG_LEN"
    "coinbase_script_sig X request = Inr script_sig" "witness_leaves X request = Inr leaves"
    "bc_witness_commitment_script built = witness_commitment_script X leaves nonce"
    "0 < block_height request" "block_height request < 2 ^ 32"
    "tx_with_witness built = tx_bytes X 2 [0, 1] [coinbase_input script_sig nonce]
       (coinbase_tx_outs (bc_outputs built) (bc_witness_commitment_script built)) (serialize_stack [nonce]) (block_height request - 1)"
    "tx_without_witness built = tx_bytes X 2 [] [coinbase_input script_sig nonce]
       (coinbase_tx_outs (bc_outputs built) (bc_witness_commitment_script built)) [] (block_height request - 1)"
    "bc_txid built = hash256 X (tx_without_witness built)" "length (tx_with_witness built) \<le> MAX_BLOCK_WEIGHT"
proof -
  from run obtain outs nonce leaves prefix lock_time input where outs: "allocate_outputs X request = Inr outs"
    and nonce: "witness_nonce X request = Inr nonce" and leaves: "witness_leaves X request = Inr leaves"
    and prefix: "serialize_coinbase_prefix X [] request = Inr prefix"
    and lock: "coinbase_lock_time (block_height request) = Inr lock_time"
    and input: "serialize_coinbase_input X (le_bytes 4 2 @ [0] @ [1]) request = Inr input"
    and built: "tx_without_witness built = serialize_outputs prefix outs (witness_commitment_script X leaves nonce) @ le_bytes 4 lock_time"
      "tx_with_witness built = serialize_witness (serialize_outputs input outs (witness_commitment_script X leaves nonce)) nonce @
         le_bytes 4 lock_time"
      "bc_outputs built = outs" "bc_witness_commitment_script built = witness_commitment_script X leaves nonce"
      "bc_txid built = hash256 X (tx_without_witness built)" "length (tx_with_witness built) \<le> MAX_BLOCK_WEIGHT"
    unfolding build_coinbase_def Let_def rbind_Inr if_Inl_Inr by fastforce
  from input obtain script_sig where sig: "coinbase_script_sig X request = Inr script_sig"
    by (auto simp: serialize_coinbase_input_def rbind_Inr)
  then have len: "length script_sig \<le> MAX_COINBASE_SCRIPT_SIG_LEN"
    by (auto simp: coinbase_script_sig_def Let_def rbind_Inr if_Inl_Inr)
  have height: "0 < block_height request" "block_height request < 2 ^ 32" "lock_time = block_height request - 1"
    using lock by (auto simp: coinbase_lock_time_def split: if_splits)
  have bytes: "prefix = le_bytes 4 2 @ [] @ compact_size 1 @ replicate 32 0 @ le_bytes 4 0xffffffff @
      compact_size (length script_sig) @ script_sig @ le_bytes 4 MAX_SEQUENCE_NONFINAL"
    "input = le_bytes 4 2 @ [0, 1] @ compact_size 1 @ replicate 32 0 @ le_bytes 4 0xffffffff @
      compact_size (length script_sig) @ script_sig @ le_bytes 4 MAX_SEQUENCE_NONFINAL"
    using prefix input by (simp_all add: serialize_coinbase_prefix_def serialize_coinbase_input_def sig)
  have "tx_without_witness built = tx_bytes X 2 [] [coinbase_input script_sig nonce]
       (coinbase_tx_outs (bc_outputs built) (bc_witness_commitment_script built)) [] (block_height request - 1)"
    unfolding built(1,3,4) bytes(1) coinbase_serialized[OF laws, where nonce = nonce] height(3) tx_bytes_def by simp
  moreover have "tx_with_witness built = tx_bytes X 2 [0, 1] [coinbase_input script_sig nonce]
       (coinbase_tx_outs (bc_outputs built) (bc_witness_commitment_script built)) (serialize_stack [nonce]) (block_height request - 1)"
    unfolding built(2-4) bytes(2) serialize_witness_def append_assoc coinbase_serialized[OF laws, where nonce = nonce] height(3) tx_bytes_def
    by (simp add: serialize_stack_def)
  ultimately show thesis
    using that[of nonce script_sig leaves] outs nonce leaves sig len height built by simp
qed

lemma witness_nonce_length: "witness_nonce X request = Inr nonce \<Longrightarrow> length nonce = 32"
  by (auto simp: witness_nonce_def DEFAULT_WITNESS_NONCE_def rbind_Inr split: option.splits if_splits)

lemma commitment_script_length: "sha_law X \<Longrightarrow> length (witness_commitment_script X leaves nonce) = 38"
  by (simp add: witness_commitment_script_def WITNESS_COMMITMENT_SCRIPT_PREFIX_def WITNESS_COMMITMENT_HEADER_def
      hash256_pair_def hash256_def sha256_length)

lemma allocated_amounts:
  assumes "allocate_outputs X request = Inr outs" "coinbase_value_sats request < 2 ^ 64"
  shows "sum_list (map amount_sats outs) = coinbase_value_sats request" "\<forall>out\<in>set outs. length (script_pubkey out) = 34"
    "\<forall>out\<in>set outs. amount_sats out \<le> coinbase_value_sats request"
proof -
  obtain es where "list_all2 (output_of X) es outs"
    and lr: "largest_remainder (coinbase_value_sats request) (map weight es) (map amount_sats outs)"
    by (rule allocate_outputs_Inr[OF assms])
  from list_all2_set2[OF this(1)] show "\<forall>out\<in>set outs. length (script_pubkey out) = 34"
    by (auto simp: output_of_def p2mr_script_pubkey_def)
  show sum: "sum_list (map amount_sats outs) = coinbase_value_sats request" by (rule largest_remainder_sum[OF lr])
  show "\<forall>out\<in>set outs. amount_sats out \<le> coinbase_value_sats request"
    unfolding sum[symmetric] by (auto intro: member_le_sum_list)
qed

lemma coinbase_parts_ok:
  assumes laws: "hex_law X" "hex_text_law X" "sha_law X" and outs: "allocate_outputs X request = Inr outs"
    and money: "coinbase_value_sats request \<le> QBIT_MAX_MONEY_SATS"
    and len: "length script_sig \<le> MAX_COINBASE_SCRIPT_SIG_LEN" "length outs < 2 ^ 64 - 1"
  shows "tx_parts_ok X [coinbase_input script_sig nonce] (coinbase_tx_outs outs (witness_commitment_script X leaves n))"
proof -
  have "coinbase_value_sats request < 2 ^ 64" using money by (simp add: QBIT_MAX_MONEY_SATS_def)
  note a = allocated_amounts[OF outs this]
  have "tx_in_ok X (coinbase_input script_sig nonce)"
    using zero_txid[OF laws(1,2)] len(1)
    by (simp add: tx_in_ok_def coinbase_input_def prev_txid_bytes_def MAX_SEQUENCE_NONFINAL_def MAX_COINBASE_SCRIPT_SIG_LEN_def)
  moreover have "tx_out_ok txo" if "txo \<in> set (coinbase_tx_outs outs (witness_commitment_script X leaves n))" for txo
    using that a(2,3) money commitment_script_length[OF laws(3)] by (auto simp: coinbase_tx_outs_def tx_out_ok_def)
  ultimately show ?thesis using len(2) by (simp add: tx_parts_ok_def coinbase_tx_outs_def)
qed

lemma build_coinbase_output_count:
  assumes "hex_law X" "hex_text_law X" "build_coinbase X request = Inr built"
  shows "length (bc_outputs built) < 2 ^ 64 - 1"
proof -
  obtain nonce script_sig where tx: "tx_with_witness built = tx_bytes X 2 [0, 1] [coinbase_input script_sig nonce]
       (coinbase_tx_outs (bc_outputs built) (bc_witness_commitment_script built)) (serialize_stack [nonce]) (block_height request - 1)"
    and len: "length (tx_with_witness built) \<le> MAX_BLOCK_WEIGHT"
    by (rule build_coinbase_Inr[OF assms])
  have "length outs \<le> length (concat (map serialize_tx_out (coinbase_tx_outs outs c)))" for outs c
    by (induction outs) (auto simp: coinbase_tx_outs_def serialize_tx_out_def)
  from this[of "bc_outputs built" "bc_witness_commitment_script built"]
  have "length (bc_outputs built) \<le> length (tx_with_witness built)" unfolding tx tx_bytes_def tx_body_def by simp
  then show ?thesis using len by (simp add: MAX_BLOCK_WEIGHT_def)
qed

section \<open>Reading a coinbase back\<close>

lemma built_coinbase_parse:
  assumes laws: "hex_law X" "hex_text_law X" "sha_law X" and run: "build_coinbase X request = Inr built"
    and money: "coinbase_value_sats request \<le> QBIT_MAX_MONEY_SATS"
  obtains script_sig nonce where
    "\<forall>field. parse_transaction_hex X (hex_encode X (tx_with_witness built)) field =
      Inr \<lparr> pt_version = 2, pt_inputs = [ParsedTxIn.truncate (coinbase_input script_sig nonce)],
        pt_outputs = coinbase_tx_outs (bc_outputs built) (bc_witness_commitment_script built),
        pt_lock_time = block_height request - 1, pt_witness_stacks = Some [[nonce]],
        pt_tx_without_witness = tx_without_witness built \<rparr>"
proof -
  let ?outs = "coinbase_tx_outs (bc_outputs built) (bc_witness_commitment_script built)"
  obtain nonce script_sig leaves where outs: "allocate_outputs X request = Inr (bc_outputs built)"
    and nonce: "witness_nonce X request = Inr nonce" and len: "length script_sig \<le> MAX_COINBASE_SCRIPT_SIG_LEN"
    and script: "bc_witness_commitment_script built = witness_commitment_script X leaves nonce"
    and height: "block_height request < 2 ^ 32"
    and tx: "tx_with_witness built = tx_bytes X 2 [0, 1] [coinbase_input script_sig nonce] ?outs (serialize_stack [nonce])
        (block_height request - 1)"
      "tx_without_witness built = tx_bytes X 2 [] [coinbase_input script_sig nonce] ?outs [] (block_height request - 1)"
    by (rule build_coinbase_Inr[OF laws(1,2) run])
  have ok: "tx_parts_ok X [coinbase_input script_sig nonce] ?outs"
    unfolding script using build_coinbase_output_count[OF laws(1,2) run]
    by (intro coinbase_parts_ok[OF laws outs money len]) simp
  have body: "tx_bytes X 2 flag [ParsedTxIn.truncate (coinbase_input script_sig nonce)] ?outs wit l =
      tx_bytes X 2 flag [coinbase_input script_sig nonce] ?outs wit l" for flag wit l
    using tx_parts_truncate(2)[of X "[coinbase_input script_sig nonce]" ?outs] by (simp add: tx_bytes_def)
  have "parse_transaction X (tx_bytes X 2 [0, 1] [ParsedTxIn.truncate (coinbase_input script_sig nonce)] ?outs
      (serialize_stack [nonce]) (block_height request - 1)) field =
    Inr \<lparr> pt_version = 2, pt_inputs = [ParsedTxIn.truncate (coinbase_input script_sig nonce)], pt_outputs = ?outs,
        pt_lock_time = block_height request - 1, pt_witness_stacks = Some [[nonce]],
        pt_tx_without_witness = tx_bytes X 2 [] [ParsedTxIn.truncate (coinbase_input script_sig nonce)] ?outs []
          (block_height request - 1) \<rparr>" for field
    using ok height witness_nonce_length[OF nonce]
      tx_parts_truncate(1)[of X "[coinbase_input script_sig nonce]" ?outs]
    by (intro parse_tx_bytes laws(1)) (simp_all add: stack_ok_def)
  then show thesis
    by (intro that[of script_sig nonce])
      (simp add: parse_transaction_hex_def hex_decode_encode[OF laws(1)] body tx)
qed

lemma build_manifest_Inr:
  assumes "build_manifest X request = Inr m"
  obtains built where "build_coinbase X request = Inr built" "coinbase_tx_hex m = hex_encode X (tx_with_witness built)"
    "coinbase_txid m = display_hash_hex (bc_txid built)"
    "pm_outputs m = map (payout_output X) (enumerate 0 (bc_outputs built))"
    "witness_commitment_script_hex m = hex_encode X (bc_witness_commitment_script built)"
  using assms unfolding build_manifest_def Let_def rbind_Inr by fastforce

lemma built_outputs_hex:
  "map (\<lambda>txo. (to_amount_sats txo, hex_encode X (to_script_pubkey txo))) (coinbase_tx_outs outs commitment) =
    map (\<lambda>out. (po_amount_sats out, script_pubkey_hex out)) (map (payout_output X) (enumerate i outs)) @
    [(0, hex_encode X commitment)]"
  by (induction outs arbitrary: i) (simp_all add: coinbase_tx_outs_def payout_output_def)

lemma built_manifest_parse:
  assumes laws: "hex_law X" "hex_text_law X" "sha_law X" and run: "build_manifest X request = Inr m"
    and money: "coinbase_value_sats request \<le> QBIT_MAX_MONEY_SATS"
  obtains tx where "\<forall>field. parse_transaction_hex X (coinbase_tx_hex m) field = Inr tx"
    "ensure_coinbase_shape tx = Inr ()" "txid_hex X tx = coinbase_txid m" "pt_lock_time tx = block_height request - 1"
    "map (\<lambda>txo. (to_amount_sats txo, hex_encode X (to_script_pubkey txo))) (pt_outputs tx) =
      map (\<lambda>out. (po_amount_sats out, script_pubkey_hex out)) (pm_outputs m) @ [(0, witness_commitment_script_hex m)]"
proof -
  obtain built where built: "build_coinbase X request = Inr built" "coinbase_tx_hex m = hex_encode X (tx_with_witness built)"
    "coinbase_txid m = display_hash_hex (bc_txid built)"
    "pm_outputs m = map (payout_output X) (enumerate 0 (bc_outputs built))"
    "witness_commitment_script_hex m = hex_encode X (bc_witness_commitment_script built)"
    by (rule build_manifest_Inr[OF run])
  obtain tx script_sig nonce where parse: "\<forall>field. parse_transaction_hex X (coinbase_tx_hex m) field = Inr tx"
    and tx: "pt_inputs tx = [ParsedTxIn.truncate (coinbase_input script_sig nonce)]"
      "pt_outputs tx = coinbase_tx_outs (bc_outputs built) (bc_witness_commitment_script built)"
      "pt_lock_time tx = block_height request - 1" "pt_tx_without_witness tx = tx_without_witness built"
    unfolding built(2) by (rule built_coinbase_parse[OF laws built(1) money]) simp
  have txid: "bc_txid built = hash256 X (tx_without_witness built)"
    by (rule build_coinbase_Inr[OF laws(1,2) built(1)])
  show thesis
  proof (rule that[OF parse])
    show "ensure_coinbase_shape tx = Inr ()"
      unfolding ensure_coinbase_shape_def Let_def checks_Inr tx(1)
      by (simp add: reject_if_Inr coinbase_input_def ParsedTxIn.truncate_def COINBASE_PREVOUT_VOUT_def)
    show "txid_hex X tx = coinbase_txid m"
      using laws(2) by (simp add: txid_hex_def tx(4) built(3) txid display_hash_hex_def hex_text_law_def)
    show "pt_lock_time tx = block_height request - 1" by (rule tx(3))
    show "map (\<lambda>txo. (to_amount_sats txo, hex_encode X (to_script_pubkey txo))) (pt_outputs tx) =
      map (\<lambda>out. (po_amount_sats out, script_pubkey_hex out)) (pm_outputs m) @ [(0, witness_commitment_script_hex m)]"
      unfolding tx(2) built(4,5) by (rule built_outputs_hex)
  qed
qed

lemma merkle_root_length:
  assumes "sha_law X" "\<forall>h\<in>set hs. length h = 32" "hs \<noteq> []"
  shows "length (merkle_root X hs) = 32"
  using assms
proof (induction X hs rule: merkle_root.induct)
  case (1 X hs)
  show ?case
  proof (cases "length hs > 1")
    case True
    have "\<forall>h\<in>set (merkle_level X hs). length h = 32"
      using sha256_length[OF 1(2)] by (auto simp: merkle_level_def hash256_pair_def hash256_def)
    moreover have "merkle_level X hs \<noteq> []" using True length_merkle_level[of X hs] by (cases "merkle_level X hs") auto
    ultimately show ?thesis using 1 True by (simp add: merkle_root.simps[of X hs])
  next
    case False
    then obtain h where "hs = [h]" using 1(4) by (cases hs) auto
    then show ?thesis using 1(3) by (simp add: merkle_root.simps[of X "[h]"])
  qed
qed

section \<open>When a coinbase is built\<close>

lemma compact_size_short: "length (compact_size n) \<le> 9"
  by (simp add: compact_size_def)

lemma coinbase_length:
  assumes "\<forall>out\<in>set outs. length (script_pubkey out) = 34" "length commitment = 38"
  shows "length (serialize_outputs front outs commitment) \<le> length front + 43 * length outs + 60"
proof -
  have "length (concat (map (\<lambda>out. le_bytes 8 (amount_sats out) @ compact_size (length (script_pubkey out)) @
      script_pubkey out) outs)) = 43 * length outs"
    using assms(1) by (induction outs) (simp_all add: compact_size_def)
  then show ?thesis
    using compact_size_short[of "length outs + 1"] by (simp add: serialize_outputs_def assms(2) compact_size_def[of 38])
qed

lemma build_manifest_ok:
  assumes sha: "sha_law X" and val: "coinbase_value_sats request < 2 ^ 64"
    and outs: "allocate_outputs X request = Inr outs" and nonce: "witness_nonce X request = Inr nonce"
    and leaves: "witness_leaves X request = Inr leaves" and sig: "coinbase_script_sig X request = Inr script_sig"
    and height: "0 < block_height request" "block_height request < 2 ^ 32"
    and few: "43 * length outs + 300 \<le> MAX_BLOCK_WEIGHT"
  shows "\<exists>m. build_manifest X request = Inr m"
proof -
  let ?script = "witness_commitment_script X leaves nonce"
  note a = allocated_amounts[OF outs val]
  have len: "length script_sig \<le> 100" and suffix: "\<exists>s. coinbase_script_sig_suffix X request = Inr s"
    using sig by (auto simp: coinbase_script_sig_def Let_def rbind_Inr if_Inl_Inr MAX_COINBASE_SCRIPT_SIG_LEN_def)
  let ?in = "\<lambda>out. out @ compact_size 1 @ replicate 32 0 @ le_bytes 4 0xffffffff @
            compact_size (length script_sig) @ script_sig @ le_bytes 4 MAX_SEQUENCE_NONFINAL"
  have input: "serialize_coinbase_input X out request = Inr (?in out)" for out
    by (simp add: serialize_coinbase_input_def sig)
  have "length (?in (le_bytes 4 2 @ [0] @ [1])) \<le> 6 + 1 + 32 + 4 + 9 + 100 + 4"
    using len compact_size_short[of "length script_sig"] by (simp add: compact_size_def[of "Suc 0"])
  then have weight: "\<not> length (serialize_witness (serialize_outputs (?in (le_bytes 4 2 @ [0] @ [1])) outs ?script) nonce @
      le_bytes 4 (block_height request - 1)) > MAX_BLOCK_WEIGHT"
    using coinbase_length[OF a(2) commitment_script_length[OF sha], of "?in (le_bytes 4 2 @ [0] @ [1])" leaves nonce]
      few witness_nonce_length[OF nonce] by (simp add: serialize_witness_def compact_size_def[of "Suc 0"] compact_size_def[of 32])
  have lock: "coinbase_lock_time (block_height request) = Inr (block_height request - 1)"
    using height by (simp add: coinbase_lock_time_def)
  obtain es where "list_all2 (output_of X) es outs" "sum_list (map weight es) < 2 ^ 128"
    by (rule allocate_outputs_Inr[OF outs val])
  then have "sum_list (map ao_weight outs) < 2 ^ 128"
    using arg_cong[OF map_weight_outputs, of X es outs "map (\<lambda>(r, k, w). w)"] by (simp add: comp_def)
  then have sums: "try_sum 64 AllocationOverflow (map amount_sats outs) = Inr (coinbase_value_sats request)"
    "\<exists>w. try_sum 128 WeightOverflow (map ao_weight outs) = Inr w"
    using a(1) val by (simp_all add: try_sum_Inr)
  show ?thesis
    using sums suffix weight
    by (auto simp: build_manifest_def build_coinbase_def outs nonce leaves sig lock input serialize_coinbase_prefix_def Let_def)
qed

section \<open>Properties\<close>

text \<open>C39. The coinbase that the builder writes is the coinbase that the settlement code reads. Its bytes
  parse, under every field name, as a transaction that spends the null outpoint; its identifier and
  lock time are those of the manifest, and its outputs are the outputs of the manifest in order,
  amount by amount and script by script, followed by the witness commitment.\<close>

theorem built_coinbase_parses:
  assumes "hex_law X" and "hex_text_law X" and "sha_law X" and "build_manifest X request = Inr m"
    and "coinbase_value_sats request \<le> QBIT_MAX_MONEY_SATS"
  shows "\<exists>tx. (\<forall>field. parse_transaction_hex X (coinbase_tx_hex m) field = Inr tx) \<and>
    ensure_coinbase_shape tx = Inr () \<and> txid_hex X tx = coinbase_txid m \<and> pt_lock_time tx = block_height request - 1 \<and>
    map (\<lambda>txo. (to_amount_sats txo, hex_encode X (to_script_pubkey txo))) (pt_outputs tx) =
      map (\<lambda>out. (po_amount_sats out, script_pubkey_hex out)) (pm_outputs m) @ [(0, witness_commitment_script_hex m)]"
  by (rule built_manifest_parse[OF assms]) blast

theorem built_coinbase_parses_witness:
  "\<exists>m tx. build_manifest demo_crypto demo_request = Inr m \<and>
     parse_transaction_hex demo_crypto (coinbase_tx_hex m) ''coinbase'' = Inr tx \<and> pt_lock_time tx = 499"
proof -
  have "is_ok (build_manifest demo_crypto demo_request)" by code_simp
  then obtain m where m: "build_manifest demo_crypto demo_request = Inr m" by (auto simp: is_ok_iff)
  have "coinbase_value_sats demo_request \<le> QBIT_MAX_MONEY_SATS"
    by (simp add: demo_request_def QBIT_MAX_MONEY_SATS_def)
  from built_coinbase_parses[OF demo_crypto_hex demo_crypto_hex_text demo_crypto_sha m this] m show ?thesis
    by (auto simp: demo_request_def)
qed

end
