(* ===== verification/Audit_Verification.thy ===== *)
theory Audit_Verification
  imports Audit_Bundle Coinbase_Codec
begin

text \<open>
  What the audit verifier of \<open>Audit_Bundle\<close> guarantees: a bundle that verifies pays what the payout policy
  owes, and a bundle the builder made verifies under the key of the ledger.
\<close>

section \<open>Coinbases that pay their weights\<close>

text \<open>When the weights add up to the amount, every share is its weight.\<close>

lemma largest_remainder_full:
  assumes "largest_remainder T ws as" "sum_list ws = T"
  shows "as = ws"
proof -
  obtain I where len: "length as = length ws" and pos: "0 < T" and I: "I \<subseteq> {..<length ws}" "card I = lr_left T ws"
    and as: "\<forall>i<length ws. as ! i = lr_base T T (ws ! i) + (if i \<in> I then 1 else 0)"
    using assms by (auto simp: largest_remainder_def)
  have base: "lr_base T T w = w" for w using pos by (simp add: lr_base_def)
  then have "map (lr_base T T) ws = ws" by (simp add: map_idI)
  then have "lr_left T ws = 0" using assms(2) by (simp add: lr_left_def)
  then have "I = {}" using I finite_subset[OF I(1)] by simp
  then show ?thesis using as len by (intro nth_equalityI) (auto simp: base)
qed

lemma allocate_outputs_full:
  assumes "allocate_outputs X request = Inr outs" "coinbase_value_sats request < 2 ^ 64"
    and "sum_list (map weight (entitlements request)) = coinbase_value_sats request"
  obtains es where "order_entitlements request = Inr es"
    "list_all2 (\<lambda>e out. output_of X e out \<and> amount_sats out = weight e) es outs"
proof -
  obtain es where es: "order_entitlements request = Inr es" and outs: "list_all2 (output_of X) es outs"
    and lr: "largest_remainder (coinbase_value_sats request) (map weight es) (map amount_sats outs)"
    by (rule allocate_outputs_Inr[OF assms(1,2)])
  have "sum_list (map weight es) = coinbase_value_sats request"
    using order_entitlements_mset[OF es] assms(3) by (metis mset_map sum_mset_sum_list)
  from largest_remainder_full[OF lr this] have "map amount_sats outs = map weight es" .
  then have "list_all2 (\<lambda>e out. amount_sats out = weight e) es outs"
    by (auto simp: list_all2_conv_all_nth list_eq_iff_nth_eq)
  with outs es show ?thesis by (intro that[of es]) (auto simp: list_all2_conv_all_nth)
qed

lemma build_manifest_outputs:
  assumes "build_manifest X request = Inr m"
  obtains outs where "allocate_outputs X request = Inr outs"
    "pm_outputs m = map (payout_output X) (enumerate 0 outs)"
  using assms by (auto simp: build_manifest_def build_coinbase_def Let_def res_simps)

text \<open>The payee an output pays: programs are compared without letter case.\<close>

definition pays_to :: "('x) payee_scheme \<Rightarrow> payee_key" where
  "pays_to p = (order_key p, recipient_id p, to_ascii_lowercase (p2mr_program_hex p))"

lemma payout_output_pays:
  assumes "hex_law X" "output_of X e out"
  shows "pays_to (payout_output X (i, out)) = pays_to e"
proof -
  have "hex_decode X (p2mr_program_hex e) = Inr (p2mr_program out)" using assms(2) by (simp add: output_of_def)
  from hex_encode_decode[OF assms(1) this] show ?thesis
    using assms(2) by (simp add: pays_to_def payout_output_def output_of_def)
qed

lemma outputs_pay:
  assumes "hex_law X" "list_all2 (\<lambda>e out. output_of X e out \<and> amount_sats out = weight e) es outs"
  shows "map (\<lambda>out. (pays_to out, po_amount_sats out)) (map (payout_output X) (enumerate i outs)) =
    map (\<lambda>e. (pays_to e, weight e)) es"
  using assms(2)
proof (induction arbitrary: i rule: list_all2_induct)
  case (Cons e es out outs)
  have "po_amount_sats (payout_output X (i, out)) = amount_sats out" by (simp add: payout_output_def)
  then show ?case using Cons payout_output_pays[OF assms(1)] by simp
qed simp

lemma build_manifest_pays:
  assumes "hex_law X" "build_manifest X request = Inr m" "coinbase_value_sats request < 2 ^ 64"
    and "sum_list (map weight (entitlements request)) = coinbase_value_sats request"
  shows "mset (map (\<lambda>out. (pays_to out, po_amount_sats out)) (pm_outputs m)) =
    mset (map (\<lambda>e. (pays_to e, weight e)) (entitlements request))"
proof -
  obtain outs where a: "allocate_outputs X request = Inr outs"
    and m: "pm_outputs m = map (payout_output X) (enumerate 0 outs)"
    by (rule build_manifest_outputs[OF assms(2)])
  obtain es where es: "order_entitlements request = Inr es"
    and outs: "list_all2 (\<lambda>e out. output_of X e out \<and> amount_sats out = weight e) es outs"
    by (rule allocate_outputs_full[OF a assms(3,4)])
  show ?thesis unfolding m outputs_pay[OF assms(1) outs] using order_entitlements_mset[OF es] by simp
qed

section \<open>The policy manifest\<close>

lemma policy_entitlements_sum:
  assumes "apply_payout_policy rm bs policy = Inr m" "rm_coinbase_value_sats rm < 2 ^ 64"
  shows "sum_list (map weight (onchain_entitlements m)) = rm_coinbase_value_sats rm"
proof -
  obtain seen accs ons where
    "policy_state (rm_coinbase_value_sats rm) (pp_min_output_sats m) bs seen accs (pool_fee m) ons"
    "onchain_entitlements m = onchain_weights (settled_accounts accs (pool_fee m) ons)"
    by (rule apply_payout_policy_Inr[OF assms])
  then show ?thesis by (simp add: onchain_weights_sum settled_onchain_sum)
qed

lemma policy_entitlements_accounts:
  assumes "apply_payout_policy rm bs policy = Inr m" "rm_coinbase_value_sats rm < 2 ^ 64"
  shows "mset (map (\<lambda>e. (pays_to e, weight e)) (onchain_entitlements m)) =
    mset (map (\<lambda>acc. (pays_to acc, onchain_amount_sats acc)) (filter (\<lambda>acc. 0 < onchain_amount_sats acc) (accounts m)))"
proof -
  have "map (\<lambda>e. (pays_to e, weight e)) (onchain_weights xs) =
      map (\<lambda>acc. (pays_to acc, onchain_amount_sats acc)) (filter (\<lambda>acc. 0 < onchain_amount_sats acc) xs)" for xs
    by (simp add: onchain_weights_def pays_to_def)
  moreover obtain accs ons where "accounts m = sort_key payee_order (settled_accounts accs (pool_fee m) ons)"
    "onchain_entitlements m = onchain_weights (settled_accounts accs (pool_fee m) ons)"
    by (rule apply_payout_policy_Inr[OF assms])
  ultimately show ?thesis by (simp add: filter_sort)
qed

text \<open>The fee that goes first is one of the entitlements, with its amount as weight.\<close>

lemma pool_fee_entitlement:
  assumes "apply_payout_policy rm bs policy = Inr m" "rm_coinbase_value_sats rm < 2 ^ 64"
    and "pool_fee_first_output m = Some f"
  shows "\<exists>e\<in>set (onchain_entitlements m). pinned_match (payee.truncate f) e \<and> weight e = pf_amount_sats f"
proof -
  have f: "pool_fee m = Some f" "0 < pf_amount_sats f"
    using assms(3) by (auto simp: pool_fee_first_output_def split: if_splits option.splits)
  obtain accs ons where "onchain_entitlements m = onchain_weights (settled_accounts accs (pool_fee m) ons)"
    by (rule apply_payout_policy_Inr[OF assms(1,2)])
  then show ?thesis
    using f by (simp add: settled_accounts_def onchain_weights_def pool_fee_account_def pinned_match_def payee.defs)
qed

lemma reward_manifest_value:
  "build_prism_reward_manifest_with_cut X shares fb wcut = Inr rm \<Longrightarrow>
    rm_coinbase_value_sats rm = fb_coinbase_value_sats fb \<and> rm_block_height rm = fb_block_height fb \<and>
    rm_anchor_job_issued_at_ms rm = fb_anchor_job_issued_at_ms fb \<and>
    rm_network_difficulty rm = fb_network_difficulty fb \<and> rm_cut rm = wcut"
  by (auto simp: build_prism_reward_manifest_with_cut_def res_simps reward_manifest_def compute_prism_window_in_cut_def
      Let_def)

section \<open>What a successful verification checked\<close>

lemma audit_check_Inr [res_simps]: "audit_check ok artifact = Inr u \<longleftrightarrow> ok"
  by (simp add: audit_check_def)

lemma verify_audit_view_Inr:
  assumes "verify_audit_view X J bundle writer_key = Inr report"
  obtains es leaf leaves root where
    "build_prism_reward_manifest_with_cut X (ab_shares bundle) (ab_found_block bundle) (rm_cut (ab_reward_manifest bundle)) =
       Inr (ab_reward_manifest bundle)"
    "expected_policy_manifest X bundle (ab_reward_manifest bundle) = Inr (ab_payout_policy_manifest bundle)"
    "expected_entitlements_and_leaves X J bundle (ab_payout_policy_manifest bundle) leaf = Inr (es, leaves)"
    "build_manifest X (audit_coinbase_request (ab_reward_manifest bundle) (ab_payout_policy_manifest bundle) es root
       (ab_witness_merkle_leaves_hex bundle) (ab_coinbase_script_sig_suffix_hex bundle)) =
       Inr (sm_manifest (ab_signed_coinbase_manifest bundle))"
    "vr_coinbase_tx_hex report = coinbase_tx_hex (sm_manifest (ab_signed_coinbase_manifest bundle))"
proof -
  from assms obtain es leaf leaves root where *:
    "build_prism_reward_manifest_with_cut X (ab_shares bundle) (ab_found_block bundle) (rm_cut (ab_reward_manifest bundle)) =
       Inr (ab_reward_manifest bundle)"
    "expected_policy_manifest X bundle (ab_reward_manifest bundle) = Inr (ab_payout_policy_manifest bundle)"
    "expected_entitlements_and_leaves X J bundle (ab_payout_policy_manifest bundle) leaf = Inr (es, leaves)"
    "build_manifest X (audit_coinbase_request (ab_reward_manifest bundle) (ab_payout_policy_manifest bundle) es root
       (ab_witness_merkle_leaves_hex bundle) (ab_coinbase_script_sig_suffix_hex bundle)) =
       Inr (sm_manifest (ab_signed_coinbase_manifest bundle))"
    and report: "audit_verification_report X J bundle (sm_manifest (ab_signed_coinbase_manifest bundle)) = Inr report"
    unfolding verify_audit_view_def Let_def rbind_Inr audit_check_Inr map_err_Inr split_paired_Ex prod.case by blast
  from report have "vr_coinbase_tx_hex report = coinbase_tx_hex (sm_manifest (ab_signed_coinbase_manifest bundle))"
    by (auto simp: audit_verification_report_def rbind_Inr)
  with * show ?thesis by (intro that)
qed

lemma charge_account_keeps:
  "charge_account m a = Inr a' \<Longrightarrow>
    pays_to a' = pays_to a \<and> payee_order a' = payee_order a \<and> onchain_amount_sats a' = onchain_amount_sats a"
  by (auto simp: charge_account_def pays_to_def payee_order_def split: option.splits if_splits)

lemma fee_accounting_keeps:
  assumes "apply_ctv_fanout_fee_accounting X pm decision fee_policy = Inr (pm', m)"
  shows "onchain_entitlements pm' = onchain_entitlements pm" "pool_fee_first_output pm' = pool_fee_first_output pm"
    "pp_min_output_sats pm' = pp_min_output_sats pm"
    "map (\<lambda>a. (pays_to a, onchain_amount_sats a)) (accounts pm') = map (\<lambda>a. (pays_to a, onchain_amount_sats a)) (accounts pm)"
proof -
  obtain accs where accs: "rmap (charge_account m) (accounts pm) = Inr accs" and pm': "pm' = pm \<lparr> accounts := accs \<rparr>"
    using assms by (auto simp: apply_ctv_fanout_fee_accounting_def rbind_Inr)
  from accs have "list_all2 (\<lambda>a a'. (pays_to a, onchain_amount_sats a) = (pays_to a', onchain_amount_sats a')) (accounts pm) accs"
    unfolding rmap_Inr by (rule list_all2_mono) (simp add: charge_account_keeps)
  then have "map (\<lambda>a. (pays_to a, onchain_amount_sats a)) accs = map (\<lambda>a. (pays_to a, onchain_amount_sats a)) (accounts pm)"
    by (induction rule: list_all2_induct) simp_all
  then show "map (\<lambda>a. (pays_to a, onchain_amount_sats a)) (accounts pm') = map (\<lambda>a. (pays_to a, onchain_amount_sats a)) (accounts pm)"
    by (simp add: pm')
qed (use assms in \<open>auto simp: apply_ctv_fanout_fee_accounting_def rbind_Inr pool_fee_first_output_def\<close>)

text \<open>What the policy manifest of a verified bundle owes: the accounts it pays on chain.\<close>

definition owed :: "PayoutPolicyManifest \<Rightarrow> (payee_key \<times> u64) multiset" where
  "owed pm = mset (filter (\<lambda>x. 0 < snd x) (map (\<lambda>a. (pays_to a, onchain_amount_sats a)) (accounts pm)))"

definition paid_by_coinbase :: "PayoutManifest \<Rightarrow> (payee_key \<times> u64) multiset" where
  "paid_by_coinbase m = mset (map (\<lambda>out. (pays_to out, po_amount_sats out)) (pm_outputs m))"

lemma policy_owed:
  assumes "apply_payout_policy rm bs policy = Inr pm" "rm_coinbase_value_sats rm < 2 ^ 64"
  shows "mset (map (\<lambda>e. (pays_to e, weight e)) (onchain_entitlements pm)) = owed pm"
  unfolding policy_entitlements_accounts[OF assms] owed_def by (simp add: filter_map comp_def)

lemma expected_policy_owed:
  assumes "expected_policy_manifest X bundle rm = Inr pm" "rm_coinbase_value_sats rm < 2 ^ 64"
  shows "mset (map (\<lambda>e. (pays_to e, weight e)) (onchain_entitlements pm)) = owed pm"
    "sum_list (map weight (onchain_entitlements pm)) = rm_coinbase_value_sats rm"
proof -
  obtain pm0 where pm0: "apply_payout_policy rm (ab_prior_balances bundle) (ab_payout_policy bundle) = Inr pm0"
    and pm: "pm = pm0 \<or> (\<exists>decision fee m. apply_ctv_fanout_fee_accounting X pm0 decision fee = Inr (pm, m))"
    using assms(1) unfolding expected_policy_manifest_def
    by (cases "ab_settlement_mode_decision bundle"; cases "ab_ctv_fanout_fee_policy bundle") (auto simp: rbind_Inr)
  from pm have "onchain_entitlements pm = onchain_entitlements pm0 \<and> owed pm = owed pm0"
  proof (elim disjE exE)
    fix decision fee m assume "apply_ctv_fanout_fee_accounting X pm0 decision fee = Inr (pm, m)"
    note k = fee_accounting_keeps[OF this]
    show ?thesis unfolding owed_def k(4) k(1) by simp
  qed simp
  then show "mset (map (\<lambda>e. (pays_to e, weight e)) (onchain_entitlements pm)) = owed pm"
    "sum_list (map weight (onchain_entitlements pm)) = rm_coinbase_value_sats rm"
    using policy_owed[OF pm0 assms(2)] policy_entitlements_sum[OF pm0 assms(2)] by simp_all
qed

lemma request_pays:
  assumes "hex_law X" "rm_coinbase_value_sats rm < 2 ^ 64"
    and "build_manifest X (audit_coinbase_request rm pm es root leaves suffix) = Inr m"
    and "sum_list (map weight es) = rm_coinbase_value_sats rm"
  shows "paid_by_coinbase m = mset (map (\<lambda>e. (pays_to e, weight e)) es)"
  using build_manifest_pays[OF assms(1,3)] assms(2,4) by (simp add: audit_coinbase_request_def paid_by_coinbase_def)

section \<open>Fan-out coverage\<close>

lemma cover_manifest_Inr:
  "cover_manifest X J coinbase leaves (covered, es) m = Inr st \<longleftrightarrow>
    cm_parent_coinbase_tx_hex m = coinbase_tx_hex coinbase \<and>
    verify_ctv_fanout_manifest_commitment_leaf X (js_precommitment J) m leaves = Inr () \<and>
    st = (covered @ map covered_recipient (pc_outputs (cm_precommitment m)), es @ [covenant_entitlement m])"
  by (auto simp: cover_manifest_def rbind_Inr audit_check_Inr)

lemma commitment_leaf_Inr:
  "verify_ctv_fanout_manifest_commitment_leaf X to_vec m leaves = Inr () \<longleftrightarrow>
    verify_ctv_fanout_manifest_structure X to_vec m = Inr () \<and>
    (\<exists>leaf\<in>set leaves. eq_ignore_ascii_case leaf (cm_commitment_witness_leaf_hex m))"
  by (auto simp: verify_ctv_fanout_manifest_commitment_leaf_def rbind_Inr reject_if_Inr eq_ignore_ascii_case_def)

lemma cover_manifests:
  assumes "rfold (cover_manifest X J coinbase leaves) (covered, es) ms = Inr (covered', es')"
  shows "covered' = covered @ concat (map (\<lambda>m. map covered_recipient (pc_outputs (cm_precommitment m))) ms) \<and>
    es' = es @ map covenant_entitlement ms \<and>
    (\<forall>m\<in>set ms. cm_parent_coinbase_tx_hex m = coinbase_tx_hex coinbase \<and>
       verify_ctv_fanout_manifest_structure X (js_precommitment J) m = Inr ())"
  using assms
proof (induction ms arbitrary: covered es)
  case (Cons m ms)
  from Cons.prems have m: "cm_parent_coinbase_tx_hex m = coinbase_tx_hex coinbase"
    "verify_ctv_fanout_manifest_structure X (js_precommitment J) m = Inr ()"
    and rest: "rfold (cover_manifest X J coinbase leaves)
      (covered @ map covered_recipient (pc_outputs (cm_precommitment m)), es @ [covenant_entitlement m]) ms = Inr (covered', es')"
    by (auto simp: rbind_Inr cover_manifest_Inr commitment_leaf_Inr)
  from Cons.IH[OF rest] m show ?case by simp
qed simp

lemma verified_fanout_value:
  assumes "verify_ctv_fanout_manifest_structure X to_vec m = Inr ()"
  shows "cm_covenant_output_value_sats m =
    sum_list (map (\<lambda>out. fo_amount_sats out + fo_fee_sats out) (pc_outputs (cm_precommitment m)))"
proof -
  obtain fanout where pre: "verify_precommitment X (cm_precommitment m) = Inr ()"
    and outs: "verify_fanout_outputs X m fanout = Inr ()"
    by (rule verify_structure_Inr[OF assms])
  have "cm_covenant_output_value_sats m =
      pc_fanout_output_sum_sats (cm_precommitment m) + pc_fanout_fee_sats (cm_precommitment m)"
    using outs by (auto simp: verify_fanout_outputs_def Let_def rbind_Inr reject_if_Inr ok_or_Inr checked_simps)
  then show ?thesis using verify_precommitment_Inr(3,4)[OF pre] by (simp add: sum_list_addf)
qed

lemma settlement_recipients_Inr:
  "settlement_recipients_from_entitlements es = Inr rs \<Longrightarrow>
    map (\<lambda>r. (pays_to r, sr_amount_sats r)) rs = map (\<lambda>e. (pays_to e, weight e)) es"
  unfolding settlement_recipients_from_entitlements_def rmap_Inr
  by (induction rule: list_all2_induct) (auto simp: rbind_Inr ok_or_Inr checked_simps pays_to_def)

definition bundle_manifests :: "AuditBundle \<Rightarrow> CtvFanoutManifest list" where
  "bundle_manifests bundle = (case ab_ctv_fanout_manifest_set bundle of None \<Rightarrow> [] | Some ms \<Rightarrow> ms_manifests ms)"

lemma verified_settlement_Inr:
  assumes "verify_ctv_settlement_bundle X J d (ab_ctv_fanout_manifest_set bundle) pm coinbase leaves = Inr es"
  obtains expected where "settlement_recipients_from_entitlements (onchain_entitlements pm) = Inr expected"
    "mset expected = mset (direct_recipients d) +
      mset (concat (map (\<lambda>m. map covered_recipient (pc_outputs (cm_precommitment m))) (bundle_manifests bundle)))"
    "es = map direct_entitlement (direct_recipients d) @ map covenant_entitlement (bundle_manifests bundle)"
    "\<forall>m\<in>set (bundle_manifests bundle). cm_parent_coinbase_tx_hex m = coinbase_tx_hex coinbase \<and>
       verify_ctv_fanout_manifest_structure X (js_precommitment J) m = Inr ()"
proof -
  let ?d = "(direct_recipients d, map direct_entitlement (direct_recipients d))"
  from assms obtain covered expected where
    run: "verify_fanout_coverage X J d (ab_ctv_fanout_manifest_set bundle) coinbase leaves = Inr (covered, es)"
    and expected: "settlement_recipients_from_entitlements (onchain_entitlements pm) = Inr expected"
    and sorted: "sort_key settlement_recipient_order covered = sort_key settlement_recipient_order expected"
    by (auto simp: verify_ctv_settlement_bundle_def rbind_Inr audit_check_Inr)
  have "rfold (cover_manifest X J coinbase leaves) ?d (bundle_manifests bundle) = Inr (covered, es)"
    using run by (cases "fanout_chunk_count_d d = 0")
      (auto simp: verify_fanout_coverage_def Let_def bundle_manifests_def rbind_Inr audit_check_Inr ok_or_Inr)
  note cover = cover_manifests[OF this]
  have "mset covered = mset expected" using sorted by (metis mset_sort)
  then show ?thesis using cover expected by (intro that[of expected]) simp_all
qed

lemma covered_recipient_pays:
  "fo_gross_amount_sats out = fo_amount_sats out + fo_fee_sats out \<Longrightarrow>
    (pays_to (covered_recipient out), sr_amount_sats (covered_recipient out)) =
    (pays_to out, fo_amount_sats out + fo_fee_sats out)"
  by (auto simp: covered_recipient_def pays_to_def)

text \<open>What the two halves of a settlement pay: directly, and in fan-outs with the fee charged for it.\<close>

definition paid_direct :: "SettlementModeDecision \<Rightarrow> (payee_key \<times> u64) multiset" where
  "paid_direct d = mset (map (\<lambda>r. (pays_to r, sr_amount_sats r)) (direct_recipients d))"

definition paid_by_fanouts :: "CtvFanoutManifest list \<Rightarrow> (payee_key \<times> u64) multiset" where
  "paid_by_fanouts ms = mset (concat (map (\<lambda>m.
     map (\<lambda>out. (pays_to out, fo_amount_sats out + fo_fee_sats out)) (pc_outputs (cm_precommitment m))) ms))"

definition gross_balanced :: "CtvFanoutManifest \<Rightarrow> bool" where
  "gross_balanced m \<longleftrightarrow> (\<forall>out\<in>set (pc_outputs (cm_precommitment m)).
     fo_gross_amount_sats out = fo_amount_sats out + fo_fee_sats out)"

lemma covered_concat:
  assumes "\<forall>m\<in>set ms. gross_balanced m"
  shows "map (\<lambda>r. (pays_to r, sr_amount_sats r))
      (concat (map (\<lambda>m. map covered_recipient (pc_outputs (cm_precommitment m))) ms)) =
    concat (map (\<lambda>m. map (\<lambda>out. (pays_to out, fo_amount_sats out + fo_fee_sats out)) (pc_outputs (cm_precommitment m))) ms)"
  using assms unfolding map_concat
  by (induction ms) (simp_all add: gross_balanced_def covered_recipient_pays del: prod.inject)

lemma fanout_payments_sum:
  assumes "\<forall>m\<in>set ms. verify_ctv_fanout_manifest_structure X to_vec m = Inr ()"
  shows "sum_list (map snd (concat (map (\<lambda>m. map (\<lambda>out. (pays_to out, fo_amount_sats out + fo_fee_sats out))
      (pc_outputs (cm_precommitment m))) ms))) = sum_list (map cm_covenant_output_value_sats ms)"
  using assms by (induction ms) (simp_all add: verified_fanout_value[of X to_vec] comp_def)

lemma settlement_owed:
  assumes "verify_ctv_settlement_bundle X J d (ab_ctv_fanout_manifest_set bundle) pm coinbase leaves = Inr es"
    and "\<forall>m\<in>set (bundle_manifests bundle). gross_balanced m"
  shows "mset (map (\<lambda>e. (pays_to e, weight e)) (onchain_entitlements pm)) =
      paid_direct d + paid_by_fanouts (bundle_manifests bundle)"
    "sum_list (map weight es) = sum_list (map weight (onchain_entitlements pm))"
proof -
  let ?ms = "bundle_manifests bundle" and ?pay = "\<lambda>r. (pays_to r, sr_amount_sats r)"
  obtain expected where expected: "settlement_recipients_from_entitlements (onchain_entitlements pm) = Inr expected"
    and cover: "mset expected = mset (direct_recipients d) +
      mset (concat (map (\<lambda>m. map covered_recipient (pc_outputs (cm_precommitment m))) ?ms))"
    and es: "es = map direct_entitlement (direct_recipients d) @ map covenant_entitlement ?ms"
    and ok: "\<forall>m\<in>set ?ms. cm_parent_coinbase_tx_hex m = coinbase_tx_hex coinbase \<and>
       verify_ctv_fanout_manifest_structure X (js_precommitment J) m = Inr ()"
    by (rule verified_settlement_Inr[OF assms(1)])
  have "mset (map ?pay expected) = paid_direct d + paid_by_fanouts ?ms"
    unfolding mset_map cover image_mset_union unfolding mset_map[symmetric] covered_concat[OF assms(2)]
    by (simp add: paid_direct_def paid_by_fanouts_def)
  then show owed: "mset (map (\<lambda>e. (pays_to e, weight e)) (onchain_entitlements pm)) = paid_direct d + paid_by_fanouts ?ms"
    unfolding settlement_recipients_Inr[OF expected] .
  have "sum_list (map weight (onchain_entitlements pm)) =
      sum_mset (image_mset snd (mset (map (\<lambda>e. (pays_to e, weight e)) (onchain_entitlements pm))))"
    by (simp add: sum_mset_sum_list[symmetric] multiset.map_comp comp_def)
  also have "\<dots> = sum_list (map sr_amount_sats (direct_recipients d)) + sum_list (map cm_covenant_output_value_sats ?ms)"
  proof -
    have "sum_mset (image_mset snd (paid_by_fanouts ?ms)) = sum_list (map cm_covenant_output_value_sats ?ms)"
      unfolding paid_by_fanouts_def mset_map[symmetric] sum_mset_sum_list
      by (rule fanout_payments_sum) (use ok in blast)
    moreover have "sum_mset (image_mset snd (paid_direct d)) = sum_list (map sr_amount_sats (direct_recipients d))"
      unfolding paid_direct_def mset_map[symmetric] sum_mset_sum_list by (simp add: comp_def)
    ultimately show ?thesis unfolding owed by simp
  qed
  also have "\<dots> = sum_list (map weight es)"
    by (simp add: es direct_entitlement_def covenant_entitlement_def comp_def Let_def)
  finally show "sum_list (map weight es) = sum_list (map weight (onchain_entitlements pm))" by simp
qed

section \<open>What the builders make\<close>

lemma signature_verifies:
  assumes "hex_law X" "ed25519_law X" "length key = 32"
  shows "verify_ed25519_message X (signing_public_key_hex X key) message (sign_message_hex X key message) = Inr ()"
  using assms by (simp add: verify_ed25519_message_def signing_public_key_hex_def sign_message_hex_def hex_decode_encode
      ed25519_law_def)

lemma signed_coinbase_verifies:
  assumes "hex_law X" "ed25519_law X" "length key = 32"
    and "build_profiled_signed_manifest X J request key = Inr sm"
  shows "build_manifest X request = Inr (sm_manifest sm)" "verify_signed_manifest X (js_coinbase J) sm = Inr ()"
    "\<exists>bytes. js_coinbase J (sm_manifest sm) = Inr bytes"
proof -
  from assms(4) obtain bytes where m: "build_manifest X request = Inr (sm_manifest sm)"
    and bytes: "js_coinbase J (sm_manifest sm) = Inr bytes"
    and sig: "sm_signature sm = \<lparr> algorithm = ''ed25519'', public_key_hex = signing_public_key_hex X key,
               signature_hex = sign_message_hex X key bytes \<rparr>"
    by (auto simp: build_profiled_signed_manifest_def rbind_Inr map_err_Inr canonical_manifest_bytes_def)
  show "build_manifest X request = Inr (sm_manifest sm)" by (rule m)
  show "verify_signed_manifest X (js_coinbase J) sm = Inr ()"
    using signature_verifies[OF assms(1-3)] by (simp add: verify_signed_manifest_def sig canonical_manifest_bytes_def bytes)
  show "\<exists>bytes. js_coinbase J (sm_manifest sm) = Inr bytes" using bytes by blast
qed

lemma attestation_verifies:
  assumes laws: "hex_law X" "ed25519_law X" "length key = 32"
    and a: "build_ledger_window_attestation X J rm prior key = Inr (ab_ledger_window_attestation bundle)"
    and same: "ab_reward_manifest bundle = rm" "ab_prior_balances bundle = prior" "ab_found_block bundle = fb"
    and rm: "rm_coinbase_value_sats rm = fb_coinbase_value_sats fb \<and> rm_block_height rm = fb_block_height fb \<and>
    rm_anchor_job_issued_at_ms rm = fb_anchor_job_issued_at_ms fb \<and>
    rm_network_difficulty rm = fb_network_difficulty fb \<and> rm_cut rm = wcut"
  shows "verify_ledger_window_attestation X J bundle (signing_public_key_hex X key) = Inr ()"
proof -
  let ?a = "ab_ledger_window_attestation bundle"
  from a obtain payload where p: "js_attestation J (AttestationPayload.truncate ?a) = Inr payload"
    and att: "?a = \<lparr> la_schema = ''qbit.prism.ledger-window-attestation.v1'', la_block_height = rm_block_height rm,
      la_coinbase_value_sats = rm_coinbase_value_sats rm, la_anchor_job_issued_at_ms = rm_anchor_job_issued_at_ms rm,
      la_network_difficulty = rm_network_difficulty rm, la_share_slice_digest_hex = rm_share_slice_digest_hex rm,
      la_prior_balances_digest_hex = prior_balances_digest_hex X prior,
      la_signature = \<lparr> algorithm = ''ed25519'', public_key_hex = signing_public_key_hex X key,
         signature_hex = sign_message_hex X key payload \<rparr> \<rparr>"
    unfolding build_ledger_window_attestation_def Let_def rbind_Inr canonical_ledger_window_attestation_bytes_def map_err_Inr
    by (auto simp: AttestationPayload.defs dest: sym)
  have payload: "canonical_ledger_window_attestation_bytes J ?a = Inr payload"
    using p by (simp add: canonical_ledger_window_attestation_bytes_def)
  show ?thesis
    using rm signature_verifies[OF laws]
    by (simp add: verify_ledger_window_attestation_def Let_def payload checks_def audit_check_def same) (simp add: att same)
qed

lemma first_output_is_fee:
  assumes "hex_law X" "build_manifest X request = Inr m" "coinbase_value_sats request < 2 ^ 64"
    and "sum_list (map weight (entitlements request)) = coinbase_value_sats request"
    and "pinned_first_output request = Some (payee.truncate (fee :: PoolFeeManifest))"
    and "e \<in> set (entitlements request)" "pinned_match (payee.truncate fee) e" "weight e = pf_amount_sats fee"
  shows "\<exists>first rest. pm_outputs m = first # rest \<and> vout first = 0 \<and> matches_pool_fee fee first \<and>
    po_amount_sats first = pf_amount_sats fee"
proof -
  obtain outs where a: "allocate_outputs X request = Inr outs"
    and m: "pm_outputs m = map (payout_output X) (enumerate 0 outs)"
    by (rule build_manifest_outputs[OF assms(2)])
  obtain es where es: "order_entitlements request = Inr es"
    and outs: "list_all2 (\<lambda>e out. output_of X e out \<and> amount_sats out = weight e) es outs"
    by (rule allocate_outputs_full[OF a assms(3,4)])
  obtain e' es' where only: "filter (pinned_match (payee.truncate fee)) (entitlements request) = [e']"
    and es': "es = e' # es'"
    using order_entitlements_pinned[OF es assms(5)] by blast
  have "e \<in> set (filter (pinned_match (payee.truncate fee)) (entitlements request))" using assms(6,7) by simp
  then have "e' = e" unfolding only by simp
  with outs es' obtain out outs' where out: "outs = out # outs'" "output_of X e out" "amount_sats out = weight e"
    by (auto simp: list_all2_Cons1)
  have "pays_to (payout_output X (0, out)) = pays_to e" by (rule payout_output_pays[OF assms(1) out(2)])
  then have "matches_pool_fee fee (payout_output X (0, out))"
    using assms(7) by (simp add: matches_pool_fee_def pinned_match_def pays_to_def eq_ignore_ascii_case_def payee.defs)
  then show ?thesis using out assms(8) by (simp add: m payout_output_def)
qed

lemma parallel_build:
  "0 < chunk_len parallelism \<Longrightarrow> build_prism_reward_manifest_parallel X shares fb wcut parallelism =
    build_prism_reward_manifest_with_cut X shares fb wcut"
  using compute_prism_window_parallel_serial[of "chunk_len parallelism" X shares fb wcut]
  by (cases "compute_prism_window_in_cut shares fb wcut")
    (simp_all add: build_prism_reward_manifest_parallel_def build_prism_reward_manifest_with_cut_def)

lemma reward_fields_distinct: "distinct (map fst (reward_fields m))"
  by (simp add: reward_fields_def)

lemma reward_fields_shares: "(''shares'', v) \<in> set (reward_fields m) \<Longrightarrow> v = SharesField (rm_shares m)"
  by (auto simp: reward_fields_def split: if_splits)

text \<open>For every number of workers and every chunk length, the manifest written with its shares spliced in frame by frame has
  the bytes of the whole value, or its error.\<close>

lemma write_reward_manifest_eq:
  assumes "serde_law J"
  shows "write_reward_manifest J m parallelism out = rbind (js_reward J m) (\<lambda>bytes. Inr (out @ bytes))"
proof -
  let ?shares = "write_array (\<lambda>shares. js_value J (SharesField shares)) (js_share J) (rm_shares m) parallelism"
  have arr: "\<And>xs. js_value J (SharesField xs) = json_array (js_share J) xs" using assms by (simp add: serde_law_def)
  have "?shares out = rbind (js_value J (SharesField (rm_shares m))) (\<lambda>bytes. Inr (out @ bytes))" for out
    unfolding arr by (rule write_array_eq) simp
  then have "splice_object (js_key J) (js_value J) ''shares'' ?shares (reward_fields m) out =
      rbind (json_object (js_key J) (js_value J) (reward_fields m)) (\<lambda>bytes. Inr (out @ bytes))"
    by (intro splice_object_eq[OF reward_fields_distinct]) (auto dest: reward_fields_shares)
  then show ?thesis using assms by (simp add: write_reward_manifest_def serde_law_def)
qed

lemma reward_hash_eq:
  "serde_law J \<Longrightarrow> map_err PrismJson (reward_manifest_sha256 X J m parallelism) =
    rbind (canonical_reward_manifest_bytes J m) (\<lambda>bytes. Inr (sha256 X bytes))"
  by (cases "js_reward J m") (simp_all add: reward_manifest_sha256_def write_reward_manifest_eq canonical_reward_manifest_bytes_def)

text \<open>The steps of a successful plain build.\<close>

lemma plain_build_Inr:
  assumes "build_audit_bundle_body_with_coinbase_options_parallel X J shares fb wcut prior policy suffix leaves_hex
      coinbase_key ledger_key parallelism = Inr body" "0 < chunk_len parallelism" "serde_law J"
  obtains rm attestation pm reward_bytes policy_bytes root sm where
    "build_prism_reward_manifest_with_cut X shares fb wcut = Inr rm"
    "build_ledger_window_attestation X J rm prior ledger_key = Inr attestation"
    "apply_payout_policy rm prior policy = Inr pm"
    "js_reward J rm = Inr reward_bytes" "js_policy J pm = Inr policy_bytes"
    "audit_commitment_root_hex X [commitment_leaf_hex X (sha256 X reward_bytes) (sha256 X policy_bytes)] = Inr root"
    "build_profiled_signed_manifest X J (audit_coinbase_request rm pm (onchain_entitlements pm) root leaves_hex suffix)
       coinbase_key = Inr sm"
    "body = \<lparr> ab_schema = audit_bundle_schema_for_shares shares, ab_found_block = fb, ab_prior_balances = prior,
                ab_payout_policy = policy, ab_coinbase_script_sig_suffix_hex = suffix,
                ab_witness_merkle_leaves_hex = leaves_hex,
                ab_audit_commitment_leaves_hex = [commitment_leaf_hex X (sha256 X reward_bytes) (sha256 X policy_bytes)],
                ab_audit_commitment_root_hex = Some root, ab_ledger_window_attestation = attestation,
                ab_reward_manifest = rm, ab_payout_policy_manifest = pm, ab_settlement_mode_decision = None,
                ab_ctv_fanout_fee_policy = None, ab_ctv_fanout_manifest_set = None,
                ab_signed_coinbase_manifest = sm \<rparr>"
  using assms(1)
  unfolding build_audit_bundle_body_with_coinbase_options_parallel_def parallel_build[OF assms(2)]
    reward_hash_eq[OF assms(3)] canonical_reward_manifest_bytes_def canonical_payout_policy_manifest_bytes_def
    if_Inl_Inr rbind_Inr map_err_Inr Let_def Inr_inject
  by blast

lemma plain_coinbase_policy:
  assumes "hex_law X" "apply_payout_policy rm prior policy = Inr pm" "rm_coinbase_value_sats rm < 2 ^ 64"
    and "build_manifest X (audit_coinbase_request rm pm (onchain_entitlements pm) root leaves suffix) = Inr m"
  shows "verify_coinbase_output_policy pm None m = Inr ()"
proof (cases "pool_fee_first_output pm")
  case (Some f)
  obtain e where "e \<in> set (onchain_entitlements pm)" "pinned_match (payee.truncate f) e" "weight e = pf_amount_sats f"
    using pool_fee_entitlement[OF assms(2,3) Some] by blast
  then have "\<exists>first rest. pm_outputs m = first # rest \<and> vout first = 0 \<and> matches_pool_fee f first \<and>
      po_amount_sats first = pf_amount_sats f"
    using assms(3) policy_entitlements_sum[OF assms(2,3)] Some
    by (intro first_output_is_fee[OF assms(1,4)]) (simp_all add: audit_coinbase_request_def pinned_first_output_for_policy_def)
  then show ?thesis using Some by (auto simp: verify_coinbase_output_policy_def)
qed (simp add: verify_coinbase_output_policy_def)

lemma hex_vec_eq_refl [simp]: "hex_vec_eq_ignore_ascii_case xs xs"
  by (auto simp: hex_vec_eq_ignore_ascii_case_def set_zip)

lemma into_bundle_simps [simp]:
  "ab_schema (into_bundle body shares) = ab_schema body" "ab_found_block (into_bundle body shares) = ab_found_block body"
  "ab_prior_balances (into_bundle body shares) = ab_prior_balances body"
  "ab_payout_policy (into_bundle body shares) = ab_payout_policy body"
  "ab_coinbase_script_sig_suffix_hex (into_bundle body shares) = ab_coinbase_script_sig_suffix_hex body"
  "ab_witness_merkle_leaves_hex (into_bundle body shares) = ab_witness_merkle_leaves_hex body"
  "ab_audit_commitment_leaves_hex (into_bundle body shares) = ab_audit_commitment_leaves_hex body"
  "ab_audit_commitment_root_hex (into_bundle body shares) = ab_audit_commitment_root_hex body"
  "ab_ledger_window_attestation (into_bundle body shares) = ab_ledger_window_attestation body"
  "ab_reward_manifest (into_bundle body shares) = ab_reward_manifest body"
  "ab_payout_policy_manifest (into_bundle body shares) = ab_payout_policy_manifest body"
  "ab_settlement_mode_decision (into_bundle body shares) = ab_settlement_mode_decision body"
  "ab_ctv_fanout_fee_policy (into_bundle body shares) = ab_ctv_fanout_fee_policy body"
  "ab_ctv_fanout_manifest_set (into_bundle body shares) = ab_ctv_fanout_manifest_set body"
  "ab_signed_coinbase_manifest (into_bundle body shares) = ab_signed_coinbase_manifest body"
  "ab_shares (into_bundle body shares) = shares"
  by (simp_all add: into_bundle_def AuditBundleBody.defs AuditBundle.defs)

text \<open>The verifier succeeds once each of its paragraphs does.\<close>

lemma verify_audit_view_intro:
  fixes ab :: AuditBundle
  defines "rm \<equiv> ab_reward_manifest ab" and "pm \<equiv> ab_payout_policy_manifest ab"
    and "sm \<equiv> ab_signed_coinbase_manifest ab"
  assumes "ab_schema ab = audit_bundle_schema_for_shares (ab_shares ab)"
    and "verify_ledger_window_attestation X J ab writer_key = Inr ()"
    and "verify_signed_manifest X (js_coinbase J) sm = Inr ()" and coinbase: "js_coinbase J (sm_manifest sm) = Inr coinbase_bytes"
    and "build_prism_reward_manifest_with_cut X (ab_shares ab) (ab_found_block ab) (rm_cut rm) = Inr rm"
    and "expected_policy_manifest X ab rm = Inr pm"
    and "verify_coinbase_output_policy pm (ab_settlement_mode_decision ab) (sm_manifest sm) = Inr ()"
    and bytes: "js_reward J rm = Inr reward_bytes" "js_policy J pm = Inr policy_bytes" "js_bundle J ab = Inr bundle_bytes"
    and leaf: "leaf = commitment_leaf_hex X (sha256 X reward_bytes) (sha256 X policy_bytes)"
    and "expected_entitlements_and_leaves X J ab pm leaf = Inr (es, ab_audit_commitment_leaves_hex ab)"
    and root: "audit_commitment_root_hex X (ab_audit_commitment_leaves_hex ab) = Inr root"
      "ab_audit_commitment_root_hex ab = Some root"
    and "build_manifest X (audit_coinbase_request rm pm es root (ab_witness_merkle_leaves_hex ab)
      (ab_coinbase_script_sig_suffix_hex ab)) = Inr (sm_manifest sm)"
  shows "\<exists>report. verify_audit_view X J ab writer_key = Inr report \<and>
    vr_audit_bundle_sha256_hex report = sha256_hex X bundle_bytes \<and>
    vr_coinbase_tx_hex report = coinbase_tx_hex (sm_manifest sm) \<and>
    vr_coinbase_value_sats report = fb_coinbase_value_sats (ab_found_block ab) \<and>
    vr_audit_commitment_root_hex report = root"
proof -
  have leaf_ok: "prism_audit_commitment_leaf_hex X J rm pm = Inr leaf"
    by (simp add: prism_audit_commitment_leaf_hex_def canonical_reward_manifest_bytes_def
        canonical_payout_policy_manifest_bytes_def bytes leaf)
  have "\<exists>report. audit_verification_report X J ab (sm_manifest sm) = Inr report \<and>
    vr_audit_bundle_sha256_hex report = sha256_hex X bundle_bytes \<and>
    vr_coinbase_tx_hex report = coinbase_tx_hex (sm_manifest sm) \<and>
    vr_coinbase_value_sats report = fb_coinbase_value_sats (ab_found_block ab) \<and>
    vr_audit_commitment_root_hex report = root"
    unfolding audit_verification_report_def rm_def[symmetric] pm_def[symmetric] leaf_ok root(1)
      canonical_reward_manifest_bytes_def canonical_payout_policy_manifest_bytes_def canonical_audit_bundle_bytes_def
      bytes coinbase map_err_simps rbind.simps by simp
  then show ?thesis
    using assms(4-6,8-10) leaf_ok assms(15-18)
    unfolding verify_audit_view_def Let_def rm_def pm_def sm_def by (simp add: audit_check_def)
qed

lemma plain_build_verifies:
  assumes laws: "hex_law X" "ed25519_law X" "length coinbase_key = 32" "length ledger_key = 32"
    and val: "fb_coinbase_value_sats fb < 2 ^ 64" and chunk: "0 < chunk_len parallelism" "serde_law J"
    and run: "build_audit_bundle_body_with_coinbase_options_parallel X J shares fb wcut prior policy suffix leaves_hex
      coinbase_key ledger_key parallelism = Inr body"
    and js: "js_bundle J (into_bundle body shares) = Inr bytes"
  shows "\<exists>report. verify_audit_view X J (into_bundle body shares) (signing_public_key_hex X ledger_key) = Inr report \<and>
    vr_audit_bundle_sha256_hex report = sha256_hex X bytes \<and>
    vr_coinbase_tx_hex report = coinbase_tx_hex (sm_manifest (ab_signed_coinbase_manifest body)) \<and>
    vr_coinbase_value_sats report = fb_coinbase_value_sats fb \<and>
    Some (vr_audit_commitment_root_hex report) = ab_audit_commitment_root_hex body"
proof -
  let ?ab = "into_bundle body shares"
  obtain rm attestation pm reward_bytes policy_bytes root sm where
    rm: "build_prism_reward_manifest_with_cut X shares fb wcut = Inr rm" and
    att: "build_ledger_window_attestation X J rm prior ledger_key = Inr attestation" and
    pm: "apply_payout_policy rm prior policy = Inr pm" and
    jr: "js_reward J rm = Inr reward_bytes" and jp: "js_policy J pm = Inr policy_bytes" and
    root: "audit_commitment_root_hex X [commitment_leaf_hex X (sha256 X reward_bytes) (sha256 X policy_bytes)] = Inr root" and
    sm: "build_profiled_signed_manifest X J (audit_coinbase_request rm pm (onchain_entitlements pm) root leaves_hex suffix)
       coinbase_key = Inr sm" and
    body: "body = \<lparr> ab_schema = audit_bundle_schema_for_shares shares, ab_found_block = fb, ab_prior_balances = prior,
                ab_payout_policy = policy, ab_coinbase_script_sig_suffix_hex = suffix,
                ab_witness_merkle_leaves_hex = leaves_hex,
                ab_audit_commitment_leaves_hex = [commitment_leaf_hex X (sha256 X reward_bytes) (sha256 X policy_bytes)],
                ab_audit_commitment_root_hex = Some root, ab_ledger_window_attestation = attestation,
                ab_reward_manifest = rm, ab_payout_policy_manifest = pm, ab_settlement_mode_decision = None,
                ab_ctv_fanout_fee_policy = None, ab_ctv_fanout_manifest_set = None,
                ab_signed_coinbase_manifest = sm \<rparr>"
    by (rule plain_build_Inr[OF run chunk])
  note rv = reward_manifest_value[OF rm]
  note s = signed_coinbase_verifies[OF laws(1-3) sm]
  obtain coinbase_bytes where jc: "js_coinbase J (sm_manifest sm) = Inr coinbase_bytes" using s(3) by blast
  have "verify_ledger_window_attestation X J ?ab (signing_public_key_hex X ledger_key) = Inr ()"
    by (rule attestation_verifies[OF laws(1,2,4) _ _ _ _ rv]) (simp_all add: body att)
  moreover have "verify_coinbase_output_policy pm None (sm_manifest sm) = Inr ()"
    by (rule plain_coinbase_policy[OF laws(1) pm _ s(1)]) (use rv val in simp)
  ultimately have "\<exists>report. verify_audit_view X J ?ab (signing_public_key_hex X ledger_key) = Inr report \<and>
    vr_audit_bundle_sha256_hex report = sha256_hex X bytes \<and>
    vr_coinbase_tx_hex report = coinbase_tx_hex (sm_manifest (ab_signed_coinbase_manifest ?ab)) \<and>
    vr_coinbase_value_sats report = fb_coinbase_value_sats (ab_found_block ?ab) \<and>
    vr_audit_commitment_root_hex report = root"
    by (intro verify_audit_view_intro[where es = "onchain_entitlements pm", OF _ _ _ _ _ _ _ _ _ js refl])
      (simp_all add: body rm rv pm jr jp jc root s(1,2) expected_policy_manifest_def expected_entitlements_and_leaves_def)
  then show ?thesis by (auto simp: body)
qed

lemma entitlement_pays [simp]:
  "weight (covenant_entitlement m) = cm_covenant_output_value_sats m"
  "pays_to (direct_entitlement r) = pays_to r" "weight (direct_entitlement r) = sr_amount_sats r"
  by (simp_all add: covenant_entitlement_def direct_entitlement_def pays_to_def Let_def)

text \<open>The output script of a payee, and that the bytes of a built coinbase pay the scripts of its payees.\<close>

definition payee_script :: "crypto \<Rightarrow> payee_key \<Rightarrow> byte list" where
  "payee_script X k = p2mr_script_pubkey (case hex_decode X (snd (snd k)) of Inr program \<Rightarrow> program | Inl e \<Rightarrow> [])"

definition tx_pays :: "crypto \<Rightarrow> string \<Rightarrow> (payee_key \<times> u64) multiset \<Rightarrow> bool" where
  "tx_pays X tx_hex owing \<longleftrightarrow> (\<exists>tx commitment. parse_transaction_hex X tx_hex ''coinbase transaction'' = Inr tx \<and>
     ensure_coinbase_shape tx = Inr () \<and>
     mset (map (\<lambda>txo. (to_script_pubkey txo, to_amount_sats txo)) (pt_outputs tx)) =
       image_mset (\<lambda>(k, sats). (payee_script X k, sats)) owing + {#(commitment, 0)#})"

lemma output_script:
  assumes hex: "hex_law X" and m: "build_manifest X request = Inr m"
    and val: "coinbase_value_sats request < 2 ^ 64" and out: "out \<in> set (pm_outputs m)"
  shows "script_pubkey_hex out = hex_encode X (payee_script X (pays_to out))"
proof -
  obtain outs where a: "allocate_outputs X request = Inr outs" and outs: "pm_outputs m = map (payout_output X) (enumerate 0 outs)"
    by (rule build_manifest_outputs[OF m])
  obtain es where es: "list_all2 (output_of X) es outs" by (rule allocate_outputs_Inr[OF a val])
  obtain i where i: "i < length outs" "out = payout_output X (i, outs ! i)"
    using out unfolding outs by (auto simp: in_set_conv_nth enumerate_eq_zip)
  then have o: "output_of X (es ! i) (outs ! i)" using es by (simp add: list_all2_nthD2)
  then have "hex_decode X (to_ascii_lowercase (p2mr_program_hex (es ! i))) = Inr (p2mr_program (outs ! i))"
    using hex_encode_decode[OF hex, of "p2mr_program_hex (es ! i)"] hex_decode_encode[OF hex] by (metis output_of_def)
  then show ?thesis
    using o payout_output_pays[OF hex o, of i] by (simp add: i payee_script_def pays_to_def payout_output_def output_of_def)
qed

lemma built_coinbase_pays:
  assumes laws: "hex_law X" "hex_text_law X" "sha_law X" and m: "build_manifest X request = Inr m"
    and money: "coinbase_value_sats request \<le> QBIT_MAX_MONEY_SATS"
  shows "tx_pays X (coinbase_tx_hex m) (paid_by_coinbase m)"
proof -
  obtain tx where p: "\<forall>field. parse_transaction_hex X (coinbase_tx_hex m) field = Inr tx" "ensure_coinbase_shape tx = Inr ()"
    and outs: "map (\<lambda>txo. (to_amount_sats txo, hex_encode X (to_script_pubkey txo))) (pt_outputs tx) =
      map (\<lambda>out. (po_amount_sats out, script_pubkey_hex out)) (pm_outputs m) @ [(0, witness_commitment_script_hex m)]"
    by (rule built_manifest_parse[OF laws m money])
  have val: "coinbase_value_sats request < 2 ^ 64" using money by (simp add: QBIT_MAX_MONEY_SATS_def)
  let ?dec = "\<lambda>(sats, h). (case hex_decode X h of Inr bs \<Rightarrow> bs | Inl e \<Rightarrow> [], sats)"
  have "map (\<lambda>txo. (to_script_pubkey txo, to_amount_sats txo)) (pt_outputs tx) =
      map ?dec (map (\<lambda>txo. (to_amount_sats txo, hex_encode X (to_script_pubkey txo))) (pt_outputs tx))"
    by (simp add: hex_decode_encode[OF laws(1)])
  also have "\<dots> = map (\<lambda>out. (payee_script X (pays_to out), po_amount_sats out)) (pm_outputs m) @ [?dec (0, witness_commitment_script_hex m)]"
    unfolding outs by (simp add: output_script[OF laws(1) m val] hex_decode_encode[OF laws(1)])
  finally have "mset (map (\<lambda>txo. (to_script_pubkey txo, to_amount_sats txo)) (pt_outputs tx)) =
      image_mset (\<lambda>(k, sats). (payee_script X k, sats)) (paid_by_coinbase m) + {#(fst (?dec (0, witness_commitment_script_hex m)), 0)#}"
    by (simp add: paid_by_coinbase_def multiset.map_comp comp_def)
  then show ?thesis unfolding tx_pays_def using p by blast
qed

lemma verified_bundle_steps:
  assumes laws: "hex_law X" "hex_text_law X" "sha_law X" and run: "verify_audit_bundle X J ab writer_key = Inr report"
    and val: "fb_coinbase_value_sats (ab_found_block ab) \<le> QBIT_MAX_MONEY_SATS"
  obtains es leaf leaves where
    "build_prism_reward_manifest_with_cut X (ab_shares ab) (ab_found_block ab) (rm_cut (ab_reward_manifest ab)) =
       Inr (ab_reward_manifest ab)"
    "expected_policy_manifest X ab (ab_reward_manifest ab) = Inr (ab_payout_policy_manifest ab)"
    "expected_entitlements_and_leaves X J ab (ab_payout_policy_manifest ab) leaf = Inr (es, leaves)"
    "mset (map (\<lambda>e. (pays_to e, weight e)) (onchain_entitlements (ab_payout_policy_manifest ab))) = owed (ab_payout_policy_manifest ab)"
    "sum_list (map weight (onchain_entitlements (ab_payout_policy_manifest ab))) = fb_coinbase_value_sats (ab_found_block ab)"
    "vr_coinbase_tx_hex report = coinbase_tx_hex (sm_manifest (ab_signed_coinbase_manifest ab))"
    "sum_list (map weight es) = fb_coinbase_value_sats (ab_found_block ab) \<longrightarrow>
      tx_pays X (vr_coinbase_tx_hex report) (mset (map (\<lambda>e. (pays_to e, weight e)) es))"
proof -
  have "verify_audit_view X J ab writer_key = Inr report" using run by (simp add: verify_audit_bundle_def)
  then obtain es leaf leaves root where
    rm: "build_prism_reward_manifest_with_cut X (ab_shares ab) (ab_found_block ab) (rm_cut (ab_reward_manifest ab)) =
       Inr (ab_reward_manifest ab)" and
    pm: "expected_policy_manifest X ab (ab_reward_manifest ab) = Inr (ab_payout_policy_manifest ab)" and
    es: "expected_entitlements_and_leaves X J ab (ab_payout_policy_manifest ab) leaf = Inr (es, leaves)" and
    m: "build_manifest X (audit_coinbase_request (ab_reward_manifest ab) (ab_payout_policy_manifest ab) es root
       (ab_witness_merkle_leaves_hex ab) (ab_coinbase_script_sig_suffix_hex ab)) =
       Inr (sm_manifest (ab_signed_coinbase_manifest ab))" and
    tx: "vr_coinbase_tx_hex report = coinbase_tx_hex (sm_manifest (ab_signed_coinbase_manifest ab))"
    by (rule verify_audit_view_Inr)
  note rv = reward_manifest_value[OF rm]
  then have lt: "rm_coinbase_value_sats (ab_reward_manifest ab) < 2 ^ 64" using val by (simp add: QBIT_MAX_MONEY_SATS_def)
  have "tx_pays X (vr_coinbase_tx_hex report) (paid_by_coinbase (sm_manifest (ab_signed_coinbase_manifest ab)))"
    unfolding tx by (rule built_coinbase_pays[OF laws m]) (use rv val in \<open>simp add: audit_coinbase_request_def\<close>)
  moreover have "paid_by_coinbase (sm_manifest (ab_signed_coinbase_manifest ab)) = mset (map (\<lambda>e. (pays_to e, weight e)) es)"
    if "sum_list (map weight es) = fb_coinbase_value_sats (ab_found_block ab)"
    using request_pays[OF laws(1) lt m] that rv by simp
  ultimately show ?thesis
    by (intro that[OF rm pm es expected_policy_owed(1)[OF pm lt] _ tx])
      (use expected_policy_owed(2)[OF pm lt] rv in auto)
qed

section \<open>A build that succeeds\<close>

lemma commitment_root_ok:
  assumes "hex_law X" "sha_law X" "leaves \<noteq> []" "\<forall>leaf\<in>set leaves. \<exists>bs. leaf = hex_encode X bs \<and> length bs = 32"
  shows "\<exists>bs. audit_commitment_root_hex X leaves = Inr (hex_encode X bs) \<and> length bs = 32"
proof -
  have leaf: "\<exists>bs. parse_audit_commitment_leaf X raw i = Inr bs \<and> length bs = 32" if "raw \<in> set leaves" for raw i
    using assms(4) that hex_decode_encode[OF assms(1)] by (fastforce simp: parse_audit_commitment_leaf_def)
  let ?parse = "\<lambda>(i, raw). parse_audit_commitment_leaf X raw i"
  have "\<forall>x\<in>set (enumerate 0 leaves). \<exists>bs. ?parse x = Inr bs \<and> length bs = 32"
    using leaf by (auto simp: enumerate_eq_zip dest: set_zip_rightD)
  then obtain f where f: "\<forall>x\<in>set (enumerate 0 leaves). ?parse x = Inr (f x) \<and> length (f x) = 32" by metis
  then have "rmap ?parse (enumerate 0 leaves) = Inr (map f (enumerate 0 leaves))"
    by (simp add: rmap_Inr list_all2_map2 list_all2_same)
  moreover have "length (merkle_root X (map f (enumerate 0 leaves))) = 32"
    by (rule merkle_root_length[OF assms(2)]) (use f assms(3) in \<open>auto simp: enumerate_eq_zip\<close>)
  ultimately show ?thesis by (auto simp: audit_commitment_root_hex_def parse_audit_commitment_leaves_def assms(3))
qed

lemma allocate_outputs_cong:
  assumes "coinbase_value_sats r = coinbase_value_sats r'" "entitlements r = entitlements r'"
    and "pinned_first_output r = pinned_first_output r'"
  shows "allocate_outputs X r = allocate_outputs X r'"
  by (simp only: allocate_outputs_def order_entitlements_def assms)

lemma audit_request_ok:
  fixes es :: "WeightedEntitlement list"
  defines "bare \<equiv> \<lambda>rm pm. audit_coinbase_request rm pm es [] [] None"
  assumes laws: "hex_law X" "sha_law X" and root: "root = hex_encode X bs" "length bs = 32"
    and val: "rm_coinbase_value_sats rm < 2 ^ 64" and outs: "allocate_outputs X (bare rm pm) = Inr outs"
    and height: "0 < rm_block_height rm" "rm_block_height rm < 2 ^ 32" and sig: "coinbase_script_sig X (bare rm pm) = Inr sig"
    and few: "43 * length outs + 300 \<le> MAX_BLOCK_WEIGHT" and js: "js_coinbase J = (\<lambda>m. Inr (bytes m))"
  shows "\<exists>sm. build_profiled_signed_manifest X J (audit_coinbase_request rm pm es root [] None) key = Inr sm"
proof -
  let ?r = "audit_coinbase_request rm pm es root [] None"
  have "allocate_outputs X ?r = Inr outs"
    using outs allocate_outputs_cong[of ?r "bare rm pm"] by (simp add: bare_def audit_coinbase_request_def)
  moreover have "coinbase_script_sig X ?r = Inr sig"
    using sig by (simp add: bare_def audit_coinbase_request_def coinbase_script_sig_def coinbase_script_sig_suffix_def)
  ultimately obtain m where "build_manifest X ?r = Inr m"
    using build_manifest_ok[OF laws(2), of ?r outs bs "[]" sig] val height few root hex_decode_encode[OF laws(1)]
    by (auto simp: audit_coinbase_request_def witness_nonce_def witness_leaves_def)
  then show ?thesis by (simp add: build_profiled_signed_manifest_def canonical_manifest_bytes_def js)
qed

text \<open>Whether the payments of a window fit a coinbase: everything the plain builder computes but hashes and signatures.\<close>

definition payments_fit ::
  "crypto \<Rightarrow> AcceptedShare list \<Rightarrow> FoundBlock \<Rightarrow> CarryForwardBalance list \<Rightarrow> PayoutPolicy \<Rightarrow> bool" where
  "payments_fit X shares fb prior policy =
     (case compute_prism_window_in_cut shares fb None of Inl e \<Rightarrow> False
      | Inr w \<Rightarrow> let rm = reward_manifest fb None w [] in
        (case apply_payout_policy rm prior policy of Inl e \<Rightarrow> False
         | Inr pm \<Rightarrow> let request = audit_coinbase_request rm pm (onchain_entitlements pm) [] [] None in
           (case allocate_outputs X request of Inl e \<Rightarrow> False
            | Inr outs \<Rightarrow> 43 * length outs + 300 \<le> MAX_BLOCK_WEIGHT \<and> is_ok (coinbase_script_sig X request))))"

lemma apply_payout_policy_cong:
  assumes "rm_coinbase_value_sats rm = rm_coinbase_value_sats rm'" "rm_entitlements rm = rm_entitlements rm'"
    and "rm_block_height rm = rm_block_height rm'"
  shows "apply_payout_policy rm = apply_payout_policy rm'"
  by (intro ext) (simp only: apply_payout_policy_def policy_manifest_def assms)

lemma policy_ignores_digest:
  "apply_payout_policy (reward_manifest fb wcut w d) = apply_payout_policy (reward_manifest fb wcut w [])"
  "audit_coinbase_request (reward_manifest fb wcut w d) = audit_coinbase_request (reward_manifest fb wcut w [])"
  by (rule apply_payout_policy_cong) (simp_all add: reward_manifest_def audit_coinbase_request_def fun_eq_iff)

lemma leaf_hex: "sha_law X \<Longrightarrow> \<exists>bs. commitment_leaf_hex X a b = hex_encode X bs \<and> length bs = 32"
  by (auto simp: commitment_leaf_hex_def sha256_hex_def sha256_length)

lemma plain_build_ok:
  assumes laws: "hex_law X" "sha_law X" and fit: "payments_fit X shares fb prior policy"
    and serde: "serde_law J"
    and js: "js_reward J = (\<lambda>m. Inr (jr m))" "js_policy J = (\<lambda>m. Inr (jp m))" "js_attestation J = (\<lambda>m. Inr (ja m))"
      "js_coinbase J = (\<lambda>m. Inr (jc m))"
    and keys: "\<not> eq_ignore_ascii_case (signing_public_key_hex X coinbase_key) (signing_public_key_hex X ledger_key)"
    and fb: "fb_coinbase_value_sats fb < 2 ^ 64" "0 < fb_block_height fb" "fb_block_height fb < 2 ^ 32"
    and chunk: "0 < chunk_len parallelism"
  shows "\<exists>body. build_audit_bundle_body_with_coinbase_options_parallel X J shares fb None prior policy None []
    coinbase_key ledger_key parallelism = Inr body"
proof -
  obtain w where w: "compute_prism_window_in_cut shares fb None = Inr w"
    using fit by (auto simp: payments_fit_def split: sum.splits)
  let ?rm = "reward_manifest fb None w (share_slice_digest_hex X (w_shares w))"
  obtain pm outs sig where pm: "apply_payout_policy ?rm prior policy = Inr pm"
    and outs: "allocate_outputs X (audit_coinbase_request ?rm pm (onchain_entitlements pm) [] [] None) = Inr outs"
      "43 * length outs + 300 \<le> MAX_BLOCK_WEIGHT"
    and sig: "coinbase_script_sig X (audit_coinbase_request ?rm pm (onchain_entitlements pm) [] [] None) = Inr sig"
    using fit by (auto simp: payments_fit_def w Let_def is_ok_iff policy_ignores_digest[where d = "share_slice_digest_hex X (w_shares w)"] split: sum.splits)
  have rm: "build_prism_reward_manifest_parallel X shares fb None parallelism = Inr ?rm"
    by (simp add: parallel_build[OF chunk] build_prism_reward_manifest_with_cut_def w)
  let ?leaf = "commitment_leaf_hex X (sha256 X (jr ?rm)) (sha256 X (jp pm))"
  obtain bs where root: "audit_commitment_root_hex X [?leaf] = Inr (hex_encode X bs)" "length bs = 32"
    using commitment_root_ok[OF laws, of "[?leaf]"] leaf_hex[OF laws(2)] by auto
  obtain sm where "build_profiled_signed_manifest X J
      (audit_coinbase_request ?rm pm (onchain_entitlements pm) (hex_encode X bs) [] None) coinbase_key = Inr sm"
    using audit_request_ok[OF laws refl root(2) _ outs(1) _ _ sig outs(2) js(4)] fb by (auto simp: reward_manifest_def)
  then show ?thesis
    using keys rm pm root(1)
    by (simp add: build_audit_bundle_body_with_coinbase_options_parallel_def build_ledger_window_attestation_def
        canonical_ledger_window_attestation_bytes_def reward_hash_eq[OF serde] canonical_reward_manifest_bytes_def
        canonical_payout_policy_manifest_bytes_def js Let_def)
qed

definition audit_share :: "nat \<Rightarrow> string \<Rightarrow> string \<Rightarrow> AcceptedShare" where
  "audit_share n miner byte = (demo_share n miner 8 30) \<lparr> s_p2mr_program_hex := concat (replicate 32 byte) \<rparr>"

definition audit_shares :: "AcceptedShare list" where
  "audit_shares = [audit_share 1 ''ann'' ''a1'', audit_share 2 ''bob'' ''b2'']"

definition audit_policy :: PayoutPolicy where
  "audit_policy = day_one_default \<lparr> configured_min_output_sats := Some 10,
     pool_fee_policy := Some \<lparr> recipient_id = ''pool'', order_key = ''z'', p2mr_program_hex = concat (replicate 32 ''f0''), fee_bps = 500 \<rparr>,
     coinbase_output_policy := PoolFeeFirst \<rparr>"

text \<open>A serializer of concrete text that has the form \<^verbatim>\<open>serde_json\<close> documents.\<close>

definition demo_quoted :: "string \<Rightarrow> byte list" where
  "demo_quoted s = [34] @ as_bytes s @ [34]"

definition demo_share_bytes :: "CountedShare \<Rightarrow> byte list" where
  "demo_share_bytes s = [123] @ demo_quoted ''share_seq'' @ [58] @ as_bytes (show_nat (share_seq s)) @ [125]"

fun demo_value_bytes :: "RewardValue \<Rightarrow> byte list" where
  "demo_value_bytes (StringField s) = demo_quoted s"
| "demo_value_bytes (UnsignedField n) = as_bytes (show_nat n)"
| "demo_value_bytes (SignedField i) = (if i < 0 then [45] else []) @ as_bytes (show_nat (nat \<bar>i\<bar>))"
| "demo_value_bytes (CutField c) = (if c = None then as_bytes ''null'' else [123, 125])"
| "demo_value_bytes (SharesField xs) = [91] @ join_commas (map demo_share_bytes xs) @ [93]"
| "demo_value_bytes (EntitlementsField es) = [91] @ join_commas (map (\<lambda>e. as_bytes (show_nat (weight e))) es) @ [93]"

definition demo_reward_bytes :: "PrismRewardManifest \<Rightarrow> byte list" where
  "demo_reward_bytes m = [123] @ join_commas (map (\<lambda>(k, v). demo_quoted k @ [58] @ demo_value_bytes v) (reward_fields m)) @ [125]"

definition demo_json :: json where
  "demo_json = \<lparr> js_key = (\<lambda>k. Inr (demo_quoted k)), js_value = (\<lambda>v. Inr (demo_value_bytes v)), js_share = (\<lambda>s. Inr (demo_share_bytes s)),
     js_reward = (\<lambda>m. Inr (demo_reward_bytes m)), js_policy = (\<lambda>m. Inr (le_bytes 8 (pp_min_output_sats m))),
     js_attestation = (\<lambda>a. Inr (as_bytes (la_share_slice_digest_hex a))),
     js_coinbase = (\<lambda>m. Inr (as_bytes (coinbase_txid m))), js_precommitment = demo_to_vec,
     js_bundle = (\<lambda>b. Inr (as_bytes (ab_schema b))) \<rparr>"

lemma demo_json_serde: "serde_law demo_json"
proof -
  have "rmap (json_member (js_key demo_json) (js_value demo_json)) fs = Inr (map (\<lambda>(k, v). demo_quoted k @ [58] @ demo_value_bytes v) fs)" for fs
    by (rule rmap_all_ok) (auto simp: json_member_def demo_json_def)
  moreover have "rmap (js_share demo_json) xs = Inr (map demo_share_bytes xs)" for xs
    by (rule rmap_all_ok) (simp add: demo_json_def)
  ultimately show ?thesis
    by (simp add: serde_law_def json_object_def json_array_def) (simp add: demo_json_def demo_reward_bytes_def)
qed

lemma demo_json_simps:
  "js_reward demo_json = (\<lambda>m. Inr (demo_reward_bytes m))"
  "js_policy demo_json = (\<lambda>m. Inr (le_bytes 8 (pp_min_output_sats m)))"
  "js_attestation demo_json = (\<lambda>a. Inr (as_bytes (la_share_slice_digest_hex a)))"
  "js_coinbase demo_json = (\<lambda>m. Inr (as_bytes (coinbase_txid m)))"
  by (simp_all add: demo_json_def)

lemma demo_payments_fit: "payments_fit demo_crypto audit_shares demo_block [] audit_policy"
  by code_simp

lemma demo_bundle:
  obtains body where "build_audit_bundle_body_with_coinbase_options_parallel demo_crypto demo_json audit_shares demo_block None []
      audit_policy None [] (replicate 32 1) (replicate 32 2) (parallelism_new 4 2) = Inr body"
proof -
  have "\<not> eq_ignore_ascii_case (signing_public_key_hex demo_crypto (replicate 32 1)) (signing_public_key_hex demo_crypto (replicate 32 2))"
    by code_simp
  then have "\<exists>body. build_audit_bundle_body_with_coinbase_options_parallel demo_crypto demo_json audit_shares demo_block None []
      audit_policy None [] (replicate 32 1) (replicate 32 2) (parallelism_new 4 2) = Inr body"
    by (rule plain_build_ok[OF demo_crypto_hex demo_crypto_sha demo_payments_fit demo_json_serde demo_json_simps])
      (simp_all add: demo_block_def parallelism_new_def)
  with that show ?thesis by blast
qed

section \<open>Properties\<close>

text \<open>C7. A bundle that the plain builder makes verifies under the public key of the ledger, for every number of workers
  and every positive chunk length: the window folded in chunks and the manifest hashed through the chunked writer are what
  the verifier recomputes from whole values. The report names its bytes, its coinbase transaction, its value and its
  commitment root.\<close>

theorem built_bundle_verifies:
  assumes "hex_law X" and "ed25519_law X" and "length coinbase_key = 32" and "length ledger_key = 32"
    and "fb_coinbase_value_sats fb < 2 ^ 64" and "0 < chunk_len parallelism" and "serde_law J"
    and "build_audit_bundle_body_with_coinbase_options_parallel X J shares fb wcut prior policy suffix leaves_hex
      coinbase_key ledger_key parallelism = Inr body"
    and "js_bundle J (into_bundle body shares) = Inr bytes"
  shows "\<exists>report. verify_audit_parts X J body shares (signing_public_key_hex X ledger_key) = Inr report \<and>
    vr_audit_bundle_sha256_hex report = sha256_hex X bytes \<and>
    vr_coinbase_tx_hex report = coinbase_tx_hex (sm_manifest (ab_signed_coinbase_manifest body)) \<and>
    vr_coinbase_value_sats report = fb_coinbase_value_sats fb \<and>
    Some (vr_audit_commitment_root_hex report) = ab_audit_commitment_root_hex body"
  using plain_build_verifies[OF assms] by (simp add: verify_audit_parts_def)

theorem built_bundle_verifies_witness:
  "\<exists>body report. build_audit_bundle_body_with_coinbase_options_parallel demo_crypto demo_json audit_shares demo_block None []
      audit_policy None [] (replicate 32 1) (replicate 32 2) (parallelism_new 4 2) = Inr body \<and>
    verify_audit_parts demo_crypto demo_json body audit_shares (signing_public_key_hex demo_crypto (replicate 32 2)) = Inr report \<and>
    vr_coinbase_value_sats report = 100"
proof -
  obtain body where body: "build_audit_bundle_body_with_coinbase_options_parallel demo_crypto demo_json audit_shares
      demo_block None [] audit_policy None [] (replicate 32 1) (replicate 32 2) (parallelism_new 4 2) = Inr body"
    by (rule demo_bundle)
  show ?thesis
    using built_bundle_verifies[OF demo_crypto_hex demo_crypto_ed25519 _ _ _ _ demo_json_serde body] body
    by (auto simp: demo_json_def demo_block_def parallelism_new_def)
qed

text \<open>C5. A bundle without fan-outs that verifies is a complete account of the block: its reward manifest is the
  one of its shares, its policy manifest is the policy applied to it, and the bytes of the coinbase
  transaction in the report pay the script of every account with an on-chain amount exactly that
  amount, and nothing else but the witness commitment.\<close>

theorem verified_bundle_pays:
  assumes "hex_law X" and "hex_text_law X" and "sha_law X" and "verify_audit_bundle X J ab writer_key = Inr report"
    and "fb_coinbase_value_sats (ab_found_block ab) \<le> QBIT_MAX_MONEY_SATS" and "ab_settlement_mode_decision ab = None"
  shows "build_prism_reward_manifest_with_cut X (ab_shares ab) (ab_found_block ab) (rm_cut (ab_reward_manifest ab)) =
      Inr (ab_reward_manifest ab) \<and>
    apply_payout_policy (ab_reward_manifest ab) (ab_prior_balances ab) (ab_payout_policy ab) =
      Inr (ab_payout_policy_manifest ab) \<and>
    tx_pays X (vr_coinbase_tx_hex report) (owed (ab_payout_policy_manifest ab))"
proof -
  let ?pm = "ab_payout_policy_manifest ab"
  obtain es leaf leaves where
    "build_prism_reward_manifest_with_cut X (ab_shares ab) (ab_found_block ab) (rm_cut (ab_reward_manifest ab)) =
       Inr (ab_reward_manifest ab)"
    "expected_policy_manifest X ab (ab_reward_manifest ab) = Inr ?pm"
    "expected_entitlements_and_leaves X J ab ?pm leaf = Inr (es, leaves)"
    "mset (map (\<lambda>e. (pays_to e, weight e)) (onchain_entitlements ?pm)) = owed ?pm"
    "sum_list (map weight (onchain_entitlements ?pm)) = fb_coinbase_value_sats (ab_found_block ab)"
    "sum_list (map weight es) = fb_coinbase_value_sats (ab_found_block ab) \<longrightarrow>
      tx_pays X (vr_coinbase_tx_hex report) (mset (map (\<lambda>e. (pays_to e, weight e)) es))"
    by (rule verified_bundle_steps[OF assms(1-5)])
  then show ?thesis
    by (auto simp: expected_entitlements_and_leaves_def expected_policy_manifest_def assms(6) rbind_Inr)
qed

theorem verified_bundle_pays_witness:
  "\<exists>ab report. verify_audit_bundle demo_crypto demo_json ab (signing_public_key_hex demo_crypto (replicate 32 2)) = Inr report \<and>
    tx_pays demo_crypto (vr_coinbase_tx_hex report) (owed (ab_payout_policy_manifest ab))"
proof -
  obtain body where body: "build_audit_bundle_body_with_coinbase_options_parallel demo_crypto demo_json audit_shares
      demo_block None [] audit_policy None [] (replicate 32 1) (replicate 32 2) (parallelism_new 4 2) = Inr body"
    by (rule demo_bundle)
  let ?ab = "into_bundle body audit_shares"
  obtain report where report: "verify_audit_bundle demo_crypto demo_json ?ab (signing_public_key_hex demo_crypto (replicate 32 2)) = Inr report"
    using plain_build_verifies[OF demo_crypto_hex demo_crypto_ed25519 _ _ _ _ demo_json_serde body]
    by (auto simp: demo_json_def demo_block_def parallelism_new_def verify_audit_bundle_def)
  have "ab_found_block ?ab = demo_block" "ab_settlement_mode_decision ?ab = None"
    by (rule plain_build_Inr[OF body _ demo_json_serde], simp add: parallelism_new_def, simp)+
  then have "tx_pays demo_crypto (vr_coinbase_tx_hex report) (owed (ab_payout_policy_manifest ?ab))"
    using verified_bundle_pays[OF demo_crypto_hex demo_crypto_hex_text demo_crypto_sha report]
    by (simp add: demo_block_def QBIT_MAX_MONEY_SATS_def)
  with report show ?thesis by blast
qed

end
