(* ===== verification/Audit_Settlement.thy ===== *)
theory Audit_Settlement
  imports Audit_Verification
begin

text \<open>
  A bundle that the builder settles through fan-outs verifies: the parts of the settlement, the fees,
  the prepared fan-outs and the finished manifests each carry what the verifier recomputes.
\<close>

section \<open>Recipients in canonical form\<close>

definition lower_payee :: "('x) payee_scheme \<Rightarrow> bool" where
  "lower_payee p \<longleftrightarrow> to_ascii_lowercase (p2mr_program_hex p) = p2mr_program_hex p"

lemma recipient_key_inject: "recipient_key a = recipient_key b \<longleftrightarrow> a = b"
  by (cases a; cases b) (auto simp: recipient_key_def payee_order_def)

lemma normalize_lower:
  assumes "hex_law X" "normalize_recipient X r = Inr q" "lower_payee r"
  shows "q = r"
proof -
  obtain bytes where "hex_decode X (p2mr_program_hex r) = Inr bytes" "q = r \<lparr> p2mr_program_hex := hex_encode X bytes \<rparr>"
    using assms(2) by (auto simp: normalize_recipient_def rbind_Inr map_err_Inr if_Inl_Inr)
  with hex_encode_decode[OF assms(1)] assms(3) show ?thesis by (simp add: lower_payee_def)
qed

lemma canonical_lower:
  assumes "hex_law X" "canonical_recipients X rs = Inr cs" "\<forall>r\<in>set rs. lower_payee r"
  shows "cs = sort_key payee_order rs" "distinct (map payee_order rs)" "\<forall>r\<in>set rs. 0 < sr_amount_sats r"
proof -
  obtain ns where ns: "rmap (normalize_recipient X) rs = Inr ns" "cs = sort_key payee_order ns"
    and cs: "\<forall>r\<in>set cs. 0 < sr_amount_sats r" "distinct (map payee_order cs)"
    by (rule canonical_recipients_Inr[OF assms(2)])
  have "list_all2 (\<lambda>r q. r \<in> set rs \<and> normalize_recipient X r = Inr q) rs ns"
    using ns(1) unfolding rmap_Inr list_all2_conv_all_nth by auto
  then have "list_all2 (=) rs ns"
    by (rule list_all2_mono) (use normalize_lower[OF assms(1)] assms(3) in blast)
  then have "ns = rs" by (simp add: list.rel_eq)
  with ns(2) show "cs = sort_key payee_order rs" by simp
  with cs show "\<forall>r\<in>set rs. 0 < sr_amount_sats r" "distinct (map payee_order rs)"
    by (simp_all add: distinct_map_sort_key)
qed

lemma settlement_parts:
  assumes hex: "hex_law X" and run: "select_settlement_mode_with_pinned_direct X rs floor config pinned = Inr d"
    and lower: "\<forall>r\<in>set rs. lower_payee r"
  shows "mset (direct_recipients d @ concat (map sc_recipients (fanout_chunks d))) = mset rs"
    "distinct (map payee_order rs)" "\<forall>r\<in>set rs. 0 < sr_amount_sats r" "sum_list (map sr_amount_sats rs) < 2 ^ 64"
    "map sc_chunk_index (fanout_chunks d) = [0..<length (fanout_chunks d)]"
    "fanout_chunk_count_d d = length (fanout_chunks d)"
    "pinned = Some q \<Longrightarrow> \<exists>r\<in>set (direct_recipients d). pinned_key_of X pinned = Some (payee_order r)"
proof -
  let ?pk = "pinned_key_of X pinned" and ?m = "max_fanout_recipients_per_transaction config"
  obtain cs n direct fanout where v: "validate_config config = Inr ()" and cs: "canonical_recipients X rs = Inr cs"
    and dist: "distinct (map payee_order cs)" and pk: "\<forall>k. ?pk = Some k \<longrightarrow> k \<in> payee_order ` set cs"
    and pinned: "pinned \<noteq> None \<longrightarrow> ?pk \<noteq> None \<and> 0 < max_direct_coinbase_outputs config"
    and lt: "sum_list (map sr_amount_sats cs) < 2 ^ 64"
    and part: "partition_recipients ?pk floor n cs = (direct, fanout)"
    and set: "settle_partition config floor (if ?pk = None then 0 else 1) (sum_list (map sr_amount_sats cs)) direct fanout = Inr d"
    by (rule select_settlement_Inr[OF run])
  note c = canonical_lower[OF hex cs lower] and d = settle_partition_Inr[OF set]
  have m: "0 < ?m" using validate_config_Inr[OF v] by simp
  have "concat (map sc_recipients (fanout_chunks d)) = fanout"
    unfolding d(2) by (simp add: fanout_chunk_list_simps concat_chunks[OF m])
  then show "mset (direct_recipients d @ concat (map sc_recipients (fanout_chunks d))) = mset rs"
    using partition_mset[OF part] by (simp add: d(1) c(1))
  show "distinct (map payee_order rs)" "\<forall>r\<in>set rs. 0 < sr_amount_sats r" by (rule c(2,3))+
  show "sum_list (map sr_amount_sats rs) < 2 ^ 64" using lt by (simp add: c(1) sum_list_sort_key)
  show "map sc_chunk_index (fanout_chunks d) = [0..<length (fanout_chunks d)]"
    unfolding d(2) by (simp add: fanout_chunk_list_simps)
  show "fanout_chunk_count_d d = length (fanout_chunks d)"
    using set unfolding settle_partition_def by (auto simp: rbind_Inr Let_def split: if_splits)
  show "\<exists>r\<in>set (direct_recipients d). pinned_key_of X pinned = Some (payee_order r)" if "pinned = Some q"
    using pinned pk that partition_members(1)[OF part dist] by (auto simp: d(1))
qed

section \<open>Fees\<close>

abbreviation payee_account :: "('x) payee_scheme \<Rightarrow> string" where
  "payee_account p \<equiv> account_key (recipient_id p) (order_key p) (p2mr_program_hex p)"

lemma payee_account_cong: "payee_order p = payee_order q \<Longrightarrow> payee_account p = payee_account q"
  by (simp add: payee_order_eq_iff)

lemma record_fee_recipient_Inr:
  "record_fee_recipient m r = Inr m' \<longleftrightarrow> bt_lookup m (payee_account r) = None \<and> m' = bt_insert (payee_account r) r m"
  by (auto simp: record_fee_recipient_def Let_def)

lemma record_fee_recipients:
  assumes "rfold record_fee_recipient m rs = Inr m'"
  shows "(\<forall>k f. bt_lookup m k = Some f \<longrightarrow> bt_lookup m' k = Some f) \<and>
    (\<forall>f\<in>set rs. bt_lookup m' (payee_account f) = Some f)"
  using assms
proof (induction rs arbitrary: m)
  case (Cons r rs)
  from Cons.prems have new: "bt_lookup m (payee_account r) = None"
    and rest: "rfold record_fee_recipient (bt_insert (payee_account r) r m) rs = Inr m'"
    by (auto simp: record_fee_recipient_Inr rbind_Inr)
  have "bt_lookup m' k = Some f" if "bt_lookup m k = Some f" for k f
    using Cons.IH[OF rest] new that by (cases "k = payee_account r") simp_all
  with Cons.IH[OF rest] show ?case by simp
qed simp

text \<open>The recipient was charged: its entry has its payee, its amount as gross, and balances.\<close>

definition charged :: "(string, FanoutFeeRecipient) btree \<Rightarrow> SettlementRecipient \<Rightarrow> bool" where
  "charged m r \<longleftrightarrow> (\<exists>f. bt_lookup m (payee_account r) = Some f \<and> fr_gross_amount_sats f = sr_amount_sats r \<and>
     fr_gross_amount_sats f = fee_sats f + net_amount_sats f)"

lemma charge_chunk_Inr:
  assumes hex: "hex_law X" and run: "charge_chunk X fee_policy floor m c = Inr m'"
    and lower: "\<forall>r\<in>set (sc_recipients c). lower_payee r"
  shows "(\<forall>k f. bt_lookup m k = Some f \<longrightarrow> bt_lookup m' k = Some f) \<and> (\<forall>r\<in>set (sc_recipients c). charged m' r)"
proof -
  from run obtain fee d where d: "apply_proportional_fanout_fee X (sc_recipients c) fee floor = Inr d"
    and none: "carry_forward_recipients d = []" and rec: "rfold record_fee_recipient m (payable_recipients d) = Inr m'"
    by (auto simp: charge_chunk_def rbind_Inr split: if_splits)
  from d obtain cs total where cs: "canonical_recipients X (sc_recipients c) = Inr cs"
    and sum: "sum_amounts cs = Inr total" and loop: "fee_loop fee floor total cs [] = Inr d"
    by (auto simp: apply_proportional_fanout_fee_def rbind_Inr split: if_splits)
  note can = canonical_lower[OF hex cs lower]
  have dist: "distinct (map payee_order cs)" "sum_list (map sr_amount_sats cs) < 2 ^ 64"
    using can(2) sum by (simp_all add: can(1) distinct_map_sort_key sum_amounts_Inr)
  obtain p carry where "fee_loop fee floor total cs [] = Inr (fee_decision total fee (if p = [] then 0 else fee) p ([] @ carry))"
    and out: "fee_outcome fee floor cs p carry"
    using fee_loop_outcome[OF dist, of fee floor total "[]"] by blast
  with loop none have p: "payable_recipients d = sort_key payee_order p" and "sort_key payee_order carry = []"
    by (auto simp: fee_decision_def)
  then have carry: "carry = []" by (metis set_sort set_empty)
  have keys: "mset (map gross_key p) = mset (map recipient_key cs)"
    and bal: "\<forall>f\<in>set p. fr_gross_amount_sats f = fee_sats f + net_amount_sats f"
    using out by (auto simp: fee_outcome_def fee_shared_def carry)
  note r = record_fee_recipients[OF rec[unfolded p]]
  have "charged m' r" if "r \<in> set (sc_recipients c)" for r
  proof -
    have "recipient_key r \<in> set (map gross_key p)"
      using mset_eq_setD[OF keys] that by (simp add: can(1))
    then obtain f where f: "f \<in> set p" "gross_key f = recipient_key r" by auto
    then have "payee_account r = payee_account f" "fr_gross_amount_sats f = sr_amount_sats r"
      using payee_account_cong[of r f] by (simp_all add: gross_key_def recipient_key_def)
    with r f bal show ?thesis by (auto simp: charged_def)
  qed
  with r show ?thesis by blast
qed

lemma charge_chunks_Inr:
  assumes "hex_law X" "rfold (charge_chunk X fee_policy floor) m cs = Inr m'"
    and "\<forall>c\<in>set cs. \<forall>r\<in>set (sc_recipients c). lower_payee r"
  shows "(\<forall>k f. bt_lookup m k = Some f \<longrightarrow> bt_lookup m' k = Some f) \<and> (\<forall>c\<in>set cs. \<forall>r\<in>set (sc_recipients c). charged m' r)"
  using assms(2,3)
proof (induction cs arbitrary: m)
  case (Cons c cs)
  from Cons.prems(1) obtain m1 where m1: "charge_chunk X fee_policy floor m c = Inr m1"
    and rest: "rfold (charge_chunk X fee_policy floor) m1 cs = Inr m'" by (auto simp: rbind_Inr)
  have h: "(\<forall>k f. bt_lookup m k = Some f \<longrightarrow> bt_lookup m1 k = Some f) \<and> (\<forall>r\<in>set (sc_recipients c). charged m1 r)"
    by (rule charge_chunk_Inr[OF assms(1) m1]) (use Cons.prems(2) in simp)
  have t: "(\<forall>k f. bt_lookup m1 k = Some f \<longrightarrow> bt_lookup m' k = Some f) \<and> (\<forall>c\<in>set cs. \<forall>r\<in>set (sc_recipients c). charged m' r)"
    by (rule Cons.IH[OF rest]) (use Cons.prems(2) in simp)
  from h t have "\<forall>r\<in>set (sc_recipients c). charged m' r" unfolding charged_def by blast
  with h t show ?case by simp
qed simp

section \<open>Prepared fan-outs\<close>

text \<open>The payout of a recipient records the recipient's whole amount as gross.\<close>

definition settles :: "(string, FanoutFeeRecipient) btree \<Rightarrow> SettlementRecipient \<Rightarrow> bool" where
  "settles m r \<longleftrightarrow> m = [] \<or> charged m r"

lemma fanout_payout_gross:
  assumes "settles m r"
  shows "(if cp_gross_amount_sats (fanout_payout m r) = 0 then cp_amount_sats (fanout_payout m r)
      else cp_gross_amount_sats (fanout_payout m r)) = sr_amount_sats r"
    "payee_order (fanout_payout m r) = payee_order r" "p2mr_program_hex (fanout_payout m r) = p2mr_program_hex r"
  using assms by (auto simp: settles_def charged_def fanout_payout_def Let_def payee_order_def)

lemma fanout_output_fold_gross:
  assumes "rfold (fanout_output_step X) (seen, acc) (enumerate k ps) = Inr (seen', outs)"
  shows "\<exists>new. outs = acc @ new \<and> list_all2 (\<lambda>p out. payee_order out = payee_order p \<and> 0 < fo_amount_sats out \<and>
    fo_gross_amount_sats out = fo_amount_sats out + fo_fee_sats out \<and>
    fo_gross_amount_sats out = (if cp_gross_amount_sats p = 0 then cp_amount_sats p else cp_gross_amount_sats p)) ps new"
  using assms
proof (induction ps arbitrary: k seen acc)
  case (Cons p ps)
  from Cons.prems obtain seen1 acc1 where step: "fanout_output_step X (seen, acc) (k, p) = Inr (seen1, acc1)"
    and rest: "rfold (fanout_output_step X) (seen1, acc1) (enumerate (Suc k) ps) = Inr (seen', outs)"
    by (auto simp: rbind_Inr)
  from step obtain out where "acc1 = acc @ [out]" "payee_order out = payee_order p \<and> 0 < fo_amount_sats out \<and>
    fo_gross_amount_sats out = fo_amount_sats out + fo_fee_sats out \<and>
    fo_gross_amount_sats out = (if cp_gross_amount_sats p = 0 then cp_amount_sats p else cp_gross_amount_sats p)"
    by (auto simp: fanout_output_step_def Let_def rbind_Inr reject_if_Inr ok_or_Inr checked_simps payee_order_def)
  with Cons.IH[OF rest] show ?case by auto
qed simp

lemma canonical_payout_lower:
  assumes "hex_law X" "canonical_payout X p = Inr q" "lower_payee p"
  shows "q = p"
proof -
  obtain program where "hex_decode X (p2mr_program_hex p) = Inr program" "q = p \<lparr> p2mr_program_hex := hex_encode X program \<rparr>"
    using assms(2) by (auto simp: canonical_payout_def canonical_p2mr_program_hex_def decode_program_hex_def rbind_Inr
        map_err_Inr if_Inl_Inr)
  with hex_encode_decode[OF assms(1)] assms(3) show ?thesis by (simp add: lower_payee_def)
qed

lemma covered_recipient_key:
  "0 < fo_amount_sats out \<Longrightarrow> fo_gross_amount_sats out = fo_amount_sats out + fo_fee_sats out \<Longrightarrow>
    recipient_key (covered_recipient out) = (payee_order out, fo_gross_amount_sats out)"
  by (simp add: recipient_key_def covered_recipient_def payee_order_def)

lemma covered_chunk:
  assumes hex: "hex_law X" and run: "canonical_fanout_outputs X (map (fanout_payout m) rs) = Inr outs"
    and lower: "\<forall>r\<in>set rs. lower_payee r" and ok: "\<forall>r\<in>set rs. settles m r"
  shows "mset (map covered_recipient outs) = mset rs"
proof -
  let ?ps = "map (fanout_payout m) rs" and ?gross = "\<lambda>p. if cp_gross_amount_sats p = 0 then cp_amount_sats p else cp_gross_amount_sats p"
  from run obtain ps seen where ps: "rmap (canonical_payout X) ?ps = Inr ps"
    and fold: "rfold (fanout_output_step X) ({}, []) (enumerate 0 (sort_key payout_sort_key ps)) = Inr (seen, outs)"
    by (auto simp: canonical_fanout_outputs_def rbind_Inr reject_if_Inr)
  have "list_all2 (\<lambda>p q. p \<in> set ?ps \<and> canonical_payout X p = Inr q) ?ps ps"
    using ps unfolding rmap_Inr list_all2_conv_all_nth by auto
  then have "list_all2 (=) ?ps ps"
    by (rule list_all2_mono)
      (use canonical_payout_lower[OF hex] lower ok fanout_payout_gross(3) in \<open>fastforce simp: lower_payee_def\<close>)
  then have ps_eq: "ps = ?ps" by (simp add: list.rel_eq)
  have "list_all2 (\<lambda>p out. recipient_key (covered_recipient out) = (payee_order p, ?gross p)) (sort_key payout_sort_key ps) outs"
    using fanout_output_fold_gross[OF fold] by (auto simp: covered_recipient_key elim!: list_all2_mono)
  then have "map (\<lambda>out. recipient_key (covered_recipient out)) outs =
      map (\<lambda>p. (payee_order p, ?gross p)) (sort_key payout_sort_key ps)"
    by (induction rule: list_all2_induct) simp_all
  then have "mset (map recipient_key (map covered_recipient outs)) = mset (map (\<lambda>p. (payee_order p, ?gross p)) ps)"
    by (simp add: comp_def)
  also have "\<dots> = mset (map recipient_key rs)"
    unfolding ps_eq map_map
    by (rule arg_cong[where f = mset], rule map_cong) (use ok fanout_payout_gross in \<open>auto simp: recipient_key_def\<close>)
  finally have "image_mset recipient_key (mset (map covered_recipient outs)) = image_mset recipient_key (mset rs)"
    by (simp add: multiset.map_comp)
  moreover have "inj recipient_key" by (simp add: inj_def recipient_key_inject)
  ultimately show ?thesis by (blast dest: injD[OF multiset.inj_map])
qed

section \<open>Finished fan-outs\<close>

lemma prepared_fields:
  assumes "prepare_ctv_fanout_precommitment X to_vec input = Inr prep"
  shows "pc_chunk_index (pr_precommitment prep) = ci_chunk_index input"
    "pc_settlement_mode (pr_precommitment prep) = ci_settlement_mode input"
    "canonical_fanout_outputs X (ci_payouts input) = Inr (pc_outputs (pr_precommitment prep))"
    "pr_covenant_recipient_id prep = ''ctv-fanout-'' @ show_nat (ci_chunk_index input)"
    "pr_covenant_order_key prep = ''ctv-fanout-'' @ show_nat_padded 8 (ci_chunk_index input)"
    "pr_covenant_p2mr_program_hex prep = pc_p2mr_program_hex (pr_precommitment prep)"
    "pr_covenant_output_value_sats prep = pc_covenant_output_value_sats (pr_precommitment prep)"
  using assms unfolding prepare_ctv_fanout_precommitment_def Let_def rbind_Inr by auto

lemma manifest_parent:
  assumes "build_ctv_fanout_manifest_from_precommitment X to_vec p tx_hex n = Inr m"
  shows "normalize_hex X tx_hex = Inr (cm_parent_coinbase_tx_hex m)"
  using assms unfolding build_ctv_fanout_manifest_from_precommitment_def build_ctv_fanout_manifest_def Let_def rbind_Inr
  by clarsimp

lemma covenant_value:
  assumes "verify_ctv_fanout_manifest_structure X to_vec m = Inr ()"
  shows "cm_covenant_output_value_sats m = pc_covenant_output_value_sats (cm_precommitment m)"
proof -
  have "verify_covenant_output X m = Inr ()" by (rule verify_structure_Inr[OF assms])
  then show ?thesis by (auto simp: verify_covenant_output_def Let_def rbind_Inr checks_Inr reject_if_Inr)
qed

lemma find_SomeD: "List.find P xs = Some x \<Longrightarrow> x \<in> set xs \<and> P x"
  by (induction xs) (auto split: if_splits)

text \<open>The output that the search finds is the one the transaction has at that position.\<close>

lemma found_output:
  assumes laws: "hex_law X" "hex_text_law X" "sha_law X" and m: "build_manifest X request = Inr m"
    and money: "coinbase_value_sats request \<le> QBIT_MAX_MONEY_SATS"
    and find: "find_coinbase_output_vout m recipient key program sats = Inr n"
  obtains tx covenant where "\<forall>field. parse_transaction_hex X (coinbase_tx_hex m) field = Inr tx"
    "ensure_coinbase_shape tx = Inr ()" "txid_hex X tx = coinbase_txid m" "vec_get (pt_outputs tx) n = Some covenant"
    "to_amount_sats covenant = sats" "n < 2 ^ 32"
    "hex_encode X (to_script_pubkey covenant) = hex_encode X (payee_script X (key, recipient, to_ascii_lowercase program))"
proof -
  obtain tx where tx: "\<forall>field. parse_transaction_hex X (coinbase_tx_hex m) field = Inr tx" "ensure_coinbase_shape tx = Inr ()"
    "txid_hex X tx = coinbase_txid m"
    and outs: "map (\<lambda>txo. (to_amount_sats txo, hex_encode X (to_script_pubkey txo))) (pt_outputs tx) =
      map (\<lambda>out. (po_amount_sats out, script_pubkey_hex out)) (pm_outputs m) @ [(0, witness_commitment_script_hex m)]"
    by (rule built_manifest_parse[OF laws m money])
  obtain aouts where aouts: "pm_outputs m = map (payout_output X) (enumerate 0 aouts)"
    by (rule build_manifest_outputs[OF m])
  obtain out where out: "out \<in> set (pm_outputs m)" "recipient_id out = recipient" "order_key out = key"
    "p2mr_program_hex out = program" "po_amount_sats out = sats" "vout out = n" "n < 2 ^ 32"
    using find by (auto simp: find_coinbase_output_vout_def rbind_Inr ok_or_Inr try_from_def split: if_splits dest!: find_SomeD)
  obtain i where "i < length aouts" "out = payout_output X (i, aouts ! i)"
    using out(1) unfolding aouts by (auto simp: in_set_conv_nth enumerate_eq_zip)
  then have n: "n < length (pm_outputs m)" "pm_outputs m ! n = out"
    using out(6) by (auto simp: aouts enumerate_eq_zip payout_output_def)
  have len: "length (pt_outputs tx) = length (pm_outputs m) + 1" using arg_cong[OF outs, of length] by simp
  then have "(to_amount_sats (pt_outputs tx ! n), hex_encode X (to_script_pubkey (pt_outputs tx ! n))) = (sats, script_pubkey_hex out)"
    using arg_cong[OF outs, of "\<lambda>xs. xs ! n"] n out(5) by (simp add: nth_append)
  moreover have "script_pubkey_hex out = hex_encode X (payee_script X (pays_to out))"
    by (rule output_script[OF laws(1) m _ out(1)]) (use money in \<open>simp add: QBIT_MAX_MONEY_SATS_def\<close>)
  ultimately show ?thesis
    using n len out by (intro that[OF tx, of "pt_outputs tx ! n"]) (simp_all add: vec_get_def pays_to_def)
qed

lemma finished_exists:
  assumes laws: "hex_law X" "hex_text_law X" "sha_law X" and m: "build_manifest X request = Inr m"
    and money: "coinbase_value_sats request \<le> QBIT_MAX_MONEY_SATS"
    and prep: "prepare_ctv_fanout_precommitment X to_vec input = Inr f"
    and find: "find_coinbase_output_vout m (pr_covenant_recipient_id f) (pr_covenant_order_key f)
       (pr_covenant_p2mr_program_hex f) (pr_covenant_output_value_sats f) = Inr n"
  shows "\<exists>fm. build_ctv_fanout_manifest_from_precommitment X to_vec (pr_precommitment f) (coinbase_tx_hex m) n = Inr fm \<and>
    verify_ctv_fanout_manifest_structure X to_vec fm = Inr () \<and> cm_precommitment fm = pr_precommitment f \<and>
    cm_commitment_witness_leaf_hex fm = pr_commitment_witness_leaf_hex f \<and> cm_parent_coinbase_txid fm = coinbase_txid m"
proof -
  obtain tx covenant where tx: "\<forall>field. parse_transaction_hex X (coinbase_tx_hex m) field = Inr tx"
    "ensure_coinbase_shape tx = Inr ()" and id: "txid_hex X tx = coinbase_txid m" and
    cov: "vec_get (pt_outputs tx) n = Some covenant" "to_amount_sats covenant = pr_covenant_output_value_sats f" and n: "n < 2 ^ 32" and
    script: "hex_encode X (to_script_pubkey covenant) = hex_encode X (payee_script X (pr_covenant_order_key f,
      pr_covenant_recipient_id f, to_ascii_lowercase (pr_covenant_p2mr_program_hex f)))"
    by (rule found_output[OF laws m money find])
  obtain program where program: "decode_program_hex X (pc_p2mr_program_hex (pr_precommitment f)) ''p2mr_program_hex'' = Inr program"
    "pc_covenant_script_pubkey_hex (pr_precommitment f) = hex_encode X (p2mr_script_pubkey program)"
    by (rule prepare_Inr[OF prep refl])
  then have "hex_decode X (pc_p2mr_program_hex (pr_precommitment f)) = Inr program"
    by (auto simp: decode_program_hex_def rbind_Inr map_err_Inr if_Inl_Inr)
  then have "hex_decode X (to_ascii_lowercase (pc_p2mr_program_hex (pr_precommitment f))) = Inr program"
    using hex_encode_decode[OF laws(1)] hex_decode_encode[OF laws(1)] by metis
  then have script': "hex_encode X (to_script_pubkey covenant) = pc_covenant_script_pubkey_hex (pr_precommitment f)"
    unfolding script by (simp add: payee_script_def program(2) prepared_fields[OF prep])
  obtain fm where "build_ctv_fanout_manifest_from_precommitment X to_vec (pr_precommitment f) (coinbase_tx_hex m) n = Inr fm"
    "verify_ctv_fanout_manifest_structure X to_vec fm = Inr ()" "cm_precommitment fm = pr_precommitment f"
    "cm_commitment_witness_leaf_hex fm = pr_commitment_witness_leaf_hex f" "cm_parent_coinbase_txid fm = txid_hex X tx"
    by (rule finish_prepared[OF laws prep refl tx(1)[rule_format] tx(2) cov script' n])
  then show ?thesis using id by auto
qed

lemma finished_fanout:
  assumes laws: "hex_law X" "hex_text_law X" "sha_law X" and m: "build_manifest X request = Inr m"
    and money: "coinbase_value_sats request \<le> QBIT_MAX_MONEY_SATS"
    and prep: "prepare_ctv_fanout_precommitment X to_vec input = Inr f"
    and find: "find_coinbase_output_vout m (pr_covenant_recipient_id f) (pr_covenant_order_key f)
       (pr_covenant_p2mr_program_hex f) (pr_covenant_output_value_sats f) = Inr n"
    and fin: "build_ctv_fanout_manifest_from_precommitment X to_vec (pr_precommitment f) (coinbase_tx_hex m) n = Inr fm"
  shows "cm_precommitment fm = pr_precommitment f \<and> cm_commitment_witness_leaf_hex fm = pr_commitment_witness_leaf_hex f \<and>
    cm_parent_coinbase_txid fm = coinbase_txid m \<and> cm_parent_coinbase_tx_hex fm = coinbase_tx_hex m \<and>
    verify_ctv_fanout_manifest_structure X to_vec fm = Inr () \<and>
    cm_covenant_output_value_sats fm = pr_covenant_output_value_sats f"
proof -
  have ex: "verify_ctv_fanout_manifest_structure X to_vec fm = Inr () \<and> cm_precommitment fm = pr_precommitment f \<and>
    cm_commitment_witness_leaf_hex fm = pr_commitment_witness_leaf_hex f \<and> cm_parent_coinbase_txid fm = coinbase_txid m"
    using finished_exists[OF laws m money prep find] fin by auto
  obtain bytes where "coinbase_tx_hex m = hex_encode X bytes" using build_manifest_Inr[OF m] by blast
  then have "cm_parent_coinbase_tx_hex fm = coinbase_tx_hex m"
    using manifest_parent[OF fin] by (auto simp: normalize_hex_def rbind_Inr map_err_Inr hex_decode_encode[OF laws(1)])
  with ex covenant_value[of X to_vec fm] prepared_fields(7)[OF prep] show ?thesis by auto
qed

text \<open>The fan-out \<open>f\<close> was prepared for the chunk \<open>c\<close>, and \<open>fm\<close> finishes it under the coinbase \<open>m\<close>.\<close>

definition prepared_for ::
  "crypto \<Rightarrow> json \<Rightarrow> SettlementModeDecision \<Rightarrow> (string, FanoutFeeRecipient) btree \<Rightarrow> SettlementFanoutChunk \<Rightarrow> PreparedCtvFanout \<Rightarrow> bool" where
  "prepared_for X J d fees c f \<longleftrightarrow> (\<exists>input. prepare_ctv_fanout_precommitment X (js_precommitment J) input = Inr f \<and>
     ci_chunk_index input = sc_chunk_index c \<and> ci_settlement_mode input = mode d \<and>
     ci_payouts input = map (fanout_payout fees) (sc_recipients c))"

definition finished :: "crypto \<Rightarrow> json \<Rightarrow> PayoutManifest \<Rightarrow> PreparedCtvFanout \<Rightarrow> CtvFanoutManifest \<Rightarrow> bool" where
  "finished X J m f fm \<longleftrightarrow> cm_precommitment fm = pr_precommitment f \<and>
     cm_commitment_witness_leaf_hex fm = pr_commitment_witness_leaf_hex f \<and>
     cm_parent_coinbase_txid fm = coinbase_txid m \<and> cm_parent_coinbase_tx_hex fm = coinbase_tx_hex m \<and>
     verify_ctv_fanout_manifest_structure X (js_precommitment J) fm = Inr () \<and>
     cm_covenant_output_value_sats fm = pr_covenant_output_value_sats f"

lemma prepare_chunk_Inr:
  "prepare_chunk X J rm d reward_hex policy_hex fees c = Inr f \<Longrightarrow> prepared_for X J d fees c f"
  by (auto simp: prepare_chunk_def prepared_for_def rbind_Inr ok_or_Inr try_from_def split: if_splits)

lemma prepare_chunks_Inr:
  assumes "rmap (prepare_chunk X J rm d reward_hex policy_hex fees) cs = Inr prepared"
  shows "list_all2 (prepared_for X J d fees) cs prepared"
  using assms prepare_chunk_Inr unfolding rmap_Inr by (blast intro: list_all2_mono)

lemma prepared_index: "prepared_for X J d fees c f \<Longrightarrow> pc_chunk_index (pr_precommitment f) = sc_chunk_index c"
  by (auto simp: prepared_for_def prepared_fields)

lemma prepared_mode: "prepared_for X J d fees c f \<Longrightarrow> pc_settlement_mode (pr_precommitment f) = mode d"
  by (auto simp: prepared_for_def prepared_fields)

lemma prepared_names:
  assumes "prepared_for X J d fees c f" "finished X J m f fm"
  shows "covenant_entitlement fm = \<lparr> recipient_id = pr_covenant_recipient_id f, order_key = pr_covenant_order_key f,
    p2mr_program_hex = pr_covenant_p2mr_program_hex f, weight = pr_covenant_output_value_sats f \<rparr>"
  using assms by (auto simp: prepared_for_def finished_def covenant_entitlement_def Let_def prepared_fields)

lemma prepared_covers:
  assumes "hex_law X" "prepared_for X J d fees c f" "\<forall>r\<in>set (sc_recipients c). lower_payee r"
    and "\<forall>r\<in>set (sc_recipients c). settles fees r"
  shows "mset (map covered_recipient (pc_outputs (pr_precommitment f))) = mset (sc_recipients c)"
  using assms(2) covered_chunk[OF assms(1) _ assms(3,4)] by (auto simp: prepared_for_def dest: prepared_fields(3))

lemma manifest_set_Inr:
  assumes "build_ctv_fanout_manifest_set X to_vec mans = Inr ms"
    and "map (\<lambda>m. pc_chunk_index (cm_precommitment m)) mans = [0..<length mans]"
  shows "verify_ctv_fanout_manifest_set X to_vec ms = Inr () \<and> ms_manifests ms = mans \<and> mans \<noteq> [] \<and>
    ms_parent_coinbase_txid ms = cm_parent_coinbase_txid (hd mans) \<and>
    ms_settlement_mode ms = pc_settlement_mode (cm_precommitment (hd mans)) \<and> ms_fanout_count ms = length mans"
proof -
  have "sort_key (\<lambda>m. pc_chunk_index (cm_precommitment m)) mans = mans"
    by (rule sort_key_id_if_sorted) (simp add: assms(2))
  then show ?thesis
    using assms(1) unfolding build_ctv_fanout_manifest_set_def Let_def
    by (auto simp: rbind_Inr ok_or_Inr try_from_def hd_conv_nth split: if_splits)
qed

lemma finish_fanouts_Inr:
  assumes laws: "hex_law X" "hex_text_law X" "sha_law X" and m: "build_manifest X request = Inr m"
    and money: "coinbase_value_sats request \<le> QBIT_MAX_MONEY_SATS"
    and prep: "list_all2 (prepared_for X J d fees) cs prepared" and idx: "map sc_chunk_index cs = [0..<length cs]"
    and fin: "finish_fanouts X J m prepared = Inr fset" and ne: "prepared \<noteq> []"
  obtains ms where "fset = Some ms" "list_all2 (finished X J m) prepared (ms_manifests ms)"
    "verify_ctv_fanout_manifest_set X (js_precommitment J) ms = Inr ()" "ms_parent_coinbase_txid ms = coinbase_txid m"
    "ms_settlement_mode ms = mode d" "ms_fanout_count ms = length cs"
proof -
  let ?fin = "\<lambda>f. rbind (find_coinbase_output_vout m (pr_covenant_recipient_id f) (pr_covenant_order_key f)
                   (pr_covenant_p2mr_program_hex f) (pr_covenant_output_value_sats f)) (\<lambda>parent_vout.
            build_ctv_fanout_manifest_from_precommitment X (js_precommitment J) (pr_precommitment f)
              (coinbase_tx_hex m) parent_vout)"
  obtain mans ms where mans: "rmap ?fin prepared = Inr mans" and ms: "build_ctv_fanout_manifest_set X (js_precommitment J) mans = Inr ms"
    and fset: "fset = Some ms"
    using fin ne by (auto simp: finish_fanouts_def rbind_Inr)
  have len: "length cs = length prepared" "length prepared = length mans"
    using prep mans unfolding rmap_Inr by (simp_all add: list_all2_lengthD)
  have each: "finished X J m (prepared ! i) (mans ! i)" "prepared_for X J d fees (cs ! i) (prepared ! i)" if "i < length mans" for i
  proof -
    show p: "prepared_for X J d fees (cs ! i) (prepared ! i)" using prep len that by (simp add: list_all2_nthD)
    have "?fin (prepared ! i) = Inr (mans ! i)" using mans len that unfolding rmap_Inr by (simp add: list_all2_conv_all_nth)
    with p show "finished X J m (prepared ! i) (mans ! i)"
      by (auto simp: prepared_for_def finished_def rbind_Inr dest: finished_fanout[OF laws m money])
  qed
  have "map (\<lambda>m. pc_chunk_index (cm_precommitment m)) mans = map sc_chunk_index cs"
    by (rule nth_equalityI) (use each len prepared_index[OF each(2)] in \<open>auto simp: finished_def\<close>)
  then have s: "verify_ctv_fanout_manifest_set X (js_precommitment J) ms = Inr () \<and> ms_manifests ms = mans \<and> mans \<noteq> [] \<and>
    ms_parent_coinbase_txid ms = cm_parent_coinbase_txid (hd mans) \<and>
    ms_settlement_mode ms = pc_settlement_mode (cm_precommitment (hd mans)) \<and> ms_fanout_count ms = length mans"
    using idx len by (intro manifest_set_Inr[OF ms]) simp
  moreover have "cm_parent_coinbase_txid (hd mans) = coinbase_txid m" "pc_settlement_mode (cm_precommitment (hd mans)) = mode d"
    using s each[of 0] prepared_mode by (auto simp: finished_def hd_conv_nth)
  ultimately show ?thesis
    using each len by (intro that[OF fset]) (auto simp: list_all2_conv_all_nth)
qed

section \<open>The settlement verifies\<close>

lemma cover_manifests_ok:
  assumes "\<forall>fm\<in>set mans. cm_parent_coinbase_tx_hex fm = coinbase_tx_hex m \<and>
      verify_ctv_fanout_manifest_commitment_leaf X (js_precommitment J) fm leaves = Inr ()"
  shows "rfold (cover_manifest X J m leaves) (covered, es) mans =
    Inr (covered @ concat (map (\<lambda>fm. map covered_recipient (pc_outputs (cm_precommitment fm))) mans),
         es @ map covenant_entitlement mans)"
  using assms
proof (induction mans arbitrary: covered es)
  case (Cons fm mans)
  have "cover_manifest X J m leaves (covered, es) fm =
      Inr (covered @ map covered_recipient (pc_outputs (cm_precommitment fm)), es @ [covenant_entitlement fm])"
    using Cons.prems by (simp add: cover_manifest_Inr)
  with Cons show ?case by simp
qed simp

lemma sort_key_inj_mset:
  assumes "inj f" "mset xs = mset ys"
  shows "sort_key f xs = sort_key f ys"
proof -
  have "map f (sort_key f xs) = sort (map f xs)" for xs
    by (rule properties_for_sort[symmetric]) simp_all
  moreover have "sort (map f xs) = sort (map f ys)"
    by (rule properties_for_sort) (simp_all add: assms(2))
  ultimately show ?thesis using inj_map_eq_map[OF assms(1)] by metis
qed

lemma inj_settlement_order: "inj settlement_recipient_order"
  by (auto simp: inj_def settlement_recipient_order_def)

lemma covered_all:
  assumes hex: "hex_law X" and prep: "list_all2 (prepared_for X J d fees) cs prepared"
    and fin: "list_all2 (finished X J m) prepared mans"
    and ok: "\<forall>c\<in>set cs. \<forall>r\<in>set (sc_recipients c). lower_payee r \<and> settles fees r"
  shows "mset (concat (map (\<lambda>fm. map covered_recipient (pc_outputs (cm_precommitment fm))) mans)) =
    mset (concat (map sc_recipients cs))"
  using prep fin ok
proof (induction arbitrary: mans rule: list_all2_induct)
  case (Cons c cs f prepared)
  then obtain fm mans' where mans: "mans = fm # mans'" "finished X J m f fm" "list_all2 (finished X J m) prepared mans'"
    by (auto simp: list_all2_Cons1)
  have "mset (map covered_recipient (pc_outputs (cm_precommitment fm))) = mset (sc_recipients c)"
    using mans(2) prepared_covers[OF hex Cons.hyps(1)] Cons.prems(2) by (simp add: finished_def)
  with Cons.IH[OF mans(3)] Cons.prems(2) show ?case by (simp add: mans(1))
qed simp

lemma entitlements_agree:
  assumes "list_all2 (prepared_for X J d fees) cs prepared" "list_all2 (finished X J m) prepared mans"
  shows "map covenant_entitlement mans = map (\<lambda>f. \<lparr> recipient_id = pr_covenant_recipient_id f,
    order_key = pr_covenant_order_key f, p2mr_program_hex = pr_covenant_p2mr_program_hex f,
    weight = pr_covenant_output_value_sats f \<rparr>) prepared"
  using assms
proof (induction arbitrary: mans rule: list_all2_induct)
  case (Cons c cs f prepared)
  then obtain fm mans' where mans: "mans = fm # mans'" "finished X J m f fm" "list_all2 (finished X J m) prepared mans'"
    by (auto simp: list_all2_Cons1)
  show ?case using Cons.IH[OF mans(3)] prepared_names[OF Cons.hyps(1) mans(2)] by (simp add: mans(1))
qed simp

lemma settlement_covers:
  assumes hex: "hex_law X" and prep: "list_all2 (prepared_for X J d fees) (fanout_chunks d) prepared"
    and fin: "list_all2 (finished X J m) prepared mans"
    and ok: "\<forall>c\<in>set (fanout_chunks d). \<forall>r\<in>set (sc_recipients c). lower_payee r \<and> settles fees r"
    and recs: "settlement_recipients_from_entitlements (onchain_entitlements pm) = Inr rs"
    and parts: "mset (direct_recipients d @ concat (map sc_recipients (fanout_chunks d))) = mset rs"
    and es: "ctv_settlement_coinbase_entitlements d prepared = Inr es"
    and cov: "verify_fanout_coverage X J d fset m leaves =
      Inr (direct_recipients d @ concat (map (\<lambda>fm. map covered_recipient (pc_outputs (cm_precommitment fm))) mans),
        map direct_entitlement (direct_recipients d) @ map covenant_entitlement mans)"
  shows "verify_ctv_settlement_bundle X J d fset pm m leaves = Inr es"
proof -
  let ?covered = "direct_recipients d @ concat (map (\<lambda>fm. map covered_recipient (pc_outputs (cm_precommitment fm))) mans)"
  have "sort_key settlement_recipient_order ?covered = sort_key settlement_recipient_order rs"
    by (rule sort_key_inj_mset[OF inj_settlement_order])
      (use covered_all[OF hex prep fin ok] parts in \<open>simp only: mset_append\<close>)
  moreover have "es = map direct_entitlement (direct_recipients d) @ map covenant_entitlement mans"
    using es unfolding entitlements_agree[OF prep fin] by (auto simp: ctv_settlement_coinbase_entitlements_def split: if_splits)
  ultimately show ?thesis by (simp add: verify_ctv_settlement_bundle_def cov recs audit_check_def)
qed

lemma settlement_coverage_ok:
  assumes laws: "hex_law X" "hex_text_law X" "sha_law X" and m: "build_manifest X request = Inr m"
    and money: "coinbase_value_sats request \<le> QBIT_MAX_MONEY_SATS"
    and prep: "list_all2 (prepared_for X J d fees) (fanout_chunks d) prepared"
    and idx: "map sc_chunk_index (fanout_chunks d) = [0..<length (fanout_chunks d)]"
    and count: "fanout_chunk_count_d d = length (fanout_chunks d)"
    and fin: "finish_fanouts X J m prepared = Inr fset"
    and leaves: "pr_commitment_witness_leaf_hex ` set prepared \<subseteq> set leaves"
  obtains mans where "mans = (case fset of None \<Rightarrow> [] | Some ms \<Rightarrow> ms_manifests ms)" "list_all2 (finished X J m) prepared mans"
    "verify_fanout_coverage X J d fset m leaves =
      Inr (direct_recipients d @ concat (map (\<lambda>fm. map covered_recipient (pc_outputs (cm_precommitment fm))) mans),
        map direct_entitlement (direct_recipients d) @ map covenant_entitlement mans)"
proof (cases "prepared = []")
  case True
  with prep fin show ?thesis
    by (intro that[of "[]"]) (simp_all add: finish_fanouts_def verify_fanout_coverage_def count audit_check_def)
next
  case False
  obtain ms where fset: "fset = Some ms" and fins: "list_all2 (finished X J m) prepared (ms_manifests ms)" and
    ver: "verify_ctv_fanout_manifest_set X (js_precommitment J) ms = Inr ()" "ms_parent_coinbase_txid ms = coinbase_txid m"
    "ms_settlement_mode ms = mode d" "ms_fanout_count ms = length (fanout_chunks d)"
    by (rule finish_fanouts_Inr[OF laws m money prep idx fin False])
  have "verify_ctv_fanout_manifest_commitment_leaf X (js_precommitment J) fm leaves = Inr () \<and>
      cm_parent_coinbase_tx_hex fm = coinbase_tx_hex m" if mem: "fm \<in> set (ms_manifests ms)" for fm
  proof -
    obtain f where f: "f \<in> set prepared" "finished X J m f fm" using list_all2_set2[OF fins] mem by blast
    then have "cm_commitment_witness_leaf_hex fm \<in> set leaves" using leaves by (auto simp: finished_def)
    with f(2) show ?thesis by (auto simp: commitment_leaf_Inr finished_def eq_ignore_ascii_case_def)
  qed
  then have "rfold (cover_manifest X J m leaves) (direct_recipients d, map direct_entitlement (direct_recipients d)) (ms_manifests ms) =
    Inr (direct_recipients d @ concat (map (\<lambda>fm. map covered_recipient (pc_outputs (cm_precommitment fm))) (ms_manifests ms)),
        map direct_entitlement (direct_recipients d) @ map covenant_entitlement (ms_manifests ms))"
    by (intro cover_manifests_ok) blast
  moreover have "fanout_chunks d \<noteq> []" using prep False by auto
  ultimately show ?thesis
    using fins ver by (intro that[of "ms_manifests ms"]) (simp_all add: fset verify_fanout_coverage_def count audit_check_def)
qed

section \<open>The pool fee\<close>

lemma fee_payee:
  assumes "matches_pool_fee fee p" "matches_pool_fee fee q" "lower_payee p" "lower_payee q"
  shows "payee_order p = payee_order q"
  using assms by (simp add: matches_pool_fee_def lower_payee_def eq_ignore_ascii_case_def payee_order_def)

lemma settlement_recipients_rel:
  "settlement_recipients_from_entitlements es = Inr rs \<Longrightarrow>
    list_all2 (\<lambda>e r. recipient_id r = recipient_id e \<and> order_key r = order_key e \<and>
      p2mr_program_hex r = p2mr_program_hex e \<and> sr_amount_sats r = weight e) es rs"
  unfolding settlement_recipients_from_entitlements_def rmap_Inr
  by (elim list_all2_mono) (auto simp: rbind_Inr ok_or_Inr try_from_def split: if_splits)

lemma pinned_matches:
  assumes "hex_law X" "pinned_key_of X (Some q) = Some (payee_order (r :: SettlementRecipient))"
    and "recipient_id q = recipient_id fee" "order_key q = order_key fee" "p2mr_program_hex q = p2mr_program_hex fee"
    and "lower_payee r"
  shows "matches_pool_fee fee r"
proof -
  obtain bytes where "hex_decode X (p2mr_program_hex q) = Inr bytes"
    "payee_order (q \<lparr> p2mr_program_hex := hex_encode X bytes \<rparr>) = payee_order r"
    using assms(2) by (auto simp: pinned_key_of_def normalize_recipient_def rbind_Inr map_err_Inr if_Inl_Inr split: sum.splits)
  with hex_encode_decode[OF assms(1)] assms(3-6) show ?thesis
    by (auto simp: matches_pool_fee_def payee_order_def eq_ignore_ascii_case_def lower_payee_def)
qed


lemma settlement_coinbase_policy:
  assumes hex: "hex_law X" and pm: "apply_payout_policy rm prior policy = Inr pm" and lt: "rm_coinbase_value_sats rm < 2 ^ 64"
    and recs: "settlement_recipients_from_entitlements (onchain_entitlements pm) = Inr rs"
    and lower: "\<forall>r\<in>set rs. lower_payee r"
    and sel: "select_settlement_mode_with_pinned_direct X rs floor config (pinned_settlement_recipient_for_policy pm) = Inr d"
    and fee: "pool_fee_first_output pm' = pool_fee_first_output pm"
    and m: "build_manifest X (audit_coinbase_request rm pm' es root leaves suffix) = Inr m"
    and sum: "sum_list (map weight es) = rm_coinbase_value_sats rm"
    and es: "set (map direct_entitlement (direct_recipients d)) \<subseteq> set es"
  shows "verify_coinbase_output_policy pm' (Some d) m = Inr ()"
proof (cases "pool_fee_first_output pm")
  case None
  then show ?thesis by (simp add: verify_coinbase_output_policy_def fee)
next
  case (Some f)
  define q where "q = \<lparr> recipient_id = recipient_id f, order_key = order_key f,
       p2mr_program_hex = p2mr_program_hex f, sr_amount_sats = pf_amount_sats f \<rparr>"
  have pin: "pinned_settlement_recipient_for_policy pm = Some q"
    by (simp add: pinned_settlement_recipient_for_policy_def Some q_def)
  note parts = settlement_parts[OF hex sel lower]
  obtain r where r: "r \<in> set (direct_recipients d)" "pinned_key_of X (Some q) = Some (payee_order r)"
    using parts(7)[OF pin] by (auto simp: pin)
  have in_rs: "set (direct_recipients d) \<union> set (concat (map sc_recipients (fanout_chunks d))) = set rs"
    using mset_eq_setD[OF parts(1)] by simp
  then have rl: "r \<in> set rs" "lower_payee r" using r(1) lower by auto
  have match: "matches_pool_fee f r" by (rule pinned_matches[OF hex r(2) _ _ _ rl(2)]) (simp_all add: q_def)
  have unique: "r' = r" if "r' \<in> set rs" "matches_pool_fee f r'" for r'
    using fee_payee[OF that(2) match] lower that rl parts(2) by (auto simp: distinct_map dest: inj_onD)
  obtain e where e: "e \<in> set (onchain_entitlements pm)" "pinned_match (payee.truncate f) e" "weight e = pf_amount_sats f"
    using pool_fee_entitlement[OF pm lt Some] by blast
  obtain re where re: "re \<in> set rs" "recipient_id re = recipient_id e" "order_key re = order_key e"
    "p2mr_program_hex re = p2mr_program_hex e" "sr_amount_sats re = weight e"
    using list_all2_set1[OF settlement_recipients_rel[OF recs]] e(1) by blast
  then have "re = r" by (intro unique) (use e(2) in \<open>simp_all add: matches_pool_fee_def pinned_match_def payee.defs\<close>)
  then have amount: "sr_amount_sats r = pf_amount_sats f" using re(5) e(3) by simp
  have first: "\<exists>first rest. pm_outputs m = first # rest \<and> vout first = 0 \<and> matches_pool_fee f first \<and>
      po_amount_sats first = pf_amount_sats f"
    by (rule first_output_is_fee[OF hex m, where e = "direct_entitlement r"])
      (use lt sum es r(1) match amount Some fee in \<open>auto simp: audit_coinbase_request_def pinned_first_output_for_policy_def
        pinned_match_def matches_pool_fee_def direct_entitlement_def payee.defs\<close>)
  have "\<not> matches_pool_fee f r'" if "c \<in> set (fanout_chunks d)" "r' \<in> set (sc_recipients c)" for c r'
  proof
    assume "matches_pool_fee f r'"
    then have "r \<in> set (concat (map sc_recipients (fanout_chunks d)))" using unique[of r'] that in_rs by auto
    moreover have "distinct (direct_recipients d @ concat (map sc_recipients (fanout_chunks d)))"
      using parts(2) mset_eq_imp_distinct_iff[OF parts(1)] by (simp add: distinct_map)
    ultimately show False using r(1) by auto
  qed
  with first match r(1) show ?thesis by (auto simp: verify_coinbase_output_policy_def fee Some)
qed

text \<open>The steps of a successful build with fan-outs.\<close>

lemma derive_ctv_settlement_Inr:
  assumes "derive_ctv_settlement X rm prior policy floor config fee_policy = Inr (pm', d, fees)"
  obtains pm rs where "apply_payout_policy rm prior policy = Inr pm"
    "settlement_recipients_from_entitlements (onchain_entitlements pm) = Inr rs"
    "select_settlement_mode_with_pinned_direct X rs floor config (pinned_settlement_recipient_for_policy pm) = Inr d"
    "(case fee_policy of None \<Rightarrow> pm' = pm \<and> fees = []
      | Some fp \<Rightarrow> apply_ctv_fanout_fee_accounting X pm d fp = Inr (pm', fees))"
  using assms by (auto simp: derive_ctv_settlement_def rbind_Inr split: option.splits prod.splits)

lemma derived_settles:
  assumes hex: "hex_law X" and acc: "case fee_policy of None \<Rightarrow> pm' = pm \<and> fees = []
      | Some fp \<Rightarrow> apply_ctv_fanout_fee_accounting X pm d fp = Inr (pm', fees)"
    and lower: "\<forall>c\<in>set (fanout_chunks d). \<forall>r\<in>set (sc_recipients c). lower_payee r"
  shows "\<forall>c\<in>set (fanout_chunks d). \<forall>r\<in>set (sc_recipients c). settles fees r"
    "onchain_entitlements pm' = onchain_entitlements pm" "pool_fee_first_output pm' = pool_fee_first_output pm"
proof -
  show "\<forall>c\<in>set (fanout_chunks d). \<forall>r\<in>set (sc_recipients c). settles fees r"
  proof (cases fee_policy)
    case (Some fp)
    then have "rfold (charge_chunk X fp (pp_min_output_sats pm)) [] (fanout_chunks d) = Inr fees"
      using acc by (auto simp: apply_ctv_fanout_fee_accounting_def rbind_Inr)
    from charge_chunks_Inr[OF hex this lower] show ?thesis by (simp add: settles_def)
  qed (use acc in \<open>simp add: settles_def\<close>)
  show "onchain_entitlements pm' = onchain_entitlements pm" "pool_fee_first_output pm' = pool_fee_first_output pm"
    using acc fee_accounting_keeps by (auto split: option.splits)
qed

abbreviation ctv_body where
  "ctv_body X shares fb prior policy suffix leaves_hex leaf prepared root attestation rm pm decision fee_policy fset sm \<equiv>
     \<lparr> ab_schema = audit_bundle_schema_for_shares shares, ab_found_block = fb, ab_prior_balances = prior,
       ab_payout_policy = policy, ab_coinbase_script_sig_suffix_hex = suffix, ab_witness_merkle_leaves_hex = leaves_hex,
       ab_audit_commitment_leaves_hex = leaf # map pr_commitment_witness_leaf_hex prepared,
       ab_audit_commitment_root_hex = Some root, ab_ledger_window_attestation = attestation,
       ab_reward_manifest = rm, ab_payout_policy_manifest = pm, ab_settlement_mode_decision = Some decision,
       ab_ctv_fanout_fee_policy = fee_policy, ab_ctv_fanout_manifest_set = fset, ab_signed_coinbase_manifest = sm \<rparr>"

lemma ctv_build_Inr:
  assumes "build_audit_bundle_body_with_ctv_settlement_options_parallel X J shares fb wcut prior policy direct_floor config
      fee_policy suffix leaves_hex coinbase_key ledger_key parallelism = Inr body" "0 < chunk_len parallelism" "serde_law J"
  obtains rm attestation pm d fees reward_bytes policy_bytes prepared root es sm fset where
    "build_prism_reward_manifest_with_cut X shares fb wcut = Inr rm"
    "build_ledger_window_attestation X J rm prior ledger_key = Inr attestation"
    "derive_ctv_settlement X rm prior policy direct_floor config fee_policy = Inr (pm, d, fees)"
    "js_reward J rm = Inr reward_bytes" "js_policy J pm = Inr policy_bytes"
    "rmap (prepare_chunk X J rm d (hex_encode X (sha256 X reward_bytes)) (hex_encode X (sha256 X policy_bytes)) fees)
       (fanout_chunks d) = Inr prepared"
    "audit_commitment_root_hex X (commitment_leaf_hex X (sha256 X reward_bytes) (sha256 X policy_bytes) #
       map pr_commitment_witness_leaf_hex prepared) = Inr root"
    "ctv_settlement_coinbase_entitlements d prepared = Inr es"
    "build_profiled_signed_manifest X J (audit_coinbase_request rm pm es root leaves_hex suffix) coinbase_key = Inr sm"
    "finish_fanouts X J (sm_manifest sm) prepared = Inr fset"
    "body = ctv_body X shares fb prior policy suffix leaves_hex
       (commitment_leaf_hex X (sha256 X reward_bytes) (sha256 X policy_bytes)) prepared root attestation rm pm d fee_policy fset sm"
  using assms(1)
  unfolding build_audit_bundle_body_with_ctv_settlement_options_parallel_def reward_hash_eq[OF assms(3)]
    canonical_reward_manifest_bytes_def canonical_payout_policy_manifest_bytes_def parallel_build[OF assms(2)] Let_def
  by (auto simp: rbind_Inr map_err_Inr if_Inl_Inr)

lemma finished_leaves:
  "list_all2 (finished X J m) prepared mans \<Longrightarrow>
    map cm_commitment_witness_leaf_hex mans = map pr_commitment_witness_leaf_hex prepared"
  by (induction rule: list_all2_induct) (simp_all add: finished_def)

lemma prepared_balanced:
  assumes "prepared_for X J d fees c f" "finished X J m f fm"
  shows "gross_balanced fm"
proof -
  obtain ps where "canonical_fanout_outputs X ps = Inr (pc_outputs (cm_precommitment fm))"
    using assms by (auto simp: prepared_for_def finished_def dest: prepared_fields(3))
  then obtain ps' seen where "rfold (fanout_output_step X) ({}, []) (enumerate 0 ps') = Inr (seen, pc_outputs (cm_precommitment fm))"
    by (auto simp: canonical_fanout_outputs_def rbind_Inr reject_if_Inr)
  from fanout_output_fold_gross[OF this] show ?thesis
    by (auto simp: gross_balanced_def dest!: list_all2_set2)
qed

lemma finished_balanced:
  assumes "list_all2 (prepared_for X J d fees) cs prepared" "list_all2 (finished X J m) prepared mans"
  shows "\<forall>fm\<in>set mans. gross_balanced fm"
  using assms prepared_balanced list_all2_set1[OF assms(1)] list_all2_set2[OF assms(1)] list_all2_set2[OF assms(2)] by meson

text \<open>What the verifier recomputes of the settlement agrees with what was built.\<close>

lemma ctv_settlement_checks:
  fixes ab :: AuditBundle
  assumes laws: "hex_law X" "hex_text_law X" "sha_law X"
    and derive: "derive_ctv_settlement X rm prior policy direct_floor config fee_policy = Inr (pm', d, fees)"
    and money: "rm_coinbase_value_sats rm \<le> QBIT_MAX_MONEY_SATS"
    and lower: "\<forall>e\<in>set (onchain_entitlements pm'). lower_payee e"
    and prep: "rmap (prepare_chunk X J rm d reward_hex policy_hex fees) (fanout_chunks d) = Inr prepared"
    and es: "ctv_settlement_coinbase_entitlements d prepared = Inr es"
    and m: "build_manifest X (audit_coinbase_request rm pm' es root leaves_hex suffix) = Inr m"
    and fin: "finish_fanouts X J m prepared = Inr (ab_ctv_fanout_manifest_set ab)"
    and leaves: "pr_commitment_witness_leaf_hex ` set prepared \<subseteq> set leaves"
  shows "verify_ctv_settlement_bundle X J d (ab_ctv_fanout_manifest_set ab) pm' m leaves = Inr es"
    "verify_coinbase_output_policy pm' (Some d) m = Inr ()" "\<forall>fm\<in>set (bundle_manifests ab). gross_balanced fm"
    "map cm_commitment_witness_leaf_hex (bundle_manifests ab) = map pr_commitment_witness_leaf_hex prepared"
proof -
  obtain pm rs where pm: "apply_payout_policy rm prior policy = Inr pm" and
    recs: "settlement_recipients_from_entitlements (onchain_entitlements pm) = Inr rs" and
    sel: "select_settlement_mode_with_pinned_direct X rs direct_floor config (pinned_settlement_recipient_for_policy pm) = Inr d" and
    acc: "case fee_policy of None \<Rightarrow> pm' = pm \<and> fees = [] | Some fp \<Rightarrow> apply_ctv_fanout_fee_accounting X pm d fp = Inr (pm', fees)"
    by (rule derive_ctv_settlement_Inr[OF derive])
  have keeps: "onchain_entitlements pm' = onchain_entitlements pm"
    using acc fee_accounting_keeps by (auto split: option.splits)
  then have lrs: "\<forall>r\<in>set rs. lower_payee r"
    using lower list_all2_set2[OF settlement_recipients_rel[OF recs]] by (auto simp: lower_payee_def)
  note parts = settlement_parts[OF laws(1) sel lrs]
  have chunk_lower: "\<forall>c\<in>set (fanout_chunks d). \<forall>r\<in>set (sc_recipients c). lower_payee r"
    using mset_eq_setD[OF parts(1)] lrs by auto
  note settles = derived_settles[OF laws(1) acc chunk_lower] and prep' = prepare_chunks_Inr[OF prep]
  have money': "coinbase_value_sats (audit_coinbase_request rm pm' es root leaves_hex suffix) \<le> QBIT_MAX_MONEY_SATS"
    using money by (simp add: audit_coinbase_request_def)
  obtain mans where mans: "mans = (case ab_ctv_fanout_manifest_set ab of None \<Rightarrow> [] | Some ms \<Rightarrow> ms_manifests ms)" and
    fins: "list_all2 (finished X J m) prepared mans" and
    cov: "verify_fanout_coverage X J d (ab_ctv_fanout_manifest_set ab) m leaves =
      Inr (direct_recipients d @ concat (map (\<lambda>fm. map covered_recipient (pc_outputs (cm_precommitment fm))) mans),
        map direct_entitlement (direct_recipients d) @ map covenant_entitlement mans)"
    by (rule settlement_coverage_ok[OF laws m money' prep' parts(5,6) fin leaves])
  have bm: "bundle_manifests ab = mans" by (simp add: bundle_manifests_def mans)
  show ver: "verify_ctv_settlement_bundle X J d (ab_ctv_fanout_manifest_set ab) pm' m leaves = Inr es"
    by (rule settlement_covers[OF laws(1) prep' fins _ _ parts(1) es cov]) (use chunk_lower settles recs in simp_all)
  show bal: "\<forall>fm\<in>set (bundle_manifests ab). gross_balanced fm" unfolding bm by (rule finished_balanced[OF prep' fins])
  show "map cm_commitment_witness_leaf_hex (bundle_manifests ab) = map pr_commitment_witness_leaf_hex prepared"
    unfolding bm by (rule finished_leaves[OF fins])
  have lt: "rm_coinbase_value_sats rm < 2 ^ 64" using money by (simp add: QBIT_MAX_MONEY_SATS_def)
  have "sum_list (map weight es) = rm_coinbase_value_sats rm"
    using settlement_owed(2)[OF ver bal] policy_entitlements_sum[OF pm lt] keeps by simp
  then show "verify_coinbase_output_policy pm' (Some d) m = Inr ()"
    by (rule settlement_coinbase_policy[OF laws(1) pm lt recs lrs sel settles(3) m])
      (use es in \<open>auto simp: ctv_settlement_coinbase_entitlements_def split: if_splits\<close>)
qed

lemma ctv_build_verifies:
  assumes laws: "hex_law X" "hex_text_law X" "sha_law X" "ed25519_law X" "length coinbase_key = 32" "length ledger_key = 32"
    and val: "fb_coinbase_value_sats fb \<le> QBIT_MAX_MONEY_SATS" and chunk: "0 < chunk_len parallelism" "serde_law J"
    and run: "build_audit_bundle_body_with_ctv_settlement_options_parallel X J shares fb wcut prior policy direct_floor config
      fee_policy suffix leaves_hex coinbase_key ledger_key parallelism = Inr body"
    and lower: "\<forall>e\<in>set (onchain_entitlements (ab_payout_policy_manifest body)). lower_payee e"
    and js: "js_bundle J (into_bundle body shares) = Inr bytes"
  shows "\<exists>report. verify_audit_view X J (into_bundle body shares) (signing_public_key_hex X ledger_key) = Inr report \<and>
    vr_audit_bundle_sha256_hex report = sha256_hex X bytes \<and>
    vr_coinbase_tx_hex report = coinbase_tx_hex (sm_manifest (ab_signed_coinbase_manifest body)) \<and>
    vr_coinbase_value_sats report = fb_coinbase_value_sats fb \<and>
    Some (vr_audit_commitment_root_hex report) = ab_audit_commitment_root_hex body"
    "\<forall>fm\<in>set (bundle_manifests (into_bundle body shares)). gross_balanced fm"
proof -
  let ?ab = "into_bundle body shares"
  obtain rm attestation pm d fees reward_bytes policy_bytes prepared root es sm fset where
    rm: "build_prism_reward_manifest_with_cut X shares fb wcut = Inr rm" and
    att: "build_ledger_window_attestation X J rm prior ledger_key = Inr attestation" and
    derive: "derive_ctv_settlement X rm prior policy direct_floor config fee_policy = Inr (pm, d, fees)" and
    jr: "js_reward J rm = Inr reward_bytes" and jp: "js_policy J pm = Inr policy_bytes" and
    prep: "rmap (prepare_chunk X J rm d (hex_encode X (sha256 X reward_bytes)) (hex_encode X (sha256 X policy_bytes)) fees)
       (fanout_chunks d) = Inr prepared" and
    root: "audit_commitment_root_hex X (commitment_leaf_hex X (sha256 X reward_bytes) (sha256 X policy_bytes) #
       map pr_commitment_witness_leaf_hex prepared) = Inr root" and
    es: "ctv_settlement_coinbase_entitlements d prepared = Inr es" and
    sm: "build_profiled_signed_manifest X J (audit_coinbase_request rm pm es root leaves_hex suffix) coinbase_key = Inr sm" and
    fin: "finish_fanouts X J (sm_manifest sm) prepared = Inr fset" and
    body: "body = ctv_body X shares fb prior policy suffix leaves_hex
       (commitment_leaf_hex X (sha256 X reward_bytes) (sha256 X policy_bytes)) prepared root attestation rm pm d fee_policy fset sm"
    by (rule ctv_build_Inr[OF run chunk])
  note rv = reward_manifest_value[OF rm] and s = signed_coinbase_verifies[OF laws(1,4,5) sm]
  obtain coinbase_bytes where jc: "js_coinbase J (sm_manifest sm) = Inr coinbase_bytes" using s(3) by blast
  have money: "rm_coinbase_value_sats rm \<le> QBIT_MAX_MONEY_SATS" using rv val by simp
  have low: "\<forall>e\<in>set (onchain_entitlements pm). lower_payee e" using lower by (simp add: body)
  have fin': "finish_fanouts X J (sm_manifest sm) prepared = Inr (ab_ctv_fanout_manifest_set ?ab)" using fin by (simp add: body)
  have leaves: "pr_commitment_witness_leaf_hex ` set prepared \<subseteq> set (ab_audit_commitment_leaves_hex body)" by (auto simp: body)
  note checks = ctv_settlement_checks[OF laws(1-3) derive money low prep es s(1) fin' leaves]
  show "\<forall>fm\<in>set (bundle_manifests ?ab). gross_balanced fm" by (rule checks(3))
  have leaves_eq: "(case fset of None \<Rightarrow> [] | Some ms \<Rightarrow> map cm_commitment_witness_leaf_hex (ms_manifests ms)) =
      map pr_commitment_witness_leaf_hex prepared"
    using checks(4) by (auto simp: bundle_manifests_def body split: option.splits)
  have "verify_ledger_window_attestation X J ?ab (signing_public_key_hex X ledger_key) = Inr ()"
    by (rule attestation_verifies[OF laws(1,4,6) _ _ _ _ rv]) (simp_all add: body att)
  moreover have "expected_policy_manifest X ?ab rm = Inr pm"
    by (rule derive_ctv_settlement_Inr[OF derive]) (auto simp: expected_policy_manifest_def body split: option.splits)
  moreover have "expected_entitlements_and_leaves X J ?ab pm (commitment_leaf_hex X (sha256 X reward_bytes) (sha256 X policy_bytes)) =
      Inr (es, ab_audit_commitment_leaves_hex body)"
    using checks(1) leaves_eq by (simp add: expected_entitlements_and_leaves_def body)
  ultimately have "\<exists>report. verify_audit_view X J ?ab (signing_public_key_hex X ledger_key) = Inr report \<and>
    vr_audit_bundle_sha256_hex report = sha256_hex X bytes \<and>
    vr_coinbase_tx_hex report = coinbase_tx_hex (sm_manifest (ab_signed_coinbase_manifest ?ab)) \<and>
    vr_coinbase_value_sats report = fb_coinbase_value_sats (ab_found_block ?ab) \<and>
    vr_audit_commitment_root_hex report = root"
    using checks(2)
    by (intro verify_audit_view_intro[where es = es, OF _ _ _ _ _ _ _ _ _ js refl])
      (simp_all add: body rm rv jr jp jc root s(1,2))
  then show "\<exists>report. verify_audit_view X J ?ab (signing_public_key_hex X ledger_key) = Inr report \<and>
    vr_audit_bundle_sha256_hex report = sha256_hex X bytes \<and>
    vr_coinbase_tx_hex report = coinbase_tx_hex (sm_manifest (ab_signed_coinbase_manifest body)) \<and>
    vr_coinbase_value_sats report = fb_coinbase_value_sats fb \<and>
    Some (vr_audit_commitment_root_hex report) = ab_audit_commitment_root_hex body"
    by (auto simp: body)
qed

section \<open>A settlement that can be built\<close>

text \<open>Everything the builder computes for a settlement with one fan-out but hashes and signatures.\<close>

definition one_fanout_fits ::
  "crypto \<Rightarrow> PrismRewardManifest \<Rightarrow> PayoutPolicyManifest \<Rightarrow> SettlementModeDecision \<Rightarrow> (string, FanoutFeeRecipient) btree \<Rightarrow>
     SettlementFanoutChunk \<Rightarrow> CtvFanoutOutput list \<Rightarrow> bool" where
  "one_fanout_fits X rm pm d fees c outs \<longleftrightarrow> fanout_chunks d = [c] \<and> sc_chunk_index c = 0 \<and> fanout_chunk_count_d d = 1 \<and>
     mode d \<noteq> DirectCoinbase \<and> canonical_fanout_outputs X (map (fanout_payout fees) (sc_recipients c)) = Inr outs \<and>
     length outs < 2 ^ 32 - 1 \<and> 0 < sum_list (map fo_amount_sats outs) \<and> pool_fee_first_output pm = None \<and>
     list_all (\<lambda>r. 0 < sr_amount_sats r \<and> is_ok (parse_p2mr_program X (direct_entitlement r))) (direct_recipients d) \<and>
     sum_list (map sr_amount_sats (direct_recipients d)) + sum_list (map fo_amount_sats outs) + sum_list (map fo_fee_sats outs) =
       rm_coinbase_value_sats rm \<and> rm_coinbase_value_sats rm \<le> QBIT_MAX_MONEY_SATS \<and>
     43 * (length (direct_recipients d) + 1) + 300 \<le> MAX_BLOCK_WEIGHT \<and> 0 < rm_block_height rm \<and> rm_block_height rm < 2 ^ 32 \<and>
     is_ok (coinbase_script_sig X (audit_coinbase_request rm pm [] [] [] None))"

lemma one_fanout_prepared:
  assumes laws: "hex_law X" "hex_text_law X" "sha_law X" and js: "js_precommitment J = (\<lambda>p. Inr (jpre p))"
    and fit: "one_fanout_fits X rm pm d fees c outs" and len: "length reward = 32" "length policy = 32"
  obtains f where "prepare_chunk X J rm d (hex_encode X reward) (hex_encode X policy) fees c = Inr f"
    "pr_covenant_output_value_sats f = sum_list (map fo_amount_sats outs) + sum_list (map fo_fee_sats outs)"
    "pc_chunk_count (pr_precommitment f) = 1"
proof -
  define input where "input = \<lparr> ci_block_height = rm_block_height rm, ci_chunk_index = 0, ci_chunk_count = 1,
           ci_coinbase_value_sats = rm_coinbase_value_sats rm, ci_settlement_mode = mode d,
           ci_reward_manifest_sha256_hex = hex_encode X reward, ci_payout_policy_manifest_sha256_hex = hex_encode X policy,
           ci_payouts = map (fanout_payout fees) (sc_recipients c) \<rparr>"
  have valid: "validate_fanout_input X input ''precommitment'' = Inr ()"
    using fit len by (auto simp: one_fanout_fits_def input_def validate_fanout_input_def checks_Inr reject_if_Inr
        validate_chunk_identity_def validate_sha256_hex_def decode_hash_hex_def hex_decode_encode[OF laws(1)])
  have prep: "prepare_chunk X J rm d (hex_encode X reward) (hex_encode X policy) fees c =
      prepare_ctv_fanout_precommitment X (js_precommitment J) input"
    using fit by (simp add: one_fanout_fits_def prepare_chunk_def input_def try_from_def)
  obtain f where f: "prepare_ctv_fanout_precommitment X (js_precommitment J) input = Inr f"
    "pr_covenant_output_value_sats f = sum_list (map fo_amount_sats outs) + sum_list (map fo_fee_sats outs)"
    by (rule prepare_ok[OF laws _ valid, of "js_precommitment J" outs])
      (use fit in \<open>auto simp: js one_fanout_fits_def input_def\<close>)
  have "pc_chunk_count (pr_precommitment f) = ci_chunk_count input"
    using f(1) unfolding prepare_ctv_fanout_precommitment_def Let_def rbind_Inr by auto
  then show ?thesis using f by (intro that[of f]) (simp_all add: prep input_def)
qed

lemma prepared_names_ok:
  assumes "hex_law X" "sha_law X" "prepare_ctv_fanout_precommitment X to_vec input = Inr f"
  shows "\<exists>b. pr_commitment_witness_leaf_hex f = hex_encode X b \<and> length b = 32"
    "\<exists>b. pr_covenant_p2mr_program_hex f = hex_encode X b \<and> length b = 32"
proof -
  obtain bytes program where leaf: "commitment_witness_leaf_hex X (sha256_hex X bytes) = Inr (pr_commitment_witness_leaf_hex f)"
    and program: "p2mr_program_for_ctv_leaf_hex X (pc_ctv_leaf_script_hex (pr_precommitment f)) =
      Inr (pc_p2mr_program_hex (pr_precommitment f))"
    by (rule prepare_Inr[OF assms(3) refl])
  show "\<exists>b. pr_commitment_witness_leaf_hex f = hex_encode X b \<and> length b = 32"
    using leaf sha256_length[OF assms(2)] unfolding commitment_witness_leaf_hex_def rbind_Inr by (metis sum.inject(2))
  show "\<exists>b. pr_covenant_p2mr_program_hex f = hex_encode X b \<and> length b = 32"
    using program sha256_length[OF assms(2)] prepared_fields(6)[OF assms(3)]
    unfolding p2mr_program_for_ctv_leaf_hex_def p2mr_tapleaf_hash_def tagged_hash_def Let_def rbind_Inr by (metis sum.inject(2))
qed

lemma one_fanout_coinbase:
  assumes laws: "hex_law X" "sha_law X" and js: "js_coinbase J = (\<lambda>m. Inr (jc m))"
    and fit: "one_fanout_fits X rm pm d fees c outs" and bs: "length bs = 32"
    and cov: "weight e = sum_list (map fo_amount_sats outs) + sum_list (map fo_fee_sats outs)"
      "p2mr_program_hex e = hex_encode X b" "length b = 32"
  shows "\<exists>sm. build_profiled_signed_manifest X J (audit_coinbase_request rm pm
      (map direct_entitlement (direct_recipients d) @ [e]) (hex_encode X bs) [] None) key = Inr sm"
proof -
  let ?es = "map direct_entitlement (direct_recipients d) @ [e]"
  let ?r = "audit_coinbase_request rm pm ?es [] [] None"
  have val: "coinbase_value_sats ?r = rm_coinbase_value_sats rm" "rm_coinbase_value_sats rm < 2 ^ 64"
    using fit by (auto simp: audit_coinbase_request_def one_fanout_fits_def QBIT_MAX_MONEY_SATS_def)
  have sum: "sum_list (map weight ?es) = rm_coinbase_value_sats rm" using fit cov(1) by (auto simp: one_fanout_fits_def comp_def)
  have le: "weight e' \<le> rm_coinbase_value_sats rm" if "e' \<in> set ?es" for e'
    unfolding sum[symmetric] by (rule member_le_sum_list) (use that in auto)
  have "rm_coinbase_value_sats rm * weight e' < 2 ^ 128" if "e' \<in> set ?es" for e'
  proof -
    have "rm_coinbase_value_sats rm * weight e' \<le> rm_coinbase_value_sats rm * rm_coinbase_value_sats rm"
      using le[OF that] by (rule mult_le_mono2)
    also have "\<dots> < 2 ^ 64 * 2 ^ 64" using val(2) by (intro mult_strict_mono) simp_all
    finally show ?thesis by simp
  qed
  moreover have "0 < weight e' \<and> is_ok (parse_p2mr_program X e')" if "e' \<in> set ?es" for e'
    using that fit cov hex_decode_encode[OF laws(1)]
    by (auto simp: one_fanout_fits_def list_all_iff parse_p2mr_program_def is_ok_def P2MR_PROGRAM_LEN_def)
  ultimately have "\<exists>outs'. allocate_outputs X ?r = Inr outs'"
    using fit val sum by (intro allocate_outputs_ok_suffices)
      (auto simp: audit_coinbase_request_def one_fanout_fits_def order_entitlements_def pinned_first_output_for_policy_def is_ok_def)
  then obtain outs' where outs': "allocate_outputs X ?r = Inr outs'" by blast
  obtain es' where "order_entitlements ?r = Inr es'" "list_all2 (output_of X) es' outs'"
    by (rule allocate_outputs_Inr[OF outs']) (use val in simp)
  then have "length outs' = length ?es"
    using arg_cong[OF order_entitlements_mset, of ?r es' size] by (simp add: list_all2_lengthD[symmetric] audit_coinbase_request_def)
  moreover obtain sig where "coinbase_script_sig X ?r = Inr sig"
    using fit by (auto simp: one_fanout_fits_def is_ok_iff coinbase_script_sig_def coinbase_script_sig_suffix_def audit_coinbase_request_def)
  ultimately show ?thesis
    using fit val by (intro audit_request_ok[OF laws refl bs _ outs' _ _ _ _ js]) (auto simp: one_fanout_fits_def)
qed

lemma output_found:
  assumes hex: "hex_law X" and m: "build_manifest X request = Inr m" and val: "coinbase_value_sats request < 2 ^ 64"
    and sum: "sum_list (map weight (entitlements request)) = coinbase_value_sats request"
    and e: "e \<in> set (entitlements request)" "p2mr_program_hex e = hex_encode X b"
    and few: "length (entitlements request) < 2 ^ 32"
  shows "\<exists>n. find_coinbase_output_vout m (recipient_id e) (order_key e) (p2mr_program_hex e) (weight e) = Inr n"
proof -
  obtain outs where outs: "pm_outputs m = map (payout_output X) (enumerate 0 outs)" by (rule build_manifest_outputs[OF m])
  note pays = build_manifest_pays[OF hex m val sum]
  have len: "length (pm_outputs m) < 2 ^ 32" using arg_cong[OF pays, of size] few by simp
  have "(pays_to e, weight e) \<in> set (map (\<lambda>out. (pays_to out, po_amount_sats out)) (pm_outputs m))"
    using mset_eq_setD[OF pays] e(1) by force
  then obtain out where out: "out \<in> set (pm_outputs m)" "pays_to out = pays_to e" "po_amount_sats out = weight e" by auto
  have lower: "to_ascii_lowercase (hex_encode X bs) = hex_encode X bs" for bs
    using hex_encode_decode[OF hex hex_decode_encode[OF hex]] by simp
  obtain bs where "p2mr_program_hex out = hex_encode X bs" using out(1) by (auto simp: outs payout_output_def)
  then have same: "p2mr_program_hex out = p2mr_program_hex e" using out(2) e(2) lower by (simp add: pays_to_def)
  let ?P = "\<lambda>out. recipient_id out = recipient_id e \<and> order_key out = order_key e \<and>
    p2mr_program_hex out = p2mr_program_hex e \<and> po_amount_sats out = weight e"
  have "?P out" using out same by (simp add: pays_to_def)
  then obtain out' where f: "List.find ?P (pm_outputs m) = Some out'" using out(1) by (cases "List.find ?P (pm_outputs m)") (auto simp: find_None_iff)
  then obtain i where "i < length outs" "out' = payout_output X (i, outs ! i)"
    using find_SomeD[OF f] by (auto simp: outs in_set_conv_nth enumerate_eq_zip)
  then have "vout out' < 2 ^ 32" using len by (simp add: outs payout_output_def)
  then show ?thesis using f by (simp add: find_coinbase_output_vout_def try_from_def)
qed

lemma one_fanout_finished:
  assumes laws: "hex_law X" "hex_text_law X" "sha_law X" and js: "js_precommitment J = (\<lambda>p. Inr (jpre p))"
    and m: "build_manifest X request = Inr m" and val: "coinbase_value_sats request \<le> QBIT_MAX_MONEY_SATS"
    and sum: "sum_list (map weight (entitlements request)) = coinbase_value_sats request"
    and prep: "prepare_ctv_fanout_precommitment X (js_precommitment J) input = Inr f"
    and one: "pc_chunk_count (pr_precommitment f) = 1"
    and e: "\<lparr> recipient_id = pr_covenant_recipient_id f, order_key = pr_covenant_order_key f,
               p2mr_program_hex = pr_covenant_p2mr_program_hex f, weight = pr_covenant_output_value_sats f \<rparr> \<in> set (entitlements request)"
    and few: "length (entitlements request) < 2 ^ 32"
  shows "\<exists>ms. finish_fanouts X J m [f] = Inr (Some ms) \<and> length (ms_manifests ms) = 1"
proof -
  have lt: "coinbase_value_sats request < 2 ^ 64" using val by (simp add: QBIT_MAX_MONEY_SATS_def)
  obtain b where b: "pr_covenant_p2mr_program_hex f = hex_encode X b" using prepared_names_ok(2)[OF laws(1,3) prep] by blast
  obtain n where find: "find_coinbase_output_vout m (pr_covenant_recipient_id f) (pr_covenant_order_key f)
      (pr_covenant_p2mr_program_hex f) (pr_covenant_output_value_sats f) = Inr n"
    using output_found[OF laws(1) m lt sum e _ few, of b] b by auto
  obtain fm where fm: "build_ctv_fanout_manifest_from_precommitment X (js_precommitment J) (pr_precommitment f) (coinbase_tx_hex m) n = Inr fm"
    using finished_exists[OF laws m val prep find] by blast
  note fin = finished_fanout[OF laws m val prep find fm]
  obtain ms where "build_ctv_fanout_manifest_set X (js_precommitment J) [fm] = Inr ms" "ms_manifests ms = [fm]"
    using singleton_set_verifies[OF laws(1,3)] fin one by metis
  then show ?thesis by (simp add: finish_fanouts_def find fm)
qed

text \<open>Whether the settlement of a window has one fan-out and fits a coinbase.\<close>

definition settlement_fits ::
  "crypto \<Rightarrow> AcceptedShare list \<Rightarrow> FoundBlock \<Rightarrow> CarryForwardBalance list \<Rightarrow> PayoutPolicy \<Rightarrow> u64 \<Rightarrow> SettlementModeConfig \<Rightarrow>
     FanoutFeeRatePolicy option \<Rightarrow> bool" where
  "settlement_fits X shares fb prior policy direct_floor config fee_policy =
     (case compute_prism_window_in_cut shares fb None of Inl e \<Rightarrow> False
      | Inr w \<Rightarrow> let rm = reward_manifest fb None w [] in
        (case derive_ctv_settlement X rm prior policy direct_floor config fee_policy of Inl e \<Rightarrow> False
         | Inr (pm, d, fees) \<Rightarrow>
             (case fanout_chunks d of [] \<Rightarrow> False
              | c # _ \<Rightarrow> (case canonical_fanout_outputs X (map (fanout_payout fees) (sc_recipients c)) of Inl e \<Rightarrow> False
                 | Inr outs \<Rightarrow> one_fanout_fits X rm pm d fees c outs \<and> list_all lower_payee (onchain_entitlements pm)))))"

lemma reward_manifest_fields:
  "rm_coinbase_value_sats (reward_manifest fb wcut w digest) = fb_coinbase_value_sats fb"
  "rm_block_height (reward_manifest fb wcut w digest) = fb_block_height fb"
  by (simp_all add: reward_manifest_def)

lemma settlement_ignores_digest:
  "derive_ctv_settlement X (reward_manifest fb wcut w digest) = derive_ctv_settlement X (reward_manifest fb wcut w [])"
  "one_fanout_fits X (reward_manifest fb wcut w digest) = one_fanout_fits X (reward_manifest fb wcut w [])"
  by (simp_all add: derive_ctv_settlement_def one_fanout_fits_def policy_ignores_digest[where d = digest] fun_eq_iff reward_manifest_fields)

lemma ctv_build_ok:
  assumes laws: "hex_law X" "hex_text_law X" "sha_law X"
    and fit: "settlement_fits X shares fb prior policy direct_floor config fee_policy" and serde: "serde_law J"
    and js: "js_reward J = (\<lambda>m. Inr (jr m))" "js_policy J = (\<lambda>m. Inr (jp m))" "js_attestation J = (\<lambda>m. Inr (ja m))"
      "js_coinbase J = (\<lambda>m. Inr (jc m))" "js_precommitment J = (\<lambda>m. Inr (jpre m))"
    and keys: "\<not> eq_ignore_ascii_case (signing_public_key_hex X coinbase_key) (signing_public_key_hex X ledger_key)"
    and chunk: "0 < chunk_len parallelism"
  shows "\<exists>body. build_audit_bundle_body_with_ctv_settlement_options_parallel X J shares fb None prior policy direct_floor config
      fee_policy None [] coinbase_key ledger_key parallelism = Inr body \<and> ab_found_block body = fb \<and>
      length (bundle_manifests (into_bundle body shares)) = 1 \<and>
      (\<exists>d. ab_settlement_mode_decision body = Some d) \<and>
      (\<forall>e\<in>set (onchain_entitlements (ab_payout_policy_manifest body)). lower_payee e)"
proof -
  obtain w where w: "compute_prism_window_in_cut shares fb None = Inr w"
    using fit by (auto simp: settlement_fits_def split: sum.splits)
  define rm where "rm = reward_manifest fb None w (share_slice_digest_hex X (w_shares w))"
  obtain pm d fees c outs where derive: "derive_ctv_settlement X rm prior policy direct_floor config fee_policy = Inr (pm, d, fees)"
    and f1: "one_fanout_fits X rm pm d fees c outs" and lower: "\<forall>e\<in>set (onchain_entitlements pm). lower_payee e"
    using fit by (auto simp: settlement_fits_def w Let_def rm_def list_all_iff
        settlement_ignores_digest[where digest = "share_slice_digest_hex X (w_shares w)"] split: sum.splits prod.splits list.splits)
  have rm: "build_prism_reward_manifest_parallel X shares fb None parallelism = Inr rm"
    by (simp add: parallel_build[OF chunk] build_prism_reward_manifest_with_cut_def w rm_def)
  let ?reward = "sha256 X (jr rm)" and ?policy = "sha256 X (jp pm)"
  obtain f where f: "prepare_chunk X J rm d (hex_encode X ?reward) (hex_encode X ?policy) fees c = Inr f"
    and val: "pr_covenant_output_value_sats f = sum_list (map fo_amount_sats outs) + sum_list (map fo_fee_sats outs)"
    and one: "pc_chunk_count (pr_precommitment f) = 1"
    by (rule one_fanout_prepared[OF laws js(5) f1 sha256_length[OF laws(3)] sha256_length[OF laws(3)]])
  obtain input where prep: "prepare_ctv_fanout_precommitment X (js_precommitment J) input = Inr f"
    using prepare_chunk_Inr[OF f] by (auto simp: prepared_for_def)
  note names = prepared_names_ok[OF laws(1,3) prep]
  let ?leaf = "commitment_leaf_hex X ?reward ?policy"
  obtain bs where root: "audit_commitment_root_hex X [?leaf, pr_commitment_witness_leaf_hex f] = Inr (hex_encode X bs)" "length bs = 32"
    using commitment_root_ok[OF laws(1,3), of "[?leaf, pr_commitment_witness_leaf_hex f]"] leaf_hex[OF laws(3)] names(1) by auto
  let ?e = "\<lparr> recipient_id = pr_covenant_recipient_id f, order_key = pr_covenant_order_key f,
               p2mr_program_hex = pr_covenant_p2mr_program_hex f, weight = pr_covenant_output_value_sats f \<rparr>"
  let ?es = "map direct_entitlement (direct_recipients d) @ [?e]"
  let ?r = "audit_coinbase_request rm pm ?es (hex_encode X bs) [] None"
  have chunks: "fanout_chunks d = [c]" using f1 by (simp add: one_fanout_fits_def)
  obtain b where b: "pr_covenant_p2mr_program_hex f = hex_encode X b" "length b = 32" using names(2) by blast
  have "\<exists>sm. build_profiled_signed_manifest X J ?r coinbase_key = Inr sm"
    by (rule one_fanout_coinbase[OF laws(1,3) js(4) f1 root(2) _ _ b(2)]) (simp_all add: val b(1))
  then obtain sm where sm: "build_profiled_signed_manifest X J ?r coinbase_key = Inr sm" by blast
  have m: "build_manifest X ?r = Inr (sm_manifest sm)"
    using sm by (auto simp: build_profiled_signed_manifest_def rbind_Inr map_err_Inr)
  have "\<exists>ms. finish_fanouts X J (sm_manifest sm) [f] = Inr (Some ms) \<and> length (ms_manifests ms) = 1"
    by (rule one_fanout_finished[OF laws js(5) m _ _ prep one])
      (use f1 val in \<open>auto simp: audit_coinbase_request_def one_fanout_fits_def comp_def MAX_BLOCK_WEIGHT_def\<close>)
  then obtain ms where fin: "finish_fanouts X J (sm_manifest sm) [f] = Inr (Some ms)" and count: "length (ms_manifests ms) = 1" by blast
  show ?thesis
    using keys rm derive root(1) sm fin f chunks lower count
    by (simp add: build_audit_bundle_body_with_ctv_settlement_options_parallel_def build_ledger_window_attestation_def
        canonical_ledger_window_attestation_bytes_def reward_hash_eq[OF serde] canonical_reward_manifest_bytes_def
        canonical_payout_policy_manifest_bytes_def js Let_def ctv_settlement_coinbase_entitlements_def bundle_manifests_def)
qed

definition ctv_shares :: "AcceptedShare list" where
  "ctv_shares = map (\<lambda>(n, miner, byte, diff). (demo_share n miner diff 30) \<lparr> s_p2mr_program_hex := concat (replicate 32 byte) \<rparr>)
     [(1, ''ann'', ''a1'', 8), (2, ''bob'', ''b2'', 5), (3, ''cat'', ''c3'', 3)]"

definition ctv_policy :: PayoutPolicy where
  "ctv_policy = day_one_default \<lparr> configured_min_output_sats := Some 10 \<rparr>"

definition ctv_block :: FoundBlock where
  "ctv_block = demo_block \<lparr> fb_coinbase_value_sats := 1000 \<rparr>"

definition ctv_fees :: FanoutFeeRatePolicy where
  "ctv_fees = fee_rate_policy_new 100 10000"

lemma demo_settlement_fits:
  "settlement_fits demo_crypto ctv_shares ctv_block [] ctv_policy 400 default_settlement_config (Some ctv_fees)"
  by code_simp

lemma demo_settlement:
  obtains body report decision where
    "build_audit_bundle_body_with_ctv_settlement_options_parallel demo_crypto demo_json ctv_shares ctv_block None [] ctv_policy 400
       default_settlement_config (Some ctv_fees) None [] (replicate 32 1) (replicate 32 2) (parallelism_new 4 2) = Inr body"
    "ab_found_block body = ctv_block" "ab_settlement_mode_decision body = Some decision"
    "\<forall>e\<in>set (onchain_entitlements (ab_payout_policy_manifest body)). lower_payee e"
    "length (bundle_manifests (into_bundle body ctv_shares)) = 1"
    "verify_audit_bundle demo_crypto demo_json (into_bundle body ctv_shares) (signing_public_key_hex demo_crypto (replicate 32 2)) = Inr report"
    "\<forall>m\<in>set (bundle_manifests (into_bundle body ctv_shares)). gross_balanced m"
proof -
  have keys: "\<not> eq_ignore_ascii_case (signing_public_key_hex demo_crypto (replicate 32 1)) (signing_public_key_hex demo_crypto (replicate 32 2))"
    by code_simp
  have pre: "js_precommitment demo_json = (\<lambda>p. Inr (as_bytes (pc_ctv_hash_hex p)))"
    by (simp add: demo_json_def demo_to_vec_def fun_eq_iff)
  obtain body decision where body: "build_audit_bundle_body_with_ctv_settlement_options_parallel demo_crypto demo_json ctv_shares
      ctv_block None [] ctv_policy 400 default_settlement_config (Some ctv_fees) None [] (replicate 32 1) (replicate 32 2)
      (parallelism_new 4 2) = Inr body"
    and b: "ab_found_block body = ctv_block" "ab_settlement_mode_decision body = Some decision"
      "\<forall>e\<in>set (onchain_entitlements (ab_payout_policy_manifest body)). lower_payee e"
      "length (bundle_manifests (into_bundle body ctv_shares)) = 1"
    using ctv_build_ok[OF demo_crypto_hex demo_crypto_hex_text demo_crypto_sha demo_settlement_fits demo_json_serde demo_json_simps pre keys,
        of "parallelism_new 4 2"] by (auto simp: parallelism_new_def)
  have val: "fb_coinbase_value_sats ctv_block \<le> QBIT_MAX_MONEY_SATS" by (simp add: ctv_block_def QBIT_MAX_MONEY_SATS_def)
  have js: "js_bundle demo_json ab = Inr (as_bytes (ab_schema ab))" for ab by (simp add: demo_json_def)
  have chunk: "0 < chunk_len (parallelism_new 4 2)" by (simp add: parallelism_new_def)
  note ver = ctv_build_verifies[OF demo_crypto_hex demo_crypto_hex_text demo_crypto_sha demo_crypto_ed25519 _ _ val chunk demo_json_serde body b(3) js]
  show ?thesis using that[OF body b(1-4)] ver by (auto simp: verify_audit_bundle_def)
qed

section \<open>What verification leaves open\<close>

text \<open>
  The builder rejects a payout whose gross amount is not its amount plus its fee. The verifier of a manifest does
  not look at gross amounts, and the audit verifier compares nothing else with the policy. Hence the
  hypothesis \<open>gross_balanced\<close> below.
\<close>

definition regross :: "(CtvFanoutOutput \<Rightarrow> u64) \<Rightarrow> CtvFanoutPrecommitment \<Rightarrow> CtvFanoutPrecommitment" where
  "regross g p = p \<lparr> pc_outputs := map (\<lambda>out. out \<lparr> fo_gross_amount_sats := g out \<rparr>) (pc_outputs p) \<rparr>"

lemma rfold_regross:
  "rfold (verify_output_step X) st (enumerate k (map (\<lambda>out. out \<lparr> fo_gross_amount_sats := g out \<rparr>) outs)) =
   rfold (verify_output_step X) st (enumerate k outs)"
  "rfold (fanout_output_check X) acc (enumerate k (zip txos (map (\<lambda>out. out \<lparr> fo_gross_amount_sats := g out \<rparr>) outs))) =
   rfold (fanout_output_check X) acc (enumerate k (zip txos outs))"
proof -
  have step: "verify_output_step X st (i, out \<lparr> fo_gross_amount_sats := g out \<rparr>) = verify_output_step X st (i, out)" for st i out
    by (simp add: verify_output_step_def)
  have check: "fanout_output_check X acc (i, txo, out \<lparr> fo_gross_amount_sats := g out \<rparr>) = fanout_output_check X acc (i, txo, out)"
    for acc i txo out
    by (simp add: fanout_output_check_def)
  show "rfold (verify_output_step X) st (enumerate k (map (\<lambda>out. out \<lparr> fo_gross_amount_sats := g out \<rparr>) outs)) =
     rfold (verify_output_step X) st (enumerate k outs)"
    by (induction outs arbitrary: k st) (simp_all add: step)
  show "rfold (fanout_output_check X) acc (enumerate k (zip txos (map (\<lambda>out. out \<lparr> fo_gross_amount_sats := g out \<rparr>) outs))) =
     rfold (fanout_output_check X) acc (enumerate k (zip txos outs))"
  proof (induction outs arbitrary: k acc txos)
    case (Cons out outs)
    then show ?case by (cases txos) (simp_all add: check)
  qed simp
qed

lemma regross_precommitment: "verify_precommitment X (regross g p) = verify_precommitment X p"
proof -
  have "verify_anchor (regross g p) = verify_anchor p"
    by (auto simp: verify_anchor_def regross_def split: option.splits bool.splits)
  moreover have "verify_precommitment_fields X (regross g p) = verify_precommitment_fields X p"
    by (simp add: verify_precommitment_fields_def regross_def)
  ultimately show ?thesis by (simp add: verify_precommitment_def) (simp add: regross_def rfold_regross)
qed

lemma gross_amounts_unverified:
  assumes laws: "hex_law X" "sha_law X" and ver: "verify_ctv_fanout_manifest_structure X to_vec m = Inr ()"
    and bytes: "to_vec (regross g (cm_precommitment m)) = Inr bytes"
    and leaf: "commitment_witness_leaf_hex X (sha256_hex X bytes) = Inr leaf"
  shows "verify_ctv_fanout_manifest_structure X to_vec (m \<lparr> cm_precommitment := regross g (cm_precommitment m),
    cm_precommitment_sha256_hex := sha256_hex X bytes, cm_commitment_witness_leaf_hex := leaf \<rparr>) = Inr ()"
proof -
  let ?m = "m \<lparr> cm_precommitment := regross g (cm_precommitment m), cm_precommitment_sha256_hex := sha256_hex X bytes,
    cm_commitment_witness_leaf_hex := leaf \<rparr>"
  obtain template fanout where pre: "verify_precommitment X (cm_precommitment m) = Inr ()"
    and fields: "verify_manifest_fields X to_vec m = Inr ()" and cov: "verify_covenant_output X m = Inr ()"
    and tmpl: "parse_transaction_hex X (pc_fanout_tx_template_hex (cm_precommitment m)) ''manifest fanout_tx_template_hex'' = Inr template"
    "validate_fanout_template template = Inr ()" and schema: "cm_schema m = CTV_FANOUT_MANIFEST_SCHEMA"
    and f: "parse_transaction_hex X (cm_fanout_tx_hex m) ''manifest fanout_tx_hex'' = Inr fanout"
    and inp: "verify_fanout_input X m fanout = Inr ()" and commit: "verify_ctv_commitment X m template fanout = Inr ()"
    and outs: "verify_fanout_outputs X m fanout = Inr ()"
    using ver by (auto simp: verify_ctv_fanout_manifest_structure_def rbind_Inr reject_if_Inr)
  have sha: "validate_canonical_sha256_hex X (sha256_hex X bs) field = Inr ()" for bs field
    using laws by (simp add: validate_canonical_sha256_hex_def validate_sha256_hex_def decode_hash_hex_def sha256_hex_def
        hex_decode_encode sha256_length reject_if_Inr validate_canonical_hex_def)
  obtain bs where "leaf = sha256_hex X bs"
    using leaf by (auto simp: commitment_witness_leaf_hex_def rbind_Inr sha256_hex_def)
  then have "verify_manifest_fields X to_vec ?m = Inr ()"
    using fields leaf bytes sha
    by (auto simp: verify_manifest_fields_def Let_def checks_Inr regross_def canonical_precommitment_bytes_def reject_if_Inr rbind_Inr)
  moreover have "verify_covenant_output X ?m = Inr ()" "verify_fanout_input X ?m fanout = Inr ()"
    "verify_ctv_commitment X ?m template fanout = Inr ()"
    using cov inp commit
    by (simp_all add: Let_def verify_covenant_output_def verify_fanout_input_def verify_ctv_commitment_def regross_def)
  moreover have "verify_fanout_outputs X ?m fanout = Inr ()"
    using outs by (cases "pc_anchor_vout (cm_precommitment m)")
      (simp_all add: Let_def verify_fanout_outputs_def regross_def rfold_regross)
  ultimately show ?thesis
    using pre tmpl f schema
    by (simp add: verify_ctv_fanout_manifest_structure_def regross_precommitment) (simp add: regross_def reject_if_def)
qed

text \<open>
  Settlement writes programs in lower case and the policy manifest keeps the case of the shares, so that only
  settlements of lower-case entitlements verify. Hence the hypothesis on the entitlements below.
\<close>

lemma verified_output_lower:
  assumes hex: "hex_law X" and run: "rfold (verify_output_step X) st (enumerate k outs) = Inr st'"
  shows "\<forall>out\<in>set outs. lower_payee out"
  using run
proof (induction outs arbitrary: k st)
  case (Cons out outs)
  then obtain st1 where step: "verify_output_step X st (k, out) = Inr st1"
    and rest: "rfold (verify_output_step X) st1 (enumerate (Suc k) outs) = Inr st'" by (auto simp: rbind_Inr)
  obtain b where "p2mr_program_hex out = hex_encode X b"
    using step by (auto simp: verify_output_step_def Let_def rbind_Inr reject_if_Inr split: prod.splits)
  then have "lower_payee out" using hex_encode_decode[OF hex hex_decode_encode[OF hex]] by (simp add: lower_payee_def)
  with Cons.IH[OF rest] show ?case by simp
qed simp

lemma settlement_needs_lower:
  fixes ab :: AuditBundle
  assumes hex: "hex_law X" and ver: "verify_ctv_settlement_bundle X J d (ab_ctv_fanout_manifest_set ab) pm coinbase leaves = Inr es"
    and direct: "\<forall>r\<in>set (direct_recipients d). lower_payee r" and e: "e \<in> set (onchain_entitlements pm)"
  shows "lower_payee e"
proof -
  obtain rs where rs: "settlement_recipients_from_entitlements (onchain_entitlements pm) = Inr rs"
    and cover: "mset rs = mset (direct_recipients d) +
      mset (concat (map (\<lambda>m. map covered_recipient (pc_outputs (cm_precommitment m))) (bundle_manifests ab)))"
    and mans: "\<forall>m\<in>set (bundle_manifests ab). cm_parent_coinbase_tx_hex m = coinbase_tx_hex coinbase \<and>
       verify_ctv_fanout_manifest_structure X (js_precommitment J) m = Inr ()"
    by (rule verified_settlement_Inr[OF ver])
  have "lower_payee out" if "m \<in> set (bundle_manifests ab)" "out \<in> set (pc_outputs (cm_precommitment m))" for m out
  proof -
    have "verify_precommitment X (cm_precommitment m) = Inr ()" by (rule verify_structure_Inr) (use mans that in blast)+
    then obtain st where "rfold (verify_output_step X) (0, 0, {}) (enumerate 0 (pc_outputs (cm_precommitment m))) = Inr st"
      by (auto simp: verify_precommitment_def rbind_Inr)
    from verified_output_lower[OF hex this] that(2) show ?thesis by blast
  qed
  then have "\<forall>r\<in>set rs. lower_payee r"
    using cover direct by (auto dest!: arg_cong[where f = set_mset] simp: lower_payee_def covered_recipient_def)
  then show ?thesis
    using list_all2_set1[OF settlement_recipients_rel[OF rs]] e unfolding lower_payee_def by metis
qed

section \<open>Properties\<close>

text \<open>C8. A bundle that the builder settles through fan-outs, with or without a fee policy, and whose payout programs are
  all lower-case hex verifies under the public key of the ledger, for every number of workers and every positive chunk length:
  the fan-outs it prepared, committed to and finished are the ones the verifier recomputes and they cover every recipient
  exactly once. The condition on the programs is needed, as \<open>settlement_needs_lower\<close> shows: settlement normalizes them to lower
  case and the policy manifest does not.\<close>

theorem built_settlement_verifies:
  assumes "hex_law X" and "hex_text_law X" and "sha_law X" and "ed25519_law X"
    and "length coinbase_key = 32" and "length ledger_key = 32"
    and "fb_coinbase_value_sats fb \<le> QBIT_MAX_MONEY_SATS" and "0 < chunk_len parallelism" and "serde_law J"
    and "build_audit_bundle_body_with_ctv_settlement_options_parallel X J shares fb wcut prior policy direct_floor config
      fee_policy suffix leaves_hex coinbase_key ledger_key parallelism = Inr body"
    and "\<forall>e\<in>set (onchain_entitlements (ab_payout_policy_manifest body)). lower_payee e"
    and "js_bundle J (into_bundle body shares) = Inr bytes"
  shows "\<exists>report. verify_audit_parts X J body shares (signing_public_key_hex X ledger_key) = Inr report \<and>
    vr_audit_bundle_sha256_hex report = sha256_hex X bytes \<and>
    vr_coinbase_tx_hex report = coinbase_tx_hex (sm_manifest (ab_signed_coinbase_manifest body)) \<and>
    vr_coinbase_value_sats report = fb_coinbase_value_sats fb \<and>
    Some (vr_audit_commitment_root_hex report) = ab_audit_commitment_root_hex body"
  using ctv_build_verifies(1)[OF assms] by (simp add: verify_audit_parts_def)

theorem built_settlement_verifies_witness:
  "\<exists>body report. length (bundle_manifests (into_bundle body ctv_shares)) = 1 \<and>
    verify_audit_parts demo_crypto demo_json body ctv_shares (signing_public_key_hex demo_crypto (replicate 32 2)) = Inr report \<and>
    vr_coinbase_value_sats report = 1000"
proof -
  obtain body where body: "build_audit_bundle_body_with_ctv_settlement_options_parallel demo_crypto demo_json ctv_shares
      ctv_block None [] ctv_policy 400 default_settlement_config (Some ctv_fees) None [] (replicate 32 1) (replicate 32 2)
      (parallelism_new 4 2) = Inr body"
    and lower: "\<forall>e\<in>set (onchain_entitlements (ab_payout_policy_manifest body)). lower_payee e"
    and one: "length (bundle_manifests (into_bundle body ctv_shares)) = 1"
    by (rule demo_settlement)
  have val: "fb_coinbase_value_sats ctv_block \<le> QBIT_MAX_MONEY_SATS" "fb_coinbase_value_sats ctv_block = 1000"
    by (simp_all add: ctv_block_def QBIT_MAX_MONEY_SATS_def)
  have js: "js_bundle demo_json ab = Inr (as_bytes (ab_schema ab))" for ab by (simp add: demo_json_def)
  have chunk: "0 < chunk_len (parallelism_new 4 2)" by (simp add: parallelism_new_def)
  from built_settlement_verifies[OF demo_crypto_hex demo_crypto_hex_text demo_crypto_sha demo_crypto_ed25519 _ _ val(1) chunk demo_json_serde body lower js] one
  show ?thesis by (auto simp: val(2))
qed

text \<open>C6. A bundle with fan-outs that verifies and whose fan-out outputs are balanced (gross is amount plus fee) pays
  what the policy owes: every account is paid directly or by a fan-out, the fan-out's amount and fee
  together being the owed amount; the bytes of the coinbase transaction pay the direct recipients and one
  covenant output per fan-out and nothing else but the witness commitment; and every fan-out is a
  verified manifest that spends that transaction.\<close>

theorem verified_settlement_pays:
  assumes "hex_law X" and "hex_text_law X" and "sha_law X" and "verify_audit_bundle X J ab writer_key = Inr report"
    and "fb_coinbase_value_sats (ab_found_block ab) \<le> QBIT_MAX_MONEY_SATS"
    and "ab_settlement_mode_decision ab = Some decision" and "\<forall>m\<in>set (bundle_manifests ab). gross_balanced m"
  shows "owed (ab_payout_policy_manifest ab) = paid_direct decision + paid_by_fanouts (bundle_manifests ab) \<and>
    tx_pays X (vr_coinbase_tx_hex report) (paid_direct decision +
      mset (map (\<lambda>m. (pays_to (covenant_entitlement m), cm_covenant_output_value_sats m)) (bundle_manifests ab))) \<and>
    (\<forall>m\<in>set (bundle_manifests ab). verify_ctv_fanout_manifest_structure X (js_precommitment J) m = Inr () \<and>
       cm_parent_coinbase_tx_hex m = vr_coinbase_tx_hex report)"
proof -
  let ?pm = "ab_payout_policy_manifest ab" and ?coinbase = "sm_manifest (ab_signed_coinbase_manifest ab)"
  obtain es leaf leaves where eel: "expected_entitlements_and_leaves X J ab ?pm leaf = Inr (es, leaves)"
    and owed: "mset (map (\<lambda>e. (pays_to e, weight e)) (onchain_entitlements ?pm)) = owed ?pm"
    and sum: "sum_list (map weight (onchain_entitlements ?pm)) = fb_coinbase_value_sats (ab_found_block ab)"
    and tx: "vr_coinbase_tx_hex report = coinbase_tx_hex ?coinbase"
    and paid: "sum_list (map weight es) = fb_coinbase_value_sats (ab_found_block ab) \<longrightarrow>
      tx_pays X (vr_coinbase_tx_hex report) (mset (map (\<lambda>e. (pays_to e, weight e)) es))"
    by (rule verified_bundle_steps[OF assms(1-5)])
  have ver: "verify_ctv_settlement_bundle X J decision (ab_ctv_fanout_manifest_set ab) ?pm ?coinbase
      (ab_audit_commitment_leaves_hex ab) = Inr es"
    using eel by (auto simp: expected_entitlements_and_leaves_def assms(6) rbind_Inr split: option.splits)
  note so = settlement_owed[OF ver assms(7)]
  show ?thesis
    by (rule verified_settlement_Inr[OF ver])
      (use so owed paid sum tx in \<open>auto simp: paid_direct_def comp_def\<close>)
qed

theorem verified_settlement_pays_witness:
  "\<exists>ab report decision. verify_audit_bundle demo_crypto demo_json ab (signing_public_key_hex demo_crypto (replicate 32 2)) = Inr report \<and>
    length (bundle_manifests ab) = 1 \<and>
    owed (ab_payout_policy_manifest ab) = paid_direct decision + paid_by_fanouts (bundle_manifests ab)"
proof -
  obtain body report decision where b: "ab_found_block body = ctv_block" "ab_settlement_mode_decision body = Some decision"
    "length (bundle_manifests (into_bundle body ctv_shares)) = 1"
    and report: "verify_audit_bundle demo_crypto demo_json (into_bundle body ctv_shares)
      (signing_public_key_hex demo_crypto (replicate 32 2)) = Inr report"
    and bal: "\<forall>m\<in>set (bundle_manifests (into_bundle body ctv_shares)). gross_balanced m"
    by (rule demo_settlement)
  have "owed (ab_payout_policy_manifest (into_bundle body ctv_shares)) =
      paid_direct decision + paid_by_fanouts (bundle_manifests (into_bundle body ctv_shares))"
    using verified_settlement_pays[OF demo_crypto_hex demo_crypto_hex_text demo_crypto_sha report _ _ bal, of decision] b
    by (simp add: ctv_block_def QBIT_MAX_MONEY_SATS_def)
  with report b(3) show ?thesis by blast
qed

end
