(* ===== verification/Payout_Window.thy ===== *)
theory Payout_Window
  imports Reward_Window
begin

text \<open>
  The paged payout window of the coordinator (\<^verbatim>\<open>src/crates/qbit-prism/src/window.rs\<close>): the fold of a full snapshot,
  the canonical JSON of its records and its digest, and the incremental advance, with the byte edit
  that a mirror of the canonical stream applies. Strings are UTF-8 bytes; \<open>utf8_chars\<close> gives their
  code points. Subtraction on \<^verbatim>\<open>u128\<close> wraps, as in the release profile.
\<close>

section \<open>Errors and widths\<close>

definition DEFAULT_WINDOW_PAGE_SIZE :: usize where "DEFAULT_WINDOW_PAGE_SIZE = 512"

datatype WindowFoldError =
    NonPositiveWindowWeight
  | NonPositivePageSize
  | FoldDuplicateShareSeq
  | FoldDuplicateShareId
  | FoldNonPositiveDifficulty
  | FoldDifficultyOverflow

definition DIFFICULTY_OVERFLOW_MESSAGE :: string where
  "DIFFICULTY_OVERFLOW_MESSAGE = ''window difficulty total exceeds u128''"

fun fold_rejection_category :: "WindowFoldError \<Rightarrow> string option" where
  "fold_rejection_category NonPositiveWindowWeight = Some ''non_positive_window_weight''"
| "fold_rejection_category NonPositivePageSize = Some ''non_positive_page_size''"
| "fold_rejection_category FoldDuplicateShareSeq = Some ''duplicate_share_seq''"
| "fold_rejection_category FoldDuplicateShareId = Some ''duplicate_share_id''"
| "fold_rejection_category FoldNonPositiveDifficulty = Some ''non_positive_difficulty''"
| "fold_rejection_category FoldDifficultyOverflow = None"

fun fold_error_message :: "WindowFoldError \<Rightarrow> string" where
  "fold_error_message NonPositiveWindowWeight = ''window_weight must be positive''"
| "fold_error_message NonPositivePageSize = ''page_size must be positive''"
| "fold_error_message FoldDuplicateShareSeq = ''full payout window contains duplicate share_seq''"
| "fold_error_message FoldDuplicateShareId = ''full payout window contains duplicate share_id''"
| "fold_error_message FoldNonPositiveDifficulty = ''full payout window contains non-positive difficulty''"
| "fold_error_message FoldDifficultyOverflow = DIFFICULTY_OVERFLOW_MESSAGE"

datatype WindowAdvanceError =
    AnchorMovedBackwards
  | NonPositiveDifficulty
  | IneligibleAtNewAnchor
  | RepeatsPreviouslyEligible
  | NotAnAppend
  | DeltaOrderNotIncreasing
  | DifficultyOverflow

fun advance_rejection_category :: "WindowAdvanceError \<Rightarrow> string option" where
  "advance_rejection_category AnchorMovedBackwards = Some ''anchor_regression''"
| "advance_rejection_category NonPositiveDifficulty = Some ''delta_non_positive_difficulty''"
| "advance_rejection_category IneligibleAtNewAnchor = Some ''delta_ineligible_at_anchor''"
| "advance_rejection_category RepeatsPreviouslyEligible = Some ''delta_repeats_eligible_share''"
| "advance_rejection_category NotAnAppend = Some ''delta_not_append''"
| "advance_rejection_category DeltaOrderNotIncreasing = Some ''delta_order_not_increasing''"
| "advance_rejection_category DifficultyOverflow = None"

fun advance_error_message :: "WindowAdvanceError \<Rightarrow> string" where
  "advance_error_message AnchorMovedBackwards = ''snapshot anchor moved backwards''"
| "advance_error_message NonPositiveDifficulty = ''delta contains non-positive share difficulty''"
| "advance_error_message IneligibleAtNewAnchor = ''delta contains a share ineligible at the new anchor''"
| "advance_error_message RepeatsPreviouslyEligible = ''delta repeats a share eligible at the previous anchor''"
| "advance_error_message NotAnAppend = ''newly eligible share is not an append''"
| "advance_error_message DeltaOrderNotIncreasing = ''delta share_seq order is not increasing''"
| "advance_error_message DifficultyOverflow = DIFFICULTY_OVERFLOW_MESSAGE"

datatype DeclaredWidth = U32 | U64 | U128 | I64

fun width_name :: "DeclaredWidth \<Rightarrow> string" where
  "width_name U32 = ''u32''"
| "width_name U64 = ''u64''"
| "width_name U128 = ''u128''"
| "width_name I64 = ''i64''"

text \<open>
  \<^verbatim>\<open>str::parse\<close> on integers: an optional sign (\<^verbatim>\<open>-\<close> only for signed types), at least one digit, nothing else, and a
  value of the width.
\<close>

definition is_digit :: "char \<Rightarrow> bool" where
  "is_digit c \<longleftrightarrow> 48 \<le> (of_char c :: nat) \<and> (of_char c :: nat) \<le> 57"

definition digits_value :: "string \<Rightarrow> nat" where
  "digits_value = foldl (\<lambda>v c. 10 * v + (of_char c - 48)) 0"

definition all_digits :: "string \<Rightarrow> bool" where
  "all_digits s \<longleftrightarrow> s \<noteq> [] \<and> list_all is_digit s"

definition strip_char :: "char \<Rightarrow> string \<Rightarrow> string option" where
  "strip_char c s = (case s of [] \<Rightarrow> None | x # xs \<Rightarrow> if x = c then Some xs else None)"

definition parse_unsigned :: "nat \<Rightarrow> string \<Rightarrow> nat option" where
  "parse_unsigned w s =
     (let digits = (case strip_char CHR ''+'' s of Some rest \<Rightarrow> rest | None \<Rightarrow> s) in
      if all_digits digits \<and> digits_value digits < 2 ^ w then Some (digits_value digits) else None)"

definition parse_signed :: "nat \<Rightarrow> string \<Rightarrow> int option" where
  "parse_signed w s =
     (case strip_char CHR ''-'' s of
        Some digits \<Rightarrow> if all_digits digits \<and> digits_value digits \<le> 2 ^ (w - 1) then Some (- int (digits_value digits)) else None
      | None \<Rightarrow> (case parse_unsigned (w - 1) s of Some v \<Rightarrow> Some (int v) | None \<Rightarrow> None))"

fun width_admits :: "DeclaredWidth \<Rightarrow> string \<Rightarrow> bool" where
  "width_admits U32 literal = (parse_unsigned 32 literal \<noteq> None)"
| "width_admits U64 literal = (parse_unsigned 64 literal \<noteq> None)"
| "width_admits U128 literal = (parse_unsigned 128 literal \<noteq> None)"
| "width_admits I64 literal = (parse_signed 64 literal \<noteq> None)"

definition ACCEPTED_SHARE_WIDTHS :: "(string \<times> DeclaredWidth) list" where
  "ACCEPTED_SHARE_WIDTHS =
     [(''share_seq'', U64), (''share_difficulty'', U128), (''network_difficulty'', U128), (''template_height'', U64),
      (''job_issued_at_ms'', I64), (''accepted_at_ms'', I64), (''ntime'', U32)]"

definition PREPARE_WINDOW_REQUEST_WIDTHS :: "(string \<times> DeclaredWidth) list" where
  "PREPARE_WINDOW_REQUEST_WIDTHS =
     [(''window_weight'', U128), (''page_size'', U64), (''anchor_job_issued_at_ms'', I64), (''append_invalidation_epoch'', U64)]"

record OutOfRangeField =
  orf_field :: string
  orf_literal :: string
  orf_width :: DeclaredWidth

definition out_of_range_message :: "OutOfRangeField \<Rightarrow> string" where
  "out_of_range_message f =
     ''prepare_window '' @ orf_field f @ '' '' @ orf_literal f @ '' is outside the declared '' @ width_name (orf_width f)"

definition is_integer_literal :: "string \<Rightarrow> bool" where
  "is_integer_literal literal = all_digits (case strip_char CHR ''-'' literal of Some digits \<Rightarrow> digits | None \<Rightarrow> literal)"

text \<open>A lookup of \<^verbatim>\<open>serde_json\<close> is given by what it finds: the literal, when the value is a number.\<close>

definition out_of_range_field :: "string option \<Rightarrow> string \<Rightarrow> DeclaredWidth \<Rightarrow> OutOfRangeField option" where
  "out_of_range_field number field width =
     (case number of None \<Rightarrow> None
      | Some literal \<Rightarrow> if is_integer_literal literal \<and> \<not> width_admits width literal
          then Some \<lparr> orf_field = field, orf_literal = literal, orf_width = width \<rparr> else None)"

fun find_map :: "('a \<Rightarrow> 'b option) \<Rightarrow> 'a list \<Rightarrow> 'b option" where
  "find_map f [] = None"
| "find_map f (x # xs) = (case f x of Some y \<Rightarrow> Some y | None \<Rightarrow> find_map f xs)"

definition prepare_window_out_of_range ::
  "(string \<Rightarrow> string option) \<Rightarrow> (string \<Rightarrow> string option) list option \<Rightarrow> OutOfRangeField option" where
  "prepare_window_out_of_range request records =
     (case find_map (\<lambda>(field, width). out_of_range_field (request field) field width) PREPARE_WINDOW_REQUEST_WIDTHS of
        Some found \<Rightarrow> Some found
      | None \<Rightarrow>
          (case records of None \<Rightarrow> None
           | Some rs \<Rightarrow> find_map (\<lambda>(index, record). find_map (\<lambda>(field, width).
               out_of_range_field (record field) (''records['' @ show_nat index @ ''].'' @ field) width)
                 ACCEPTED_SHARE_WIDTHS) (enumerate 0 rs)))"

section \<open>Canonical JSON\<close>

function utf8_chars :: "nat list \<Rightarrow> nat list" where
  "utf8_chars [] = []"
| "utf8_chars (b # bs) =
     (let n = (if b < 0x80 then 0 else if b < 0xE0 then 1 else if b < 0xF0 then 2 else 3);
          lead = (if n = 0 then b else b mod 2 ^ (6 - n)) in
      foldl (\<lambda>c x. 64 * c + x mod 64) lead (take n bs) # utf8_chars (drop n bs))"
  by pat_completeness auto
termination
  by (relation "measure length") (auto simp: Let_def)

definition push_u16_escape :: "nat \<Rightarrow> byte list" where
  "push_u16_escape unit =
     as_bytes [CHR 0x5C, CHR ''u''] @
     as_bytes (map hex_digit [unit div 4096 mod 16, unit div 256 mod 16, unit div 16 mod 16, unit mod 16])"

definition python_escape_char :: "nat \<Rightarrow> byte list" where
  "python_escape_char c =
     (if c = 0x22 then as_bytes [CHR 0x5C, CHR 0x22]
      else if c = 0x5C then as_bytes [CHR 0x5C, CHR 0x5C]
      else if c = 0x08 then as_bytes [CHR 0x5C, CHR ''b'']
      else if c = 0x09 then as_bytes [CHR 0x5C, CHR ''t'']
      else if c = 0x0A then as_bytes [CHR 0x5C, CHR ''n'']
      else if c = 0x0C then as_bytes [CHR 0x5C, CHR ''f'']
      else if c = 0x0D then as_bytes [CHR 0x5C, CHR ''r'']
      else if 0x20 \<le> c \<and> c < 0x7F then [of_nat c]
      else if c < 0x10000 then push_u16_escape c
      else push_u16_escape (0xD800 + (c - 0x10000) div 1024) @ push_u16_escape (0xDC00 + (c - 0x10000) mod 1024))"

definition push_python_json_escaped_contents :: "string \<Rightarrow> byte list" where
  "push_python_json_escaped_contents value = concat (map python_escape_char (utf8_chars (map of_char value)))"

definition push_python_json_escaped :: "string \<Rightarrow> byte list" where
  "push_python_json_escaped value = [0x22] @ push_python_json_escaped_contents value @ [0x22]"

definition json_key :: "char \<Rightarrow> string \<Rightarrow> byte list" where
  "json_key before name = as_bytes ([before, CHR 0x22] @ name @ [CHR 0x22, CHR '':''])"

definition canonical_share_fragment :: "AcceptedShare \<Rightarrow> byte list" where
  "canonical_share_fragment s =
     json_key (CHR ''{'') ''accepted_at_ms'' @ as_bytes (show_int (accepted_at_ms s)) @
     (case credit_policy s of None \<Rightarrow> []
      | Some p \<Rightarrow> json_key (CHR '','') ''credit_policy'' @ push_python_json_escaped p) @
     json_key (CHR '','') ''job_id'' @ push_python_json_escaped (job_id s) @
     json_key (CHR '','') ''job_issued_at_ms'' @ as_bytes (show_int (job_issued_at_ms s)) @
     json_key (CHR '','') ''miner_id'' @ push_python_json_escaped (miner_id s) @
     json_key (CHR '','') ''network_difficulty'' @ as_bytes (show_nat (s_network_difficulty s)) @
     json_key (CHR '','') ''ntime'' @ as_bytes (show_nat (ntime s)) @
     json_key (CHR '','') ''order_key'' @ push_python_json_escaped (s_order_key s) @
     json_key (CHR '','') ''p2mr_program_hex'' @ push_python_json_escaped (s_p2mr_program_hex s) @
     json_key (CHR '','') ''share_difficulty'' @ as_bytes (show_nat (share_difficulty s)) @
     json_key (CHR '','') ''share_id'' @ push_python_json_escaped (share_id s) @
     json_key (CHR '','') ''share_seq'' @ as_bytes (show_nat (share_seq s)) @
     json_key (CHR '','') ''template_height'' @ as_bytes (show_nat (template_height s)) @
     as_bytes ''}''"

section \<open>Pages and windows\<close>

record WindowPage =
  pg_records :: "AcceptedShare list"
  pg_fragments :: "byte list list"
  pg_total_difficulty :: u128

definition saturating_total :: "AcceptedShare list \<Rightarrow> u128" where
  "saturating_total rs = foldl (saturating_add 128) 0 (map share_difficulty rs)"

definition page_from_retained :: "AcceptedShare list \<Rightarrow> byte list list \<Rightarrow> WindowPage" where
  "page_from_retained rs fragments =
     \<lparr> pg_records = rs, pg_fragments = fragments, pg_total_difficulty = saturating_total rs \<rparr>"

definition page_from_records :: "AcceptedShare list \<Rightarrow> WindowPage" where
  "page_from_records rs =
     \<lparr> pg_records = rs, pg_fragments = map canonical_share_fragment rs, pg_total_difficulty = saturating_total rs \<rparr>"

record PayoutWindow =
  pw_anchor_job_issued_at_ms :: i64
  pw_window_weight :: u128
  pw_page_size :: usize
  pw_pages :: "WindowPage list"
  pw_total_difficulty :: u128

definition eligible_at :: "i64 \<Rightarrow> AcceptedShare \<Rightarrow> bool" where
  "eligible_at anchor r \<longleftrightarrow> job_issued_at_ms r \<le> anchor \<and> accepted_at_ms r \<le> anchor"

definition not_after :: "u64 option \<Rightarrow> AcceptedShare \<Rightarrow> bool" where
  "not_after prior r = (case prior of None \<Rightarrow> False | Some seq \<Rightarrow> share_seq r \<le> seq)"

definition check_eligible ::
  "u64 option \<times> string set \<Rightarrow> AcceptedShare \<Rightarrow> WindowFoldError + u64 option \<times> string set" where
  "check_eligible st r =
     (let (prior, ids) = st in
      if not_after prior r then Inl FoldDuplicateShareSeq
      else if share_id r \<in> ids then Inl FoldDuplicateShareId
      else if share_difficulty r = 0 then Inl FoldNonPositiveDifficulty
      else Inr (Some (share_seq r), insert (share_id r) ids))"

text \<open>The loop from the newest record down: the records from \<open>start\<close> on are retained.\<close>

fun retain_from :: "u128 \<Rightarrow> AcceptedShare list \<Rightarrow> nat \<Rightarrow> u128 \<Rightarrow> WindowFoldError + nat \<times> u128" where
  "retain_from window_weight eligible 0 retained = Inr (0, retained)"
| "retain_from window_weight eligible (Suc index) retained =
     (if retained \<ge> window_weight then Inr (Suc index, retained)
      else rbind (ok_or (checked_add 128 retained (share_difficulty (eligible ! index))) FoldDifficultyOverflow) (\<lambda>total.
        retain_from window_weight eligible index total))"

definition from_full_snapshot ::
  "AcceptedShare list \<Rightarrow> i64 \<Rightarrow> u128 \<Rightarrow> usize \<Rightarrow> WindowFoldError + PayoutWindow" where
  "from_full_snapshot records anchor window_weight page_size =
     (if window_weight = 0 then Inl NonPositiveWindowWeight
      else if page_size = 0 then Inl NonPositivePageSize
      else
        let eligible = sort_key share_seq (filter (eligible_at anchor) records) in
        rbind (rfold check_eligible (None, {}) eligible) (\<lambda>_.
        rbind (retain_from window_weight eligible (length eligible) 0) (\<lambda>(start, retained_weight).
          Inr \<lparr> pw_anchor_job_issued_at_ms = anchor, pw_window_weight = window_weight, pw_page_size = page_size,
                pw_pages = map page_from_records (chunks page_size (drop start eligible)),
                pw_total_difficulty = retained_weight \<rparr>)))"

definition record_count :: "PayoutWindow \<Rightarrow> usize" where
  "record_count w = sum_list (map (\<lambda>page. length (pg_records page)) (pw_pages w))"

definition fragment_lengths :: "PayoutWindow \<Rightarrow> usize list" where
  "fragment_lengths w = concat (map (\<lambda>page. map length (pg_fragments page)) (pw_pages w))"

definition push_item :: "byte list \<times> bool \<Rightarrow> byte list \<Rightarrow> byte list \<times> bool" where
  "push_item st fragment = (let (out, needs_separator) = st in
     (out @ (if needs_separator then [0x2C] else []) @ fragment, True))"

definition canonical_items_bytes :: "PayoutWindow \<Rightarrow> byte list" where
  "canonical_items_bytes w =
     fst (foldl (\<lambda>st page. foldl push_item st (pg_fragments page)) ([], False) (pw_pages w))"

definition digest_page :: "byte list \<times> bool \<Rightarrow> WindowPage \<Rightarrow> byte list \<times> bool" where
  "digest_page st page =
     (let (out, needs_separator) = st in
      if pg_fragments page = [] then st
      else (fst (foldl push_item (out @ (if needs_separator then [0x2C] else []), False) (pg_fragments page)), True))"

definition canonical_digest_hex :: "crypto \<Rightarrow> PayoutWindow \<Rightarrow> string" where
  "canonical_digest_hex X w =
     concat (map fmt_02x (sha256 X (fst (foldl digest_page (as_bytes ''['', False) (pw_pages w)) @ as_bytes '']'')))"

definition shares_for_build :: "PayoutWindow \<Rightarrow> AcceptedShare list" where
  "shares_for_build w = concat (map pg_records (pw_pages w))"

section \<open>Advancing a window\<close>

record WindowAdvanceStats =
  added_rows :: usize
  expired_rows :: usize
  touched_pages :: usize

record WindowAdvanceByteDelta =
  retained_drop_bytes :: usize
  appended_items :: "byte list"

definition wrapping_sub :: "nat \<Rightarrow> nat \<Rightarrow> nat \<Rightarrow> nat" where
  "wrapping_sub w a b = (if b \<le> a then a - b else (a + 2 ^ w - b) mod 2 ^ w)"

definition check_delta ::
  "i64 \<Rightarrow> i64 \<Rightarrow> u64 option \<Rightarrow> u64 option \<Rightarrow> AcceptedShare \<Rightarrow> WindowAdvanceError + u64 option" where
  "check_delta old_anchor anchor prior_seq prior_delta_seq r =
     (if share_difficulty r = 0 then Inl NonPositiveDifficulty
      else if \<not> eligible_at anchor r then Inl IneligibleAtNewAnchor
      else if eligible_at old_anchor r then Inl RepeatsPreviouslyEligible
      else if not_after prior_seq r then Inl NotAnAppend
      else if not_after prior_delta_seq r then Inl DeltaOrderNotIncreasing
      else Inr (Some (share_seq r)))"

text \<open>
  The delta fills up the last page and then makes pages of its own. The last component says whether a page
  of the old window was rewritten.
\<close>

definition append_delta :: "usize \<Rightarrow> WindowPage list \<Rightarrow> AcceptedShare list \<Rightarrow> byte list list \<Rightarrow> WindowPage list \<times> bool" where
  "append_delta page_size pages delta fragments =
     (let merges = delta \<noteq> [] \<and> pages \<noteq> [] \<and> length (pg_records (last pages)) < page_size;
          taken = (if merges then min (page_size - length (pg_records (last pages))) (length delta) else 0);
          merged = (if merges then butlast pages @ [page_from_retained (pg_records (last pages) @ take taken delta)
                      (pg_fragments (last pages) @ take taken fragments)] else pages) in
      (merged @ map (\<lambda>(rs, fs). page_from_retained rs fs)
         (zip (chunks page_size (drop taken delta)) (chunks page_size (drop taken fragments))), merges))"

fun expire_pages :: "u128 \<Rightarrow> WindowPage list \<Rightarrow> u128 \<Rightarrow> usize \<Rightarrow> usize \<Rightarrow> WindowPage list \<times> u128 \<times> usize \<times> usize" where
  "expire_pages window_weight [] remaining expired first = ([], remaining, expired, first)"
| "expire_pages window_weight (page # pages) remaining expired first =
     (if wrapping_sub 128 remaining (pg_total_difficulty page) \<ge> window_weight
      then expire_pages window_weight pages (wrapping_sub 128 remaining (pg_total_difficulty page))
             (expired + length (pg_records page)) (Suc first)
      else (page # pages, remaining, expired, first))"

fun expire_records :: "u128 \<Rightarrow> AcceptedShare list \<Rightarrow> u128 \<Rightarrow> usize \<Rightarrow> u128 \<times> usize" where
  "expire_records window_weight [] remaining expired = (remaining, expired)"
| "expire_records window_weight (r # rs) remaining expired =
     (if wrapping_sub 128 remaining (share_difficulty r) \<ge> window_weight
      then expire_records window_weight rs (wrapping_sub 128 remaining (share_difficulty r)) (Suc expired)
      else (remaining, expired))"

definition skip_retained :: "nat \<Rightarrow> nat \<times> bool \<times> byte list \<Rightarrow> byte list \<Rightarrow> nat \<times> bool \<times> byte list" where
  "skip_retained retained_old st fragment =
     (let (skip, first, out) = st in
      if 0 < skip then (skip - 1, first, out)
      else (skip, False, out @ (if \<not> first \<or> 0 < retained_old then [0x2C] else []) @ fragment))"

definition advance_byte_delta :: "usize list \<Rightarrow> PayoutWindow \<Rightarrow> usize \<Rightarrow> usize \<Rightarrow> WindowAdvanceByteDelta" where
  "advance_byte_delta old_fragment_lengths advanced old_count expired =
     (let dropped_old = min expired old_count;
          retained_old = old_count - dropped_old;
          dropped_bytes = sum_list (take dropped_old old_fragment_lengths);
          drop_bytes = (if dropped_old = 0 then 0
            else if 0 < retained_old then dropped_bytes + dropped_old
            else dropped_bytes + (old_count - 1));
          surviving_new = wrapping_sub 64 (record_count advanced) retained_old;
          items = (if 0 < surviving_new
            then snd (snd (foldl (\<lambda>st page. foldl (skip_retained retained_old) st (pg_fragments page))
                   (retained_old, True, []) (pw_pages advanced)))
            else []) in
      \<lparr> retained_drop_bytes = drop_bytes, appended_items = items \<rparr>)"

text \<open>
  Expiry at the old edge: whole pages, then records of the first page left. Gives the pages, their
  difficulty, the number of expired records and the index of the page that was rewritten.
\<close>

definition expire_window :: "u128 \<Rightarrow> WindowPage list \<Rightarrow> u128 \<Rightarrow> WindowPage list \<times> u128 \<times> usize \<times> usize option" where
  "expire_window window_weight pages total_difficulty =
     (case expire_pages window_weight pages total_difficulty 0 0 of
        ([], remaining, expired, first) \<Rightarrow> ([], remaining, expired, None)
      | (page # rest, remaining, expired, first) \<Rightarrow>
          (case expire_records window_weight (pg_records page) remaining 0 of (remaining, partial_expired) \<Rightarrow>
             if 0 < partial_expired
             then (page_from_retained (drop partial_expired (pg_records page)) (drop partial_expired (pg_fragments page)) # rest,
                   remaining, expired + partial_expired, Some first)
             else (page # rest, remaining, expired, None)))"

definition touched_existing_pages :: "usize \<Rightarrow> bool \<Rightarrow> usize option \<Rightarrow> usize set" where
  "touched_existing_pages n merged rewritten =
     (if merged then {n - 1} else {}) \<union>
     (case rewritten of None \<Rightarrow> {} | Some index \<Rightarrow> if index < n then {index} else {})"

definition prior_share_seq :: "PayoutWindow \<Rightarrow> u64 option" where
  "prior_share_seq w =
     (if pw_pages w = [] \<or> pg_records (last (pw_pages w)) = [] then None
      else Some (share_seq (last (pg_records (last (pw_pages w))))))"

definition advance ::
  "PayoutWindow \<Rightarrow> AcceptedShare list \<Rightarrow> i64 \<Rightarrow>
     WindowAdvanceError + PayoutWindow \<times> WindowAdvanceStats \<times> WindowAdvanceByteDelta" where
  "advance w delta anchor =
     (if anchor < pw_anchor_job_issued_at_ms w then Inl AnchorMovedBackwards
      else
        rbind (rfold (check_delta (pw_anchor_job_issued_at_ms w) anchor (prior_share_seq w)) None delta) (\<lambda>_.
        rbind (try_sum 128 DifficultyOverflow (map share_difficulty delta)) (\<lambda>delta_difficulty.
        rbind (ok_or (checked_add 128 (pw_total_difficulty w) delta_difficulty) DifficultyOverflow) (\<lambda>total_difficulty.
        let (pages, merged) = append_delta (pw_page_size w) (pw_pages w) delta (map canonical_share_fragment delta);
            (pages, total_difficulty, expired, rewritten) = expire_window (pw_window_weight w) pages total_difficulty;
            advanced = \<lparr> pw_anchor_job_issued_at_ms = anchor, pw_window_weight = pw_window_weight w,
              pw_page_size = pw_page_size w, pw_pages = pages, pw_total_difficulty = total_difficulty \<rparr> in
        Inr (advanced,
          \<lparr> added_rows = length delta, expired_rows = expired,
            touched_pages = card (touched_existing_pages (length (pw_pages w)) merged rewritten) \<rparr>,
          advance_byte_delta (fragment_lengths w) advanced (length (fragment_lengths w)) expired)))))"

section \<open>The retained suffix\<close>

definition difficulty_sum :: "AcceptedShare list \<Rightarrow> nat" where
  "difficulty_sum rs = sum_list (map share_difficulty rs)"

fun keep :: "u128 \<Rightarrow> AcceptedShare list \<Rightarrow> AcceptedShare list" where
  "keep W [] = []"
| "keep W (r # rs) = (if W \<le> difficulty_sum rs then keep W rs else r # rs)"

lemma difficulty_sum_simps [simp]:
  "difficulty_sum [] = 0"
  "difficulty_sum (r # rs) = share_difficulty r + difficulty_sum rs"
  "difficulty_sum (rs @ qs) = difficulty_sum rs + difficulty_sum qs"
  by (simp_all add: difficulty_sum_def)

lemma difficulty_sum_concat: "difficulty_sum (concat xss) = sum_list (map difficulty_sum xss)"
  by (induction xss) simp_all

lemma keep_append: "W \<le> difficulty_sum ys \<Longrightarrow> keep W (xs @ ys) = keep W ys"
  by (induction xs) auto

lemma keep_drop: "\<exists>n. keep W xs = drop n xs"
proof (induction xs)
  case (Cons x xs)
  then obtain n where "keep W xs = drop n xs" by blast
  then have "keep W (x # xs) = drop (if W \<le> difficulty_sum xs then Suc n else 0) (x # xs)" by simp
  then show ?case by blast
qed simp

lemma keep_eq_drop: "keep W xs = drop (length xs - length (keep W xs)) xs"
proof -
  obtain n where "keep W xs = drop n xs" using keep_drop by blast
  then show ?thesis by (cases "n \<le> length xs") simp_all
qed

lemma set_keep: "set (keep W xs) \<subseteq> set xs"
  by (subst keep_eq_drop) (rule set_drop_subset)

lemma keep_idem [simp]: "keep W (keep W xs) = keep W xs"
  by (induction xs) auto

lemma keep_eq_Nil [simp]: "0 < W \<Longrightarrow> keep W xs = [] \<longleftrightarrow> xs = []"
  by (induction xs) auto

lemma last_keep: "0 < W \<Longrightarrow> xs \<noteq> [] \<Longrightarrow> last (keep W xs) = last xs"
  by (induction xs) auto

lemma keep_light: "difficulty_sum xs < W \<Longrightarrow> keep W xs = xs"
  by (cases xs) auto

lemma keep_heavy: "W \<le> difficulty_sum xs \<Longrightarrow> W \<le> difficulty_sum (keep W xs)"
  by (induction xs) auto

lemma difficulty_sum_keep: "difficulty_sum (keep W xs) \<le> difficulty_sum xs"
  by (induction xs) auto

lemma sorted_keep: "sorted_wrt P (map f xs) \<Longrightarrow> sorted_wrt P (map f (keep W xs))"
  by (induction xs) auto

lemma keep_keep_append: "keep W (keep W xs @ ys) = keep W (xs @ ys)"
  by (induction xs) (auto simp: keep_append)

lemma keep_suffix: "keep W ys = ys \<Longrightarrow> \<exists>zs. keep W (xs @ ys) = zs @ ys"
proof (induction xs)
  case (Cons x xs)
  then show ?case by (cases "W \<le> difficulty_sum (xs @ ys)") auto
qed simp

lemma retain_from_keep:
  assumes "n \<le> length E" and "keep W (drop n E) = drop n E" and "difficulty_sum (drop n E) < 2 ^ 128"
  shows "retain_from W E n (difficulty_sum (drop n E)) =
    (if difficulty_sum (keep W E) < 2 ^ 128
     then Inr (length E - length (keep W E), difficulty_sum (keep W E)) else Inl FoldDifficultyOverflow)"
  using assms
proof (induction n)
  case (Suc n)
  have E: "E = take (Suc n) E @ drop (Suc n) E" by simp
  have d: "drop n E = E ! n # drop (Suc n) E" using Suc.prems(1) by (simp add: Cons_nth_drop_Suc)
  show ?case
  proof (cases "W \<le> difficulty_sum (drop (Suc n) E)")
    case True
    then have "keep W E = drop (Suc n) E"
      using keep_append[OF True, of "take (Suc n) E"] Suc.prems(2) by simp
    then show ?thesis using True Suc.prems by simp
  next
    case False
    then have k: "keep W (drop n E) = drop n E" by (simp add: d)
    show ?thesis
    proof (cases "difficulty_sum (drop n E) < 2 ^ 128")
      case True
      then show ?thesis
        using Suc.IH[OF _ k True] Suc.prems(1) False by (simp add: d checked_add_def add.commute)
    next
      case over: False
      obtain zs where "keep W E = zs @ drop n E"
        using keep_suffix[OF k, of "take n E"] by auto
      then show ?thesis using over False by (simp add: d checked_add_def add.commute)
    qed
  qed
qed simp

section \<open>The full snapshot\<close>

lemma check_eligible_Inr:
  "(\<exists>st. rfold check_eligible (prior, ids) rs = Inr st) \<longleftrightarrow>
     sorted_wrt (<) (map share_seq rs) \<and> (\<forall>r\<in>set rs. \<not> not_after prior r \<and> share_id r \<notin> ids \<and> 0 < share_difficulty r) \<and>
     distinct (map share_id rs)"
proof (induction rs arbitrary: prior ids)
  case (Cons r rs)
  show ?case
  proof (cases "\<not> not_after prior r \<and> share_id r \<notin> ids \<and> 0 < share_difficulty r")
    case True
    then have eq: "rfold check_eligible (prior, ids) (r # rs) = rfold check_eligible (Some (share_seq r), insert (share_id r) ids) rs"
      by (simp add: check_eligible_def)
    then show ?thesis
      using True unfolding eq Cons.IH by (auto simp: not_after_def not_le intro: rev_image_eqI split: option.splits)
  next
    case False
    then show ?thesis by (auto simp: check_eligible_def)
  qed
qed simp

definition snapshot_order :: "i64 \<Rightarrow> AcceptedShare list \<Rightarrow> AcceptedShare list" where
  "snapshot_order anchor rs = sort_key share_seq (filter (eligible_at anchor) rs)"

definition snapshot_of :: "i64 \<Rightarrow> u128 \<Rightarrow> usize \<Rightarrow> AcceptedShare list \<Rightarrow> PayoutWindow" where
  "snapshot_of anchor W p rs =
     \<lparr> pw_anchor_job_issued_at_ms = anchor, pw_window_weight = W, pw_page_size = p,
       pw_pages = map page_from_records (chunks p rs), pw_total_difficulty = difficulty_sum rs \<rparr>"

lemma from_full_snapshot_Inr:
  "from_full_snapshot rs anchor W p = Inr w \<longleftrightarrow>
     0 < W \<and> 0 < p \<and> sorted_wrt (<) (map share_seq (snapshot_order anchor rs)) \<and>
     distinct (map share_id (snapshot_order anchor rs)) \<and> (\<forall>r\<in>set (snapshot_order anchor rs). 0 < share_difficulty r) \<and>
     difficulty_sum (keep W (snapshot_order anchor rs)) < 2 ^ 128 \<and>
     w = snapshot_of anchor W p (keep W (snapshot_order anchor rs))"
proof -
  let ?E = "snapshot_order anchor rs"
  have r: "retain_from W ?E (length ?E) 0 =
    (if difficulty_sum (keep W ?E) < 2 ^ 128
     then Inr (length ?E - length (keep W ?E), difficulty_sum (keep W ?E)) else Inl FoldDifficultyOverflow)"
    using retain_from_keep[of "length ?E" ?E W] by simp
  have c: "(\<exists>st. rfold check_eligible (None, {}) ?E = Inr st) \<longleftrightarrow>
      sorted_wrt (<) (map share_seq ?E) \<and> distinct (map share_id ?E) \<and> (\<forall>r\<in>set ?E. 0 < share_difficulty r)"
    unfolding check_eligible_Inr by (auto simp: not_after_def)
  show ?thesis
    unfolding from_full_snapshot_def snapshot_order_def[symmetric] Let_def r
    using c keep_eq_drop[of W ?E] by (auto simp: rbind_Inr snapshot_of_def)
qed

section \<open>Pages\<close>

definition page_ok :: "usize \<Rightarrow> WindowPage \<Rightarrow> bool" where
  "page_ok p page \<longleftrightarrow> pg_records page \<noteq> [] \<and> length (pg_records page) \<le> p \<and>
     pg_fragments page = map canonical_share_fragment (pg_records page) \<and>
     pg_total_difficulty page = difficulty_sum (pg_records page)"

definition page_records :: "WindowPage list \<Rightarrow> AcceptedShare list" where
  "page_records pages = concat (map pg_records pages)"

lemma page_records_simps [simp]:
  "page_records [] = []"
  "page_records (page # pages) = pg_records page @ page_records pages"
  "page_records (pages @ pages') = page_records pages @ page_records pages'"
  by (simp_all add: page_records_def)

lemma saturating_total_exact: "difficulty_sum rs < 2 ^ 128 \<Longrightarrow> saturating_total rs = difficulty_sum rs"
proof (induction rs rule: rev_induct)
  case (snoc r rs)
  then show ?case by (simp add: saturating_total_def saturating_add_def)
qed (simp add: saturating_total_def)

lemma page_from_retained_ok:
  "rs \<noteq> [] \<Longrightarrow> length rs \<le> p \<Longrightarrow> difficulty_sum rs < 2 ^ 128 \<Longrightarrow>
   page_ok p (page_from_retained rs (map canonical_share_fragment rs))"
  by (simp add: page_ok_def page_from_retained_def saturating_total_exact)

lemma page_from_records_retained: "page_from_records rs = page_from_retained rs (map canonical_share_fragment rs)"
  by (simp add: page_from_records_def page_from_retained_def)

lemma pg_records_retained [simp]: "pg_records (page_from_retained rs fs) = rs"
  by (simp add: page_from_retained_def)

lemma chunks_map: "chunks p (map f xs) = map (map f) (chunks p xs)"
proof (induction p xs rule: chunks.induct)
  case (1 p xs)
  then show ?case by (cases "p = 0 \<or> xs = []") (simp_all add: chunks.simps[of p] take_map drop_map)
qed

lemma difficulty_sum_member: "xs \<in> set xss \<Longrightarrow> difficulty_sum xs \<le> difficulty_sum (concat xss)"
  by (auto simp: difficulty_sum_concat intro: member_le_sum_list)

lemma chunk_pages_ok:
  assumes "0 < p" and "difficulty_sum rs < 2 ^ 128"
  shows "list_all (page_ok p) (map page_from_records (chunks p rs))"
    and "page_records (map page_from_records (chunks p rs)) = rs"
proof -
  have "page_ok p (page_from_records c)" if c: "c \<in> set (chunks p rs)" for c
    unfolding page_from_records_retained
    using chunks_bound[OF c] difficulty_sum_member[OF c] assms
    by (intro page_from_retained_ok) (auto simp: concat_chunks)
  then show "list_all (page_ok p) (map page_from_records (chunks p rs))"
    by (simp add: list_all_iff)
  show "page_records (map page_from_records (chunks p rs)) = rs"
    using assms(1) by (simp add: page_records_def comp_def page_from_records_retained concat_chunks)
qed

lemma zip_chunks_pages:
  "map (\<lambda>(rs, fs). page_from_retained rs fs) (zip (chunks p rs) (chunks p (map canonical_share_fragment rs))) =
   map page_from_records (chunks p rs)"
  by (simp add: chunks_map zip_map2 zip_same_conv_map comp_def page_from_records_retained)

lemma append_delta_ok:
  assumes ok: "list_all (page_ok p) pages" and p: "0 < p"
    and w: "difficulty_sum (page_records pages @ delta) < 2 ^ 128"
    and r: "append_delta p pages delta (map canonical_share_fragment delta) = (pages', merged)"
  shows "list_all (page_ok p) pages' \<and> page_records pages' = page_records pages @ delta"
proof (cases "delta \<noteq> [] \<and> pages \<noteq> [] \<and> length (pg_records (last pages)) < p")
  case True
  then obtain front l where pages: "pages = front @ [l]" by (metis rev_exhaust)
  define n where "n = min (p - length (pg_records l)) (length delta)"
  have l: "page_ok p l" and f: "list_all (page_ok p) front" using ok pages by auto
  have w': "difficulty_sum (pg_records l) + difficulty_sum (take n delta) + difficulty_sum (drop n delta) < 2 ^ 128"
    using w pages append_take_drop_id[of n delta] difficulty_sum_simps(3)[of "take n delta" "drop n delta"] by simp
  have pages': "pages' = front @ [page_from_retained (pg_records l @ take n delta)
      (map canonical_share_fragment (pg_records l @ take n delta))] @ map page_from_records (chunks p (drop n delta))"
    using r l unfolding append_delta_def Let_def if_P[OF True]
    by (simp add: pages n_def[symmetric] take_map drop_map zip_chunks_pages page_ok_def)
  have "page_ok p (page_from_retained (pg_records l @ take n delta)
      (map canonical_share_fragment (pg_records l @ take n delta)))"
    using l w' by (intro page_from_retained_ok) (auto simp: page_ok_def n_def)
  then show ?thesis
    using f w' chunk_pages_ok[OF p, of "drop n delta"] unfolding pages' by (simp add: pages)
next
  case False
  then have "pages' = pages @ map page_from_records (chunks p delta)"
    using r unfolding append_delta_def Let_def by (auto simp: zip_chunks_pages)
  then show ?thesis using ok w chunk_pages_ok[OF p, of delta] by simp
qed

section \<open>Expiry\<close>

lemma wrapping_sub_exact [simp]: "b \<le> a \<Longrightarrow> wrapping_sub w a b = a - b"
  by (simp add: wrapping_sub_def)

lemma expire_pages_keep:
  assumes "list_all (page_ok p) pages"
    and "expire_pages W pages (difficulty_sum (page_records pages)) expired first = (pages', remaining, expired', first')"
  shows "list_all (page_ok p) pages' \<and> remaining = difficulty_sum (page_records pages') \<and>
    keep W (page_records pages') = keep W (page_records pages) \<and>
    length (page_records pages) + expired = length (page_records pages') + expired' \<and>
    (case pages' of [] \<Rightarrow> True | page # rest \<Rightarrow> difficulty_sum (page_records rest) < W)"
  using assms
proof (induction pages arbitrary: expired first)
  case (Cons page pages)
  have t: "pg_total_difficulty page = difficulty_sum (pg_records page)" using Cons.prems(1) by (simp add: page_ok_def)
  show ?case
  proof (cases "W \<le> difficulty_sum (page_records pages)")
    case True
    then show ?thesis
      using Cons.IH[of "expired + length (pg_records page)" "Suc first"] Cons.prems by (auto simp: t keep_append)
  next
    case False
    then show ?thesis using Cons.prems by (auto simp: t)
  qed
qed simp

lemma expire_records_keep:
  assumes "expire_records W rs (difficulty_sum (rs @ rest)) e = (remaining, k)"
    and "difficulty_sum rest < W" and "rs \<noteq> []"
  shows "e \<le> k \<and> keep W (rs @ rest) = drop (k - e) rs @ rest \<and> k - e < length rs \<and>
    remaining = difficulty_sum (drop (k - e) rs @ rest)"
  using assms
proof (induction rs arbitrary: e)
  case (Cons r rs)
  show ?case
  proof (cases "W \<le> difficulty_sum (rs @ rest)")
    case True
    then have "rs \<noteq> []" using Cons.prems(2) by auto
    moreover have "expire_records W rs (difficulty_sum (rs @ rest)) (Suc e) = (remaining, k)"
      using Cons.prems(1) True by simp
    ultimately have "Suc e \<le> k \<and> keep W (rs @ rest) = drop (k - Suc e) rs @ rest \<and> k - Suc e < length rs \<and>
        remaining = difficulty_sum (drop (k - Suc e) rs @ rest)"
      using Cons.IH Cons.prems(2) by blast
    moreover from this have "k - e = Suc (k - Suc e)" by arith
    ultimately show ?thesis using True by simp
  next
    case False
    then show ?thesis using Cons.prems by auto
  qed
qed simp

section \<open>The canonical stream\<close>

fun join_items :: "byte list list \<Rightarrow> byte list" where
  "join_items [] = []"
| "join_items (f # fs) = f @ concat (map ((#) 0x2C) fs)"

lemma push_items:
  "foldl push_item (out, sep) fs =
     (out @ (if sep then concat (map ((#) 0x2C) fs) else join_items fs), sep \<or> fs \<noteq> [])"
proof (induction fs arbitrary: out sep)
  case (Cons f fs)
  then show ?case by (cases sep) (simp_all add: push_item_def)
qed simp

lemma fold_pages: "foldl (\<lambda>st page. foldl g st (h page)) st pages = foldl g st (concat (map h pages))"
  by (induction pages arbitrary: st) simp_all

lemma join_items_append:
  "join_items (fs @ gs) = join_items fs @ (if fs = [] then join_items gs else concat (map ((#) 0x2C) gs))"
  by (cases fs) simp_all

lemma canonical_items_join: "canonical_items_bytes w = join_items (concat (map pg_fragments (pw_pages w)))"
  unfolding canonical_items_bytes_def fold_pages push_items by simp

lemma digest_pages:
  "fst (foldl digest_page (out, sep) pages) =
     out @ (if sep then concat (map ((#) 0x2C) (concat (map pg_fragments pages))) else join_items (concat (map pg_fragments pages)))"
proof (induction pages arbitrary: out sep)
  case (Cons page pages)
  show ?case
  proof (cases "pg_fragments page")
    case Nil
    then show ?thesis using Cons by (simp add: digest_page_def)
  next
    case nonempty: (Cons f fs)
    then have "digest_page (out, sep) page = (out @ (if sep then [0x2C] else []) @ join_items (pg_fragments page), True)"
      by (simp add: digest_page_def push_items[of _ False "pg_fragments page", unfolded nonempty] del: foldl_Cons)
    then show ?thesis using Cons.IH nonempty by simp
  qed
qed simp

lemma canonical_digest_items:
  "canonical_digest_hex X w = concat (map fmt_02x (sha256 X (as_bytes ''['' @ canonical_items_bytes w @ as_bytes '']'')))"
  unfolding canonical_digest_hex_def digest_pages canonical_items_join by simp

lemma skip_retained_items:
  "k \<le> length fs \<Longrightarrow> snd (snd (foldl (skip_retained m) (k, first, out) fs)) =
     out @ (if \<not> first \<or> 0 < m then concat (map ((#) 0x2C) (drop k fs)) else join_items (drop k fs))"
proof (induction fs arbitrary: k first out)
  case (Cons f fs)
  then show ?case by (cases k) (auto simp: skip_retained_def)
qed simp

lemma join_items_drop:
  "n < length fs \<Longrightarrow> drop (sum_list (map length (take n fs)) + n) (join_items fs) = join_items (drop n fs)"
proof (induction fs arbitrary: n)
  case (Cons f fs)
  show ?case
  proof (cases n)
    case (Suc m)
    then obtain g gs where fs: "fs = g # gs" using Cons.prems by (cases fs) auto
    have "drop (Suc (length f)) (join_items (f # fs)) = join_items fs" by (simp add: fs)
    then have "drop (Suc (length f) + (sum_list (map length (take m fs)) + m)) (join_items (f # fs)) = join_items (drop m fs)"
      using Cons.IH[of m] Cons.prems Suc by (metis drop_drop add.commute Suc_less_eq length_Cons)
    then show ?thesis using Suc by (simp add: add.commute add.left_commute)
  qed simp
qed simp

lemma join_items_length: "fs \<noteq> [] \<Longrightarrow> length (join_items fs) = sum_list (map length fs) + (length fs - 1)"
proof -
  have "length (concat (map ((#) (0x2C :: byte)) gs)) = sum_list (map length gs) + length gs" for gs
    by (induction gs) simp_all
  then show "fs \<noteq> [] \<Longrightarrow> ?thesis" by (cases fs) simp_all
qed

section \<open>Well-formed windows\<close>

definition window_ok :: "PayoutWindow \<Rightarrow> bool" where
  "window_ok w \<longleftrightarrow>
     0 < pw_window_weight w \<and> 0 < pw_page_size w \<and> list_all (page_ok (pw_page_size w)) (pw_pages w) \<and>
     pw_total_difficulty w = difficulty_sum (shares_for_build w) \<and> difficulty_sum (shares_for_build w) < 2 ^ 128 \<and>
     sorted_wrt (<) (map share_seq (shares_for_build w)) \<and>
     list_all (\<lambda>r. 0 < share_difficulty r \<and> eligible_at (pw_anchor_job_issued_at_ms w) r) (shares_for_build w) \<and>
     keep (pw_window_weight w) (shares_for_build w) = shares_for_build w"

lemma shares_page_records: "shares_for_build w = page_records (pw_pages w)"
  by (simp add: shares_for_build_def page_records_def)

lemma window_fragments:
  "list_all (page_ok p) pages \<Longrightarrow> concat (map pg_fragments pages) = map canonical_share_fragment (page_records pages)"
  by (induction pages) (simp_all add: page_ok_def)

lemma window_items:
  "window_ok w \<Longrightarrow> canonical_items_bytes w = join_items (map canonical_share_fragment (shares_for_build w))"
  unfolding canonical_items_join shares_page_records window_ok_def using window_fragments by metis

lemma fragment_lengths_map:
  "window_ok w \<Longrightarrow> fragment_lengths w = map (length \<circ> canonical_share_fragment) (shares_for_build w)"
proof -
  assume "window_ok w"
  then have "map length (concat (map pg_fragments (pw_pages w))) = map length (map canonical_share_fragment (shares_for_build w))"
    using window_fragments[of "pw_page_size w" "pw_pages w"] by (simp add: window_ok_def shares_page_records)
  then show ?thesis by (simp add: fragment_lengths_def map_concat comp_def)
qed

lemma record_count_length: "record_count w = length (shares_for_build w)"
  by (simp add: record_count_def shares_for_build_def length_concat comp_def)

lemma prior_share_seq_last:
  "list_all (page_ok p) (pw_pages w) \<Longrightarrow>
   prior_share_seq w = (if shares_for_build w = [] then None else Some (share_seq (last (shares_for_build w))))"
  by (cases "pw_pages w" rule: rev_cases) (auto simp: prior_share_seq_def shares_page_records page_ok_def)

lemma snapshot_of_ok:
  assumes "0 < W" "0 < p" "difficulty_sum rs < 2 ^ 128" "keep W rs = rs" "sorted_wrt (<) (map share_seq rs)"
    and "\<forall>r\<in>set rs. 0 < share_difficulty r \<and> eligible_at anchor r"
  shows "window_ok (snapshot_of anchor W p rs) \<and> shares_for_build (snapshot_of anchor W p rs) = rs"
  using assms chunk_pages_ok[of p rs]
  by (simp add: window_ok_def snapshot_of_def shares_page_records list_all_iff)

section \<open>One advance\<close>

lemma check_delta_Inr:
  "(\<exists>st. rfold (check_delta old anchor prior) pd rs = Inr st) \<longleftrightarrow>
     sorted_wrt (<) (map share_seq rs) \<and>
     (\<forall>r\<in>set rs. 0 < share_difficulty r \<and> eligible_at anchor r \<and> \<not> eligible_at old r \<and> \<not> not_after prior r \<and> \<not> not_after pd r)"
proof (induction rs arbitrary: pd)
  case (Cons r rs)
  show ?case
  proof (cases "0 < share_difficulty r \<and> eligible_at anchor r \<and> \<not> eligible_at old r \<and> \<not> not_after prior r \<and> \<not> not_after pd r")
    case True
    then have eq: "rfold (check_delta old anchor prior) pd (r # rs) = rfold (check_delta old anchor prior) (Some (share_seq r)) rs"
      by (simp add: check_delta_def)
    have "not_after pd x = (not_after pd x \<and> \<not> share_seq r < share_seq x)" for x
      using True by (auto simp: not_after_def split: option.splits)
    then show ?thesis
      using True unfolding eq Cons.IH by (auto simp: not_after_def[of "Some _"] not_le)
  next
    case False
    then show ?thesis by (auto simp: check_delta_def)
  qed
qed simp

lemma expire_window_keep:
  assumes ok: "list_all (page_ok p) pages" and W: "0 < W" and s: "difficulty_sum (page_records pages) < 2 ^ 128"
    and r: "expire_window W pages (difficulty_sum (page_records pages)) = (pages', remaining, expired, rewritten)"
  shows "list_all (page_ok p) pages' \<and> page_records pages' = keep W (page_records pages) \<and>
    remaining = difficulty_sum (page_records pages') \<and> length (page_records pages) = length (page_records pages') + expired"
proof -
  obtain pages1 rem1 exp1 first where
    e: "expire_pages W pages (difficulty_sum (page_records pages)) 0 0 = (pages1, rem1, exp1, first)"
    using prod_cases4 by blast
  note e' = expire_pages_keep[OF ok e]
  show ?thesis
  proof (cases pages1)
    case Nil
    then show ?thesis using r e e' by (simp add: expire_window_def)
  next
    case (Cons page rest)
    obtain k where k: "expire_records W (pg_records page) rem1 0 = (remaining, k)"
      using r e Cons by (auto simp: expire_window_def split: prod.splits if_splits)
    have page: "page_ok p page" and rest: "difficulty_sum (page_records rest) < W" and ok': "list_all (page_ok p) rest"
      using e' Cons by auto
    have kp: "keep W (pg_records page @ page_records rest) = drop k (pg_records page) @ page_records rest"
      "k < length (pg_records page)" "remaining = difficulty_sum (drop k (pg_records page) @ page_records rest)"
      using expire_records_keep[of W "pg_records page" "page_records rest" 0 remaining k] k e' Cons rest page
      by (auto simp: page_ok_def)
    have kk: "keep W (page_records pages) = drop k (pg_records page) @ page_records rest"
      and len: "length (page_records pages) = length (pg_records page) + length (page_records rest) + exp1"
      using e' Cons kp(1) by simp_all
    then have "difficulty_sum (drop k (pg_records page)) \<le> difficulty_sum (page_records pages)"
      using difficulty_sum_keep[of W "page_records pages"] by simp
    then have "page_ok p (page_from_retained (drop k (pg_records page)) (map canonical_share_fragment (drop k (pg_records page))))"
      using page kp(2) s by (intro page_from_retained_ok) (auto simp: page_ok_def)
    then have "page_ok p (page_from_retained (drop k (pg_records page)) (drop k (pg_fragments page)))"
      using page by (simp add: page_ok_def[of _ page] drop_map)
    then show ?thesis
      using r e k kp(2,3) page ok' Cons len by (auto simp: expire_window_def kk split: if_splits)
  qed
qed

lemma sorted_after_last:
  assumes "sorted_wrt (<) (map share_seq xs)" and "sorted_wrt (<) (map share_seq ys)"
    and "xs \<noteq> [] \<Longrightarrow> \<forall>y\<in>set ys. share_seq (last xs) < share_seq y"
  shows "sorted_wrt (<) (map share_seq (xs @ ys))"
proof (cases xs rule: rev_cases)
  case (snoc zs z)
  then show ?thesis using assms by (fastforce simp: sorted_wrt_append)
qed (use assms in simp)

lemma advance_steps:
  assumes ok: "window_ok w" and a: "advance w delta anchor = Inr (w', stats, bytes)"
  obtains pages merged pages' remaining expired rewritten st
  where "pw_anchor_job_issued_at_ms w \<le> anchor"
    and "rfold (check_delta (pw_anchor_job_issued_at_ms w) anchor (prior_share_seq w)) None delta = Inr st"
    and "difficulty_sum (shares_for_build w @ delta) < 2 ^ 128"
    and "append_delta (pw_page_size w) (pw_pages w) delta (map canonical_share_fragment delta) = (pages, merged)"
    and "expire_window (pw_window_weight w) pages (difficulty_sum (shares_for_build w @ delta)) = (pages', remaining, expired, rewritten)"
    and "w' = \<lparr> pw_anchor_job_issued_at_ms = anchor, pw_window_weight = pw_window_weight w, pw_page_size = pw_page_size w,
           pw_pages = pages', pw_total_difficulty = remaining \<rparr>"
    and "added_rows stats = length delta" and "expired_rows stats = expired"
    and "touched_pages stats = card (touched_existing_pages (length (pw_pages w)) merged rewritten)"
    and "bytes = advance_byte_delta (fragment_lengths w) w' (length (fragment_lengths w)) expired"
proof -
  have t: "pw_total_difficulty w = difficulty_sum (shares_for_build w)" using ok by (simp add: window_ok_def)
  show thesis
    using a that unfolding advance_def
    by (auto simp: rbind_Inr res_simps checked_add_def t difficulty_sum_def[symmetric] Let_def split: if_splits prod.splits)
qed

lemma advance_Inr:
  assumes ok: "window_ok w" and a: "advance w delta anchor = Inr (w', stats, bytes)"
  shows "pw_anchor_job_issued_at_ms w \<le> anchor \<and> sorted_wrt (<) (map share_seq (shares_for_build w @ delta)) \<and>
    (\<forall>r\<in>set delta. 0 < share_difficulty r \<and> eligible_at anchor r \<and> \<not> eligible_at (pw_anchor_job_issued_at_ms w) r)"
    and "pw_anchor_job_issued_at_ms w' = anchor \<and> pw_window_weight w' = pw_window_weight w \<and> pw_page_size w' = pw_page_size w"
    and "shares_for_build w' = keep (pw_window_weight w) (shares_for_build w @ delta)"
    and "window_ok w'"
    and "added_rows stats = length delta" "length (shares_for_build w @ delta) = length (shares_for_build w') + expired_rows stats"
    and "bytes = advance_byte_delta (fragment_lengths w) w' (length (fragment_lengths w)) (expired_rows stats)"
proof -
  let ?W = "pw_window_weight w" and ?p = "pw_page_size w" and ?a = "pw_anchor_job_issued_at_ms w" and ?K = "shares_for_build w"
  note w = ok[unfolded window_ok_def]
  obtain pages merged pages' remaining expired rewritten st where
    anchor: "?a \<le> anchor" and st: "rfold (check_delta ?a anchor (prior_share_seq w)) None delta = Inr st"
    and sum: "difficulty_sum (?K @ delta) < 2 ^ 128"
    and m: "append_delta ?p (pw_pages w) delta (map canonical_share_fragment delta) = (pages, merged)"
    and e: "expire_window ?W pages (difficulty_sum (?K @ delta)) = (pages', remaining, expired, rewritten)"
    and w': "w' = \<lparr> pw_anchor_job_issued_at_ms = anchor, pw_window_weight = ?W, pw_page_size = ?p,
           pw_pages = pages', pw_total_difficulty = remaining \<rparr>"
    and stats: "added_rows stats = length delta" "expired_rows stats = expired"
    and bytes: "bytes = advance_byte_delta (fragment_lengths w) w' (length (fragment_lengths w)) expired"
    by (rule advance_steps[OF ok a])
  have d: "sorted_wrt (<) (map share_seq delta)"
    "\<forall>r\<in>set delta. 0 < share_difficulty r \<and> eligible_at anchor r \<and> \<not> eligible_at ?a r \<and> \<not> not_after (prior_share_seq w) r"
    using st check_delta_Inr[of ?a anchor "prior_share_seq w" None delta] by auto
  have sorted: "sorted_wrt (<) (map share_seq (?K @ delta))"
    using w d prior_share_seq_last[of ?p w] by (intro sorted_after_last) (auto simp: not_after_def)
  have pages: "list_all (page_ok ?p) pages \<and> page_records pages = ?K @ delta"
    using append_delta_ok[OF _ _ _ m] w sum by (simp add: shares_page_records)
  have e': "list_all (page_ok ?p) pages' \<and> page_records pages' = keep ?W (?K @ delta) \<and>
      remaining = difficulty_sum (page_records pages') \<and> length (?K @ delta) = length (page_records pages') + expired"
    using expire_window_keep[of ?p pages ?W] pages w sum e by metis
  show "?a \<le> anchor \<and> sorted_wrt (<) (map share_seq (?K @ delta)) \<and>
      (\<forall>r\<in>set delta. 0 < share_difficulty r \<and> eligible_at anchor r \<and> \<not> eligible_at ?a r)"
    using anchor sorted d by blast
  show "pw_anchor_job_issued_at_ms w' = anchor \<and> pw_window_weight w' = ?W \<and> pw_page_size w' = ?p"
    by (simp add: w')
  show shares: "shares_for_build w' = keep ?W (?K @ delta)" using e' by (simp add: w' shares_page_records)
  have "sorted_wrt (<) (map share_seq (keep ?W (?K @ delta)))"
    by (rule sorted_keep[OF sorted])
  moreover have "0 < share_difficulty r \<and> eligible_at anchor r" if "r \<in> set (keep ?W (?K @ delta))" for r
    using that set_keep[of ?W "?K @ delta"] w d anchor by (fastforce simp: list_all_iff eligible_at_def)
  ultimately show "window_ok w'"
    using w e' sum difficulty_sum_keep[of ?W "?K @ delta"] unfolding window_ok_def shares
    by (simp add: w' list_all_iff)
  show "added_rows stats = length delta" "length (?K @ delta) = length (shares_for_build w') + expired_rows stats"
    "bytes = advance_byte_delta (fragment_lengths w) w' (length (fragment_lengths w)) (expired_rows stats)"
    using stats bytes e' by (simp_all add: shares)
qed

lemma advance_bytes:
  assumes ok: "window_ok w" and a: "advance w delta anchor = Inr (w', stats, bytes)"
  shows "canonical_items_bytes w' = drop (retained_drop_bytes bytes) (canonical_items_bytes w) @ appended_items bytes"
    and "retained_drop_bytes bytes \<le> length (canonical_items_bytes w)"
proof -
  let ?f = "map canonical_share_fragment"
  define K e where "K = shares_for_build w" and "e = expired_rows stats"
  note adv = advance_Inr[OF ok a]
  have K': "shares_for_build w' = drop e K @ drop (e - length K) delta"
    using adv(6) keep_eq_drop[of "pw_window_weight w" "K @ delta"] adv(3) by (simp add: K_def e_def)
  have frags: "concat (map pg_fragments (pw_pages w')) = ?f (shares_for_build w')"
    using adv(4) window_fragments[of "pw_page_size w'" "pw_pages w'"] by (simp add: window_ok_def shares_page_records)
  have bytes: "bytes = advance_byte_delta (map length (?f K)) w' (length K) e"
    using adv(7) ok by (simp add: fragment_lengths_map K_def e_def)
  have drops: "drop (retained_drop_bytes bytes) (canonical_items_bytes w) = join_items (drop e (?f K))"
  proof (cases "e < length K")
    case True
    then show ?thesis
      using join_items_drop[of e "?f K"] unfolding window_items[OF ok] K_def[symmetric] bytes advance_byte_delta_def Let_def
      by (simp add: min_absorb1 take_map)
  next
    case False
    then show ?thesis
      using join_items_length[of "?f K"] unfolding window_items[OF ok] K_def[symmetric] bytes advance_byte_delta_def Let_def
      by (cases K) (simp_all add: min_absorb2)
  qed
  have apps: "appended_items bytes = (if e < length K then concat (map ((#) 0x2C) (?f (drop (e - length K) delta)))
      else join_items (?f (drop (e - length K) delta)))"
    using skip_retained_items[of "length K - min e (length K)" "?f (shares_for_build w')" "length K - min e (length K)" True "[]"]
    unfolding bytes advance_byte_delta_def Let_def fold_pages frags record_count_length
    by (cases "e < length K") (auto simp: K' min_absorb1 min_absorb2)
  show "canonical_items_bytes w' = drop (retained_drop_bytes bytes) (canonical_items_bytes w) @ appended_items bytes"
    unfolding drops apps window_items[OF adv(4)] K' by (simp add: join_items_append drop_map)
  have "sum_list (take n (map length (?f K))) \<le> sum_list (map length (?f K))" for n
    by (metis append_take_drop_id le_add1 sum_list_append)
  note prefix_bytes = this[of "min e (length K)"]
  show "retained_drop_bytes bytes \<le> length (canonical_items_bytes w)"
    using prefix_bytes join_items_length[of "?f K"]
    unfolding window_items[OF ok] K_def[symmetric] bytes advance_byte_delta_def Let_def
    by (cases K) (auto simp: min_def split: if_splits)
qed

lemma advance_ok:
  assumes ok: "window_ok w"
  shows "is_ok (advance w delta anchor) \<longleftrightarrow>
    pw_anchor_job_issued_at_ms w \<le> anchor \<and> sorted_wrt (<) (map share_seq (shares_for_build w @ delta)) \<and>
    (\<forall>r\<in>set delta. 0 < share_difficulty r \<and> eligible_at anchor r \<and> \<not> eligible_at (pw_anchor_job_issued_at_ms w) r) \<and>
    difficulty_sum (shares_for_build w @ delta) < 2 ^ 128"
    (is "?ok \<longleftrightarrow> ?c")
proof
  assume ?ok
  then obtain w' stats bytes where a: "advance w delta anchor = Inr (w', stats, bytes)"
    by (auto simp: is_ok_iff)
  then show ?c using advance_Inr(1)[OF ok a] advance_steps[OF ok a] by metis
next
  assume c: ?c
  let ?K = "shares_for_build w"
  have w: "pw_total_difficulty w = difficulty_sum ?K" "list_all (page_ok (pw_page_size w)) (pw_pages w)"
    using ok by (auto simp: window_ok_def)
  have "\<not> not_after (prior_share_seq w) r" if r: "r \<in> set delta" for r
    using c r by (auto simp: prior_share_seq_last[OF w(2)] not_after_def sorted_wrt_append not_le dest!: last_in_set)
  then have "\<exists>st. rfold (check_delta (pw_anchor_job_issued_at_ms w) anchor (prior_share_seq w)) None delta = Inr st"
    unfolding check_delta_Inr using c by (auto simp: sorted_wrt_append not_after_def[of None])
  moreover have "try_sum 128 DifficultyOverflow (map share_difficulty delta) = Inr (difficulty_sum delta)"
    using c by (simp add: try_sum_Inr difficulty_sum_def[symmetric])
  ultimately show ?ok
    using c w(1) unfolding advance_def by (auto simp: is_ok_iff checked_add_def Let_def split: prod.splits)
qed

lemma advance_touches:
  assumes "window_ok w" and "advance w delta anchor = Inr (w', stats, bytes)"
  shows "touched_pages stats \<le> 2"
proof -
  have "card (touched_existing_pages n m r) \<le> 2" for n m r
    unfolding touched_existing_pages_def by (rule order_trans[OF card_Un_le]) (auto split: option.splits)
  then show ?thesis using advance_steps[OF assms] by metis
qed

section \<open>Histories of a window\<close>

text \<open>
  How a window came about: a snapshot, then any number of advances. The list holds every record
  that was eligible so far, retained or not.
\<close>

inductive window_history :: "AcceptedShare list \<Rightarrow> PayoutWindow \<Rightarrow> bool" where
  snapshot: "from_full_snapshot rs anchor W p = Inr w \<Longrightarrow> window_history (filter (eligible_at anchor) rs) w"
| advanced: "window_history seen w \<Longrightarrow> advance w delta anchor = Inr (w', stats, bytes) \<Longrightarrow> window_history (seen @ delta) w'"

lemma sort_key_strict:
  fixes f :: "'a \<Rightarrow> nat"
  assumes "mset xs = mset ys" and "sorted_wrt (<) (map f ys)"
  shows "sort_key f xs = ys"
proof (rule sort_key_inj_key_eq[OF assms(1)])
  have "distinct (map f ys)" "sorted (map f ys)"
    using assms(2) by (simp_all add: strict_sorted_iff)
  then show "inj_on f (set xs)" "sorted (map f ys)"
    using mset_eq_setD[OF assms(1)] by (simp_all add: distinct_map)
qed

lemma window_history_inv:
  assumes "window_history seen w"
  shows "window_ok w \<and> (\<forall>r\<in>set seen. 0 < share_difficulty r \<and> eligible_at (pw_anchor_job_issued_at_ms w) r) \<and>
    sorted_wrt (<) (map share_seq (sort_key share_seq seen)) \<and>
    shares_for_build w = keep (pw_window_weight w) (sort_key share_seq seen)"
  using assms
proof induction
  case (snapshot rs anchor W p w)
  let ?E = "snapshot_order anchor rs"
  note s = snapshot[unfolded from_full_snapshot_Inr]
  have E: "?E = sort_key share_seq (filter (eligible_at anchor) rs)" by (simp add: snapshot_order_def)
  have "window_ok (snapshot_of anchor W p (keep W ?E)) \<and> shares_for_build (snapshot_of anchor W p (keep W ?E)) = keep W ?E"
    using s set_keep[of W ?E] by (intro snapshot_of_ok) (auto intro: sorted_keep simp: E)
  then show ?case using s by (auto simp: E snapshot_of_def)
next
  case (advanced seen w delta anchor w' stats bytes)
  let ?S = "sort_key share_seq seen" and ?W = "pw_window_weight w"
  from advanced.IH have ok: "window_ok w" and K: "shares_for_build w = keep ?W ?S" and S: "sorted_wrt (<) (map share_seq ?S)"
    by auto
  note a = advance_Inr[OF ok advanced.hyps(2)]
  have W: "0 < ?W" using ok by (simp add: window_ok_def)
  have sorted: "sorted_wrt (<) (map share_seq (?S @ delta))"
  proof (rule sorted_after_last[OF S])
    show "sorted_wrt (<) (map share_seq delta)" using a(1) by (simp add: sorted_wrt_append)
    show "\<forall>y\<in>set delta. share_seq (last ?S) < share_seq y" if "?S \<noteq> []"
      using a(1) last_keep[OF W that] last_in_set[of "keep ?W ?S"] W that by (auto simp: sorted_wrt_append K)
  qed
  have sd: "sort_key share_seq (seen @ delta) = ?S @ delta"
    by (rule sort_key_strict[OF _ sorted]) simp
  have "eligible_at anchor r" if "r \<in> set seen" for r
    using advanced.IH a(1) that by (fastforce simp: eligible_at_def)
  then show ?case
    using a(1-4) advanced.IH sorted unfolding sd by (auto simp: K keep_keep_append)
qed

lemma windows_agree:
  assumes "window_ok v" and "window_ok w" and "shares_for_build v = shares_for_build w"
  shows "pw_total_difficulty v = pw_total_difficulty w \<and> canonical_items_bytes v = canonical_items_bytes w \<and>
    canonical_digest_hex X v = canonical_digest_hex X w"
  using assms by (simp add: canonical_digest_items window_items) (simp add: window_ok_def)

section \<open>Declared widths\<close>

fun in_width :: "DeclaredWidth \<Rightarrow> int \<Rightarrow> bool" where
  "in_width U32 i = (0 \<le> i \<and> i < 2 ^ 32)"
| "in_width U64 i = (0 \<le> i \<and> i < 2 ^ 64)"
| "in_width U128 i = (0 \<le> i \<and> i < 2 ^ 128)"
| "in_width I64 i = (- (2 ^ 63) \<le> i \<and> i < 2 ^ 63)"

definition literal_value :: "string \<Rightarrow> int" where
  "literal_value s = (case strip_char CHR ''-'' s of Some digits \<Rightarrow> - int (digits_value digits) | None \<Rightarrow> int (digits_value s))"

lemma plus_no_digit: "all_digits s \<Longrightarrow> strip_char CHR ''+'' s = None"
  by (auto simp: all_digits_def strip_char_def is_digit_def split: list.splits)

lemma minus_no_digit: "strip_char CHR ''-'' s = Some digits \<Longrightarrow> \<not> all_digits s \<and> strip_char CHR ''+'' s = None"
  by (auto simp: all_digits_def strip_char_def is_digit_def split: list.splits if_splits)

lemma parse_unsigned_literal:
  assumes "is_integer_literal s"
  shows "parse_unsigned w s \<noteq> None \<longleftrightarrow> strip_char CHR ''-'' s = None \<and> literal_value s < 2 ^ w"
proof (cases "strip_char CHR ''-'' s")
  case None
  have "int n < 2 ^ w \<longleftrightarrow> n < 2 ^ w" for n by (metis of_nat_less_iff of_nat_numeral of_nat_power)
  then show ?thesis
    using assms None by (simp add: is_integer_literal_def parse_unsigned_def literal_value_def plus_no_digit Let_def)
next
  case (Some digits)
  then show ?thesis using minus_no_digit[OF Some] by (simp add: parse_unsigned_def Let_def)
qed

lemma parse_signed_literal:
  "is_integer_literal s \<Longrightarrow> parse_signed 64 s \<noteq> None \<longleftrightarrow> in_width I64 (literal_value s)"
proof (cases "strip_char CHR ''-'' s")
  case None
  assume "is_integer_literal s"
  with None have "all_digits s" by (simp add: is_integer_literal_def)
  then show ?thesis using None by (auto simp: parse_signed_def parse_unsigned_def literal_value_def Let_def plus_no_digit)
next
  case (Some digits)
  assume "is_integer_literal s"
  with Some have "all_digits digits" by (simp add: is_integer_literal_def)
  then show ?thesis using Some by (auto simp: parse_signed_def literal_value_def)
qed

lemma width_admits_iff:
  assumes "is_integer_literal s"
  shows "width_admits w s \<longleftrightarrow> in_width w (literal_value s) \<and> (w = I64 \<or> strip_char CHR ''-'' s = None)"
proof -
  have "strip_char CHR ''-'' s = None \<Longrightarrow> 0 \<le> literal_value s" by (simp add: literal_value_def)
  then show ?thesis
    using parse_unsigned_literal[OF assms] parse_signed_literal[OF assms] by (cases w) auto
qed

lemma find_map_None: "find_map f xs = None \<longleftrightarrow> (\<forall>x\<in>set xs. f x = None)"
  by (induction xs) (auto split: option.splits)

lemma find_map_Some: "find_map f xs = Some y \<Longrightarrow> \<exists>x\<in>set xs. f x = Some y"
  by (induction xs) (auto split: option.splits)

definition representable :: "DeclaredWidth \<Rightarrow> string option \<Rightarrow> bool" where
  "representable width number =
     (case number of None \<Rightarrow> True
      | Some s \<Rightarrow> (if is_integer_literal s
          then in_width width (literal_value s) \<and> (width = I64 \<or> strip_char CHR ''-'' s = None) else True))"

lemma out_of_range_field_None: "out_of_range_field number field width = None \<longleftrightarrow> representable width number"
  using width_admits_iff
  by (auto simp: out_of_range_field_def representable_def split: option.splits simp del: width_admits.simps in_width.simps)

lemma ball_enumerate: "(\<forall>x\<in>set (enumerate n rs). P (snd x)) \<longleftrightarrow> (\<forall>r\<in>set rs. P r)"
  by (induction rs arbitrary: n) simp_all

lemma out_of_range_field_Some:
  "out_of_range_field number field width = Some found \<Longrightarrow>
     orf_field found = field \<and> number = Some (orf_literal found) \<and> orf_width found = width \<and>
     is_integer_literal (orf_literal found) \<and> \<not> width_admits width (orf_literal found)"
  by (auto simp: out_of_range_field_def split: option.splits if_splits)

section \<open>A concrete window\<close>

definition stamped :: "u64 \<Rightarrow> u128 \<Rightarrow> i64 \<Rightarrow> AcceptedShare" where
  "stamped seq difficulty at =
     \<lparr> share_seq = seq, share_id = show_nat seq, miner_id = ''m'', s_order_key = ''k'', s_p2mr_program_hex = ''ab'',
       share_difficulty = difficulty, job_issued_at_ms = at, accepted_at_ms = at, credit_policy = None,
       s_network_difficulty = 1, template_height = 1, job_id = ''j'', ntime = 1 \<rparr>"

lemma stamped_simps [simp]:
  "share_seq (stamped seq difficulty at) = seq" "share_id (stamped seq difficulty at) = show_nat seq"
  "share_difficulty (stamped seq difficulty at) = difficulty"
  "eligible_at anchor (stamped seq difficulty at) \<longleftrightarrow> at \<le> anchor"
  by (simp_all add: stamped_def eligible_at_def)

definition demo_rows :: "AcceptedShare list" where
  "demo_rows = [stamped 2 5 10, stamped 1 4 10, stamped 4 7 20, stamped 3 6 10]"

definition demo_payout_window :: PayoutWindow where
  "demo_payout_window = snapshot_of 10 8 2 [stamped 2 5 10, stamped 3 6 10]"

lemma demo_history:
  "window_history [stamped 2 5 10, stamped 1 4 10, stamped 3 6 10] demo_payout_window"
proof -
  have o: "snapshot_order 10 demo_rows = [stamped 1 4 10, stamped 2 5 10, stamped 3 6 10]"
    by (simp add: snapshot_order_def demo_rows_def)
  have "from_full_snapshot demo_rows 10 8 2 = Inr demo_payout_window"
    by (simp add: from_full_snapshot_Inr o demo_payout_window_def show_nat.simps)
  from window_history.snapshot[OF this] show ?thesis by (simp add: demo_rows_def)
qed

lemma demo_advance:
  obtains w stats bytes where "advance demo_payout_window [stamped 4 7 20] 20 = Inr (w, stats, bytes)"
    and "pw_anchor_job_issued_at_ms w = 20" "pw_window_weight w = 8" "pw_page_size w = 2"
    and "window_history [stamped 2 5 10, stamped 1 4 10, stamped 3 6 10, stamped 4 7 20] w"
proof -
  have ok: "window_ok demo_payout_window" and K: "shares_for_build demo_payout_window = [stamped 2 5 10, stamped 3 6 10]"
    using window_history_inv[OF demo_history] by (simp_all add: demo_payout_window_def snapshot_of_def)
  have "is_ok (advance demo_payout_window [stamped 4 7 20] 20)"
    unfolding advance_ok[OF ok] K by (simp add: demo_payout_window_def snapshot_of_def)
  then obtain w stats bytes where a: "advance demo_payout_window [stamped 4 7 20] 20 = Inr (w, stats, bytes)"
    by (auto simp: is_ok_iff)
  show thesis
  proof (rule that[OF a])
    show "pw_anchor_job_issued_at_ms w = 20" "pw_window_weight w = 8" "pw_page_size w = 2"
      using advance_Inr(2)[OF ok a] by (simp_all add: demo_payout_window_def snapshot_of_def)
    show "window_history [stamped 2 5 10, stamped 1 4 10, stamped 3 6 10, stamped 4 7 20] w"
      using window_history.advanced[OF demo_history a] by simp
  qed
qed

section \<open>Properties\<close>

text \<open>C9. A window reached by any number of advances has the records, the difficulty, the canonical
  stream and the digest of a full snapshot taken now, whatever order the rows come in.\<close>

theorem advances_refine_snapshot:
  assumes h: "window_history seen w"
    and rs: "mset (filter (eligible_at (pw_anchor_job_issued_at_ms w)) rs) = mset seen"
    and ids: "distinct (map share_id seen)"
  shows "\<exists>v. from_full_snapshot rs (pw_anchor_job_issued_at_ms w) (pw_window_weight w) (pw_page_size w) = Inr v \<and>
    shares_for_build v = shares_for_build w \<and> pw_total_difficulty v = pw_total_difficulty w \<and>
    canonical_items_bytes v = canonical_items_bytes w \<and> canonical_digest_hex X v = canonical_digest_hex X w"
proof -
  let ?a = "pw_anchor_job_issued_at_ms w" and ?W = "pw_window_weight w" and ?p = "pw_page_size w"
  let ?S = "sort_key share_seq seen" and ?E = "snapshot_order (pw_anchor_job_issued_at_ms w) rs"
  note i = window_history_inv[OF h]
  have E: "?E = ?S" unfolding snapshot_order_def using i rs by (intro sort_key_strict) auto
  have d: "distinct (map share_id ?S)" using ids by (simp add: distinct_map)
  have "difficulty_sum (keep ?W ?S) < 2 ^ 128" "0 < ?W" "0 < ?p"
    using i by (auto simp: window_ok_def)
  then have v: "from_full_snapshot rs ?a ?W ?p = Inr (snapshot_of ?a ?W ?p (keep ?W ?S))"
    unfolding from_full_snapshot_Inr E using i d by auto
  then have "window_ok (snapshot_of ?a ?W ?p (keep ?W ?S)) \<and> shares_for_build (snapshot_of ?a ?W ?p (keep ?W ?S)) = keep ?W ?S"
    using window_history_inv[OF window_history.snapshot[OF v]] E by (simp add: snapshot_order_def snapshot_of_def)
  then show ?thesis using v i windows_agree[of "snapshot_of ?a ?W ?p (keep ?W ?S)" w X] by auto
qed

theorem advances_refine_snapshot_witness:
  "\<exists>w v. shares_for_build w = [stamped 3 6 10, stamped 4 7 20] \<and> from_full_snapshot demo_rows 20 8 2 = Inr v \<and>
     shares_for_build v = shares_for_build w \<and> canonical_digest_hex demo_crypto v = canonical_digest_hex demo_crypto w"
proof -
  obtain w stats bytes where a: "pw_anchor_job_issued_at_ms w = 20" "pw_window_weight w = 8" "pw_page_size w = 2"
    and h: "window_history [stamped 2 5 10, stamped 1 4 10, stamped 3 6 10, stamped 4 7 20] w"
    using demo_advance by metis
  have rows: "filter (eligible_at 20) demo_rows = demo_rows" by (simp add: demo_rows_def)
  have m: "mset (filter (eligible_at (pw_anchor_job_issued_at_ms w)) demo_rows) =
      mset [stamped 2 5 10, stamped 1 4 10, stamped 3 6 10, stamped 4 7 20]"
    unfolding a rows by (simp add: demo_rows_def)
  have "shares_for_build w = [stamped 3 6 10, stamped 4 7 20]"
    using window_history_inv[OF h] by (simp add: a)
  then show ?thesis
    using advances_refine_snapshot[OF h m, of demo_crypto, unfolded a] by (simp add: show_nat.simps) blast
qed

text \<open>C25. Every window that is reached is well formed: pages of one to page-size records with their
  fragments and exact totals, a total below 2 ^ 128, increasing sequence numbers, positive difficulties, records
  eligible at the anchor; and it retains the shortest suffix of all eligible records that reaches the weight.\<close>

theorem window_history_ok:
  assumes "window_history seen w"
  shows "window_ok w \<and> shares_for_build w = keep (pw_window_weight w) (sort_key share_seq seen)"
  using window_history_inv[OF assms] by blast

theorem window_history_ok_witness:
  "window_ok demo_payout_window \<and> shares_for_build demo_payout_window = [stamped 2 5 10, stamped 3 6 10]"
  using window_history_ok[OF demo_history] by (simp add: demo_payout_window_def snapshot_of_def)

text \<open>C26. Dropping the given number of bytes from the canonical stream and appending the given ones
  gives the stream of the advanced window; the counts balance and at most two old pages are touched.\<close>

theorem advance_edits_stream:
  assumes h: "window_history seen w" and a: "advance w delta anchor = Inr (w', stats, bytes)"
  shows "canonical_items_bytes w' = drop (retained_drop_bytes bytes) (canonical_items_bytes w) @ appended_items bytes \<and>
    retained_drop_bytes bytes \<le> length (canonical_items_bytes w) \<and>
    added_rows stats = length delta \<and> record_count w + added_rows stats = record_count w' + expired_rows stats \<and>
    touched_pages stats \<le> 2"
proof -
  have ok: "window_ok w" using window_history_inv[OF h] by blast
  note adv = advance_Inr[OF ok a]
  have "touched_pages stats \<le> 2" by (rule advance_touches[OF ok a])
  then show ?thesis
    using advance_bytes[OF ok a] adv(5,6) by (simp add: record_count_length)
qed

theorem advance_edits_stream_witness:
  "\<exists>w stats bytes. advance demo_payout_window [stamped 4 7 20] 20 = Inr (w, stats, bytes) \<and>
     canonical_items_bytes w = drop (retained_drop_bytes bytes) (canonical_items_bytes demo_payout_window) @ appended_items bytes"
proof -
  obtain w stats bytes where a: "advance demo_payout_window [stamped 4 7 20] 20 = Inr (w, stats, bytes)"
    using demo_advance by metis
  then show ?thesis using advance_edits_stream[OF demo_history a] by blast
qed

text \<open>A request is out of range exactly when some integer literal in a checked field is not a value
  of its width; a minus sign is only admitted for signed fields.\<close>

lemma out_of_range_exact:
  "prepare_window_out_of_range request records = None \<longleftrightarrow>
     list_all (\<lambda>(field, width). representable width (request field)) PREPARE_WINDOW_REQUEST_WIDTHS \<and>
     (case records of None \<Rightarrow> True
      | Some rs \<Rightarrow> list_all (\<lambda>r. list_all (\<lambda>(field, width). representable width (r field)) ACCEPTED_SHARE_WIDTHS) rs)"
proof -
  let ?top = "find_map (\<lambda>(field, width). out_of_range_field (request field) field width) PREPARE_WINDOW_REQUEST_WIDTHS"
  have top: "?top = None \<longleftrightarrow> list_all (\<lambda>(field, width). representable width (request field)) PREPARE_WINDOW_REQUEST_WIDTHS"
    by (simp add: find_map_None out_of_range_field_None case_prod_beta list_all_iff)
  have rows: "find_map (\<lambda>(index, record). find_map (\<lambda>(field, width).
        out_of_range_field (record field) (''records['' @ show_nat index @ ''].'' @ field) width) ACCEPTED_SHARE_WIDTHS) (enumerate 0 rs) = None \<longleftrightarrow>
      list_all (\<lambda>r. list_all (\<lambda>(field, width). representable width (r field)) ACCEPTED_SHARE_WIDTHS) rs" for rs
    using ball_enumerate[of 0 rs "\<lambda>r. \<forall>x\<in>set ACCEPTED_SHARE_WIDTHS. representable (snd x) (r (fst x))"]
    by (simp add: find_map_None out_of_range_field_None case_prod_beta list_all_iff)
  show ?thesis
    unfolding top[symmetric] prepare_window_out_of_range_def by (cases ?top; cases records) (simp_all add: rows[simplified])
qed

end
