(* ===== verification/Broadcast.thy ===== *)
theory Broadcast
  imports Ctv_Lifecycle Maturity
begin

text \<open>
  The broadcaster's primitives (\<^verbatim>\<open>src/crates/qbit-prism/src/broadcast.rs\<close>): the unsigned child that pays for a
  fan-out without fee by spending its anchor, the package for the node, and the status of a fan-out as a
  function of the chain. The property at the end joins the child with the manifest of its parent.
\<close>

section \<open>The child\<close>

definition CPFP_CHILD_TX_VERSION :: u32 where "CPFP_CHILD_TX_VERSION = CTV_FANOUT_TX_VERSION"

definition CPFP_CHILD_SEQUENCE :: u32 where "CPFP_CHILD_SEQUENCE = 0xfffffffd"

record CpfpChildRequest =
  cr_fanout_txid :: string
  cr_anchor_vout :: u32
  cr_funding_txid :: string
  cr_funding_vout :: u32
  cr_funding_value_sats :: u64
  cr_fee_sats :: u64
  cr_change_script_pubkey_hex :: string

record CpfpChild =
  cc_unsigned_child_tx_hex :: string
  cc_change_value_sats :: u64
  cc_fee_sats :: u64

definition decode_txid :: "crypto \<Rightarrow> string \<Rightarrow> string \<Rightarrow> PrismError + byte list" where
  "decode_txid X txid field_name =
     rbind (map_err (\<lambda>err. InvalidCtvFanoutManifest (field_name @ '' must be hex: '' @ err)) (hex_decode X txid)) (\<lambda>bytes.
       if length bytes = 32 then Inr bytes
       else Inl (InvalidCtvFanoutManifest (field_name @ '' must be 32 bytes, got '' @ show_nat (length bytes))))"

definition child_compact_size :: "u64 \<Rightarrow> byte list" where
  "child_compact_size n =
     (if n < 253 then [of_nat n]
      else if n \<le> 2 ^ 16 - 1 then 0xfd # le_bytes 2 n
      else if n \<le> 2 ^ 32 - 1 then 0xfe # le_bytes 4 n
      else 0xff # le_bytes 8 n)"

definition child_serialize_input :: "byte list \<Rightarrow> u32 \<Rightarrow> byte list" where
  "child_serialize_input display_txid index =
     rev display_txid @ le_bytes 4 index @ [0] @ le_bytes 4 CPFP_CHILD_SEQUENCE"

definition child_serialize_output :: "u64 \<Rightarrow> byte list \<Rightarrow> byte list" where
  "child_serialize_output value_sats script =
     le_bytes 8 value_sats @ child_compact_size (length script) @ script"

definition build_cpfp_child :: "crypto \<Rightarrow> CpfpChildRequest \<Rightarrow> PrismError + CpfpChild" where
  "build_cpfp_child X r =
     rbind (decode_txid X (cr_fanout_txid r) ''fanout_txid'') (\<lambda>fanout_txid.
     rbind (decode_txid X (cr_funding_txid r) ''funding_txid'') (\<lambda>funding_txid.
     if fanout_txid = funding_txid \<and> cr_anchor_vout r = cr_funding_vout r
     then Inl (InvalidCtvFanoutManifest ''funding input must differ from the anchor outpoint'')
     else
       rbind (map_err (\<lambda>err. InvalidCtvFanoutManifest (''change_script_pubkey_hex must be hex: '' @ err))
                (hex_decode X (cr_change_script_pubkey_hex r))) (\<lambda>change_script_pubkey.
       if change_script_pubkey = [] then Inl (InvalidCtvFanoutManifest ''change scriptPubKey must not be empty'')
       else if cr_fee_sats r = 0 then Inl (InvalidCtvFanoutManifest ''CPFP fee must be positive'')
       else if cr_fee_sats r \<ge> cr_funding_value_sats r
       then Inl (InvalidCtvFanoutManifest ''funding value must exceed the fee so the change output is positive'')
       else
         let change_value_sats = cr_funding_value_sats r - cr_fee_sats r;
             tx = le_bytes 4 CPFP_CHILD_TX_VERSION @ child_compact_size 2 @
               child_serialize_input fanout_txid (cr_anchor_vout r) @
               child_serialize_input funding_txid (cr_funding_vout r) @ child_compact_size 1 @
               child_serialize_output change_value_sats change_script_pubkey @ le_bytes 4 0 in
         Inr \<lparr> cc_unsigned_child_tx_hex = hex_encode X tx, cc_change_value_sats = change_value_sats,
               cc_fee_sats = cr_fee_sats r \<rparr>)))"

definition fanout_cpfp_package :: "string \<Rightarrow> string \<Rightarrow> string list" where
  "fanout_cpfp_package parent_fanout_tx_hex signed_child_tx_hex = [parent_fanout_tx_hex, signed_child_tx_hex]"

section \<open>The status of a fan-out\<close>

datatype FanoutSettlementStatus = Reorged | AwaitingMaturity | Broadcastable | Confirmed

definition fanout_settlement_status :: "u64 \<Rightarrow> u64 \<Rightarrow> bool \<Rightarrow> bool \<Rightarrow> FanoutSettlementStatus" where
  "fanout_settlement_status coinbase_height active_tip_height coinbase_in_active_chain fanout_confirmed =
     (if fanout_confirmed then Confirmed
      else if \<not> coinbase_in_active_chain then Reorged
      else if active_tip_height < saturating_add 64 coinbase_height QBIT_COINBASE_MATURITY_BLOCKS then AwaitingMaturity
      else Broadcastable)"

section \<open>Reading the child\<close>

lemma child_compact_size_eq: "child_compact_size = compact_size"
  by (rule ext) (simp add: child_compact_size_def compact_size_def)

lemma decode_txid_Inr: "decode_txid X s field = Inr bs \<longleftrightarrow> hex_decode X s = Inr bs \<and> length bs = 32"
  by (auto simp: decode_txid_def res_simps)

definition child_input :: "crypto \<Rightarrow> byte list \<Rightarrow> u32 \<Rightarrow> ParsedTxIn" where
  "child_input X txid index = \<lparr> ti_prev_txid_hex = hex_encode X txid, ti_prev_vout = index, ti_script_sig = [],
     ti_sequence = CPFP_CHILD_SEQUENCE \<rparr>"

lemma child_input_ok:
  assumes "hex_law X" "length txid = 32" "index < 2 ^ 32"
  shows "tx_in_ok X (child_input X txid index)" "tx_in_bytes X (child_input X txid index) = child_serialize_input txid index"
  using assms by (simp_all add: tx_in_ok_def tx_in_bytes_def prev_txid_bytes_def child_input_def hex_decode_encode
      CPFP_CHILD_SEQUENCE_def child_serialize_input_def tx_in_tail_def compact_size_def)

lemma build_cpfp_child_Inr:
  "build_cpfp_child X r = Inr c \<longleftrightarrow>
     (\<exists>fanout funding script. hex_decode X (cr_fanout_txid r) = Inr fanout \<and> length fanout = 32 \<and>
        hex_decode X (cr_funding_txid r) = Inr funding \<and> length funding = 32 \<and>
        \<not> (fanout = funding \<and> cr_anchor_vout r = cr_funding_vout r) \<and>
        hex_decode X (cr_change_script_pubkey_hex r) = Inr script \<and> script \<noteq> [] \<and>
        0 < cr_fee_sats r \<and> cr_fee_sats r < cr_funding_value_sats r \<and>
        c = \<lparr> cc_unsigned_child_tx_hex = hex_encode X (le_bytes 4 CPFP_CHILD_TX_VERSION @ compact_size 2 @
                child_serialize_input fanout (cr_anchor_vout r) @ child_serialize_input funding (cr_funding_vout r) @
                compact_size 1 @ child_serialize_output (cr_funding_value_sats r - cr_fee_sats r) script @ le_bytes 4 0),
              cc_change_value_sats = cr_funding_value_sats r - cr_fee_sats r, cc_fee_sats = cr_fee_sats r \<rparr>)"
  unfolding build_cpfp_child_def child_compact_size_eq
  by (auto simp: rbind_Inr decode_txid_Inr map_err_Inr if_Inl_Inr Let_def not_le)

text \<open>A request whose fields are values of their widths and whose funding is within the money supply.\<close>

definition cpfp_request_ok :: "CpfpChildRequest \<Rightarrow> bool" where
  "cpfp_request_ok r \<longleftrightarrow> cr_anchor_vout r < 2 ^ 32 \<and> cr_funding_vout r < 2 ^ 32 \<and>
     cr_funding_value_sats r \<le> QBIT_MAX_MONEY_SATS \<and> length (cr_change_script_pubkey_hex r) < 2 ^ 64"

lemma cpfp_child_parses:
  assumes hex: "hex_law X" "hex_text_law X" and c: "build_cpfp_child X r = Inr c" and w: "cpfp_request_ok r"
  obtains fanout funding script tx where
    "hex_decode X (cr_fanout_txid r) = Inr fanout" "hex_decode X (cr_funding_txid r) = Inr funding"
    "hex_decode X (cr_change_script_pubkey_hex r) = Inr script"
    "parse_transaction_hex X (cc_unsigned_child_tx_hex c) field = Inr tx"
    "pt_version tx = CPFP_CHILD_TX_VERSION" "pt_lock_time tx = 0" "pt_witness_stacks tx = None"
    "pt_inputs tx = [child_input X fanout (cr_anchor_vout r), child_input X funding (cr_funding_vout r)]"
    "pt_outputs tx = [\<lparr> to_amount_sats = cc_change_value_sats c, to_script_pubkey = script \<rparr>]"
    "cc_change_value_sats c + cc_fee_sats c = cr_funding_value_sats r" "cc_fee_sats c = cr_fee_sats r"
    "pt_inputs tx ! 0 \<noteq> pt_inputs tx ! 1"
proof -
  obtain fanout funding script where f: "hex_decode X (cr_fanout_txid r) = Inr fanout" "length fanout = 32"
      "hex_decode X (cr_funding_txid r) = Inr funding" "length funding = 32"
      "hex_decode X (cr_change_script_pubkey_hex r) = Inr script"
    and differ: "\<not> (fanout = funding \<and> cr_anchor_vout r = cr_funding_vout r)"
    and fee: "0 < cr_fee_sats r" "cr_fee_sats r < cr_funding_value_sats r"
    and child: "c = \<lparr> cc_unsigned_child_tx_hex = hex_encode X (le_bytes 4 CPFP_CHILD_TX_VERSION @ compact_size 2 @
          child_serialize_input fanout (cr_anchor_vout r) @ child_serialize_input funding (cr_funding_vout r) @
          compact_size 1 @ child_serialize_output (cr_funding_value_sats r - cr_fee_sats r) script @ le_bytes 4 0),
        cc_change_value_sats = cr_funding_value_sats r - cr_fee_sats r, cc_fee_sats = cr_fee_sats r \<rparr>"
    using c[unfolded build_cpfp_child_Inr] by blast
  let ?ins = "[child_input X fanout (cr_anchor_vout r), child_input X funding (cr_funding_vout r)]"
  let ?outs = "[\<lparr> to_amount_sats = cr_funding_value_sats r - cr_fee_sats r, to_script_pubkey = script \<rparr>]"
  have ins: "tx_in_ok X i" if "i \<in> set ?ins" for i using that w f hex by (auto simp: cpfp_request_ok_def intro: child_input_ok)
  have "length script < 2 ^ 64" using decoded_length[OF hex f(5)] w by (simp add: cpfp_request_ok_def)
  then have ok: "tx_parts_ok X ?ins ?outs" using w ins by (auto simp: tx_parts_ok_def tx_out_ok_def cpfp_request_ok_def)
  have bytes: "tx_bytes X CPFP_CHILD_TX_VERSION [] ?ins ?outs [] 0 = le_bytes 4 CPFP_CHILD_TX_VERSION @ compact_size 2 @
      child_serialize_input fanout (cr_anchor_vout r) @ child_serialize_input funding (cr_funding_vout r) @
      compact_size 1 @ child_serialize_output (cr_funding_value_sats r - cr_fee_sats r) script @ le_bytes 4 0"
    using w f hex by (simp add: tx_bytes_def tx_body_def child_input_ok cpfp_request_ok_def child_serialize_output_def
        child_compact_size_eq serialize_tx_out_def numeral_2_eq_2)
  define tx where "tx = \<lparr> pt_version = CPFP_CHILD_TX_VERSION, pt_inputs = ?ins, pt_outputs = ?outs, pt_lock_time = 0,
      pt_witness_stacks = None, pt_tx_without_witness = tx_bytes X CPFP_CHILD_TX_VERSION [] ?ins ?outs [] 0 \<rparr>"
  have "parse_transaction X (tx_bytes X CPFP_CHILD_TX_VERSION [] ?ins ?outs [] 0) field = Inr tx"
    unfolding tx_def by (rule parse_tx_bytes[OF hex(1) ok]) (simp_all add: CPFP_CHILD_TX_VERSION_def CTV_FANOUT_TX_VERSION_def)
  then have p: "parse_transaction_hex X (cc_unsigned_child_tx_hex c) field = Inr tx"
    by (simp add: parse_transaction_hex_def child bytes hex_decode_encode[OF hex(1)])
  have "?ins ! 0 \<noteq> ?ins ! 1" using differ hex_encode_inj[OF hex(1)] by (auto simp: child_input_def)
  then show thesis using fee by (intro that[OF f(1,3,5) p]) (simp_all add: child tx_def)
qed

text \<open>A broadcastable fan-out is one whose maturity entries mature at the same tip.\<close>

lemma broadcastable_iff_mature:
  assumes "state e = Immature"
  shows "fanout_settlement_status (me_block_height e) tip True False = Broadcastable \<longleftrightarrow>
    map state (update_maturity_states [e] tip) = [Mature]"
  using assms by (simp add: fanout_settlement_status_def update_maturity_states_def maturity_height_def not_less)

section \<open>A fan-out without fee\<close>

definition free_payout :: "string \<Rightarrow> nat \<Rightarrow> CtvFanoutPayout" where
  "free_payout name n = demo_payout name n \<lparr> cp_gross_amount_sats := n, cp_fee_sats := 0 \<rparr>"

definition free_fanout_input :: CtvFanoutPrecommitmentInput where
  "free_fanout_input = demo_fanout_input \<lparr> ci_payouts := [free_payout ''amy'' 300] \<rparr>"

lemma free_input_valid: "validate_fanout_input demo_crypto free_fanout_input ''precommitment'' = Inr ()"
  using demo_input_valid by (simp add: validate_fanout_input_def free_fanout_input_def)

lemma free_input_outputs:
  obtains outs where "canonical_fanout_outputs demo_crypto (ci_payouts free_fanout_input) = Inr outs"
    "map fo_amount_sats outs = [300]" "map fo_fee_sats outs = [0]"
proof -
  have canon: "canonical_payout demo_crypto (free_payout ''amy'' 300) = Inr (free_payout ''amy'' 300)"
    by (simp add: canonical_payout_def free_payout_def demo_payout_def canonical_p2mr_program_hex_def decode_program_hex_def
        P2MR_PROGRAM_LEN_def demo_decode_encode del: map_replicate)
  have prog: "p2mr_program_hex (free_payout name n) = hex_encode demo_crypto (replicate 32 0xb2)" "length (replicate 32 (0xb2 :: byte)) = 32"
    for name n by (simp_all add: free_payout_def demo_payout_def)
  note step = fanout_output_step_Inr[OF demo_crypto_hex prog]
  have "\<exists>seen outs. rfold (fanout_output_step demo_crypto) ({}, []) (enumerate 0 [free_payout ''amy'' 300]) =
      Inr (seen, outs) \<and> map fo_amount_sats outs = [300] \<and> map fo_fee_sats outs = [0]"
    by (simp add: rbind_Inr step del: demo_crypto_simps map_replicate) (simp add: free_payout_def demo_payout_def)
  moreover have "rmap (canonical_payout demo_crypto) [free_payout ''amy'' 300] = Inr [free_payout ''amy'' 300]"
    by (simp add: canon)
  moreover have "sort_key payout_sort_key [free_payout ''amy'' 300] = [free_payout ''amy'' 300]" by simp
  moreover have pay: "ci_payouts free_fanout_input = [free_payout ''amy'' 300]" by (simp add: free_fanout_input_def)
  ultimately show thesis using that unfolding canonical_fanout_outputs_def pay
    by (auto simp only: reject_if_def list.distinct if_False rbind.simps prod.case list.map sum.inject)
qed

lemma prepared_fee_sum:
  assumes "prepare_ctv_fanout_precommitment X to_vec input = Inr prep"
  shows "pc_fanout_fee_sats (pr_precommitment prep) = sum_list (map fo_fee_sats (pc_outputs (pr_precommitment prep)))"
  using assms unfolding prepare_ctv_fanout_precommitment_def Let_def by (auto simp: rbind_Inr fanout_sum_Inr)

section \<open>Properties\<close>

text \<open>C24. A fan-out that verifies with an anchor can be paid for by anybody who can fund a fee. The
  child for it is read as a version 3 transaction that spends the zero-valued anchor of exactly that fan-out
  and the funding output, returns the funding value less the fee, and no satoshi more, and pays nothing else.\<close>

theorem cpfp_child_spends_anchor:
  assumes laws: "hex_law X" "hex_text_law X" "sha_law X"
    and ver: "verify_ctv_fanout_manifest_structure X to_vec m = Inr ()"
    and anchor: "pc_anchor_vout (cm_precommitment m) = Some (cr_anchor_vout r)" and txid: "cr_fanout_txid r = cm_fanout_txid m"
    and c: "build_cpfp_child X r = Inr c" and w: "cpfp_request_ok r"
  shows "\<exists>fanout tx anchor_input funding_input script p2a.
    parse_transaction_hex X (cm_fanout_tx_hex m) ''manifest fanout_tx_hex'' = Inr fanout \<and>
    parse_transaction_hex X (cc_unsigned_child_tx_hex c) ''child'' = Inr tx \<and> pt_version tx = 3 \<and>
    pt_inputs tx = [anchor_input, funding_input] \<and> anchor_input \<noteq> funding_input \<and>
    ti_prev_txid_hex anchor_input = txid_hex X fanout \<and>
    hex_decode X P2A_ANCHOR_SCRIPT_PUBKEY_HEX = Inr p2a \<and>
    vec_get (pt_outputs fanout) (ti_prev_vout anchor_input) = Some \<lparr> to_amount_sats = 0, to_script_pubkey = p2a \<rparr> \<and>
    ti_prev_txid_hex funding_input = to_ascii_lowercase (cr_funding_txid r) \<and> ti_prev_vout funding_input = cr_funding_vout r \<and>
    hex_decode X (cr_change_script_pubkey_hex r) = Inr script \<and>
    pt_outputs tx = [\<lparr> to_amount_sats = cr_funding_value_sats r - cr_fee_sats r, to_script_pubkey = script \<rparr>] \<and>
    0 < cr_fee_sats r \<and> cr_fee_sats r < cr_funding_value_sats r"
proof -
  obtain template fanout where pre: "verify_precommitment X (cm_precommitment m) = Inr ()"
    and fields: "verify_manifest_fields X to_vec m = Inr ()"
    and f: "parse_transaction_hex X (cm_fanout_tx_hex m) ''manifest fanout_tx_hex'' = Inr fanout"
    and inp: "verify_fanout_input X m fanout = Inr ()" and outs: "verify_fanout_outputs X m fanout = Inr ()"
    by (rule verify_structure_Inr[OF ver])
  let ?p = "cm_precommitment m"
  note va = verify_precommitment_anchor[OF pre]
  have zero: "pc_fanout_fee_sats ?p = 0" and pos: "cr_anchor_vout r = length (pc_outputs ?p)"
    using va anchor by (auto simp: verify_anchor_Inr split: if_splits)
  obtain payouts p2a where o: "pt_outputs fanout = payouts @ [\<lparr> to_amount_sats = 0, to_script_pubkey = p2a \<rparr>]"
    "list_all2 (pays X) (pc_outputs ?p) payouts" "hex_decode X P2A_ANCHOR_SCRIPT_PUBKEY_HEX = Inr p2a"
    using verify_fanout_outputs_Inr[OF outs refl va] zero by auto
  have at: "vec_get (pt_outputs fanout) (cr_anchor_vout r) = Some \<lparr> to_amount_sats = 0, to_script_pubkey = p2a \<rparr>"
    using o list_all2_lengthD[OF o(2)] by (simp add: vec_get_def pos nth_append)
  have fee: "0 < cr_fee_sats r" "cr_fee_sats r < cr_funding_value_sats r" "cc_change_value_sats c = cr_funding_value_sats r - cr_fee_sats r"
    using c by (auto simp: build_cpfp_child_Inr)
  obtain fanout_id funding script tx where t:
    "hex_decode X (cr_fanout_txid r) = Inr fanout_id" "hex_decode X (cr_funding_txid r) = Inr funding"
    "hex_decode X (cr_change_script_pubkey_hex r) = Inr script"
    "parse_transaction_hex X (cc_unsigned_child_tx_hex c) ''child'' = Inr tx"
    "pt_version tx = CPFP_CHILD_TX_VERSION"
    "pt_inputs tx = [child_input X fanout_id (cr_anchor_vout r), child_input X funding (cr_funding_vout r)]"
    "pt_outputs tx = [\<lparr> to_amount_sats = cc_change_value_sats c, to_script_pubkey = script \<rparr>]"
    "pt_inputs tx ! 0 \<noteq> pt_inputs tx ! 1"
    using cpfp_child_parses[OF laws(1,2) c w, of "''child''"] by metis
  have "txid_hex X fanout = cr_fanout_txid r" using verify_fanout_input_Inr(2)[OF inp] txid by simp
  moreover have "hex_encode X fanout_id = txid_hex X fanout"
    using t(1) \<open>txid_hex X fanout = cr_fanout_txid r\<close> hex_decode_encode[OF laws(1)] by (simp add: txid_hex_def) (metis Inr_inject)
  moreover have "hex_encode X funding = to_ascii_lowercase (cr_funding_txid r)" by (rule hex_encode_decode[OF laws(1) t(2)])
  ultimately show ?thesis
    using f t(3-8) at o(3) fee
    by (intro exI[of _ fanout] exI[of _ tx] exI[of _ "child_input X fanout_id (cr_anchor_vout r)"]
        exI[of _ "child_input X funding (cr_funding_vout r)"] exI[of _ script] exI[of _ p2a])
      (simp add: child_input_def CPFP_CHILD_TX_VERSION_def CTV_FANOUT_TX_VERSION_def)
qed

lemma free_manifest:
  obtains m where "verify_ctv_fanout_manifest_structure demo_crypto demo_to_vec m = Inr ()"
    "pc_anchor_vout (cm_precommitment m) = Some 1"
proof -
  note laws = demo_crypto_hex demo_crypto_hex_text demo_crypto_sha
  obtain outs where outs: "canonical_fanout_outputs demo_crypto (ci_payouts free_fanout_input) = Inr outs"
    "map fo_amount_sats outs = [300]" "map fo_fee_sats outs = [0]" by (rule free_input_outputs)
  have len: "length outs = 1" using arg_cong[OF outs(2), of length] by simp
  have small: "sum_list (map fo_amount_sats outs) + sum_list (map fo_fee_sats outs) \<le> QBIT_MAX_MONEY_SATS"
    "length outs < 2 ^ 32 - 1" "ci_chunk_index free_fanout_input < 2 ^ 31" "\<forall>p. \<exists>bytes. demo_to_vec p = Inr bytes"
    by (simp_all add: outs(2,3) len QBIT_MAX_MONEY_SATS_def free_fanout_input_def demo_fanout_input_def demo_to_vec_def)
  obtain prep where prep: "prepare_ctv_fanout_precommitment demo_crypto demo_to_vec free_fanout_input = Inr prep"
    "pc_outputs (pr_precommitment prep) = outs"
    "pr_covenant_output_value_sats prep = sum_list (map fo_amount_sats outs) + sum_list (map fo_fee_sats outs)"
    by (rule prepare_ok[OF laws small(4) free_input_valid outs(1) small(1-3)])
  have "anchor_vout_for_fee 1 0 = Inr (pc_anchor_vout (pr_precommitment prep))"
    by (rule prepare_Inr[OF prep(1) refl]) (simp add: prepared_fee_sum[OF prep(1)] prep(2) outs(3) len)
  then have vout: "pc_anchor_vout (pr_precommitment prep) = Some 1"
    by (simp add: anchor_vout_for_fee_def fanout_has_cpfp_anchor_def res_simps checked_simps)
  obtain covenant where cov: "to_amount_sats covenant = pr_covenant_output_value_sats prep" "tx_out_ok covenant"
    "hex_encode demo_crypto (to_script_pubkey covenant) = pc_covenant_script_pubkey_hex (pr_precommitment prep)"
    by (rule covenant_output_exists[OF laws(1,3) prep(1)]) (use prep(3) small(1) in simp_all)
  obtain parent_hex parent where "\<forall>field. parse_transaction_hex demo_crypto parent_hex field = Inr parent"
    and parent: "ensure_coinbase_shape parent = Inr ()" "vec_get (pt_outputs parent) 0 = Some covenant"
    by (rule coinbase_with_output[OF laws(1,2) cov(2)])
  then have "parse_transaction_hex demo_crypto parent_hex ''coinbase'' = Inr parent" by blast
  then show thesis
    by (rule finish_prepared[OF laws prep(1) refl _ parent cov(1,3)]) (auto intro: that simp: vout)
qed

definition demo_child_request :: "CtvFanoutManifest \<Rightarrow> CpfpChildRequest" where
  "demo_child_request m = \<lparr> cr_fanout_txid = cm_fanout_txid m, cr_anchor_vout = 1,
     cr_funding_txid = hex_encode demo_crypto (replicate 32 7), cr_funding_vout = 0, cr_funding_value_sats = 5000,
     cr_fee_sats = 400, cr_change_script_pubkey_hex = hex_encode demo_crypto [0x51] \<rparr>"

theorem cpfp_child_spends_anchor_witness:
  "\<exists>m c tx. verify_ctv_fanout_manifest_structure demo_crypto demo_to_vec m = Inr () \<and>
     build_cpfp_child demo_crypto (demo_child_request m) = Inr c \<and>
     parse_transaction_hex demo_crypto (cc_unsigned_child_tx_hex c) ''child'' = Inr tx \<and>
     pt_outputs tx = [\<lparr> to_amount_sats = 4600, to_script_pubkey = [0x51] \<rparr>]"
proof -
  note laws = demo_crypto_hex demo_crypto_hex_text demo_crypto_sha
  obtain m where m: "verify_ctv_fanout_manifest_structure demo_crypto demo_to_vec m = Inr ()"
    "pc_anchor_vout (cm_precommitment m) = Some 1" by (rule free_manifest)
  let ?r = "demo_child_request m"
  obtain txid where txid: "hex_decode demo_crypto (cm_fanout_txid m) = Inr txid" "length txid = 32"
    by (rule verify_structure_Inr[OF m(1)]) (auto simp: verify_manifest_fields_def Let_def checks_Inr
      validate_canonical_sha256_hex_def rbind_Inr decode_hash_hex_Inr simp del: demo_crypto_simps)
  have "is_ok (build_cpfp_child demo_crypto ?r)"
    unfolding is_ok_iff build_cpfp_child_Inr
    using txid by (simp add: demo_child_request_def hex_decode_encode[OF laws(1)] del: demo_crypto_simps map_replicate)
  then obtain c where c: "build_cpfp_child demo_crypto ?r = Inr c" by (auto simp: is_ok_iff)
  have w: "cpfp_request_ok ?r"
    by (simp add: cpfp_request_ok_def demo_child_request_def QBIT_MAX_MONEY_SATS_def fmt_02x_def)
  have "pc_anchor_vout (cm_precommitment m) = Some (cr_anchor_vout ?r)" "cr_fanout_txid ?r = cm_fanout_txid m"
    by (simp_all add: demo_child_request_def m(2))
  from cpfp_child_spends_anchor[OF laws m(1) this c w] obtain tx script where
    t: "parse_transaction_hex demo_crypto (cc_unsigned_child_tx_hex c) ''child'' = Inr tx"
    "hex_decode demo_crypto (cr_change_script_pubkey_hex ?r) = Inr script"
    "pt_outputs tx = [\<lparr> to_amount_sats = cr_funding_value_sats ?r - cr_fee_sats ?r, to_script_pubkey = script \<rparr>]" by blast
  from t(2) have "script = [0x51]"
    by (simp add: demo_child_request_def hex_decode_encode[OF laws(1)] del: demo_crypto_simps)
  with t m(1) c show ?thesis by (intro exI[of _ m] exI[of _ c] exI[of _ tx]) (simp add: demo_child_request_def)
qed

end
