(* ===== verification/Double.thy ===== *)
theory Double
  imports Prism_Types "HOL-Library.Monad_Syntax"
begin

text \<open>
  Doubles (\<^verbatim>\<open>f64\<close>) by their 64 bits: sign, eleven bits of exponent, 52 bits of fraction. Arithmetic is exact arithmetic on
  the multiples of the least positive double, rounded to the nearest double with ties to even. The order of doubles that
  are not NaN is the order of their bits, mirrored for the negative ones. Rounding is monotone and keeps doubles, which
  is what the bounds of the difficulty adjustment rest on.
\<close>

type_synonym f64 = nat

definition f64_exponent :: "f64 \<Rightarrow> nat" where
  "f64_exponent d = d div 2 ^ 52 mod 2 ^ 11"

definition f64_infinity :: f64 where
  "f64_infinity = 0x7ff * 2 ^ 52"

definition is_nan :: "f64 \<Rightarrow> bool" where
  "is_nan d \<longleftrightarrow> d mod 2 ^ 63 > f64_infinity"

definition is_finite :: "f64 \<Rightarrow> bool" where
  "is_finite d \<longleftrightarrow> f64_exponent d \<noteq> 0x7ff"

definition is_positive :: "f64 \<Rightarrow> bool" where
  "is_positive d \<longleftrightarrow> d < 2 ^ 63 \<and> 0 < d \<and> d \<le> f64_infinity"

definition is_nonnegative :: "f64 \<Rightarrow> bool" where
  "is_nonnegative d \<longleftrightarrow> is_positive d \<or> d = 0 \<or> d = 2 ^ 63"

text \<open>The number of least positive doubles in one, and the magnitude of a finite double in those units.\<close>

definition f64_unit :: nat where
  "f64_unit = 2 ^ 1074"

definition f64_one :: f64 where
  "f64_one = 0x3ff0000000000000"

definition f64_scaled :: "f64 \<Rightarrow> nat" where
  "f64_scaled d = (if f64_exponent d = 0 then d mod 2 ^ 52 else (2 ^ 52 + d mod 2 ^ 52) * 2 ^ (f64_exponent d - 1))"

section \<open>Comparisons\<close>

definition f64_key :: "f64 \<Rightarrow> int" where
  "f64_key d = (if d < 2 ^ 63 then int d else - int (d - 2 ^ 63))"

definition f64_le :: "f64 \<Rightarrow> f64 \<Rightarrow> bool" where
  "f64_le a b \<longleftrightarrow> \<not> is_nan a \<and> \<not> is_nan b \<and> f64_key a \<le> f64_key b"

definition f64_lt :: "f64 \<Rightarrow> f64 \<Rightarrow> bool" where
  "f64_lt a b \<longleftrightarrow> \<not> is_nan a \<and> \<not> is_nan b \<and> f64_key a < f64_key b"

definition f64_eq :: "f64 \<Rightarrow> f64 \<Rightarrow> bool" where
  "f64_eq a b \<longleftrightarrow> \<not> is_nan a \<and> \<not> is_nan b \<and> f64_key a = f64_key b"

definition f64_max :: "f64 \<Rightarrow> f64 \<Rightarrow> f64" where
  "f64_max a b = (if is_nan a then b else if is_nan b then a else if f64_key a < f64_key b then b else a)"

definition f64_min :: "f64 \<Rightarrow> f64 \<Rightarrow> f64" where
  "f64_min a b = (if is_nan a then b else if is_nan b then a else if f64_key b < f64_key a then b else a)"

text \<open>\<^verbatim>\<open>f64::clamp\<close> panics unless the bounds are in order.\<close>

definition f64_clamp :: "f64 \<Rightarrow> f64 \<Rightarrow> f64 \<Rightarrow> f64 option" where
  "f64_clamp x lo hi =
     (if f64_le lo hi
      then (let x = (if f64_lt x lo then lo else x) in Some (if f64_lt hi x then hi else x))
      else None)"

section \<open>Rounding and arithmetic\<close>

definition half_even :: "nat \<Rightarrow> nat \<Rightarrow> nat" where
  "half_even n d =
     (let q = n div d; r = n mod d in
      if 2 * r < d \<or> 2 * r = d \<and> even q then q else q + 1)"

fun bit_length :: "nat \<Rightarrow> nat" where
  "bit_length n = (if n = 0 then 0 else Suc (bit_length (n div 2)))"

declare bit_length.simps [simp del]

definition round_mag :: "nat \<Rightarrow> nat \<Rightarrow> f64" where
  "round_mag n d =
     (let k = bit_length (n * f64_unit div d) - 53 in
      min f64_infinity (k * 2 ^ 52 + half_even (n * f64_unit) (d * 2 ^ k)))"

definition f64_neg :: "f64 \<Rightarrow> bool" where
  "f64_neg d \<longleftrightarrow> d \<ge> 2 ^ 63"

definition f64_abs :: "f64 \<Rightarrow> f64" where
  "f64_abs d = d mod 2 ^ 63"

definition with_sign :: "bool \<Rightarrow> f64 \<Rightarrow> f64" where
  "with_sign s m = (if s then 2 ^ 63 + m else m)"

definition f64_nan :: f64 where
  "f64_nan = 0x7ff8 * 2 ^ 48"

definition f64_signed :: "f64 \<Rightarrow> int" where
  "f64_signed d = (if f64_neg d then - int (f64_scaled d) else int (f64_scaled d))"

definition f64_add :: "f64 \<Rightarrow> f64 \<Rightarrow> f64" where
  "f64_add a b =
     (if is_nan a \<or> is_nan b then f64_nan
      else if \<not> is_finite a then (if \<not> is_finite b \<and> a \<noteq> b then f64_nan else a)
      else if \<not> is_finite b then b
      else let s = f64_signed a + f64_signed b in
        if s = 0 then with_sign (f64_neg a \<and> f64_neg b) 0
        else with_sign (s < 0) (round_mag (nat \<bar>s\<bar>) (f64_unit)))"

definition f64_sub :: "f64 \<Rightarrow> f64 \<Rightarrow> f64" where
  "f64_sub a b = f64_add a (with_sign (\<not> f64_neg b) (f64_abs b))"

definition f64_mul :: "f64 \<Rightarrow> f64 \<Rightarrow> f64" where
  "f64_mul a b =
     (let s = (f64_neg a \<noteq> f64_neg b) in
      if is_nan a \<or> is_nan b then f64_nan
      else if \<not> is_finite a \<or> \<not> is_finite b
        then (if f64_abs a = 0 \<or> f64_abs b = 0 then f64_nan else with_sign s f64_infinity)
      else with_sign s (round_mag (f64_scaled a * f64_scaled b) (f64_unit * f64_unit)))"

definition f64_div :: "f64 \<Rightarrow> f64 \<Rightarrow> f64" where
  "f64_div a b =
     (let s = (f64_neg a \<noteq> f64_neg b) in
      if is_nan a \<or> is_nan b then f64_nan
      else if \<not> is_finite a then (if \<not> is_finite b then f64_nan else with_sign s f64_infinity)
      else if \<not> is_finite b then with_sign s 0
      else if f64_abs b = 0 then (if f64_abs a = 0 then f64_nan else with_sign s f64_infinity)
      else with_sign s (round_mag (f64_scaled a) (f64_scaled b)))"

text \<open>Integers and durations, the latter in nanoseconds.\<close>

definition f64_of_nat :: "nat \<Rightarrow> f64" where
  "f64_of_nat n = round_mag n 1"

definition NANOS_PER_SEC :: nat where
  "NANOS_PER_SEC = 1000000000"

definition as_secs_f64 :: "nat \<Rightarrow> f64" where
  "as_secs_f64 nanos = f64_add (f64_of_nat (nanos div NANOS_PER_SEC)) (f64_div (f64_of_nat (nanos mod NANOS_PER_SEC)) (f64_of_nat NANOS_PER_SEC))"

definition try_from_secs_f64 :: "f64 \<Rightarrow> nat option" where
  "try_from_secs_f64 secs =
     (if is_nan secs \<or> \<not> is_finite secs \<or> f64_neg secs \<and> f64_abs secs \<noteq> 0 then None
      else let nanos = half_even (f64_scaled secs * NANOS_PER_SEC) (f64_unit) in
        if nanos < 2 ^ 64 * NANOS_PER_SEC then Some nanos else None)"

section \<open>Rounding is monotone and keeps doubles\<close>

lemma f64_unit_pos [simp]: "0 < f64_unit"
  by (simp add: f64_unit_def)

lemma half_even_bounds: "n div d \<le> half_even n d" "half_even n d \<le> n div d + 1"
  by (simp_all add: half_even_def Let_def)

lemma half_even_exact: "0 < d \<Longrightarrow> half_even (m * d) d = m"
  by (simp add: half_even_def)

lemma half_even_mono:
  assumes "0 < d" "0 < d'" "n * d' \<le> n' * d"
  shows "half_even n d \<le> half_even n' d'"
proof -
  have le: "n div d \<le> n' div d'"
  proof -
    have "n div d * d' * d \<le> n * d'" by (simp add: mult.assoc mult.commute[of d'] mult.left_commute[of d'])
    with assms have "n div d * d' \<le> n'" by (metis le_trans mult_le_cancel2)
    then show ?thesis using assms(2) by (simp add: less_eq_div_iff_mult_less_eq)
  qed
  show ?thesis
  proof (cases "n div d = n' div d'")
    case True
    let ?q = "n div d" and ?r = "n mod d" and ?r' = "n' mod d'"
    have "(?q * d + ?r) * d' \<le> (?q * d' + ?r') * d" using assms(3) True by (metis div_mult_mod_eq)
    moreover have "(q * d + r) * d' \<le> (q * d' + r') * d \<Longrightarrow> r * d' \<le> r' * d" for q r r' by (simp add: algebra_simps)
    ultimately have r: "?r * d' \<le> ?r' * d" by blast
    have "d \<le> 2 * ?r \<Longrightarrow> d' \<le> 2 * ?r'"
    proof -
      assume "d \<le> 2 * ?r"
      then have "d * d' \<le> 2 * ?r * d'" by simp
      also have "\<dots> \<le> 2 * ?r' * d" using r by simp
      finally have "d * d' \<le> d * (2 * ?r')" by (simp add: mult.commute)
      then show "d' \<le> 2 * ?r'" using assms(1) by (simp only: mult_le_cancel1)
    qed
    moreover have "d < 2 * ?r \<Longrightarrow> d' < 2 * ?r'"
    proof -
      assume "d < 2 * ?r"
      then have "d * d' < 2 * ?r * d'" using assms(2) by simp
      also have "\<dots> \<le> 2 * ?r' * d" using r by simp
      finally have "d * d' < d * (2 * ?r')" by (simp add: mult.commute)
      then show "d' < 2 * ?r'" by (simp only: mult_less_cancel1)
    qed
    ultimately show ?thesis using True unfolding half_even_def Let_def by (auto simp: not_less)
  next
    case False
    with le have "n div d + 1 \<le> n' div d'" by simp
    then show ?thesis using half_even_bounds(2)[of n d] half_even_bounds(1)[of n' d'] by linarith
  qed
qed

lemma bit_length_upper: "n < 2 ^ bit_length n"
proof (induction n rule: bit_length.induct)
  case (1 n)
  then show ?case by (cases "n = 0") (auto simp: bit_length.simps[of n])
qed

lemma bit_length_lower: "0 < n \<Longrightarrow> 2 ^ (bit_length n - 1) \<le> n"
proof (induction n rule: bit_length.induct)
  case (1 n)
  show ?case
  proof (cases "n div 2 = 0")
    case True
    with 1(2) have "n = 1" by auto
    then show ?thesis by (simp add: bit_length.simps)
  next
    case False
    then have "2 ^ (bit_length (n div 2) - 1) \<le> n div 2" using 1 by simp
    moreover have "bit_length (n div 2) > 0" using False by (simp add: bit_length.simps[of "n div 2"])
    moreover have "(2 :: nat) ^ Suc b = 2 * 2 ^ b" for b by simp
    ultimately have "2 ^ bit_length (n div 2) \<le> n" by (cases "bit_length (n div 2)") auto
    then show ?thesis using 1(2) by (simp add: bit_length.simps[of n])
  qed
qed

lemma bit_length_mono: "m \<le> n \<Longrightarrow> bit_length m \<le> bit_length n"
proof -
  assume le: "m \<le> n"
  show ?thesis
  proof (cases "m = 0")
    case False
    then have "2 ^ (bit_length m - 1) < (2 :: nat) ^ bit_length n"
      using le bit_length_lower[of m] bit_length_upper[of n] by linarith
    then have "bit_length m - 1 < bit_length n" by simp
    then show ?thesis by linarith
  qed (simp add: bit_length.simps)
qed


lemma round_binade:
  assumes "0 < d" "s = n * f64_unit div d" "k = bit_length s - 53"
  shows "half_even (n * f64_unit) (d * 2 ^ k) \<le> 2 ^ 53" "0 < k \<Longrightarrow> 2 ^ 52 \<le> half_even (n * f64_unit) (d * 2 ^ k)"
proof -
  have q: "n * f64_unit div (d * 2 ^ k) = s div 2 ^ k" by (simp add: assms(2) div_mult2_eq)
  have "2 ^ bit_length s \<le> (2 :: nat) ^ (53 + k)" using assms(3) by (intro power_increasing) simp_all
  then have "s < 2 ^ (53 + k)" using bit_length_upper[of s] by linarith
  then have "s div 2 ^ k < 2 ^ 53" by (simp add: power_add less_mult_imp_div_less)
  then show "half_even (n * f64_unit) (d * 2 ^ k) \<le> 2 ^ 53"
    using half_even_bounds(2)[of "n * f64_unit" "d * 2 ^ k"] q by linarith
  assume k: "0 < k"
  then have b: "bit_length s = 53 + k" using assms(3) by linarith
  then have "0 < s" by (cases "s = 0") (simp_all add: bit_length.simps[of 0])
  then have "2 ^ (52 + k) \<le> s" using bit_length_lower[of s] b by simp
  then have "2 ^ 52 * 2 ^ k \<le> s" by (simp only: power_add)
  then have "2 ^ 52 \<le> s div 2 ^ k" by (simp only: less_eq_div_iff_mult_less_eq zero_less_power zero_less_numeral)
  then show "2 ^ 52 \<le> half_even (n * f64_unit) (d * 2 ^ k)"
    using half_even_bounds(1)[of "n * f64_unit" "d * 2 ^ k"] q by linarith
qed

lemma round_mag_mono:
  assumes d: "0 < d" "0 < d'" and le: "n * d' \<le> n' * d"
  shows "round_mag n d \<le> round_mag n' d'"
proof -
  define s s' k k' where sk: "s = n * f64_unit div d" "s' = n' * f64_unit div d'" "k = bit_length s - 53" "k' = bit_length s' - 53"
  have scaled: "n * f64_unit * d' \<le> n' * f64_unit * d" using le by (simp add: mult.assoc mult.commute[of f64_unit] mult.left_commute[of f64_unit])
  have "s * d' * d \<le> n * f64_unit * d'" by (simp add: sk mult.assoc mult.commute[of d'] mult.left_commute[of d'])
  with scaled have "s * d' * d \<le> n' * f64_unit * d" by linarith
  then have "s * d' \<le> n' * f64_unit" using d(1) by (simp only: mult_le_cancel2)
  then have "s \<le> s'" using d(2) by (simp add: sk(2) less_eq_div_iff_mult_less_eq)
  then have "k \<le> k'" using bit_length_mono[of s s'] by (simp add: sk)
  let ?h = "half_even (n * f64_unit) (d * 2 ^ k)" and ?h' = "half_even (n' * f64_unit) (d' * 2 ^ k')"
  have "k * 2 ^ 52 + ?h \<le> k' * 2 ^ 52 + ?h'"
  proof (cases "k = k'")
    case True
    have "n * f64_unit * (d' * 2 ^ k) \<le> n' * f64_unit * (d * 2 ^ k)"
      using mult_le_mono1[OF scaled, of "2 ^ k"] by (simp add: mult.assoc)
    then have "?h \<le> ?h'" unfolding True by (intro half_even_mono) (use d True in simp_all)
    then show ?thesis using True by simp
  next
    case False
    with \<open>k \<le> k'\<close> have "Suc k \<le> k'" by simp
    then have "Suc k * 2 ^ 52 + 2 ^ 52 \<le> k' * 2 ^ 52 + 2 ^ 52" by (intro add_right_mono mult_right_mono) simp_all
    moreover have "?h \<le> 2 ^ 53" by (rule round_binade(1)[OF d(1) sk(1,3)])
    moreover have "2 ^ 52 \<le> ?h'" using round_binade(2)[OF d(2) sk(2,4)] \<open>Suc k \<le> k'\<close> by simp
    ultimately show ?thesis by simp
  qed
  then have "min f64_infinity (k * 2 ^ 52 + ?h) \<le> min f64_infinity (k' * 2 ^ 52 + ?h')" by (rule min.mono[OF order_refl])
  then show ?thesis unfolding round_mag_def Let_def sk .
qed

lemma is_positive_parts:
  assumes "is_finite d" "is_positive d"
  shows "d = f64_exponent d * 2 ^ 52 + d mod 2 ^ 52" "f64_exponent d < 2047"
proof -
  have "d < 2 ^ 11 * 2 ^ 52" using assms(2) by (simp add: is_positive_def f64_infinity_def)
  then have "d div 2 ^ 52 < 2 ^ 11" by (rule less_mult_imp_div_less)
  then have e: "f64_exponent d = d div 2 ^ 52" by (simp add: f64_exponent_def)
  show "d = f64_exponent d * 2 ^ 52 + d mod 2 ^ 52" unfolding e by (rule div_mult_mod_eq[symmetric])
  show "f64_exponent d < 2047" using \<open>d div 2 ^ 52 < 2 ^ 11\<close> assms(1) e by (simp add: is_finite_def)
qed

lemma bit_length_eq: "2 ^ b \<le> n \<Longrightarrow> n < 2 ^ Suc b \<Longrightarrow> bit_length n = Suc b"
proof -
  assume n: "2 ^ b \<le> n" "n < 2 ^ Suc b"
  have "2 ^ b < (2 :: nat) ^ bit_length n" using n(1) bit_length_upper[of n] by linarith
  then have "b < bit_length n" by simp
  have "0 < n" using n(1) by (metis gr0I le_zero_eq power_not_zero zero_neq_numeral)
  then have "2 ^ (bit_length n - 1) < (2 :: nat) ^ Suc b" using n(2) bit_length_lower[of n] by linarith
  then have "bit_length n - 1 < Suc b" by (simp only: power_strict_increasing_iff[of "2 :: nat"])
  with \<open>b < bit_length n\<close> show ?thesis by linarith
qed

lemma round_mag_exact:
  assumes x: "is_finite x" "is_positive x" and c: "0 < c"
  shows "round_mag (f64_scaled x * c) (f64_unit * c) = x"
proof -
  note p = is_positive_parts[OF x]
  define e f where ef: "e = f64_exponent x" "f = x mod 2 ^ 52"
  define m where "m = (if e = 0 then f else 2 ^ 52 + f)"
  have sc: "f64_scaled x = m * 2 ^ (e - 1)" unfolding f64_scaled_def m_def ef by simp
  have f: "f < 2 ^ 52" by (simp add: ef)
  have s: "f64_scaled x * c * f64_unit div (f64_unit * c) = f64_scaled x"
    using c by (simp add: mult.assoc mult.commute[of f64_unit])
  have k: "bit_length (f64_scaled x) - 53 = e - 1"
  proof (cases "e = 0")
    case True
    then have "f64_scaled x < 2 ^ 53" using f by (simp add: sc m_def)
    then have "bit_length (f64_scaled x) \<le> 53"
      using bit_length_mono[of "f64_scaled x" "2 ^ 53 - 1"] bit_length_eq[of 52 "2 ^ 53 - 1"] by simp
    then show ?thesis using True by simp
  next
    case False
    have "2 ^ 52 * 2 ^ (e - 1) \<le> m * 2 ^ (e - 1)" using False by (intro mult_right_mono) (simp_all add: m_def)
    then have "2 ^ (52 + (e - 1)) \<le> f64_scaled x" by (simp only: sc power_add)
    moreover have "f64_scaled x < 2 ^ Suc (52 + (e - 1))"
    proof -
      have "m < 2 ^ 53" using False f by (simp add: m_def)
      then have "m * 2 ^ (e - 1) < 2 ^ 53 * 2 ^ (e - 1)" by simp
      then show ?thesis by (simp only: sc power_add[symmetric]) simp
    qed
    ultimately have "bit_length (f64_scaled x) = Suc (52 + (e - 1))" by (rule bit_length_eq)
    then show ?thesis by simp
  qed
  have eq: "f64_scaled x * c * f64_unit = m * (f64_unit * c * 2 ^ (e - 1))" by (simp add: sc)
  have h: "half_even (f64_scaled x * c * f64_unit) (f64_unit * c * 2 ^ (e - 1)) = m"
    unfolding eq by (rule half_even_exact) (simp add: c)
  have "(e - 1) * 2 ^ 52 + m = x" using p(1)[folded ef] by (cases e) (simp_all add: m_def)
  moreover have "x \<le> f64_infinity" using x(2) by (simp add: is_positive_def)
  ultimately show ?thesis unfolding round_mag_def Let_def s k h by simp
qed


section \<open>Nonnegative doubles\<close>

text \<open>The doubles from zero to infinity, without the negative zero, are the numbers up to the bits of infinity.\<close>

definition ordinary :: "f64 \<Rightarrow> bool" where
  "ordinary d \<longleftrightarrow> d \<le> f64_infinity"

lemma infinity_bound: "f64_infinity < 2 ^ 63" "0 < f64_infinity"
  by (simp_all add: f64_infinity_def)

lemma ordinary_simps:
  assumes "ordinary d"
  shows "\<not> is_nan d" "f64_key d = int d" "\<not> f64_neg d" "f64_abs d = d" "is_positive d \<longleftrightarrow> 0 < d"
    "is_finite d \<longleftrightarrow> d < f64_infinity" "f64_signed d = int (f64_scaled d)"
proof -
  have d: "d < 2 ^ 63" "d \<le> f64_infinity" using assms infinity_bound by (auto simp: ordinary_def)
  then show "\<not> is_nan d" "f64_key d = int d" "\<not> f64_neg d" "f64_abs d = d" "is_positive d \<longleftrightarrow> 0 < d"
    "f64_signed d = int (f64_scaled d)"
    by (simp_all add: is_nan_def f64_key_def f64_neg_def f64_abs_def is_positive_def f64_signed_def)
  have "d div 2 ^ 52 \<le> 0x7ff" using d(2) div_le_mono[of d f64_infinity "2 ^ 52"] by (simp add: f64_infinity_def)
  then have "f64_exponent d = d div 2 ^ 52" by (simp add: f64_exponent_def)
  moreover have "d div 2 ^ 52 < 0x7ff \<longleftrightarrow> d < 0x7ff * 2 ^ 52" by (rule div_less_iff_less_mult) simp
  ultimately show "is_finite d \<longleftrightarrow> d < f64_infinity"
    using \<open>d div 2 ^ 52 \<le> 0x7ff\<close> by (simp add: is_finite_def f64_infinity_def) linarith
qed

lemma positive_ordinary: "is_positive d \<Longrightarrow> ordinary d"
  by (simp add: is_positive_def ordinary_def)

lemma ordinary_le: "ordinary a \<Longrightarrow> ordinary b \<Longrightarrow> f64_le a b \<longleftrightarrow> a \<le> b" "ordinary a \<Longrightarrow> ordinary b \<Longrightarrow> f64_lt a b \<longleftrightarrow> a < b"
  by (simp_all add: f64_le_def f64_lt_def ordinary_simps)

lemma round_mag_ordinary [simp]: "ordinary (round_mag n d)"
  by (simp add: round_mag_def ordinary_def Let_def)

lemma scaled_zero: "f64_scaled 0 = 0"
  by (simp add: f64_scaled_def f64_exponent_def)

lemma f64_scaled_positive: "is_finite d \<Longrightarrow> is_positive d \<Longrightarrow> 0 < f64_scaled d"
  using is_positive_parts(1)[of d] by (cases "f64_exponent d = 0") (auto simp: f64_scaled_def is_positive_def)

lemma ordinary_clamp:
  assumes "ordinary x" "ordinary hi" "lo \<le> hi"
  shows "f64_clamp x lo hi = Some (min (max x lo) hi)"
proof -
  have lo: "ordinary lo" using assms by (simp add: ordinary_def)
  show ?thesis
    using assms lo by (auto simp: f64_clamp_def ordinary_le Let_def min_def max_def)
qed

lemma ordinary_max: "ordinary a \<Longrightarrow> ordinary b \<Longrightarrow> f64_max a b = max a b"
  by (auto simp: f64_max_def ordinary_simps)

lemma ordinary_mul:
  assumes "ordinary a" "ordinary b" "a < f64_infinity \<or> 0 < b" "b < f64_infinity \<or> 0 < a"
  shows "ordinary (f64_mul a b)"
  using assms by (auto simp: f64_mul_def ordinary_simps with_sign_def) (auto simp: ordinary_def)

lemma ordinary_div:
  assumes "ordinary a" "ordinary b" "b < f64_infinity" "0 < b"
  shows "ordinary (f64_div a b)"
  using assms by (auto simp: f64_div_def ordinary_simps with_sign_def Let_def) (auto simp: ordinary_def)

lemma ordinary_add:
  assumes "ordinary a" "ordinary b"
  shows "ordinary (f64_add a b)"
  using assms by (auto simp: f64_add_def ordinary_simps with_sign_def Let_def) (auto simp: ordinary_def)

lemma mul_ge:
  assumes a: "ordinary a" "0 < a" "a < f64_infinity" and b: "ordinary b" "b < f64_infinity" and one: "f64_unit \<le> f64_scaled b"
  shows "a \<le> f64_mul a b"
proof -
  have "a = round_mag (f64_scaled a * f64_unit) (f64_unit * f64_unit)"
    using round_mag_exact[of a f64_unit] a by (simp add: ordinary_simps)
  also have "\<dots> \<le> round_mag (f64_scaled a * f64_scaled b) (f64_unit * f64_unit)"
    by (rule round_mag_mono) (simp_all add: one)
  also have "\<dots> = f64_mul a b" using a b by (simp add: f64_mul_def ordinary_simps with_sign_def)
  finally show ?thesis .
qed

lemma div_le:
  assumes a: "ordinary a" "0 < a" "a < f64_infinity" and b: "ordinary b" "b < f64_infinity" and one: "f64_unit \<le> f64_scaled b"
  shows "f64_div a b \<le> a"
proof -
  have "0 < b" using one scaled_zero f64_unit_pos by (metis gr0I not_less)
  then have "f64_div a b = round_mag (f64_scaled a) (f64_scaled b)" using a b by (simp add: f64_div_def ordinary_simps with_sign_def)
  also have "\<dots> \<le> round_mag (f64_scaled a * 1) (f64_unit * 1)"
    by (rule round_mag_mono) (use one less_le_trans[OF f64_unit_pos one] in simp_all)
  also have "\<dots> = a" using round_mag_exact[of a 1] a by (simp add: ordinary_simps)
  finally show ?thesis .
qed

lemma finite_positive: "is_finite d \<and> is_positive d \<longleftrightarrow> 0 < d \<and> d < f64_infinity"
proof
  assume d: "is_finite d \<and> is_positive d"
  then have "ordinary d" by (simp add: positive_ordinary)
  then show "0 < d \<and> d < f64_infinity" using d by (simp add: ordinary_simps)
next
  assume "0 < d \<and> d < f64_infinity"
  moreover from this have "ordinary d" by (simp add: ordinary_def)
  ultimately show "is_finite d \<and> is_positive d" by (simp add: ordinary_simps)
qed

lemma f64_scaled_mono:
  assumes d: "is_finite d" "is_positive d" and d': "is_finite d'" "is_positive d'" and le: "d \<le> d'"
  shows "f64_scaled d \<le> f64_scaled d'"
proof -
  let ?e = "f64_exponent d" and ?e' = "f64_exponent d'"
  note p = is_positive_parts(1)[OF d] is_positive_parts(1)[OF d']
  have f: "d mod 2 ^ 52 < 2 ^ 52" "d' mod 2 ^ 52 < 2 ^ 52" by simp_all
  have "?e \<le> ?e'"
  proof (rule ccontr)
    assume "\<not> ?e \<le> ?e'"
    then have "(?e' + 1) * 2 ^ 52 \<le> ?e * 2 ^ 52" by (intro mult_right_mono) simp_all
    with p f le show False by simp
  qed
  then consider "?e = ?e'" | "?e < ?e'" by linarith
  then show ?thesis
  proof cases
    case 1
    then have "d mod 2 ^ 52 \<le> d' mod 2 ^ 52" using p le by simp
    then show ?thesis using 1 by (simp add: f64_scaled_def)
  next
    case 2
    have "f64_scaled d \<le> 2 ^ 52 * 2 ^ (?e' - 1)"
    proof (cases "?e = 0")
      case True
      then have "f64_scaled d \<le> 2 ^ 52 * 1" using f(1) by (simp add: f64_scaled_def)
      also have "\<dots> \<le> 2 ^ 52 * 2 ^ (?e' - 1)" by (intro mult_left_mono) simp_all
      finally show ?thesis .
    next
      case False
      then have "f64_scaled d \<le> 2 ^ 53 * 2 ^ (?e - 1)" using f(1) by (simp add: f64_scaled_def)
      also have "\<dots> = 2 ^ 52 * 2 ^ ?e" using False by (cases ?e) simp_all
      also have "\<dots> \<le> 2 ^ 52 * 2 ^ (?e' - 1)" using 2 by (intro mult_left_mono power_increasing) simp_all
      finally show ?thesis .
    qed
    also have "\<dots> \<le> f64_scaled d'" using 2 by (simp add: f64_scaled_def)
    finally show ?thesis .
  qed
qed

lemma opposite_sign:
  assumes "ordinary a"
  shows "\<not> is_nan (2 ^ 63 + a)" "is_finite (2 ^ 63 + a) = is_finite a" "f64_scaled (2 ^ 63 + a) = f64_scaled a"
proof -
  have a: "a < 2 ^ 63" "a \<le> f64_infinity" using assms infinity_bound by (auto simp: ordinary_def)
  then have "(2 ^ 63 + a) mod 2 ^ 63 = a" by (simp only: mod_add_self1 mod_less)
  then show "\<not> is_nan (2 ^ 63 + a)" unfolding is_nan_def using a(2) by (simp only: not_less)
  have c: "(2 :: nat) ^ 63 = 2 ^ 11 * 2 ^ 52" by simp
  have "(2 ^ 63 + a) div 2 ^ 52 = 2 ^ 11 + a div 2 ^ 52" unfolding c by (rule div_mult_self3) simp
  then have e: "f64_exponent (2 ^ 63 + a) = f64_exponent a" unfolding f64_exponent_def by (simp only: mod_add_self1)
  have f: "(2 ^ 63 + a) mod 2 ^ 52 = a mod 2 ^ 52" unfolding c by (rule mod_mult_self3)
  show "is_finite (2 ^ 63 + a) = is_finite a" by (simp only: is_finite_def e)
  show "f64_scaled (2 ^ 63 + a) = f64_scaled a" by (simp only: f64_scaled_def e f)
qed

lemma sub_le:
  assumes a: "0 < a" "a < f64_infinity" and b: "0 < b" "b \<le> a"
  shows "f64_sub a b \<le> a"
proof -
  have o: "ordinary a" "ordinary b" "b < f64_infinity" using assms by (auto simp: ordinary_def)
  have fin: "is_finite a" "is_positive a" "is_finite b" "is_positive b" using a b o finite_positive[of a] finite_positive[of b] by simp_all
  have le: "f64_scaled b \<le> f64_scaled a" by (rule f64_scaled_mono[OF fin(3,4,1,2) b(2)])
  define b' where "b' = 2 ^ 63 + b"
  have b': "\<not> is_nan b'" "is_finite b'" "f64_scaled b' = f64_scaled b" "f64_neg b'"
    using opposite_sign[OF o(2)] fin(3) by (simp_all only: b'_def f64_neg_def le_add1 simp_thms)
  have sub: "f64_sub a b = f64_add a b'" unfolding f64_sub_def with_sign_def b'_def using ordinary_simps(3,4)[OF o(2)] by (simp only: simp_thms if_True)
  have sum: "f64_signed a + f64_signed b' = int (f64_scaled a - f64_scaled b)"
    using le b'(3,4) by (simp add: f64_signed_def ordinary_simps[OF o(1)])
  have "f64_sub a b = (if f64_scaled a = f64_scaled b then 0 else round_mag (f64_scaled a - f64_scaled b) f64_unit)"
    using le b' fin(1) ordinary_simps(1,3)[OF o(1)] unfolding sub f64_add_def sum Let_def with_sign_def
    by (simp add: nat_diff_distrib')
  also have "\<dots> \<le> round_mag (f64_scaled a * 1) (f64_unit * 1)" using round_mag_mono[of f64_unit "f64_unit * 1" "f64_scaled a - f64_scaled b" "f64_scaled a * 1"] by simp
  also have "\<dots> = a" using round_mag_exact[OF fin(1,2), of 1] by simp
  finally show ?thesis .
qed

lemma scaled_le:
  assumes "a \<le> b" "b < f64_infinity"
  shows "f64_scaled a \<le> f64_scaled b"
proof (cases "a = 0")
  case False
  then have "is_finite a \<and> is_positive a" "is_finite b \<and> is_positive b" using assms by (simp_all add: finite_positive)
  then show ?thesis using assms(1) by (intro f64_scaled_mono) simp_all
qed (simp add: scaled_zero)

lemma round_mag_le:
  assumes "0 < d" "0 < x" "x < f64_infinity" "n * f64_unit \<le> f64_scaled x * d"
  shows "round_mag n d \<le> x"
proof -
  have "round_mag n d \<le> round_mag (f64_scaled x * 1) (f64_unit * 1)" by (rule round_mag_mono) (use assms in simp_all)
  also have "\<dots> = x" using round_mag_exact[of x 1] assms(2,3) finite_positive[of x] by simp
  finally show ?thesis .
qed

lemma finite_add:
  assumes "ordinary a" "a < f64_infinity" "ordinary b" "b < f64_infinity"
  shows "f64_add a b = (if f64_scaled a + f64_scaled b = 0 then 0 else round_mag (f64_scaled a + f64_scaled b) f64_unit)"
proof -
  have s: "f64_signed a + f64_signed b = int (f64_scaled a + f64_scaled b)" using assms by (simp add: ordinary_simps)
  show ?thesis
    using assms unfolding f64_add_def s Let_def with_sign_def by (simp add: ordinary_simps flip: of_nat_add)
qed

lemma f64_one: "f64_scaled f64_one = f64_unit" "0 < f64_one" "f64_one < f64_infinity"
  by (simp_all add: f64_scaled_def f64_exponent_def f64_one_def f64_unit_def f64_infinity_def)

text \<open>Two to the 64 and two to the 65.\<close>

lemma power_doubles:
  "f64_scaled 0x43f0000000000000 = 2 ^ 64 * f64_unit" "f64_scaled 0x4400000000000000 = 2 ^ 65 * f64_unit"
  by (simp_all add: f64_scaled_def f64_exponent_def f64_unit_def)

lemma as_secs_f64_finite:
  assumes "n < 2 ^ 64 * NANOS_PER_SEC"
  shows "ordinary (as_secs_f64 n)" "as_secs_f64 n < f64_infinity"
proof -
  define A B where AB: "A = (0x43f0000000000000 :: nat)" "B = (0x4400000000000000 :: nat)"
  have p: "f64_scaled A = 2 ^ 64 * f64_unit" "f64_scaled B = 2 ^ 65 * f64_unit" unfolding AB by (rule power_doubles)+
  have inf: "0 < A" "A < f64_infinity" "0 < B" "B < f64_infinity" by (simp_all add: AB f64_infinity_def)
  have of_nat: "f64_of_nat k \<le> A" if "k \<le> 2 ^ 64" for k
    unfolding f64_of_nat_def by (rule round_mag_le) (use inf that in \<open>simp_all add: p\<close>)
  define a x y where axy: "a = f64_of_nat (n div NANOS_PER_SEC)" "x = f64_of_nat (n mod NANOS_PER_SEC)" "y = f64_of_nat NANOS_PER_SEC"
  have le: "a \<le> A" "x \<le> A" "y \<le> A"
    unfolding axy using assms by (auto intro!: of_nat simp: NANOS_PER_SEC_def)
  have "f64_one = round_mag (f64_scaled f64_one * 1) (f64_unit * 1)" using round_mag_exact[of f64_one 1] f64_one(2,3) finite_positive[of f64_one] by simp
  also have "\<dots> \<le> y" unfolding axy f64_of_nat_def by (rule round_mag_mono) (simp_all add: NANOS_PER_SEC_def f64_one(1))
  finally have y: "f64_unit \<le> f64_scaled y" using scaled_le[of f64_one y] le(3) inf f64_one(1) by simp
  have o: "ordinary a" "ordinary x" "ordinary y" by (simp_all add: axy f64_of_nat_def)
  have fin: "a < f64_infinity" "x < f64_infinity" "y < f64_infinity" using le inf(2) by simp_all
  have "0 < y" using y scaled_zero f64_unit_pos by (metis gr0I not_less)
  have "f64_div x y = round_mag (f64_scaled x) (f64_scaled y)"
    using o fin \<open>0 < y\<close> by (simp add: f64_div_def ordinary_simps with_sign_def Let_def)
  also have "\<dots> \<le> A"
  proof (rule round_mag_le)
    have "f64_scaled x * f64_unit \<le> f64_scaled A * f64_scaled y" by (rule mult_le_mono[OF scaled_le[OF le(2) inf(2)] y])
    then show "f64_scaled x * f64_unit \<le> f64_scaled A * f64_scaled y" .
  qed (use inf y less_le_trans[OF f64_unit_pos y] in simp_all)
  finally have b: "f64_div x y \<le> A" .
  then have ob: "ordinary (f64_div x y)" "f64_div x y < f64_infinity" using inf(2) by (simp_all add: ordinary_def)
  have "as_secs_f64 n \<le> B"
  proof -
    have "f64_scaled a + f64_scaled (f64_div x y) \<le> 2 ^ 65 * f64_unit"
      using scaled_le[OF le(1) inf(2)] scaled_le[OF b inf(2)] unfolding p by simp
    then have "round_mag (f64_scaled a + f64_scaled (f64_div x y)) f64_unit \<le> B"
      by (intro round_mag_le) (use inf in \<open>simp_all add: p\<close>)
    then show ?thesis
      unfolding as_secs_f64_def axy[symmetric] finite_add[OF o(1) fin(1) ob] by simp
  qed
  then show "ordinary (as_secs_f64 n)" "as_secs_f64 n < f64_infinity" using inf(4) by (simp_all add: ordinary_def)
qed

end
