(* ===== verification/Stratum_Codec.thy ===== *)
theory Stratum_Codec
  imports Coinbase_Codec Payout_Window Double
begin

text \<open>
  The codec of mining work (\<^verbatim>\<open>src/crates/qbit-prism-server/src/codec.rs\<close>): walking serialized transactions and blocks,
  the coinbase split around the extranonce, targets and difficulties, the merkle branch,
  jobs and submissions. Errors are the messages of \<^verbatim>\<open>anyhow\<close>. A JSON value has the constructors of
  \<^verbatim>\<open>serde_json::Value\<close>. How a number of JSON is read as an integer and a big integer converted to a double
  (\<^verbatim>\<open>BigUint::to_f64\<close>) are the parameter \<open>N\<close>, on which nothing is assumed.
\<close>

unbundle bit_operations_syntax

section \<open>Reading transactions\<close>

definition ensure :: "bool \<Rightarrow> string \<Rightarrow> string + unit" where
  "ensure c msg = (if c then Inr () else Inl msg)"

definition VERSION_ROLLING_MASK :: "32 word" where "VERSION_ROLLING_MASK = 0x1fffe000"

definition double_sha256 :: "crypto \<Rightarrow> byte list \<Rightarrow> byte list" where
  "double_sha256 X bytes = sha256 X (sha256 X bytes)"

definition hash_display :: "crypto \<Rightarrow> byte list \<Rightarrow> string" where
  "hash_display X hash = hex_encode X (rev hash)"

definition codec_compact_size :: "u64 \<Rightarrow> byte list" where
  "codec_compact_size n =
     (if n \<le> 252 then [of_nat n]
      else if n \<le> 0xffff then [253] @ le_bytes 2 n
      else if n \<le> 0xffffffff then [254] @ le_bytes 4 n
      else [255] @ le_bytes 8 n)"

record Cursor =
  cur_bytes :: "byte list"
  cur_offset :: usize

definition cur_take :: "usize \<Rightarrow> Cursor \<Rightarrow> string + byte list \<times> Cursor" where
  "cur_take len c =
     rbind (ok_or (checked_add 64 (cur_offset c) len) ''transaction length overflow'') (\<lambda>stop.
       if stop \<le> length (cur_bytes c)
       then Inr (take len (drop (cur_offset c) (cur_bytes c)), c \<lparr> cur_offset := stop \<rparr>)
       else Inl ''truncated transaction'')"

definition cur_wide :: "usize \<Rightarrow> Cursor \<Rightarrow> string + u64 \<times> Cursor" where
  "cur_wide n c = rbind (cur_take n c) (\<lambda>(bytes, c). Inr (from_le_bytes bytes, c))"

definition canonical_count :: "nat \<Rightarrow> u64 \<Rightarrow> bool" where
  "canonical_count first n =
     (if first = 253 then n \<ge> 253 else if first = 254 then n > 0xffff else if first = 255 then n > 0xffffffff else True)"

definition cur_count :: "Cursor \<Rightarrow> string + usize \<times> Cursor" where
  "cur_count c =
     rbind (cur_take 1 c) (\<lambda>(one, c).
     let first = unat (one ! 0) in
     rbind (if first = 253 then cur_wide 2 c else if first = 254 then cur_wide 4 c
            else if first = 255 then cur_wide 8 c else Inr (first, c)) (\<lambda>(n, c).
     rbind (ensure (canonical_count first n) ''noncanonical compact size'') (\<lambda>_.
     rbind (ensure (n \<le> length (cur_bytes c)) ''transaction count exceeds input size'') (\<lambda>_.
       Inr (n, c)))))"

definition cur_string :: "Cursor \<Rightarrow> string + Cursor" where
  "cur_string c = rbind (cur_count c) (\<lambda>(n, c). rbind (cur_take n c) (\<lambda>(_, c). Inr c))"

definition walk_input :: "Cursor \<Rightarrow> string + Cursor" where
  "walk_input c =
     rbind (cur_take 36 c) (\<lambda>(_, c). rbind (cur_string c) (\<lambda>c. rbind (cur_take 4 c) (\<lambda>(_, c). Inr c)))"

definition walk_output :: "Cursor \<Rightarrow> string + Cursor" where
  "walk_output c = rbind (cur_take 8 c) (\<lambda>(_, c). cur_string c)"

fun walk_times :: "(Cursor \<Rightarrow> string + Cursor) \<Rightarrow> nat \<Rightarrow> Cursor \<Rightarrow> string + Cursor" where
  "walk_times walk 0 c = Inr c"
| "walk_times walk (Suc n) c = rbind (walk c) (walk_times walk n)"

definition walk_stack :: "Cursor \<Rightarrow> string + Cursor" where
  "walk_stack c = rbind (cur_count c) (\<lambda>(items, c). walk_times cur_string items c)"

record TransactionLayout =
  body_start :: usize
  body_end :: usize
  locktime_start :: usize
  lay_len :: usize

definition walk_transaction :: "byte list \<Rightarrow> string + TransactionLayout" where
  "walk_transaction bytes =
     rbind (ensure (length bytes \<ge> 10) ''transaction is too short'') (\<lambda>_.
     let c = \<lparr> cur_bytes = bytes, cur_offset = 4 \<rparr>; witness = (bytes ! 4 = 0 \<and> bytes ! 5 \<noteq> 0) in
     rbind (if witness then rbind (ensure (bytes ! 5 = 1) ''unsupported witness transaction flags'') (\<lambda>_.
              rbind (cur_take 2 c) (\<lambda>(_, c). Inr c)) else Inr c) (\<lambda>c0.
     rbind (cur_count c0) (\<lambda>(inputs, c).
     rbind (ensure (inputs > 0) ''transaction has no inputs'') (\<lambda>_.
     rbind (walk_times walk_input inputs c) (\<lambda>c.
     rbind (cur_count c) (\<lambda>(outputs, c).
     rbind (walk_times walk_output outputs c) (\<lambda>c1.
     rbind (if witness then walk_times walk_stack inputs c1 else Inr c1) (\<lambda>c2.
     rbind (cur_take 4 c2) (\<lambda>(_, c3).
       Inr \<lparr> body_start = cur_offset c0, body_end = cur_offset c1, locktime_start = cur_offset c2,
             lay_len = cur_offset c3 \<rparr>)))))))))"

definition slice :: "usize \<Rightarrow> usize \<Rightarrow> 'a list \<Rightarrow> 'a list" where
  "slice i j xs = take (j - i) (drop i xs)"

definition strip_witness_transaction :: "byte list \<Rightarrow> string + byte list" where
  "strip_witness_transaction tx =
     rbind (walk_transaction tx) (\<lambda>layout.
     rbind (ensure (lay_len layout = length tx) ''transaction has trailing bytes'') (\<lambda>_.
       Inr (take 4 tx @ slice (body_start layout) (body_end layout) tx @ slice (locktime_start layout) (lay_len layout) tx)))"

definition block_count :: "byte list \<Rightarrow> string + usize \<times> usize" where
  "block_count block =
     rbind (ensure (length block \<ge> 80) ''truncated block header'') (\<lambda>_.
     rbind (map_err (\<lambda>_. ''block transaction count'') (cur_count \<lparr> cur_bytes = block, cur_offset = 80 \<rparr>)) (\<lambda>(count, c).
     rbind (ensure (count > 0) ''block declares no transactions'') (\<lambda>_.
       Inr (count, cur_offset c))))"

definition get_from :: "usize \<Rightarrow> byte list \<Rightarrow> string + byte list" where
  "get_from offset block =
     (if offset \<le> length block then Inr (drop offset block) else Inl ''truncated block transaction list'')"

definition leaf_step :: "crypto \<Rightarrow> byte list \<Rightarrow> usize \<Rightarrow> usize \<times> string list \<Rightarrow> nat \<Rightarrow> string + usize \<times> string list" where
  "leaf_step X block n st index =
     (let (offset, leaves) = st in
      rbind (get_from offset block) (\<lambda>rest.
      rbind (map_err (\<lambda>_. ''block transaction '' @ show_nat index @ '' of '' @ show_nat n) (walk_transaction rest)) (\<lambda>layout.
        Inr (offset + lay_len layout,
          if index > 0 then leaves @ [hex_encode X (double_sha256 X (take (lay_len layout) rest))] else leaves))))"

definition witness_merkle_leaves_from_block :: "crypto \<Rightarrow> byte list \<Rightarrow> string + string list" where
  "witness_merkle_leaves_from_block X block =
     rbind (block_count block) (\<lambda>(count, start).
     rbind (rfold (leaf_step X block count) (start, []) [0..<count]) (\<lambda>(offset, leaves).
     rbind (ensure (offset = length block) (''block has trailing bytes after '' @ show_nat count @ '' transactions'')) (\<lambda>_.
       Inr leaves)))"

definition coinbase_from_block :: "byte list \<Rightarrow> string + byte list" where
  "coinbase_from_block block =
     rbind (block_count block) (\<lambda>(_, start).
     rbind (get_from start block) (\<lambda>rest.
     rbind (map_err (\<lambda>_. ''block coinbase'') (walk_transaction rest)) (\<lambda>layout.
       Inr (take (lay_len layout) rest))))"

definition skip_marker :: "byte list \<Rightarrow> string + Cursor" where
  "skip_marker tx =
     (let c = \<lparr> cur_bytes = tx, cur_offset = 4 \<rparr> in
      if tx ! 4 = 0 \<and> tx ! 5 \<noteq> 0 then rbind (cur_take 2 c) (\<lambda>(_, c). Inr c) else Inr c)"

definition codec_script_sig :: "byte list \<Rightarrow> string + byte list" where
  "codec_script_sig tx =
     rbind (ensure (length tx \<ge> 10) ''transaction is too short'') (\<lambda>_.
     rbind (skip_marker tx) (\<lambda>c.
     rbind (cur_count c) (\<lambda>(inputs, c).
     rbind (ensure (inputs = 1) ''a coinbase has exactly one input'') (\<lambda>_.
     rbind (cur_take 36 c) (\<lambda>(_, c).
     rbind (cur_count c) (\<lambda>(len, c).
     rbind (cur_take len c) (\<lambda>(script, _). Inr script)))))))"

definition ends_with :: "'a list \<Rightarrow> 'a list \<Rightarrow> bool" where
  "ends_with xs ys \<longleftrightarrow> length ys \<le> length xs \<and> drop (length xs - length ys) xs = ys"

definition split_coinbase_extranonce :: "byte list \<Rightarrow> byte list \<Rightarrow> string + byte list \<times> byte list" where
  "split_coinbase_extranonce tx placeholder =
     rbind (ensure (length tx \<ge> 10 \<and> placeholder \<noteq> []) ''invalid coinbase or extranonce placeholder'') (\<lambda>_.
     rbind (skip_marker tx) (\<lambda>c.
     rbind (cur_count c) (\<lambda>(inputs, c).
     rbind (ensure (inputs = 1) ''coinbase must have exactly one input'') (\<lambda>_.
     rbind (cur_take 36 c) (\<lambda>(prevout, c).
     rbind (ensure (take 32 prevout = replicate 32 0 \<and> drop 32 prevout = replicate 4 255) ''coinbase has non-null prevout'') (\<lambda>_.
     rbind (cur_count c) (\<lambda>(n, c).
     rbind (cur_take n c) (\<lambda>(script, c).
     rbind (ensure (ends_with script placeholder) ''coinbase scriptSig does not end with extranonce placeholder'') (\<lambda>_.
       Inr (take (cur_offset c - length placeholder) tx, drop (cur_offset c) tx))))))))))"

section \<open>JSON values\<close>

datatype Value =
    JNull
  | JBool bool
  | JNumber string
  | JString string
  | JArray "Value list"
  | JObject "(string \<times> Value) list"

fun json_get :: "string \<Rightarrow> Value \<Rightarrow> Value option" where
  "json_get key (JObject members) = map_of members key"
| "json_get key _ = None"

definition json_index :: "Value \<Rightarrow> string \<Rightarrow> Value" where
  "json_index v key = (case json_get key v of Some x \<Rightarrow> x | None \<Rightarrow> JNull)"

fun as_array :: "Value \<Rightarrow> Value list option" where
  "as_array (JArray vs) = Some vs"
| "as_array _ = None"

fun as_str :: "Value \<Rightarrow> string option" where
  "as_str (JString s) = Some s"
| "as_str _ = None"

record numbers =
  n_u64 :: "string \<Rightarrow> u64 option"
  n_i64 :: "string \<Rightarrow> i64 option"
  n_to_f64 :: "nat \<Rightarrow> f64 option"

fun as_u64 :: "numbers \<Rightarrow> Value \<Rightarrow> u64 option" where
  "as_u64 N (JNumber number) = n_u64 N number"
| "as_u64 N _ = None"

fun as_i64 :: "numbers \<Rightarrow> Value \<Rightarrow> i64 option" where
  "as_i64 N (JNumber number) = n_i64 N number"
| "as_i64 N _ = None"

definition u32_try_into :: "nat \<Rightarrow> string + u32" where
  "u32_try_into n = ok_or (try_from 32 n) ''out of range integral type conversion attempted''"

section \<open>Targets and difficulties\<close>

definition target_from_compact :: "u32 \<Rightarrow> string + nat" where
  "target_from_compact bits =
     (let len = bits div 2 ^ 24; mantissa = bits mod 2 ^ 23 in
      rbind (ensure (bits div 2 ^ 23 mod 2 = 0 \<and> mantissa \<noteq> 0) ''negative or zero compact target'') (\<lambda>_.
      rbind (ensure (len \<le> 34) ''compact target overflow'') (\<lambda>_.
      let target = (if len \<le> 3 then mantissa div 2 ^ (8 * (3 - len)) else mantissa * 2 ^ (8 * (len - 3))) in
      rbind (ensure (target \<noteq> 0 \<and> target < 2 ^ 256) ''compact target out of range'') (\<lambda>_.
        Inr target))))"

definition difficulty_target :: "f64 \<Rightarrow> string + nat" where
  "difficulty_target difficulty =
     rbind (ensure (is_finite difficulty \<and> is_positive difficulty) ''difficulty must be positive and finite'') (\<lambda>_.
     let raw_exponent = f64_exponent difficulty;
         mantissa = difficulty mod 2 ^ 52 + (if raw_exponent = 0 then 0 else 2 ^ 52);
         exponent = (if raw_exponent = 0 then - 1074 else int raw_exponent - 1023 - 52) in
     rbind (target_from_compact 0x1d00ffff) (\<lambda>base.
     let numerator = (if exponent < 0 then base * 2 ^ nat (- exponent) else base);
         denominator = (if exponent < 0 then mantissa else mantissa * 2 ^ nat exponent) in
       Inr (min (max (numerator div denominator) 1) (2 ^ 256 - 1))))"

definition target_difficulty :: "numbers \<Rightarrow> nat \<Rightarrow> string + f64" where
  "target_difficulty N target =
     rbind (ensure (target \<noteq> 0) ''target must be positive'') (\<lambda>_.
     rbind (target_from_compact 0x1d00ffff) (\<lambda>base.
     rbind (ok_or (n_to_f64 N base) ''difficulty conversion'') (\<lambda>b.
     rbind (ok_or (n_to_f64 N target) ''target conversion'') (\<lambda>t.
       Inr (f64_div b t)))))"

definition scaled_target_difficulty :: "nat \<Rightarrow> string + u128" where
  "scaled_target_difficulty target =
     rbind (ensure (target \<noteq> 0) ''target must be positive'') (\<lambda>_.
     rbind (target_from_compact 0x207fffff) (\<lambda>base.
       ok_or (try_from 128 (max (base * 1000000 div target) 1)) ''scaled difficulty exceeds u128''))"

definition is_hexdigit :: "char \<Rightarrow> bool" where
  "is_hexdigit c \<longleftrightarrow> digit_value c \<noteq> None"

definition radix16 :: "string \<Rightarrow> nat" where
  "radix16 s = foldl (\<lambda>v c. 16 * v + the (digit_value c)) 0 s"

definition parse_u32_hex :: "string \<Rightarrow> string + u32" where
  "parse_u32_hex s =
     rbind (ensure (length s = 8 \<and> list_all is_hexdigit s) ''expected a 4-byte hex string'') (\<lambda>_.
       Inr (radix16 s))"

definition strip_0x :: "string \<Rightarrow> string" where
  "strip_0x s = (if take 2 s = ''0x'' then drop 2 s else s)"

definition version_mask_from_template :: "numbers \<Rightarrow> Value \<Rightarrow> 32 word \<Rightarrow> string + 32 word" where
  "version_mask_from_template N tmpl fallback =
     (case json_get ''versionrollingmask'' tmpl of
        None \<Rightarrow> Inr fallback
      | Some (JNumber number) \<Rightarrow>
          rbind (ok_or (as_u64 N (JNumber number)) ''invalid versionrollingmask'') (\<lambda>n.
          rbind (u32_try_into n) (\<lambda>n. Inr (of_nat n)))
      | Some (JString s) \<Rightarrow>
          (let s = strip_0x s in
           rbind (ensure (s \<noteq> [] \<and> length s \<le> 8 \<and> list_all is_hexdigit s) ''invalid versionrollingmask'') (\<lambda>_.
             Inr (of_nat (radix16 s))))
      | Some _ \<Rightarrow> Inl ''invalid versionrollingmask'')"

section \<open>The merkle branch\<close>

definition pair_up :: "crypto \<Rightarrow> byte list list \<Rightarrow> byte list list" where
  "pair_up X level = map (\<lambda>p. double_sha256 X (p ! 0 @ p ! 1)) (chunks 2 level)"

definition even_level :: "byte list list \<Rightarrow> byte list list" where
  "even_level level = (if length level mod 2 \<noteq> 0 then level @ [last level] else level)"

function branch_of :: "crypto \<Rightarrow> byte list list \<Rightarrow> byte list list" where
  "branch_of X level =
     (if length level > 1 then level ! 1 # branch_of X (pair_up X (even_level level)) else [])"
  by pat_completeness auto
termination
  by (relation "measure (\<lambda>(X, level). length level)") (auto simp: pair_up_def even_level_def length_chunks, presburger)

definition merkle_branch_for_coinbase :: "crypto \<Rightarrow> byte list list \<Rightarrow> string + byte list list" where
  "merkle_branch_for_coinbase X transactions =
     rbind (rmap strip_witness_transaction transactions) (\<lambda>stripped.
       Inr (branch_of X (replicate 32 0 # map (double_sha256 X) stripped)))"

definition transaction_data :: "crypto \<Rightarrow> Value \<Rightarrow> string + byte list" where
  "transaction_data X t = rbind (ok_or (as_str (json_index t ''data'')) ''transaction data missing'') (hex_decode X)"

definition transactions_from_template :: "crypto \<Rightarrow> Value \<Rightarrow> string + byte list list" where
  "transactions_from_template X tmpl =
     rbind (case json_get ''transactions'' tmpl of
              None \<Rightarrow> Inr []
            | Some v \<Rightarrow> ok_or (as_array v) ''template transactions must be an array'') (\<lambda>transactions.
       rmap (transaction_data X) transactions)"

definition witness_leaves_hex :: "crypto \<Rightarrow> byte list list \<Rightarrow> string list" where
  "witness_leaves_hex X transactions = map (\<lambda>tx. hex_encode X (double_sha256 X tx)) transactions"

section \<open>Jobs and submissions\<close>

datatype JobKind = Credit | BlockOnly

record Job =
  j_job_id :: string
  j_previousblockhash :: string
  j_prevhash :: string
  j_coinb1 :: string
  j_coinb2 :: string
  j_full_coinbase_prefix :: string
  j_full_coinbase_suffix :: string
  j_merkle_branch :: "byte list list"
  j_transactions :: "byte list list"
  j_version :: "32 word"
  j_version_mask :: "32 word"
  j_nbits :: u32
  j_ntime :: u32
  j_mintime :: u32
  j_network_target :: nat
  j_share_target :: nat
  j_share_difficulty :: f64
  j_extranonce1 :: string
  j_extranonce2_size :: usize
  j_clean_jobs :: bool
  j_resume_expires_at :: "nat option"
  j_refresh_generation :: u64
  j_payout_revision :: i64
  j_kind :: JobKind

definition assigned_target :: "f64 \<Rightarrow> f64 \<Rightarrow> nat \<Rightarrow> string + nat" where
  "assigned_target difficulty minimum_difficulty network_target =
     rbind (difficulty_target difficulty) (\<lambda>desired.
     let share_target = max desired network_target in
     if is_positive minimum_difficulty
     then rbind (difficulty_target minimum_difficulty) (\<lambda>cap. Inr (min share_target cap))
     else Inr share_target)"

definition swap_words :: "byte list \<Rightarrow> byte list" where
  "swap_words bytes = concat (map rev (chunks 4 bytes))"

definition from_manifest ::
  "crypto \<Rightarrow> numbers \<Rightarrow> string \<Rightarrow> Value \<Rightarrow> PayoutManifest \<Rightarrow> string \<Rightarrow> usize \<Rightarrow> f64 \<Rightarrow> f64 \<Rightarrow> bool \<Rightarrow> string + Job" where
  "from_manifest X N job_name tmpl manifest extranonce1 extranonce2_size desired_difficulty minimum_difficulty clean_jobs =
     rbind (ensure (extranonce2_size > 0 \<and> extranonce2_size \<le> 32) ''invalid extranonce2 size'') (\<lambda>_.
     rbind (ensure (is_finite minimum_difficulty \<and> is_nonnegative minimum_difficulty) ''invalid difficulty floor'') (\<lambda>_.
     rbind (hex_decode X (coinbase_tx_hex manifest)) (\<lambda>coinbase.
     rbind (strip_witness_transaction coinbase) (\<lambda>stripped.
     rbind (ensure (eq_ignore_ascii_case (hash_display X (double_sha256 X stripped)) (coinbase_txid manifest))
              ''manifest coinbase txid mismatch'') (\<lambda>_.
     rbind (hex_decode X extranonce1) (\<lambda>e1.
     let placeholder = e1 @ replicate extranonce2_size 0 in
     rbind (split_coinbase_extranonce stripped placeholder) (\<lambda>(coinb1, coinb2).
     rbind (split_coinbase_extranonce coinbase placeholder) (\<lambda>(full_prefix, full_suffix).
     rbind (transactions_from_template X tmpl) (\<lambda>transactions.
     rbind (merkle_branch_for_coinbase X transactions) (\<lambda>merkle_branch.
     rbind (ok_or (as_str (json_index tmpl ''previousblockhash'')) ''template previousblockhash missing'') (\<lambda>previous.
     let previousblockhash = to_ascii_lowercase previous in
     rbind (hex_decode X previousblockhash) (\<lambda>prevhash_bytes.
     rbind (ensure (length prevhash_bytes = 32) ''previousblockhash must be 32 bytes'') (\<lambda>_.
     rbind (ok_or (as_str (json_index tmpl ''bits'')) ''template bits missing'') (\<lambda>bits.
     rbind (parse_u32_hex bits) (\<lambda>nbits.
     rbind (target_from_compact nbits) (\<lambda>network_target.
     rbind (assigned_target desired_difficulty minimum_difficulty network_target) (\<lambda>share_target.
     rbind (ok_or (as_i64 N (json_index tmpl ''version'')) ''template version missing'') (\<lambda>version.
     rbind (ok_or (as_u64 N (json_index tmpl ''curtime'')) ''template curtime missing'') (\<lambda>curtime.
     rbind (u32_try_into curtime) (\<lambda>time.
     rbind (u32_try_into (case Option.bind (json_get ''mintime'' tmpl) (as_u64 N) of Some n \<Rightarrow> n | None \<Rightarrow> 0)) (\<lambda>mintime.
     rbind (version_mask_from_template N tmpl VERSION_ROLLING_MASK) (\<lambda>version_mask.
     rbind (target_difficulty N share_target) (\<lambda>difficulty.
       Inr \<lparr> j_job_id = job_name, j_previousblockhash = previousblockhash,
             j_prevhash = hex_encode X (swap_words (rev prevhash_bytes)),
             j_coinb1 = hex_encode X coinb1, j_coinb2 = hex_encode X coinb2,
             j_full_coinbase_prefix = hex_encode X full_prefix, j_full_coinbase_suffix = hex_encode X full_suffix,
             j_merkle_branch = merkle_branch, j_transactions = transactions,
             j_version = of_int version, j_version_mask = version_mask, j_nbits = nbits, j_ntime = time, j_mintime = mintime,
             j_network_target = network_target, j_share_target = share_target, j_share_difficulty = difficulty,
             j_extranonce1 = extranonce1, j_extranonce2_size = extranonce2_size, j_clean_jobs = clean_jobs,
             j_resume_expires_at = None, j_refresh_generation = 0, j_payout_revision = 0, j_kind = Credit \<rparr>)))))))))))))))))))))))"

definition fmt_08x :: "nat \<Rightarrow> string" where
  "fmt_08x n = map (\<lambda>i. hex_digit (n div 16 ^ i mod 16)) (rev [0..<8])"

definition notify :: "crypto \<Rightarrow> Job \<Rightarrow> Value" where
  "notify X job =
     JObject [(''id'', JNull), (''method'', JString ''mining.notify''),
       (''params'', JArray [JString (j_job_id job), JString (j_prevhash job), JString (j_coinb1 job), JString (j_coinb2 job),
          JArray (map (\<lambda>hash. JString (hex_encode X hash)) (j_merkle_branch job)),
          JString (fmt_08x (unat (j_version job))), JString (fmt_08x (j_nbits job)), JString (fmt_08x (j_ntime job)),
          JBool (j_clean_jobs job)])]"

definition reassign :: "crypto \<Rightarrow> numbers \<Rightarrow> Job \<Rightarrow> string \<Rightarrow> string \<Rightarrow> f64 \<Rightarrow> f64 \<Rightarrow> string + Job" where
  "reassign X N self job_name extranonce1 difficulty minimum_difficulty =
     rbind (ensure (length extranonce1 = length (j_extranonce1 self)) ''unexpected extranonce1 size'') (\<lambda>_.
     rbind (map_err (\<lambda>_. ''invalid extranonce1'') (hex_decode X extranonce1)) (\<lambda>_.
     rbind (ensure (is_finite minimum_difficulty \<and> is_nonnegative minimum_difficulty) ''invalid difficulty floor'') (\<lambda>_.
     rbind (assigned_target difficulty minimum_difficulty (j_network_target self)) (\<lambda>share_target.
     rbind (target_difficulty N share_target) (\<lambda>assigned.
       Inr (self \<lparr> j_job_id := job_name, j_extranonce1 := extranonce1, j_share_target := share_target,
                   j_share_difficulty := assigned \<rparr>))))))"

record Submission =
  sub_coinbase_tx_hex :: string
  sub_header_hex :: string
  sub_block_hex :: string
  sub_block_hash_hex :: string
  sub_share_pass :: bool
  sub_block_pass :: bool
  sub_extranonce2_hex :: string
  sub_ntime :: u32
  sub_nonce :: u32
  sub_applied_version :: "32 word"

definition applied_version :: "Job \<Rightarrow> string option \<Rightarrow> 32 word \<Rightarrow> string + 32 word" where
  "applied_version self version_bits version_mask =
     (case version_bits of
        None \<Rightarrow> Inr (j_version self)
      | Some s \<Rightarrow>
          rbind (parse_u32_hex s) (\<lambda>n.
          let bits = of_nat n in
          rbind (ensure (bits AND NOT version_mask = 0) ''version_bits include bits outside negotiated mask'') (\<lambda>_.
            Inr ((j_version self AND NOT version_mask) OR bits))))"

definition climb :: "crypto \<Rightarrow> byte list \<Rightarrow> byte list list \<Rightarrow> byte list" where
  "climb X = foldl (\<lambda>merkle sibling. double_sha256 X (merkle @ sibling))"

definition assemble_submission ::
  "crypto \<Rightarrow> Job \<Rightarrow> string \<Rightarrow> string \<Rightarrow> string \<Rightarrow> string option \<Rightarrow> 32 word \<Rightarrow> string + Submission" where
  "assemble_submission X self extranonce2 time_hex nonce_hex version_bits version_mask =
     rbind (ensure (length extranonce2 = j_extranonce2_size self * 2) ''unexpected extranonce2 size'') (\<lambda>_.
     rbind (map_err (\<lambda>_. ''invalid extranonce2'') (hex_decode X extranonce2)) (\<lambda>_.
     rbind (parse_u32_hex time_hex) (\<lambda>time.
     rbind (parse_u32_hex nonce_hex) (\<lambda>nonce.
     rbind (ensure (time \<ge> j_mintime self) ''ntime precedes template mintime'') (\<lambda>_.
     rbind (applied_version self version_bits version_mask) (\<lambda>version.
     rbind (hex_decode X (j_full_coinbase_prefix self @ j_extranonce1 self @ extranonce2 @ j_full_coinbase_suffix self)) (\<lambda>coinbase.
     rbind (hex_decode X (j_coinb1 self @ j_extranonce1 self @ extranonce2 @ j_coinb2 self)) (\<lambda>preimage.
     rbind (strip_witness_transaction coinbase) (\<lambda>stripped.
     rbind (ensure (stripped = preimage) ''coinbase witness and txid preimage mismatch'') (\<lambda>_.
     let merkle = climb X (double_sha256 X preimage) (j_merkle_branch self) in
     rbind (hex_decode X (j_previousblockhash self)) (\<lambda>previous.
     let header = le_bytes 4 (unat version) @ rev previous @ merkle @ le_bytes 4 time @
           le_bytes 4 (j_nbits self) @ le_bytes 4 nonce in
     rbind (ensure (length header = 80) ''invalid header size'') (\<lambda>_.
     let hash = double_sha256 X header; hash_int = from_le_bytes hash; block_pass = (hash_int \<le> j_network_target self);
         block = (if block_pass
           then header @ codec_compact_size (1 + length (j_transactions self)) @ coinbase @ concat (j_transactions self)
           else []) in
       Inr \<lparr> sub_coinbase_tx_hex = hex_encode X coinbase, sub_header_hex = hex_encode X header,
             sub_block_hex = hex_encode X block, sub_block_hash_hex = hash_display X hash,
             sub_share_pass = (hash_int \<le> j_share_target self), sub_block_pass = block_pass,
             sub_extranonce2_hex = to_ascii_lowercase extranonce2, sub_ntime = time, sub_nonce = nonce,
             sub_applied_version = version \<rparr>))))))))))))"

end
