(* ===== verification/Stratum_Work.thy ===== *)
theory Stratum_Work
  imports Stratum_Codec
begin

text \<open>What the work codec computes: the Merkle branch of the coinbase gives back the Merkle root, a walk over a
  serialized transaction finds the parts the transaction parser reads, the same bytes are found when more follow them,
  the transactions of a block are found one after the other, and a coinbase cut at its extranonce is the same
  coinbase around any extranonce of that length.\<close>

section \<open>Merkle branches\<close>

lemma chunks_two: "chunks 2 (x # y # zs) = [x, y] # chunks 2 zs" "chunks 2 [x] = [[x]]"
  by (simp_all add: chunks.simps[of 2])

lemma pair_up_even: "pair_up X (even_level level) = merkle_level X level"
proof (induction level rule: induct_list012)
  case (3 x y zs)
  have "even_level (x # y # zs) = x # y # even_level zs"
    by (cases zs) (simp_all add: even_level_def)
  then show ?case
    using 3 by (simp add: pair_up_def merkle_level_def chunks_two hash256_pair_def hash256_def double_sha256_def)
qed (simp_all add: pair_up_def merkle_level_def even_level_def chunks_two hash256_pair_def hash256_def double_sha256_def)

lemma merkle_level_two: "merkle_level X (x # y # zs) = double_sha256 X (x @ y) # merkle_level X zs"
  by (simp add: merkle_level_def chunks_two hash256_pair_def hash256_def double_sha256_def)

lemma climb_branch: "climb X h (branch_of X (z # hashes)) = merkle_root X (h # hashes)"
proof (induction "length hashes" arbitrary: h z hashes rule: less_induct)
  case less
  show ?case
  proof (cases hashes)
    case Nil
    then show ?thesis by (simp add: branch_of.simps[of X "[z]"] merkle_root.simps[of X "[h]"] climb_def)
  next
    case (Cons t ts)
    have len: "length (merkle_level X ts) < length hashes" using Cons by (simp add: length_merkle_level)
    have "climb X h (branch_of X (z # hashes)) = climb X (double_sha256 X (h @ t)) (branch_of X (double_sha256 X (z @ t) # merkle_level X ts))"
      by (simp add: Cons branch_of.simps[of X "z # t # ts"] pair_up_even merkle_level_two climb_def)
    also have "\<dots> = merkle_root X (double_sha256 X (h @ t) # merkle_level X ts)" by (rule less[OF len])
    also have "\<dots> = merkle_root X (h # hashes)"
      by (simp add: Cons merkle_root.simps[of X "h # t # ts"] merkle_level_two)
    finally show ?thesis .
  qed
qed

section \<open>Walking serialized data\<close>

abbreviation at :: "byte list \<Rightarrow> nat \<Rightarrow> Cursor" where
  "at bytes n \<equiv> \<lparr> cur_bytes = bytes, cur_offset = n \<rparr>"

lemma ensure_Inr: "ensure c msg = Inr u \<longleftrightarrow> c"
  by (simp add: ensure_def)

lemma codec_compact_size_eq: "codec_compact_size = compact_size"
  by (rule ext) (auto simp: codec_compact_size_def compact_size_def)

lemma cur_take_Inr:
  "cur_take n c = Inr (x, c') \<longleftrightarrow> cur_offset c + n < 2 ^ 64 \<and> cur_offset c + n \<le> length (cur_bytes c) \<and>
     x = take n (drop (cur_offset c) (cur_bytes c)) \<and> c' = c \<lparr> cur_offset := cur_offset c + n \<rparr>"
  by (auto simp: cur_take_def rbind_Inr ok_or_Inr checked_add_def)

lemma cur_take_at:
  "length (a @ p) < 2 ^ 64 \<Longrightarrow> length p = n \<Longrightarrow> cur_take n (at (a @ p @ q) (length a)) = Inr (p, at (a @ p @ q) (length (a @ p)))"
  by (simp add: cur_take_Inr)

lemma cur_wide_at:
  assumes "length (a @ le_bytes k n) < 2 ^ 64" and "n < 256 ^ k"
  shows "cur_wide k (at (a @ le_bytes k n @ q) (length a)) = Inr (n, at (a @ le_bytes k n @ q) (length a + k))"
  using cur_take_at[of a "le_bytes k n" k q] assms by (simp add: cur_wide_def)

lemma compact_size_cases:
  assumes "n < 2 ^ 64"
  obtains (small) "n < 253" "compact_size n = [of_nat n]"
    | (wide) b k where "compact_size n = of_nat b # le_bytes k n" "n < 256 ^ k" "(b, k) \<in> {(253, 2), (254, 4), (255, 8)}"
        "canonical_count b n"
proof (cases "n < 253")
  case True
  then show thesis by (intro small) (simp_all add: compact_size_def)
next
  case False
  then consider "n \<le> 0xffff" | "0xffff < n" "n \<le> 0xffffffff" | "0xffffffff < n" by linarith
  then show thesis
    using False assms
    by cases (rule wide[of 253 2] wide[of 254 4] wide[of 255 8]; simp add: compact_size_def canonical_count_def)+
qed

lemma cur_count_at:
  assumes "length (a @ compact_size n) < 2 ^ 64" and "n < 2 ^ 64" and "n \<le> length (a @ compact_size n @ q)"
  shows "cur_count (at (a @ compact_size n @ q) (length a)) = Inr (n, at (a @ compact_size n @ q) (length (a @ compact_size n)))"
proof -
  from assms(2) show ?thesis
  proof (cases rule: compact_size_cases)
    case small
    then show ?thesis
      using assms cur_take_at[of a "[of_nat n]" 1 q]
      by (simp add: cur_count_def compact_size_def ensure_def canonical_count_def unat_of_nat)
  next
    case w: (wide b k)
    have one: "cur_take 1 (at (a @ compact_size n @ q) (length a)) = Inr ([of_nat b], at (a @ compact_size n @ q) (length (a @ [of_nat b])))"
      using cur_take_at[of a "[of_nat b]" 1 "le_bytes k n @ q"] assms(1) by (simp add: w(1))
    have wide: "cur_wide k (at (a @ compact_size n @ q) (length (a @ [of_nat b]))) = Inr (n, at (a @ compact_size n @ q) (length (a @ compact_size n)))"
      using cur_wide_at[of "a @ [of_nat b]" k n q] assms(1) w(2) by (simp add: w(1))
    have b: "unat (of_nat b :: byte) = b" using w(3) by auto
    show ?thesis
      unfolding cur_count_def one rbind.simps prod.case Let_def
      using w(3) wide w(4) assms(3) by (auto simp: b ensure_def)
  qed
qed

locale walker =
  fixes walk :: "Cursor \<Rightarrow> string + Cursor" and enc :: "'a \<Rightarrow> byte list" and ok :: "'a \<Rightarrow> bool"
  assumes walks: "ok x \<Longrightarrow> length (a @ enc x @ q) < 2 ^ 64 \<Longrightarrow>
    walk (at (a @ enc x @ q) (length a)) = Inr (at (a @ enc x @ q) (length (a @ enc x)))"
begin

lemma walks_many:
  "\<forall>x\<in>set xs. ok x \<Longrightarrow> length (a @ concat (map enc xs) @ q) < 2 ^ 64 \<Longrightarrow>
   walk_times walk (length xs) (at (a @ concat (map enc xs) @ q) (length a)) =
     Inr (at (a @ concat (map enc xs) @ q) (length (a @ concat (map enc xs))))"
proof (induction xs arbitrary: a)
  case (Cons x xs)
  then show ?case
    using walks[of x a "concat (map enc xs) @ q"] Cons.IH[of "a @ enc x"] by (simp add: add.assoc)
qed simp

end

interpretation walk_strings: walker cur_string "\<lambda>s. compact_size (length s) @ s" "\<lambda>s. length s < 2 ^ 64"
proof
  fix s a q :: "byte list"
  let ?b = "a @ (compact_size (length s) @ s) @ q"
  assume s: "length s < 2 ^ 64" and len: "length ?b < 2 ^ 64"
  have "cur_count (at ?b (length a)) = Inr (length s, at ?b (length (a @ compact_size (length s))))"
    using cur_count_at[of a "length s" "s @ q"] s len by simp
  moreover have "cur_take (length s) (at ?b (length (a @ compact_size (length s)))) = Inr (s, at ?b (length (a @ compact_size (length s) @ s)))"
    using cur_take_at[of "a @ compact_size (length s)" s _ q] len by simp
  ultimately show "cur_string (at ?b (length a)) = Inr (at ?b (length (a @ compact_size (length s) @ s)))"
    by (simp add: cur_string_def)
qed

interpretation walk_inputs: walker walk_input "tx_in_bytes X" "tx_in_ok X" for X
proof
  fix i :: "'b ParsedTxIn_scheme" and a q
  let ?b = "a @ tx_in_bytes X i @ q" and ?s = "ti_script_sig i"
  let ?p = "rev (prev_txid_bytes X i) @ le_bytes 4 (ti_prev_vout i)"
  assume ok: "tx_in_ok X i" and len: "length ?b < 2 ^ 64"
  have b: "?b = a @ ?p @ (compact_size (length ?s) @ ?s) @ le_bytes 4 (ti_sequence i) @ q"
    by (simp add: tx_in_bytes_def tx_in_tail_def)
  have p: "length ?p = 36" using ok by (simp add: tx_in_ok_def)
  have "cur_take 36 (at ?b (length a)) = Inr (?p, at ?b (length (a @ ?p)))"
    unfolding b using cur_take_at[of a ?p 36] p len[unfolded b] by simp
  moreover have "cur_string (at ?b (length (a @ ?p))) = Inr (at ?b (length (a @ ?p @ compact_size (length ?s) @ ?s)))"
    using walk_strings.walks[of ?s "a @ ?p" "le_bytes 4 (ti_sequence i) @ q"] ok len[unfolded b] unfolding b
    by (simp add: tx_in_ok_def)
  moreover have "cur_take 4 (at ?b (length (a @ ?p @ compact_size (length ?s) @ ?s))) =
      Inr (le_bytes 4 (ti_sequence i), at ?b (length (a @ tx_in_bytes X i)))"
    using cur_take_at[of "a @ ?p @ compact_size (length ?s) @ ?s" "le_bytes 4 (ti_sequence i)" 4 q] len
    by (simp add: tx_in_bytes_def tx_in_tail_def)
  ultimately show "walk_input (at ?b (length a)) = Inr (at ?b (length (a @ tx_in_bytes X i)))"
    by (simp add: walk_input_def)
qed

interpretation walk_outputs: walker walk_output serialize_tx_out tx_out_ok
proof
  fix o' :: ParsedTxOut and a q
  let ?b = "a @ serialize_tx_out o' @ q" and ?s = "to_script_pubkey o'" and ?p = "le_bytes 8 (to_amount_sats o')"
  assume ok: "tx_out_ok o'" and len: "length ?b < 2 ^ 64"
  have b: "?b = a @ ?p @ (compact_size (length ?s) @ ?s) @ q" by (simp add: serialize_tx_out_def)
  have "cur_take 8 (at ?b (length a)) = Inr (?p, at ?b (length (a @ ?p)))"
    unfolding b using cur_take_at[of a ?p 8] len[unfolded b] by simp
  moreover have "cur_string (at ?b (length (a @ ?p))) = Inr (at ?b (length (a @ serialize_tx_out o')))"
    using walk_strings.walks[of ?s "a @ ?p" q] ok len[unfolded b] unfolding b
    by (simp add: tx_out_ok_def serialize_tx_out_def)
  ultimately show "walk_output (at ?b (length a)) = Inr (at ?b (length (a @ serialize_tx_out o')))"
    by (simp add: walk_output_def)
qed

interpretation walk_stacks: walker walk_stack serialize_stack stack_ok
proof
  fix s a q
  let ?items = "concat (map (\<lambda>item. compact_size (length item) @ item) s)"
  let ?b = "a @ serialize_stack s @ q"
  assume ok: "stack_ok s" and len: "length ?b < 2 ^ 64"
  have b: "?b = (a @ compact_size (length s)) @ ?items @ q" by (simp add: serialize_stack_def)
  have "length s \<le> length ?items" using strings.many_length[of s] ok by (simp add: stack_ok_def)
  then have "cur_count (at ?b (length a)) = Inr (length s, at ?b (length (a @ compact_size (length s))))"
    using cur_count_at[of a "length s" "?items @ q"] ok len by (simp add: serialize_stack_def stack_ok_def)
  moreover have "walk_times cur_string (length s) (at ?b (length (a @ compact_size (length s)))) = Inr (at ?b (length (a @ serialize_stack s)))"
    using walk_strings.walks_many[of s "a @ compact_size (length s)" q] ok len unfolding b
    by (simp add: stack_ok_def serialize_stack_def)
  ultimately show "walk_stack (at ?b (length a)) = Inr (at ?b (length (a @ serialize_stack s)))"
    by (simp add: walk_stack_def)
qed

section \<open>Walking a transaction\<close>

definition layout_of :: "nat \<Rightarrow> nat \<Rightarrow> nat \<Rightarrow> TransactionLayout" where
  "layout_of flag body wit =
     \<lparr> body_start = 4 + flag, body_end = 4 + flag + body, locktime_start = 4 + flag + body + wit, lay_len = 8 + flag + body + wit \<rparr>"

text \<open>The two forms of a serialized transaction that the codec accepts.\<close>

definition wire_witness :: "nat \<Rightarrow> byte list \<Rightarrow> byte list \<Rightarrow> bool" where
  "wire_witness n flag wit \<longleftrightarrow> flag = [] \<and> wit = [] \<or>
     flag = [0, 1] \<and> (\<exists>ss. length ss = n \<and> (\<forall>s\<in>set ss. stack_ok s) \<and> wit = concat (map serialize_stack ss))"

lemma tx_body_head:
  assumes "tx_parts_ok X ins outs"
  shows "\<exists>b bs. tx_body X ins outs = b # bs \<and> b \<noteq> 0" "length (tx_body X ins outs) \<ge> 43"
proof -
  obtain i rest where ins: "ins = i # rest" using assms by (cases ins) (auto simp: tx_parts_ok_def)
  obtain b bs where "compact_size (length ins) = b # bs" "b \<noteq> 0"
    using compact_size_first[of "length ins"] assms by (auto simp: tx_parts_ok_def)
  then show "\<exists>b bs. tx_body X ins outs = b # bs \<and> b \<noteq> 0" by (simp add: tx_body_def)
  have "length (tx_in_bytes X i) \<ge> 41"
    using assms compact_size_nonempty[of "length (ti_script_sig i)"]
    by (cases "compact_size (length (ti_script_sig i))") (simp_all add: ins tx_parts_ok_def tx_in_ok_def tx_in_bytes_def tx_in_tail_def)
  moreover have "1 \<le> length (compact_size (length ins))" "1 \<le> length (compact_size (length outs))"
    by (simp_all add: Suc_le_eq)
  ultimately show "length (tx_body X ins outs) \<ge> 43" by (simp add: tx_body_def ins)
qed

lemma walk_body:
  fixes ins :: "'x ParsedTxIn_scheme list"
  assumes ok: "tx_parts_ok X ins outs" and len: "length (a @ tx_body X ins outs @ q) < 2 ^ 64"
  defines "b \<equiv> a @ tx_body X ins outs @ q"
  obtains c1 c2 c3 where "cur_count (at b (length a)) = Inr (length ins, c1)" "walk_times walk_input (length ins) c1 = Inr c2"
    "cur_count c2 = Inr (length outs, c3)" "walk_times walk_output (length outs) c3 = Inr (at b (length (a @ tx_body X ins outs)))"
proof -
  let ?i = "concat (map (tx_in_bytes X) ins)" and ?o = "concat (map serialize_tx_out outs)"
  have b: "b = a @ compact_size (length ins) @ ?i @ compact_size (length outs) @ ?o @ q" by (simp add: b_def tx_body_def)
  have lb: "length b < 2 ^ 64" using len by (simp add: b_def)
  have ins: "\<forall>i\<in>set ins. tx_in_ok X i" "length ins < 2 ^ 64" and outs: "\<forall>t\<in>set outs. tx_out_ok t" "length outs < 2 ^ 64"
    using ok by (auto simp: tx_parts_ok_def)
  have "length (tx_in_bytes X i) \<ge> 1" for i :: "'x ParsedTxIn_scheme" by (simp add: tx_in_bytes_def tx_in_tail_def)
  from sum_list_mono[of ins "\<lambda>_. 1" "\<lambda>i. length (tx_in_bytes X i)", OF this] have li: "length ins \<le> length ?i"
    by (simp add: length_concat comp_def sum_list_triv)
  have lo: "length outs \<le> length ?o" using tx_outs.many_length[of outs] outs by simp
  let ?c1 = "at b (length (a @ compact_size (length ins)))" and ?c2 = "at b (length (a @ compact_size (length ins) @ ?i))"
    and ?c3 = "at b (length (a @ compact_size (length ins) @ ?i @ compact_size (length outs)))"
  show thesis
  proof
    show "cur_count (at b (length a)) = Inr (length ins, ?c1)"
      unfolding b using cur_count_at[of a "length ins" "?i @ compact_size (length outs) @ ?o @ q"] lb ins(2) li by (simp add: b)
    show "walk_times walk_input (length ins) ?c1 = Inr ?c2"
      unfolding b using walk_inputs.walks_many[OF ins(1), of "a @ compact_size (length ins)" "compact_size (length outs) @ ?o @ q"] lb
      by (simp add: b)
    show "cur_count ?c2 = Inr (length outs, ?c3)"
      unfolding b using cur_count_at[of "a @ compact_size (length ins) @ ?i" "length outs" "?o @ q"] lb outs(2) lo by (simp add: b)
    show "walk_times walk_output (length outs) ?c3 = Inr (at b (length (a @ tx_body X ins outs)))"
      unfolding b using walk_outputs.walks_many[OF outs(1), of "a @ compact_size (length ins) @ ?i @ compact_size (length outs)" q] lb
      by (simp add: b tx_body_def)
  qed
qed

lemma walk_tx_bytes:
  assumes ok: "tx_parts_ok X ins outs" and wit: "wire_witness (length ins) flag wit"
    and len: "length (tx_bytes X v flag ins outs wit lock @ q) < 2 ^ 64"
  shows "walk_transaction (tx_bytes X v flag ins outs wit lock @ q) =
    Inr (layout_of (length flag) (length (tx_body X ins outs)) (length wit))"
proof -
  let ?b = "tx_bytes X v flag ins outs wit lock @ q" and ?body = "tx_body X ins outs"
  have b: "?b = (le_bytes 4 v @ flag) @ ?body @ (wit @ le_bytes 4 lock @ q)" by (simp add: tx_bytes_def)
  obtain x xs where x: "?body = x # xs" "x \<noteq> 0" using tx_body_head(1)[OF ok] by blast
  have long: "length ?b \<ge> 10" using tx_body_head(2)[OF ok] by (simp add: tx_bytes_def)
  have w: "(?b ! 4 = 0 \<and> ?b ! 5 \<noteq> 0) = (flag \<noteq> [])" "flag \<noteq> [] \<Longrightarrow> ?b ! 5 = 1"
    using wit x by (auto simp: wire_witness_def tx_bytes_def nth_append)
  have start: "(if flag \<noteq> [] then rbind (ensure (?b ! 5 = 1) ''unsupported witness transaction flags'')
      (\<lambda>_. rbind (cur_take 2 (at ?b 4)) (\<lambda>(_, c). Inr c)) else Inr (at ?b 4)) = Inr (at ?b (length (le_bytes 4 v @ flag)))"
    using w(2) wit len cur_take_at[of "le_bytes 4 v" flag 2 "?body @ wit @ le_bytes 4 lock @ q"]
    by (auto simp: wire_witness_def ensure_def tx_bytes_def)
  obtain c1 c2 c3 where body: "cur_count (at ?b (length (le_bytes 4 v @ flag))) = Inr (length ins, c1)"
    "walk_times walk_input (length ins) c1 = Inr c2" "cur_count c2 = Inr (length outs, c3)"
    "walk_times walk_output (length outs) c3 = Inr (at ?b (length ((le_bytes 4 v @ flag) @ ?body)))"
    using walk_body[OF ok, of "le_bytes 4 v @ flag" "wit @ le_bytes 4 lock @ q"] len unfolding b by metis
  have stacks: "(if flag \<noteq> [] then walk_times walk_stack (length ins) (at ?b (length ((le_bytes 4 v @ flag) @ ?body)))
      else Inr (at ?b (length ((le_bytes 4 v @ flag) @ ?body)))) = Inr (at ?b (length ((le_bytes 4 v @ flag) @ ?body @ wit)))"
  proof (cases "flag = []")
    case False
    then obtain ss where ss: "length ss = length ins" "\<forall>s\<in>set ss. stack_ok s" "wit = concat (map serialize_stack ss)"
      using wit by (auto simp: wire_witness_def)
    then show ?thesis
      using False walk_stacks.walks_many[OF ss(2), of "(le_bytes 4 v @ flag) @ ?body" "le_bytes 4 lock @ q"] len
      by (simp add: tx_bytes_def)
  qed (use wit in \<open>simp add: wire_witness_def\<close>)
  have lock: "cur_take 4 (at ?b (length ((le_bytes 4 v @ flag) @ ?body @ wit))) =
      Inr (le_bytes 4 lock, at ?b (length ((le_bytes 4 v @ flag) @ ?body @ wit @ le_bytes 4 lock)))"
    using cur_take_at[of "(le_bytes 4 v @ flag) @ ?body @ wit" "le_bytes 4 lock" 4 q] len by (simp add: b)
  have "length ins > 0" using ok by (simp add: tx_parts_ok_def)
  then have e: "ensure (length ?b \<ge> 10) msg = Inr ()" "ensure (length ins > 0) msg = Inr ()" for msg
    using long by (simp_all add: ensure_def)
  show ?thesis
    unfolding walk_transaction_def Let_def w(1)
    by (simp only: e start rbind.simps body prod.case stacks lock) (simp add: layout_of_def)
qed

lemma strip_tx_bytes:
  assumes "tx_parts_ok X ins outs" "wire_witness (length ins) flag wit" "length (tx_bytes X v flag ins outs wit lock) < 2 ^ 64"
  shows "strip_witness_transaction (tx_bytes X v flag ins outs wit lock) = Inr (tx_bytes X v [] ins outs [] lock)"
  using walk_tx_bytes[OF assms(1,2), of v lock "[]"] assms(3)
  by (simp add: strip_witness_transaction_def ensure_def layout_of_def slice_def) (simp add: tx_bytes_def)

section \<open>Bytes that follow\<close>

text \<open>A walk that succeeds also succeeds, with the same result, when more bytes follow.\<close>

definition longer :: "byte list \<Rightarrow> Cursor \<Rightarrow> Cursor" where
  "longer r c = c \<lparr> cur_bytes := cur_bytes c @ r \<rparr>"

lemma longer_at [simp]: "longer r (at b k) = at (b @ r) k" "cur_offset (longer r c) = cur_offset c"
  "cur_bytes (longer r c) = cur_bytes c @ r"
  by (simp_all add: longer_def)

lemma cur_take_longer: "cur_take n c = Inr (x, c') \<Longrightarrow> cur_take n (longer r c) = Inr (x, longer r c')"
  by (auto simp: cur_take_Inr longer_def)

lemma cur_wide_longer: "cur_wide n c = Inr (x, c') \<Longrightarrow> cur_wide n (longer r c) = Inr (x, longer r c')"
  by (auto simp: cur_wide_def rbind_Inr cur_take_longer)

lemma cur_count_longer: "cur_count c = Inr (n, c') \<Longrightarrow> cur_count (longer r c) = Inr (n, longer r c')"
proof -
  assume c: "cur_count c = Inr (n, c')"
  then obtain one c1 where t: "cur_take 1 c = Inr (one, c1)" by (auto simp: cur_count_def rbind_Inr)
  show ?thesis
    using c unfolding cur_count_def t cur_take_longer[OF t] rbind.simps prod.case Let_def
    by (auto simp: rbind_Inr ensure_def cur_wide_longer split: if_splits)
qed

definition widens :: "(Cursor \<Rightarrow> string + Cursor) \<Rightarrow> bool" where
  "widens walk \<longleftrightarrow> (\<forall>c c' r. walk c = Inr c' \<longrightarrow> walk (longer r c) = Inr (longer r c'))"

lemma widensD: "widens walk \<Longrightarrow> walk c = Inr c' \<Longrightarrow> walk (longer r c) = Inr (longer r c')"
  unfolding widens_def by blast

lemma walk_times_widens: "widens walk \<Longrightarrow> widens (walk_times walk n)"
  by (induction n) (auto simp: widens_def rbind_Inr)

lemma cur_string_widens: "widens cur_string"
  by (auto simp: widens_def cur_string_def rbind_Inr cur_count_longer cur_take_longer)

lemma walk_input_widens: "widens walk_input"
  by (auto simp: widens_def walk_input_def rbind_Inr cur_take_longer widensD[OF cur_string_widens])

lemma walk_output_widens: "widens walk_output"
  by (auto simp: widens_def walk_output_def rbind_Inr cur_take_longer widensD[OF cur_string_widens])

lemma walk_stack_widens: "widens walk_stack"
  by (auto simp: widens_def walk_stack_def rbind_Inr cur_count_longer widensD[OF walk_times_widens[OF cur_string_widens]])

lemmas walk_longer = widensD[OF walk_times_widens[OF walk_input_widens]] widensD[OF walk_times_widens[OF walk_output_widens]]
  widensD[OF walk_times_widens[OF walk_stack_widens]]

lemma walk_transaction_Inr:
  "walk_transaction b = Inr l \<longleftrightarrow> length b \<ge> 10 \<and>
     (\<exists>c0 ins c1 c2 outs c3 c4 c5 lock c6.
        (if b ! 4 = 0 \<and> b ! 5 \<noteq> 0 then b ! 5 = 1 \<and> (\<exists>x. cur_take 2 (at b 4) = Inr (x, c0)) else c0 = at b 4) \<and>
        cur_count c0 = Inr (ins, c1) \<and> 0 < ins \<and> walk_times walk_input ins c1 = Inr c2 \<and> cur_count c2 = Inr (outs, c3) \<and>
        walk_times walk_output outs c3 = Inr c4 \<and>
        (if b ! 4 = 0 \<and> b ! 5 \<noteq> 0 then walk_times walk_stack ins c4 = Inr c5 else c5 = c4) \<and>
        cur_take 4 c5 = Inr (lock, c6) \<and>
        l = \<lparr> body_start = cur_offset c0, body_end = cur_offset c4, locktime_start = cur_offset c5, lay_len = cur_offset c6 \<rparr>)"
proof (cases "b ! 4 = 0 \<and> b ! 5 \<noteq> 0")
  case True
  then show ?thesis unfolding walk_transaction_def Let_def if_P[OF True] by (auto simp: rbind_Inr ensure_Inr; metis)
next
  case False
  then show ?thesis unfolding walk_transaction_def Let_def if_not_P[OF False] by (auto simp: rbind_Inr ensure_Inr; metis)
qed

lemma walk_transaction_longer: "walk_transaction b = Inr l \<Longrightarrow> walk_transaction (b @ r) = Inr l"
proof -
  assume w: "walk_transaction b = Inr l"
  then have "length b \<ge> 10" by (simp add: walk_transaction_Inr)
  then have "(b @ r) ! 4 = b ! 4" "(b @ r) ! 5 = b ! 5" by (simp_all add: nth_append)
  then show ?thesis
    using w unfolding walk_transaction_def Let_def longer_at(1)[symmetric]
    by (auto simp: rbind_Inr ensure_Inr cur_take_longer cur_count_longer walk_longer simp del: longer_at(1) split: if_splits)
qed

section \<open>Blocks\<close>

definition whole_transaction :: "byte list \<Rightarrow> bool" where
  "whole_transaction tx \<longleftrightarrow> (\<exists>l. walk_transaction tx = Inr l \<and> lay_len l = length tx)"

lemma strip_whole: "strip_witness_transaction tx = Inr s \<Longrightarrow> whole_transaction tx"
  by (auto simp: strip_witness_transaction_def whole_transaction_def rbind_Inr ensure_Inr)

lemma whole_transaction_length: "whole_transaction tx \<Longrightarrow> length tx \<ge> 10"
  by (auto simp: whole_transaction_def walk_transaction_Inr)

lemma leaf_steps:
  assumes "\<forall>tx\<in>set txs. whole_transaction tx" and "block = pre @ concat txs"
  shows "rfold (leaf_step X block n) (length pre, leaves) [i..<i + length txs] =
    Inr (length block, leaves @ witness_leaves_hex X (if i = 0 then tl txs else txs))"
  using assms
proof (induction txs arbitrary: pre i leaves)
  case (Cons tx txs)
  obtain l where l: "walk_transaction tx = Inr l" "lay_len l = length tx"
    using Cons.prems(1) by (auto simp: whole_transaction_def)
  have "leaf_step X block n (length pre, leaves) i =
      Inr (length (pre @ tx), if i > 0 then leaves @ [hex_encode X (double_sha256 X tx)] else leaves)"
    using walk_transaction_longer[OF l(1), of "concat txs"] l(2)
    by (simp add: leaf_step_def get_from_def Cons.prems(2))
  moreover have "rfold (leaf_step X block n) (length (pre @ tx), ls) [Suc i..<Suc i + length txs] =
      Inr (length block, ls @ witness_leaves_hex X txs)" for ls
    using Cons.IH[of "pre @ tx" ls "Suc i"] Cons.prems by simp
  moreover have "[i..<i + length (tx # txs)] = i # [Suc i..<Suc i + length txs]"
    using upt_conv_Cons[of i "i + length (tx # txs)"] by simp
  ultimately show ?case by (cases i) (simp_all add: witness_leaves_hex_def)
qed (simp add: witness_leaves_hex_def)

lemma block_count_at:
  assumes "length header = 80" and "n < 2 ^ 64" and "0 < n" and "n \<le> length rest"
  shows "block_count (header @ compact_size n @ rest) = Inr (n, 80 + length (compact_size n))"
proof -
  have "cur_count (at (header @ compact_size n @ rest) 80) = Inr (n, at (header @ compact_size n @ rest) (80 + length (compact_size n)))"
    using cur_count_at[of header n rest] assms compact_size_short[of n] by simp
  then show ?thesis using assms by (simp add: block_count_def ensure_def)
qed

lemma block_leaves:
  assumes h: "length header = 80" and n: "length txs < 2 ^ 64 - 1" and cb: "whole_transaction coinbase"
    and txs: "\<forall>tx\<in>set txs. whole_transaction tx"
    and b: "block = header @ compact_size (1 + length txs) @ coinbase @ concat txs"
  shows "witness_merkle_leaves_from_block X block = Inr (witness_leaves_hex X txs)"
    and "coinbase_from_block block = Inr coinbase"
proof -
  let ?n = "1 + length txs" and ?cs = "compact_size (1 + length txs)"
  have "length xs \<le> length (concat xs)" if "\<forall>x\<in>set xs. whole_transaction x" for xs
    using that whole_transaction_length by (induction xs) fastforce+
  from this[of "coinbase # txs"] cb txs have len: "?n \<le> length (coinbase @ concat txs)" by simp
  have count: "block_count block = Inr (?n, length (header @ ?cs))"
    using block_count_at[of header ?n "coinbase @ concat txs"] h n len by (simp add: b)
  have "rfold (leaf_step X block ?n) (length (header @ ?cs), []) [0..<0 + length (coinbase # txs)] =
      Inr (length block, [] @ witness_leaves_hex X (if (0 :: nat) = 0 then tl (coinbase # txs) else coinbase # txs))"
    by (rule leaf_steps) (use cb txs in \<open>simp_all add: b\<close>)
  then show "witness_merkle_leaves_from_block X block = Inr (witness_leaves_hex X txs)"
    unfolding witness_merkle_leaves_from_block_def count by (simp add: ensure_def)
  obtain l where l: "walk_transaction coinbase = Inr l" "lay_len l = length coinbase"
    using cb by (auto simp: whole_transaction_def)
  show "coinbase_from_block block = Inr coinbase"
    using walk_transaction_longer[OF l(1), of "concat txs"] l(2)
    unfolding coinbase_from_block_def count by (simp add: get_from_def b)
qed

section \<open>The extranonce in the coinbase\<close>

lemma wire_form:
  assumes hex: "hex_law X" and p: "parse_transaction X bytes field = Inr tx" and w: "whole_transaction bytes"
  obtains flag wit where "bytes = tx_bytes X (pt_version tx) flag (pt_inputs tx) (pt_outputs tx) wit (pt_lock_time tx)"
    "tx_parts_ok X (pt_inputs tx) (pt_outputs tx)" "wire_witness (length (pt_inputs tx)) flag wit" "length bytes < 2 ^ 64"
    "pt_version tx < 2 ^ 32" "pt_lock_time tx < 2 ^ 32"
    "pt_tx_without_witness tx = tx_bytes X (pt_version tx) [] (pt_inputs tx) (pt_outputs tx) [] (pt_lock_time tx)"
    "case pt_witness_stacks tx of None \<Rightarrow> flag = [] \<and> wit = []
     | Some ss \<Rightarrow> (\<exists>b. b \<noteq> 0 \<and> flag = [0, b]) \<and> length ss = length (pt_inputs tx) \<and>
         (\<forall>s\<in>set ss. stack_ok s) \<and> wit = concat (map serialize_stack ss)"
proof -
  obtain flag wit where b: "bytes = tx_bytes X (pt_version tx) flag (pt_inputs tx) (pt_outputs tx) wit (pt_lock_time tx)"
    and rest: "tx_parts_ok X (pt_inputs tx) (pt_outputs tx)" "pt_version tx < 2 ^ 32" "pt_lock_time tx < 2 ^ 32"
    "pt_tx_without_witness tx = tx_bytes X (pt_version tx) [] (pt_inputs tx) (pt_outputs tx) [] (pt_lock_time tx)"
    and wit: "case pt_witness_stacks tx of None \<Rightarrow> flag = [] \<and> wit = []
     | Some ss \<Rightarrow> (\<exists>b. b \<noteq> 0 \<and> flag = [0, b]) \<and> length ss = length (pt_inputs tx) \<and>
         (\<forall>s\<in>set ss. stack_ok s) \<and> wit = concat (map serialize_stack ss)"
    by (rule parse_transaction_Inr[OF hex p])
  have len: "length bytes < 2 ^ 64" using w by (auto simp: whole_transaction_def walk_transaction_Inr cur_take_Inr)
  have "flag = [0, f] \<Longrightarrow> f \<noteq> 0 \<Longrightarrow> f = 1" for f
    using w unfolding b whole_transaction_def walk_transaction_Inr by (auto simp: tx_bytes_def nth_append split: if_splits)
  then have "wire_witness (length (pt_inputs tx)) flag wit"
    using wit by (auto simp: wire_witness_def split: option.splits)
  from that[OF b rest(1) this len rest(2-4) wit] show thesis .
qed

lemma skip_marker_at:
  assumes ok: "tx_parts_ok X ins outs" and wit: "wire_witness (length ins) flag wit"
    and len: "length (tx_bytes X v flag ins outs wit lock) < 2 ^ 64"
  shows "skip_marker (tx_bytes X v flag ins outs wit lock) = Inr (at (tx_bytes X v flag ins outs wit lock) (4 + length flag))"
proof -
  let ?b = "tx_bytes X v flag ins outs wit lock"
  obtain x xs where x: "tx_body X ins outs = x # xs" "x \<noteq> 0" using tx_body_head(1)[OF ok] by blast
  have "(?b ! 4 = 0 \<and> ?b ! 5 \<noteq> 0) = (flag \<noteq> [])"
    using wit x by (auto simp: wire_witness_def tx_bytes_def nth_append)
  then show ?thesis
    unfolding skip_marker_def Let_def
    using wit len cur_take_at[of "le_bytes 4 v" flag 2 "tx_body X ins outs @ wit @ le_bytes 4 lock"]
    by (auto simp: wire_witness_def tx_bytes_def)
qed

lemma split_tx_bytes:
  fixes i :: ParsedTxIn
  assumes ok: "tx_parts_ok X [i] outs" and wit: "wire_witness 1 flag wit"
    and len: "length (tx_bytes X v flag [i] outs wit lock) < 2 ^ 64"
    and run: "split_coinbase_extranonce (tx_bytes X v flag [i] outs wit lock) ph = Inr (p, s)"
  obtains s0 where "ti_script_sig i = s0 @ ph" "ph \<noteq> []"
    "\<And>ph'. length ph' = length ph \<Longrightarrow> p @ ph' @ s = tx_bytes X v flag [i \<lparr> ti_script_sig := s0 @ ph' \<rparr>] outs wit lock"
proof -
  let ?b = "tx_bytes X v flag [i] outs wit lock" and ?s = "ti_script_sig i"
  let ?a = "le_bytes 4 v @ flag" and ?o = "rev (prev_txid_bytes X i) @ le_bytes 4 (ti_prev_vout i)"
  define q where "q = le_bytes 4 (ti_sequence i) @ compact_size (length outs) @ concat (map serialize_tx_out outs) @ wit @ le_bytes 4 lock"
  have i: "tx_in_ok X i" using ok by (simp add: tx_parts_ok_def)
  have b: "?b = ?a @ compact_size 1 @ ?o @ compact_size (length ?s) @ ?s @ q"
    by (simp add: tx_bytes_def tx_body_def tx_in_bytes_def tx_in_tail_def q_def)
  have o36: "length ?o = 36" using i by (simp add: tx_in_ok_def)
  define k0 k1 k2 k3 k4 where k: "k0 = length ?a" "k1 = length (?a @ compact_size 1)" "k2 = length (?a @ compact_size 1 @ ?o)"
    "k3 = length (?a @ compact_size 1 @ ?o @ compact_size (length ?s))"
    "k4 = length (?a @ compact_size 1 @ ?o @ compact_size (length ?s) @ ?s)"
  have c0: "skip_marker ?b = Inr (at ?b k0)"
    using skip_marker_at[OF ok, of flag wit v lock] wit len by (simp add: k)
  have c1: "cur_count (at ?b k0) = Inr (1, at ?b k1)"
    unfolding b k using cur_count_at[of ?a 1 "?o @ compact_size (length ?s) @ ?s @ q"] len[unfolded b] by simp
  have c2: "cur_take 36 (at ?b k1) = Inr (?o, at ?b k2)"
    unfolding b k using cur_take_at[of "?a @ compact_size 1" ?o 36 "compact_size (length ?s) @ ?s @ q"] len[unfolded b] o36 by simp
  have c3: "cur_count (at ?b k2) = Inr (length ?s, at ?b k3)"
    unfolding b k using cur_count_at[of "?a @ compact_size 1 @ ?o" "length ?s" "?s @ q"] len[unfolded b] i
    by (simp add: tx_in_ok_def)
  have c4: "cur_take (length ?s) (at ?b k3) = Inr (?s, at ?b k4)"
    unfolding b k using cur_take_at[of "?a @ compact_size 1 @ ?o @ compact_size (length ?s)" ?s _ q] len[unfolded b] by simp
  from run have e: "ends_with ?s ph" "ph \<noteq> []" and ps: "p = take (k4 - length ph) ?b" "s = drop k4 ?b"
    unfolding split_coinbase_extranonce_def
    by (auto simp: c0 c1 c2 c3 c4 rbind_Inr ensure_Inr)
  define s0 where "s0 = take (length ?s - length ph) ?s"
  have s: "?s = s0 @ ph" using e(1) by (metis append_take_drop_id ends_with_def s0_def)
  have parts: "p = ?a @ compact_size 1 @ ?o @ compact_size (length ?s) @ s0" "s = q"
    unfolding ps b s k by simp_all
  show thesis
  proof (rule that[OF s e(2)])
    fix ph' :: "byte list" assume "length ph' = length ph"
    then show "p @ ph' @ s = tx_bytes X v flag [i \<lparr> ti_script_sig := s0 @ ph' \<rparr>] outs wit lock"
      unfolding parts by (simp add: s tx_bytes_def tx_body_def tx_in_bytes_def tx_in_tail_def prev_txid_bytes_def q_def)
  qed
qed

end
