(* ===== verification/Stratum_Jobs.thy ===== *)
theory Stratum_Jobs
  imports Stratum_Work
begin

text \<open>Jobs and the submissions built from them: the invariant of issued jobs, the parts of a submission, and the
  targets a job assigns.\<close>

section \<open>Hexadecimal text\<close>

text \<open>\<^verbatim>\<open>hex::decode\<close> accepts exactly the text of an even number of hexadecimal digits, of either case.\<close>

definition hex_digits_law :: "crypto \<Rightarrow> bool" where
  "hex_digits_law X \<longleftrightarrow> (\<forall>s. is_ok (hex_decode X s) \<longleftrightarrow> even (length s) \<and> list_all is_hexdigit s)"

lemma demo_crypto_hex_digits: "hex_digits_law demo_crypto"
proof -
  have "is_ok (demo_decode s) \<longleftrightarrow> even (length s) \<and> list_all is_hexdigit s" for s
  proof (induction s rule: demo_decode.induct)
    case (3 c d cs)
    show ?case
      using 3 by (cases "digit_value c"; cases "digit_value d"; cases "demo_decode cs") (auto simp: is_ok_def is_hexdigit_def)
  qed (simp_all add: is_ok_def)
  then show ?thesis by (simp add: hex_digits_law_def)
qed

lemma hex_decode_append:
  assumes laws: "hex_law X" "hex_text_law X" "hex_digits_law X" and s: "hex_decode X s = Inr a" and t: "hex_decode X t = Inr b"
  shows "hex_decode X (s @ t) = Inr (a @ b)"
proof -
  have "is_ok (hex_decode X s)" "is_ok (hex_decode X t)" using s t by (simp_all add: is_ok_def)
  then have "is_ok (hex_decode X (s @ t))" using laws(3) by (simp add: hex_digits_law_def)
  then obtain bs where bs: "hex_decode X (s @ t) = Inr bs" by (auto simp: is_ok_iff)
  have "hex_encode X bs = hex_encode X a @ hex_encode X b"
    using hex_encode_decode[OF laws(1)] bs s t by (simp add: to_ascii_lowercase_def)
  also have "\<dots> = hex_encode X (a @ b)" using laws(2) by (simp add: hex_text_law_def)
  finally show ?thesis using bs hex_encode_inj[OF laws(1)] by simp
qed

section \<open>Issued jobs\<close>

text \<open>A job is made from a manifest and a template, and may then be stamped again for other connections.\<close>

inductive issued :: "crypto \<Rightarrow> numbers \<Rightarrow> PayoutManifest \<Rightarrow> Value \<Rightarrow> Job \<Rightarrow> bool"
  for X N m tmpl where
  made: "from_manifest X N name tmpl m e1 n d floor clean = Inr job \<Longrightarrow> issued X N m tmpl job"
| stamped_again: "issued X N m tmpl job \<Longrightarrow> reassign X N job name e1 d floor = Inr job' \<Longrightarrow> issued X N m tmpl job'"

text \<open>What a job keeps of its manifest: both coinbases split at the same placeholder, of the length of its extranonce.\<close>

declare branch_of.simps [simp del]

inductive job_ok :: "crypto \<Rightarrow> PayoutManifest \<Rightarrow> Value \<Rightarrow> Job \<Rightarrow> bool" for X m tmpl job where
  job_okI: "hex_decode X (coinbase_tx_hex m) = Inr coinbase \<Longrightarrow>
    strip_witness_transaction coinbase = Inr stripped \<Longrightarrow>
    split_coinbase_extranonce stripped ph = Inr (p, s) \<Longrightarrow>
    split_coinbase_extranonce coinbase ph = Inr (fp, fs) \<Longrightarrow>
    hex_decode X (j_extranonce1 job) = Inr e1 \<Longrightarrow>
    length ph = length e1 + j_extranonce2_size job \<Longrightarrow>
    j_coinb1 job = hex_encode X p \<Longrightarrow>
    j_coinb2 job = hex_encode X s \<Longrightarrow>
    j_full_coinbase_prefix job = hex_encode X fp \<Longrightarrow>
    j_full_coinbase_suffix job = hex_encode X fs \<Longrightarrow>
    transactions_from_template X tmpl = Inr (j_transactions job) \<Longrightarrow>
    rmap strip_witness_transaction (j_transactions job) = Inr ss \<Longrightarrow>
    j_merkle_branch job = branch_of X (replicate 32 0 # map (double_sha256 X) ss) \<Longrightarrow>
    hex_decode X (j_previousblockhash job) = Inr prev \<Longrightarrow>
    length prev = 32 \<Longrightarrow>
    job_ok X m tmpl job"

inductive_cases job_okE: "job_ok X m tmpl job"

lemma decode_same_length:
  assumes "hex_law X" "hex_text_law X" "hex_decode X s = Inr a" "hex_decode X t = Inr b" "length s = length t"
  shows "length a = length b"
  using decoded_length[OF assms(1,2,3)] decoded_length[OF assms(1,2,4)] assms(5) by simp

lemma issued_ok:
  assumes laws: "hex_law X" "hex_text_law X" and "issued X N m tmpl job"
  shows "job_ok X m tmpl job"
  using assms(3)
proof induction
  case (made name e1 n d floor clean job)
  then show ?case
    unfolding from_manifest_def Let_def merkle_branch_for_coinbase_def
    by (clarsimp simp: rbind_Inr ensure_Inr) (rule job_okI, (assumption | simp)+)
next
  case (stamped_again job name e1 d floor job')
  obtain b where b: "hex_decode X e1 = Inr b" and len: "length e1 = length (j_extranonce1 job)"
    and same: "j_extranonce1 job' = e1" "j_extranonce2_size job' = j_extranonce2_size job" "j_coinb1 job' = j_coinb1 job"
      "j_coinb2 job' = j_coinb2 job" "j_full_coinbase_prefix job' = j_full_coinbase_prefix job"
      "j_full_coinbase_suffix job' = j_full_coinbase_suffix job" "j_transactions job' = j_transactions job"
      "j_merkle_branch job' = j_merkle_branch job" "j_previousblockhash job' = j_previousblockhash job"
    using stamped_again.hyps(2) unfolding reassign_def by (clarsimp simp: rbind_Inr ensure_Inr map_err_Inr)
  show ?case
    by (rule job_okE[OF stamped_again.IH], rule job_okI[where ?e1.0 = b])
      (use b decode_same_length[OF laws b _ len] in \<open>simp_all add: same\<close>)
qed

lemma decode_concat:
  assumes "hex_law X" "hex_text_law X" "hex_decode X (hex_encode X p @ s @ t @ hex_encode X q) = Inr bytes"
    "hex_decode X s = Inr a" "hex_decode X t = Inr b"
  shows "bytes = p @ a @ b @ q"
proof -
  have e: "hex_encode X (xs @ ys) = hex_encode X xs @ hex_encode X ys" for xs ys
    using assms(2) by (simp add: hex_text_law_def)
  have low: "to_ascii_lowercase (hex_encode X xs) = hex_encode X xs" for xs
    by (rule hex_encode_decode[OF assms(1), symmetric, THEN sym, symmetric]) (rule hex_decode_encode[OF assms(1)])
  have "hex_encode X bytes = to_ascii_lowercase (hex_encode X p @ s @ t @ hex_encode X q)"
    by (rule hex_encode_decode[OF assms(1,3)])
  also have "\<dots> = hex_encode X (p @ a @ b @ q)"
    using low hex_encode_decode[OF assms(1,4)] hex_encode_decode[OF assms(1,5)]
    by (simp add: e to_ascii_lowercase_def)
  finally show ?thesis using hex_encode_inj[OF assms(1)] by blast
qed

lemma assemble_submission_Inr:
  assumes laws: "hex_law X" "hex_text_law X" and ok: "job_ok X m tmpl job"
    and run: "assemble_submission X job extranonce2 time_hex nonce_hex bits vmask = Inr sub"
  obtains coinbase stripped ph p s fp fs e1 e2 prev ss header where
    "hex_decode X (coinbase_tx_hex m) = Inr coinbase" "strip_witness_transaction coinbase = Inr stripped"
    "split_coinbase_extranonce stripped ph = Inr (p, s)" "split_coinbase_extranonce coinbase ph = Inr (fp, fs)"
    "length (e1 @ e2) = length ph" "strip_witness_transaction (fp @ (e1 @ e2) @ fs) = Inr (p @ (e1 @ e2) @ s)"
    "hex_decode X (j_extranonce1 job) = Inr e1" "hex_decode X extranonce2 = Inr e2"
    "rmap strip_witness_transaction (j_transactions job) = Inr ss" "hex_decode X (j_previousblockhash job) = Inr prev"
    "length prev = 32" "applied_version job bits vmask = Inr (sub_applied_version sub)"
    "parse_u32_hex time_hex = Inr (sub_ntime sub)" "parse_u32_hex nonce_hex = Inr (sub_nonce sub)" "j_mintime job \<le> sub_ntime sub"
    "header = le_bytes 4 (unat (sub_applied_version sub)) @ rev prev @
       merkle_root X (hash256 X (p @ (e1 @ e2) @ s) # map (hash256 X) ss) @
       le_bytes 4 (sub_ntime sub) @ le_bytes 4 (j_nbits job) @ le_bytes 4 (sub_nonce sub)"
    "length header = 80" "sub_header_hex sub = hex_encode X header" "sub_coinbase_tx_hex sub = hex_encode X (fp @ (e1 @ e2) @ fs)"
    "sub_block_hash_hex sub = hash_display X (hash256 X header)"
    "sub_share_pass sub \<longleftrightarrow> from_le_bytes (hash256 X header) \<le> j_share_target job"
    "sub_block_pass sub \<longleftrightarrow> from_le_bytes (hash256 X header) \<le> j_network_target job"
    "sub_block_hex sub = hex_encode X (if sub_block_pass sub
       then header @ compact_size (1 + length (j_transactions job)) @ (fp @ (e1 @ e2) @ fs) @ concat (j_transactions job) else [])"
proof -
  obtain coinbase stripped ph e1 p s fp fs prev ss where j:
    "hex_decode X (coinbase_tx_hex m) = Inr coinbase" "strip_witness_transaction coinbase = Inr stripped"
    "split_coinbase_extranonce stripped ph = Inr (p, s)" "split_coinbase_extranonce coinbase ph = Inr (fp, fs)"
    "hex_decode X (j_extranonce1 job) = Inr e1" "length ph = length e1 + j_extranonce2_size job"
    "j_coinb1 job = hex_encode X p" "j_coinb2 job = hex_encode X s"
    "j_full_coinbase_prefix job = hex_encode X fp" "j_full_coinbase_suffix job = hex_encode X fs"
    "rmap strip_witness_transaction (j_transactions job) = Inr ss"
    "j_merkle_branch job = branch_of X (replicate 32 0 # map (double_sha256 X) ss)"
    "hex_decode X (j_previousblockhash job) = Inr prev" "length prev = 32"
    using ok by (rule job_okE)
  obtain e2 cb pre time nonce version where r:
    "length extranonce2 = j_extranonce2_size job * 2" "hex_decode X extranonce2 = Inr e2"
    "parse_u32_hex time_hex = Inr time" "parse_u32_hex nonce_hex = Inr nonce" "j_mintime job \<le> time"
    "applied_version job bits vmask = Inr version"
    "hex_decode X (hex_encode X fp @ j_extranonce1 job @ extranonce2 @ hex_encode X fs) = Inr cb"
    "hex_decode X (hex_encode X p @ j_extranonce1 job @ extranonce2 @ hex_encode X s) = Inr pre"
    "strip_witness_transaction cb = Inr pre"
    using run unfolding assemble_submission_def Let_def j(7-10) by (auto simp: rbind_Inr ensure_Inr map_err_Inr)
  have cb: "cb = fp @ (e1 @ e2) @ fs" using decode_concat[OF laws r(7) j(5) r(2)] by simp
  have pre: "pre = p @ (e1 @ e2) @ s" using decode_concat[OF laws r(8) j(5) r(2)] by simp
  have len: "length (e1 @ e2) = length ph" using decoded_length[OF laws r(2)] r(1) j(6) by simp
  have dbl: "double_sha256 X = hash256 X" by (rule ext) (simp add: double_sha256_def hash256_def)
  define header where "header = le_bytes 4 (unat version) @ rev prev @ climb X (hash256 X pre) (j_merkle_branch job) @
       le_bytes 4 time @ le_bytes 4 (j_nbits job) @ le_bytes 4 nonce"
  have header: "header = le_bytes 4 (unat version) @ rev prev @
       merkle_root X (hash256 X (p @ (e1 @ e2) @ s) # map (hash256 X) ss) @ le_bytes 4 time @ le_bytes 4 (j_nbits job) @ le_bytes 4 nonce"
    unfolding header_def j(12) climb_branch by (simp only: dbl pre)
  have res: "length header = 80" "sub = \<lparr> sub_coinbase_tx_hex = hex_encode X cb, sub_header_hex = hex_encode X header,
      sub_block_hex = hex_encode X (if from_le_bytes (hash256 X header) \<le> j_network_target job
         then header @ compact_size (1 + length (j_transactions job)) @ cb @ concat (j_transactions job) else []),
      sub_block_hash_hex = hash_display X (hash256 X header),
      sub_share_pass = (from_le_bytes (hash256 X header) \<le> j_share_target job),
      sub_block_pass = (from_le_bytes (hash256 X header) \<le> j_network_target job),
      sub_extranonce2_hex = to_ascii_lowercase extranonce2, sub_ntime = time, sub_nonce = nonce, sub_applied_version = version \<rparr>"
    using run unfolding assemble_submission_def Let_def j(7-10,13) r(2-4,6-9) rbind.simps map_err_simps codec_compact_size_eq dbl header_def[symmetric]
    by (simp_all add: rbind_Inr ensure_Inr)
  have sel: "sub_applied_version sub = version" "sub_ntime sub = time" "sub_nonce sub = nonce"
    "sub_header_hex sub = hex_encode X header" "sub_coinbase_tx_hex sub = hex_encode X cb"
    "sub_block_hash_hex sub = hash_display X (hash256 X header)"
    "sub_share_pass sub \<longleftrightarrow> from_le_bytes (hash256 X header) \<le> j_share_target job"
    "sub_block_pass sub \<longleftrightarrow> from_le_bytes (hash256 X header) \<le> j_network_target job"
    "sub_block_hex sub = hex_encode X (if sub_block_pass sub
       then header @ compact_size (1 + length (j_transactions job)) @ cb @ concat (j_transactions job) else [])"
    unfolding res(2) by simp_all
  show thesis
    by (rule that[OF j(1-4) len r(9)[unfolded cb pre] j(5) r(2) j(11,13,14) r(6)[folded sel(1)] r(3)[folded sel(2)]
          r(4)[folded sel(3)] r(5)[folded sel(2)] header[folded sel(1-3)] res(1) sel(4) sel(5)[unfolded cb] sel(6-8) sel(9)[unfolded cb]])
qed

lemma parse_transaction_hex_Inr:
  "parse_transaction_hex X s field = Inr tx \<longleftrightarrow>
    (\<exists>bytes. hex_decode X s = Inr bytes \<and> parse_transaction X bytes field = Inr tx)"
  unfolding parse_transaction_hex_def by (auto simp: rbind_Inr map_err_Inr)

lemma refilled_coinbase:
  assumes hex: "hex_law X" and p: "parse_transaction X coinbase field = Inr tx" and shape: "ensure_coinbase_shape tx = Inr ()"
    and strip: "strip_witness_transaction coinbase = Inr stripped"
    and sp: "split_coinbase_extranonce coinbase ph = Inr (fp, fs)" and len: "length ph' = length ph"
  obtains tx' where "parse_transaction X (fp @ ph' @ fs) field' = Inr tx'" "ensure_coinbase_shape tx' = Inr ()"
    "pt_outputs tx' = pt_outputs tx" "pt_lock_time tx' = pt_lock_time tx" "pt_version tx' = pt_version tx"
    "pt_witness_stacks tx' = pt_witness_stacks tx"
    "\<exists>s0. ti_script_sig (pt_inputs tx ! 0) = s0 @ ph \<and> ti_script_sig (pt_inputs tx' ! 0) = s0 @ ph'"
proof -
  obtain flag wit where w: "coinbase = tx_bytes X (pt_version tx) flag (pt_inputs tx) (pt_outputs tx) wit (pt_lock_time tx)"
    "tx_parts_ok X (pt_inputs tx) (pt_outputs tx)" "wire_witness (length (pt_inputs tx)) flag wit" "length coinbase < 2 ^ 64"
    "pt_version tx < 2 ^ 32" "pt_lock_time tx < 2 ^ 32"
    "case pt_witness_stacks tx of None \<Rightarrow> flag = [] \<and> wit = []
     | Some ss \<Rightarrow> (\<exists>b. b \<noteq> 0 \<and> flag = [0, b]) \<and> length ss = length (pt_inputs tx) \<and>
         (\<forall>s\<in>set ss. stack_ok s) \<and> wit = concat (map serialize_stack ss)"
    by (rule wire_form[OF hex p strip_whole[OF strip]])
  obtain i where i: "pt_inputs tx = [i]"
    using shape by (auto simp: ensure_coinbase_shape_def checks_Inr reject_if_Inr length_Suc_conv)
  let ?i = "\<lambda>s. i \<lparr> ti_script_sig := s \<rparr>"
  obtain s0 where s0: "ti_script_sig i = s0 @ ph"
    "fp @ ph' @ fs = tx_bytes X (pt_version tx) flag [?i (s0 @ ph')] (pt_outputs tx) wit (pt_lock_time tx)"
  proof (rule split_tx_bytes[of X i "pt_outputs tx" flag wit "pt_version tx" "pt_lock_time tx" ph fp fs])
    show "tx_parts_ok X [i] (pt_outputs tx)" using w(2) by (simp add: i)
    show "wire_witness 1 flag wit" using w(3) by (simp add: i)
    show "length (tx_bytes X (pt_version tx) flag [i] (pt_outputs tx) wit (pt_lock_time tx)) < 2 ^ 64" using w(1,4) by (simp add: i)
    show "split_coinbase_extranonce (tx_bytes X (pt_version tx) flag [i] (pt_outputs tx) wit (pt_lock_time tx)) ph = Inr (fp, fs)"
      using sp w(1) by (simp add: i)
  qed (use len that in blast)
  have ok: "tx_parts_ok X [?i (s0 @ ph')] (pt_outputs tx)"
    using w(2) s0(1) len by (simp add: i tx_parts_ok_def tx_in_ok_def prev_txid_bytes_def)
  have wit: "case pt_witness_stacks tx of None \<Rightarrow> flag = [] \<and> wit = []
     | Some ss \<Rightarrow> (\<exists>b. b \<noteq> 0 \<and> flag = [0, b]) \<and> length ss = length [?i (s0 @ ph')] \<and>
         (\<forall>s\<in>set ss. stack_ok s) \<and> wit = concat (map serialize_stack ss)"
    using w(7) by (simp add: i split: option.splits)
  show thesis
    by (rule that[OF parse_tx_bytes[OF hex ok w(5,6) wit, of field', folded s0(2)]])
      (use shape s0(1) in \<open>simp_all add: i ensure_coinbase_shape_def checks_Inr reject_if_Inr Let_def\<close>)
qed

lemma refilled_strip:
  assumes hex: "hex_law X" and p: "parse_transaction X coinbase field = Inr tx" and shape: "ensure_coinbase_shape tx = Inr ()"
    and strip: "strip_witness_transaction coinbase = Inr stripped"
    and sp: "split_coinbase_extranonce coinbase ph = Inr (fp, fs)" "split_coinbase_extranonce stripped ph = Inr (p, s)"
    and len: "length ph' = length ph"
  shows "strip_witness_transaction (fp @ ph' @ fs) = Inr (p @ ph' @ s)"
proof -
  obtain flag wit where w: "coinbase = tx_bytes X (pt_version tx) flag (pt_inputs tx) (pt_outputs tx) wit (pt_lock_time tx)"
    "tx_parts_ok X (pt_inputs tx) (pt_outputs tx)" "wire_witness (length (pt_inputs tx)) flag wit" "length coinbase < 2 ^ 64"
    by (rule wire_form[OF hex p strip_whole[OF strip]])
  obtain i where i: "pt_inputs tx = [i]"
    using shape by (auto simp: ensure_coinbase_shape_def checks_Inr reject_if_Inr length_Suc_conv)
  let ?tx = "\<lambda>flag s wit. tx_bytes X (pt_version tx) flag [i \<lparr> ti_script_sig := s \<rparr>] (pt_outputs tx) wit (pt_lock_time tx)"
  let ?orig = "\<lambda>flag wit. tx_bytes X (pt_version tx) flag [i] (pt_outputs tx) wit (pt_lock_time tx)"
  have ok: "tx_parts_ok X [i] (pt_outputs tx)" "wire_witness 1 flag wit" "wire_witness 1 [] []" "length (?orig flag wit) < 2 ^ 64"
    using w by (simp_all add: i wire_witness_def)
  have st: "stripped = ?orig [] []" using strip_tx_bytes[of X "[i]" "pt_outputs tx" flag wit "pt_version tx" "pt_lock_time tx"] ok strip w(1) by (simp add: i)
  have short: "length (?orig [] []) < 2 ^ 64" using ok(4) by (simp add: tx_bytes_def)
  obtain s0 where s0: "ti_script_sig i = s0 @ ph" "\<And>ph'. length ph' = length ph \<Longrightarrow> fp @ ph' @ fs = ?tx flag (s0 @ ph') wit"
    by (rule split_tx_bytes[OF ok(1,2,4) sp(1)[unfolded w(1) i]]) blast
  obtain s1 where s1: "ti_script_sig i = s1 @ ph" "\<And>ph'. length ph' = length ph \<Longrightarrow> p @ ph' @ s = ?tx [] (s1 @ ph') []"
    by (rule split_tx_bytes[OF ok(1,3) short sp(2)[unfolded st]]) blast
  have "s1 = s0" using s0(1) s1(1) by simp
  have same: "length (?tx flag (s0 @ ph') wit) = length (?orig flag wit)"
    using s0(1) len by (simp add: tx_bytes_def tx_body_def tx_in_bytes_def tx_in_tail_def prev_txid_bytes_def)
  have "tx_parts_ok X [i \<lparr> ti_script_sig := s0 @ ph' \<rparr>] (pt_outputs tx)"
    using ok(1) s0(1) len by (simp add: tx_parts_ok_def tx_in_ok_def prev_txid_bytes_def)
  from strip_tx_bytes[OF this] ok(2,4) same have "strip_witness_transaction (?tx flag (s0 @ ph') wit) = Inr (?tx [] (s0 @ ph') [])" by simp
  then show ?thesis using s0(2)[OF len] s1(2)[OF len] \<open>s1 = s0\<close> by simp
qed

lemma assemble_accepts:
  assumes laws: "hex_law X" "hex_text_law X" "sha_law X" "hex_digits_law X" and ok: "job_ok X m tmpl job"
    and tx: "parse_transaction_hex X (coinbase_tx_hex m) field = Inr tx" "ensure_coinbase_shape tx = Inr ()"
    and args: "hex_decode X extranonce2 = Inr e2" "length e2 = j_extranonce2_size job" "parse_u32_hex time_hex = Inr t"
      "j_mintime job \<le> t" "parse_u32_hex nonce_hex = Inr n" "applied_version job bits vmask = Inr v"
  shows "is_ok (assemble_submission X job extranonce2 time_hex nonce_hex bits vmask)"
proof (rule job_okE[OF ok])
  fix coinbase stripped ph p s fp fs e1 ss prev
  assume j: "hex_decode X (coinbase_tx_hex m) = Inr coinbase" "strip_witness_transaction coinbase = Inr stripped"
    "split_coinbase_extranonce stripped ph = Inr (p, s)" "split_coinbase_extranonce coinbase ph = Inr (fp, fs)"
    "hex_decode X (j_extranonce1 job) = Inr e1" "length ph = length e1 + j_extranonce2_size job"
    "j_coinb1 job = hex_encode X p" "j_coinb2 job = hex_encode X s"
    "j_full_coinbase_prefix job = hex_encode X fp" "j_full_coinbase_suffix job = hex_encode X fs"
    "j_merkle_branch job = branch_of X (replicate 32 0 # map (double_sha256 X) ss)"
    "hex_decode X (j_previousblockhash job) = Inr prev" "length prev = 32"
  have dec: "hex_decode X (hex_encode X a @ j_extranonce1 job @ extranonce2 @ hex_encode X b) = Inr (a @ e1 @ e2 @ b)" for a b
    by (intro hex_decode_append[OF laws(1,2,4)] hex_decode_encode[OF laws(1)] j(5) args(1))
  have parse: "parse_transaction X coinbase field = Inr tx" using tx(1) j(1) unfolding parse_transaction_hex_Inr by auto
  have strip: "strip_witness_transaction (fp @ e1 @ e2 @ fs) = Inr (p @ e1 @ e2 @ s)"
    using refilled_strip[OF laws(1) parse tx(2) j(2,4,3), of "e1 @ e2"] by (simp add: j(6) args(2))
  have root: "length (climb X (double_sha256 X b) (j_merkle_branch job)) = 32" for b
    unfolding j(11) climb_branch
    by (rule merkle_root_length[OF laws(3)]) (auto simp: double_sha256_def sha256_length[OF laws(3)])
  have len2: "length extranonce2 = j_extranonce2_size job * 2"
    using decoded_length[OF laws(1,2) args(1)] args(2) by simp
  show ?thesis
    unfolding assemble_submission_def Let_def j(7-10) dec strip args(1,3,5,6) j(12)
    by (simp add: ensure_def len2 root j(13) args(4) strip is_ok_def)
qed

lemma applied_version_masked:
  assumes "applied_version job bits vmask = Inr v"
  shows "v AND NOT vmask = j_version job AND NOT vmask"
proof (cases bits)
  case (Some s)
  then obtain b where "b AND NOT vmask = 0" "v = (j_version job AND NOT vmask) OR b"
    using assms by (auto simp: applied_version_def rbind_Inr ensure_Inr Let_def)
  then show ?thesis by (simp add: bit.conj_disj_distrib2 and.assoc)
qed (use assms in \<open>simp add: applied_version_def\<close>)

section \<open>Targets\<close>

definition pool_base :: nat where
  "pool_base = 0xffff * 2 ^ 208"

definition clamp_target :: "nat \<Rightarrow> nat" where
  "clamp_target q = min (max q 1) (2 ^ 256 - 1)"

lemma clamp_target_bounds: "1 \<le> clamp_target q" "clamp_target q < 2 ^ 256"
proof -
  show "1 \<le> clamp_target q" unfolding clamp_target_def by (intro min.boundedI) simp_all
  show "clamp_target q < 2 ^ 256" unfolding clamp_target_def by (rule le_less_trans[OF min.cobounded2]) simp
qed

lemma clamp_target_mono: "q \<le> r \<Longrightarrow> clamp_target q \<le> clamp_target r"
  unfolding clamp_target_def by (intro min.mono max.mono) simp_all

definition scaled_base :: nat where
  "scaled_base = pool_base * 2 ^ 1074"

lemma base_target: "target_from_compact 0x1d00ffff = Inr pool_base"
  by (simp add: target_from_compact_def ensure_def Let_def pool_base_def)

lemma div_scaled_low:
  assumes "0 < e" "e \<le> n"
  shows "b * 2 ^ n div (a * 2 ^ (e - 1)) = b * 2 ^ (Suc n - e) div (a :: nat)"
proof -
  have eq: "b * 2 ^ n = b * 2 ^ (Suc n - e) * 2 ^ (e - 1)" using assms by (simp add: mult.assoc flip: power_add)
  show ?thesis unfolding eq by simp
qed

lemma div_scaled_high:
  assumes "Suc n \<le> e"
  shows "b * 2 ^ n div (a * 2 ^ (e - 1)) = b div (a * 2 ^ (e - Suc n) :: nat)"
proof -
  have eq: "a * 2 ^ (e - 1) = a * 2 ^ (e - Suc n) * 2 ^ n" using assms by (simp add: mult.assoc flip: power_add)
  show ?thesis unfolding eq by simp
qed

lemma difficulty_target_eq:
  "difficulty_target d = (if is_finite d \<and> is_positive d then Inr (clamp_target (scaled_base div f64_scaled d))
     else Inl ''difficulty must be positive and finite'')"
proof (cases "is_finite d \<and> is_positive d")
  case True
  define e f where "e = f64_exponent d" and "f = d mod 2 ^ 52"
  define k where "k = (if e = 0 then - 1074 else int e - 1023 - 52)"
  define m where "m = f + (if e = 0 then 0 else 2 ^ 52)"
  have run: "difficulty_target d = Inr (clamp_target ((if k < 0 then pool_base * 2 ^ nat (- k) else pool_base) div
      (if k < 0 then m else m * 2 ^ nat k)))"
    using True
    by (simp only: difficulty_target_def Let_def base_target ensure_def if_True rbind.simps clamp_target_def k_def m_def e_def f_def simp_thms)
  have scaled: "f64_scaled d = (if e = 0 then f else (f + 2 ^ 52) * 2 ^ (e - 1))"
    unfolding f64_scaled_def e_def f_def by (simp only: add.commute)
  consider "e = 0" | "0 < e" "e \<le> 1074" | "Suc 1074 \<le> e" by linarith
  then have "(if k < 0 then pool_base * 2 ^ nat (- k) else pool_base) div (if k < 0 then m else m * 2 ^ nat k) =
      pool_base * 2 ^ 1074 div f64_scaled d"
  proof cases
    case 1
    then have "k < 0" "nat (- k) = 1074" "f64_scaled d = m" by (simp_all add: k_def m_def scaled)
    then show ?thesis by (simp only: if_True)
  next
    case 2
    then have "k < 0" "nat (- k) = Suc 1074 - e" "f64_scaled d = m * 2 ^ (e - 1)" by (simp_all add: k_def m_def scaled)
    then show ?thesis by (simp only: if_True div_scaled_low[OF 2])
  next
    case 3
    then have "\<not> k < 0" "nat k = e - Suc 1074" "f64_scaled d = m * 2 ^ (e - 1)" by (simp_all add: k_def m_def scaled)
    then show ?thesis by (simp only: if_False div_scaled_high[OF 3])
  qed
  with run True show ?thesis by (simp only: if_True scaled_base_def simp_thms)
next
  case False
  then show ?thesis by (simp only: difficulty_target_def ensure_def if_False rbind.simps)
qed

lemma difficulty_target_antitone:
  assumes t: "difficulty_target d = Inr t" "difficulty_target d' = Inr t'" and le: "d \<le> d'"
  shows "t' \<le> t"
proof -
  from t have p: "is_finite d" "is_positive d" "is_finite d'" "is_positive d'"
    and eq: "t = clamp_target (scaled_base div f64_scaled d)" "t' = clamp_target (scaled_base div f64_scaled d')"
    by (auto simp: difficulty_target_eq split: if_splits)
  show ?thesis unfolding eq
    by (intro clamp_target_mono div_le_mono2 f64_scaled_positive[OF p(1,2)] f64_scaled_mono[OF p le])
qed

lemma difficulty_target_bounds: "difficulty_target d = Inr t \<Longrightarrow> 1 \<le> t \<and> t < 2 ^ 256"
  using clamp_target_bounds by (auto simp: difficulty_target_eq split: if_splits)

end
