(* ===== verification/Stratum_Submissions.thy ===== *)
theory Stratum_Submissions
  imports Stratum_Jobs
begin

text \<open>What a submission of the Stratum server is: the coinbase it carries, the header and the block it stands for,
  when it is accepted, and the targets it is compared with. The concrete instance is a one-recipient manifest with
  a two-byte extranonce of the connection and a one-byte extranonce of the miner, over a template with one transaction.\<close>

section \<open>A job and a submission\<close>

definition hex32 :: "string \<Rightarrow> string" where
  "hex32 s = concat (replicate 32 s)"

definition demo_numbers :: numbers where
  "demo_numbers = \<lparr> n_u64 = parse_unsigned 64, n_i64 = parse_signed 64, n_to_f64 = (\<lambda>n. Some (if n < 2 ^ 225 then f64_one else f64_infinity)) \<rparr>"

definition stratum_request :: CoinbaseBuildRequest where
  "stratum_request = demo_request \<lparr> entitlements := [hd demo_entitlements], pinned_first_output := None,
     coinbase_script_sig_suffix_hex := Some ''0a0b00'' \<rparr>"

definition stratum_template :: Value where
  "stratum_template = JObject [(''transactions'', JArray [JObject [(''data'', JString
       (''0100000001'' @ hex32 ''07'' @ ''0000000000ffffffff0000000000''))]]),
     (''previousblockhash'', JString (hex32 ''05'')), (''bits'', JString ''207fffff''),
     (''version'', JNumber ''536870912''), (''curtime'', JNumber ''1700000000'')]"

definition stratum_suffix :: string where
  "stratum_suffix = ''feffffff026400000000000000225220'' @ hex32 ''b2'' @ ''0000000000000000266a24aa21a9ed'' @ hex32 ''00''"

definition stratum_manifest :: PayoutManifest where
  "stratum_manifest = \<lparr> pm_schema = ''qbit.prism.coinbase-manifest.v1'',
        pm_block_height = 500, pm_coinbase_value_sats = 100, pm_total_weight = 2, pm_coinbase_weight_bytes = 183,
        pm_payout_count = 1,
        coinbase_tx_hex = ''02000000000101'' @ hex32 ''00'' @ ''ffffffff0602f4010a0b00'' @ stratum_suffix @ ''0120'' @ hex32 ''00'' @ ''f3010000'',
        coinbase_txid = ''000001f3'' @ concat (replicate 28 ''00''),
        coinbase_wtxid = ''000001f3'' @ concat (replicate 28 ''00''),
        coinbase_script_sig_hex = ''02f4010a0b00'',
        pm_coinbase_script_sig_suffix_hex = ''0a0b00'',
        pm_witness_nonce_hex = hex32 ''00'',
        witness_commitment_script_hex = ''6a24aa21a9ed'' @ hex32 ''00'',
        pm_outputs = [\<lparr> recipient_id = ''bob'', order_key = ''b'', p2mr_program_hex = hex32 ''b2'', weight = 2, vout = 0,
              script_pubkey_hex = ''5220'' @ hex32 ''b2'', po_amount_sats = 100 \<rparr>] \<rparr>"

definition stratum_job :: Job where
  "stratum_job = \<lparr> j_job_id = ''j1'', j_previousblockhash = hex32 ''05'', j_prevhash = hex32 ''05'',
        j_coinb1 = ''0200000001'' @ hex32 ''00'' @ ''ffffffff0602f401'', j_coinb2 = stratum_suffix @ ''f3010000'',
        j_full_coinbase_prefix = ''02000000000101'' @ hex32 ''00'' @ ''ffffffff0602f401'',
        j_full_coinbase_suffix = stratum_suffix @ ''0120'' @ hex32 ''00'' @ ''f3010000'',
        j_merkle_branch = [replicate 18 7 @ [0, 0, 0, 0, 0, 255, 255, 255, 255, 0, 0, 0, 0, 0]],
        j_transactions = [[1, 0, 0, 0, 1] @ replicate 32 7 @ [0, 0, 0, 0, 0, 255, 255, 255, 255, 0, 0, 0, 0, 0]],
        j_version = 0x20000000, j_version_mask = VERSION_ROLLING_MASK,
        j_nbits = 0x207fffff, j_ntime = 1700000000, j_mintime = 0,
        j_network_target = 0x7fffff * 2 ^ 232, j_share_target = 0x7fffff * 2 ^ 232,
        j_share_difficulty = 0, j_extranonce1 = ''0a0b'', j_extranonce2_size = 1, j_clean_jobs = True,
        j_resume_expires_at = None, j_refresh_generation = 0, j_payout_revision = 0, j_kind = Credit \<rparr>"

lemma stratum_built: "build_manifest demo_crypto stratum_request = Inr stratum_manifest"
  by code_simp

lemma stratum_issued: "issued demo_crypto demo_numbers stratum_manifest stratum_template stratum_job"
proof (rule made)
  show "from_manifest demo_crypto demo_numbers ''j1'' stratum_template stratum_manifest ''0a0b'' 1 0x3ff0000000000000 0 True =
    Inr stratum_job" by code_simp
qed

lemma stratum_value: "coinbase_value_sats stratum_request \<le> QBIT_MAX_MONEY_SATS"
  by (simp add: stratum_request_def demo_request_def QBIT_MAX_MONEY_SATS_def)

lemma stratum_job_simps:
  "j_extranonce1 stratum_job = hex_encode demo_crypto [10, 11]" "j_extranonce2_size stratum_job = 1" "j_mintime stratum_job = 0"
  "j_network_target stratum_job = 0x7fffff * 2 ^ 232" "length (j_transactions stratum_job) = 1"
proof -
  have "hex_encode demo_crypto [10, 11] = ''0a0b''" by code_simp
  then show "j_extranonce1 stratum_job = hex_encode demo_crypto [10, 11]" by (simp add: stratum_job_def)
qed (simp_all add: stratum_job_def)

lemma stratum_args:
  "parse_u32_hex ''6553f100'' = Inr 1700000000" "parse_u32_hex ''00000000'' = Inr 0" "parse_u32_hex ''00002000'' = Inr 8192"
  "(8192 :: 32 word) AND NOT VERSION_ROLLING_MASK = 0"
  by code_simp+

lemma stratum_block_hash:
  assumes "length header = 80" "header = xs @ le_bytes 4 0"
  shows "from_le_bytes (hash256 demo_crypto header) \<le> 0x7fffff * 2 ^ 232"
proof -
  obtain ys where ys: "hash256 demo_crypto header = ys @ le_bytes 4 0" "length ys = 28"
    using assms by (simp add: hash256_def rev_take drop_Cons')
  have "from_le_bytes (bs @ le_bytes k 0) = from_le_bytes bs" for bs k
    by (induction bs) (simp_all add: from_le_bytes_le_bytes)
  with ys from_le_bytes_less[of ys] show ?thesis by simp
qed

lemma stratum_submission:
  obtains sub where "assemble_submission demo_crypto stratum_job (hex_encode demo_crypto [12]) ''6553f100'' ''00000000''
    (Some ''00002000'') VERSION_ROLLING_MASK = Inr sub" "sub_block_pass sub"
proof -
  note laws = demo_crypto_hex demo_crypto_hex_text demo_crypto_sha
  note ok = issued_ok[OF laws(1,2) stratum_issued] and dec = hex_decode_encode[OF laws(1)]
  obtain tx where tx: "\<forall>field. parse_transaction_hex demo_crypto (coinbase_tx_hex stratum_manifest) field = Inr tx"
    "ensure_coinbase_shape tx = Inr ()"
    by (rule built_manifest_parse[OF laws stratum_built stratum_value])
  have v: "applied_version stratum_job (Some ''00002000'') VERSION_ROLLING_MASK =
      Inr ((j_version stratum_job AND NOT VERSION_ROLLING_MASK) OR 8192)"
    using stratum_args(3,4) by (simp add: applied_version_def ensure_def)
  obtain sub where sub: "assemble_submission demo_crypto stratum_job (hex_encode demo_crypto [12]) ''6553f100'' ''00000000''
      (Some ''00002000'') VERSION_ROLLING_MASK = Inr sub"
    using assemble_accepts[OF laws demo_crypto_hex_digits ok spec[OF tx(1)] tx(2) dec _ stratum_args(1) _ stratum_args(2) v, of "[12]"]
    by (auto simp: is_ok_iff stratum_job_simps)
  obtain header xs where h: "length header = 80" "header = xs @ le_bytes 4 (sub_nonce sub)" "parse_u32_hex ''00000000'' = Inr (sub_nonce sub)"
    "sub_block_pass sub \<longleftrightarrow> from_le_bytes (hash256 demo_crypto header) \<le> j_network_target stratum_job"
    by (rule assemble_submission_Inr[OF laws(1,2) ok sub]) (metis append_assoc)
  have "sub_nonce sub = 0" using h(3) stratum_args(2) by simp
  with stratum_block_hash[OF h(1)] h(2,4) have "sub_block_pass sub" by (simp add: stratum_job_simps)
  with that[OF sub] show thesis .
qed

section \<open>Properties\<close>

text \<open>C10. A miner can change only the extranonce, the time, the nonce and the rolled version bits of the work it is
  given: whatever it submits for a job issued from a built manifest, stamped for its connection any number of times,
  the coinbase of the submission is read as a coinbase with the lock time, the outputs and the witness commitment of
  that manifest, amount for amount and script for script.\<close>

theorem submission_pays_manifest:
  assumes laws: "hex_law X" "hex_text_law X" "sha_law X"
    and built: "build_manifest X request = Inr m" "coinbase_value_sats request \<le> QBIT_MAX_MONEY_SATS"
    and job: "issued X N m tmpl job"
    and run: "assemble_submission X job extranonce2 time_hex nonce_hex bits vmask = Inr sub"
  shows "\<exists>tx. parse_transaction_hex X (sub_coinbase_tx_hex sub) field = Inr tx \<and> ensure_coinbase_shape tx = Inr () \<and>
    pt_lock_time tx = block_height request - 1 \<and>
    map (\<lambda>txo. (to_amount_sats txo, hex_encode X (to_script_pubkey txo))) (pt_outputs tx) =
      map (\<lambda>out. (po_amount_sats out, script_pubkey_hex out)) (pm_outputs m) @ [(0, witness_commitment_script_hex m)]"
proof -
  obtain coinbase stripped ph fp fs e1 e2 where c: "hex_decode X (coinbase_tx_hex m) = Inr coinbase"
    "strip_witness_transaction coinbase = Inr stripped" "split_coinbase_extranonce coinbase ph = Inr (fp, fs)"
    "length (e1 @ e2) = length ph" "sub_coinbase_tx_hex sub = hex_encode X (fp @ (e1 @ e2) @ fs)"
    by (rule assemble_submission_Inr[OF laws(1,2) issued_ok[OF laws(1,2) job] run])
  obtain tx where tx: "\<forall>field. parse_transaction_hex X (coinbase_tx_hex m) field = Inr tx" "ensure_coinbase_shape tx = Inr ()"
    "pt_lock_time tx = block_height request - 1"
    "map (\<lambda>txo. (to_amount_sats txo, hex_encode X (to_script_pubkey txo))) (pt_outputs tx) =
      map (\<lambda>out. (po_amount_sats out, script_pubkey_hex out)) (pm_outputs m) @ [(0, witness_commitment_script_hex m)]"
    by (rule built_manifest_parse[OF laws built])
  have "parse_transaction X coinbase field = Inr tx" using tx(1) c(1) unfolding parse_transaction_hex_Inr by auto
  then obtain tx' where "parse_transaction X (fp @ (e1 @ e2) @ fs) field = Inr tx'" "ensure_coinbase_shape tx' = Inr ()"
    "pt_outputs tx' = pt_outputs tx" "pt_lock_time tx' = pt_lock_time tx"
    by (rule refilled_coinbase[OF laws(1) _ tx(2) c(2-4)])
  then show ?thesis
    using tx(3,4) unfolding c(5) parse_transaction_hex_Inr hex_decode_encode[OF laws(1)] by auto
qed

theorem submission_pays_manifest_witness:
  "\<exists>sub tx. assemble_submission demo_crypto stratum_job (hex_encode demo_crypto [12]) ''6553f100'' ''00000000''
     (Some ''00002000'') VERSION_ROLLING_MASK = Inr sub \<and>
     parse_transaction_hex demo_crypto (sub_coinbase_tx_hex sub) ''coinbase'' = Inr tx \<and> pt_lock_time tx = 499"
proof -
  obtain sub where sub: "assemble_submission demo_crypto stratum_job (hex_encode demo_crypto [12]) ''6553f100'' ''00000000''
    (Some ''00002000'') VERSION_ROLLING_MASK = Inr sub" by (rule stratum_submission)
  from submission_pays_manifest[OF demo_crypto_hex demo_crypto_hex_text demo_crypto_sha stratum_built stratum_value
      stratum_issued sub, of "''coinbase''"] sub
  show ?thesis by (auto simp: stratum_request_def demo_request_def simp del: demo_crypto_simps)
qed

text \<open>C11. The header of a submission is the 80-byte header of the block it stands for: it carries the previous block
  hash of the job, and the Merkle root over the submitted coinbase and every transaction of the template, each without
  witness data, although only the Merkle branch is kept with the job. The version differs from the template's only in
  the bits of the mask, the time is not before the template's minimum, and the two verdicts compare the hash of that header
  with the share target and the network target.\<close>

theorem submission_commits_block:
  assumes laws: "hex_law X" "hex_text_law X" and job: "issued X N m tmpl job"
    and run: "assemble_submission X job extranonce2 time_hex nonce_hex bits vmask = Inr sub"
  shows "\<exists>coinbase stripped prev header. sub_coinbase_tx_hex sub = hex_encode X coinbase \<and>
    transactions_from_template X tmpl = Inr (j_transactions job) \<and>
    rmap strip_witness_transaction (coinbase # j_transactions job) = Inr stripped \<and>
    hex_decode X (j_previousblockhash job) = Inr prev \<and>
    header = le_bytes 4 (unat (sub_applied_version sub)) @ rev prev @ merkle_root X (map (hash256 X) stripped) @
      le_bytes 4 (sub_ntime sub) @ le_bytes 4 (j_nbits job) @ le_bytes 4 (sub_nonce sub) \<and> length header = 80 \<and>
    sub_header_hex sub = hex_encode X header \<and> sub_applied_version sub AND NOT vmask = j_version job AND NOT vmask \<and>
    j_mintime job \<le> sub_ntime sub \<and>
    (sub_share_pass sub \<longleftrightarrow> from_le_bytes (hash256 X header) \<le> j_share_target job) \<and>
    (sub_block_pass sub \<longleftrightarrow> from_le_bytes (hash256 X header) \<le> j_network_target job)"
proof -
  note ok = issued_ok[OF laws job]
  have txs: "transactions_from_template X tmpl = Inr (j_transactions job)" by (rule job_okE[OF ok])
  show ?thesis
    by (rule assemble_submission_Inr[OF laws ok run])
      (use txs applied_version_masked[of job bits vmask] in \<open>fastforce simp: rbind_Inr\<close>)
qed

theorem submission_commits_block_witness:
  "\<exists>sub header. assemble_submission demo_crypto stratum_job (hex_encode demo_crypto [12]) ''6553f100'' ''00000000''
     (Some ''00002000'') VERSION_ROLLING_MASK = Inr sub \<and> sub_header_hex sub = hex_encode demo_crypto header \<and>
     length header = 80 \<and> from_le_bytes (hash256 demo_crypto header) \<le> j_network_target stratum_job"
proof -
  obtain sub where sub: "assemble_submission demo_crypto stratum_job (hex_encode demo_crypto [12]) ''6553f100'' ''00000000''
    (Some ''00002000'') VERSION_ROLLING_MASK = Inr sub" "sub_block_pass sub" by (rule stratum_submission)
  from submission_commits_block[OF demo_crypto_hex demo_crypto_hex_text stratum_issued sub(1)] sub show ?thesis
    by (auto simp del: demo_crypto_simps)
qed

text \<open>C12. A submission for an issued job is built exactly when the fields the miner sent, whatever text they are, are well
  formed: an extranonce of two hexadecimal digits, of either case, for each byte of the assigned size, an eight-digit time not
  before the minimum, an eight-digit nonce, and rolled version bits, if any, inside the mask. None of the internal
  consistency checks between the two coinbase forms ever refuses a share.\<close>

theorem submission_accepted:
  assumes laws: "hex_law X" "hex_text_law X" "sha_law X" "hex_digits_law X"
    and built: "build_manifest X request = Inr m" "coinbase_value_sats request \<le> QBIT_MAX_MONEY_SATS"
    and job: "issued X N m tmpl job"
  shows "is_ok (assemble_submission X job extranonce2 time_hex nonce_hex bits vmask) \<longleftrightarrow>
    length extranonce2 = 2 * j_extranonce2_size job \<and> list_all is_hexdigit extranonce2 \<and>
    (\<exists>t. parse_u32_hex time_hex = Inr t \<and> j_mintime job \<le> t) \<and> is_ok (parse_u32_hex nonce_hex) \<and>
    (\<forall>s. bits = Some s \<longrightarrow> (\<exists>b. parse_u32_hex s = Inr b \<and> (of_nat b :: 32 word) AND NOT vmask = 0))"
proof -
  note ok = issued_ok[OF laws(1,2) job]
  have version: "is_ok (applied_version job bits vmask) \<longleftrightarrow>
      (\<forall>s. bits = Some s \<longrightarrow> (\<exists>b. parse_u32_hex s = Inr b \<and> (of_nat b :: 32 word) AND NOT vmask = 0))"
    by (cases bits) (auto simp: applied_version_def is_ok_iff rbind_Inr ensure_Inr Let_def)
  have digits: "is_ok (hex_decode X extranonce2) \<longleftrightarrow> even (length extranonce2) \<and> list_all is_hexdigit extranonce2"
    using laws(4) by (simp add: hex_digits_law_def)
  have "is_ok (assemble_submission X job extranonce2 time_hex nonce_hex bits vmask) \<longleftrightarrow>
    length extranonce2 = 2 * j_extranonce2_size job \<and> is_ok (hex_decode X extranonce2) \<and>
    (\<exists>t. parse_u32_hex time_hex = Inr t \<and> j_mintime job \<le> t) \<and>
    is_ok (parse_u32_hex nonce_hex) \<and> is_ok (applied_version job bits vmask)" (is "?run \<longleftrightarrow> ?args")
  proof
    show "?run \<Longrightarrow> ?args"
      unfolding assemble_submission_def is_ok_iff[of "rbind _ _"] by (auto simp: rbind_Inr ensure_Inr map_err_Inr is_ok_iff)
    obtain tx where tx: "\<forall>field. parse_transaction_hex X (coinbase_tx_hex m) field = Inr tx" "ensure_coinbase_shape tx = Inr ()"
      by (rule built_manifest_parse[OF laws(1-3) built])
    show "?args \<Longrightarrow> ?run"
      using assemble_accepts[OF laws ok spec[OF tx(1)] tx(2)] decoded_length[OF laws(1,2)] by (auto simp: is_ok_iff)
  qed
  then show ?thesis unfolding version digits by auto
qed

theorem submission_accepted_witness:
  "is_ok (assemble_submission demo_crypto stratum_job ''0C'' ''6553f100'' ''00000000'' (Some ''00002000'') VERSION_ROLLING_MASK) \<and>
   \<not> is_ok (assemble_submission demo_crypto stratum_job ''0g'' ''6553f100'' ''00000000'' (Some ''00002000'') VERSION_ROLLING_MASK) \<and>
   \<not> is_ok (assemble_submission demo_crypto stratum_job ''0c0d'' ''6553f100'' ''00000000'' (Some ''00002000'') VERSION_ROLLING_MASK)"
  unfolding submission_accepted[OF demo_crypto_hex demo_crypto_hex_text demo_crypto_sha demo_crypto_hex_digits stratum_built stratum_value
    stratum_issued] stratum_job_simps stratum_args
  using stratum_args(3,4) by (simp add: is_ok_def is_hexdigit_def digit_value_def)

text \<open>C29. A found block can be taken apart again: from the serialized block of a passing submission the decoder returns
  the submitted coinbase, the block starts with the submitted header, and the witness leaves computed from the block are
  exactly those of the template transactions the job was made from, in their order.\<close>

theorem block_rederived:
  assumes laws: "hex_law X" "hex_text_law X" and job: "issued X N m tmpl job"
    and run: "assemble_submission X job extranonce2 time_hex nonce_hex bits vmask = Inr sub"
    and pass: "sub_block_pass sub" "length (j_transactions job) < 2 ^ 64 - 1"
  shows "\<exists>block coinbase. hex_decode X (sub_block_hex sub) = Inr block \<and> coinbase_from_block block = Inr coinbase \<and>
    sub_coinbase_tx_hex sub = hex_encode X coinbase \<and> sub_header_hex sub = hex_encode X (take 80 block) \<and>
    transactions_from_template X tmpl = Inr (j_transactions job) \<and>
    witness_merkle_leaves_from_block X block = Inr (witness_leaves_hex X (j_transactions job))"
proof -
  obtain coinbase stripped ss header where c: "strip_witness_transaction coinbase = Inr stripped"
    "rmap strip_witness_transaction (j_transactions job) = Inr ss" "length header = 80"
    "sub_header_hex sub = hex_encode X header" "sub_coinbase_tx_hex sub = hex_encode X coinbase"
    "sub_block_hex sub = hex_encode X (if sub_block_pass sub
       then header @ compact_size (1 + length (j_transactions job)) @ coinbase @ concat (j_transactions job) else [])"
    by (rule assemble_submission_Inr[OF laws issued_ok[OF laws job] run])
  have txs: "\<forall>tx\<in>set (j_transactions job). whole_transaction tx"
    using c(2) strip_whole by (auto simp: rmap_Inr list_all2_conv_all_nth in_set_conv_nth)
  have tmpl: "transactions_from_template X tmpl = Inr (j_transactions job)" by (rule job_okE[OF issued_ok[OF laws job]])
  note leaves = block_leaves[OF c(3) pass(2) strip_whole[OF c(1)] txs refl]
  show ?thesis unfolding c(4-6) if_P[OF pass(1)] hex_decode_encode[OF laws(1)]
    using leaves c(3) tmpl by auto
qed

theorem block_rederived_witness:
  "\<exists>sub block. assemble_submission demo_crypto stratum_job (hex_encode demo_crypto [12]) ''6553f100'' ''00000000''
     (Some ''00002000'') VERSION_ROLLING_MASK = Inr sub \<and> hex_decode demo_crypto (sub_block_hex sub) = Inr block \<and>
     witness_merkle_leaves_from_block demo_crypto block = Inr (witness_leaves_hex demo_crypto (j_transactions stratum_job))"
proof -
  obtain sub where sub: "assemble_submission demo_crypto stratum_job (hex_encode demo_crypto [12]) ''6553f100'' ''00000000''
    (Some ''00002000'') VERSION_ROLLING_MASK = Inr sub" "sub_block_pass sub" by (rule stratum_submission)
  have "length (j_transactions stratum_job) < 2 ^ 64 - 1" by (simp add: stratum_job_simps)
  from block_rederived[OF demo_crypto_hex demo_crypto_hex_text stratum_issued sub this] sub(1) show ?thesis
    by (auto simp del: demo_crypto_simps)
qed

text \<open>C30. The two transaction decoders of the system agree: on every transaction the settlement parser accepts, with no
  witness data or with marker and flag 0 and 1, the work codec accepts the bytes and removes the witness data to the
  same bytes the parser hashes for the identifier.\<close>

theorem strip_agrees_with_parser:
  assumes hex: "hex_law X" and p: "parse_transaction X bytes field = Inr tx" and len: "length bytes < 2 ^ 64"
    and marker: "pt_witness_stacks tx \<noteq> None \<longrightarrow> bytes ! 5 = 1"
  shows "strip_witness_transaction bytes = Inr (pt_tx_without_witness tx)"
proof -
  obtain flag wit where b: "bytes = tx_bytes X (pt_version tx) flag (pt_inputs tx) (pt_outputs tx) wit (pt_lock_time tx)"
    "tx_parts_ok X (pt_inputs tx) (pt_outputs tx)"
    "pt_tx_without_witness tx = tx_bytes X (pt_version tx) [] (pt_inputs tx) (pt_outputs tx) [] (pt_lock_time tx)"
    "case pt_witness_stacks tx of None \<Rightarrow> flag = [] \<and> wit = []
     | Some ss \<Rightarrow> (\<exists>b. b \<noteq> 0 \<and> flag = [0, b]) \<and> length ss = length (pt_inputs tx) \<and>
         (\<forall>s\<in>set ss. stack_ok s) \<and> wit = concat (map serialize_stack ss)"
    by (rule parse_transaction_Inr[OF hex p])
  have "flag = [0, f] \<Longrightarrow> bytes ! 5 = f" for f by (simp add: b(1) tx_bytes_def nth_append)
  then have "wire_witness (length (pt_inputs tx)) flag wit"
    using b(4) marker by (auto simp: wire_witness_def split: option.splits)
  from strip_tx_bytes[OF b(2) this len[unfolded b(1)]] show ?thesis unfolding b(3) by (simp flip: b(1))
qed

theorem strip_agrees_with_parser_witness:
  "strip_witness_transaction (tx_bytes demo_crypto 3 [0, 1] [demo_tx_in] [demo_tx_out] (serialize_stack [[1, 2], [0xc1]]) 101) =
     Inr (tx_bytes demo_crypto 3 [] [demo_tx_in] [demo_tx_out] [] 101)"
proof -
  let ?i = "ParsedTxIn.truncate demo_tx_in" and ?b = "\<lambda>flag wit. tx_bytes demo_crypto 3 flag [demo_tx_in] [demo_tx_out] wit 101"
  have same: "tx_bytes demo_crypto 3 flag [?i] [demo_tx_out] wit 101 = ?b flag wit" for flag wit
    using tx_parts_truncate(2)[of demo_crypto "[demo_tx_in]" "[demo_tx_out]"] by (simp add: tx_bytes_def)
  have ok: "tx_parts_ok demo_crypto [?i] [demo_tx_out]"
    using demo_tx_ok tx_parts_truncate(1)[of demo_crypto "[demo_tx_in]" "[demo_tx_out]"] by simp
  have p: "parse_transaction demo_crypto (?b [0, 1] (serialize_stack [[1, 2], [0xc1]])) ''tx'' =
      Inr \<lparr> pt_version = 3, pt_inputs = [?i], pt_outputs = [demo_tx_out], pt_lock_time = 101,
            pt_witness_stacks = Some [[[1, 2], [0xc1]]], pt_tx_without_witness = ?b [] [] \<rparr>"
    using parse_tx_bytes[OF demo_crypto_hex ok, where version = 3 and lock_time = 101 and stacks = "Some [[[1, 2], [0xc1]]]" and
        flag = "[0, 1]" and witness = "serialize_stack [[1, 2], [0xc1]]" and field = "''tx''"]
    by (simp add: same stack_ok_def)
  have "length (?b [0, 1] (serialize_stack [[1, 2], [0xc1]])) < 2 ^ 64" by code_simp
  from strip_agrees_with_parser[OF demo_crypto_hex p this] show ?thesis by (simp add: tx_bytes_def nth_append)
qed

text \<open>C31. A higher difficulty is never easier: the targets assigned for two difficulties, compared as doubles by their
  bits, are in the opposite order, both are positive and below two to the 256, without a minimum difficulty no target is
  harder than the network's, and with one no target is easier than the one of the minimum difficulty.\<close>

theorem assigned_target_antitone:
  assumes t: "assigned_target d least net = Inr t" "assigned_target d' least net = Inr t'" and le: "d \<le> d'"
    and net: "net < 2 ^ 256"
  shows "1 \<le> t' \<and> t' \<le> t \<and> t < 2 ^ 256 \<and>
    (if is_positive least then \<exists>cap. difficulty_target least = Inr cap \<and> t \<le> cap else net \<le> t')"
proof -
  obtain a a' where a: "difficulty_target d = Inr a" "difficulty_target d' = Inr a'"
    using t unfolding assigned_target_def by (auto simp: rbind_Inr)
  have b: "1 \<le> a'" "a' \<le> a" "a < 2 ^ 256" 
    using difficulty_target_antitone[OF a le] difficulty_target_bounds[OF a(1)] difficulty_target_bounds[OF a(2)] by simp_all
  show ?thesis
  proof (cases "is_positive least")
    case True
    then obtain cap where cap: "difficulty_target least = Inr cap"
      using t unfolding assigned_target_def by (auto simp: rbind_Inr Let_def)
    then have "t = min (max a net) cap" "t' = min (max a' net) cap"
      using t True a unfolding assigned_target_def by (simp_all add: Let_def)
    with b net difficulty_target_bounds[OF cap] True cap show ?thesis by (simp add: le_max_iff_disj min_less_iff_disj) linarith
  next
    case False
    then have "t = max a net" "t' = max a' net" using t a unfolding assigned_target_def by (simp_all add: Let_def)
    with b net False show ?thesis by (simp add: le_max_iff_disj) linarith
  qed
qed

theorem assigned_target_antitone_witness:
  "\<exists>t t'. assigned_target 0x3ff0000000000000 0 1 = Inr t \<and> assigned_target 0x4000000000000000 0 1 = Inr t' \<and> 1 \<le> t' \<and> t' \<le> t"
proof -
  have "is_ok (assigned_target 0x3ff0000000000000 0 1)" "is_ok (assigned_target 0x4000000000000000 0 1)"
    unfolding assigned_target_def difficulty_target_eq
    by (simp_all add: is_ok_def is_finite_def is_positive_def f64_exponent_def f64_infinity_def)
  then obtain t t' where t: "assigned_target 0x3ff0000000000000 0 1 = Inr t" "assigned_target 0x4000000000000000 0 1 = Inr t'"
    by (auto simp: is_ok_iff)
  from assigned_target_antitone[OF t] t show ?thesis by simp
qed

end
