(* ===== verification/Vardiff.thy ===== *)
theory Vardiff
  imports Double
begin

text \<open>
  The difficulty adjustment of a Stratum session (\<^verbatim>\<open>src/crates/qbit-prism-server/src/vardiff.rs\<close>): the estimate from accepted
  work, the bounded step, the early gate. Times are nanoseconds; a \<^verbatim>\<open>clamp\<close> with bounds out of order
  panics, which is the value \<open>None\<close>.
\<close>

record VardiffConfig =
  vc_enabled :: bool
  vc_target_seconds :: f64
  vc_minimum :: f64
  vc_maximum :: f64
  vc_retarget_seconds :: f64
  vc_max_step_up :: f64
  vc_max_step_down :: f64
  vc_ewma_alpha :: f64
  vc_tolerance :: f64
  vc_initial_enabled :: bool
  vc_initial_max_step_up :: f64
  vc_initial_min_shares :: u64
  vc_initial_min_step_up :: f64
  vc_initial_min_seconds :: f64

text \<open>The literal 0.001.\<close>

definition f64_milli :: f64 where
  "f64_milli = 0x3f50624dd2f1a9fc"

definition vardiff_validate :: "VardiffConfig \<Rightarrow> string + unit" where
  "vardiff_validate self =
     (if \<not> list_all (\<lambda>d. is_finite d \<and> is_positive d)
           [vc_target_seconds self, vc_minimum self, vc_maximum self, vc_retarget_seconds self, vc_max_step_up self,
            vc_max_step_down self, vc_ewma_alpha self, vc_initial_max_step_up self, vc_initial_min_step_up self,
            vc_initial_min_seconds self]
      then Inl ''vardiff values must be finite and positive''
      else if \<not> (f64_le (vc_minimum self) (vc_maximum self) \<and> f64_le f64_one (vc_max_step_up self) \<and>
                f64_le f64_one (vc_max_step_down self) \<and> f64_le (vc_ewma_alpha self) f64_one)
      then Inl ''invalid vardiff bounds''
      else if \<not> (is_finite (vc_tolerance self) \<and> is_nonnegative (vc_tolerance self)) then Inl ''invalid vardiff tolerance''
      else if \<not> (f64_le (vc_max_step_up self) (vc_initial_max_step_up self) \<and> f64_le f64_one (vc_initial_min_step_up self) \<and>
                vc_initial_min_shares self > 0)
      then Inl ''invalid initial vardiff convergence bounds''
      else if try_from_secs_f64 (vc_retarget_seconds self) = None then Inl ''vardiff retarget duration is too large''
      else Inr ())"

definition new_estimate :: "VardiffConfig \<Rightarrow> f64 \<Rightarrow> f64 \<Rightarrow> f64 option \<Rightarrow> f64 option option" where
  "new_estimate self accepted_work elapsed previous_estimate =
     (if f64_lt 0 accepted_work
      then (let observed = f64_div (f64_mul accepted_work (vc_target_seconds self)) (f64_max elapsed f64_milli);
                smoothed = (case previous_estimate of
                    None \<Rightarrow> observed
                  | Some old \<Rightarrow> f64_add (f64_mul (vc_ewma_alpha self) observed)
                      (f64_mul (f64_sub f64_one (vc_ewma_alpha self)) old)) in
            map_option Some (f64_clamp smoothed (vc_minimum self) (vc_maximum self)))
      else Some None)"

definition next_difficulty :: "VardiffConfig \<Rightarrow> f64 \<Rightarrow> f64 \<Rightarrow> f64 \<Rightarrow> f64 option \<Rightarrow> (f64 \<times> f64 option) option" where
  "next_difficulty self current accepted_work elapsed previous_estimate =
     do {
       current \<leftarrow> f64_clamp current (vc_minimum self) (vc_maximum self);
       estimate \<leftarrow> new_estimate self accepted_work elapsed previous_estimate;
       let desired = (case estimate of Some e \<Rightarrow> e | None \<Rightarrow> f64_div current (vc_max_step_down self));
       stepped \<leftarrow> f64_clamp desired (f64_div current (vc_max_step_down self)) (f64_mul current (vc_max_step_up self));
       next \<leftarrow> f64_clamp stepped (vc_minimum self) (vc_maximum self);
       Some (next, if estimate = None then previous_estimate else estimate)
     }"

record Vardiff =
  v_config :: VardiffConfig
  v_started :: nat
  v_accepted_work :: f64
  v_estimate :: "f64 option"
  v_accepted_shares :: u64
  v_initial_pending :: bool
  v_initial_evaluated :: bool
  v_proposed_initial :: bool
  v_proposed_share_backed :: bool

definition vardiff_new :: "nat \<Rightarrow> VardiffConfig \<Rightarrow> Vardiff" where
  "vardiff_new now config = \<lparr> v_config = config, v_started = now, v_accepted_work = 0, v_estimate = None,
     v_accepted_shares = 0, v_initial_pending = True, v_initial_evaluated = False, v_proposed_initial = False,
     v_proposed_share_backed = False \<rparr>"

definition accepted :: "f64 \<Rightarrow> Vardiff \<Rightarrow> Vardiff" where
  "accepted work self = self \<lparr> v_accepted_work := f64_add (v_accepted_work self) work,
     v_accepted_shares := (v_accepted_shares self + 1) mod 2 ^ 64 \<rparr>"

definition vardiff_reset :: "nat \<Rightarrow> Vardiff \<Rightarrow> Vardiff" where
  "vardiff_reset now self = self \<lparr> v_started := now, v_accepted_work := 0, v_estimate := None, v_accepted_shares := 0 \<rparr>"

text \<open>A retarget reads the clock twice, for the elapsed time and for the start of the next period.\<close>

definition retarget :: "nat \<Rightarrow> nat \<Rightarrow> f64 \<Rightarrow> Vardiff \<Rightarrow> (Vardiff \<times> f64 option) option" where
  "retarget now later current self =
     (if \<not> vc_enabled (v_config self) then Some (self, None)
      else let config = v_config self;
               elapsed = as_secs_f64 (now - v_started self);
               evaluate_initial = (v_initial_pending self \<and> \<not> v_initial_evaluated self \<and> vc_initial_enabled config \<and>
                 v_accepted_shares self \<ge> vc_initial_min_shares config \<and> f64_le (vc_initial_min_seconds config) elapsed);
               initial = (evaluate_initial \<and>
                 f64_le (f64_mul current (vc_initial_min_step_up config))
                   (f64_div (f64_mul (v_accepted_work self) (vc_target_seconds config)) elapsed));
               self = (if evaluate_initial then self \<lparr> v_initial_evaluated := True \<rparr> else self) in
      if f64_lt elapsed (vc_retarget_seconds config) \<and> \<not> initial then Some (self, None)
      else let policy = (if initial then config \<lparr> vc_max_step_up := vc_initial_max_step_up config \<rparr> else config) in
      do {
        (next, estimate) \<leftarrow> next_difficulty policy current (v_accepted_work self) elapsed (v_estimate self);
        let self = self \<lparr> v_estimate := estimate, v_proposed_initial := initial,
              v_proposed_share_backed := v_accepted_shares self > 0, v_accepted_work := 0, v_accepted_shares := 0,
              v_started := later \<rparr>;
        Some (self, if \<not> f64_eq next current \<and> f64_le (vc_tolerance config) (f64_div (f64_abs (f64_sub next current)) current)
          then Some next else None)
      })"

definition delivered_retarget :: "Vardiff \<Rightarrow> Vardiff" where
  "delivered_retarget self = self \<lparr> v_initial_pending := False \<rparr>"

text \<open>The defaults: target 15.0, minimum 1e-9, maximum 1024.0, period 90.0, steps 4.0, smoothing 0.4, tolerance 0.25, first
  step 64.0, gate 4.0 and 1.0.\<close>

definition VARDIFF_DEFAULT :: VardiffConfig where
  "VARDIFF_DEFAULT = \<lparr> vc_enabled = True, vc_target_seconds = 0x402e000000000000, vc_minimum = 0x3e112e0be826d695,
     vc_maximum = 0x4090000000000000, vc_retarget_seconds = 0x4056800000000000, vc_max_step_up = 0x4010000000000000,
     vc_max_step_down = 0x4010000000000000, vc_ewma_alpha = 0x3fd999999999999a, vc_tolerance = 0x3fd0000000000000,
     vc_initial_enabled = True, vc_initial_max_step_up = 0x4050000000000000, vc_initial_min_shares = 8,
     vc_initial_min_step_up = 0x4010000000000000, vc_initial_min_seconds = f64_one \<rparr>"

section \<open>No panic, and steps within the bounds\<close>

lemma validate_facts:
  assumes "vardiff_validate c = Inr ()"
  shows "ordinary (vc_target_seconds c)" "0 < vc_target_seconds c" "vc_target_seconds c < f64_infinity"
    "0 < vc_minimum c" "vc_minimum c \<le> vc_maximum c" "vc_maximum c < f64_infinity"
    "f64_one \<le> vc_max_step_up c" "vc_max_step_up c < f64_infinity"
    "f64_one \<le> vc_max_step_down c" "vc_max_step_down c < f64_infinity"
    "0 < vc_ewma_alpha c" "vc_ewma_alpha c \<le> f64_one"
    "vc_max_step_up c \<le> vc_initial_max_step_up c" "vc_initial_max_step_up c < f64_infinity"
proof -
  have one: "ordinary f64_one" by (simp add: ordinary_def f64_one_def f64_infinity_def)
  have "\<forall>d\<in>{vc_target_seconds c, vc_minimum c, vc_maximum c, vc_max_step_up c, vc_max_step_down c, vc_ewma_alpha c,
      vc_initial_max_step_up c}. is_finite d \<and> is_positive d"
    using assms by (simp add: vardiff_validate_def split: if_splits)
  then have o: "\<forall>d\<in>{vc_target_seconds c, vc_minimum c, vc_maximum c, vc_max_step_up c, vc_max_step_down c, vc_ewma_alpha c,
      vc_initial_max_step_up c}. ordinary d \<and> 0 < d \<and> d < f64_infinity"
    unfolding finite_positive by (simp add: ordinary_def)
  then show "ordinary (vc_target_seconds c)" "0 < vc_target_seconds c" "vc_target_seconds c < f64_infinity"
    "0 < vc_minimum c" "vc_maximum c < f64_infinity" "vc_max_step_up c < f64_infinity" "vc_max_step_down c < f64_infinity"
    "0 < vc_ewma_alpha c" "vc_initial_max_step_up c < f64_infinity" by simp_all
  have "f64_le (vc_minimum c) (vc_maximum c)" "f64_le f64_one (vc_max_step_up c)" "f64_le f64_one (vc_max_step_down c)"
    "f64_le (vc_ewma_alpha c) f64_one" "f64_le (vc_max_step_up c) (vc_initial_max_step_up c)"
    using assms by (auto simp: vardiff_validate_def split: if_splits)
  then show "vc_minimum c \<le> vc_maximum c" "f64_one \<le> vc_max_step_up c" "f64_one \<le> vc_max_step_down c" "vc_ewma_alpha c \<le> f64_one"
    "vc_max_step_up c \<le> vc_initial_max_step_up c" using o one by (simp_all add: ordinary_le)
qed

lemma validate_initial_policy:
  assumes "vardiff_validate c = Inr ()"
  shows "vardiff_validate (c \<lparr> vc_max_step_up := vc_initial_max_step_up c \<rparr>) = Inr ()"
proof -
  have "ordinary f64_one" "ordinary (vc_initial_max_step_up c)"
    using validate_facts(14)[OF assms] by (simp_all add: ordinary_def f64_one_def f64_infinity_def)
  then have "f64_le f64_one (vc_initial_max_step_up c)" "f64_le (vc_initial_max_step_up c) (vc_initial_max_step_up c)"
    using validate_facts(7,13)[OF assms] by (simp_all add: ordinary_le)
  then show ?thesis using assms by (simp add: vardiff_validate_def split: if_splits)
qed

lemma one_minus_ordinary:
  assumes "0 < a" "a \<le> f64_one"
  shows "ordinary (f64_sub f64_one a)" "f64_sub f64_one a < f64_infinity"
proof -
  have "f64_sub f64_one a \<le> f64_one" by (rule sub_le) (use assms in \<open>simp_all add: f64_one_def f64_infinity_def\<close>)
  moreover have "f64_one < f64_infinity" by (simp add: f64_one_def f64_infinity_def)
  ultimately show "ordinary (f64_sub f64_one a)" "f64_sub f64_one a < f64_infinity" by (simp_all add: ordinary_def)
qed

lemma one_le_scaled:
  assumes "f64_one \<le> x" "x < f64_infinity"
  shows "f64_unit \<le> f64_scaled x"
proof -
  have "0 < f64_one" "f64_one < f64_infinity" by (simp_all add: f64_one_def f64_infinity_def)
  then have "is_finite f64_one \<and> is_positive f64_one" "is_finite x \<and> is_positive x" using assms by (simp_all add: finite_positive)
  then have "f64_scaled f64_one \<le> f64_scaled x" using assms(1) by (intro f64_scaled_mono) simp_all
  then show ?thesis by (simp add: f64_one(1))
qed

definition estimate_ok :: "VardiffConfig \<Rightarrow> f64 option \<Rightarrow> bool" where
  "estimate_ok c e \<longleftrightarrow> (case e of None \<Rightarrow> True | Some d \<Rightarrow> vc_minimum c \<le> d \<and> d \<le> vc_maximum c)"

lemma estimate_ok_simps [simp]:
  "estimate_ok c None" "estimate_ok c (Some d) \<longleftrightarrow> vc_minimum c \<le> d \<and> d \<le> vc_maximum c"
  "estimate_ok (c \<lparr> vc_max_step_up := x \<rparr>) e = estimate_ok c e"
  by (simp_all add: estimate_ok_def split: option.split)

lemma observed_ordinary:
  assumes v: "vardiff_validate c = Inr ()" and w: "ordinary work" "0 < work" and e: "ordinary elapsed" "elapsed < f64_infinity"
  shows "ordinary (f64_div (f64_mul work (vc_target_seconds c)) (f64_max elapsed f64_milli))"
proof -
  have "ordinary f64_milli" "0 < f64_milli" "f64_milli < f64_infinity" by (simp_all add: ordinary_def f64_milli_def f64_infinity_def)
  moreover have "ordinary (f64_mul work (vc_target_seconds c))" using validate_facts(1-3)[OF v] w by (intro ordinary_mul) simp_all
  ultimately show ?thesis using e by (intro ordinary_div) (simp_all add: ordinary_max max_def)
qed

lemma smoothed_ordinary:
  assumes v: "vardiff_validate c = Inr ()" and o: "ordinary observed" and old: "vc_minimum c \<le> old" "old \<le> vc_maximum c"
  shows "ordinary (f64_add (f64_mul (vc_ewma_alpha c) observed) (f64_mul (f64_sub f64_one (vc_ewma_alpha c)) old))"
proof -
  note f = validate_facts[OF v]
  have a: "ordinary (vc_ewma_alpha c)" "vc_ewma_alpha c < f64_infinity"
    using f(12) by (simp_all add: ordinary_def f64_one_def f64_infinity_def)
  have d: "ordinary old" "old < f64_infinity" using old f(6) by (simp_all add: ordinary_def)
  show ?thesis
    using a d o one_minus_ordinary[OF f(11,12)] f(11) by (intro ordinary_add ordinary_mul) simp_all
qed

lemma new_estimate_bounded:
  assumes v: "vardiff_validate c = Inr ()" and w: "ordinary work" and e: "ordinary elapsed" "elapsed < f64_infinity"
    and old: "estimate_ok c previous"
  obtains est where "new_estimate c work elapsed previous = Some est" "estimate_ok c est"
proof (cases "f64_lt 0 work")
  case True
  then have "0 < work" using ordinary_le(2)[of 0 work] w by (simp add: ordinary_def)
  note obs = observed_ordinary[OF v w this e]
  define o1 where "o1 = f64_div (f64_mul work (vc_target_seconds c)) (f64_max elapsed f64_milli)"
  define o2 where "o2 = (case previous of None \<Rightarrow> o1
    | Some old \<Rightarrow> f64_add (f64_mul (vc_ewma_alpha c) o1) (f64_mul (f64_sub f64_one (vc_ewma_alpha c)) old))"
  have "ordinary o2"
    using obs smoothed_ordinary[OF v, of o1] old by (cases previous) (simp_all add: o2_def flip: o1_def)
  then have "f64_clamp o2 (vc_minimum c) (vc_maximum c) = Some (min (max o2 (vc_minimum c)) (vc_maximum c))"
    using validate_facts(5,6)[OF v] by (intro ordinary_clamp) (simp_all add: ordinary_def)
  then show thesis
    using True validate_facts(5)[OF v] by (intro that[of "Some (min (max o2 (vc_minimum c)) (vc_maximum c))"])
      (simp_all add: new_estimate_def Let_def flip: o1_def o2_def)
qed (use that[of None] in \<open>simp add: new_estimate_def\<close>)

lemma next_difficulty_bounded:
  assumes v: "vardiff_validate c = Inr ()" and cur: "ordinary current" and w: "ordinary work"
    and e: "ordinary elapsed" "elapsed < f64_infinity" and old: "estimate_ok c previous"
  obtains now d est where "f64_clamp current (vc_minimum c) (vc_maximum c) = Some now"
    "next_difficulty c current work elapsed previous = Some (d, est)"
    "vc_minimum c \<le> d" "d \<le> vc_maximum c" "f64_div now (vc_max_step_down c) \<le> d" "d \<le> f64_mul now (vc_max_step_up c)"
    "estimate_ok c est"
proof -
  note f = validate_facts[OF v]
  have bounds: "ordinary (vc_minimum c)" "ordinary (vc_maximum c)" "ordinary (vc_max_step_up c)" "ordinary (vc_max_step_down c)"
    using f(5,6,8,10) by (simp_all add: ordinary_def)
  define now where "now = min (max current (vc_minimum c)) (vc_maximum c)"
  have now: "vc_minimum c \<le> now" "now \<le> vc_maximum c" "ordinary now" "0 < now" "now < f64_infinity"
    using f(4,5,6) bounds by (auto simp: now_def ordinary_def)
  have clamp: "f64_clamp x (vc_minimum c) (vc_maximum c) = Some (min (max x (vc_minimum c)) (vc_maximum c))" if "ordinary x" for x
    by (rule ordinary_clamp[OF that bounds(2) f(5)])
  define lo hi where lh: "lo = f64_div now (vc_max_step_down c)" "hi = f64_mul now (vc_max_step_up c)"
  have unit: "f64_unit \<le> f64_scaled x" if "f64_one \<le> x" "x < f64_infinity" for x
    using one_le_scaled[OF that] .
  have "lo \<le> now" unfolding lh by (rule div_le[OF now(3-5) bounds(4) f(10) unit[OF f(9,10)]])
  have "now \<le> hi" unfolding lh by (rule mul_ge[OF now(3-5) bounds(3) f(8) unit[OF f(7,8)]])
  have "ordinary hi" unfolding lh using now bounds(3) f(7,8) by (intro ordinary_mul) (simp_all add: f64_one_def)
  then have step: "f64_clamp x lo hi = Some (min (max x lo) hi)" if "ordinary x" for x
    using that \<open>lo \<le> now\<close> \<open>now \<le> hi\<close> by (intro ordinary_clamp) simp_all
  obtain est where est: "new_estimate c work elapsed previous = Some est" "estimate_ok c est"
    by (rule new_estimate_bounded[OF v w e old])
  define des where "des = (case est of Some e \<Rightarrow> e | None \<Rightarrow> lo)"
  have des: "ordinary des"
    using est(2) bounds(2) now(3) \<open>lo \<le> now\<close> by (auto simp: des_def estimate_ok_def ordinary_def split: option.splits)
  define d where "d = min (max (min (max des lo) hi) (vc_minimum c)) (vc_maximum c)"
  have "next_difficulty c current work elapsed previous = Some (d, if est = None then previous else est)"
    unfolding next_difficulty_def clamp[OF cur] now_def[symmetric] bind.simps est(1) Let_def lh[symmetric] des_def[symmetric] step[OF des]
    using clamp[of "min (max des lo) hi"] des \<open>ordinary hi\<close> by (simp add: d_def ordinary_def)
  moreover have "vc_minimum c \<le> d" "d \<le> vc_maximum c" "lo \<le> d" "d \<le> hi"
    using f(5) now \<open>lo \<le> now\<close> \<open>now \<le> hi\<close> by (auto simp: d_def)
  moreover have "estimate_ok c (if est = None then previous else est)" using est(2) old by simp
  ultimately show thesis using that clamp[OF cur] unfolding now_def[symmetric] lh by blast
qed

section \<open>A session's adjustment\<close>

text \<open>What happens to the adjustment of a session: shares are accepted, the miner asks for another difficulty, a period
  ends, a new difficulty is delivered. Instants of the clock are less than two to the 64 seconds apart.\<close>

inductive vardiff_run :: "VardiffConfig \<Rightarrow> Vardiff \<Rightarrow> bool" for c where
  vardiff_start: "vardiff_run c (vardiff_new now c)"
| vardiff_accept: "vardiff_run c v \<Longrightarrow> ordinary work \<Longrightarrow> vardiff_run c (accepted work v)"
| vardiff_again: "vardiff_run c v \<Longrightarrow> vardiff_run c (vardiff_reset now v)"
| vardiff_period: "vardiff_run c v \<Longrightarrow> ordinary current \<Longrightarrow> now - v_started v < 2 ^ 64 * NANOS_PER_SEC \<Longrightarrow>
    retarget now later current v = Some (v', d) \<Longrightarrow> vardiff_run c v'"
| vardiff_deliver: "vardiff_run c v \<Longrightarrow> vardiff_run c (delivered_retarget v)"

definition vardiff_ok :: "VardiffConfig \<Rightarrow> Vardiff \<Rightarrow> bool" where
  "vardiff_ok c v \<longleftrightarrow> v_config v = c \<and> ordinary (v_accepted_work v) \<and> estimate_ok c (v_estimate v)"

lemma retarget_bounded:
  assumes c: "vardiff_validate c = Inr ()" and v: "vardiff_ok c v" and cur: "ordinary current"
    and t: "now - v_started v < 2 ^ 64 * NANOS_PER_SEC"
  obtains v' r here where "retarget now later current v = Some (v', r)" "vardiff_ok c v'"
    "f64_clamp current (vc_minimum c) (vc_maximum c) = Some here"
    "\<And>d. r = Some d \<Longrightarrow> vc_minimum c \<le> d \<and> d \<le> vc_maximum c \<and> f64_div here (vc_max_step_down c) \<le> d \<and>
       d \<le> f64_mul here (if v_proposed_initial v' then vc_initial_max_step_up c else vc_max_step_up c)"
proof -
  note ok = v[unfolded vardiff_ok_def]
  from ok have cfg: "v_config v = c" by simp
  define elapsed where "elapsed = as_secs_f64 (now - v_started v)"
  have el: "ordinary elapsed" "elapsed < f64_infinity" unfolding elapsed_def by (rule as_secs_f64_finite[OF t])+
  define eval where "eval \<longleftrightarrow> v_initial_pending v \<and> \<not> v_initial_evaluated v \<and> vc_initial_enabled c \<and>
    v_accepted_shares v \<ge> vc_initial_min_shares c \<and> f64_le (vc_initial_min_seconds c) elapsed"
  define first where "first \<longleftrightarrow> eval \<and> f64_le (f64_mul current (vc_initial_min_step_up c))
    (f64_div (f64_mul (v_accepted_work v) (vc_target_seconds c)) elapsed)"
  define w where "w = (if eval then v \<lparr> v_initial_evaluated := True \<rparr> else v)"
  define policy where "policy = (if first then c \<lparr> vc_max_step_up := vc_initial_max_step_up c \<rparr> else c)"
  have policy: "vardiff_validate policy = Inr ()" "estimate_ok policy (v_estimate v)"
    using c validate_initial_policy[OF c] ok by (simp_all add: policy_def)
  obtain here d est where n: "f64_clamp current (vc_minimum policy) (vc_maximum policy) = Some here"
    "next_difficulty policy current (v_accepted_work v) elapsed (v_estimate v) = Some (d, est)"
    "vc_minimum policy \<le> d" "d \<le> vc_maximum policy" "f64_div here (vc_max_step_down policy) \<le> d"
    "d \<le> f64_mul here (vc_max_step_up policy)" "estimate_ok policy est"
    using ok by (auto intro: next_difficulty_bounded[OF policy(1) cur _ el policy(2), of "v_accepted_work v"])
  have w: "v_accepted_work w = v_accepted_work v" "v_estimate w = v_estimate v" "v_config w = c" by (simp_all add: w_def ok)
  have run: "retarget now later current v =
     (if \<not> vc_enabled c then Some (v, None)
      else if f64_lt elapsed (vc_retarget_seconds c) \<and> \<not> first then Some (w, None)
      else Some (w \<lparr> v_estimate := est, v_proposed_initial := first, v_proposed_share_backed := v_accepted_shares w > 0,
          v_accepted_work := 0, v_accepted_shares := 0, v_started := later \<rparr>,
        if \<not> f64_eq d current \<and> f64_le (vc_tolerance c) (f64_div (f64_abs (f64_sub d current)) current) then Some d else None))"
    unfolding retarget_def Let_def cfg elapsed_def[symmetric] eval_def[symmetric] first_def[symmetric] w_def[symmetric]
      policy_def[symmetric] w n(2) by simp
  have same: "vc_minimum policy = vc_minimum c" "vc_maximum policy = vc_maximum c" "vc_max_step_down policy = vc_max_step_down c"
    "vc_max_step_up policy = (if first then vc_initial_max_step_up c else vc_max_step_up c)" "estimate_ok policy = estimate_ok c"
    by (simp_all add: policy_def fun_eq_iff)
  have ok': "vardiff_ok c w" using v w by (simp add: vardiff_ok_def)
  consider "\<not> vc_enabled c" | "vc_enabled c" "f64_lt elapsed (vc_retarget_seconds c)" "\<not> first" |
    "vc_enabled c" "\<not> (f64_lt elapsed (vc_retarget_seconds c) \<and> \<not> first)" by blast
  then show thesis
  proof cases
    case 1
    then show thesis using run v n(1) by (intro that[of v None here]) (simp_all add: same)
  next
    case 2
    then show thesis using run ok' n(1) by (intro that[of w None here]) (simp_all add: same)
  next
    case 3
    with run have r: "retarget now later current v =
     Some (w \<lparr> v_estimate := est, v_proposed_initial := first, v_proposed_share_backed := v_accepted_shares w > 0,
          v_accepted_work := 0, v_accepted_shares := 0, v_started := later \<rparr>,
        if \<not> f64_eq d current \<and> f64_le (vc_tolerance c) (f64_div (f64_abs (f64_sub d current)) current) then Some d else None)" by simp
    show thesis
      by (rule that[OF r _ n(1)[unfolded same]])
        (use n(3-7) w in \<open>simp_all add: same vardiff_ok_def ordinary_def split: if_splits\<close>)
  qed
qed


lemma vardiff_run_ok:
  assumes c: "vardiff_validate c = Inr ()" and "vardiff_run c v"
  shows "vardiff_ok c v"
  using assms(2)
proof induction
  case (vardiff_accept v work)
  then show ?case by (simp add: vardiff_ok_def accepted_def ordinary_add)
next
  case (vardiff_period v current now later v' d)
  then show ?case using retarget_bounded[OF c vardiff_period.IH] by (metis fst_conv option.inject)
qed (simp_all add: vardiff_ok_def vardiff_new_def vardiff_reset_def delivered_retarget_def ordinary_def)

text \<open>C17. The difficulty adjustment of a session never panics and stays within its limits: with a validated configuration,
  whatever shares are accepted and however often the period ends, the three clamps have their bounds in order in the
  rounded arithmetic of doubles, and a proposed difficulty lies between the configured minimum and maximum, at
  most one step down and one step up from the current one, the larger first step only when the early gate opened.\<close>

theorem vardiff_within_limits:
  assumes "vardiff_validate c = Inr ()" "vardiff_run c v" "ordinary current" "now - v_started v < 2 ^ 64 * NANOS_PER_SEC"
  shows "\<exists>v' r here. retarget now later current v = Some (v', r) \<and>
    f64_clamp current (vc_minimum c) (vc_maximum c) = Some here \<and>
    (\<forall>d. r = Some d \<longrightarrow> vc_minimum c \<le> d \<and> d \<le> vc_maximum c \<and> f64_div here (vc_max_step_down c) \<le> d \<and>
       d \<le> f64_mul here (if v_proposed_initial v' then vc_initial_max_step_up c else vc_max_step_up c))"
  by (rule retarget_bounded[OF assms(1) vardiff_run_ok[OF assms(1,2)] assms(3,4)]) blast

lemma ninety_seconds: "try_from_secs_f64 0x4056800000000000 \<noteq> None"
proof -
  have "f64_scaled 0x4056800000000000 * NANOS_PER_SEC = 90 * NANOS_PER_SEC * f64_unit"
    by (simp add: f64_scaled_def f64_exponent_def f64_unit_def)
  then have "half_even (f64_scaled 0x4056800000000000 * NANOS_PER_SEC) f64_unit = 90 * NANOS_PER_SEC"
    by (simp only: half_even_exact f64_unit_pos)
  moreover have "90 * NANOS_PER_SEC < 2 ^ 64 * NANOS_PER_SEC" by (simp add: NANOS_PER_SEC_def)
  ultimately show ?thesis
    by (simp add: try_from_secs_f64_def is_nan_def is_finite_def f64_exponent_def f64_infinity_def f64_neg_def)
qed

lemma default_validates: "vardiff_validate VARDIFF_DEFAULT = Inr ()"
  using ninety_seconds
  by (simp add: vardiff_validate_def VARDIFF_DEFAULT_def is_finite_def f64_exponent_def is_positive_def is_nonnegative_def
      f64_infinity_def f64_le_def is_nan_def f64_key_def f64_one_def)

theorem vardiff_within_limits_witness:
  "\<exists>v' r. retarget (90 * NANOS_PER_SEC) (90 * NANOS_PER_SEC) f64_one
      (accepted (f64_of_nat 100) (vardiff_new 0 VARDIFF_DEFAULT)) = Some (v', r) \<and>
     (\<forall>d. r = Some d \<longrightarrow> d \<le> vc_maximum VARDIFF_DEFAULT)"
proof -
  have run: "vardiff_run VARDIFF_DEFAULT (accepted (f64_of_nat 100) (vardiff_new 0 VARDIFF_DEFAULT))"
    by (intro vardiff_accept vardiff_start) (simp add: f64_of_nat_def)
  have "ordinary f64_one" "90 * NANOS_PER_SEC - v_started (accepted (f64_of_nat 100) (vardiff_new 0 VARDIFF_DEFAULT)) < 2 ^ 64 * NANOS_PER_SEC"
    using f64_one(3) by (simp_all add: ordinary_def accepted_def vardiff_new_def NANOS_PER_SEC_def)
  from vardiff_within_limits[OF default_validates run this] show ?thesis by blast
qed

end
