(* ===== verification/Stratum_Session.thy ===== *)
theory Stratum_Session
  imports Stratum_Codec Vardiff "HOL-Library.AList"
begin

text \<open>
  A Stratum session (\<^verbatim>\<open>src/crates/qbit-prism-server/src/stratum.rs\<close> with \<^verbatim>\<open>stratum/retained_jobs.rs\<close> and
  \<^verbatim>\<open>stratum/stale_grace.rs\<close>): the work it has issued and may still accept, the difficulty it assigns, the budgets of
  misbehaviour. Instants and durations are nanoseconds; the clock is read by the caller, once for each operation. Sockets, metrics,
  the backend and the difficulty hints stored for later sessions are left out: a job to announce or to resume, and the tip the backend published, are arguments. A
  reservation of a username is the number of its permit. A hash map is an association list with distinct keys, whose
  order no operation depends on. \<open>None\<close> as the result of an operation is a panic, or a loop that does not end.
\<close>

section \<open>Configuration\<close>

record StratumConfig =
  sc_resume_enabled :: bool
  sc_resume_ttl_seconds :: u64
  sc_resume_max_entries :: usize
  sc_resume_max_start_factor :: f64
  sc_startup_difficulty :: f64
  sc_minimum_difficulty :: f64
  sc_vardiff :: VardiffConfig
  sc_extranonce2_size :: usize
  sc_version_rolling_mask :: "32 word"
  sc_max_message_bytes :: usize
  sc_max_jobs_per_connection :: usize
  sc_job_retention_seconds :: f64
  sc_stale_grace_seconds :: f64
  sc_initial_job_timeout_seconds :: f64
  sc_write_timeout_seconds :: f64
  sc_listen_backlog :: u32
  sc_max_connections_per_username :: usize
  sc_max_connections_per_ip :: usize
  sc_session_budget_interval_seconds :: f64
  sc_max_malformed_frames_per_interval :: u32
  sc_max_unknown_jobs_per_interval :: u32
  sc_max_authorize_attempts_per_interval :: u32

definition MAX_LISTEN_BACKLOG :: u32 where
  "MAX_LISTEN_BACKLOG = 0x7fffffff"

definition MAX_SESSION_BUDGET :: u32 where
  "MAX_SESSION_BUDGET = 1000000"

text \<open>The capacity of a semaphore is a constant of tokio and an argument here. The bound on the budget interval is the
  double 3600.0.\<close>

definition stratum_validate :: "usize \<Rightarrow> StratumConfig \<Rightarrow> string + unit" where
  "stratum_validate max_permits self =
     rbind (vardiff_validate (sc_vardiff self)) (\<lambda>_.
     rbind (ensure (sc_resume_ttl_seconds self \<le> 86400 \<and> sc_resume_max_entries self \<le> 1000000)
       ''vardiff resume retention exceeds supported bounds'') (\<lambda>_.
     rbind (ensure (is_finite (sc_resume_max_start_factor self) \<and> f64_le f64_one (sc_resume_max_start_factor self))
       ''PRISM_STRATUM_VARDIFF_RESUME_MAX_START_FACTOR must be finite and at least 1'') (\<lambda>_.
     rbind (ensure (1 \<le> sc_listen_backlog self \<and> sc_listen_backlog self \<le> MAX_LISTEN_BACKLOG)
       (''PRISM_STRATUM_LISTEN_BACKLOG must be between 1 and '' @ show_nat MAX_LISTEN_BACKLOG)) (\<lambda>_.
     rbind (ensure (sc_max_connections_per_username self \<le> max_permits)
       ''per-username connection limit exceeds semaphore capacity'') (\<lambda>_.
     rbind (ensure (sc_max_connections_per_ip self \<le> max_permits)
       ''PRISM_STRATUM_MAX_CONNECTIONS_PER_IP exceeds semaphore capacity'') (\<lambda>_.
     rbind (ensure (is_finite (sc_session_budget_interval_seconds self) \<and> is_positive (sc_session_budget_interval_seconds self) \<and>
         f64_le (sc_session_budget_interval_seconds self) 0x40ac200000000000)
       ''PRISM_STRATUM_SESSION_BUDGET_INTERVAL_SECONDS must be finite, positive and at most 3600'') (\<lambda>_.
     rbind (rfold (\<lambda>_ (name, budget). ensure (budget \<le> MAX_SESSION_BUDGET)
           (name @ '' must be at most '' @ show_nat MAX_SESSION_BUDGET)) ()
         [(''PRISM_STRATUM_MAX_MALFORMED_FRAMES_PER_INTERVAL'', sc_max_malformed_frames_per_interval self),
          (''PRISM_STRATUM_MAX_UNKNOWN_JOBS_PER_INTERVAL'', sc_max_unknown_jobs_per_interval self),
          (''PRISM_STRATUM_MAX_AUTHORIZE_ATTEMPTS_PER_INTERVAL'', sc_max_authorize_attempts_per_interval self)]) (\<lambda>_.
     rbind (ensure (is_finite (sc_startup_difficulty self) \<and> is_positive (sc_startup_difficulty self))
       ''startup difficulty must be positive'') (\<lambda>_.
     rbind (ensure (is_finite (sc_minimum_difficulty self) \<and> is_nonnegative (sc_minimum_difficulty self))
       ''minimum difficulty must be nonnegative'') (\<lambda>_.
     rbind (ensure (f64_le (sc_minimum_difficulty self) (vc_maximum (sc_vardiff self)))
       ''listener difficulty floor exceeds maximum'') (\<lambda>_.
     rbind (ensure (sc_extranonce2_size self > 0 \<and> sc_extranonce2_size self \<le> 32)
       ''extranonce2 size must be between 1 and 32'') (\<lambda>_.
     rbind (ensure (sc_max_message_bytes self \<ge> 256 \<and> sc_max_message_bytes self \<le> 1024 * 1024 \<and> sc_max_jobs_per_connection self > 0)
       ''invalid Stratum message/job bounds'') (\<lambda>_.
     rbind (rfold (\<lambda>_ n. rbind (ensure (is_finite n \<and> is_positive n) ''Stratum timeouts must be positive'') (\<lambda>_.
           ensure (try_from_secs_f64 n \<noteq> None) ''Stratum timeout exceeds supported duration'')) ()
         [sc_job_retention_seconds self, sc_initial_job_timeout_seconds self, sc_write_timeout_seconds self]) (\<lambda>_.
     rbind (ensure (is_finite (sc_stale_grace_seconds self) \<and> is_nonnegative (sc_stale_grace_seconds self))
       ''invalid stale grace interval'') (\<lambda>_.
       ensure (try_from_secs_f64 (sc_stale_grace_seconds self) \<noteq> None) ''stale grace exceeds supported duration'')))))))))))))))"

section \<open>Issued work\<close>

record Worker =
  w_username :: string
  w_payout_address :: string
  w_worker_name :: "string option"
  w_p2mr_program_hex :: string

record 'c MiningJob =
  mj_wire :: Job
  mj_context :: 'c

record 'c IssuedJob =
  ij_job :: "'c MiningJob"
  ij_worker :: Worker
  ij_authorization_permit :: "nat option"
  ij_version_mask :: "32 word"
  ij_retired_at :: "nat option"

abbreviation wire :: "'c IssuedJob \<Rightarrow> Job" where
  "wire issued \<equiv> mj_wire (ij_job issued)"

record RetentionTip =
  rt_hash :: string
  rt_parent :: "string option"
  rt_transitioned :: bool

record StaleGrace =
  sg_interval :: nat
  sg_delivered :: "(string \<times> nat) option"
  sg_checked_at :: nat

definition for_connection :: "nat \<Rightarrow> nat \<Rightarrow> (string \<times> nat) option \<Rightarrow> StaleGrace" where
  "for_connection now interval delivered = \<lparr> sg_interval = interval, sg_delivered = delivered, sg_checked_at = now \<rparr>"

definition eligible_for :: "StaleGrace \<Rightarrow> string \<Rightarrow> bool" where
  "eligible_for self current_tip \<longleftrightarrow> sg_interval self \<noteq> 0 \<and>
     (case sg_delivered self of
        None \<Rightarrow> True
      | Some (tip, at) \<Rightarrow> tip \<noteq> current_tip \<or> sg_checked_at self - at \<le> sg_interval self)"

definition grace_from_bool :: "nat \<Rightarrow> bool \<Rightarrow> StaleGrace" where
  "grace_from_bool now eligible = for_connection now ((if eligible then 3 else 0) * NANOS_PER_SEC) None"

definition keeps_previous :: "RetentionTip \<Rightarrow> string \<Rightarrow> StaleGrace \<Rightarrow> bool" where
  "keeps_previous self parent grace \<longleftrightarrow> rt_transitioned self \<and> rt_hash self \<noteq> parent \<and> eligible_for grace (rt_hash self) \<and>
     (case rt_parent self of None \<Rightarrow> True | Some previous \<Rightarrow> previous = parent)"

section \<open>Retained jobs\<close>

record 'c RetainedJobs =
  rj_jobs :: "(string \<times> 'c IssuedJob) list"
  rj_order :: "string list"

definition retained_default :: "'c RetainedJobs" where
  "retained_default = \<lparr> rj_jobs = [], rj_order = [] \<rparr>"

definition supersedes :: "Job \<Rightarrow> Job \<Rightarrow> bool" where
  "supersedes replacement prior \<longleftrightarrow> j_previousblockhash prior = j_previousblockhash replacement \<and>
     j_payout_revision prior \<noteq> j_payout_revision replacement"

definition retire_to_block_only :: "'c IssuedJob \<Rightarrow> 'c IssuedJob" where
  "retire_to_block_only issued = issued \<lparr> ij_authorization_permit := None,
     ij_job := (ij_job issued) \<lparr> mj_wire := (wire issued) \<lparr> j_kind := BlockOnly \<rparr> \<rparr> \<rparr>"

definition retained_is_empty :: "'c RetainedJobs \<Rightarrow> bool" where
  "retained_is_empty self \<longleftrightarrow> rj_jobs self = []"

definition retained_get :: "'c RetainedJobs \<Rightarrow> string \<Rightarrow> 'c IssuedJob option" where
  "retained_get self name = map_of (rj_jobs self) name"

definition permit :: "'c RetainedJobs \<Rightarrow> string \<Rightarrow> nat option" where
  "permit self username =
     (case List.map_filter ij_authorization_permit
        (filter (\<lambda>job. w_username (ij_worker job) = username) (List.map_filter (retained_get self) (rev (rj_order self)))) of
        [] \<Rightarrow> None
      | p # _ \<Rightarrow> Some p)"

definition capped :: "JobKind \<Rightarrow> string option \<Rightarrow> 'c IssuedJob \<Rightarrow> bool" where
  "capped kind published_tip job \<longleftrightarrow> j_kind (wire job) = kind \<and>
     (case published_tip of None \<Rightarrow> True | Some tip \<Rightarrow> j_previousblockhash (wire job) = tip)"

fun evict :: "('c IssuedJob \<Rightarrow> bool) \<Rightarrow> usize \<Rightarrow> string list \<Rightarrow> (string \<times> 'c IssuedJob) list \<Rightarrow> usize \<Rightarrow>
    (string \<times> 'c IssuedJob) list \<times> string list" where
  "evict is_capped limit [] jobs same_tip = (jobs, [])"
| "evict is_capped limit (name # order) jobs same_tip =
     (if same_tip > limit \<and> (case map_of jobs name of Some job \<Rightarrow> is_capped job | None \<Rightarrow> False)
      then evict is_capped limit order (AList.delete name jobs) (same_tip - 1)
      else let (jobs, kept) = evict is_capped limit order jobs same_tip in (jobs, name # kept))"

fun trim_order :: "usize \<Rightarrow> string list \<Rightarrow> (string \<times> 'c IssuedJob) list \<Rightarrow> (string \<times> 'c IssuedJob) list \<times> string list" where
  "trim_order limit [] jobs = (jobs, [])"
| "trim_order limit (name # order) jobs =
     (if length (name # order) > limit then trim_order limit order (AList.delete name jobs) else (jobs, name # order))"

definition cap :: "JobKind \<Rightarrow> StratumConfig \<Rightarrow> string option \<Rightarrow> 'c RetainedJobs \<Rightarrow> 'c RetainedJobs" where
  "cap kind config published_tip self =
     (let limit = sc_max_jobs_per_connection config;
          same_tip = length (filter (\<lambda>(_, job). capped kind published_tip job) (rj_jobs self));
          (jobs, order) = evict (capped kind published_tip) limit (rj_order self) (rj_jobs self) same_tip;
          (jobs, order) = trim_order (min (limit * 3) (2 ^ 64 - 1)) order jobs in
        \<lparr> rj_jobs = jobs, rj_order = order \<rparr>)"

definition retire_superseded :: "Job \<Rightarrow> StratumConfig \<Rightarrow> string option \<Rightarrow> 'c RetainedJobs \<Rightarrow> 'c RetainedJobs" where
  "retire_superseded replacement config published_tip self =
     cap BlockOnly config published_tip (self \<lparr> rj_jobs :=
       map (\<lambda>(name, job). (name, if supersedes replacement (wire job) then retire_to_block_only job else job)) (rj_jobs self) \<rparr>)"

definition bury :: "nat \<Rightarrow> 'c IssuedJob \<Rightarrow> StratumConfig \<Rightarrow> string option \<Rightarrow> 'c RetainedJobs \<Rightarrow> 'c RetainedJobs" where
  "bury now job config published_tip self =
     (let name = j_job_id (wire job) in
      cap (j_kind (wire job)) config published_tip
        \<lparr> rj_jobs = AList.update name (job \<lparr> ij_retired_at := Some now \<rparr>) (rj_jobs self),
          rj_order = filter (\<lambda>old. old \<noteq> name) (rj_order self) @ [name] \<rparr>)"

definition expired :: "nat \<Rightarrow> 'c IssuedJob \<Rightarrow> bool" where
  "expired now issued \<longleftrightarrow> (case j_resume_expires_at (wire issued) of None \<Rightarrow> False | Some expires \<Rightarrow> now \<ge> expires)"

definition prune_keeps :: "nat \<Rightarrow> StratumConfig \<Rightarrow> RetentionTip option \<Rightarrow> StaleGrace \<Rightarrow> 'c IssuedJob \<Rightarrow> bool" where
  "prune_keeps now config tip grace issued =
     (if expired now issued then False
      else let parent = j_previousblockhash (wire issued); aged = (case ij_retired_at issued of
             None \<Rightarrow> False
           | Some buried \<Rightarrow> f64_le (as_secs_f64 (now - buried)) (sc_job_retention_seconds config)) in
        case tip of
          Some tip \<Rightarrow> (if rt_hash tip \<noteq> parent then j_kind (wire issued) = Credit \<and> keeps_previous tip parent grace else aged)
        | None \<Rightarrow> aged)"

definition prune :: "nat \<Rightarrow> StratumConfig \<Rightarrow> RetentionTip option \<Rightarrow> StaleGrace \<Rightarrow> 'c RetainedJobs \<Rightarrow> 'c RetainedJobs" where
  "prune now config tip grace self =
     (let jobs = filter (\<lambda>(_, issued). prune_keeps now config tip grace issued) (rj_jobs self) in
        \<lparr> rj_jobs = jobs, rj_order = filter (\<lambda>name. map_of jobs name \<noteq> None) (rj_order self) \<rparr>)"

section \<open>Budgets\<close>

datatype ConnectionRefusalReason = GlobalLimit | UsernameLimit | IpLimit | MalformedFrameBudget | UnknownJobBudget | AuthorizeBudget

record SessionBudget =
  sb_limit :: u32
  sb_interval :: nat
  sb_window_start :: nat
  sb_charged :: u32

definition budget_new :: "nat \<Rightarrow> u32 \<Rightarrow> nat \<Rightarrow> SessionBudget" where
  "budget_new now limit interval = \<lparr> sb_limit = limit, sb_interval = interval, sb_window_start = now, sb_charged = 0 \<rparr>"

definition budget_charge :: "nat \<Rightarrow> SessionBudget \<Rightarrow> bool \<times> SessionBudget" where
  "budget_charge now self =
     (if sb_limit self = 0 then (True, self)
      else let self = (if now - sb_window_start self \<ge> sb_interval self
                       then self \<lparr> sb_window_start := now, sb_charged := 0 \<rparr> else self);
               self = self \<lparr> sb_charged := saturating_add 32 (sb_charged self) 1 \<rparr> in
        (sb_charged self \<le> sb_limit self, self))"

section \<open>Sessions\<close>

record 'c Session =
  s_worker :: "Worker option"
  s_extranonce1 :: "string option"
  s_miner_version_mask :: "32 word option"
  s_advertised_version_mask :: "32 word"
  s_difficulty :: f64
  s_requested :: "f64 option"
  s_requested_minimum :: "f64 option"
  s_suggested :: "f64 option"
  s_vardiff :: Vardiff
  s_jobs :: "'c IssuedJob list"
  s_retained :: "'c RetainedJobs"
  s_tip_work_delivered :: "(string \<times> nat) option"
  s_retry_job :: bool
  s_delivery_in_flight :: bool
  s_authorization_permit :: "nat option"
  s_pending_retarget :: "(f64 \<times> Vardiff) option"
  s_last_accepted_share :: "(string \<times> f64) option"
  s_malformed_frames :: SessionBudget
  s_unknown_jobs :: SessionBudget
  s_authorize_attempts :: SessionBudget
  s_budget_exceeded :: "ConnectionRefusalReason option"

definition session_new :: "nat \<Rightarrow> StratumConfig \<Rightarrow> 'c Session option" where
  "session_new now config =
     (let interval = (case try_from_secs_f64 (sc_session_budget_interval_seconds config) of
            Some d \<Rightarrow> d | None \<Rightarrow> 60 * NANOS_PER_SEC) in
      do {
        difficulty \<leftarrow> f64_clamp (sc_startup_difficulty config) (vc_minimum (sc_vardiff config)) (vc_maximum (sc_vardiff config));
        Some \<lparr> s_worker = None, s_extranonce1 = None, s_miner_version_mask = None, s_advertised_version_mask = 0,
          s_difficulty = difficulty, s_requested = None, s_requested_minimum = None, s_suggested = None,
          s_vardiff = vardiff_new now (sc_vardiff config), s_jobs = [], s_retained = retained_default,
          s_tip_work_delivered = None, s_retry_job = False, s_delivery_in_flight = False, s_authorization_permit = None,
          s_pending_retarget = None, s_last_accepted_share = None,
          s_malformed_frames = budget_new now (sc_max_malformed_frames_per_interval config) interval,
          s_unknown_jobs = budget_new now (sc_max_unknown_jobs_per_interval config) interval,
          s_authorize_attempts = budget_new now (sc_max_authorize_attempts_per_interval config) interval,
          s_budget_exceeded = None \<rparr>
      })"

definition session_charge :: "nat \<Rightarrow> ConnectionRefusalReason \<Rightarrow> 'c Session \<Rightarrow> bool \<times> 'c Session" where
  "session_charge now refusal self =
     (let exceed = (\<lambda>(ok, s). (ok, if ok then s else s \<lparr> s_budget_exceeded := Some refusal \<rparr>)) in
      case refusal of
        MalformedFrameBudget \<Rightarrow>
          (let (ok, b) = budget_charge now (s_malformed_frames self) in exceed (ok, self \<lparr> s_malformed_frames := b \<rparr>))
      | UnknownJobBudget \<Rightarrow>
          (let (ok, b) = budget_charge now (s_unknown_jobs self) in exceed (ok, self \<lparr> s_unknown_jobs := b \<rparr>))
      | AuthorizeBudget \<Rightarrow>
          (let (ok, b) = budget_charge now (s_authorize_attempts self) in exceed (ok, self \<lparr> s_authorize_attempts := b \<rparr>))
      | _ \<Rightarrow> (True, self))"

subsection \<open>Difficulty\<close>

definition difficulty_floor :: "StratumConfig \<Rightarrow> 'c Session \<Rightarrow> f64" where
  "difficulty_floor config self =
     f64_min (f64_max (f64_max (case s_requested_minimum self of Some d \<Rightarrow> d | None \<Rightarrow> 0) (vc_minimum (sc_vardiff config)))
       (sc_minimum_difficulty config)) (vc_maximum (sc_vardiff config))"

definition apply_requests :: "nat \<Rightarrow> StratumConfig \<Rightarrow> 'c Session \<Rightarrow> 'c Session option" where
  "apply_requests now config self =
     (let floor = difficulty_floor config self;
          wanted = (case s_requested self of
              Some d \<Rightarrow> d
            | None \<Rightarrow> (case s_suggested self of Some d \<Rightarrow> d | None \<Rightarrow> s_difficulty self)) in
      do {
        difficulty \<leftarrow> f64_clamp wanted floor (vc_maximum (sc_vardiff config));
        Some (self \<lparr> s_difficulty := difficulty,
          s_vardiff := vardiff_reset now ((s_vardiff self) \<lparr> v_config := (v_config (s_vardiff self)) \<lparr> vc_minimum := floor \<rparr> \<rparr>),
          s_pending_retarget := None \<rparr>)
      })"

definition session_retarget :: "nat \<Rightarrow> 'c Session \<Rightarrow> 'c Session option" where
  "session_retarget now self =
     (if s_pending_retarget self \<noteq> None \<or> s_delivery_in_flight self then Some self
      else do {
        (v, proposed) \<leftarrow> retarget now now (s_difficulty self) (s_vardiff self);
        Some (case proposed of
            None \<Rightarrow> self \<lparr> s_vardiff := v \<rparr>
          | Some next \<Rightarrow> self \<lparr> s_vardiff := v, s_pending_retarget := Some (s_difficulty self, s_vardiff self), s_difficulty := next,
              s_retry_job := (s_worker self \<noteq> None \<and> s_extranonce1 self \<noteq> None) \<rparr>)
      })"

definition restore_retarget :: "'c Session \<Rightarrow> 'c Session" where
  "restore_retarget self =
     (case s_pending_retarget self of
        None \<Rightarrow> self
      | Some (difficulty, v) \<Rightarrow> self \<lparr> s_pending_retarget := None, s_difficulty := difficulty, s_vardiff := v \<rparr>)"

text \<open>The difficulty a worker had before: what the backend or the local map still holds, if anything.\<close>

definition resume_difficulty :: "StratumConfig \<Rightarrow> f64 option \<Rightarrow> 'c Session \<Rightarrow> 'c Session option" where
  "resume_difficulty config loaded self =
     (if s_worker self = None \<and> sc_resume_enabled config \<and> vc_enabled (sc_vardiff config) \<and> sc_resume_ttl_seconds config > 0 \<and>
         sc_resume_max_entries config > 0
      then (case loaded of
          None \<Rightarrow> Some self
        | Some d \<Rightarrow>
            if is_finite d \<and> is_positive d
            then map_option (\<lambda>difficulty. self \<lparr> s_difficulty := difficulty \<rparr>)
              (f64_clamp d (vc_minimum (sc_vardiff config))
                (f64_max (f64_min (vc_maximum (sc_vardiff config))
                    (f64_mul (sc_startup_difficulty config) (sc_resume_max_start_factor config)))
                  (vc_minimum (sc_vardiff config))))
            else Some self)
      else Some self)"

definition same_username :: "Worker \<Rightarrow> 'c Session \<Rightarrow> bool" where
  "same_username worker self \<longleftrightarrow> (case s_worker self of None \<Rightarrow> False | Some old \<Rightarrow> w_username old = w_username worker)"

text \<open>The reservation a session takes for a new username: one its jobs still hold, or a newly acquired one.\<close>

definition reservation :: "StratumConfig \<Rightarrow> Worker \<Rightarrow> nat option \<Rightarrow> 'c Session \<Rightarrow> string + nat option" where
  "reservation config worker acquired self =
     (if sc_max_connections_per_username config > 0 \<and> \<not> same_username worker self
      then let held = Option.bind (List.find (\<lambda>issued. w_username (ij_worker issued) = w_username worker) (s_jobs self))
                 ij_authorization_permit in
        case (if held = None then permit (s_retained self) (w_username worker) else held) of
          Some p \<Rightarrow> Inr (Some p)
        | None \<Rightarrow> (case acquired of Some p \<Rightarrow> Inr (Some p) | None \<Rightarrow> Inl ''too many connections for username'')
      else Inr None)"

definition authorize :: "nat \<Rightarrow> StratumConfig \<Rightarrow> Worker \<Rightarrow> nat option \<Rightarrow> f64 option \<Rightarrow> f64 option \<times> f64 option \<Rightarrow>
    'c Session \<Rightarrow> (string + 'c Session) option" where
  "authorize now config worker acquired loaded requests self =
     (case reservation config worker acquired self of
        Inl e \<Rightarrow> Some (Inl e)
      | Inr new_permit \<Rightarrow> do {
          s \<leftarrow> resume_difficulty config loaded self;
          s \<leftarrow> apply_requests now config (s \<lparr> s_requested := fst requests, s_requested_minimum := snd requests \<rparr>);
          let s = (if same_username worker s then s
            else s \<lparr> s_authorization_permit := new_permit, s_last_accepted_share := None \<rparr>);
          Some (Inr (s \<lparr> s_worker := Some worker, s_retry_job := (s_extranonce1 s \<noteq> None) \<rparr>))
        })"

definition suggest_difficulty :: "nat \<Rightarrow> StratumConfig \<Rightarrow> f64 option \<Rightarrow> 'c Session \<Rightarrow> 'c Session option" where
  "suggest_difficulty now config suggestion self =
     (case suggestion of
        None \<Rightarrow> Some self
      | Some d \<Rightarrow>
          if is_finite d \<and> is_positive d
          then map_option (\<lambda>s. s \<lparr> s_retry_job := (s_worker s \<noteq> None \<and> s_extranonce1 s \<noteq> None) \<rparr>)
            (apply_requests now config (self \<lparr> s_suggested := Some d \<rparr>))
          else Some self)"

subsection \<open>Work\<close>

definition stale_grace :: "nat \<Rightarrow> StratumConfig \<Rightarrow> 'c Session \<Rightarrow> StaleGrace option" where
  "stale_grace now config self =
     map_option (\<lambda>interval. for_connection now interval (s_tip_work_delivered self))
       (try_from_secs_f64 (sc_stale_grace_seconds config))"

definition note_delivery :: "nat \<Rightarrow> string \<Rightarrow> 'c Session \<Rightarrow> 'c Session" where
  "note_delivery now tip self =
     (if (case s_tip_work_delivered self of None \<Rightarrow> True | Some (old, _) \<Rightarrow> old \<noteq> tip)
      then self \<lparr> s_tip_work_delivered := Some (tip, now) \<rparr> else self)"

definition active_keeps :: "nat \<Rightarrow> StratumConfig \<Rightarrow> RetentionTip option \<Rightarrow> StaleGrace \<Rightarrow> 'c IssuedJob \<Rightarrow> bool" where
  "active_keeps now config observed_tip grace issued =
     (if expired now issued then False
      else if (case observed_tip of None \<Rightarrow> False | Some tip \<Rightarrow> keeps_previous tip (j_previousblockhash (wire issued)) grace) then True
      else (case ij_retired_at issued of
          None \<Rightarrow> True
        | Some when \<Rightarrow> f64_le (as_secs_f64 (now - when)) (f64_max (sc_job_retention_seconds config) (sc_stale_grace_seconds config))))"

definition prune_jobs :: "nat \<Rightarrow> StratumConfig \<Rightarrow> RetentionTip option \<Rightarrow> 'c Session \<Rightarrow> 'c Session option" where
  "prune_jobs now config observed_tip self =
     do {
       grace \<leftarrow> stale_grace now config self;
       Some (self \<lparr> s_jobs := filter (active_keeps now config observed_tip grace) (s_jobs self),
         s_retained := prune now config observed_tip grace (s_retained self) \<rparr>)
     }"

partial_function (option) make_room ::
  "nat \<Rightarrow> StratumConfig \<Rightarrow> string option \<Rightarrow> 'c IssuedJob list \<Rightarrow> 'c RetainedJobs \<Rightarrow> ('c IssuedJob list \<times> 'c RetainedJobs) option" where
  "make_room now config published_tip jobs retained =
     (if length jobs \<ge> sc_max_jobs_per_connection config
      then (case jobs of
          [] \<Rightarrow> make_room now config published_tip [] retained
        | job # rest \<Rightarrow> make_room now config published_tip rest (bury now job config published_tip retained))
      else Some (jobs, retained))"

definition make_job_room :: "nat \<Rightarrow> StratumConfig \<Rightarrow> RetentionTip option \<Rightarrow> 'c Session \<Rightarrow> 'c Session option" where
  "make_job_room now config tip self =
     map_option (\<lambda>(jobs, retained). self \<lparr> s_jobs := jobs, s_retained := retained \<rparr>)
       (make_room now config (map_option rt_hash tip) (s_jobs self) (s_retained self))"

definition bury_prior :: "nat \<Rightarrow> Job \<Rightarrow> StratumConfig \<Rightarrow> string option \<Rightarrow> 'c IssuedJob list \<times> 'c RetainedJobs \<Rightarrow> 'c IssuedJob \<Rightarrow>
    'c IssuedJob list \<times> 'c RetainedJobs" where
  "bury_prior now replacement config published_tip st prior =
     (let (kept, retained) = st in
      if supersedes replacement (wire prior) then (kept, bury now (retire_to_block_only prior) config published_tip retained)
      else (kept @ [prior], retained))"

definition bury_superseded_same_parent :: "nat \<Rightarrow> Job \<Rightarrow> StratumConfig \<Rightarrow> RetentionTip option \<Rightarrow> 'c Session \<Rightarrow> 'c Session" where
  "bury_superseded_same_parent now replacement config tip self =
     (let published_tip = map_option rt_hash tip;
          retained = retire_superseded replacement config published_tip (s_retained self);
          (kept, retained) = foldl (bury_prior now replacement config published_tip) ([], retained) (s_jobs self) in
        self \<lparr> s_jobs := kept, s_retained := retained \<rparr>)"

definition announce_job :: "nat \<Rightarrow> StratumConfig \<Rightarrow> RetentionTip option \<Rightarrow> 'c MiningJob \<Rightarrow> Worker \<Rightarrow> 32 word \<Rightarrow>
    'c Session \<Rightarrow> 'c Session option" where
  "announce_job now config tip job worker vmask session =
     (let work_invalidated = (s_jobs session = [] \<or>
            (let prior = wire (last (s_jobs session)) in j_previousblockhash prior \<noteq> j_previousblockhash (mj_wire job) \<or>
               j_payout_revision prior \<noteq> j_payout_revision (mj_wire job)));
          job = job \<lparr> mj_wire := (mj_wire job) \<lparr> j_clean_jobs := work_invalidated \<rparr> \<rparr>;
          session = (if s_miner_version_mask session \<noteq> None \<and> vmask \<noteq> s_advertised_version_mask session
            then session \<lparr> s_advertised_version_mask := vmask \<rparr> else session);
          session = (if s_pending_retarget session = None then session
            else session \<lparr> s_pending_retarget := None, s_vardiff := delivered_retarget (s_vardiff session) \<rparr>);
          session = note_delivery now (j_previousblockhash (mj_wire job)) session;
          session = session \<lparr> s_jobs := map (\<lambda>prior. if ij_retired_at prior = None then prior \<lparr> ij_retired_at := Some now \<rparr> else prior)
            (s_jobs session) \<rparr>;
          session = bury_superseded_same_parent now (mj_wire job) config tip session in
      do {
        session \<leftarrow> make_job_room now config tip session;
        Some (session \<lparr> s_jobs := s_jobs session @ [\<lparr> ij_job = job, ij_worker = worker,
          ij_authorization_permit = s_authorization_permit session, ij_version_mask = vmask, ij_retired_at = None \<rparr>] \<rparr>)
      })"

definition find_issued :: "string \<Rightarrow> 'c Session \<Rightarrow> 'c IssuedJob option" where
  "find_issued name session =
     (case List.find (\<lambda>j. j_job_id (wire j) = name) (s_jobs session) of
        Some j \<Rightarrow> Some j
      | None \<Rightarrow> retained_get (s_retained session) name)"

definition resume_job :: "nat \<Rightarrow> StratumConfig \<Rightarrow> RetentionTip option \<Rightarrow> string \<Rightarrow> Worker \<Rightarrow> 'c MiningJob \<Rightarrow> 'c Session \<Rightarrow>
    (string + 'c Session) option" where
  "resume_job now config tip name worker job session =
     (if find_issued name session \<noteq> None then Some (Inr session)
      else if j_job_id (mj_wire job) \<noteq> name then Some (Inl ''restored job ID mismatch'')
      else do {
        session \<leftarrow> make_job_room now config tip session;
        Some (Inr (session \<lparr> s_jobs := \<lparr> ij_job = job, ij_worker = worker,
          ij_authorization_permit = s_authorization_permit session, ij_version_mask = j_version_mask (mj_wire job),
          ij_retired_at = Some now \<rparr> # s_jobs session \<rparr>))
      })"

definition share_accepted :: "nat \<Rightarrow> string \<Rightarrow> f64 \<Rightarrow> 'c Session \<Rightarrow> 'c Session option" where
  "share_accepted now share_name proved session =
     session_retarget now (session \<lparr> s_vardiff := accepted proved (s_vardiff session),
       s_pending_retarget := map_option (\<lambda>(d, previous). (d, accepted proved previous)) (s_pending_retarget session),
       s_last_accepted_share := Some (share_name, proved) \<rparr>)"

end
