(* ===== verification/Session_Memory.thy ===== *)
theory Session_Memory
  imports Stratum_Session
begin

text \<open>
  The work a session remembers: retained jobs stay consistent and bounded whatever is buried, evicted or pruned,
  and a replacement at another payout revision leaves no job of its parent that could still be credited.
\<close>

section \<open>Retained jobs stay consistent\<close>

definition retained_ok :: "'c RetainedJobs \<Rightarrow> bool" where
  "retained_ok r \<longleftrightarrow> distinct (map fst (rj_jobs r)) \<and> distinct (rj_order r) \<and> set (rj_order r) = fst ` set (rj_jobs r) \<and>
     (\<forall>(name, job)\<in>set (rj_jobs r). name = j_job_id (wire job))"

text \<open>Eviction takes names out of both parts.\<close>

definition without :: "string set \<Rightarrow> 'c RetainedJobs \<Rightarrow> 'c RetainedJobs" where
  "without E r = \<lparr> rj_jobs = filter (\<lambda>p. fst p \<notin> E) (rj_jobs r), rj_order = filter (\<lambda>name. name \<notin> E) (rj_order r) \<rparr>"

lemma without_ok: "retained_ok r \<Longrightarrow> retained_ok (without E r)"
  by (auto simp: retained_ok_def without_def distinct_map_filter)

lemma delete_filter: "AList.delete name jobs = filter (\<lambda>p. fst p \<notin> {name}) jobs"
  by (auto simp: AList.delete_eq intro: filter_cong)

definition named :: "('c IssuedJob \<Rightarrow> bool) \<Rightarrow> (string \<times> 'c IssuedJob) list \<Rightarrow> string \<Rightarrow> bool" where
  "named P jobs name \<longleftrightarrow> (case map_of jobs name of Some job \<Rightarrow> P job | None \<Rightarrow> False)"

definition tally :: "('c IssuedJob \<Rightarrow> bool) \<Rightarrow> (string \<times> 'c IssuedJob) list \<Rightarrow> nat" where
  "tally P jobs = length (filter (\<lambda>p. P (snd p)) jobs)"

lemma evict_without:
  assumes "distinct order"
  shows "\<exists>E. E \<subseteq> set order \<and> evict P limit order jobs n = (filter (\<lambda>p. fst p \<notin> E) jobs, filter (\<lambda>name. name \<notin> E) order)"
  using assms
proof (induction P limit order jobs n rule: evict.induct)
  case (1 P limit jobs n)
  then show ?case by (intro exI[of _ "{}"]) simp
next
  case (2 P limit name order jobs n)
  show ?case
  proof (cases "n > limit \<and> named P jobs name")
    case True
    then obtain E where E: "E \<subseteq> set order" "evict P limit order (AList.delete name jobs) (n - 1) =
        (filter (\<lambda>p. fst p \<notin> E) (AList.delete name jobs), filter (\<lambda>name. name \<notin> E) order)"
      using 2 by (auto simp: named_def)
    have "filter (\<lambda>x. x \<notin> insert name E) order = filter (\<lambda>x. x \<notin> E) order" using 2(3) by (auto intro: filter_cong)
    then show ?thesis using True E
      by (intro exI[of _ "insert name E"]) (auto simp: named_def delete_filter conj_commute intro: filter_cong)
  next
    case False
    then obtain E where E: "E \<subseteq> set order" "evict P limit order jobs n =
        (filter (\<lambda>p. fst p \<notin> E) jobs, filter (\<lambda>name. name \<notin> E) order)"
      using 2 by (auto simp: named_def)
    have "name \<notin> E" using E(1) 2(3) by auto
    then show ?thesis using False E by (intro exI[of _ E]) (auto simp: named_def)
  qed
qed

lemma tally_without: "tally P (filter Q jobs) \<le> tally P jobs"
  by (induction jobs) (auto simp: tally_def)

lemma tally_delete:
  assumes "distinct (map fst jobs)" "named P jobs name"
  shows "Suc (tally P (AList.delete name jobs)) = tally P jobs"
  using assms
proof (induction jobs)
  case (Cons p jobs)
  show ?case
  proof (cases "fst p = name")
    case True
    then have "AList.delete name jobs = jobs" using Cons.prems(1) by (auto simp: delete_filter filter_id_conv intro: rev_image_eqI)
    then show ?thesis using True Cons.prems(2) by (cases p) (auto simp: tally_def named_def)
  next
    case False
    then show ?thesis using Cons by (cases p) (auto simp: tally_def named_def)
  qed
qed (simp add: named_def)

lemma named_delete: "name \<noteq> x \<Longrightarrow> named P (AList.delete name jobs) x = named P jobs x"
  by (simp add: named_def AList.delete_conv')

lemma evict_tally:
  assumes "distinct order" "distinct (map fst jobs)" "n = tally P jobs"
  shows "tally P (fst (evict P limit order jobs n)) \<le> max limit (n - length (filter (named P jobs) order))"
  using assms
proof (induction P limit order jobs n rule: evict.induct)
  case (2 P limit name order jobs n)
  show ?case
  proof (cases "n > limit \<and> named P jobs name")
    case True
    have d: "distinct (map fst (AList.delete name jobs))" using 2(4) by (simp add: AList.distinct_delete)
    have t: "n - 1 = tally P (AList.delete name jobs)" using tally_delete[OF 2(4)] True 2(5) by (metis diff_Suc_1)
    have "filter (named P (AList.delete name jobs)) order = filter (named P jobs) order"
      using 2(3) by (intro filter_cong refl named_delete) auto
    moreover have "evict P limit (name # order) jobs n = evict P limit order (AList.delete name jobs) (n - 1)"
      using True by (simp add: named_def)
    moreover have "tally P (fst (evict P limit order (AList.delete name jobs) (n - 1))) \<le>
        max limit (n - 1 - length (filter (named P (AList.delete name jobs)) order))"
      using 2(1)[OF True[unfolded named_def] _ d t] 2(3) by simp
    ultimately show ?thesis using True by simp
  next
    case False
    then have run: "fst (evict P limit (name # order) jobs n) = fst (evict P limit order jobs n)"
      by (auto simp: named_def split: prod.split)
    show ?thesis
    proof (cases "n > limit")
      case True
      then have "\<not> named P jobs name" using False by simp
      then show ?thesis using 2(2) 2(3-5) False unfolding run by (simp add: named_def)
    next
      case small: False
      obtain E where "evict P limit order jobs n = (filter (\<lambda>p. fst p \<notin> E) jobs, filter (\<lambda>name. name \<notin> E) order)"
        using evict_without[of order P limit jobs n] 2(3) by auto
      then show ?thesis using tally_without[of P "\<lambda>p. fst p \<notin> E" jobs] small 2(5) unfolding run by simp
    qed
  qed
qed simp

lemma tally_named:
  assumes "distinct (map fst jobs)" "distinct order" "set order = fst ` set jobs"
  shows "length (filter (named P jobs) order) = tally P jobs"
proof -
  have "mset order = mset (map fst jobs)"
    using assms set_eq_iff_mset_eq_distinct[of order "map fst jobs"] by simp
  then have "length (filter (named P jobs) order) = length (filter (named P jobs) (map fst jobs))"
    by (metis mset_filter size_mset)
  also have "filter (named P jobs) (map fst jobs) = map fst (filter (\<lambda>p. named P jobs (fst p)) jobs)" by (simp add: filter_map comp_def)
  also have "filter (\<lambda>p. named P jobs (fst p)) jobs = filter (\<lambda>p. P (snd p)) jobs"
    using assms(1) by (intro filter_cong) (auto simp: named_def)
  finally show ?thesis by (simp add: tally_def)
qed

lemma trim_without:
  assumes "distinct order"
  shows "\<exists>E. trim_order limit order jobs = (filter (\<lambda>p. fst p \<notin> E) jobs, filter (\<lambda>name. name \<notin> E) order) \<and>
    length (filter (\<lambda>name. name \<notin> E) order) \<le> limit"
  using assms
proof (induction limit order jobs rule: trim_order.induct)
  case (1 limit jobs)
  then show ?case by (intro exI[of _ "{}"]) simp
next
  case (2 limit name order jobs)
  show ?case
  proof (cases "length (name # order) > limit")
    case True
    then obtain E where E: "trim_order limit order (AList.delete name jobs) =
        (filter (\<lambda>p. fst p \<notin> E) (AList.delete name jobs), filter (\<lambda>name. name \<notin> E) order)"
      "length (filter (\<lambda>name. name \<notin> E) order) \<le> limit" using 2 by auto
    have "filter (\<lambda>x. x \<notin> insert name E) order = filter (\<lambda>x. x \<notin> E) order" using 2(2) by (auto intro: filter_cong)
    then show ?thesis using True E
      by (intro exI[of _ "insert name E"]) (auto simp: delete_filter conj_commute intro: filter_cong)
  next
    case False
    then show ?thesis by (intro exI[of _ "{}"]) simp
  qed
qed


section \<open>Caps\<close>

lemma cap_without:
  assumes "retained_ok r"
  obtains E where "cap kind config tip r = without E r" "length (rj_order (cap kind config tip r)) \<le> 3 * sc_max_jobs_per_connection config"
    "tally (capped kind tip) (rj_jobs (cap kind config tip r)) \<le> sc_max_jobs_per_connection config"
proof -
  define N where "N = sc_max_jobs_per_connection config"
  define n where "n = tally (capped kind tip) (rj_jobs r)"
  have n: "length (filter (\<lambda>(_, job). capped kind tip job) (rj_jobs r)) = n"
    unfolding n_def tally_def by (intro arg_cong[of _ _ length] filter_cong) auto
  note ok = assms[unfolded retained_ok_def]
  obtain E where E: "evict (capped kind tip) N (rj_order r) (rj_jobs r) n =
      (filter (\<lambda>p. fst p \<notin> E) (rj_jobs r), filter (\<lambda>name. name \<notin> E) (rj_order r))"
    using evict_without[of "rj_order r" "capped kind tip" N "rj_jobs r" n] ok by auto
  obtain D where D: "trim_order (min (N * 3) (2 ^ 64 - 1)) (filter (\<lambda>name. name \<notin> E) (rj_order r)) (filter (\<lambda>p. fst p \<notin> E) (rj_jobs r)) =
      (filter (\<lambda>p. fst p \<notin> D) (filter (\<lambda>p. fst p \<notin> E) (rj_jobs r)), filter (\<lambda>name. name \<notin> D) (filter (\<lambda>name. name \<notin> E) (rj_order r)))"
      "length (filter (\<lambda>name. name \<notin> D) (filter (\<lambda>name. name \<notin> E) (rj_order r))) \<le> min (N * 3) (2 ^ 64 - 1)"
    using trim_without[of "filter (\<lambda>name. name \<notin> E) (rj_order r)" "min (N * 3) (2 ^ 64 - 1)" "filter (\<lambda>p. fst p \<notin> E) (rj_jobs r)"] ok by auto
  have run: "cap kind config tip r = \<lparr> rj_jobs = filter (\<lambda>p. fst p \<notin> D) (filter (\<lambda>p. fst p \<notin> E) (rj_jobs r)),
      rj_order = filter (\<lambda>name. name \<notin> D) (filter (\<lambda>name. name \<notin> E) (rj_order r)) \<rparr>"
    by (simp only: cap_def Let_def n N_def[symmetric] E prod.case D(1))
  have "tally (capped kind tip) (filter (\<lambda>p. fst p \<notin> E) (rj_jobs r)) \<le> max N (n - length (filter (named (capped kind tip) (rj_jobs r)) (rj_order r)))"
    using evict_tally[of "rj_order r" "rj_jobs r" n "capped kind tip" N] ok E n_def by simp
  also have "\<dots> = N" using tally_named[of "rj_jobs r" "rj_order r" "capped kind tip"] ok n_def by simp
  finally have "tally (capped kind tip) (filter (\<lambda>p. fst p \<notin> E) (rj_jobs r)) \<le> N" .
  then have "tally (capped kind tip) (rj_jobs (cap kind config tip r)) \<le> N"
    using tally_without[of "capped kind tip" "\<lambda>p. fst p \<notin> D" "filter (\<lambda>p. fst p \<notin> E) (rj_jobs r)"] unfolding run by simp
  moreover have "cap kind config tip r = without (D \<union> E) r" by (simp add: run without_def conj_commute)
  moreover have "length (rj_order (cap kind config tip r)) \<le> 3 * N" using D(2) by (simp add: run)
  ultimately show thesis using that unfolding N_def by blast
qed

lemma update_subset: "set (AList.update name job jobs) \<subseteq> insert (name, job) (set jobs)"
  by (induction jobs) auto

lemma tally_update:
  "tally P (AList.update name job jobs) \<le> tally P jobs + (if P job then 1 else 0)"
  by (induction jobs) (auto simp: tally_def)

definition buried :: "nat \<Rightarrow> 'c IssuedJob \<Rightarrow> 'c RetainedJobs \<Rightarrow> 'c RetainedJobs" where
  "buried now job r = \<lparr> rj_jobs = AList.update (j_job_id (wire job)) (job \<lparr> ij_retired_at := Some now \<rparr>) (rj_jobs r),
     rj_order = filter (\<lambda>old. old \<noteq> j_job_id (wire job)) (rj_order r) @ [j_job_id (wire job)] \<rparr>"

lemma bury_eq: "bury now job config tip r = cap (j_kind (wire job)) config tip (buried now job r)"
  by (simp add: bury_def buried_def Let_def)

lemma buried_ok: "retained_ok r \<Longrightarrow> retained_ok (buried now job r)"
  using update_subset[of "j_job_id (wire job)" "job \<lparr> ij_retired_at := Some now \<rparr>" "rj_jobs r"]
  by (auto simp: retained_ok_def buried_def AList.distinct_update AList.dom_update)


text \<open>A bound on every operation of the graveyard: consistent, within three times the limit, and at most the limit of
  block-only jobs on the published tip.\<close>

definition graveyard :: "StratumConfig \<Rightarrow> string option \<Rightarrow> 'c RetainedJobs \<Rightarrow> bool" where
  "graveyard config tip r \<longleftrightarrow> retained_ok r \<and> length (rj_order r) \<le> 3 * sc_max_jobs_per_connection config \<and>
     tally (capped BlockOnly tip) (rj_jobs r) \<le> sc_max_jobs_per_connection config"

lemma bury_bounds:
  assumes "retained_ok r"
  shows "retained_ok (bury now job config tip r)"
    "length (rj_order (bury now job config tip r)) \<le> 3 * sc_max_jobs_per_connection config"
    "set (rj_jobs (bury now job config tip r)) \<subseteq> insert (j_job_id (wire job), job \<lparr> ij_retired_at := Some now \<rparr>) (set (rj_jobs r))"
    "tally (capped BlockOnly tip) (rj_jobs r) \<le> sc_max_jobs_per_connection config \<Longrightarrow>
      tally (capped BlockOnly tip) (rj_jobs (bury now job config tip r)) \<le> sc_max_jobs_per_connection config"
proof -
  let ?b = "buried now job r"
  obtain E where E: "bury now job config tip r = without E ?b" "length (rj_order (bury now job config tip r)) \<le> 3 * sc_max_jobs_per_connection config"
    "tally (capped (j_kind (wire job)) tip) (rj_jobs (bury now job config tip r)) \<le> sc_max_jobs_per_connection config"
    unfolding bury_eq by (rule cap_without[OF buried_ok[OF assms]])
  show "retained_ok (bury now job config tip r)" unfolding E(1) by (rule without_ok[OF buried_ok[OF assms]])
  show "length (rj_order (bury now job config tip r)) \<le> 3 * sc_max_jobs_per_connection config" by (rule E(2))
  show "set (rj_jobs (bury now job config tip r)) \<subseteq> insert (j_job_id (wire job), job \<lparr> ij_retired_at := Some now \<rparr>) (set (rj_jobs r))"
    using update_subset[of "j_job_id (wire job)" "job \<lparr> ij_retired_at := Some now \<rparr>" "rj_jobs r"]
    unfolding E(1) by (auto simp: without_def buried_def)
  assume le: "tally (capped BlockOnly tip) (rj_jobs r) \<le> sc_max_jobs_per_connection config"
  show "tally (capped BlockOnly tip) (rj_jobs (bury now job config tip r)) \<le> sc_max_jobs_per_connection config"
  proof (cases "j_kind (wire job)")
    case Credit
    then have "tally (capped BlockOnly tip) (rj_jobs ?b) \<le> tally (capped BlockOnly tip) (rj_jobs r)"
      using tally_update[of "capped BlockOnly tip" "j_job_id (wire job)" "job \<lparr> ij_retired_at := Some now \<rparr>" "rj_jobs r"]
      by (simp add: buried_def capped_def)
    then show ?thesis using le tally_without[of "capped BlockOnly tip" "\<lambda>p. fst p \<notin> E" "rj_jobs ?b"] unfolding E(1) by (simp add: without_def)
  next
    case BlockOnly
    then show ?thesis using E(3) by simp
  qed
qed

lemma wire_block_only [simp]:
  "j_job_id (wire (retire_to_block_only job)) = j_job_id (wire job)"
  "j_previousblockhash (wire (retire_to_block_only job)) = j_previousblockhash (wire job)"
  "j_payout_revision (wire (retire_to_block_only job)) = j_payout_revision (wire job)"
  "j_kind (wire (retire_to_block_only job)) = BlockOnly" "ij_authorization_permit (retire_to_block_only job) = None"
  by (simp_all add: retire_to_block_only_def)

text \<open>No job that the replacement supersedes can be credited or holds a reservation.\<close>

definition uncreditable :: "Job \<Rightarrow> 'c IssuedJob \<Rightarrow> bool" where
  "uncreditable replacement job \<longleftrightarrow> (supersedes replacement (wire job) \<longrightarrow>
     j_kind (wire job) = BlockOnly \<and> ij_authorization_permit job = None)"

lemma retire_superseded_bounds:
  assumes "retained_ok r"
  shows "graveyard config tip (retire_superseded replacement config tip r)"
    "\<forall>p\<in>set (rj_jobs (retire_superseded replacement config tip r)). uncreditable replacement (snd p)"
proof -
  let ?f = "\<lambda>(name, job). (name :: string, if supersedes replacement (wire job) then retire_to_block_only job else job)"
  let ?r = "r \<lparr> rj_jobs := map ?f (rj_jobs r) \<rparr>"
  have fst: "map fst (map ?f (rj_jobs r)) = map fst (rj_jobs r)" by (induction "rj_jobs r") auto
  have "distinct (map fst (rj_jobs ?r))" using assms fst by (simp add: retained_ok_def del: map_map)
  moreover have "fst ` set (rj_jobs ?r) = fst ` set (rj_jobs r)" by (simp add: image_image split_beta)
  ultimately have "retained_ok ?r" using assms unfolding retained_ok_def by (auto dest: bspec)
  then obtain E where E: "cap BlockOnly config tip ?r = without E ?r"
    "length (rj_order (cap BlockOnly config tip ?r)) \<le> 3 * sc_max_jobs_per_connection config"
    "tally (capped BlockOnly tip) (rj_jobs (cap BlockOnly config tip ?r)) \<le> sc_max_jobs_per_connection config"
    by (rule cap_without)
  have run: "retire_superseded replacement config tip r = cap BlockOnly config tip ?r" by (simp add: retire_superseded_def)
  show "graveyard config tip (retire_superseded replacement config tip r)"
    unfolding run graveyard_def using E without_ok[OF \<open>retained_ok ?r\<close>, of E] by simp
  show "\<forall>p\<in>set (rj_jobs (retire_superseded replacement config tip r)). uncreditable replacement (snd p)"
    unfolding run E(1) by (auto simp: without_def uncreditable_def supersedes_def)
qed

lemma make_room_returns:
  assumes pos: "0 < sc_max_jobs_per_connection config" and r: "retained_ok r"
  obtains jobs' r' k where "make_room now config tip jobs r = Some (jobs', r')" "length jobs' < sc_max_jobs_per_connection config"
    "jobs' = drop k jobs" "retained_ok r'"
    "length (rj_order r) \<le> 3 * sc_max_jobs_per_connection config \<Longrightarrow> length (rj_order r') \<le> 3 * sc_max_jobs_per_connection config"
    "graveyard config tip r \<Longrightarrow> graveyard config tip r'"
    "\<And>P. \<forall>p\<in>set (rj_jobs r). P (snd p) \<Longrightarrow> \<forall>job\<in>set jobs. P (job \<lparr> ij_retired_at := Some now \<rparr>) \<Longrightarrow> \<forall>p\<in>set (rj_jobs r'). P (snd p)"
  using r
proof (induction jobs arbitrary: r thesis)
  case Nil
  then show ?case using pos by (simp add: make_room.simps)
next
  case (Cons job jobs)
  let ?b = "bury now job config tip r"
  show ?case
  proof (cases "length (job # jobs) \<ge> sc_max_jobs_per_connection config")
    case True
    note b = bury_bounds[OF Cons.prems(2), where now = now and job = job and config = config and tip = tip]
    obtain jobs' r' k where IH: "make_room now config tip jobs ?b = Some (jobs', r')" "length jobs' < sc_max_jobs_per_connection config"
      "jobs' = drop k jobs" "retained_ok r'"
      "length (rj_order ?b) \<le> 3 * sc_max_jobs_per_connection config \<Longrightarrow> length (rj_order r') \<le> 3 * sc_max_jobs_per_connection config"
      "graveyard config tip ?b \<Longrightarrow> graveyard config tip r'"
      "\<And>P. \<forall>p\<in>set (rj_jobs ?b). P (snd p) \<Longrightarrow> \<forall>job\<in>set jobs. P (job \<lparr> ij_retired_at := Some now \<rparr>) \<Longrightarrow> \<forall>p\<in>set (rj_jobs r'). P (snd p)"
      by (rule Cons.IH[OF _ b(1)]) blast
    show ?thesis
    proof (rule Cons.prems(1)[of jobs' r' "Suc k"])
      show "make_room now config tip (job # jobs) r = Some (jobs', r')" using True IH(1) by (simp add: make_room.simps[of _ _ _ "job # jobs"])
      show "graveyard config tip r \<Longrightarrow> graveyard config tip r'" using IH(6) b by (simp add: graveyard_def)
      show "\<forall>p\<in>set (rj_jobs r'). P (snd p)" if "\<forall>p\<in>set (rj_jobs r). P (snd p)" "\<forall>job\<in>set (job # jobs). P (job \<lparr> ij_retired_at := Some now \<rparr>)" for P
      proof -
        have "\<forall>p\<in>set (rj_jobs ?b). P (snd p)" using b(3) that by fastforce
        then show ?thesis using IH(7)[of P] that(2) by simp
      qed
    qed (use IH b in simp_all)
  next
    case False
    then show ?thesis using Cons.prems by (intro Cons.prems(1)[of "job # jobs" r 0]) (simp_all add: make_room.simps[of _ _ _ "job # jobs"])
  qed
qed


section \<open>Announcing work\<close>

lemma bury_prior_bounds:
  assumes "graveyard config tip r" "\<forall>p\<in>set (rj_jobs r). uncreditable replacement (snd p)" "\<forall>job\<in>set kept. \<not> supersedes replacement (wire job)"
  obtains kept' r' where "foldl (bury_prior now replacement config tip) (kept, r) jobs = (kept', r')" "graveyard config tip r'"
    "\<forall>p\<in>set (rj_jobs r'). uncreditable replacement (snd p)" "\<forall>job\<in>set kept'. \<not> supersedes replacement (wire job)"
  using assms
proof (induction jobs arbitrary: kept r thesis)
  case (Cons job jobs)
  show ?case
  proof (cases "supersedes replacement (wire job)")
    case True
    let ?b = "bury now (retire_to_block_only job) config tip r"
    have r: "retained_ok r" using Cons.prems(2) by (simp add: graveyard_def)
    note b = bury_bounds[OF r, where now = now and job = "retire_to_block_only job" and config = config and tip = tip]
    have "graveyard config tip ?b" using Cons.prems(2) b by (simp add: graveyard_def)
    moreover have "\<forall>p\<in>set (rj_jobs ?b). uncreditable replacement (snd p)"
      using b(3) Cons.prems(3) by (fastforce simp: uncreditable_def)
    ultimately obtain kept' r' where "foldl (bury_prior now replacement config tip) (kept, ?b) jobs = (kept', r')" "graveyard config tip r'"
      "\<forall>p\<in>set (rj_jobs r'). uncreditable replacement (snd p)" "\<forall>job\<in>set kept'. \<not> supersedes replacement (wire job)"
      using Cons.IH[OF _ _ _ Cons.prems(4), of ?b] by blast
    moreover have "bury_prior now replacement config tip (kept, r) job = (kept, ?b)" using True by (simp add: bury_prior_def)
    ultimately show ?thesis by (intro Cons.prems(1)) simp_all
  next
    case False
    then obtain kept' r' where "foldl (bury_prior now replacement config tip) (kept @ [job], r) jobs = (kept', r')" "graveyard config tip r'"
      "\<forall>p\<in>set (rj_jobs r'). uncreditable replacement (snd p)" "\<forall>job\<in>set kept'. \<not> supersedes replacement (wire job)"
      using Cons.IH[OF _ Cons.prems(2,3), of "kept @ [job]"] Cons.prems(4) by auto
    moreover have "bury_prior now replacement config tip (kept, r) job = (kept @ [job], r)" using False by (simp add: bury_prior_def)
    ultimately show ?thesis by (intro Cons.prems(1)) simp_all
  qed
qed auto

definition memory_ok :: "StratumConfig \<Rightarrow> 'c Session \<Rightarrow> bool" where
  "memory_ok config s \<longleftrightarrow> length (s_jobs s) \<le> sc_max_jobs_per_connection config \<and> retained_ok (s_retained s) \<and>
     length (rj_order (s_retained s)) \<le> 3 * sc_max_jobs_per_connection config"

text \<open>What announcing a job does to everything but the lists of jobs.\<close>

definition announced :: "nat \<Rightarrow> 'c MiningJob \<Rightarrow> 32 word \<Rightarrow> 'c Session \<Rightarrow> 'c Session" where
  "announced now job vmask session =
     (let session = (if s_miner_version_mask session \<noteq> None \<and> vmask \<noteq> s_advertised_version_mask session
            then session \<lparr> s_advertised_version_mask := vmask \<rparr> else session);
          session = (if s_pending_retarget session = None then session
            else session \<lparr> s_pending_retarget := None, s_vardiff := delivered_retarget (s_vardiff session) \<rparr>) in
        note_delivery now (j_previousblockhash (mj_wire job)) session)"

lemma note_delivery_simps [simp]:
  "s_jobs (note_delivery now t s) = s_jobs s" "s_retained (note_delivery now t s) = s_retained s"
  "s_authorization_permit (note_delivery now t s) = s_authorization_permit s" "s_difficulty (note_delivery now t s) = s_difficulty s"
  "s_vardiff (note_delivery now t s) = s_vardiff s" "s_pending_retarget (note_delivery now t s) = s_pending_retarget s"
  "s_requested (note_delivery now t s) = s_requested s" "s_requested_minimum (note_delivery now t s) = s_requested_minimum s"
  "s_suggested (note_delivery now t s) = s_suggested s" "s_worker (note_delivery now t s) = s_worker s"
  by (simp_all add: note_delivery_def)

lemma announced_simps [simp]:
  "s_jobs (announced now job vmask s) = s_jobs s" "s_retained (announced now job vmask s) = s_retained s"
  "s_authorization_permit (announced now job vmask s) = s_authorization_permit s" "s_difficulty (announced now job vmask s) = s_difficulty s"
  "s_pending_retarget (announced now job vmask s) = None"
  "s_requested (announced now job vmask s) = s_requested s" "s_requested_minimum (announced now job vmask s) = s_requested_minimum s"
  "s_suggested (announced now job vmask s) = s_suggested s" "s_worker (announced now job vmask s) = s_worker s"
  "s_vardiff (announced now job vmask s) = (if s_pending_retarget s = None then s_vardiff s else delivered_retarget (s_vardiff s))"
  by (simp_all add: announced_def Let_def)

text \<open>The job as it is issued: clean when the last job was for another parent or another payout.\<close>

definition issued_job :: "'c MiningJob \<Rightarrow> Worker \<Rightarrow> 32 word \<Rightarrow> 'c Session \<Rightarrow> 'c IssuedJob" where
  "issued_job job worker vmask s = \<lparr> ij_job = job \<lparr> mj_wire := (mj_wire job) \<lparr> j_clean_jobs := (s_jobs s = [] \<or>
         (let prior = wire (last (s_jobs s)) in j_previousblockhash prior \<noteq> j_previousblockhash (mj_wire job) \<or>
            j_payout_revision prior \<noteq> j_payout_revision (mj_wire job))) \<rparr> \<rparr>,
     ij_worker = worker, ij_authorization_permit = s_authorization_permit s, ij_version_mask = vmask, ij_retired_at = None \<rparr>"

definition retired :: "nat \<Rightarrow> 'c IssuedJob list \<Rightarrow> 'c IssuedJob list" where
  "retired now = map (\<lambda>prior. if ij_retired_at prior = None then prior \<lparr> ij_retired_at := Some now \<rparr> else prior)"

lemma supersedes_clean [simp]: "supersedes (w \<lparr> j_clean_jobs := c \<rparr>) = supersedes w"
  by (simp add: supersedes_def fun_eq_iff)

lemma bury_prior_clean [simp]: "bury_prior now (w \<lparr> j_clean_jobs := c \<rparr>) = bury_prior now w"
  by (simp add: bury_prior_def fun_eq_iff)

lemma retire_superseded_clean [simp]: "retire_superseded (w \<lparr> j_clean_jobs := c \<rparr>) = retire_superseded w"
  by (simp add: retire_superseded_def fun_eq_iff)

lemma bury_superseded_clean [simp]: "bury_superseded_same_parent now (w \<lparr> j_clean_jobs := c \<rparr>) = bury_superseded_same_parent now w"
  by (simp add: bury_superseded_same_parent_def fun_eq_iff)

lemma announce_job_eq:
  "announce_job now config tip job worker vmask s = do {
     session \<leftarrow> make_job_room now config tip (bury_superseded_same_parent now (mj_wire job) config tip
       ((announced now job vmask s) \<lparr> s_jobs := retired now (s_jobs (announced now job vmask s)) \<rparr>));
     Some (session \<lparr> s_jobs := s_jobs session @ [(issued_job job worker vmask s) \<lparr> ij_authorization_permit := s_authorization_permit session \<rparr>] \<rparr>)
   }"
  by (simp add: announce_job_def announced_def retired_def issued_job_def Let_def split del: if_split)

lemma announce_job_parts:
  assumes "foldl (bury_prior now (mj_wire job) config (map_option rt_hash tip))
      ([], retire_superseded (mj_wire job) config (map_option rt_hash tip) (s_retained s)) (retired now (s_jobs s)) = (kept, r)"
    and "make_room now config (map_option rt_hash tip) kept r = Some (jobs', r')"
  shows "announce_job now config tip job worker vmask s =
    Some ((announced now job vmask s) \<lparr> s_jobs := jobs' @ [issued_job job worker vmask s], s_retained := r' \<rparr>)"
  using assms by (simp add: announce_job_eq bury_superseded_same_parent_def make_job_room_def issued_job_def)

lemma announce_job_returns:
  assumes pos: "0 < sc_max_jobs_per_connection config" and r: "retained_ok (s_retained s)"
  obtains jobs' r' where
    "announce_job now config tip job worker vmask s =
      Some ((announced now job vmask s) \<lparr> s_jobs := jobs' @ [issued_job job worker vmask s], s_retained := r' \<rparr>)"
    "length jobs' < sc_max_jobs_per_connection config" "graveyard config (map_option rt_hash tip) r'"
    "\<forall>p\<in>set (rj_jobs r'). uncreditable (mj_wire job) (snd p)" "\<forall>prior\<in>set jobs'. \<not> supersedes (mj_wire job) (wire prior)"
proof -
  let ?tip = "map_option rt_hash tip"
  let ?r = "retire_superseded (mj_wire job) config ?tip (s_retained s)"
  have g: "graveyard config ?tip ?r" "\<forall>p\<in>set (rj_jobs ?r). uncreditable (mj_wire job) (snd p)"
    using retire_superseded_bounds[OF r, where config = config and tip = ?tip and replacement = "mj_wire job"] by blast+
  obtain kept r1 where k: "foldl (bury_prior now (mj_wire job) config ?tip) ([], ?r) (retired now (s_jobs s)) = (kept, r1)"
    "graveyard config ?tip r1" "\<forall>p\<in>set (rj_jobs r1). uncreditable (mj_wire job) (snd p)"
    "\<forall>prior\<in>set kept. \<not> supersedes (mj_wire job) (wire prior)"
    by (rule bury_prior_bounds[OF g, of "[]" now "retired now (s_jobs s)"]) auto
  have r1: "retained_ok r1" using k(2) by (simp add: graveyard_def)
  obtain jobs' r' n where m: "make_room now config ?tip kept r1 = Some (jobs', r')" "length jobs' < sc_max_jobs_per_connection config"
    "jobs' = drop n kept" "graveyard config ?tip r1 \<Longrightarrow> graveyard config ?tip r'"
    "\<And>P. \<forall>p\<in>set (rj_jobs r1). P (snd p) \<Longrightarrow> \<forall>job\<in>set kept. P (job \<lparr> ij_retired_at := Some now \<rparr>) \<Longrightarrow> \<forall>p\<in>set (rj_jobs r'). P (snd p)"
    by (rule make_room_returns[OF pos r1, of now ?tip kept]) blast
  have "\<forall>p\<in>set (rj_jobs r'). uncreditable (mj_wire job) (snd p)"
    using k(4) by (intro m(5)[OF k(3)]) (simp add: uncreditable_def)
  moreover have "\<forall>prior\<in>set jobs'. \<not> supersedes (mj_wire job) (wire prior)" using k(4) m(3) by (auto dest: in_set_dropD)
  ultimately show thesis using that announce_job_parts[OF k(1) m(1)] m(2) m(4)[OF k(2)] by blast
qed

lemma resume_job_returns:
  assumes pos: "0 < sc_max_jobs_per_connection config" and m: "memory_ok config s"
  obtains e where "resume_job now config tip name worker job s = Some (Inl e)"
  | s' where "resume_job now config tip name worker job s = Some (Inr s')" "memory_ok config s'" "s' = s \<lparr> s_jobs := s_jobs s', s_retained := s_retained s' \<rparr>"
      "\<exists>issued. find_issued name s' = Some issued"
proof -
  have "retained_ok (s_retained s)" using m by (simp add: memory_ok_def)
  then obtain jobs' r' where r: "make_room now config (map_option rt_hash tip) (s_jobs s) (s_retained s) = Some (jobs', r')"
    "length jobs' < sc_max_jobs_per_connection config" "retained_ok r'" "length (rj_order r') \<le> 3 * sc_max_jobs_per_connection config"
    by (rule make_room_returns[OF pos, of "s_retained s" now "map_option rt_hash tip" "s_jobs s"]) (use m in \<open>auto simp: memory_ok_def\<close>)
  consider "find_issued name s \<noteq> None" | "find_issued name s = None" "j_job_id (mj_wire job) \<noteq> name" |
    "find_issued name s = None" "j_job_id (mj_wire job) = name" by blast
  then show thesis
  proof cases
    case 1
    then show ?thesis using m by (intro that(2)[of s]) (simp_all add: resume_job_def)
  next
    case 2
    then show ?thesis by (intro that(1)) (simp add: resume_job_def)
  next
    case 3
    let ?s = "s \<lparr> s_jobs := \<lparr> ij_job = job, ij_worker = worker, ij_authorization_permit = s_authorization_permit s,
      ij_version_mask = j_version_mask (mj_wire job), ij_retired_at = Some now \<rparr> # jobs', s_retained := r' \<rparr>"
    show ?thesis
    proof (rule that(2)[of ?s])
      show "resume_job now config tip name worker job s = Some (Inr ?s)" using 3 r(1) by (simp add: resume_job_def make_job_room_def)
      show "memory_ok config ?s" using r by (simp add: memory_ok_def)
      show "\<exists>issued. find_issued name ?s = Some issued" using 3(2) by (simp add: find_issued_def)
    qed simp
  qed
qed

lemma prune_without:
  assumes "retained_ok r"
  shows "\<exists>E. prune now config tip grace r = without E r"
proof -
  let ?jobs = "filter (\<lambda>(_, issued). prune_keeps now config tip grace issued) (rj_jobs r)"
  define E where "E = {name. map_of ?jobs name = None}"
  have d: "distinct (map fst (rj_jobs r))" using assms by (simp add: retained_ok_def)
  have "(case p of (_, issued) \<Rightarrow> prune_keeps now config tip grace issued) \<longleftrightarrow> fst p \<notin> E" if p: "p \<in> set (rj_jobs r)" for p
  proof
    assume "case p of (_, issued) \<Rightarrow> prune_keeps now config tip grace issued"
    then have "p \<in> set ?jobs" using p by simp
    then show "fst p \<notin> E" by (auto simp: map_of_eq_None_iff E_def)
  next
    assume "fst p \<notin> E"
    then obtain job where "(fst p, job) \<in> set ?jobs" by (auto simp: E_def dest: map_of_SomeD)
    then show "case p of (_, issued) \<Rightarrow> prune_keeps now config tip grace issued"
      using p d by (cases p) (auto dest: eq_key_imp_eq_value)
  qed
  then have "?jobs = filter (\<lambda>p. fst p \<notin> E) (rj_jobs r)" by (intro filter_cong) auto
  moreover have "rj_order (prune now config tip grace r) = filter (\<lambda>name. name \<notin> E) (rj_order r)"
    by (simp add: prune_def Let_def E_def)
  moreover have "rj_jobs (prune now config tip grace r) = ?jobs" by (simp add: prune_def Let_def)
  ultimately have "prune now config tip grace r = without E r" unfolding without_def by (intro RetainedJobs.equality) simp_all
  then show ?thesis by blast
qed

lemma prune_jobs_ok:
  assumes "memory_ok config s" "prune_jobs now config tip s = Some s'"
  shows "memory_ok config s'" "s' = s \<lparr> s_jobs := s_jobs s', s_retained := s_retained s' \<rparr>"
proof -
  from assms(2) obtain grace where s': "s' = s \<lparr> s_jobs := filter (active_keeps now config tip grace) (s_jobs s),
      s_retained := prune now config tip grace (s_retained s) \<rparr>"
    by (auto simp: prune_jobs_def bind_eq_Some_conv)
  obtain E where E: "prune now config tip grace (s_retained s) = without E (s_retained s)"
    using prune_without assms(1) unfolding memory_ok_def by blast
  have "length (filter (\<lambda>name. name \<notin> E) (rj_order (s_retained s))) \<le> 3 * sc_max_jobs_per_connection config"
    "length (filter (active_keeps now config tip grace) (s_jobs s)) \<le> sc_max_jobs_per_connection config"
    using assms(1) length_filter_le[of "\<lambda>name. name \<notin> E" "rj_order (s_retained s)"]
      length_filter_le[of "active_keeps now config tip grace" "s_jobs s"] unfolding memory_ok_def by linarith+
  then show "memory_ok config s'" using assms(1) without_ok[of "s_retained s" E]
    unfolding s' memory_ok_def by (simp add: E without_def)
  show "s' = s \<lparr> s_jobs := s_jobs s', s_retained := s_retained s' \<rparr>" unfolding s' by simp
qed

end
