(* ===== verification/Session_Run.thy ===== *)
theory Session_Run
  imports Session_Memory
begin

text \<open>
  Whole sessions: every operation of \<open>Stratum_Session\<close> keeps the difficulty within its limits and the remembered work
  within its bounds, and none of them panics or runs on.
\<close>

section \<open>What a validated configuration gives\<close>

lemma stratum_facts:
  assumes "stratum_validate permits config = Inr ()"
  shows "vardiff_validate (sc_vardiff config) = Inr ()" "0 < sc_max_jobs_per_connection config"
    "is_finite (sc_startup_difficulty config) \<and> is_positive (sc_startup_difficulty config)"
    "is_finite (sc_minimum_difficulty config)" "is_nonnegative (sc_minimum_difficulty config)"
    "is_finite (sc_resume_max_start_factor config)" "f64_le f64_one (sc_resume_max_start_factor config)"
    "try_from_secs_f64 (sc_stale_grace_seconds config) \<noteq> None"
    "f64_le (sc_minimum_difficulty config) (vc_maximum (sc_vardiff config))"
  using assms by (auto simp: stratum_validate_def res_simps ensure_def split: if_splits)

lemma ordinary_min: "ordinary a \<Longrightarrow> ordinary b \<Longrightarrow> f64_min a b = min a b"
  by (auto simp: f64_min_def ordinary_simps)

text \<open>Zero may come with a sign, which the larger of two numbers drops.\<close>

lemma max_nonnegative:
  assumes "ordinary a" "is_nonnegative b" "is_finite b"
  shows "f64_max a b = max a (if b = 2 ^ 63 then 0 else b)" "ordinary (f64_max a b)"
proof -
  have "b = 2 ^ 63 \<or> ordinary b"
    using assms(2) by (auto simp: is_nonnegative_def is_positive_def ordinary_def)
  moreover have "f64_key (2 ^ 63) = 0" by (simp add: f64_key_def)
  then have "f64_max a (2 ^ 63) = a"
    using ordinary_simps(1,2)[OF assms(1)] by (simp add: f64_max_def)
  ultimately show eq: "f64_max a b = max a (if b = 2 ^ 63 then 0 else b)"
    using assms(1) by (auto simp: ordinary_max ordinary_def f64_infinity_def)
  show "ordinary (f64_max a b)"
    using \<open>b = 2 ^ 63 \<or> ordinary b\<close> assms(1) \<open>f64_max a (2 ^ 63) = a\<close> by (auto simp: ordinary_max max_def)
qed

definition asked :: "f64 option \<Rightarrow> bool" where
  "asked d \<longleftrightarrow> (case d of None \<Rightarrow> True | Some d \<Rightarrow> is_finite d \<and> is_positive d)"

lemma asked_ordinary: "asked (Some d) \<Longrightarrow> ordinary d \<and> 0 < d" "asked None"
  using finite_positive[of d] by (auto simp: asked_def ordinary_def)

lemma floor_eq:
  assumes c: "stratum_validate permits config = Inr ()" and a: "asked (s_requested_minimum s)"
  shows "difficulty_floor config s =
    min (max (max (case s_requested_minimum s of Some d \<Rightarrow> d | None \<Rightarrow> 0) (vc_minimum (sc_vardiff config)))
      (if sc_minimum_difficulty config = 2 ^ 63 then 0 else sc_minimum_difficulty config)) (vc_maximum (sc_vardiff config))"
proof -
  note f = validate_facts[OF stratum_facts(1)[OF c]]
  let ?r = "case s_requested_minimum s of Some d \<Rightarrow> d | None \<Rightarrow> 0"
  have o: "ordinary ?r" "ordinary (vc_minimum (sc_vardiff config))" "ordinary (vc_maximum (sc_vardiff config))"
    using a asked_ordinary(1) f(5,6) by (auto simp: ordinary_def split: option.split)
  let ?m = "f64_max ?r (vc_minimum (sc_vardiff config))"
  have m: "?m = max ?r (vc_minimum (sc_vardiff config))" "ordinary ?m" using o by (simp_all add: ordinary_max max_def)
  note n = max_nonnegative[OF m(2) stratum_facts(5,4)[OF c]]
  have "difficulty_floor config s = f64_min (f64_max ?m (sc_minimum_difficulty config)) (vc_maximum (sc_vardiff config))"
    by (simp only: difficulty_floor_def)
  also have "\<dots> = min (f64_max ?m (sc_minimum_difficulty config)) (vc_maximum (sc_vardiff config))" by (rule ordinary_min[OF n(2) o(3)])
  also have "\<dots> = min (max ?m (if sc_minimum_difficulty config = 2 ^ 63 then 0 else sc_minimum_difficulty config)) (vc_maximum (sc_vardiff config))"
    by (subst n(1)) (rule refl)
  finally show ?thesis unfolding m(1) .
qed

lemma floor_bounds:
  assumes c: "stratum_validate permits config = Inr ()" and a: "asked (s_requested_minimum s)"
  shows "vc_minimum (sc_vardiff config) \<le> difficulty_floor config s" "difficulty_floor config s \<le> vc_maximum (sc_vardiff config)"
  using validate_facts(5)[OF stratum_facts(1)[OF c]] unfolding floor_eq[OF c a] by auto

text \<open>A number that is not negative and within the maximum is below every difficulty that reaches it as a bit pattern.\<close>

lemma floor_reaches:
  assumes c: "stratum_validate permits config = Inr ()" and a: "asked (s_requested_minimum s)"
    and d: "difficulty_floor config s \<le> d" "ordinary d"
  shows "f64_le (sc_minimum_difficulty config) d"
    "s_requested_minimum s = Some m \<Longrightarrow> f64_le m (vc_maximum (sc_vardiff config)) \<Longrightarrow> f64_le m d"
proof -
  let ?hi = "vc_maximum (sc_vardiff config)"
  have hi: "ordinary ?hi" using validate_facts(6)[OF stratum_facts(1)[OF c]] by (simp add: ordinary_def)
  note eq = floor_eq[OF c a]
  show "f64_le (sc_minimum_difficulty config) d"
  proof (cases "sc_minimum_difficulty config = 2 ^ 63")
    case True
    have "f64_key (2 ^ 63) = 0" "\<not> is_nan (2 ^ 63)" by (simp_all add: f64_key_def is_nan_def)
    then show ?thesis using True d(2) by (simp add: f64_le_def ordinary_simps)
  next
    case False
    then have o: "ordinary (sc_minimum_difficulty config)"
      using stratum_facts(5)[OF c] by (auto simp: is_nonnegative_def is_positive_def ordinary_def)
    then have "sc_minimum_difficulty config \<le> ?hi" using stratum_facts(9)[OF c] hi by (simp add: ordinary_le)
    then have "sc_minimum_difficulty config \<le> difficulty_floor config s" unfolding eq using False by simp
    then show ?thesis using o d by (simp add: ordinary_le)
  qed
  assume m: "s_requested_minimum s = Some m" "f64_le m ?hi"
  then have o: "ordinary m" using a asked_ordinary(1)[of m] by simp
  then have "m \<le> ?hi" using m(2) hi by (simp add: ordinary_le)
  then have "m \<le> difficulty_floor config s" unfolding eq using m(1) by simp
  then show "f64_le m d" using o d by (simp add: ordinary_le)
qed

section \<open>The difficulty\<close>

definition limits :: "StratumConfig \<Rightarrow> f64 \<Rightarrow> VardiffConfig" where
  "limits config fl = (sc_vardiff config) \<lparr> vc_minimum := fl \<rparr>"

lemma limits_validate:
  assumes c: "stratum_validate permits config = Inr ()"
    and fl: "vc_minimum (sc_vardiff config) \<le> fl" "fl \<le> vc_maximum (sc_vardiff config)"
  shows "vardiff_validate (limits config fl) = Inr ()"
proof -
  note v = stratum_facts(1)[OF c]
  note f = validate_facts[OF v]
  have "0 < fl" "fl < f64_infinity" using fl f(4,6) by simp_all
  then have "is_finite fl" "is_positive fl" using finite_positive[of fl] by simp_all
  moreover have "f64_le fl (vc_maximum (sc_vardiff config))" using fl(2) f(6) by (subst ordinary_le) (simp_all add: ordinary_def)
  ultimately show ?thesis using v by (simp add: vardiff_validate_def limits_def split: if_splits)
qed

text \<open>A difficulty and its adjustment: the limits are the configured ones with a floor of the session's own, and the
  difficulty lies between the floor and the maximum.\<close>

definition adjusting :: "StratumConfig \<Rightarrow> f64 \<Rightarrow> f64 \<Rightarrow> Vardiff \<Rightarrow> bool" where
  "adjusting config fl d v \<longleftrightarrow> vardiff_ok (limits config fl) v \<and>
     vc_minimum (sc_vardiff config) \<le> fl \<and> fl \<le> d \<and> d \<le> vc_maximum (sc_vardiff config)"

definition difficulty_ok :: "StratumConfig \<Rightarrow> f64 \<Rightarrow> 'c Session \<Rightarrow> bool" where
  "difficulty_ok config fl s \<longleftrightarrow> adjusting config fl (s_difficulty s) (s_vardiff s) \<and>
     (case s_pending_retarget s of None \<Rightarrow> True | Some (d, v) \<Rightarrow> adjusting config fl d v) \<and>
     asked (s_requested s) \<and> asked (s_requested_minimum s) \<and> asked (s_suggested s) \<and>
     (s_worker s \<noteq> None \<longrightarrow> fl = difficulty_floor config s)"

definition session_ok :: "StratumConfig \<Rightarrow> 'c Session \<Rightarrow> bool" where
  "session_ok config s \<longleftrightarrow> memory_ok config s \<and> (\<exists>fl. difficulty_ok config fl s)"

lemma adjusting_updates:
  assumes "adjusting config fl d v"
  shows "ordinary work \<Longrightarrow> adjusting config fl d (accepted work v)" "adjusting config fl d (delivered_retarget v)"
  using assms by (simp_all add: adjusting_def vardiff_ok_def accepted_def delivered_retarget_def ordinary_add)

lemma adjusting_ordinary:
  assumes "stratum_validate permits config = Inr ()" "adjusting config fl d v"
  shows "ordinary d" "vardiff_validate (limits config fl) = Inr ()"
  using validate_facts(6)[OF stratum_facts(1)[OF assms(1)]] assms(2) limits_validate[OF assms(1)]
  by (simp_all add: adjusting_def ordinary_def)

lemma session_new_ok:
  assumes c: "stratum_validate permits config = Inr ()"
  obtains s where "session_new now config = Some s" "session_ok config s"
proof -
  note f = validate_facts[OF stratum_facts(1)[OF c]]
  define d where "d = min (max (sc_startup_difficulty config) (vc_minimum (sc_vardiff config))) (vc_maximum (sc_vardiff config))"
  have "ordinary (sc_startup_difficulty config)" "ordinary (vc_maximum (sc_vardiff config))"
    using stratum_facts(3)[OF c, unfolded finite_positive] f(6) by (simp_all add: ordinary_def)
  then have r: "f64_clamp (sc_startup_difficulty config) (vc_minimum (sc_vardiff config)) (vc_maximum (sc_vardiff config)) = Some d"
    unfolding d_def using f(5) by (intro ordinary_clamp)
  have d: "vc_minimum (sc_vardiff config) \<le> d" "d \<le> vc_maximum (sc_vardiff config)" using f(5) by (simp_all add: d_def)
  obtain s :: "'a Session" where s: "session_new now config = Some s" "s_difficulty s = d" "s_vardiff s = vardiff_new now (sc_vardiff config)"
    "s_jobs s = []" "s_retained s = retained_default" "s_pending_retarget s = None" "s_requested s = None" "s_requested_minimum s = None"
    "s_suggested s = None" "s_worker s = None"
    by (simp add: session_new_def Let_def r)
  have "difficulty_ok config (vc_minimum (sc_vardiff config)) s"
    by (simp add: difficulty_ok_def s adjusting_def vardiff_ok_def vardiff_new_def limits_def ordinary_def asked_def d)
  moreover have "memory_ok config s" by (simp add: memory_ok_def s retained_default_def retained_ok_def)
  ultimately show thesis using that s(1) unfolding session_ok_def by blast
qed

lemma apply_requests_ok:
  assumes c: "stratum_validate permits config = Inr ()" and a: "asked (s_requested s)" "asked (s_requested_minimum s)" "asked (s_suggested s)"
    and d: "ordinary (s_difficulty s)" and v: "v_config (s_vardiff s) = limits config fl"
  obtains s' where "apply_requests now config s = Some s'" "difficulty_ok config (difficulty_floor config s) s'"
    "s' = s \<lparr> s_difficulty := s_difficulty s', s_vardiff := s_vardiff s', s_pending_retarget := None \<rparr>"
proof -
  note b = floor_bounds[OF c a(2)]
  define wanted where "wanted = (case s_requested s of Some d \<Rightarrow> d
    | None \<Rightarrow> (case s_suggested s of Some d \<Rightarrow> d | None \<Rightarrow> s_difficulty s))"
  have "ordinary wanted" unfolding wanted_def using a asked_ordinary(1) d by (auto split: option.split)
  define n where "n = min (max wanted (difficulty_floor config s)) (vc_maximum (sc_vardiff config))"
  have "f64_clamp wanted (difficulty_floor config s) (vc_maximum (sc_vardiff config)) = Some n" unfolding n_def
    using \<open>ordinary wanted\<close> b validate_facts(6)[OF stratum_facts(1)[OF c]] by (intro ordinary_clamp) (simp_all add: ordinary_def)
  then have r: "apply_requests now config s = Some (s \<lparr> s_difficulty := n,
      s_vardiff := vardiff_reset now ((s_vardiff s) \<lparr> v_config := limits config (difficulty_floor config s) \<rparr>), s_pending_retarget := None \<rparr>)"
    by (simp add: apply_requests_def Let_def v limits_def flip: wanted_def)
  have f: "difficulty_floor config (s \<lparr> s_difficulty := x, s_vardiff := y, s_pending_retarget := z \<rparr>) = difficulty_floor config s" for x y z
    by (simp add: difficulty_floor_def)
  have "difficulty_floor config s \<le> n" "n \<le> vc_maximum (sc_vardiff config)" using b by (simp_all add: n_def)
  then show thesis
    using b a by (intro that[OF r]) (simp_all add: difficulty_ok_def adjusting_def vardiff_ok_def vardiff_reset_def ordinary_def f)
qed


text \<open>Only the lists of jobs matter to the bound on memory, and only these fields to the difficulty.\<close>

lemma memory_cong: "s_jobs s' = s_jobs s \<Longrightarrow> s_retained s' = s_retained s \<Longrightarrow> memory_ok config s' = memory_ok config s"
  by (simp add: memory_ok_def)

lemma difficulty_cong:
  assumes "s_difficulty s' = s_difficulty s" "s_vardiff s' = s_vardiff s" "s_pending_retarget s' = s_pending_retarget s"
    "s_requested s' = s_requested s" "s_requested_minimum s' = s_requested_minimum s" "s_suggested s' = s_suggested s" "s_worker s' = s_worker s"
  shows "difficulty_ok config fl s' = difficulty_ok config fl s"
  using assms by (simp add: difficulty_ok_def difficulty_floor_def)

lemma floor_cong: "s_requested_minimum s' = s_requested_minimum s \<Longrightarrow> difficulty_floor config s' = difficulty_floor config s"
  by (simp add: difficulty_floor_def)

lemma session_retarget_ok:
  assumes c: "stratum_validate permits config = Inr ()" and s: "session_ok config s"
    and t: "now - v_started (s_vardiff s) < 2 ^ 64 * NANOS_PER_SEC"
  obtains s' where "session_retarget now s = Some s'" "session_ok config s'"
proof (cases "s_pending_retarget s \<noteq> None \<or> s_delivery_in_flight s")
  case True
  then show ?thesis using s by (intro that[of s]) (simp_all add: session_retarget_def)
next
  case False
  from s obtain fl where m: "memory_ok config s" and d: "difficulty_ok config fl s" unfolding session_ok_def by blast
  then have a: "adjusting config fl (s_difficulty s) (s_vardiff s)" by (simp add: difficulty_ok_def)
  note o = adjusting_ordinary[OF c a]
  have v: "vardiff_ok (limits config fl) (s_vardiff s)" using a by (simp add: adjusting_def)
  obtain v' r where r: "retarget now now (s_difficulty s) (s_vardiff s) = Some (v', r)" "vardiff_ok (limits config fl) v'"
    "\<And>d. r = Some d \<Longrightarrow> vc_minimum (limits config fl) \<le> d \<and> d \<le> vc_maximum (limits config fl)"
    by (rule retarget_bounded[OF o(2) v o(1) t, of now]) blast
  have b: "fl \<le> n \<and> n \<le> vc_maximum (sc_vardiff config)" if "r = Some n" for n using r(3)[OF that] by (simp add: limits_def)
  show ?thesis
  proof (cases r)
    case None
    let ?s = "s \<lparr> s_vardiff := v' \<rparr>"
    have "difficulty_ok config fl ?s" using d r(2) by (simp add: difficulty_ok_def adjusting_def floor_cong[of ?s s])
    then show ?thesis using m False r(1) None
      by (intro that[of ?s]) (auto simp: session_retarget_def session_ok_def memory_cong[of ?s s])
  next
    case (Some n)
    let ?s = "s \<lparr> s_vardiff := v', s_pending_retarget := Some (s_difficulty s, s_vardiff s), s_difficulty := n,
      s_retry_job := (s_worker s \<noteq> None \<and> s_extranonce1 s \<noteq> None) \<rparr>"
    have "difficulty_ok config fl ?s" using d r(2) a b[OF Some] by (simp add: difficulty_ok_def adjusting_def difficulty_floor_def)
    then show ?thesis using m False r(1) Some
      by (intro that[of ?s]) (auto simp: session_retarget_def session_ok_def memory_ok_def)
  qed
qed

lemma restore_retarget_ok: "session_ok config s \<Longrightarrow> session_ok config (restore_retarget s)"
proof (cases "s_pending_retarget s")
  case (Some p)
  assume "session_ok config s"
  then obtain fl where "memory_ok config s" "difficulty_ok config fl s" unfolding session_ok_def by blast
  moreover obtain d v where p: "s_pending_retarget s = Some (d, v)" using Some by (cases p) simp
  let ?s = "restore_retarget s"
  have q: "?s = s \<lparr> s_pending_retarget := None, s_difficulty := d, s_vardiff := v \<rparr>" by (simp add: restore_retarget_def p)
  ultimately have "difficulty_ok config fl ?s" "memory_ok config ?s"
    by (simp_all add: difficulty_ok_def p q memory_ok_def difficulty_floor_def)
  then show ?thesis unfolding session_ok_def by blast
qed (simp add: restore_retarget_def)

lemma share_accepted_ok:
  assumes c: "stratum_validate permits config = Inr ()" and s: "session_ok config s" and w: "ordinary proved"
    and t: "now - v_started (s_vardiff s) < 2 ^ 64 * NANOS_PER_SEC"
  obtains s' where "share_accepted now share_name proved s = Some s'" "session_ok config s'"
proof -
  from s obtain fl where m: "memory_ok config s" and d: "difficulty_ok config fl s" unfolding session_ok_def by blast
  let ?s = "s \<lparr> s_vardiff := accepted proved (s_vardiff s),
       s_pending_retarget := map_option (\<lambda>(d, previous). (d, accepted proved previous)) (s_pending_retarget s),
       s_last_accepted_share := Some (share_name, proved) \<rparr>"
  have "difficulty_ok config fl ?s"
    using d w by (auto simp: difficulty_ok_def adjusting_updates floor_cong[of ?s s] split: option.splits)
  then have "session_ok config ?s" using m memory_cong[of ?s s config] unfolding session_ok_def by auto
  moreover have "now - v_started (s_vardiff ?s) < 2 ^ 64 * NANOS_PER_SEC" using t by (simp add: accepted_def)
  ultimately show thesis using session_retarget_ok[OF c, of ?s now] that by (auto simp: share_accepted_def)
qed


lemma suggest_difficulty_ok:
  assumes c: "stratum_validate permits config = Inr ()" and s: "session_ok config s"
  obtains s' where "suggest_difficulty now config suggestion s = Some s'" "session_ok config s'"
proof (cases "\<exists>d. suggestion = Some d \<and> is_finite d \<and> is_positive d")
  case False
  then show ?thesis using s by (intro that[of s]) (auto simp: suggest_difficulty_def split: option.split)
next
  case True
  then obtain d where d: "suggestion = Some d" "is_finite d" "is_positive d" by blast
  from s obtain fl where m: "memory_ok config s" and ok: "difficulty_ok config fl s" unfolding session_ok_def by blast
  let ?s = "s \<lparr> s_suggested := Some d \<rparr>"
  have a: "asked (s_requested ?s)" "asked (s_requested_minimum ?s)" "asked (s_suggested ?s)" "v_config (s_vardiff ?s) = limits config fl"
    "ordinary (s_difficulty ?s)"
    using ok d adjusting_ordinary(1)[OF c] by (auto simp: difficulty_ok_def adjusting_def vardiff_ok_def asked_def)
  obtain s' where s': "apply_requests now config ?s = Some s'" "difficulty_ok config (difficulty_floor config ?s) s'"
    "s' = ?s \<lparr> s_difficulty := s_difficulty s', s_vardiff := s_vardiff s', s_pending_retarget := None \<rparr>"
    by (rule apply_requests_ok[OF c a(1-3,5,4), of now])
  let ?t = "s' \<lparr> s_retry_job := (s_worker s' \<noteq> None \<and> s_extranonce1 s' \<noteq> None) \<rparr>"
  have r: "suggest_difficulty now config suggestion s = Some ?t" using d s'(1) by (simp add: suggest_difficulty_def)
  have "difficulty_ok config (difficulty_floor config ?s) ?t" using s'(2) by (subst difficulty_cong[of _ s']) simp_all
  moreover have "s_jobs s' = s_jobs s" "s_retained s' = s_retained s" by (subst s'(3), simp)+
  then have "memory_ok config ?t" using m by (simp add: memory_ok_def)
  ultimately show ?thesis using that[OF r] unfolding session_ok_def by blast
qed

lemma one_le_positive: "f64_le f64_one d \<Longrightarrow> is_positive d"
  by (auto simp: f64_le_def is_nan_def f64_key_def f64_one_def f64_infinity_def is_positive_def f64_abs_def split: if_splits)

lemma resume_difficulty_ok:
  assumes c: "stratum_validate permits config = Inr ()" and o: "ordinary (s_difficulty s)"
  obtains d where "resume_difficulty config loaded s = Some (s \<lparr> s_difficulty := d \<rparr>)" "ordinary d"
proof -
  note f = validate_facts[OF stratum_facts(1)[OF c]]
  let ?lo = "vc_minimum (sc_vardiff config)" and ?hi = "vc_maximum (sc_vardiff config)"
  let ?start = "f64_mul (sc_startup_difficulty config) (sc_resume_max_start_factor config)"
  have "is_finite (sc_resume_max_start_factor config) \<and> is_positive (sc_resume_max_start_factor config)"
    using stratum_facts(6,7)[OF c] one_le_positive by blast
  then have "ordinary ?start"
    using stratum_facts(3)[OF c] unfolding finite_positive by (intro ordinary_mul) (auto simp: ordinary_def)
  moreover have b: "ordinary ?lo" "ordinary ?hi" using f(5,6) by (simp_all add: ordinary_def)
  ultimately have top: "f64_max (f64_min ?hi ?start) ?lo = max (min ?hi ?start) ?lo" "ordinary (max (min ?hi ?start) ?lo)"
    by (auto simp: ordinary_min ordinary_max ordinary_def max_def min_def)
  have "\<exists>x. ordinary x \<and> f64_clamp d ?lo (f64_max (f64_min ?hi ?start) ?lo) = Some x" if "is_finite d" "is_positive d" for d
    unfolding top(1)
    using that finite_positive[of d] top(2) by (subst ordinary_clamp) (auto simp: ordinary_def)
  moreover have "resume_difficulty config loaded s = Some (s \<lparr> s_difficulty := s_difficulty s \<rparr>) \<or>
      (\<exists>d. is_finite d \<and> is_positive d \<and> resume_difficulty config loaded s =
        map_option (\<lambda>x. s \<lparr> s_difficulty := x \<rparr>) (f64_clamp d ?lo (f64_max (f64_min ?hi ?start) ?lo)))"
    by (auto simp: resume_difficulty_def split: option.split)
  ultimately show thesis using that o by (metis option.map(2))
qed

lemma authorize_ok:
  assumes c: "stratum_validate permits config = Inr ()" and s: "session_ok config s" and q: "asked (fst requests)" "asked (snd requests)"
  obtains e where "authorize now config worker acquired loaded requests s = Some (Inl e)"
  | s' where "authorize now config worker acquired loaded requests s = Some (Inr s')" "session_ok config s'"
proof (cases "reservation config worker acquired s")
  case (Inl e)
  then show ?thesis using that(1) by (simp add: authorize_def)
next
  case (Inr p)
  from s obtain fl where m: "memory_ok config s" and ok: "difficulty_ok config fl s" unfolding session_ok_def by blast
  then have "ordinary (s_difficulty s)" using adjusting_ordinary(1)[OF c] by (auto simp: difficulty_ok_def)
  then obtain d where d: "resume_difficulty config loaded s = Some (s \<lparr> s_difficulty := d \<rparr>)" "ordinary d"
    by (rule resume_difficulty_ok[OF c])
  let ?s = "s \<lparr> s_difficulty := d, s_requested := fst requests, s_requested_minimum := snd requests \<rparr>"
  have a: "asked (s_requested ?s)" "asked (s_requested_minimum ?s)" "asked (s_suggested ?s)" "v_config (s_vardiff ?s) = limits config fl"
    "ordinary (s_difficulty ?s)"
    using ok q d(2) by (auto simp: difficulty_ok_def adjusting_def vardiff_ok_def)
  obtain s' where s': "apply_requests now config ?s = Some s'" "difficulty_ok config (difficulty_floor config ?s) s'"
    "s' = ?s \<lparr> s_difficulty := s_difficulty s', s_vardiff := s_vardiff s', s_pending_retarget := None \<rparr>"
    by (rule apply_requests_ok[OF c a(1-3,5,4), of now])
  let ?u = "if same_username worker s' then s' else s' \<lparr> s_authorization_permit := p, s_last_accepted_share := None \<rparr>"
  let ?t = "?u \<lparr> s_worker := Some worker, s_retry_job := (s_extranonce1 ?u \<noteq> None) \<rparr>"
  have r: "authorize now config worker acquired loaded requests s = Some (Inr ?t)"
    using Inr d(1) s'(1) by (simp add: authorize_def Let_def)
  have k: "s_jobs s' = s_jobs s" "s_retained s' = s_retained s" "s_requested_minimum s' = snd requests" by (subst s'(3), simp)+
  have "difficulty_floor config ?t = difficulty_floor config ?s" using k(3) by (simp add: difficulty_floor_def)
  then have "difficulty_ok config (difficulty_floor config ?s) ?t" using s'(2) by (simp add: difficulty_ok_def)
  moreover have "memory_ok config ?t" using m k by (simp add: memory_ok_def)
  ultimately show ?thesis using that(2)[OF r] unfolding session_ok_def by blast
qed

lemma announce_ok:
  assumes c: "stratum_validate permits config = Inr ()" and s: "session_ok config s"
  obtains s' where "announce_job now config tip job worker vmask s = Some s'" "session_ok config s'"
proof -
  from s obtain fl where m: "memory_ok config s" and ok: "difficulty_ok config fl s" unfolding session_ok_def by blast
  have r: "retained_ok (s_retained s)" using m by (simp add: memory_ok_def)
  obtain jobs' r' where a: "announce_job now config tip job worker vmask s =
      Some ((announced now job vmask s) \<lparr> s_jobs := jobs' @ [issued_job job worker vmask s], s_retained := r' \<rparr>)" (is "_ = Some ?s")
    "length jobs' < sc_max_jobs_per_connection config" "graveyard config (map_option rt_hash tip) r'"
    by (rule announce_job_returns[OF stratum_facts(2)[OF c] r])
  have "difficulty_ok config fl ?s" 
    using ok adjusting_updates(2)[of config fl "s_difficulty s" "s_vardiff s"]
    by (auto simp: difficulty_ok_def floor_cong[of ?s s])
  moreover have "memory_ok config ?s" using a(2,3) by (simp add: memory_ok_def graveyard_def)
  ultimately show thesis using that[OF a(1)] unfolding session_ok_def by blast
qed


lemma frame_ok:
  assumes "session_ok config s" "memory_ok config s'" "s' = s \<lparr> s_jobs := s_jobs s', s_retained := s_retained s' \<rparr>"
  shows "session_ok config s'"
proof -
  from assms(1) obtain fl where ok: "difficulty_ok config fl s" unfolding session_ok_def by blast
  have "difficulty_ok config fl s'" using ok by (subst assms(3), subst difficulty_cong[of _ s]) simp_all
  then show ?thesis using assms(2) unfolding session_ok_def by blast
qed

lemma resume_job_ok:
  assumes c: "stratum_validate permits config = Inr ()" and s: "session_ok config s"
  obtains e where "resume_job now config tip name worker job s = Some (Inl e)"
  | s' where "resume_job now config tip name worker job s = Some (Inr s')" "session_ok config s'"
proof -
  have m: "memory_ok config s" using s by (simp add: session_ok_def)
  show thesis
    by (rule resume_job_returns[OF stratum_facts(2)[OF c] m, of now tip name worker job]) (use that frame_ok[OF s] in blast)+
qed

lemma prune_jobs_returns:
  assumes c: "stratum_validate permits config = Inr ()" and s: "session_ok config s"
  obtains s' where "prune_jobs now config tip s = Some s'" "session_ok config s'"
proof -
  have m: "memory_ok config s" using s by (simp add: session_ok_def)
  obtain s' where s': "prune_jobs now config tip s = Some s'"
    using stratum_facts(8)[OF c] by (auto simp: prune_jobs_def stale_grace_def)
  show thesis by (rule that[OF s']) (rule frame_ok[OF s prune_jobs_ok[OF m s']])
qed

lemma session_charge_ok: "session_ok config s \<Longrightarrow> session_ok config (snd (session_charge now refusal s))"
  by (cases refusal)
    (auto simp: session_charge_def session_ok_def memory_ok_def difficulty_ok_def difficulty_floor_def Let_def split: prod.split)

section \<open>Runs of a session\<close>

text \<open>What a connection does to its session, with the fields other handlers own set freely. Requests and suggestions are
  what \<^verbatim>\<open>password_difficulties\<close> keeps, finite positive numbers; the difficulty a share proved is a number that is not
  negative; instants of the clock are less than two to the 64 seconds apart.\<close>

inductive session_run :: "StratumConfig \<Rightarrow> 'c Session \<Rightarrow> bool" for config where
  session_open: "session_new now config = Some s \<Longrightarrow> session_run config s"
| session_fields: "session_run config s \<Longrightarrow>
    session_run config (s \<lparr> s_extranonce1 := e, s_miner_version_mask := m, s_advertised_version_mask := a, s_retry_job := r, s_delivery_in_flight := f \<rparr>)"
| session_charged: "session_run config s \<Longrightarrow> session_run config (snd (session_charge now refusal s))"
| session_authorize: "session_run config s \<Longrightarrow> asked (fst requests) \<Longrightarrow> asked (snd requests) \<Longrightarrow>
    authorize now config worker acquired loaded requests s = Some (Inr s') \<Longrightarrow> session_run config s'"
| session_suggest: "session_run config s \<Longrightarrow> suggest_difficulty now config suggestion s = Some s' \<Longrightarrow> session_run config s'"
| session_adjust: "session_run config s \<Longrightarrow> now - v_started (s_vardiff s) < 2 ^ 64 * NANOS_PER_SEC \<Longrightarrow>
    session_retarget now s = Some s' \<Longrightarrow> session_run config s'"
| session_restore: "session_run config s \<Longrightarrow> session_run config (restore_retarget s)"
| session_share: "session_run config s \<Longrightarrow> ordinary proved \<Longrightarrow> now - v_started (s_vardiff s) < 2 ^ 64 * NANOS_PER_SEC \<Longrightarrow>
    share_accepted now share_name proved s = Some s' \<Longrightarrow> session_run config s'"
| session_announce: "session_run config s \<Longrightarrow> announce_job now config tip job worker vmask s = Some s' \<Longrightarrow> session_run config s'"
| session_resume: "session_run config s \<Longrightarrow> resume_job now config tip name worker job s = Some (Inr s') \<Longrightarrow> session_run config s'"
| session_prune: "session_run config s \<Longrightarrow> prune_jobs now config tip s = Some s' \<Longrightarrow> session_run config s'"

lemma session_run_ok:
  assumes c: "stratum_validate permits config = Inr ()" and "session_run config s"
  shows "session_ok config s"
  using assms(2)
proof induction
  case (session_open now s)
  then show ?case using session_new_ok[OF c, of now] by (metis option.inject)
next
  case (session_fields s e m a r f)
  then show ?case by (simp add: session_ok_def memory_ok_def difficulty_ok_def difficulty_floor_def)
next
  case (session_authorize s requests now worker acquired loaded s')
  then show ?case using authorize_ok[OF c session_authorize.IH] by (metis Inl_Inr_False option.inject sum.inject(2))
next
  case (session_suggest s now suggestion s')
  then show ?case using suggest_difficulty_ok[OF c session_suggest.IH] by (metis option.inject)
next
  case (session_adjust s now s')
  then show ?case using session_retarget_ok[OF c session_adjust.IH] by (metis option.inject)
next
  case (session_share s proved now share_name s')
  then show ?case using share_accepted_ok[OF c session_share.IH] by (metis option.inject)
next
  case (session_announce s now tip job worker vmask s')
  then show ?case using announce_ok[OF c session_announce.IH] by (metis option.inject)
next
  case (session_resume s now tip name worker job s')
  then show ?case using resume_job_ok[OF c session_resume.IH] by (metis Inl_Inr_False option.inject sum.inject(2))
next
  case (session_prune s now tip s')
  then show ?case using prune_jobs_returns[OF c session_prune.IH] by (metis option.inject)
qed (simp_all add: session_charge_ok restore_retarget_ok)

end
