(* ===== verification/Session_Claims.thy ===== *)
theory Session_Claims
  imports Session_Run
begin

text \<open>
  What a session promises: bounded memory, a difficulty within its limits, no panic, no credit for work a new payout
  superseded, and bounded misbehaviour.
\<close>

section \<open>Budgets\<close>

fun budget_trace :: "SessionBudget \<Rightarrow> nat list \<Rightarrow> bool list" where
  "budget_trace b [] = []"
| "budget_trace b (t # ts) = (let (ok, b) = budget_charge t b in ok # budget_trace b ts)"

fun budget_after :: "SessionBudget \<Rightarrow> nat list \<Rightarrow> SessionBudget" where
  "budget_after b [] = b"
| "budget_after b (t # ts) = budget_after (snd (budget_charge t b)) ts"

lemma budget_trace_append: "budget_trace b (ts @ us) = budget_trace b ts @ budget_trace (budget_after b ts) us"
  by (induction ts arbitrary: b) (auto split: prod.split)

lemma budget_trace_length [simp]: "length (budget_trace b ts) = length ts"
  by (induction ts arbitrary: b) (auto split: prod.split)

lemma budget_charge_keeps:
  "sb_limit (snd (budget_charge t b)) = sb_limit b" "sb_interval (snd (budget_charge t b)) = sb_interval b"
  by (simp_all add: budget_charge_def Let_def)

lemma budget_after_keeps: "sb_limit (budget_after b ts) = sb_limit b" "sb_interval (budget_after b ts) = sb_interval b"
  by (induction ts arbitrary: b) (simp_all add: budget_charge_keeps)

definition limited :: "nat \<Rightarrow> SessionBudget \<Rightarrow> bool" where
  "limited n b \<longleftrightarrow> sb_limit b = n \<and> 0 < n \<and> n \<le> MAX_SESSION_BUDGET"

lemma charge_within:
  assumes "limited n b" "t - sb_window_start b < sb_interval b"
  shows "fst (budget_charge t b) \<longleftrightarrow> sb_charged b < n" "sb_window_start (snd (budget_charge t b)) = sb_window_start b"
    "n - sb_charged (snd (budget_charge t b)) = n - sb_charged b - 1" "limited n (snd (budget_charge t b))"
    "sb_charged b < n \<Longrightarrow> sb_charged (snd (budget_charge t b)) = Suc (sb_charged b)"
  using assms by (auto simp: limited_def budget_charge_def saturating_add_def MAX_SESSION_BUDGET_def Let_def)

lemma charge_renews:
  assumes "limited n b" "\<not> t - sb_window_start b < sb_interval b"
  shows "fst (budget_charge t b)" "sb_window_start (snd (budget_charge t b)) = t" "sb_charged (snd (budget_charge t b)) = 1"
    "limited n (snd (budget_charge t b))"
  using assms by (auto simp: limited_def budget_charge_def saturating_add_def Let_def)

lemma trace_cons: "budget_trace b (t # ts) = fst (budget_charge t b) # budget_trace (snd (budget_charge t b)) ts"
  by (simp split: prod.split)

lemma window_admits:
  assumes "limited n b" "\<forall>t\<in>set us. t - sb_window_start b < sb_interval b"
  shows "length (filter (\<lambda>ok. ok) (budget_trace b us)) \<le> n - sb_charged b"
  using assms
proof (induction us arbitrary: b)
  case (Cons t us)
  note c = charge_within[OF Cons.prems(1), of t]
  have "length (filter (\<lambda>ok. ok) (budget_trace (snd (budget_charge t b)) us)) \<le> n - sb_charged (snd (budget_charge t b))"
    using Cons.prems(2) c by (intro Cons.IH) (simp_all add: budget_charge_keeps)
  then show ?case using c Cons.prems(2) by (auto simp: trace_cons simp del: budget_trace.simps)
qed simp

lemma span_admits:
  assumes "limited n b" "sorted us" "\<forall>t\<in>set us. \<forall>t'\<in>set us. t - t' < sb_interval b"
  shows "length (filter (\<lambda>ok. ok) (budget_trace b us)) \<le> n + (n - sb_charged b)"
  using assms
proof (induction us arbitrary: b)
  case (Cons t us)
  let ?b = "snd (budget_charge t b)"
  show ?case
  proof (cases "t - sb_window_start b < sb_interval b")
    case True
    note c = charge_within[OF Cons.prems(1) True]
    have "length (filter (\<lambda>ok. ok) (budget_trace ?b us)) \<le> n + (n - sb_charged ?b)"
      using Cons.prems c(4) by (intro Cons.IH) (simp_all add: budget_charge_keeps)
    then show ?thesis using c by (auto simp: trace_cons simp del: budget_trace.simps)
  next
    case False
    note c = charge_renews[OF Cons.prems(1) False]
    have "length (filter (\<lambda>ok. ok) (budget_trace ?b us)) \<le> n - sb_charged ?b"
      using Cons.prems(3) c by (intro window_admits) (simp_all add: budget_charge_keeps)
    then show ?thesis using c Cons.prems(1) by (auto simp: trace_cons limited_def simp del: budget_trace.simps)
  qed
qed simp

lemma fresh_admits:
  assumes "limited n b" "sb_charged b + length us \<le> n"
  shows "list_all (\<lambda>ok. ok) (budget_trace b us)"
  using assms
proof (induction us arbitrary: b)
  case (Cons t us)
  show ?case
  proof (cases "t - sb_window_start b < sb_interval b")
    case True
    note c = charge_within[OF Cons.prems(1) True]
    have "list_all (\<lambda>ok. ok) (budget_trace (snd (budget_charge t b)) us)" using c(4,5) Cons.prems(2) by (intro Cons.IH) simp_all
    then show ?thesis using c(1) Cons.prems(2) by (simp add: trace_cons del: budget_trace.simps)
  next
    case False
    note c = charge_renews[OF Cons.prems(1) False]
    have "list_all (\<lambda>ok. ok) (budget_trace (snd (budget_charge t b)) us)" using c(3,4) Cons.prems(2) by (intro Cons.IH) simp_all
    then show ?thesis using c(1) by (simp add: trace_cons del: budget_trace.simps)
  qed
qed simp

text \<open>C18. A budget bounds the rate of what it charges: with a limit in the configurable range, whatever was charged
  before, the charges at the instants of \<open>us\<close>, which span less than the interval, are admitted at most twice the limit
  times; and as long as no more than the limit were charged at all, each was admitted.\<close>

theorem budget_rate:
  assumes "0 < limit" "limit \<le> MAX_SESSION_BUDGET" "sorted us" "\<forall>t\<in>set us. \<forall>t'\<in>set us. t - t' < interval"
  shows "length (filter (\<lambda>ok. ok) (drop (length ts) (budget_trace (budget_new start limit interval) (ts @ us)))) \<le> 2 * limit \<and>
    (length (ts @ us) \<le> limit \<longrightarrow> list_all (\<lambda>ok. ok) (budget_trace (budget_new start limit interval) (ts @ us)))"
proof
  let ?b = "budget_new start limit interval"
  have b: "limited limit ?b" "limited limit (budget_after ?b ts)" "sb_interval (budget_after ?b ts) = interval"
    using assms(1,2) by (simp_all add: limited_def budget_after_keeps budget_new_def)
  show "length (filter (\<lambda>ok. ok) (drop (length ts) (budget_trace ?b (ts @ us)))) \<le> 2 * limit"
    using span_admits[OF b(2) assms(3)] assms(4) b(3) by (simp add: budget_trace_append)
  show "length (ts @ us) \<le> limit \<longrightarrow> list_all (\<lambda>ok. ok) (budget_trace ?b (ts @ us))"
    using fresh_admits[OF b(1), of "ts @ us"] by (simp add: budget_new_def)
qed

theorem budget_rate_witness:
  "length (filter (\<lambda>ok. ok) (drop 2 (budget_trace (budget_new 0 2 10) ([1, 5] @ [8, 9, 11, 12, 13, 14])))) \<le> 4 \<and>
   budget_trace (budget_new 0 2 10) [1, 5, 8, 9, 11, 12, 13, 14] = [True, True, False, False, True, True, False, False]"
  using budget_rate[of 2 "[8, 9, 11, 12, 13, 14]" 10 "[1, 5]" 0]
  by (simp add: MAX_SESSION_BUDGET_def budget_charge_def budget_new_def saturating_add_def)

section \<open>A listener and its work\<close>

text \<open>Concrete inputs: a listener with the default adjustment, a worker, and a job for each payout revision.\<close>

definition demo_listener :: StratumConfig where
  "demo_listener = \<lparr> sc_resume_enabled = True, sc_resume_ttl_seconds = 600, sc_resume_max_entries = 100, sc_resume_max_start_factor = f64_one,
     sc_startup_difficulty = f64_one, sc_minimum_difficulty = f64_one, sc_vardiff = VARDIFF_DEFAULT, sc_extranonce2_size = 8,
     sc_version_rolling_mask = 0, sc_max_message_bytes = 65536, sc_max_jobs_per_connection = 4,
     sc_job_retention_seconds = 0x4056800000000000, sc_stale_grace_seconds = 0x4056800000000000,
     sc_initial_job_timeout_seconds = 0x4056800000000000, sc_write_timeout_seconds = 0x4056800000000000, sc_listen_backlog = 128,
     sc_max_connections_per_username = 4, sc_max_connections_per_ip = 16, sc_session_budget_interval_seconds = 0x4056800000000000,
     sc_max_malformed_frames_per_interval = 10, sc_max_unknown_jobs_per_interval = 10, sc_max_authorize_attempts_per_interval = 10 \<rparr>"

definition demo_miner :: Worker where
  "demo_miner = \<lparr> w_username = ''alice.rig'', w_payout_address = ''alice'', w_worker_name = Some ''rig'', w_p2mr_program_hex = ''00'' \<rparr>"

definition demo_work :: "string \<Rightarrow> i64 \<Rightarrow> unit MiningJob" where
  "demo_work name revision = \<lparr> mj_wire = \<lparr> j_job_id = name, j_previousblockhash = ''tip'', j_prevhash = [], j_coinb1 = [], j_coinb2 = [],
     j_full_coinbase_prefix = [], j_full_coinbase_suffix = [], j_merkle_branch = [], j_transactions = [], j_version = 0,
     j_version_mask = 0, j_nbits = 0, j_ntime = 0, j_mintime = 0, j_network_target = 1, j_share_target = 1, j_share_difficulty = f64_one,
     j_extranonce1 = [], j_extranonce2_size = 8, j_clean_jobs = False, j_resume_expires_at = None, j_refresh_generation = 0,
     j_payout_revision = revision, j_kind = Credit \<rparr>, mj_context = () \<rparr>"

lemma demo_validates: "stratum_validate 1000 demo_listener = Inr ()"
proof -
  have "vc_maximum VARDIFF_DEFAULT = 0x4090000000000000" by (simp add: VARDIFF_DEFAULT_def)
  then show ?thesis
    using default_validates ninety_seconds
    by (simp add: stratum_validate_def demo_listener_def ensure_def is_finite_def f64_exponent_def is_positive_def is_nonnegative_def
      f64_infinity_def f64_le_def is_nan_def f64_key_def f64_one_def MAX_LISTEN_BACKLOG_def MAX_SESSION_BUDGET_def)
qed

text \<open>A session in which the worker was authorized and a first job announced.\<close>

lemma demo_session:
  obtains s0 s1 s2 :: "unit Session" where "session_new 0 demo_listener = Some s0"
    "authorize 1 demo_listener demo_miner (Some 0) None (None, None) s0 = Some (Inr s1)"
    "announce_job 2 demo_listener None (demo_work ''a'' 1) demo_miner 0 s1 = Some s2"
    "session_run demo_listener s1" "session_run demo_listener s2" "s_worker s1 = Some demo_miner"
proof -
  obtain s0 :: "unit Session" where s0: "session_new 0 demo_listener = Some s0" "session_ok demo_listener s0"
    by (rule session_new_ok[OF demo_validates])
  have r0: "session_run demo_listener s0" by (rule session_open[OF s0(1)])
  have "reservation demo_listener demo_miner (Some 0) s0 = Inr (Some 0)"
    using s0(1) by (auto simp: session_new_def Let_def bind_eq_Some_conv reservation_def demo_listener_def same_username_def retained_default_def
      permit_def)
  then have "authorize 1 demo_listener demo_miner (Some 0) None (None, None) s0 \<noteq> Some (Inl e)" for e
    by (auto simp: authorize_def bind_eq_Some_conv Let_def)
  then obtain s1 where s1: "authorize 1 demo_listener demo_miner (Some 0) None (None, None) s0 = Some (Inr s1)" "session_ok demo_listener s1"
    using authorize_ok[OF demo_validates s0(2), of "(None, None)" 1 demo_miner "Some 0" None] by (auto simp: asked_def)
  have r1: "session_run demo_listener s1" by (rule session_authorize[OF r0 _ _ s1(1)]) (simp_all add: asked_def)
  have w: "s_worker s1 = Some demo_miner" using s1(1) by (auto simp: authorize_def bind_eq_Some_conv Let_def split: sum.splits)
  obtain s2 where s2: "announce_job 2 demo_listener None (demo_work ''a'' 1) demo_miner 0 s1 = Some s2"
    by (rule announce_ok[OF demo_validates s1(2)])
  show thesis by (rule that[OF s0(1) s1(1) s2 r1 session_announce[OF r1 s2] w])
qed

section \<open>Sessions\<close>

lemma retained_length: "retained_ok r \<Longrightarrow> length (rj_jobs r) = length (rj_order r)"
  unfolding retained_ok_def by (metis distinct_card length_map list.set_map)

lemma find_issued_name:
  assumes "retained_ok (s_retained s)" "find_issued name s = Some issued"
  shows "j_job_id (wire issued) = name"
  using assms by (auto simp: find_issued_def retained_get_def retained_ok_def find_Some_iff split: option.splits dest: map_of_SomeD)

text \<open>C16. A session remembers a bounded amount of work: with a validated configuration, however the connection behaves,
  at most the configured number of jobs is active and at most three times as many are retained, and a
  lookup by name returns a job of that name.\<close>

theorem session_memory_bounded:
  assumes "stratum_validate permits config = Inr ()" "session_run config s"
  shows "length (s_jobs s) \<le> sc_max_jobs_per_connection config \<and>
    length (rj_jobs (s_retained s)) \<le> 3 * sc_max_jobs_per_connection config \<and>
    (\<forall>name issued. find_issued name s = Some issued \<longrightarrow> j_job_id (wire issued) = name)"
  using session_run_ok[OF assms] retained_length find_issued_name unfolding session_ok_def memory_ok_def by metis

theorem session_memory_bounded_witness:
  "\<exists>s1 s2 :: unit Session. announce_job 2 demo_listener None (demo_work ''a'' 1) demo_miner 0 s1 = Some s2 \<and>
     length (s_jobs s2) \<le> 4 \<and> length (rj_jobs (s_retained s2)) \<le> 12"
proof -
  obtain s1 s2 :: "unit Session" where s: "announce_job 2 demo_listener None (demo_work ''a'' 1) demo_miner 0 s1 = Some s2"
    "session_run demo_listener s2" by (rule demo_session)
  show ?thesis using s(1) session_memory_bounded[OF demo_validates s(2)] by (auto simp: demo_listener_def)
qed

text \<open>C14. The difficulty of a session stays within its limits: it is between the configured minimum and maximum, and
  once a worker is authorized it reaches the floor of the listener and the minimum the worker asked for, as
  far as that does not pass the maximum.\<close>

theorem session_difficulty_bounded:
  assumes "stratum_validate permits config = Inr ()" "session_run config s"
  shows "f64_le (vc_minimum (sc_vardiff config)) (s_difficulty s) \<and> f64_le (s_difficulty s) (vc_maximum (sc_vardiff config)) \<and>
    (s_worker s \<noteq> None \<longrightarrow> f64_le (sc_minimum_difficulty config) (s_difficulty s) \<and>
      (\<forall>m. s_requested_minimum s = Some m \<and> f64_le m (vc_maximum (sc_vardiff config)) \<longrightarrow> f64_le m (s_difficulty s)))"
proof -
  obtain fl where d: "difficulty_ok config fl s" using session_run_ok[OF assms] unfolding session_ok_def by blast
  then have a: "adjusting config fl (s_difficulty s) (s_vardiff s)" "asked (s_requested_minimum s)" by (simp_all add: difficulty_ok_def)
  note o = adjusting_ordinary(1)[OF assms(1) a(1)]
  have lim: "vc_minimum (sc_vardiff config) \<le> s_difficulty s" "s_difficulty s \<le> vc_maximum (sc_vardiff config)"
    "vc_maximum (sc_vardiff config) < f64_infinity"
    using a(1) validate_facts(6)[OF stratum_facts(1)[OF assms(1)]] by (simp_all add: adjusting_def)
  then have "ordinary (vc_minimum (sc_vardiff config))" "ordinary (vc_maximum (sc_vardiff config))" by (simp_all add: ordinary_def)
  then have b: "f64_le (vc_minimum (sc_vardiff config)) (s_difficulty s)" "f64_le (s_difficulty s) (vc_maximum (sc_vardiff config))"
    using lim o by (simp_all add: ordinary_le)
  have "s_worker s \<noteq> None \<Longrightarrow> difficulty_floor config s \<le> s_difficulty s" using d a(1) by (auto simp: difficulty_ok_def adjusting_def)
  then show ?thesis using b floor_reaches[OF assms(1) a(2) _ o] by blast
qed

theorem session_difficulty_bounded_witness:
  "\<exists>s0 s1 :: unit Session. session_new 0 demo_listener = Some s0 \<and>
     authorize 1 demo_listener demo_miner (Some 0) None (None, None) s0 = Some (Inr s1) \<and>
     f64_le f64_one (s_difficulty s1) \<and> f64_le (s_difficulty s1) 0x4090000000000000"
proof -
  obtain s0 s1 :: "unit Session" where s: "session_new 0 demo_listener = Some s0"
    "authorize 1 demo_listener demo_miner (Some 0) None (None, None) s0 = Some (Inr s1)"
    "session_run demo_listener s1" "s_worker s1 = Some demo_miner" by (rule demo_session)
  have "sc_minimum_difficulty demo_listener = f64_one" "vc_maximum (sc_vardiff demo_listener) = 0x4090000000000000"
    by (simp_all add: demo_listener_def VARDIFF_DEFAULT_def)
  then show ?thesis using s(1,2,4) session_difficulty_bounded[OF demo_validates s(3)] by auto
qed

text \<open>C15. No operation of a session panics or fails to end: with a validated configuration and a session the connection has
  reached, every operation returns, the loop that makes room for a job included.\<close>

theorem session_never_panics:
  assumes "stratum_validate permits config = Inr ()" "session_run config s"
    "now - v_started (s_vardiff s) < 2 ^ 64 * NANOS_PER_SEC" "ordinary proved" "asked (fst requests)" "asked (snd requests)"
  shows "session_retarget now s \<noteq> None \<and> share_accepted now share_name proved s \<noteq> None \<and>
    suggest_difficulty now config suggestion s \<noteq> None \<and> authorize now config worker acquired loaded requests s \<noteq> None \<and>
    announce_job now config tip job worker vmask s \<noteq> None \<and> resume_job now config tip name worker job s \<noteq> None \<and>
    prune_jobs now config tip s \<noteq> None \<and> (session_new now config :: 'c Session option) \<noteq> None"
proof (intro conjI)
  note ok = session_run_ok[OF assms(1,2)]
  show "session_retarget now s \<noteq> None" using session_retarget_ok[OF assms(1) ok assms(3)] by auto
  show "share_accepted now share_name proved s \<noteq> None" using share_accepted_ok[OF assms(1) ok assms(4,3)] by (metis option.distinct(1))
  show "suggest_difficulty now config suggestion s \<noteq> None" using suggest_difficulty_ok[OF assms(1) ok] by (metis option.distinct(1))
  show "authorize now config worker acquired loaded requests s \<noteq> None" using authorize_ok[OF assms(1) ok assms(5,6)] by (metis option.distinct(1))
  show "announce_job now config tip job worker vmask s \<noteq> None" using announce_ok[OF assms(1) ok] by (metis option.distinct(1))
  show "resume_job now config tip name worker job s \<noteq> None" using resume_job_ok[OF assms(1) ok] by (metis option.distinct(1))
  show "prune_jobs now config tip s \<noteq> None" using prune_jobs_returns[OF assms(1) ok] by (metis option.distinct(1))
  show "(session_new now config :: 'c Session option) \<noteq> None" using session_new_ok[OF assms(1)] by (metis option.distinct(1))
qed

theorem session_never_panics_witness:
  "\<exists>s0 :: unit Session. session_new 0 demo_listener = Some s0 \<and> session_retarget 0 s0 \<noteq> None \<and>
     announce_job 0 demo_listener None (demo_work ''a'' 1) demo_miner 0 s0 \<noteq> None"
proof -
  obtain s0 :: "unit Session" where s: "session_new 0 demo_listener = Some s0" by (rule demo_session)
  have h: "0 - v_started (s_vardiff s0) < 2 ^ 64 * NANOS_PER_SEC" "ordinary 0" "asked (fst (None, None))" "asked (snd (None, None))"
    by (simp_all add: asked_def ordinary_def NANOS_PER_SEC_def)
  show ?thesis using s session_never_panics[OF demo_validates session_open[OF s] h] by blast
qed

text \<open>C13. A job at a new payout revision ends the credit of the old one: after it is announced it is the newest active job,
  every active job of its parent pays the same revision, every retained job of its parent with another revision
  can only be submitted as a block and holds no reservation of its username, and at most the configured number of such jobs
  on the published tip is kept.\<close>

theorem announced_supersedes:
  assumes "stratum_validate permits config = Inr ()" "session_run config s" "announce_job now config tip job worker vmask s = Some s'"
  shows "s_jobs s' \<noteq> [] \<and> j_job_id (wire (last (s_jobs s'))) = j_job_id (mj_wire job) \<and> ij_worker (last (s_jobs s')) = worker \<and>
    (\<forall>issued\<in>set (s_jobs s'). \<not> supersedes (mj_wire job) (wire issued)) \<and>
    (\<forall>(name, issued)\<in>set (rj_jobs (s_retained s')). supersedes (mj_wire job) (wire issued) \<longrightarrow>
       j_kind (wire issued) = BlockOnly \<and> ij_authorization_permit issued = None) \<and>
    length (filter (\<lambda>p. capped BlockOnly (map_option rt_hash tip) (snd p)) (rj_jobs (s_retained s')))
      \<le> sc_max_jobs_per_connection config"
proof -
  have r: "retained_ok (s_retained s)" using session_run_ok[OF assms(1,2)] by (simp add: session_ok_def memory_ok_def)
  obtain jobs' r' where a: "announce_job now config tip job worker vmask s =
      Some ((announced now job vmask s) \<lparr> s_jobs := jobs' @ [issued_job job worker vmask s], s_retained := r' \<rparr>)"
    "graveyard config (map_option rt_hash tip) r'" "\<forall>p\<in>set (rj_jobs r'). uncreditable (mj_wire job) (snd p)"
    "\<forall>prior\<in>set jobs'. \<not> supersedes (mj_wire job) (wire prior)"
    by (rule announce_job_returns[OF stratum_facts(2)[OF assms(1)] r])
  have s': "s_jobs s' = jobs' @ [issued_job job worker vmask s]" "s_retained s' = r'" using a(1) assms(3) by auto
  have "length (filter (\<lambda>p. capped BlockOnly (map_option rt_hash tip) (snd p)) (rj_jobs r')) \<le> sc_max_jobs_per_connection config"
    using a(2) by (simp add: graveyard_def tally_def)
  then show ?thesis using a(3,4) by (auto simp: s' issued_job_def supersedes_def uncreditable_def)
qed

theorem announced_supersedes_witness:
  "\<exists>s2 s3 :: unit Session. announce_job 3 demo_listener None (demo_work ''b'' 2) demo_miner 0 s2 = Some s3 \<and>
     supersedes (mj_wire (demo_work ''b'' 2)) (mj_wire (demo_work ''a'' 1)) \<and>
     (\<forall>issued\<in>set (s_jobs s3). \<not> supersedes (mj_wire (demo_work ''b'' 2)) (wire issued))"
proof -
  obtain s2 :: "unit Session" where s: "session_run demo_listener s2" by (rule demo_session)
  obtain s3 where s3: "announce_job 3 demo_listener None (demo_work ''b'' 2) demo_miner 0 s2 = Some s3"
    by (rule announce_ok[OF demo_validates session_run_ok[OF demo_validates s]])
  have "supersedes (mj_wire (demo_work ''b'' 2)) (mj_wire (demo_work ''a'' 1))" by (simp add: supersedes_def demo_work_def)
  then show ?thesis using s3 announced_supersedes[OF demo_validates s s3] by blast
qed

end
