(* ===== verification/Spec2Isabelle.thy ===== *)
theory Spec2Isabelle
  imports Pool_Builder Maturity Ctv_Lifecycle Audit_Settlement Payout_Window Broadcast Stratum_Submissions Session_Claims
begin

text \<open>
  Verification of the reward and payout core of the qbit mining stack.

  \<^bold>\<open>The program.\<close> Miners hand in shares. When a block is found, \<^verbatim>\<open>qbit-prism\<close> selects the newest shares worth
  eight times the network difficulty (the reward window), turns their weights into accounts, applies
  the payout policy (floors, pool fee, balances carried from earlier blocks), decides who is paid by the
  coinbase directly and who through fan-out transactions whose outputs are fixed in advance by
  \<^verbatim>\<open>OP_CHECKTEMPLATEVERIFY\<close>, and has \<^verbatim>\<open>qbit-pool-builder\<close> make the coinbase transaction. Everything goes into
  an audit bundle that anybody can verify against the coinbase on the chain. The maturity ledger keeps
  the payments of blocks until they mature, and the balances replayed from it enter the next block.
  \<^verbatim>\<open>qbit-prism-server\<close> keeps the window up to date while shares arrive, makes the coinbase of each template into
  mining jobs, assembles what miners submit into headers and blocks, adjusts the difficulty of each session, remembers
  the work it issued, and pays for stuck fan-outs with child transactions.

  \<^bold>\<open>Theories and code\<close> (paths below \<^verbatim>\<open>src/crates\<close>).
  \<^item> \<open>Prism_Base\<close>: Rust's \<^verbatim>\<open>Result\<close> as a sum type, checked arithmetic on integers of a width, conversions,
    \<^verbatim>\<open>chunks\<close>, numbers and bytes as text. \<open>Ordered_Map\<close>: \<^verbatim>\<open>BTreeMap\<close>. \<open>Largest_Remainder\<close>: the abstract
    specification of proportional splits and the locale that three routines of the code interpret.
    \<open>Prism_Types\<close>: payees, errors, third-party code.
  \<^item> \<open>Pool_Builder\<close> (\<^verbatim>\<open>qbit-pool-builder/src/lib.rs\<close>): order and pinning of entitlements, allocation, scripts, the
    coinbase and its witness commitment, the manifest and its signature.
  \<^item> \<open>Window_Cut\<close> (\<^verbatim>\<open>qbit-prism/src/window_cut.rs\<close>): the cut of a window written by two nodes.
  \<^item> \<open>Reward_Window\<close> (\<^verbatim>\<open>qbit-prism/src/lib.rs\<close>, \<^verbatim>\<open>parallel.rs\<close>): window selection, digests, reward manifests, the
    chunked parallel build. \<open>Chunk_Pool\<close> (\<^verbatim>\<open>parallel.rs\<close>): \<^verbatim>\<open>ordered_chunks\<close>, as a loop and as a step relation of the calling
    thread and the jobs of the pool. \<open>Chunked_Writer\<close> (\<^verbatim>\<open>parallel.rs\<close>): JSON arrays written in frames and structs with a
    spliced field.
  \<^item> \<open>Payout_Policy\<close> and \<open>Maturity\<close> (\<^verbatim>\<open>qbit-prism/src/lib.rs\<close>): \<^verbatim>\<open>apply_payout_policy\<close> with its helpers; the maturity
    ledger as a step relation of connects, tips and disconnects, and the replay of balances.
  \<^item> \<open>Settlement\<close> (\<^verbatim>\<open>qbit-prism/src/settlement.rs\<close>): settlement modes, fan-out chunks, fan-out fees.
  \<^item> \<open>Ctv_Codec\<close>, \<open>Ctv_Fanout\<close>, \<open>Ctv_Lifecycle\<close> (\<^verbatim>\<open>qbit-prism/src/ctv.rs\<close>): the transaction reader and writer;
    precommitments, template hashes, manifests and manifest sets; their life from preparation to
    verification.
  \<^item> \<open>Coinbase_Codec\<close>: the coinbase that \<^verbatim>\<open>qbit-pool-builder\<close> writes, read by the parser of \<^verbatim>\<open>ctv.rs\<close>.
  \<^item> \<open>Audit_Bundle\<close> (\<^verbatim>\<open>qbit-prism/src/lib.rs\<close>): bundles, attestations, commitment leaves, both builders and the
    verifier. \<open>Audit_Verification\<close> and \<open>Audit_Settlement\<close>: what they guarantee without and with fan-outs.
  \<^item> \<open>Payout_Window\<close> (\<^verbatim>\<open>qbit-prism/src/window.rs\<close>): the window kept in pages, taken from a full snapshot and advanced
    by deltas, its canonical bytes and digest, and the check of integer literals in requests.
  \<^item> \<open>Broadcast\<close> (\<^verbatim>\<open>qbit-prism/src/broadcast.rs\<close>): the child that pays for a fan-out, the package, the status of a
    fan-out.
  \<^item> \<open>Stratum_Codec\<close> (\<^verbatim>\<open>qbit-prism-server/src/codec.rs\<close>): walking transactions and blocks, targets, Merkle branches,
    jobs and submissions. \<open>Stratum_Work\<close>: what the walks, the branch and the split of the coinbase compute;
    \<open>Stratum_Jobs\<close>: the invariant of issued jobs, the parts of a submission, exact targets;
    \<open>Stratum_Submissions\<close>: what a submission carries and when it is accepted.
  \<^item> \<open>Double\<close>: Rust's \<^verbatim>\<open>f64\<close> as the bits of the IEEE format with exactly rounded arithmetic, and durations in seconds.
    \<open>Vardiff\<close> (\<^verbatim>\<open>qbit-prism-server/src/vardiff.rs\<close>): the difficulty adjustment.
  \<^item> \<open>Stratum_Session\<close> (\<^verbatim>\<open>qbit-prism-server/src/stratum.rs\<close>, \<^verbatim>\<open>stratum/retained_jobs.rs\<close>, \<^verbatim>\<open>stratum/stale_grace.rs\<close>): the
    listener's configuration and a session's difficulty, budgets and work. \<open>Session_Memory\<close>: retained jobs stay
    consistent and bounded; \<open>Session_Run\<close>: the step relation of a session and its invariant; \<open>Session_Claims\<close>: what a
    session promises.

  \<^bold>\<open>Model.\<close> One definition per function of the code, with helper definitions for its loop bodies and closures. Functions are pure; a function that updates an argument in place returns it. Every \<^verbatim>\<open>return Err\<close>, \<^verbatim>\<open>?\<close>,
  \<^verbatim>\<open>expect\<close> and overflow check is a branch: errors are the values of the source's enums, a panic is the
  error \<open>Panicked\<close>. Integers are \<open>nat\<close> and \<open>int\<close> with the checks and the wrap-around of their width
  written out, bytes are \<open>8 word\<close>. Structs are records; the three strings that name a payee are the
  record \<open>payee\<close> that the others extend. Loops are folds over lists; the only loops that are not
  structural (\<open>fee_loop\<close>, \<open>merkle_root\<close>, \<open>branch_of\<close>, \<open>chunks\<close>, \<open>trim_start\<close>, \<open>submit_ahead\<close>) have termination proofs, so no fuel is used. The loop
  \<open>make_room\<close>, which would not end for a limit of zero jobs, is a partial function with \<open>None\<close> for no end; it is shown to
  end for every validated configuration. An operation of a session that may panic returns an option as well.
  The crates \<^verbatim>\<open>hex\<close>, \<^verbatim>\<open>sha2\<close>, \<^verbatim>\<open>ed25519-dalek\<close> and \<^verbatim>\<open>serde_json\<close> are parameters (the records \<open>crypto\<close>, \<open>json\<close>
  and \<open>numbers\<close>; the last also holds the conversion of big integers to doubles, and nothing is assumed of it).
  Their documented behaviour is \<open>hex_law\<close>, \<open>hex_text_law\<close>, \<open>hex_digits_law\<close>, \<open>sha_law\<close>, \<open>ed25519_law\<close> and, for the form of
  structs and slices in compact JSON, \<open>serde_law\<close>; \<open>demo_crypto\<close> and \<open>demo_json\<close> satisfy them and serve the witnesses. No theorem assumes that a hash is injective; where a statement needs
  it, the collision is named.

  \<^bold>\<open>What is shown.\<close> Coinbase allocation, policy, fan-out fee and fan-out chunks split amounts exactly and within one
  satoshi of proportional; the window is the newest prefix of the eligible shares with the requested
  weight, does not depend on how shares are listed, and the parallel build computes the same; the builder pool, whatever
  the order in which its jobs finish, ends and delivers what the plain loop delivers, and the chunked writer writes the bytes
  of the whole value; balances
  are conserved by the policy, carried by the replay and restored by a reorganisation; settlement pays
  each recipient once, finds a decision exactly when everybody fits through fan-outs, and prefers large recipients; transactions
  survive writing and reading, in both crates; a prepared fan-out can always be finished and a verified
  manifest pays its recipients out of an output that commits to it; manifest sets are complete. On top:
  a verified bundle pays, in the bytes of its coinbase, exactly what the policy owes, and built bundles
  verify for every number of workers and chunk length. A window advanced any number of times is the window of a snapshot, byte for byte. A miner can
  change nothing of a job but extranonce, time, nonce and rolled version bits: every submission pays what
  the manifest pays, its header commits to the whole block, well-formed submissions are never refused, and
  the block decoder gives the parts back. In a session, whatever the connection does, no operation panics,
  the difficulty stays within its limits in the rounded arithmetic of doubles, remembered work is bounded, a new
  payout revision leaves no old work of its parent that could be credited, and budgets bound what they charge.

  \<^bold>\<open>Not modelled.\<close> In the sessions, sockets, frames, the parsing of requests and passwords, semaphores, metrics and the
  hints stored for later sessions. The rest of \<^verbatim>\<open>qbit-prism-server\<close> drives the core over sockets, PostgreSQL, a node RPC and
  timers; its behaviour is that of those services. The serde text layer, the streaming of whole
  bundles in \<^verbatim>\<open>audit_hash.rs\<close>, panics in producers and the threads and buffers behind the pool of \<^verbatim>\<open>parallel.rs\<close>, profiling, the command line
  programs, the load generator, simulators, scripts and vendored libraries are left out.
\<close>

end
